(* ===== verification/Go_Prelude.thy ===== *)
theory Go_Prelude
  imports Main "HOL-Library.Word" "HOL-Library.Sublist" "HOL-Library.Signed_Division"
begin

unbundle bit_operations_syntax

text \<open>
  The part of Go that the components share: bytes and byte slices, the values of Go's
  \<open>error\<close> interface that the modelled packages return, decoders (operations that read
  a value from a byte slice and move the slice forward, with the position they leave
  behind kept on the error path too), little-endian fixed-width integers of
  \<open>encoding/binary\<close>, and the reader side of package \<open>io\<close>. The lemmas at the end are
  the ones every component rests on; those that rewrite are declared \<open>[simp]\<close> or
  collected in \<open>dec_simps\<close>, those that show that a decoder only moves forward in
  \<open>consumes_intros\<close>.
\<close>

section \<open>Types and errors\<close>

type_synonym byte = "8 word"
type_synonym bytes = "byte list"

text \<open>
  The dynamic values of Go's \<open>error\<close>. \<open>Wrap\<close> is \<open>errors.Wrap\<close>, \<open>Errorf\<close> an error made
  on the spot by \<open>errors.New\<close> or \<open>errors.Errorf\<close> with its format and integer arguments.
  \<open>Multi\<close> is what \<open>multierr\<close> makes of two errors.
  \<open>GoPanic\<close> is a run-time panic (a slice expression out of range, a \<open>panic\<close> call),
  which unwinds like an error that nobody handles.
\<close>

datatype go_error =
    ErrUnexpectedEOF
  | EOF
  | ErrWrite
  | InvalidLengthError int string
  | UnexpectedIDErr "32 word"
  | ProtocolErr "32 word"
  | InvalidMsgLenErr int
  | AlignedPayloadExpectedErr int
  | ErrProtocolHeaderMismatch
  | ErrSeqNoMismatch
  | ErrCRCMismatch
  | DecompressionBombErr int int
  | ErrEngineClosed
  | RetryLimitReachedErr int
  | ContextCanceled
  | ContextDeadlineExceeded
  | BadMessageError int "64 word"
  | TgErr int bytes
  | ErrKeyFingerprintNotFound
  | UnexpectedEncryptedError bytes bytes
  | ServerExchangeError "32 word" go_error
  | Errorf string "int list"
  | Wrap string go_error
  | Multi go_error go_error
  | GoPanic string

primrec root_error :: "go_error \<Rightarrow> go_error" where
  "root_error ErrUnexpectedEOF = ErrUnexpectedEOF"
| "root_error EOF = EOF"
| "root_error ErrWrite = ErrWrite"
| "root_error (InvalidLengthError n s) = InvalidLengthError n s"
| "root_error (UnexpectedIDErr i) = UnexpectedIDErr i"
| "root_error (ProtocolErr c) = ProtocolErr c"
| "root_error (InvalidMsgLenErr n) = InvalidMsgLenErr n"
| "root_error (AlignedPayloadExpectedErr n) = AlignedPayloadExpectedErr n"
| "root_error ErrProtocolHeaderMismatch = ErrProtocolHeaderMismatch"
| "root_error ErrSeqNoMismatch = ErrSeqNoMismatch"
| "root_error ErrCRCMismatch = ErrCRCMismatch"
| "root_error (DecompressionBombErr a b) = DecompressionBombErr a b"
| "root_error ErrEngineClosed = ErrEngineClosed"
| "root_error (RetryLimitReachedErr n) = RetryLimitReachedErr n"
| "root_error ContextCanceled = ContextCanceled"
| "root_error ContextDeadlineExceeded = ContextDeadlineExceeded"
| "root_error (BadMessageError c s) = BadMessageError c s"
| "root_error (TgErr c m) = TgErr c m"
| "root_error ErrKeyFingerprintNotFound = ErrKeyFingerprintNotFound"
| "root_error (UnexpectedEncryptedError i f) = UnexpectedEncryptedError i f"
| "root_error (ServerExchangeError c e) = root_error e"
| "root_error (Errorf s ns) = Errorf s ns"
| "root_error (Wrap s e) = root_error e"
| "root_error (Multi e f) = Multi e f"
| "root_error (GoPanic s) = GoPanic s"

section \<open>Decoders\<close>

text \<open>
  A decoder is a method that reads from a slice held by a pointer receiver: it returns a
  value or an error, and the slice as it leaves it. The slice after an error is part of
  the result, since the code may have moved it before it failed.
\<close>

type_synonym 'a dec = "bytes \<Rightarrow> (go_error + 'a) \<times> bytes"

definition dec_return :: "'a \<Rightarrow> 'a dec" where
  "dec_return v = (\<lambda>b. (Inr v, b))"

definition dec_fail :: "go_error \<Rightarrow> 'a dec" where
  "dec_fail e = (\<lambda>b. (Inl e, b))"

definition dec_bind :: "'a dec \<Rightarrow> ('a \<Rightarrow> 'b dec) \<Rightarrow> 'b dec" where
  "dec_bind m f = (\<lambda>b. case m b of (Inl e, b') \<Rightarrow> (Inl e, b') | (Inr v, b') \<Rightarrow> f v b')"

definition dec_wrap :: "string \<Rightarrow> 'a dec \<Rightarrow> 'a dec" where
  "dec_wrap s m = (\<lambda>b. case m b of (Inl e, b') \<Rightarrow> (Inl (Wrap s e), b') | (Inr v, b') \<Rightarrow> (Inr v, b'))"

text \<open>A decoder only moves forward: what it leaves is a suffix of what it was given.\<close>

definition consumes :: "'a dec \<Rightarrow> bool" where
  "consumes d \<longleftrightarrow> (\<forall>b. suffix (snd (d b)) b)"

named_theorems dec_simps
named_theorems consumes_intros

section \<open>Little-endian integers\<close>

text \<open>
  \<open>le_bytes n w\<close> is what \<open>binary.LittleEndian.PutUint\<close> stores for an \<open>n\<close>-byte integer,
  \<open>le_word\<close> what \<open>binary.LittleEndian.Uint\<close> reads: byte 0 is the least significant.
\<close>

primrec le_bytes :: "nat \<Rightarrow> 'a::len word \<Rightarrow> bytes" where
  "le_bytes 0 w = []"
| "le_bytes (Suc n) w = ucast w # le_bytes n (drop_bit 8 w)"

primrec le_word :: "bytes \<Rightarrow> 'a::len word" where
  "le_word [] = 0"
| "le_word (x # xs) = ucast x OR push_bit 8 (le_word xs)"

section \<open>Readers\<close>

text \<open>
  An \<open>io.Reader\<close> is the finite sequence of bytes the peer sends before it closes the
  connection. \<open>io.ReadFull\<close> for \<open>n\<close> bytes returns the bytes it got with the error:
  \<open>EOF\<close> when there was none, \<open>ErrUnexpectedEOF\<close> when there were fewer than \<open>n\<close>.
\<close>

definition io_ReadFull :: "nat \<Rightarrow> bytes \<Rightarrow> bytes \<times> go_error option \<times> bytes" where
  "io_ReadFull n r =
     (take n r,
      if n \<le> length r then None else if r = [] then Some EOF else Some ErrUnexpectedEOF,
      drop n r)"

section \<open>Lemmas\<close>

lemma dec_return_app [simp]: "dec_return v b = (Inr v, b)"
  by (simp add: dec_return_def)

lemma dec_fail_app [simp]: "dec_fail e b = (Inl e, b)"
  by (simp add: dec_fail_def)

lemma dec_bind_Inr [dec_simps]: "m b = (Inr v, b') \<Longrightarrow> dec_bind m f b = f v b'"
  by (simp add: dec_bind_def)

lemma dec_bind_Inl [dec_simps]: "m b = (Inl e, b') \<Longrightarrow> dec_bind m f b = (Inl e, b')"
  by (simp add: dec_bind_def)

lemma dec_wrap_Inr [dec_simps]: "m b = (Inr v, b') \<Longrightarrow> dec_wrap s m b = (Inr v, b')"
  by (simp add: dec_wrap_def)

lemma dec_wrap_Inl [dec_simps]: "m b = (Inl e, b') \<Longrightarrow> dec_wrap s m b = (Inl (Wrap s e), b')"
  by (simp add: dec_wrap_def)

lemma dec_bind_InrE:
  assumes "dec_bind m f b = (Inr w, b'')"
  obtains v b' where "m b = (Inr v, b')" "f v b' = (Inr w, b'')"
  using assms by (auto simp: dec_bind_def split: prod.splits sum.splits)

lemma dec_wrap_InrE:
  assumes "dec_wrap s m b = (Inr w, b')"
  obtains "m b = (Inr w, b')"
  using assms by (auto simp: dec_wrap_def split: prod.splits sum.splits)

lemma consumesI: "(\<And>b. suffix (snd (d b)) b) \<Longrightarrow> consumes d"
  by (simp add: consumes_def)

lemma consumesD: "consumes d \<Longrightarrow> d b = (r, b') \<Longrightarrow> suffix b' b"
  unfolding consumes_def by (metis snd_conv)

lemma consumes_length: "consumes d \<Longrightarrow> d b = (r, b') \<Longrightarrow> length b' \<le> length b"
  by (blast dest: consumesD suffix_length_le)

lemma consumes_return [consumes_intros]: "consumes (dec_return v)"
  by (simp add: consumes_def)

lemma consumes_fail [consumes_intros]: "consumes (dec_fail e)"
  by (simp add: consumes_def)

lemma consumes_bind [consumes_intros]:
  assumes "consumes m" "\<And>v. consumes (f v)"
  shows "consumes (dec_bind m f)"
proof (rule consumesI)
  fix b
  obtain r b' where m: "m b = (r, b')" by fastforce
  show "suffix (snd (dec_bind m f b)) b"
  proof (cases r)
    case (Inl e)
    then show ?thesis using m assms(1) by (auto simp: dec_bind_def dest: consumesD)
  next
    case (Inr v)
    have "suffix (snd (f v b')) b'" using assms(2) by (simp add: consumes_def)
    moreover have "suffix b' b" using m assms(1) by (blast dest: consumesD)
    ultimately show ?thesis using m Inr by (auto simp: dec_bind_def intro: suffix_order.trans)
  qed
qed

lemma consumes_wrap [consumes_intros]: "consumes m \<Longrightarrow> consumes (dec_wrap s m)"
  by (auto simp: consumes_def dec_wrap_def split: prod.splits sum.splits) (metis snd_conv)+

lemma consumes_if [consumes_intros]:
  "consumes d \<Longrightarrow> consumes d' \<Longrightarrow> consumes (if c then d else d')"
  by simp

lemma length_le_bytes [simp]: "length (le_bytes n w) = n"
  by (induction n arbitrary: w) auto

lemma le_bytes_numeral:
  "le_bytes (numeral k) w = ucast w # le_bytes (pred_numeral k) (drop_bit 8 w)"
  by (simp add: numeral_eq_Suc)

lemma le_word_le_bytes_take:
  "le_word (le_bytes n w) = (take_bit (8 * n) w :: 'a::len word)"
proof (induction n arbitrary: w)
  case 0
  then show ?case by simp
next
  case (Suc n)
  show ?case
    by (rule bit_word_eqI)
      (auto simp: Suc bit_simps not_less Suc_le_eq)
qed

lemma le_word_le_bytes: "LENGTH('a) \<le> 8 * n \<Longrightarrow> le_word (le_bytes n w) = (w :: 'a::len word)"
  by (simp add: le_word_le_bytes_take take_bit_word_eq_self)

lemma le_bytes_le_word:
  "length bs = n \<Longrightarrow> 8 * n \<le> LENGTH('a) \<Longrightarrow> le_bytes n (le_word bs :: 'a::len word) = bs"
proof (induction bs arbitrary: n)
  case Nil
  then show ?case by simp
next
  case (Cons x xs)
  then obtain m where n: "n = Suc m" and m: "length xs = m" by auto
  let ?w = "ucast x OR push_bit 8 (le_word xs) :: 'a word"
  have small: "8 * m + 8 \<le> LENGTH('a)" using Cons.prems n by simp
  have hd: "ucast ?w = x"
    using small by (intro bit_word_eqI) (auto simp: bit_simps)
  have "drop_bit 8 ?w = take_bit (LENGTH('a) - 8) (le_word xs :: 'a word)"
    using small by (intro bit_word_eqI) (auto simp: bit_simps dest: bit_imp_le_length)
  moreover have "le_bytes k (take_bit (8 * k + j) u) = le_bytes k (u :: 'a word)" for k j u
  proof (induction k arbitrary: u j)
    case (Suc k)
    have "ucast (take_bit (8 * Suc k + j) u) = (ucast u :: byte)"
      by (rule bit_word_eqI) (auto simp: bit_simps)
    moreover have "drop_bit 8 (take_bit (8 * Suc k + j) u) = take_bit (8 * k + j) (drop_bit 8 u)"
      by (rule bit_word_eqI) (auto simp: bit_simps)
    ultimately show ?case using Suc by simp
  qed simp
  then have "le_bytes m (take_bit (LENGTH('a) - 8) (le_word xs :: 'a word)) = le_bytes m (le_word xs :: 'a word)"
    using small by (metis add_diff_inverse_nat add_le_imp_le_diff not_less)
  ultimately show ?case using Cons.IH[OF m] small hd n by simp
qed

lemma sdiv_nonneg [simp]: "0 \<le> a \<Longrightarrow> 0 < b \<Longrightarrow> a sdiv b = a div (b :: int)"
  by (cases "a = 0") (auto simp: signed_divide_int_def)

lemma smod_nonneg [simp]: "0 \<le> a \<Longrightarrow> 0 < b \<Longrightarrow> a smod b = a mod (b :: int)"
  by (cases "a = 0") (auto simp: signed_modulo_int_def)

lemma sint64_of_int: "- (2 ^ 63) \<le> v \<Longrightarrow> v < 2 ^ 63 \<Longrightarrow> sint (word_of_int v :: 64 word) = v"
  by (simp add: signed_of_int signed_take_bit_int_eq_self)

lemma io_ReadFull_app [simp]: "n = length p \<Longrightarrow> io_ReadFull n (p @ r) = (p, None, r)"
  by (simp add: io_ReadFull_def)

end
