(* ===== verification/Bin.thy ===== *)
theory Bin
  imports Go_Prelude
begin

text \<open>
  Package \<open>bin\<close>: the TL wire format. A \<open>bin.Buffer\<close> is a struct whose one field is the
  slice \<open>Buf\<close>; it is represented by the contents of that slice. The \<open>Put\<close> methods
  (\<open>encode.go\<close>, \<open>bytes.go\<close>, \<open>string.go\<close>) append to the slice, the reading methods
  (\<open>decode.go\<close>) are decoders that take their value from its front. A Go string is its
  bytes. \<open>int32\<close> and \<open>int64\<close> values are words of their width, read as signed where the
  code compares them; a Go \<open>int\<close>, 64 bits wide, is an \<open>int\<close>, since every \<open>int\<close> here is a
  slice length or comes from 32 bits. The locale \<open>tl_field\<close> is what the rest of the
  program relies on: a pair of a \<open>Put\<close> and a reading method for one type.
\<close>

section \<open>Constants, bin.go and string.go\<close>

type_synonym buffer = bytes

definition TypeVector :: "32 word" where "TypeVector = 0x1cb5c415"
definition TypeTrue :: "32 word" where "TypeTrue = 0x997275b5"
definition TypeFalse :: "32 word" where "TypeFalse = 0xbc799737"

definition Word :: nat where "Word = 4"

definition nearestPaddedValueLength :: "nat \<Rightarrow> nat" where
  "nearestPaddedValueLength l =
     (let n = Word * (l div Word) in if n < l then n + Word else n)"

definition maxSmallStringLength :: nat where "maxSmallStringLength = 253"
definition firstLongStringByte :: byte where "firstLongStringByte = 254"
definition maxLongStringLength :: nat where "maxLongStringLength = 2 ^ 24 - 1"

section \<open>buffer.go\<close>

definition Buffer_ResetN :: "nat \<Rightarrow> buffer \<Rightarrow> buffer" where
  "Buffer_ResetN n b = take 0 b @ replicate n 0"

definition Buffer_Expand :: "nat \<Rightarrow> buffer \<Rightarrow> buffer" where
  "Buffer_Expand n b = b @ replicate n 0"

definition Buffer_Reset :: "buffer \<Rightarrow> buffer" where
  "Buffer_Reset b = take 0 b"

definition Buffer_ResetTo :: "bytes \<Rightarrow> buffer \<Rightarrow> buffer" where
  "Buffer_ResetTo buf b = buf"

text \<open>\<open>b.Buf[n:]\<close> panics when \<open>n\<close> is negative or beyond the length.\<close>

definition Buffer_Skip :: "int \<Rightarrow> unit dec" where
  "Buffer_Skip n = (\<lambda>b.
     if n < 0 \<or> int (length b) < n then (Inl (GoPanic ''slice bounds out of range''), b)
     else (Inr (), drop (nat n) b))"

text \<open>Go's \<open>copy(dst, src)\<close>: the destination afterwards.\<close>

definition go_copy :: "bytes \<Rightarrow> bytes \<Rightarrow> bytes" where
  "go_copy dst src = take (length dst) src @ drop (length src) dst"

text \<open>\<open>Read(p)\<close>: \<open>p\<close> afterwards, the count, the error and the buffer.\<close>

definition Buffer_Read :: "bytes \<Rightarrow> buffer \<Rightarrow> bytes \<times> nat \<times> go_error option \<times> buffer" where
  "Buffer_Read p b =
     (if length p = 0 then (p, 0, None, b)
      else if length b = 0 then (p, 0, Some EOF, b)
      else (let n = min (length p) (length b) in (go_copy p b, n, None, drop n b)))"

section \<open>encode.go and bytes.go\<close>

definition Buffer_Put :: "bytes \<Rightarrow> buffer \<Rightarrow> buffer" where
  "Buffer_Put raw b = b @ raw"

definition Buffer_PutUint16 :: "16 word \<Rightarrow> buffer \<Rightarrow> buffer" where
  "Buffer_PutUint16 v b = b @ le_bytes 2 v"

definition Buffer_PutUint32 :: "32 word \<Rightarrow> buffer \<Rightarrow> buffer" where
  "Buffer_PutUint32 v b = b @ le_bytes Word v"

definition Buffer_PutUint64 :: "64 word \<Rightarrow> buffer \<Rightarrow> buffer" where
  "Buffer_PutUint64 v b = b @ le_bytes (Word * 2) v"

definition Buffer_PutID :: "32 word \<Rightarrow> buffer \<Rightarrow> buffer" where
  "Buffer_PutID i b = Buffer_PutUint32 i b"

definition Buffer_PutInt32 :: "32 word \<Rightarrow> buffer \<Rightarrow> buffer" where
  "Buffer_PutInt32 v b = Buffer_PutUint32 v b"

text \<open>\<open>int32(v)\<close> keeps the low 32 bits of an \<open>int\<close>.\<close>

definition Buffer_PutInt :: "int \<Rightarrow> buffer \<Rightarrow> buffer" where
  "Buffer_PutInt v b = Buffer_PutInt32 (word_of_int v) b"

definition Buffer_PutLong :: "64 word \<Rightarrow> buffer \<Rightarrow> buffer" where
  "Buffer_PutLong v b = Buffer_PutUint64 v b"

text \<open>A \<open>float64\<close> is given by its 64 bits (\<open>math.Float64bits\<close>), which is all the code uses of it.\<close>

definition Buffer_PutDouble :: "64 word \<Rightarrow> buffer \<Rightarrow> buffer" where
  "Buffer_PutDouble v b = Buffer_PutUint64 v b"

definition Buffer_PutInt53 :: "64 word \<Rightarrow> buffer \<Rightarrow> buffer" where
  "Buffer_PutInt53 v b = Buffer_PutLong v b"

definition Buffer_PutVectorHeader :: "int \<Rightarrow> buffer \<Rightarrow> buffer" where
  "Buffer_PutVectorHeader n b = Buffer_PutInt32 (word_of_int n) (Buffer_PutID TypeVector b)"

definition Buffer_PutBool :: "bool \<Rightarrow> buffer \<Rightarrow> buffer" where
  "Buffer_PutBool v b = (if v then Buffer_PutID TypeTrue b else Buffer_PutID TypeFalse b)"

text \<open>\<open>Int128\<close> and \<open>Int256\<close> are arrays of 16 and 32 bytes.\<close>

definition Buffer_PutInt128 :: "bytes \<Rightarrow> buffer \<Rightarrow> buffer" where
  "Buffer_PutInt128 v b = b @ v"

definition Buffer_PutInt256 :: "bytes \<Rightarrow> buffer \<Rightarrow> buffer" where
  "Buffer_PutInt256 v b = b @ v"

text \<open>
  \<open>byte(l)\<close>, \<open>byte(l>>8)\<close> and \<open>byte(l>>16)\<close> keep eight bits each: the header holds the
  length modulo \<open>2 ^ 24\<close>.
\<close>

definition encodeBytes :: "bytes \<Rightarrow> bytes \<Rightarrow> bytes" where
  "encodeBytes b v =
     (let l = length v in
      if l \<le> maxSmallStringLength then
        (let currentLen = l + 1 in
         b @ [word_of_nat l] @ v @ replicate (nearestPaddedValueLength currentLen - currentLen) 0)
      else
        (let currentLen = l + 4 in
         b @ [firstLongStringByte, word_of_nat l, word_of_nat (drop_bit 8 l), word_of_nat (drop_bit 16 l)]
           @ v @ replicate (nearestPaddedValueLength currentLen - currentLen) 0))"

definition encodeString :: "bytes \<Rightarrow> bytes \<Rightarrow> bytes" where
  "encodeString b v =
     (let l = length v in
      if l \<le> maxSmallStringLength then
        (let currentLen = l + 1 in
         b @ [word_of_nat l] @ v @ replicate (nearestPaddedValueLength currentLen - currentLen) 0)
      else
        (let currentLen = l + 4 in
         b @ [firstLongStringByte, word_of_nat l, word_of_nat (drop_bit 8 l), word_of_nat (drop_bit 16 l)]
           @ v @ replicate (nearestPaddedValueLength currentLen - currentLen) 0))"

definition Buffer_PutBytes :: "bytes \<Rightarrow> buffer \<Rightarrow> buffer" where
  "Buffer_PutBytes v b = encodeBytes b v"

definition Buffer_PutString :: "bytes \<Rightarrow> buffer \<Rightarrow> buffer" where
  "Buffer_PutString s b = encodeString b s"

definition Buffer_PutBytesChecked :: "bytes \<Rightarrow> buffer \<Rightarrow> go_error option \<times> buffer" where
  "Buffer_PutBytesChecked v b =
     (if length v > maxLongStringLength then (Some (InvalidLengthError (int (length v)) ''bytes''), b)
      else (None, Buffer_PutBytes v b))"

definition Buffer_PutStringChecked :: "bytes \<Rightarrow> buffer \<Rightarrow> go_error option \<times> buffer" where
  "Buffer_PutStringChecked s b =
     (if length s > maxLongStringLength then (Some (InvalidLengthError (int (length s)) ''string''), b)
      else (None, Buffer_PutString s b))"

section \<open>decode.go\<close>

definition Buffer_PeekID :: "32 word dec" where
  "Buffer_PeekID = (\<lambda>b. if length b < Word then (Inl ErrUnexpectedEOF, b) else (Inr (le_word (take Word b)), b))"

text \<open>\<open>PeekN(target, n)\<close>: the value is \<open>target\<close> afterwards.\<close>

definition Buffer_PeekN :: "bytes \<Rightarrow> int \<Rightarrow> bytes dec" where
  "Buffer_PeekN target n = (\<lambda>b.
     if int (length b) < n then (Inl ErrUnexpectedEOF, b)
     else if n < 0 then (Inl (GoPanic ''slice bounds out of range''), b)
     else (Inr (go_copy target (take (nat n) b)), b))"

definition Buffer_Uint32 :: "32 word dec" where
  "Buffer_Uint32 = dec_bind Buffer_PeekID (\<lambda>v b. (Inr v, drop Word b))"

definition Buffer_ID :: "32 word dec" where
  "Buffer_ID = Buffer_Uint32"

definition Buffer_Uint64 :: "64 word dec" where
  "Buffer_Uint64 = (\<lambda>b.
     let size = Word * 2 in
     if length b < size then (Inl ErrUnexpectedEOF, b)
     else (Inr (le_word (take size b)), drop size b))"

definition Buffer_Int32 :: "32 word dec" where
  "Buffer_Int32 = dec_bind Buffer_Uint32 dec_return"

definition Buffer_ConsumeN :: "bytes \<Rightarrow> int \<Rightarrow> bytes dec" where
  "Buffer_ConsumeN target n = dec_bind (Buffer_PeekN target n) (\<lambda>t b. (Inr t, drop (nat n) b))"

definition Buffer_Bool :: "bool dec" where
  "Buffer_Bool = dec_bind Buffer_PeekID (\<lambda>v b.
     if v = TypeTrue then (Inr True, drop Word b)
     else if v = TypeFalse then (Inr False, drop Word b)
     else (Inl (UnexpectedIDErr v), b))"

definition Buffer_ConsumeID :: "32 word \<Rightarrow> unit dec" where
  "Buffer_ConsumeID i = dec_bind Buffer_PeekID (\<lambda>v b.
     if v \<noteq> i then (Inl (UnexpectedIDErr v), b) else (Inr (), drop Word b))"

definition Buffer_Int :: "int dec" where
  "Buffer_Int = dec_bind Buffer_Int32 (\<lambda>v. dec_return (sint v))"

definition Buffer_VectorHeader :: "int dec" where
  "Buffer_VectorHeader =
     dec_bind (Buffer_ConsumeID TypeVector) (\<lambda>_.
     dec_bind Buffer_Int (\<lambda>n.
     if n < 0 then dec_fail (InvalidLengthError n ''vector'') else dec_return n))"

definition decodeBytes :: "bytes \<Rightarrow> go_error + nat \<times> bytes" where
  "decodeBytes b =
     (if length b = 0 then Inl ErrUnexpectedEOF
      else if b ! 0 = firstLongStringByte then
        (if length b < 4 then Inl ErrUnexpectedEOF
         else
           (let strLen = unat ((ucast (b ! 1) :: 32 word) OR push_bit 8 (ucast (b ! 2)) OR push_bit 16 (ucast (b ! 3))) in
            if length b < strLen + 4 then Inl ErrUnexpectedEOF
            else Inr (nearestPaddedValueLength (strLen + 4), take strLen (drop 4 b))))
      else
        (let strLen = unat (b ! 0) in
         if length b < strLen + 1 then Inl ErrUnexpectedEOF
         else if strLen > maxSmallStringLength then Inl (InvalidLengthError (int strLen) ''bytes'')
         else Inr (nearestPaddedValueLength (strLen + 1), take strLen (drop 1 b))))"

definition decodeString :: "bytes \<Rightarrow> go_error + nat \<times> bytes" where
  "decodeString b =
     (if length b = 0 then Inl ErrUnexpectedEOF
      else if b ! 0 = firstLongStringByte then
        (if length b < 4 then Inl ErrUnexpectedEOF
         else
           (let strLen = unat ((ucast (b ! 1) :: 32 word) OR push_bit 8 (ucast (b ! 2)) OR push_bit 16 (ucast (b ! 3))) in
            if length b < strLen + 4 then Inl ErrUnexpectedEOF
            else Inr (nearestPaddedValueLength (strLen + 4), take strLen (drop 4 b))))
      else
        (let strLen = unat (b ! 0) in
         if length b < strLen + 1 then Inl ErrUnexpectedEOF
         else if strLen > maxSmallStringLength then Inl (InvalidLengthError (int strLen) ''string'')
         else Inr (nearestPaddedValueLength (strLen + 1), take strLen (drop 1 b))))"

definition Buffer_Bytes :: "bytes dec" where
  "Buffer_Bytes = (\<lambda>b. case decodeBytes b of
     Inl e \<Rightarrow> (Inl e, b)
   | Inr (n, v) \<Rightarrow> if length b < n then (Inl ErrUnexpectedEOF, b) else (Inr v, drop n b))"

definition Buffer_String :: "bytes dec" where
  "Buffer_String = (\<lambda>b. case decodeString b of
     Inl e \<Rightarrow> (Inl e, b)
   | Inr (n, v) \<Rightarrow> if length b < n then (Inl ErrUnexpectedEOF, b) else (Inr v, drop n b))"

definition Buffer_Long :: "64 word dec" where
  "Buffer_Long = dec_bind Buffer_Uint64 dec_return"

definition Buffer_Double :: "64 word dec" where
  "Buffer_Double = dec_bind Buffer_Long dec_return"

definition Buffer_Int53 :: "64 word dec" where
  "Buffer_Int53 = Buffer_Long"

definition Buffer_Int128 :: "bytes dec" where
  "Buffer_Int128 = (\<lambda>b. let size = 16 in
     if length b < size then (Inl ErrUnexpectedEOF, b) else (Inr (take size b), drop size b))"

definition Buffer_Int256 :: "bytes dec" where
  "Buffer_Int256 = (\<lambda>b. let size = 32 in
     if length b < size then (Inl ErrUnexpectedEOF, b) else (Inr (take size b), drop size b))"

section \<open>fields.go\<close>

type_synonym Fields = "32 word"

definition Fields_Zero :: "Fields \<Rightarrow> bool" where
  "Fields_Zero f \<longleftrightarrow> f = 0"

definition Fields_Decode :: "Fields dec" where
  "Fields_Decode = dec_bind Buffer_Int32 dec_return"

definition Fields_Encode :: "Fields \<Rightarrow> buffer \<Rightarrow> buffer" where
  "Fields_Encode f b = Buffer_PutUint32 f b"

text \<open>\<open>1 << n\<close> in 32 bits: 0 from \<open>n = 32\<close> on. The field numbers of a TL constructor are
  constants, so \<open>n\<close> is never negative (a negative shift panics).\<close>

definition Fields_Has :: "Fields \<Rightarrow> nat \<Rightarrow> bool" where
  "Fields_Has f n \<longleftrightarrow> f AND push_bit n 1 \<noteq> 0"

definition Fields_Unset :: "nat \<Rightarrow> Fields \<Rightarrow> Fields" where
  "Fields_Unset n f = f AND NOT (push_bit n 1)"

definition Fields_Set :: "nat \<Rightarrow> Fields \<Rightarrow> Fields" where
  "Fields_Set n f = f OR push_bit n 1"

section \<open>pool.go\<close>

text \<open>
  The buffers that \<open>sync.Pool\<close> holds. \<open>Get\<close> may return any of them or a fresh one: which
  one is the argument \<open>k\<close>, an index beyond the end standing for a fresh buffer.
\<close>

definition Pool_Put :: "buffer \<Rightarrow> buffer list \<Rightarrow> buffer list" where
  "Pool_Put buf p = buf # p"

definition Pool_Get :: "nat \<Rightarrow> buffer list \<Rightarrow> buffer \<times> buffer list" where
  "Pool_Get k p =
     (if k < length p then (Buffer_Reset (p ! k), take k p @ drop (Suc k) p)
      else (Buffer_Reset [], p))"

definition Pool_GetSize :: "nat \<Rightarrow> nat \<Rightarrow> buffer list \<Rightarrow> buffer \<times> buffer list" where
  "Pool_GetSize n k p = (case Pool_Get k p of (buf, p') \<Rightarrow> (Buffer_ResetN n buf, p'))"

section \<open>The interface: fields of a TL value\<close>

text \<open>
  What the callers of \<open>bin\<close> rely on for each type: the \<open>Put\<close> method appends a word-aligned
  encoding that does not depend on what the buffer holds, and the reading method takes
  exactly that encoding off the front, whatever follows it.
\<close>

locale tl_field =
  fixes put :: "'a \<Rightarrow> buffer \<Rightarrow> buffer"
    and get :: "'a dec"
    and ok :: "'a \<Rightarrow> bool"
  assumes put_append: "put v b = b @ put v []"
    and put_aligned: "ok v \<Longrightarrow> 4 dvd length (put v [])"
    and get_put: "ok v \<Longrightarrow> get (put v [] @ rest) = (Inr v, rest)"
    and get_consumes: "consumes get"
begin

lemma get_put_Nil: "ok v \<Longrightarrow> get (put v []) = (Inr v, [])"
  using get_put[of v "[]"] by simp

lemma put_prefix_free:
  assumes "ok v" "ok w" "put v [] @ r = put w [] @ s"
  shows "v = w \<and> r = s"
proof -
  have "get (put w [] @ s) = (Inr v, r)" using get_put[OF assms(1), of r] by (simp only: assms(3))
  with get_put[OF assms(2), of s] show ?thesis by simp
qed

lemma put_inject: "ok v \<Longrightarrow> ok w \<Longrightarrow> put v b = put w b \<longleftrightarrow> v = w"
  using put_prefix_free[of v w "[]" "[]"] put_append by (metis append_Nil2 same_append_eq)

lemma fold_put: "fold put vs b = b @ concat (map (\<lambda>v. put v []) vs)"
proof (induction vs arbitrary: b)
  case (Cons v vs)
  have "fold put (v # vs) b = put v b @ concat (map (\<lambda>v. put v []) vs)"
    using Cons by simp
  then show ?case using put_append[of v b] by simp
qed simp

end

text \<open>
  The fixed-width types promise more: the encoding is the only thing the reading method
  takes for a value, so a decoder built from them accepts no second form of a message.
\<close>

locale tl_exact = tl_field +
  assumes get_only: "get b = (Inr v, rest) \<Longrightarrow> b = put v [] @ rest \<and> ok v"
begin

lemma get_iff: "get b = (Inr v, rest) \<longleftrightarrow> ok v \<and> b = put v [] @ rest"
  using get_only get_put by blast

lemma bind_get_iff:
  "dec_bind get f b = (Inr w, rest) \<longleftrightarrow> (\<exists>v b'. ok v \<and> b = put v [] @ b' \<and> f v b' = (Inr w, rest))"
  by (auto simp: dec_simps get_put elim!: dec_bind_InrE dest!: get_only)

end

section \<open>Lemmas\<close>

lemma le_word32_roundtrip [simp]: "le_word (le_bytes Word v) = (v :: 32 word)"
  by (rule le_word_le_bytes) (simp add: Word_def)

lemma le_word64_roundtrip [simp]: "le_word (le_bytes (Word * 2) v) = (v :: 64 word)"
  by (rule le_word_le_bytes) (simp add: Word_def)

lemma Word_aligned [simp]: "4 dvd Word" "4 dvd Word * 2"
  by (simp_all add: Word_def)

subsection \<open>Padding\<close>

lemma nearestPaddedValueLength_ge: "l \<le> nearestPaddedValueLength l"
  and nearestPaddedValueLength_dvd: "4 dvd nearestPaddedValueLength l"
  and nearestPaddedValueLength_less: "nearestPaddedValueLength l < l + 4"
  by (auto simp: nearestPaddedValueLength_def Word_def Let_def)

lemma nearestPaddedValueLength_diff [simp]:
  "l + (nearestPaddedValueLength l - l) = nearestPaddedValueLength l"
  using nearestPaddedValueLength_ge[of l] by simp

subsection \<open>Strings and bytes\<close>

lemma long_header:
  "unat ((ucast (word_of_nat l :: byte) :: 32 word) OR push_bit 8 (ucast (word_of_nat (drop_bit 8 l) :: byte))
      OR push_bit 16 (ucast (word_of_nat (drop_bit 16 l) :: byte))) = l mod 2 ^ 24"
proof -
  have "(ucast (word_of_nat l :: byte) :: 32 word) OR push_bit 8 (ucast (word_of_nat (drop_bit 8 l) :: byte))
      OR push_bit 16 (ucast (word_of_nat (drop_bit 16 l) :: byte)) = word_of_nat (take_bit 24 l)"
    apply (rule bit_word_eqI)
    subgoal for n by (cases "n < 16") (auto simp: bit_simps)
    done
  moreover have "take_bit 24 l < (2::nat) ^ 32"
    by (rule order_less_trans[OF take_bit_nat_less_exp]) simp
  ultimately show ?thesis by (simp add: unat_of_nat take_bit_eq_mod)
qed

lemma encodeString_eq: "encodeString = encodeBytes"
  by (simp add: fun_eq_iff encodeString_def encodeBytes_def)

lemma encodeBytes_append: "encodeBytes b v = b @ encodeBytes [] v"
  by (simp add: encodeBytes_def Let_def)

lemma length_encodeBytes:
  "length (encodeBytes b v) =
     length b + nearestPaddedValueLength (length v + (if length v \<le> maxSmallStringLength then 1 else 4))"
  using nearestPaddedValueLength_diff[of "length v + 1"] nearestPaddedValueLength_diff[of "length v + 4"]
  by (auto simp: encodeBytes_def Let_def simp del: nearestPaddedValueLength_diff)

lemma decodeBytes_encodeBytes:
  assumes "length v \<le> maxLongStringLength"
  shows "decodeBytes (encodeBytes [] v @ rest) = Inr (length (encodeBytes [] v), v)"
proof (cases "length v \<le> maxSmallStringLength")
  case True
  then have l: "length v \<le> 253" by (simp add: maxSmallStringLength_def)
  then have u: "unat (word_of_nat (length v) :: byte) = length v"
    by (simp add: unat_of_nat)
  have ne: "(word_of_nat (length v) :: byte) \<noteq> firstLongStringByte"
  proof
    assume "(word_of_nat (length v) :: byte) = firstLongStringByte"
    then have "unat (word_of_nat (length v) :: byte) = 254" by (simp add: firstLongStringByte_def)
    with u l show False by simp
  qed
  have enc: "encodeBytes [] v = word_of_nat (length v) # v
      @ replicate (nearestPaddedValueLength (length v + 1) - (length v + 1)) 0"
    using True by (simp add: encodeBytes_def Let_def)
  show ?thesis
    unfolding decodeBytes_def length_encodeBytes using True ne by (simp add: enc u Let_def)
next
  case False
  then have enc: "encodeBytes [] v =
      [firstLongStringByte, word_of_nat (length v), word_of_nat (drop_bit 8 (length v)), word_of_nat (drop_bit 16 (length v))]
      @ v @ replicate (nearestPaddedValueLength (length v + 4) - (length v + 4)) 0"
    by (simp add: encodeBytes_def Let_def)
  have small: "length v mod 16777216 = length v"
    using assms by (simp add: maxLongStringLength_def)
  show ?thesis
    unfolding decodeBytes_def length_encodeBytes using False
    by (simp add: enc Let_def long_header small del: word_of_nat_eq_iff)
qed

lemma decodeString_decodeBytes:
  "decodeString b = (case decodeBytes b of
     Inl (InvalidLengthError n s) \<Rightarrow> Inl (InvalidLengthError n ''string'') | r \<Rightarrow> r)"
  by (simp add: decodeString_def decodeBytes_def Let_def)

lemma Buffer_Bytes_PutBytes:
  assumes "length v \<le> maxLongStringLength"
  shows "Buffer_Bytes (Buffer_PutBytes v [] @ rest) = (Inr v, rest)"
  by (simp add: Buffer_Bytes_def Buffer_PutBytes_def decodeBytes_encodeBytes[OF assms])

lemma Buffer_String_PutString:
  assumes "length v \<le> maxLongStringLength"
  shows "Buffer_String (Buffer_PutString v [] @ rest) = (Inr v, rest)"
  by (simp add: Buffer_String_def Buffer_PutString_def decodeString_decodeBytes encodeString_eq
      decodeBytes_encodeBytes[OF assms])

subsection \<open>Decoders only move forward\<close>

lemma consumes_drop: "(\<And>b. \<exists>n. snd (d b) = drop n b) \<Longrightarrow> consumes d"
  by (rule consumesI) (metis suffix_drop)

lemma consumes_PeekID [consumes_intros]: "consumes Buffer_PeekID"
  by (simp add: consumes_def Buffer_PeekID_def)

lemma consumes_cond_drop [consumes_intros]:
  "consumes (\<lambda>b. (r b, drop (n b) b))"
  by (simp add: consumes_def suffix_drop)

lemma consumes_Uint32 [consumes_intros]: "consumes Buffer_Uint32"
  unfolding Buffer_Uint32_def by (intro consumes_intros)

lemma consumes_Uint64 [consumes_intros]: "consumes Buffer_Uint64"
  by (simp add: consumes_def Buffer_Uint64_def suffix_drop Let_def)

lemma consumes_Int32 [consumes_intros]: "consumes Buffer_Int32"
  unfolding Buffer_Int32_def by (intro consumes_intros)

lemma consumes_Int [consumes_intros]: "consumes Buffer_Int"
  unfolding Buffer_Int_def by (intro consumes_intros)

lemma consumes_Long [consumes_intros]: "consumes Buffer_Long"
  unfolding Buffer_Long_def by (intro consumes_intros)

lemma consumes_PeekN [consumes_intros]: "consumes (Buffer_PeekN t n)"
  by (simp add: consumes_def Buffer_PeekN_def)

lemma consumes_ConsumeN [consumes_intros]: "consumes (Buffer_ConsumeN t n)"
  unfolding Buffer_ConsumeN_def by (intro consumes_intros)

lemma consumes_Skip [consumes_intros]: "consumes (Buffer_Skip n)"
  by (simp add: consumes_def Buffer_Skip_def suffix_drop)

lemma consumes_Bool [consumes_intros]: "consumes Buffer_Bool"
  unfolding Buffer_Bool_def
  by (rule consumes_bind[OF consumes_PeekID]) (simp add: consumes_def suffix_drop)

lemma consumes_ConsumeID [consumes_intros]: "consumes (Buffer_ConsumeID i)"
  unfolding Buffer_ConsumeID_def
  by (rule consumes_bind[OF consumes_PeekID]) (simp add: consumes_def suffix_drop)

lemma consumes_VectorHeader [consumes_intros]: "consumes Buffer_VectorHeader"
  unfolding Buffer_VectorHeader_def by (intro consumes_intros)

lemma consumes_Bytes [consumes_intros]: "consumes Buffer_Bytes"
  by (auto simp: consumes_def Buffer_Bytes_def suffix_drop split: sum.splits prod.splits)

lemma consumes_String [consumes_intros]: "consumes Buffer_String"
  by (auto simp: consumes_def Buffer_String_def suffix_drop split: sum.splits prod.splits)

lemma consumes_Int128 [consumes_intros]: "consumes Buffer_Int128"
  by (simp add: consumes_def Buffer_Int128_def suffix_drop Let_def)

lemma consumes_Int256 [consumes_intros]: "consumes Buffer_Int256"
  by (simp add: consumes_def Buffer_Int256_def suffix_drop Let_def)

subsection \<open>Every type of the wire format is a field\<close>

lemma PeekID_app: "Buffer_PeekID (le_bytes Word v @ rest) = (Inr v, le_bytes Word v @ rest)"
  by (simp add: Buffer_PeekID_def)

lemma Uint32_app: "Buffer_Uint32 (le_bytes Word v @ rest) = (Inr v, rest)"
  by (simp add: Buffer_Uint32_def PeekID_app dec_simps)

lemma Uint64_app: "Buffer_Uint64 (le_bytes (Word * 2) v @ rest) = (Inr v, rest)"
  by (simp add: Buffer_Uint64_def Let_def)

lemma Int32_app: "Buffer_Int32 (le_bytes Word v @ rest) = (Inr v, rest)"
  by (simp add: Buffer_Int32_def Uint32_app dec_simps)

lemma Long_app: "Buffer_Long (le_bytes (Word * 2) v @ rest) = (Inr v, rest)"
  by (simp add: Buffer_Long_def Uint64_app dec_simps)

lemma ConsumeID_app: "Buffer_ConsumeID v (le_bytes Word v @ rest) = (Inr (), rest)"
  by (simp add: Buffer_ConsumeID_def PeekID_app dec_simps)

lemma ConsumeID_other:
  "v \<noteq> i \<Longrightarrow> Buffer_ConsumeID i (le_bytes Word v @ rest) = (Inl (UnexpectedIDErr v), le_bytes Word v @ rest)"
  by (simp add: Buffer_ConsumeID_def PeekID_app dec_simps)

definition is_int32 :: "int \<Rightarrow> bool" where
  "is_int32 v \<longleftrightarrow> - (2 ^ 31) \<le> v \<and> v < 2 ^ 31"

lemma sint_word_of_int32: "is_int32 v \<Longrightarrow> sint (word_of_int v :: 32 word) = v"
  by (simp add: is_int32_def signed_of_int signed_take_bit_int_eq_self)

lemma Int_app: "is_int32 v \<Longrightarrow> Buffer_Int (le_bytes Word (word_of_int v :: 32 word) @ rest) = (Inr v, rest)"
  by (simp add: Buffer_Int_def Int32_app dec_simps sint_word_of_int32)

lemmas put_defs = Buffer_Put_def Buffer_PutUint32_def Buffer_PutUint64_def Buffer_PutID_def
  Buffer_PutInt32_def Buffer_PutInt_def Buffer_PutLong_def Buffer_PutBool_def
  Buffer_PutInt128_def Buffer_PutInt256_def Buffer_PutVectorHeader_def

lemmas get_apps = Uint32_app Uint64_app Int32_app Long_app ConsumeID_app Int_app

lemma PeekID_only: "Buffer_PeekID b = (Inr v, b') \<Longrightarrow> b' = b \<and> (\<exists>r. b = le_bytes Word v @ r)"
  by (auto simp: Buffer_PeekID_def le_bytes_le_word Word_def split: if_splits)
    (metis append_take_drop_id)

lemma Uint32_only: "Buffer_Uint32 b = (Inr v, rest) \<Longrightarrow> b = le_bytes Word v @ rest"
  by (auto simp: Buffer_Uint32_def dec_bind_def split: prod.splits sum.splits dest!: PeekID_only)

lemma Uint64_only: "Buffer_Uint64 b = (Inr v, rest) \<Longrightarrow> b = le_bytes (Word * 2) v @ rest"
  by (auto simp: Buffer_Uint64_def Let_def le_bytes_le_word Word_def split: if_splits)

lemma Int32_only: "Buffer_Int32 b = (Inr v, rest) \<Longrightarrow> b = le_bytes Word v @ rest"
  by (auto simp: Buffer_Int32_def elim!: dec_bind_InrE dest!: Uint32_only)

lemma Long_only: "Buffer_Long b = (Inr v, rest) \<Longrightarrow> b = le_bytes (Word * 2) v @ rest"
  by (auto simp: Buffer_Long_def elim!: dec_bind_InrE dest!: Uint64_only)

lemma sint32_range: "is_int32 (sint (w :: 32 word))"
  using sint_ge[of w] sint_lt[of w] by (simp add: is_int32_def)

lemma Int_only:
  "Buffer_Int b = (Inr v, rest) \<Longrightarrow> b = le_bytes Word (word_of_int v :: 32 word) @ rest \<and> is_int32 v"
  by (auto simp: Buffer_Int_def sint32_range elim!: dec_bind_InrE dest!: Int32_only)

lemma ConsumeID_only: "Buffer_ConsumeID i b = (Inr u, rest) \<Longrightarrow> b = le_bytes Word i @ rest"
  by (auto simp: Buffer_ConsumeID_def elim!: dec_bind_InrE split: if_splits dest!: PeekID_only)

lemma Bool_app:
  "Buffer_Bool (le_bytes Word (if v then TypeTrue else TypeFalse) @ rest) = (Inr v, rest)"
  by (simp add: Buffer_Bool_def PeekID_app dec_simps) (simp add: TypeTrue_def TypeFalse_def)

lemma Bool_only:
  "Buffer_Bool b = (Inr v, rest) \<Longrightarrow> b = le_bytes Word (if v then TypeTrue else TypeFalse) @ rest"
  by (auto simp: Buffer_Bool_def elim!: dec_bind_InrE split: if_splits dest!: PeekID_only)

interpretation f_uint32: tl_exact Buffer_PutUint32 Buffer_Uint32 "\<lambda>_. True"
  by unfold_locales (simp_all add: put_defs get_apps consumes_intros Uint32_only)

interpretation f_int32: tl_exact Buffer_PutInt32 Buffer_Int32 "\<lambda>_. True"
  by unfold_locales (simp_all add: put_defs get_apps consumes_intros Int32_only)

interpretation f_int: tl_exact Buffer_PutInt Buffer_Int is_int32
  by unfold_locales (simp_all add: put_defs get_apps consumes_intros Int_only)

interpretation f_uint64: tl_exact Buffer_PutUint64 Buffer_Uint64 "\<lambda>_. True"
  by unfold_locales (simp_all add: put_defs get_apps consumes_intros Uint64_only)

interpretation f_long: tl_exact Buffer_PutLong Buffer_Long "\<lambda>_. True"
  by unfold_locales (simp_all add: put_defs get_apps consumes_intros Long_only)

interpretation f_double: tl_exact Buffer_PutDouble Buffer_Double "\<lambda>_. True"
proof -
  have "Buffer_PutDouble = Buffer_PutLong" "Buffer_Double = Buffer_Long"
    by (auto simp: fun_eq_iff Buffer_PutDouble_def Buffer_Double_def Buffer_PutLong_def Buffer_Long_def dec_bind_def dec_return_def
        split: sum.splits prod.splits)
  then show "tl_exact Buffer_PutDouble Buffer_Double (\<lambda>_. True)" using f_long.tl_exact_axioms by simp
qed

interpretation f_bool: tl_exact Buffer_PutBool Buffer_Bool "\<lambda>_. True"
  using Bool_app[of True] Bool_app[of False] Bool_only[where v = True] Bool_only[where v = False]
  by unfold_locales (simp_all add: put_defs consumes_intros)

interpretation f_id: tl_exact "\<lambda>_ :: unit. Buffer_PutID i" "Buffer_ConsumeID i" "\<lambda>_. True" for i
  by unfold_locales (simp_all add: put_defs get_apps consumes_intros ConsumeID_only)

interpretation f_int128: tl_exact Buffer_PutInt128 Buffer_Int128 "\<lambda>v. length v = 16"
  by unfold_locales (auto simp: put_defs Buffer_Int128_def Let_def consumes_def suffix_drop split: if_splits)

interpretation f_int256: tl_exact Buffer_PutInt256 Buffer_Int256 "\<lambda>v. length v = 32"
  by unfold_locales (auto simp: put_defs Buffer_Int256_def Let_def consumes_def suffix_drop split: if_splits)

lemma ConsumeID_put [simp]: "Buffer_ConsumeID i (Buffer_PutID i [] @ rest) = (Inr (), rest)"
  using f_id.get_put[where i = i] by simp

interpretation f_bytes: tl_field Buffer_PutBytes Buffer_Bytes "\<lambda>v. length v \<le> maxLongStringLength"
  by unfold_locales
    (simp_all add: Buffer_Bytes_PutBytes consumes_intros, simp_all add: Buffer_PutBytes_def
      encodeBytes_append[symmetric] length_encodeBytes nearestPaddedValueLength_dvd)

interpretation f_string: tl_field Buffer_PutString Buffer_String "\<lambda>v. length v \<le> maxLongStringLength"
  by unfold_locales
    (simp_all add: Buffer_String_PutString consumes_intros, simp_all add: Buffer_PutString_def
      encodeString_eq encodeBytes_append[symmetric] length_encodeBytes nearestPaddedValueLength_dvd)

lemma VectorHeader_app:
  assumes "0 \<le> n" "n < 2 ^ 31"
  shows "Buffer_VectorHeader (Buffer_PutVectorHeader n [] @ rest) = (Inr n, rest)"
  using assms by (simp add: Buffer_VectorHeader_def put_defs ConsumeID_app Int_app is_int32_def dec_simps)

interpretation f_vector_header: tl_field Buffer_PutVectorHeader Buffer_VectorHeader "\<lambda>n. 0 \<le> n \<and> n < 2 ^ 31"
  by unfold_locales (simp_all add: VectorHeader_app consumes_intros, simp_all add: put_defs)

subsection \<open>Bit fields\<close>

lemma Fields_Has_bit: "Fields_Has f n \<longleftrightarrow> bit f n"
  by (simp add: Fields_Has_def bit_iff_and_push_bit_not_eq_0)

lemmas Fields_defs = Fields_Has_bit Fields_Set_def Fields_Unset_def

section \<open>Properties\<close>

text \<open>
  Round trip of \<open>bytes\<close>. \<open>PutBytesChecked\<close> succeeds exactly when the length fits the
  24-bit header; then it appends a word-aligned encoding from which \<open>Bytes\<close> reads the
  value back, whatever bytes follow, leaving exactly those. When it fails the buffer is
  unchanged.
\<close>

theorem PutBytesChecked_roundtrip:
  "(length v \<le> maxLongStringLength \<longrightarrow>
      (\<exists>enc. Buffer_PutBytesChecked v b = (None, b @ enc) \<and> 4 dvd length enc \<and>
             (\<forall>rest. Buffer_Bytes (enc @ rest) = (Inr v, rest)))) \<and>
   (length v > maxLongStringLength \<longrightarrow>
      Buffer_PutBytesChecked v b = (Some (InvalidLengthError (int (length v)) ''bytes''), b))"
  using f_bytes.put_append[of v b] f_bytes.put_aligned[of v] f_bytes.get_put[of v]
  by (auto simp: Buffer_PutBytesChecked_def)

theorem PutBytesChecked_roundtrip_witness:
  "\<exists>enc. Buffer_PutBytesChecked [7, 9] [1] = (None, [1] @ enc) \<and> 4 dvd length enc \<and>
     Buffer_Bytes (enc @ [5]) = (Inr [7, 9], [5])"
  using PutBytesChecked_roundtrip[of "[7, 9]" "[1]"] by (auto simp: maxLongStringLength_def)

text \<open>
  Why the check is there: an unchecked \<open>PutBytes\<close> of a value longer than the header can
  say writes the length modulo \<open>2 ^ 24\<close>, and \<open>Bytes\<close> then never returns the value that was
  put.
\<close>

theorem PutBytes_unchecked_loses_value:
  assumes "length v > maxLongStringLength"
  shows "fst (Buffer_Bytes (Buffer_PutBytes v [] @ rest)) \<noteq> Inr v"
proof -
  let ?enc = "Buffer_PutBytes v [] @ rest"
  have big: "\<not> length v \<le> maxSmallStringLength" "\<not> length v \<le> length v mod 16777216"
    using assms by (simp_all add: maxLongStringLength_def maxSmallStringLength_def)
  have "w \<noteq> v" if "decodeBytes ?enc = Inr (n, w)" for n w
  proof -
    have "length w \<le> length v mod 16777216"
      using that big(1) by (auto simp: Buffer_PutBytes_def encodeBytes_def decodeBytes_def Let_def
          long_header split: if_splits)
    with big(2) show ?thesis by auto
  qed
  then show ?thesis by (auto simp: Buffer_Bytes_def split: sum.splits prod.splits)
qed

theorem PutBytes_unchecked_loses_value_witness:
  "fst (Buffer_Bytes (Buffer_PutBytes (replicate 16777216 0) [] @ [])) \<noteq> Inr (replicate 16777216 0)"
  by (rule PutBytes_unchecked_loses_value) (simp only: length_replicate maxLongStringLength_def, simp)

text \<open>
  No reading method of a buffer ever moves it backwards or changes the bytes it has not
  read: after success or failure the buffer is a suffix of what it was, so a sequence of
  reads over a message stays within the message.
\<close>

theorem Buffer_reads_move_forward:
  "consumes Buffer_PeekID \<and> consumes Buffer_Uint32 \<and> consumes Buffer_Uint64 \<and> consumes Buffer_Int32 \<and>
   consumes Buffer_Int \<and> consumes Buffer_Long \<and> consumes Buffer_Bool \<and> consumes Buffer_Bytes \<and>
   consumes Buffer_String \<and> consumes Buffer_Int128 \<and> consumes Buffer_Int256 \<and>
   consumes Buffer_VectorHeader \<and> consumes (Buffer_ConsumeID i) \<and> consumes (Buffer_ConsumeN t n) \<and>
   consumes (Buffer_Skip n)"
  by (intro conjI consumes_intros)

text \<open>
  Conditional fields. \<open>Set\<close> and \<open>Unset\<close> change what \<open>Has\<close> reports for field \<open>n\<close> and for
  no other field, and a bit field survives the wire.
\<close>

theorem Fields_laws:
  "(Fields_Has (Fields_Set n f) m \<longleftrightarrow> Fields_Has f m \<or> (m = n \<and> n < 32)) \<and>
   (Fields_Has (Fields_Unset n f) m \<longleftrightarrow> Fields_Has f m \<and> m \<noteq> n) \<and>
   (Fields_Zero f \<longleftrightarrow> (\<forall>k. \<not> Fields_Has f k)) \<and>
   Fields_Decode (Fields_Encode f [] @ rest) = (Inr f, rest)"
proof (intro conjI)
  show "Fields_Zero f \<longleftrightarrow> (\<forall>k. \<not> Fields_Has f k)"
    by (auto simp: Fields_Zero_def Fields_Has_bit intro: bit_word_eqI)
  show "Fields_Decode (Fields_Encode f [] @ rest) = (Inr f, rest)"
    by (simp add: Fields_Decode_def Fields_Encode_def put_defs Int32_app dec_simps)
qed (auto simp: Fields_defs bit_simps dest: bit_imp_le_length)

text \<open>
  A buffer taken from the pool never shows what an earlier user wrote: it is empty, or
  all zeros at the requested size, whichever buffer the pool hands out.
\<close>

theorem Pool_no_leak:
  "fst (Pool_Get k p) = [] \<and> fst (Pool_GetSize n k p) = replicate n 0 \<and>
   fst (Pool_Get k (Pool_Put buf p)) = []"
  by (simp add: Pool_Get_def Pool_GetSize_def Buffer_Reset_def Buffer_ResetN_def split: prod.splits)

end
