(* ===== verification/Codec.thy ===== *)
theory Codec
  imports Bin
begin

text \<open>
  Package \<open>proto/codec\<close>: the MTProto transport framings (abridged, intermediate, padded
  intermediate, full). A writer is what has been written and how many more \<open>Write\<close> calls
  succeed; a reader is the sequence of bytes the peer sends before it closes. Every \<open>Read\<close>
  and \<open>Write\<close> threads the caller's buffer, on the error paths too. The locale
  \<open>transport_codec\<close> is the \<open>Codec\<close> interface with its contract: what one side writes, the
  other side reads back, message by message, whatever follows on the connection.
\<close>

section \<open>Writers and CRC-32 (io, hash/crc32)\<close>

record writer =
  written :: bytes
  wbudget :: "nat option"

definition io_Write :: "bytes \<Rightarrow> writer \<Rightarrow> go_error option \<times> writer" where
  "io_Write p w = (case wbudget w of
     None \<Rightarrow> (None, w\<lparr>written := written w @ p\<rparr>)
   | Some 0 \<Rightarrow> (Some ErrWrite, w)
   | Some (Suc k) \<Rightarrow> (None, w\<lparr>written := written w @ p, wbudget := Some k\<rparr>))"

definition wrap_opt :: "string \<Rightarrow> go_error option \<Rightarrow> go_error option" where
  "wrap_opt s e = map_option (Wrap s) e"

definition crc32_bit :: "32 word \<Rightarrow> 32 word" where
  "crc32_bit c = (if bit c 0 then drop_bit 1 c XOR 0xEDB88320 else drop_bit 1 c)"

definition crc32_byte :: "byte \<Rightarrow> 32 word \<Rightarrow> 32 word" where
  "crc32_byte x c = (crc32_bit ^^ 8) (c XOR ucast x)"

definition crc32_ChecksumIEEE :: "bytes \<Rightarrow> 32 word" where
  "crc32_ChecksumIEEE bs = NOT (fold crc32_byte bs (NOT 0))"

section \<open>errors.go and codec.go\<close>

definition CodeAuthKeyNotFound :: "32 word" where "CodeAuthKeyNotFound = 404"
definition CodeWrongDC :: "32 word" where "CodeWrongDC = 444"
definition CodeTransportFlood :: "32 word" where "CodeTransportFlood = 429"

definition MaxMessageSize :: nat where "MaxMessageSize = 2 ^ 24"

definition inboundReadChunkSize :: nat where "inboundReadChunkSize = 32 * 2 ^ 10"

definition checkMessageLength :: "int \<Rightarrow> go_error option" where
  "checkMessageLength n = (if n \<le> 0 \<or> n > int MaxMessageSize then Some (InvalidMsgLenErr n) else None)"

definition checkOutgoingMessage :: "buffer \<Rightarrow> go_error option" where
  "checkOutgoingMessage b = checkMessageLength (int (length b))"

definition checkAlign :: "buffer \<Rightarrow> nat \<Rightarrow> go_error option" where
  "checkAlign b n = (if length b mod n \<noteq> 0 then Some (AlignedPayloadExpectedErr (int n)) else None)"

definition checkProtocolError :: "buffer \<Rightarrow> go_error option \<times> buffer" where
  "checkProtocolError b =
     (if length b \<noteq> Word then (None, b)
      else case Buffer_Int32 b of (Inl e, b') \<Rightarrow> (Some e, b') | (Inr code, b') \<Rightarrow> (Some (ProtocolErr (- code)), b'))"

text \<open>The value read, or the error; the rest of the reader; the buffer.\<close>

type_synonym 'a rd = "(go_error + 'a) \<times> bytes \<times> buffer"

definition readLen :: "bytes \<Rightarrow> buffer \<Rightarrow> int rd" where
  "readLen r b =
     (let b = Buffer_ResetN Word b in
      case io_ReadFull Word r of (got, err, r') \<Rightarrow>
      let b = go_copy b got in
      case err of
        Some e \<Rightarrow> (Inl (Wrap ''read length'' e), r', b)
      | None \<Rightarrow>
         let n = uint (le_word (take Word b) :: 32 word) in
         case checkMessageLength n of Some e \<Rightarrow> (Inl e, r', b) | None \<Rightarrow> (Inr n, r', b))"

text \<open>
  The loop of \<open>appendPayload\<close>. \<open>cp\<close> is the capacity of the slice. \<open>b.Buf[:end]\<close> makes room
  for the chunk, \<open>io.ReadFull\<close> fills it, and when fewer bytes arrive the slice is cut back
  to what was received, so the buffer afterwards is the old one followed by what was got.
\<close>

definition growCap :: "nat \<Rightarrow> nat \<Rightarrow> nat \<Rightarrow> nat" where
  "growCap cp e target =
     (if cp < e then
        let nextCap = cp * 2;
            nextCap = (if nextCap < e then e else nextCap);
            nextCap = (if nextCap > target then target else nextCap)
        in nextCap
      else cp)"

function appendPayload_loop ::
  "nat \<Rightarrow> nat \<Rightarrow> bytes \<Rightarrow> buffer \<Rightarrow> nat \<Rightarrow> go_error option \<times> bytes \<times> buffer \<times> nat" where
  "appendPayload_loop target remaining r b cp =
     (if remaining = 0 then (None, r, b, cp)
      else
        let chunk = (if remaining > inboundReadChunkSize then inboundReadChunkSize else remaining);
            start = length b;
            e = start + chunk;
            cp' = growCap cp e target
        in case io_ReadFull chunk r of (got, err, r') \<Rightarrow>
           (case err of
              Some x \<Rightarrow> (Some x, r', b @ got, cp')
            | None \<Rightarrow> appendPayload_loop target (remaining - chunk) r' (b @ got) cp'))"
  by pat_completeness auto
termination
  by (relation "measure (\<lambda>(target, remaining, r, b, cp). remaining)")
    (auto simp: inboundReadChunkSize_def)

declare appendPayload_loop.simps [simp del]

definition appendPayload :: "int \<Rightarrow> bytes \<Rightarrow> buffer \<Rightarrow> nat \<Rightarrow> go_error option \<times> bytes \<times> buffer \<times> nat" where
  "appendPayload n r b cp =
     (if n < 0 then (Some (InvalidMsgLenErr n), r, b, cp)
      else appendPayload_loop (length b + nat n) (nat n) r b cp)"

definition readPayload :: "int \<Rightarrow> bytes \<Rightarrow> buffer \<Rightarrow> nat \<Rightarrow> go_error option \<times> bytes \<times> buffer \<times> nat" where
  "readPayload n r b cp = appendPayload n r (Buffer_Reset b) cp"

section \<open>abridged.go\<close>

definition AbridgedClientStart :: bytes where "AbridgedClientStart = [0xef]"

definition Abridged_WriteHeader :: "writer \<Rightarrow> go_error option \<times> writer" where
  "Abridged_WriteHeader w =
     (case io_Write AbridgedClientStart w of (err, w') \<Rightarrow> (wrap_opt ''write abridged header'' err, w'))"

definition Abridged_ReadHeader :: "bytes \<Rightarrow> go_error option \<times> bytes" where
  "Abridged_ReadHeader r =
     (case io_ReadFull 1 r of (b, err, r') \<Rightarrow>
      (case err of
         Some e \<Rightarrow> (Some (Wrap ''read abridged header'' e), r')
       | None \<Rightarrow> (if b \<noteq> AbridgedClientStart then Some ErrProtocolHeaderMismatch else None, r')))"

definition Abridged_ObfuscatedTag :: bytes where
  "Abridged_ObfuscatedTag = (let d = AbridgedClientStart ! 0 in [d, d, d, d])"

definition writeAbridged :: "writer \<Rightarrow> buffer \<Rightarrow> go_error option \<times> writer \<times> buffer" where
  "writeAbridged w b =
     (let len = length b;
          b = Buffer_Expand 4 b;
          b = take len b;
          encodeLength = drop_bit 2 (length b);
          inner = (if encodeLength < 127 then Buffer_Put [word_of_nat encodeLength] []
                   else Buffer_Put (take 4 (0x7f # le_bytes 4 (word_of_nat encodeLength :: 32 word))) [])
      in case io_Write inner w of
           (Some e, w') \<Rightarrow> (Some e, w', b)
         | (None, w') \<Rightarrow>
            (case io_Write b w' of (Some e, w'') \<Rightarrow> (Some e, w'', b) | (None, w'') \<Rightarrow> (None, w'', b)))"

definition Abridged_Write :: "writer \<Rightarrow> buffer \<Rightarrow> go_error option \<times> writer \<times> buffer" where
  "Abridged_Write w b =
     (case checkOutgoingMessage b of Some e \<Rightarrow> (Some e, w, b) | None \<Rightarrow>
      case checkAlign b 4 of Some e \<Rightarrow> (Some e, w, b) | None \<Rightarrow>
      case writeAbridged w b of (err, w', b') \<Rightarrow> (wrap_opt ''write abridged'' err, w', b'))"

definition readAbridgedLength :: "bytes \<Rightarrow> (go_error + int) \<times> bytes" where
  "readAbridgedLength r =
     (case io_ReadFull 1 r of (first, err, r') \<Rightarrow>
      case err of Some e \<Rightarrow> (Inl e, r') | None \<Rightarrow>
      let words = (ucast (first ! 0 AND 0x7f) :: 32 word) in
      if words = 0 then (Inl (InvalidMsgLenErr 0), r')
      else if words < 0x7f then
        (let n = uint words * int Word in
         case checkMessageLength n of Some e \<Rightarrow> (Inl e, r') | None \<Rightarrow> (Inr n, r'))
      else
        case io_ReadFull 3 r' of (extended, err, r'') \<Rightarrow>
        case err of Some e \<Rightarrow> (Inl e, r'') | None \<Rightarrow>
        let words = (ucast (extended ! 0) :: 32 word) OR push_bit 8 (ucast (extended ! 1)) OR push_bit 16 (ucast (extended ! 2));
            n = uint words * int Word
        in if words < 0x7f then (Inl (InvalidMsgLenErr n), r'')
           else case checkMessageLength n of Some e \<Rightarrow> (Inl e, r'') | None \<Rightarrow> (Inr n, r''))"

definition readAbridged :: "nat \<Rightarrow> bytes \<Rightarrow> buffer \<Rightarrow> go_error option \<times> bytes \<times> buffer" where
  "readAbridged cp r b =
     (case readAbridgedLength r of
        (Inl e, r') \<Rightarrow> (Some e, r', b)
      | (Inr n, r') \<Rightarrow>
         (case readPayload n r' b cp of (err, r'', b', _) \<Rightarrow> (wrap_opt ''read payload'' err, r'', b')))"

definition Abridged_Read :: "nat \<Rightarrow> bytes \<Rightarrow> buffer \<Rightarrow> go_error option \<times> bytes \<times> buffer" where
  "Abridged_Read cp r b =
     (case readAbridged cp r b of
        (Some e, r', b') \<Rightarrow> (Some (Wrap ''read abridged'' e), r', b')
      | (None, r', b') \<Rightarrow> (case checkProtocolError b' of (err, b'') \<Rightarrow> (err, r', b'')))"

section \<open>intermediate.go\<close>

definition IntermediateClientStart :: bytes where "IntermediateClientStart = [0xee, 0xee, 0xee, 0xee]"

definition Intermediate_WriteHeader :: "writer \<Rightarrow> go_error option \<times> writer" where
  "Intermediate_WriteHeader w =
     (case io_Write IntermediateClientStart w of (err, w') \<Rightarrow> (wrap_opt ''write intermediate header'' err, w'))"

definition Intermediate_ReadHeader :: "bytes \<Rightarrow> go_error option \<times> bytes" where
  "Intermediate_ReadHeader r =
     (case io_ReadFull 4 r of (b, err, r') \<Rightarrow>
      (case err of
         Some e \<Rightarrow> (Some (Wrap ''read intermediate header'' e), r')
       | None \<Rightarrow> (if b \<noteq> IntermediateClientStart then Some ErrProtocolHeaderMismatch else None, r')))"

definition Intermediate_ObfuscatedTag :: bytes where
  "Intermediate_ObfuscatedTag = IntermediateClientStart"

definition writeIntermediate :: "writer \<Rightarrow> buffer \<Rightarrow> go_error option \<times> writer \<times> buffer" where
  "writeIntermediate w b =
     (let len = length b;
          b = Buffer_Expand 4 b;
          b = take len b;
          inner = Buffer_PutInt (int (length b)) []
      in case io_Write inner w of
           (Some e, w') \<Rightarrow> (Some e, w', b)
         | (None, w') \<Rightarrow>
            (case io_Write b w' of (Some e, w'') \<Rightarrow> (Some e, w'', b) | (None, w'') \<Rightarrow> (None, w'', b)))"

definition Intermediate_Write :: "writer \<Rightarrow> buffer \<Rightarrow> go_error option \<times> writer \<times> buffer" where
  "Intermediate_Write w b =
     (case checkOutgoingMessage b of Some e \<Rightarrow> (Some e, w, b) | None \<Rightarrow>
      case checkAlign b 4 of Some e \<Rightarrow> (Some e, w, b) | None \<Rightarrow>
      case writeIntermediate w b of (err, w', b') \<Rightarrow> (wrap_opt ''write intermediate'' err, w', b'))"

definition readIntermediate :: "bool \<Rightarrow> nat \<Rightarrow> bytes \<Rightarrow> buffer \<Rightarrow> go_error option \<times> bytes \<times> buffer" where
  "readIntermediate padding cp r b =
     (case readLen r b of
        (Inl e, r', b') \<Rightarrow> (Some e, r', b')
      | (Inr n, r', b') \<Rightarrow>
         (case readPayload n r' b' cp of
            (Some e, r'', b'', _) \<Rightarrow> (Some (Wrap ''read payload'' e), r'', b'')
          | (None, r'', b'', _) \<Rightarrow>
             (None, r'', if padding then take (nat n - nat n mod 4) b'' else b'')))"

definition Intermediate_Read :: "nat \<Rightarrow> bytes \<Rightarrow> buffer \<Rightarrow> go_error option \<times> bytes \<times> buffer" where
  "Intermediate_Read cp r b =
     (case readIntermediate False cp r b of
        (Some e, r', b') \<Rightarrow> (Some (Wrap ''read intermediate'' e), r', b')
      | (None, r', b') \<Rightarrow> (case checkProtocolError b' of (err, b'') \<Rightarrow> (err, r', b'')))"

section \<open>padded\_intermediate.go\<close>

definition PaddedIntermediateClientStart :: bytes where
  "PaddedIntermediateClientStart = [0xdd, 0xdd, 0xdd, 0xdd]"

definition PaddedIntermediate_WriteHeader :: "writer \<Rightarrow> go_error option \<times> writer" where
  "PaddedIntermediate_WriteHeader w =
     (case io_Write PaddedIntermediateClientStart w of
        (err, w') \<Rightarrow> (wrap_opt ''write padded intermediate header'' err, w'))"

definition PaddedIntermediate_ReadHeader :: "bytes \<Rightarrow> go_error option \<times> bytes" where
  "PaddedIntermediate_ReadHeader r =
     (case io_ReadFull 4 r of (b, err, r') \<Rightarrow>
      (case err of
         Some e \<Rightarrow> (Some (Wrap ''read padded intermediate header'' e), r')
       | None \<Rightarrow> (if b \<noteq> PaddedIntermediateClientStart then Some ErrProtocolHeaderMismatch else None, r')))"

definition PaddedIntermediate_ObfuscatedTag :: bytes where
  "PaddedIntermediate_ObfuscatedTag = PaddedIntermediateClientStart"

text \<open>
  \<open>randSource\<close> is the sequence of bytes the random source gives. \<open>b.Buf[length-1]\<close> is the
  last byte of the payload, and an index out of range for an empty one. The deferred
  function cuts the buffer back to the payload on every path.
\<close>

definition writePaddedIntermediate ::
  "bytes \<Rightarrow> writer \<Rightarrow> buffer \<Rightarrow> go_error option \<times> writer \<times> buffer" where
  "writePaddedIntermediate randSource w b =
     (let len = length b;
          b = Buffer_Expand 4 b
      in case io_ReadFull 4 randSource of (rnd, err, _) \<Rightarrow>
         let b = take len b @ go_copy (drop len b) rnd in
         case err of
           Some e \<Rightarrow> (Some e, w, take len b)
         | None \<Rightarrow>
            if len = 0 then (Some (GoPanic ''index out of range''), w, take len b)
            else
              let n = unat (b ! (len - 1)) mod 4;
                  b = take (len + n) b
              in case writeIntermediate w b of (err, w', b') \<Rightarrow> (err, w', take len b'))"

definition PaddedIntermediate_Write ::
  "bytes \<Rightarrow> writer \<Rightarrow> buffer \<Rightarrow> go_error option \<times> writer \<times> buffer" where
  "PaddedIntermediate_Write randSource w b =
     (case checkOutgoingMessage b of Some e \<Rightarrow> (Some e, w, b) | None \<Rightarrow>
      case checkAlign b 4 of Some e \<Rightarrow> (Some e, w, b) | None \<Rightarrow>
      case writePaddedIntermediate randSource w b of
        (err, w', b') \<Rightarrow> (wrap_opt ''write padded intermediate'' err, w', b'))"

definition readPaddedIntermediate :: "nat \<Rightarrow> bytes \<Rightarrow> buffer \<Rightarrow> go_error option \<times> bytes \<times> buffer" where
  "readPaddedIntermediate cp r b =
     (case readIntermediate True cp r b of
        (Some e, r', b') \<Rightarrow> (Some e, r', b')
      | (None, r', b') \<Rightarrow> (None, r', take (length b' - length b' mod 4) b'))"

definition PaddedIntermediate_Read :: "nat \<Rightarrow> bytes \<Rightarrow> buffer \<Rightarrow> go_error option \<times> bytes \<times> buffer" where
  "PaddedIntermediate_Read cp r b =
     (case readPaddedIntermediate cp r b of
        (Some e, r', b') \<Rightarrow> (Some (Wrap ''read padded intermediate'' e), r', b')
      | (None, r', b') \<Rightarrow> (case checkProtocolError b' of (err, b'') \<Rightarrow> (err, r', b'')))"

section \<open>full.go\<close>

record Full =
  wSeqNo :: "64 word"
  rSeqNo :: "64 word"

definition writeFull :: "writer \<Rightarrow> int \<Rightarrow> buffer \<Rightarrow> go_error option \<times> writer" where
  "writeFull w seqNo b =
     (let wr = Buffer_PutInt (int (4 + 4 + length b + 4)) [];
          wr = Buffer_PutInt seqNo wr;
          wr = Buffer_Put b wr;
          crc = crc32_ChecksumIEEE wr;
          wr = Buffer_PutUint32 crc wr
      in io_Write wr w)"

definition Full_Write :: "Full \<Rightarrow> writer \<Rightarrow> buffer \<Rightarrow> go_error option \<times> Full \<times> writer \<times> buffer" where
  "Full_Write i w b =
     (case checkOutgoingMessage b of Some e \<Rightarrow> (Some e, i, w, b) | None \<Rightarrow>
      let i' = i\<lparr>wSeqNo := wSeqNo i + 1\<rparr> in
      case writeFull w (sint (wSeqNo i' - 1)) b of
        (err, w') \<Rightarrow> (wrap_opt ''write full'' err, i', w', b))"

definition readFull :: "nat \<Rightarrow> bytes \<Rightarrow> int \<Rightarrow> buffer \<Rightarrow> go_error option \<times> bytes \<times> buffer" where
  "readFull cp r seqNo b =
     (case readLen r b of
        (Inl e, r', b') \<Rightarrow> (Some (Wrap ''len'' e), r', b')
      | (Inr n, r', b') \<Rightarrow>
         if n < 3 * int Word then (Some (Wrap ''len'' (InvalidMsgLenErr n)), r', b')
         else case appendPayload (n - int Word) r' b' cp of
           (Some e, r'', b'', _) \<Rightarrow> (Some (Wrap ''read seqno, buffer and crc'' e), r'', b'')
         | (None, r'', b'', _) \<Rightarrow>
             let inner = drop Word (take (nat n) b'') in
             case Buffer_Int inner of
               (Inl e, _) \<Rightarrow> (Some e, r'', b'')
             | (Inr serverSeqNo, inner) \<Rightarrow>
                 if serverSeqNo \<noteq> seqNo then (Some ErrSeqNoMismatch, r'', b'')
                 else
                   let payloadLength = n - 3 * int Word in
                   case Buffer_Skip payloadLength inner of
                     (Inl e, _) \<Rightarrow> (Some e, r'', b'')
                   | (Inr _, inner) \<Rightarrow>
                       case Buffer_Uint32 inner of
                         (Inl e, _) \<Rightarrow> (Some e, r'', b'')
                       | (Inr crc, _) \<Rightarrow>
                           let clientCRC = crc32_ChecksumIEEE (take (nat n - Word) b'') in
                           if crc \<noteq> clientCRC then (Some ErrCRCMismatch, r'', b'')
                           else (None, r'',
                             take (nat payloadLength)
                               (go_copy b'' (take (nat n - 3 * Word) (drop (2 * Word) b'')))))"

definition Full_Read :: "nat \<Rightarrow> Full \<Rightarrow> bytes \<Rightarrow> buffer \<Rightarrow> go_error option \<times> Full \<times> bytes \<times> buffer" where
  "Full_Read cp i r b =
     (let i' = i\<lparr>rSeqNo := rSeqNo i + 1\<rparr> in
      case readFull cp r (sint (rSeqNo i' - 1)) b of
        (Some e, r', b') \<Rightarrow> (Some (Wrap ''read full'' e), i', r', b')
      | (None, r', b') \<Rightarrow> (case checkProtocolError b' of (err, b'') \<Rightarrow> (err, i', r', b'')))"

section \<open>no\_header.go\<close>

text \<open>\<open>NoHeader\<close> keeps \<open>Read\<close> and \<open>Write\<close> of the codec it wraps.\<close>

definition NoHeader_WriteHeader :: "writer \<Rightarrow> go_error option \<times> writer" where
  "NoHeader_WriteHeader w = (None, w)"

definition NoHeader_ReadHeader :: "bytes \<Rightarrow> go_error option \<times> bytes" where
  "NoHeader_ReadHeader r = (None, r)"

section \<open>The Codec interface\<close>

text \<open>Sending a list of messages, and receiving a number of them, over one connection.\<close>

primrec write_msgs ::
  "('e \<Rightarrow> 's \<Rightarrow> writer \<Rightarrow> buffer \<Rightarrow> go_error option \<times> 's \<times> writer \<times> buffer) \<Rightarrow>
   's \<Rightarrow> writer \<Rightarrow> ('e \<times> buffer) list \<Rightarrow> go_error option \<times> 's \<times> writer" where
  "write_msgs Wr s w [] = (None, s, w)"
| "write_msgs Wr s w (m # ms) =
     (case Wr (fst m) s w (snd m) of
        (Some e, s', w', _) \<Rightarrow> (Some e, s', w')
      | (None, s', w', _) \<Rightarrow> write_msgs Wr s' w' ms)"

primrec read_msgs ::
  "('s \<Rightarrow> bytes \<Rightarrow> buffer \<Rightarrow> go_error option \<times> 's \<times> bytes \<times> buffer) \<Rightarrow>
   nat \<Rightarrow> 's \<Rightarrow> bytes \<Rightarrow> buffer \<Rightarrow> go_error option \<times> buffer list \<times> bytes" where
  "read_msgs Rd 0 s r b = (None, [], r)"
| "read_msgs Rd (Suc n) s r b =
     (case Rd s r b of
        (Some e, s', r', _) \<Rightarrow> (Some e, [], r')
      | (None, s', r', b') \<Rightarrow> (case read_msgs Rd n s' r' b' of (e, ps, r'') \<Rightarrow> (e, b' # ps, r'')))"

text \<open>
  The contract of a codec. \<open>'s\<close> is the codec's own state, \<open>'e\<close> what one \<open>Write\<close> takes from
  outside (the random bytes of the padded framing). \<open>insync k sw sr\<close> says that the states of
  the two ends agree and \<open>k\<close> more messages can be exchanged.
\<close>

locale transport_codec =
  fixes Write :: "'e \<Rightarrow> 's \<Rightarrow> writer \<Rightarrow> buffer \<Rightarrow> go_error option \<times> 's \<times> writer \<times> buffer"
    and Read :: "'s \<Rightarrow> bytes \<Rightarrow> buffer \<Rightarrow> go_error option \<times> 's \<times> bytes \<times> buffer"
    and insync :: "nat \<Rightarrow> 's \<Rightarrow> 's \<Rightarrow> bool"
    and ok :: "'e \<Rightarrow> buffer \<Rightarrow> bool"
  assumes Write_Read: "insync (Suc k) sw sr \<Longrightarrow> ok e p \<Longrightarrow>
    \<exists>sw' sr' f. (\<forall>w. wbudget w = None \<longrightarrow> Write e sw w p = (None, sw', w\<lparr>written := written w @ f\<rparr>, p)) \<and>
      (\<forall>rest b. Read sr (f @ rest) b = (None, sr', rest, p)) \<and> insync k sw' sr'"
begin

lemma stream_roundtrip:
  assumes "insync (length ms) sw sr" "\<And>e p. (e, p) \<in> set ms \<Longrightarrow> ok e p" "wbudget w = None"
  shows "\<exists>sw' bs. write_msgs Write sw w ms = (None, sw', w\<lparr>written := written w @ bs\<rparr>) \<and>
    (\<forall>rest b. read_msgs Read (length ms) sr (bs @ rest) b = (None, map snd ms, rest))"
  using assms
proof (induction ms arbitrary: sw sr w)
  case Nil
  then show ?case by auto
next
  case (Cons m ms)
  obtain e p where m: "m = (e, p)" by fastforce
  have "insync (Suc (length ms)) sw sr" "ok e p" using Cons.prems m by auto
  from Write_Read[OF this] obtain sw1 sr1 f where
    W: "Write e sw w p = (None, sw1, w\<lparr>written := written w @ f\<rparr>, p)" and
    R: "\<And>rest b. Read sr (f @ rest) b = (None, sr1, rest, p)" and
    S: "insync (length ms) sw1 sr1"
    using Cons.prems(3) by blast
  obtain sw' bs where
    WW: "write_msgs Write sw1 (w\<lparr>written := written w @ f\<rparr>) ms =
      (None, sw', w\<lparr>written := written w @ f @ bs\<rparr>)" and
    RR: "\<And>rest b. read_msgs Read (length ms) sr1 (bs @ rest) b = (None, map snd ms, rest)"
    using Cons.IH[OF S, of "w\<lparr>written := written w @ f\<rparr>"] Cons.prems(2,3) m by auto
  show ?case
    by (rule exI[of _ sw'], rule exI[of _ "f @ bs"]) (simp add: m W R WW RR)
qed

end

text \<open>The framings without state of their own.\<close>

definition stateless_Write ::
  "('e \<Rightarrow> writer \<Rightarrow> buffer \<Rightarrow> go_error option \<times> writer \<times> buffer) \<Rightarrow>
   'e \<Rightarrow> unit \<Rightarrow> writer \<Rightarrow> buffer \<Rightarrow> go_error option \<times> unit \<times> writer \<times> buffer" where
  "stateless_Write Wr e s w b = (case Wr e w b of (err, w', b') \<Rightarrow> (err, (), w', b'))"

definition stateless_Read ::
  "(bytes \<Rightarrow> buffer \<Rightarrow> go_error option \<times> bytes \<times> buffer) \<Rightarrow>
   unit \<Rightarrow> bytes \<Rightarrow> buffer \<Rightarrow> go_error option \<times> unit \<times> bytes \<times> buffer" where
  "stateless_Read Rd s r b = (case Rd r b of (err, r', b') \<Rightarrow> (err, (), r', b'))"

section \<open>Lemmas\<close>

lemma wrap_opt_simps [simp]: "wrap_opt s None = None" "wrap_opt s (Some e) = Some (Wrap s e)"
  by (simp_all add: wrap_opt_def)

lemma io_Write_ok [simp]: "wbudget w = None \<Longrightarrow> io_Write p w = (None, w\<lparr>written := written w @ p\<rparr>)"
  by (simp add: io_Write_def)

subsection \<open>Reading a payload\<close>

lemma appendPayload_loop_0: "appendPayload_loop t 0 r b cp = (None, r, b, cp)"
  by (simp add: appendPayload_loop.simps)

lemma appendPayload_loop_step:
  assumes "0 < k" "c = min k inboundReadChunkSize" "cp' = growCap cp (length b + c) t"
  shows "appendPayload_loop t k r b cp =
     (if c \<le> length r then appendPayload_loop t (k - c) (drop c r) (b @ take c r) cp'
      else (Some (if r = [] then EOF else ErrUnexpectedEOF), [], b @ r, cp'))"
proof -
  have "c = (if k > inboundReadChunkSize then inboundReadChunkSize else k)"
    using assms(2) by simp
  then show ?thesis
    using assms(1,3) by (subst appendPayload_loop.simps) (simp add: Let_def io_ReadFull_def)
qed

lemma chunk_induct [case_names zero step]:
  fixes P :: "nat \<Rightarrow> bytes \<Rightarrow> buffer \<Rightarrow> nat \<Rightarrow> bool"
  assumes "\<And>r b cp. P 0 r b cp"
    and "\<And>k c r b cp. 0 < k \<Longrightarrow> 0 < c \<Longrightarrow> c \<le> k \<Longrightarrow> c \<le> inboundReadChunkSize \<Longrightarrow>
      c = min k inboundReadChunkSize \<Longrightarrow> (\<And>r b cp. P (k - c) r b cp) \<Longrightarrow> P k r b cp"
  shows "P k r b cp"
proof (induction k arbitrary: r b cp rule: less_induct)
  case (less k)
  show ?case
  proof (cases "k = 0")
    case False
    then have "0 < min k inboundReadChunkSize" by (simp add: inboundReadChunkSize_def)
    then show ?thesis using False assms(2)[of k "min k inboundReadChunkSize"] less by simp
  qed (simp add: assms(1))
qed

text \<open>The chunked loop reads exactly what one read of the whole payload would.\<close>

lemma appendPayload_loop_spec:
  "\<exists>cp' e. appendPayload_loop t k r b cp =
     (if k \<le> length r then None else Some e, drop k r, b @ take k r, cp') \<and>
     (e = EOF \<or> e = ErrUnexpectedEOF)"
proof (induction k r b cp rule: chunk_induct)
  case (zero r b cp)
  then show ?case by (auto simp: appendPayload_loop_0)
next
  case (step k c r b cp)
  define cp' where "cp' = growCap cp (length b + c) t"
  note unf = appendPayload_loop_step[OF step(1,5) cp'_def]
  show ?case
  proof (cases "c \<le> length r")
    case True
    have split: "take k r = take c r @ take (k - c) (drop c r)"
      using step(3) by (metis le_add_diff_inverse take_add)
    show ?thesis
      using step(6)[of "drop c r" "b @ take c r" cp'] True step(3) by (auto simp: unf split)
  next
    case False
    then show ?thesis using step(3) by (auto simp: unf)
  qed
qed

lemma growCap_bounds:
  "growCap cp e t \<le> max cp (min t (2 * e))"
  by (auto simp: growCap_def Let_def)

lemma appendPayload_loop_cap:
  "appendPayload_loop t k r b cp = (err, r', b', cp') \<Longrightarrow>
     cp' \<le> max cp (min t (2 * (length b' + inboundReadChunkSize)))"
proof (induction k r b cp arbitrary: err r' b' cp' rule: chunk_induct)
  case (zero r b cp)
  then show ?case by (auto simp: appendPayload_loop_0)
next
  case (step k c r b cp)
  define cq where "cq = growCap cp (length b + c) t"
  note unf = appendPayload_loop_step[OF step(1,5) cq_def]
  have "length b \<le> length b'"
    using appendPayload_loop_spec[of t k r b cp] step.prems by auto
  then have cq: "cq \<le> max cp (min t (2 * (length b' + inboundReadChunkSize)))"
    using growCap_bounds[of cp "length b + c" t] step(4) unfolding cq_def
    by (auto simp: max_def min_def split: if_splits)
  show ?case
  proof (cases "c \<le> length r")
    case True
    then have "cp' \<le> max cq (min t (2 * (length b' + inboundReadChunkSize)))"
      using step(6) step.prems by (simp add: unf)
    with cq show ?thesis by (auto simp: max_def split: if_splits)
  next
    case False
    then show ?thesis using step.prems cq by (simp add: unf)
  qed
qed

lemma appendPayload_ok:
  "\<exists>cp'. appendPayload (int (length p)) (p @ rest) b cp = (None, rest, b @ p, cp')"
  using appendPayload_loop_spec[of "length b + length p" "length p" "p @ rest" b cp]
  by (auto simp: appendPayload_def)

lemma readPayload_ok:
  "\<exists>cp'. readPayload (int (length p)) (p @ rest) b cp = (None, rest, p, cp')"
  using appendPayload_ok[of p rest "Buffer_Reset b" cp] by (simp add: readPayload_def Buffer_Reset_def)

lemma readPayload_case [simp]:
  "(case readPayload (int (length p)) (p @ rest) b cp of (err, r, b', cp') \<Rightarrow> f err r b') = f None rest p"
  using readPayload_ok[of p rest b cp] by auto

subsection \<open>Lengths\<close>

lemma checkMessageLength_ok [simp]:
  "0 < n \<Longrightarrow> n \<le> MaxMessageSize \<Longrightarrow> checkMessageLength (int n) = None"
  by (simp add: checkMessageLength_def)

lemma checkProtocolError_other [simp]: "length b \<noteq> 4 \<Longrightarrow> checkProtocolError b = (None, b)"
  by (simp add: checkProtocolError_def Word_def)

lemma go_copy_full: "length src = length dst \<Longrightarrow> go_copy dst src = src"
  by (simp add: go_copy_def)

lemma readLen_app:
  fixes v :: "32 word"
  assumes "uint v = int n" "0 < n" "n \<le> MaxMessageSize"
  shows "readLen (le_bytes Word v @ rest) b = (Inr (int n), rest, le_bytes Word v)"
  using assms by (simp add: readLen_def go_copy_full Buffer_ResetN_def)

lemma readLen_bad:
  fixes v :: "32 word"
  assumes "checkMessageLength (uint v) = Some e"
  shows "readLen (le_bytes Word v @ rest) b = (Inl e, rest, le_bytes Word v)"
  using assms by (simp add: readLen_def go_copy_full Buffer_ResetN_def)

lemma Full_Read_bad_length:
  fixes v :: "32 word"
  assumes "checkMessageLength (uint v) = Some e"
  shows "fst (Full_Read cp i (le_bytes Word v @ rest) b) = Some (Wrap ''read full'' (Wrap ''len'' e))"
  using readLen_bad[OF assms] by (simp add: Full_Read_def readFull_def Let_def)

lemma uint_word_of_nat32:
  "n \<le> 2 * MaxMessageSize \<Longrightarrow> uint (word_of_nat n :: 32 word) = int n"
  by (simp add: MaxMessageSize_def unsigned_of_nat take_bit_nat_eq_self)

lemma low7_word_of_nat:
  assumes "k < 128"
  shows "uint (ucast (word_of_nat k AND 0x7f :: byte) :: 32 word) = int k"
proof -
  have "uint (word_of_nat k AND 0x7f :: byte) = int k AND mask 7"
    using assms by (simp add: unsigned_and_eq unsigned_of_nat take_bit_nat_eq_self mask_eq_exp_minus_1)
  also have "\<dots> = int k"
    using assms by (simp add: take_bit_int_eq_self flip: take_bit_eq_mask)
  finally show ?thesis using assms by (simp add: unsigned_ucast_eq take_bit_int_eq_self)
qed

lemma three_bytes:
  "(ucast (ucast w :: byte) :: 32 word) OR push_bit 8 (ucast (ucast (drop_bit 8 w) :: byte))
     OR push_bit 16 (ucast (ucast (drop_bit 8 (drop_bit 8 w)) :: byte)) = take_bit 24 w"
  apply (rule bit_word_eqI)
  subgoal for n by (cases "n < 16") (auto simp: bit_simps)
  done

subsection \<open>Abridged\<close>

definition abridged_header :: "nat \<Rightarrow> bytes" where
  "abridged_header k = (if k < 127 then [word_of_nat k] else take 4 (0x7f # le_bytes 4 (word_of_nat k :: 32 word)))"

lemma writeAbridged_frame:
  "wbudget w = None \<Longrightarrow>
     writeAbridged w p = (None, w\<lparr>written := written w @ abridged_header (length p div 4) @ p\<rparr>, p)"
  by (simp add: writeAbridged_def abridged_header_def Buffer_Expand_def Buffer_Put_def Let_def
      drop_bit_eq_div)

lemma readAbridgedLength_header:
  assumes "0 < k" "k * 4 \<le> MaxMessageSize"
  shows "readAbridgedLength (abridged_header k @ rest) = (Inr (int (k * 4)), rest)"
proof (cases "k < 127")
  case True
  let ?w = "ucast (word_of_nat k AND 0x7f :: byte) :: 32 word"
  have u: "uint ?w = int k" using True by (simp add: low7_word_of_nat)
  then have "?w \<noteq> 0" "?w < 0x7f"
    using True assms(1) by (force simp: word_less_def)+
  moreover have "int k * 4 = int (k * 4)" by simp
  ultimately show ?thesis
    using True u assms checkMessageLength_ok[of "k * 4"]
    by (simp add: readAbridgedLength_def abridged_header_def io_ReadFull_def Let_def Word_def)
next
  case False
  let ?v = "word_of_nat k :: 32 word"
  have k: "k \<le> 2 * MaxMessageSize" "k < 2 ^ 24" using assms by (simp_all add: MaxMessageSize_def)
  have u: "uint ?v = int k" by (rule uint_word_of_nat32[OF k(1)])
  have t: "take_bit 24 ?v = ?v"
    using k(2) u by (simp add: word_uint_eq_iff unsigned_take_bit_eq take_bit_int_eq_self)
  have "\<not> ?v < 0x7f" using u False by (simp add: word_less_def)
  moreover have "int k * 4 = int (k * 4)" by simp
  moreover have "abridged_header k = [0x7f, ucast ?v, ucast (drop_bit 8 ?v), ucast (drop_bit 8 (drop_bit 8 ?v))]"
    using False by (simp add: abridged_header_def numeral_eq_Suc)
  ultimately show ?thesis
    using u t assms checkMessageLength_ok[of "k * 4"] three_bytes[of ?v]
    by (simp add: readAbridgedLength_def io_ReadFull_def Let_def Word_def)
qed

definition aligned_payload :: "buffer \<Rightarrow> bool" where
  "aligned_payload p \<longleftrightarrow> 0 < length p \<and> length p \<le> MaxMessageSize \<and> 4 dvd length p \<and> length p \<noteq> 4"

lemma aligned_payload_checks:
  assumes "aligned_payload p"
  shows "checkOutgoingMessage p = None" "checkAlign p 4 = None"
  using assms by (simp_all add: aligned_payload_def checkOutgoingMessage_def checkAlign_def)

lemma Abridged_Read_frame:
  assumes "aligned_payload p"
  shows "Abridged_Read cp (abridged_header (length p div 4) @ p @ rest) b = (None, rest, p)"
proof -
  have k: "0 < length p div 4" "length p div 4 * 4 \<le> MaxMessageSize" "length p div 4 * 4 = length p"
    using assms by (auto simp: aligned_payload_def div_greater_zero_iff dest: dvd_imp_le)
  show ?thesis
    using assms readAbridgedLength_header[OF k(1,2)]
    by (simp add: Abridged_Read_def readAbridged_def k(3) aligned_payload_def)
qed

interpretation abridged: transport_codec
  "stateless_Write (\<lambda>_. Abridged_Write)" "stateless_Read (Abridged_Read cp)" "\<lambda>_ _ _. True" "\<lambda>_. aligned_payload"
proof
  fix k :: nat and sw sr :: unit and e :: 'a and p
  assume "aligned_payload p"
  then show "\<exists>sw' sr' f. (\<forall>w. wbudget w = None \<longrightarrow>
        stateless_Write (\<lambda>_. Abridged_Write) e sw w p = (None, sw', w\<lparr>written := written w @ f\<rparr>, p)) \<and>
      (\<forall>rest b. stateless_Read (Abridged_Read cp) sr (f @ rest) b = (None, sr', rest, p)) \<and> True"
    by (intro exI[of _ "()"] exI[of _ "abridged_header (length p div 4) @ p"])
      (simp add: stateless_Write_def stateless_Read_def Abridged_Write_def writeAbridged_frame
        Abridged_Read_frame aligned_payload_checks)
qed

subsection \<open>Intermediate and padded intermediate\<close>

lemma writeIntermediate_frame:
  "wbudget w = None \<Longrightarrow>
     writeIntermediate w p =
       (None, w\<lparr>written := written w @ le_bytes Word (word_of_nat (length p) :: 32 word) @ p\<rparr>, p)"
  by (simp add: writeIntermediate_def Buffer_Expand_def Let_def put_defs)

lemma readIntermediate_frame:
  assumes "0 < length p" "length p \<le> MaxMessageSize"
  shows "readIntermediate pad cp (le_bytes Word (word_of_nat (length p) :: 32 word) @ p @ rest) b =
    (None, rest, if pad then take (length p - length p mod 4) p else p)"
proof -
  have "uint (word_of_nat (length p) :: 32 word) = int (length p)"
    using assms by (intro uint_word_of_nat32) simp
  from readLen_app[OF this assms] show ?thesis
    using readPayload_ok[of p rest "le_bytes Word (word_of_nat (length p) :: 32 word)" cp] by (auto simp: readIntermediate_def)
qed

interpretation intermediate: transport_codec
  "stateless_Write (\<lambda>_. Intermediate_Write)" "stateless_Read (Intermediate_Read cp)" "\<lambda>_ _ _. True" "\<lambda>_. aligned_payload"
proof
  fix k :: nat and sw sr :: unit and e :: 'a and p
  assume ok: "aligned_payload p"
  let ?f = "le_bytes Word (word_of_nat (length p) :: 32 word) @ p"
  have "Intermediate_Read cp (?f @ rest) b = (None, rest, p)" for rest b
    using ok readIntermediate_frame[of p False cp rest b] by (simp add: Intermediate_Read_def aligned_payload_def)
  with ok show "\<exists>sw' sr' f. (\<forall>w. wbudget w = None \<longrightarrow>
        stateless_Write (\<lambda>_. Intermediate_Write) e sw w p = (None, sw', w\<lparr>written := written w @ f\<rparr>, p)) \<and>
      (\<forall>rest b. stateless_Read (Intermediate_Read cp) sr (f @ rest) b = (None, sr', rest, p)) \<and> True"
    by (intro exI[of _ "()"] exI[of _ ?f])
      (simp add: stateless_Write_def stateless_Read_def Intermediate_Write_def writeIntermediate_frame
        aligned_payload_checks)
qed

text \<open>The padding the writer adds: as many random bytes as the last payload byte says, modulo 4.\<close>

definition padding_of :: "bytes \<Rightarrow> buffer \<Rightarrow> bytes" where
  "padding_of rnd p = take (unat (last p) mod 4) rnd"

definition paddable :: "bytes \<Rightarrow> buffer \<Rightarrow> bool" where
  "paddable rnd p \<longleftrightarrow> 4 \<le> length rnd \<and> aligned_payload p \<and> length p + unat (last p) mod 4 \<le> MaxMessageSize"

lemma length_padding_of: "4 \<le> length rnd \<Longrightarrow> length (padding_of rnd p) = unat (last p) mod 4"
  by (simp add: padding_of_def min_def)

lemma writePaddedIntermediate_frame:
  assumes "4 \<le> length rnd" "p \<noteq> []" "wbudget w = None"
  shows "writePaddedIntermediate rnd w p =
    (None, w\<lparr>written := written w @ le_bytes Word (word_of_nat (length (p @ padding_of rnd p)) :: 32 word)
        @ p @ padding_of rnd p\<rparr>, p)"
proof -
  have n: "(p @ take 4 rnd) ! (length p - 1) = last p"
    using assms(2) by (simp add: nth_append last_conv_nth)
  have "take (length p + unat (last p) mod 4) (p @ take 4 rnd) = p @ padding_of rnd p"
    by (simp add: padding_of_def min_def)
  then show ?thesis
    using assms writeIntermediate_frame[of w "p @ padding_of rnd p"] n
    by (simp add: writePaddedIntermediate_def Buffer_Expand_def Let_def io_ReadFull_def go_copy_full)
qed

lemma readPaddedIntermediate_frame:
  assumes "paddable rnd p"
  shows "readPaddedIntermediate cp (le_bytes Word (word_of_nat (length (p @ padding_of rnd p)) :: 32 word)
      @ (p @ padding_of rnd p) @ rest) b = (None, rest, p)"
proof -
  let ?q = "p @ padding_of rnd p"
  have len: "length (padding_of rnd p) = unat (last p) mod 4" "4 dvd length p" "0 < length ?q" "length ?q \<le> MaxMessageSize"
    using assms by (auto simp: paddable_def length_padding_of aligned_payload_def)
  then have "length ?q - length ?q mod 4 = length p" by (auto simp: mod_add_left_eq[symmetric])
  then show ?thesis
    using readIntermediate_frame[OF len(3,4), of True cp rest b] len(2)
    by (simp add: readPaddedIntermediate_def)
qed

interpretation padded: transport_codec
  "stateless_Write PaddedIntermediate_Write" "stateless_Read (PaddedIntermediate_Read cp)" "\<lambda>_ _ _. True" paddable
proof
  fix k :: nat and sw sr :: unit and rnd p
  assume ok: "paddable rnd p"
  then have al: "aligned_payload p" "4 \<le> length rnd" "p \<noteq> []"
    by (auto simp: paddable_def aligned_payload_def)
  let ?f = "le_bytes Word (word_of_nat (length (p @ padding_of rnd p)) :: 32 word) @ p @ padding_of rnd p"
  have "PaddedIntermediate_Read cp (?f @ rest) b = (None, rest, p)" for rest b
    using readPaddedIntermediate_frame[OF ok, of cp rest b] al(1)
    by (simp add: PaddedIntermediate_Read_def aligned_payload_def)
  with al show "\<exists>sw' sr' f. (\<forall>w. wbudget w = None \<longrightarrow>
        stateless_Write PaddedIntermediate_Write rnd sw w p = (None, sw', w\<lparr>written := written w @ f\<rparr>, p)) \<and>
      (\<forall>rest b. stateless_Read (PaddedIntermediate_Read cp) sr (f @ rest) b = (None, sr', rest, p)) \<and> True"
    by (intro exI[of _ "()"] exI[of _ ?f])
      (simp add: stateless_Write_def stateless_Read_def PaddedIntermediate_Write_def
        writePaddedIntermediate_frame aligned_payload_checks)
qed

subsection \<open>Full\<close>

definition full_body :: "int \<Rightarrow> buffer \<Rightarrow> bytes" where
  "full_body seqNo p = le_bytes Word (word_of_int (int (length p) + 12) :: 32 word)
     @ le_bytes Word (word_of_int seqNo :: 32 word) @ p"

definition full_frame :: "int \<Rightarrow> buffer \<Rightarrow> bytes" where
  "full_frame seqNo p = full_body seqNo p @ le_bytes Word (crc32_ChecksumIEEE (full_body seqNo p))"

lemma writeFull_frame:
  "wbudget w = None \<Longrightarrow> writeFull w seqNo p = (None, w\<lparr>written := written w @ full_frame seqNo p\<rparr>)"
  by (simp add: writeFull_def full_frame_def full_body_def Let_def put_defs add.commute)

lemma readFull_frame:
  assumes "is_int32 seqNo" "length p + 12 \<le> MaxMessageSize"
  shows "readFull cp (full_frame seqNo p @ rest) seqNo b = (None, rest, p)"
proof -
  let ?n = "length p + 12"
  let ?len = "word_of_int (int (length p) + 12) :: 32 word"
  let ?hdr = "le_bytes Word ?len" and ?seq = "le_bytes Word (word_of_int seqNo :: 32 word)"
    and ?crc = "le_bytes Word (crc32_ChecksumIEEE (full_body seqNo p))"
  let ?tl = "?seq @ p @ ?crc"
  have "uint (word_of_nat ?n :: 32 word) = int ?n" using assms(2) by (intro uint_word_of_nat32) simp
  then have u: "uint ?len = int ?n" by simp
  note rl = readLen_app[OF u _ assms(2), of "?tl @ rest" b]
  have fr: "full_frame seqNo p @ rest = ?hdr @ ?tl @ rest"
    by (simp add: full_frame_def full_body_def)
  have tl: "int ?n - int Word = int (length ?tl)" by (simp add: Word_def)
  obtain cp' where ap: "appendPayload (int (length ?tl)) (?tl @ rest) ?hdr cp = (None, rest, ?hdr @ ?tl, cp')"
    using appendPayload_ok by blast
  have body: "take (?n - Word) (?hdr @ ?tl) = full_body seqNo p"
    by (simp add: full_body_def Word_def)
  have i: "Buffer_Int (?seq @ p @ ?crc) = (Inr seqNo, p @ ?crc)"
    by (rule Int_app[OF assms(1)])
  have sk: "Buffer_Skip (int ?n - 3 * int Word) (p @ ?crc) = (Inr (), ?crc)"
    by (simp add: Buffer_Skip_def Word_def)
  have c: "Buffer_Uint32 ?crc = (Inr (crc32_ChecksumIEEE (full_body seqNo p)), [])"
    using Uint32_app[of _ "[]"] by simp
  have cpy: "take (length p) (go_copy (?hdr @ ?tl) (take (length p) (drop (2 * Word) (?hdr @ ?tl)))) = p"
    by (simp add: go_copy_def Word_def)
  show ?thesis
    unfolding readFull_def fr
    using rl tl ap body i sk c cpy by (simp add: Let_def Word_def)
qed

definition full_insync :: "nat \<Rightarrow> Full \<Rightarrow> Full \<Rightarrow> bool" where
  "full_insync k sw sr \<longleftrightarrow> wSeqNo sw = rSeqNo sr \<and> 0 \<le> sint (wSeqNo sw) \<and> sint (wSeqNo sw) + int k \<le> 2 ^ 31"

definition full_payload :: "buffer \<Rightarrow> bool" where
  "full_payload p \<longleftrightarrow> 0 < length p \<and> length p + 12 \<le> MaxMessageSize \<and> length p \<noteq> 4"

lemma sint_succ64:
  assumes "0 \<le> sint (x :: 64 word)" "sint x < 2 ^ 32"
  shows "sint (x + 1) = sint x + 1"
  using assms by (simp add: sint_word_ariths signed_take_bit_int_eq_self)

interpretation full: transport_codec "\<lambda>_. Full_Write" "Full_Read cp" full_insync "\<lambda>_. full_payload"
proof
  fix k sw sr p and e :: 'a
  assume sync: "full_insync (Suc k) sw sr" and ok: "full_payload p"
  let ?f = "full_frame (sint (wSeqNo sw)) p"
  let ?sw = "sw\<lparr>wSeqNo := wSeqNo sw + 1\<rparr>" and ?sr = "sr\<lparr>rSeqNo := rSeqNo sr + 1\<rparr>"
  have nxt: "full_insync k ?sw ?sr"
    using sync sint_succ64[of "wSeqNo sw"] by (auto simp: full_insync_def)
  have "Full_Read cp sr (?f @ rest) b = (None, ?sr, rest, p)" for rest b
    using sync ok readFull_frame[of "sint (wSeqNo sw)" p cp rest b]
    by (auto simp: Full_Read_def full_insync_def full_payload_def is_int32_def Let_def)
  moreover have "Full_Write sw w p = (None, ?sw, w\<lparr>written := written w @ ?f\<rparr>, p)" if "wbudget w = None" for w
    using ok that by (simp add: Full_Write_def checkOutgoingMessage_def full_payload_def writeFull_frame Let_def)
  ultimately show "\<exists>sw' sr' f. (\<forall>w. wbudget w = None \<longrightarrow>
        Full_Write sw w p = (None, sw', w\<lparr>written := written w @ f\<rparr>, p)) \<and>
      (\<forall>rest b. Full_Read cp sr (f @ rest) b = (None, sr', rest, p)) \<and> full_insync k sw' sr'"
    using nxt by (intro exI[of _ ?sw] exI[of _ ?sr] exI[of _ ?f]) simp
qed

section \<open>Properties\<close>

text \<open>
  C9. The abridged framing is transparent: any sequence of aligned payloads of legal size,
  none of them four bytes long, that one side writes is read back by the other side in
  order and complete, from whatever buffer and with whatever bytes following.
\<close>

theorem Abridged_stream:
  assumes "\<And>e p. (e, p) \<in> set ms \<Longrightarrow> aligned_payload p" and "wbudget w = None"
  shows "\<exists>bs. write_msgs (stateless_Write (\<lambda>_. Abridged_Write)) () w ms = (None, (), w\<lparr>written := written w @ bs\<rparr>) \<and>
    (\<forall>rest b. read_msgs (stateless_Read (Abridged_Read cp)) (length ms) () (bs @ rest) b = (None, map snd ms, rest))"
  using abridged.stream_roundtrip[where ms = ms and w = w and cp = cp] assms by auto

theorem Abridged_stream_witness:
  "\<exists>bs. write_msgs (stateless_Write (\<lambda>_. Abridged_Write)) () \<lparr>written = [3], wbudget = None\<rparr>
        [((), replicate 8 1), ((), replicate 12 2)] =
      (None, (), \<lparr>written = [3], wbudget = None\<rparr>\<lparr>written := written \<lparr>written = [3], wbudget = None\<rparr> @ bs\<rparr>) \<and>
    (\<forall>rest b. read_msgs (stateless_Read (Abridged_Read 0)) (length [((), replicate 8 1 :: bytes), ((), replicate 12 2)])
       () (bs @ rest) b = (None, map snd [((), replicate 8 1), ((), replicate 12 2)], rest))"
  by (rule Abridged_stream) (auto simp: aligned_payload_def MaxMessageSize_def)

text \<open>
  The same for the intermediate framing.
\<close>

theorem Intermediate_stream:
  assumes "\<And>e p. (e, p) \<in> set ms \<Longrightarrow> aligned_payload p" and "wbudget w = None"
  shows "\<exists>bs. write_msgs (stateless_Write (\<lambda>_. Intermediate_Write)) () w ms = (None, (), w\<lparr>written := written w @ bs\<rparr>) \<and>
    (\<forall>rest b. read_msgs (stateless_Read (Intermediate_Read cp)) (length ms) () (bs @ rest) b = (None, map snd ms, rest))"
  using intermediate.stream_roundtrip[where ms = ms and w = w and cp = cp] assms by auto

theorem Intermediate_stream_witness:
  "\<exists>bs. write_msgs (stateless_Write (\<lambda>_. Intermediate_Write)) () \<lparr>written = [], wbudget = None\<rparr>
        [((), replicate 8 1), ((), replicate 12 2)] =
      (None, (), \<lparr>written = [], wbudget = None\<rparr>\<lparr>written := written \<lparr>written = [], wbudget = None\<rparr> @ bs\<rparr>) \<and>
    (\<forall>rest b. read_msgs (stateless_Read (Intermediate_Read 0)) (length [((), replicate 8 1 :: bytes), ((), replicate 12 2)])
       () (bs @ rest) b = (None, map snd [((), replicate 8 1), ((), replicate 12 2)], rest))"
  by (rule Intermediate_stream) (auto simp: aligned_payload_def MaxMessageSize_def)

text \<open>
  The padded intermediate framing: the reader strips the random padding whatever bytes
  the random source gave, so the payloads come back exactly as they were written.
\<close>

theorem PaddedIntermediate_stream:
  assumes "\<And>rnd p. (rnd, p) \<in> set ms \<Longrightarrow> paddable rnd p" and "wbudget w = None"
  shows "\<exists>bs. write_msgs (stateless_Write PaddedIntermediate_Write) () w ms = (None, (), w\<lparr>written := written w @ bs\<rparr>) \<and>
    (\<forall>rest b. read_msgs (stateless_Read (PaddedIntermediate_Read cp)) (length ms) () (bs @ rest) b = (None, map snd ms, rest))"
  using padded.stream_roundtrip[where ms = ms and w = w and cp = cp] assms by auto

theorem PaddedIntermediate_stream_witness:
  "\<exists>bs. write_msgs (stateless_Write PaddedIntermediate_Write) () \<lparr>written = [], wbudget = None\<rparr>
        [([5, 6, 7, 8], replicate 8 1), ([9, 9, 9, 9], replicate 12 3)] =
      (None, (), \<lparr>written = [], wbudget = None\<rparr>\<lparr>written := written \<lparr>written = [], wbudget = None\<rparr> @ bs\<rparr>) \<and>
    (\<forall>rest b. read_msgs (stateless_Read (PaddedIntermediate_Read 0))
       (length [([5, 6, 7, 8] :: bytes, replicate 8 1 :: bytes), ([9, 9, 9, 9], replicate 12 3)])
       () (bs @ rest) b = (None, map snd [([5, 6, 7, 8] :: bytes, replicate 8 1), ([9, 9, 9, 9], replicate 12 3)], rest))"
  by (rule PaddedIntermediate_stream) (auto simp: paddable_def aligned_payload_def MaxMessageSize_def)

text \<open>
  The full framing: from agreeing counters, messages are read back in order with their
  sequence numbers and checksums accepted, as long as the counter stays below \<open>2 ^ 31\<close>.
\<close>

theorem Full_stream:
  assumes "full_insync (length ms) sw sr" and "\<And>e p. (e, p) \<in> set ms \<Longrightarrow> full_payload p" and "wbudget w = None"
  shows "\<exists>sw' bs. write_msgs (\<lambda>_. Full_Write) sw w ms = (None, sw', w\<lparr>written := written w @ bs\<rparr>) \<and>
    (\<forall>rest b. read_msgs (Full_Read cp) (length ms) sr (bs @ rest) b = (None, map snd ms, rest))"
  using full.stream_roundtrip[OF assms] .

theorem Full_stream_witness:
  "\<exists>sw' bs. write_msgs (\<lambda>_. Full_Write) \<lparr>wSeqNo = 0, rSeqNo = 5\<rparr> \<lparr>written = [], wbudget = None\<rparr>
        [((), [1, 2, 3]), ((), replicate 12 3)] =
      (None, sw', \<lparr>written = [], wbudget = None\<rparr>\<lparr>written := written \<lparr>written = [], wbudget = None\<rparr> @ bs\<rparr>) \<and>
    (\<forall>rest b. read_msgs (Full_Read 0) (length [((), [1, 2, 3] :: bytes), ((), replicate 12 3)])
       \<lparr>wSeqNo = 7, rSeqNo = 0\<rparr> (bs @ rest) b = (None, map snd [((), [1, 2, 3]), ((), replicate 12 3)], rest))"
  by (rule Full_stream) (auto simp: full_insync_def full_payload_def MaxMessageSize_def)

text \<open>
  C35. The chunked reader reads exactly the declared payload or reports the end of the
  stream with the bytes that did arrive, never with bytes that did not; and the memory it
  commits is bounded by what has arrived: at most twice the received length plus one
  chunk, and never more than the frame, however large the declared length is.
\<close>

theorem appendPayload_reads_and_bounds:
  assumes "0 \<le> n" and "appendPayload n r b cp = (err, r', b', cp')"
  shows "b' = b @ take (nat n) r \<and> r' = drop (nat n) r \<and> (err = None \<longleftrightarrow> nat n \<le> length r) \<and>
    cp' \<le> max cp (min (length b + nat n) (2 * (length b' + inboundReadChunkSize)))"
  using assms appendPayload_loop_spec[of "length b + nat n" "nat n" r b cp]
    appendPayload_loop_cap[of "length b + nat n" "nat n" r b cp err r' b' cp']
  by (auto simp: appendPayload_def split: if_splits)

theorem appendPayload_reads_and_bounds_witness:
  "\<exists>err r' b' cp'. appendPayload 10000000 [1, 2, 3] [] 0 = (err, r', b', cp') \<and> b' = [1, 2, 3] \<and> cp' \<le> 65542"
proof -
  obtain err r' b' cp' where eq: "appendPayload 10000000 [1, 2, 3] [] 0 = (err, r', b', cp')"
    by (metis prod_cases4)
  show ?thesis
    using appendPayload_reads_and_bounds[OF _ eq] eq by (auto simp: inboundReadChunkSize_def)
qed

lemma checkProtocolError_code: "checkProtocolError (le_bytes Word c) = (Some (ProtocolErr (- c)), [])"
  using Int32_app[of c "[]"] by (simp add: checkProtocolError_def)

text \<open>
  A transport error. A frame whose payload is the four bytes of a negative code, which
  is how the server reports a transport-level failure, is never handed to the caller as a
  message: in every framing \<open>Read\<close> returns the protocol error with the code's sign turned.
\<close>

theorem Read_protocol_error:
  "Abridged_Read cp (1 # le_bytes Word c @ rest) b = (Some (ProtocolErr (- c)), rest, []) \<and>
   Intermediate_Read cp (4 # 0 # 0 # 0 # le_bytes Word c @ rest) b = (Some (ProtocolErr (- c)), rest, []) \<and>
   PaddedIntermediate_Read cp (4 # 0 # 0 # 0 # le_bytes Word c @ rest) b = (Some (ProtocolErr (- c)), rest, [])"
proof -
  let ?p = "le_bytes Word c"
  have h: "le_bytes Word (word_of_nat (length ?p) :: 32 word) = [4, 0, 0, 0]" "abridged_header 1 = [1]"
    by (simp_all add: Word_def abridged_header_def le_bytes_numeral)
  have len: "length ?p = 4" by (simp add: Word_def)
  then have sz: "0 < length ?p" "length ?p \<le> MaxMessageSize" by (simp_all add: MaxMessageSize_def)
  have "readAbridged cp (abridged_header 1 @ ?p @ rest) b = (None, rest, ?p)"
    using readAbridgedLength_header[of 1 "?p @ rest"] readPayload_ok[of ?p rest b cp] len
    by (auto simp: readAbridged_def MaxMessageSize_def Word_def)
  moreover have "readIntermediate pad cp ([4, 0, 0, 0] @ ?p @ rest) b = (None, rest, ?p)" for pad
    using readIntermediate_frame[OF sz, of pad cp rest b] len unfolding h by simp
  ultimately show ?thesis
    using h len checkProtocolError_code[of c]
    by (simp add: Abridged_Read_def Intermediate_Read_def PaddedIntermediate_Read_def readPaddedIntermediate_def)
qed

text \<open>
  A hostile length prefix is refused before anything is read or allocated: a declared
  length of zero or beyond \<open>MaxMessageSize\<close> ends \<open>Read\<close> with \<open>invalidMsgLenErr\<close>, the payload
  bytes untouched in the stream.
\<close>

theorem Read_rejects_bad_length:
  assumes "uint (v :: 32 word) = 0 \<or> uint v > int MaxMessageSize"
  shows "fst (Intermediate_Read cp (le_bytes Word v @ rest) b) = Some (Wrap ''read intermediate'' (InvalidMsgLenErr (uint v))) \<and>
    fst (snd (Intermediate_Read cp (le_bytes Word v @ rest) b)) = rest \<and>
    fst (PaddedIntermediate_Read cp (le_bytes Word v @ rest) b) = Some (Wrap ''read padded intermediate'' (InvalidMsgLenErr (uint v))) \<and>
    fst (Full_Read cp i (le_bytes Word v @ rest) b) = Some (Wrap ''read full'' (Wrap ''len'' (InvalidMsgLenErr (uint v))))"
proof -
  have "checkMessageLength (uint v) = Some (InvalidMsgLenErr (uint v))"
    using assms by (auto simp: checkMessageLength_def)
  then show ?thesis
    using readLen_bad[of v] Full_Read_bad_length[of v]
    by (simp add: Intermediate_Read_def PaddedIntermediate_Read_def readPaddedIntermediate_def readIntermediate_def)
qed

theorem Read_rejects_bad_length_witness:
  "uint (0xffffffff :: 32 word) > int MaxMessageSize \<and>
   fst (snd (Intermediate_Read 0 (le_bytes Word (0xffffffff :: 32 word) @ [1, 2]) [])) = [1, 2]"
  using Read_rejects_bad_length[where v = "0xffffffff" and cp = 0 and rest = "[1, 2]" and b = "[]"]
  by (simp add: MaxMessageSize_def)

text \<open>
  The two ends of the full framing disagree about the largest message: \<open>Write\<close> accepts
  every payload up to \<open>MaxMessageSize\<close>, but \<open>Read\<close> applies the same limit to the whole
  frame, twelve bytes longer, so the largest payloads that are sent are never received.
\<close>

theorem Full_largest_payloads_not_readable:
  assumes "MaxMessageSize - 12 < length p" and "length p \<le> MaxMessageSize" and "wbudget w = None"
  shows "\<exists>i' f. Full_Write i w p = (None, i', w\<lparr>written := written w @ f\<rparr>, p) \<and>
    (\<forall>j rest b. fst (Full_Read cp j (f @ rest) b) =
       Some (Wrap ''read full'' (Wrap ''len'' (InvalidMsgLenErr (int (length p) + 12)))))"
proof -
  let ?f = "full_frame (sint (wSeqNo i)) p"
  let ?v = "word_of_nat (length p + 12) :: 32 word"
  have u: "uint ?v = int (length p) + 12"
    using assms(2) uint_word_of_nat32[of "length p + 12"] by (simp add: MaxMessageSize_def)
  have "Full_Write i w p = (None, i\<lparr>wSeqNo := wSeqNo i + 1\<rparr>, w\<lparr>written := written w @ ?f\<rparr>, p)"
    using assms by (auto simp: Full_Write_def checkOutgoingMessage_def checkMessageLength_def writeFull_frame
        Let_def MaxMessageSize_def)
  moreover have "fst (Full_Read cp j (?f @ rest) b) = Some (Wrap ''read full'' (Wrap ''len'' (InvalidMsgLenErr (int (length p) + 12))))"
    for j rest b
  proof -
    have "?f @ rest = le_bytes Word ?v @ drop Word ?f @ rest"
      by (simp add: full_frame_def full_body_def)
    moreover have "checkMessageLength (uint ?v) = Some (InvalidMsgLenErr (int (length p) + 12))"
      using assms(1) u by (simp add: checkMessageLength_def)
    ultimately show ?thesis by (simp only: Full_Read_bad_length)
  qed
  ultimately show ?thesis by blast
qed

theorem Full_largest_payloads_not_readable_witness:
  "\<exists>i' f. Full_Write \<lparr>wSeqNo = 0, rSeqNo = 0\<rparr> \<lparr>written = [], wbudget = None\<rparr> (replicate 16777216 1) =
      (None, i', \<lparr>written = [], wbudget = None\<rparr>\<lparr>written := written \<lparr>written = [], wbudget = None\<rparr> @ f\<rparr>, replicate 16777216 1) \<and>
    (\<forall>j rest b. fst (Full_Read 0 j (f @ rest) b) =
       Some (Wrap ''read full'' (Wrap ''len'' (InvalidMsgLenErr (int (length (replicate 16777216 (1 :: byte))) + 12)))))"
  by (rule Full_largest_payloads_not_readable)
    (simp_all only: length_replicate MaxMessageSize_def writer.simps, simp_all)

end
