(* ===== verification/Message_ID.thy ===== *)
theory Message_ID
  imports Go_Prelude
begin

text \<open>
  \<open>proto/message_id.go\<close>: message identifiers (creation time in the high 32 bits, fraction
  of the second and message type in the low ones), the generator \<open>MessageIDGen\<close> and the
  replay buffer \<open>MessageIDBuf\<close>, and the time window check of \<open>mtproto/read.go\<close>. An \<open>int64\<close>
  identifier is a 64-bit word read as signed; times are nanoseconds since the epoch, as
  \<open>UnixNano\<close> gives them. The clock is an argument of each operation that reads it.
\<close>

section \<open>Message identifiers\<close>

definition messageIDModulo :: int where "messageIDModulo = 4"
definition yieldClient :: int where "yieldClient = 0"
definition yieldServerResponse :: int where "yieldServerResponse = 1"
definition yieldFromServer :: int where "yieldFromServer = 3"

text \<open>Go's \<open>/\<close> and \<open>%\<close> truncate towards zero: \<open>sdiv\<close> and \<open>smod\<close>.\<close>

definition newMessageID :: "int \<Rightarrow> int \<Rightarrow> 64 word" where
  "newMessageID nowNano yield =
     (let nano = 1000000000;
          intPart = nowNano sdiv nano;
          fracPart = nowNano smod nano;
          fracPart = fracPart AND (- messageIDModulo);
          fracPart = fracPart + yield
      in push_bit 32 (word_of_int intPart) OR word_of_int fracPart)"

datatype MessageType = MessageUnknown | MessageFromClient | MessageServerResponse | MessageFromServer

text \<open>\<open>time.Unix(intPart, fracPart)\<close> in nanoseconds.\<close>

definition MessageID_Time :: "64 word \<Rightarrow> int" where
  "MessageID_Time i =
     (let intPart = drop_bit 32 (sint i);
          fracPart = sint (ucast i :: 32 word)
      in intPart * 1000000000 + fracPart)"

definition MessageID_Type :: "64 word \<Rightarrow> MessageType" where
  "MessageID_Type i =
     (let m = sint i smod messageIDModulo in
      if m = yieldClient then MessageFromClient
      else if m = yieldServerResponse then MessageServerResponse
      else if m = yieldFromServer then MessageFromServer
      else MessageUnknown)"

definition yield_of :: "MessageType \<Rightarrow> int" where
  "yield_of typ = (case typ of
     MessageFromClient \<Rightarrow> yieldClient
   | MessageFromServer \<Rightarrow> yieldFromServer
   | MessageServerResponse \<Rightarrow> yieldServerResponse
   | MessageUnknown \<Rightarrow> yieldClient)"

definition NewMessageIDNano :: "int \<Rightarrow> MessageType \<Rightarrow> 64 word" where
  "NewMessageIDNano nano typ = newMessageID nano (yield_of typ)"

definition NewMessageID :: "int \<Rightarrow> MessageType \<Rightarrow> 64 word" where
  "NewMessageID now typ = NewMessageIDNano now typ"

section \<open>The generator\<close>

record MessageIDGen =
  nano :: int

definition MessageIDGen_New :: "MessageType \<Rightarrow> int \<Rightarrow> MessageIDGen \<Rightarrow> 64 word \<times> MessageIDGen" where
  "MessageIDGen_New t now g =
     (let minResolutionNanos = 10;
          g = (if now > nano g then g\<lparr>nano := now\<rparr> else g\<lparr>nano := nano g + minResolutionNanos\<rparr>)
      in (NewMessageIDNano (nano g) t, g))"

definition NewMessageIDGen :: MessageIDGen where
  "NewMessageIDGen = \<lparr>nano = 0\<rparr>"

text \<open>The identifiers that successive calls return, each with its type and clock reading.\<close>

primrec gen_ids :: "MessageIDGen \<Rightarrow> (MessageType \<times> int) list \<Rightarrow> 64 word list" where
  "gen_ids g [] = []"
| "gen_ids g (c # cs) = (case MessageIDGen_New (fst c) (snd c) g of (i, g') \<Rightarrow> i # gen_ids g' cs)"

section \<open>The replay buffer\<close>

type_synonym MessageIDBuf = "int list"

definition NewMessageIDBuf :: "nat \<Rightarrow> MessageIDBuf" where
  "NewMessageIDBuf n = replicate n 0"

text \<open>
  The loop of \<open>Consume\<close> from index \<open>i\<close> on: \<open>None\<close> when it meets \<open>newID\<close> and returns false,
  otherwise \<open>minIDx\<close> and \<open>minID\<close> at its end.
\<close>

primrec consume_scan :: "int \<Rightarrow> nat \<Rightarrow> nat \<Rightarrow> int \<Rightarrow> int list \<Rightarrow> (nat \<times> int) option" where
  "consume_scan newID i minIDx minID [] = Some (minIDx, minID)"
| "consume_scan newID i minIDx minID (x # xs) =
     (if x = newID then None
      else if x < minID then consume_scan newID (Suc i) i x xs
      else consume_scan newID (Suc i) minIDx minID xs)"

definition MessageIDBuf_Consume :: "int \<Rightarrow> MessageIDBuf \<Rightarrow> (go_error + bool) \<times> MessageIDBuf" where
  "MessageIDBuf_Consume newID buf =
     (case consume_scan newID 0 0 0 buf of
        None \<Rightarrow> (Inr False, buf)
      | Some (minIDx, minID) \<Rightarrow>
          if newID < minID then (Inr False, buf)
          else if minIDx < length buf then (Inr True, buf[minIDx := newID])
          else (Inl (GoPanic ''index out of range''), buf))"

section \<open>The time window (mtproto/read.go)\<close>

definition maxPast :: int where "maxPast = 300 * 1000000000"
definition maxFuture :: int where "maxFuture = 30 * 1000000000"

definition checkMessageID :: "int \<Rightarrow> 64 word \<Rightarrow> go_error option" where
  "checkMessageID now rawID =
     (if MessageID_Type rawID \<notin> {MessageFromServer, MessageServerResponse}
      then Some (Wrap ''unexpected type'' (Errorf ''message rejected'' []))
      else
        let created = MessageID_Time rawID in
        if created < now \<and> now - created > maxPast
        then Some (Wrap ''created too far in past'' (Errorf ''message rejected'' []))
        else if created - now > maxFuture
        then Some (Wrap ''created too far in future'' (Errorf ''message rejected'' []))
        else None)"

section \<open>Lemmas\<close>

lemmas yields = yieldClient_def yieldServerResponse_def yieldFromServer_def

lemma yield_of_range: "0 \<le> yield_of t" "yield_of t \<le> 3"
  by (cases t; simp add: yield_of_def yields)+

lemma and_minus_4: "(x :: int) AND (- 4) = x - x mod 4"
proof -
  have "x AND (- 4) = push_bit 2 (drop_bit 2 x)"
  proof (rule bit_eqI)
    fix n
    have "bit (NOT (mask 2) :: int) n \<longleftrightarrow> 2 \<le> n" by (auto simp: bit_simps)
    moreover have "NOT (mask 2) = (- 4 :: int)" by (simp add: mask_eq_exp_minus_1 not_int_def)
    ultimately have "bit (- 4 :: int) n \<longleftrightarrow> 2 \<le> n" by simp
    then show "bit (x AND (- 4)) n = bit (push_bit 2 (drop_bit 2 x)) n"
      by (cases "2 \<le> n") (auto simp: bit_simps dest!: le_Suc_ex)
  qed
  also have "\<dots> = x - x mod 4"
    by (simp add: push_bit_eq_mult drop_bit_eq_div minus_mod_eq_div_mult)
  finally show ?thesis .
qed

lemma word_join:
  assumes "0 \<le> f" "f < 2 ^ 32"
  shows "push_bit 32 (word_of_int i) OR word_of_int f = (word_of_int (i * 2 ^ 32 + f) :: 64 word)"
proof -
  have small: "f = take_bit 32 f" using assms by (simp add: take_bit_int_eq_self)
  have "\<not> bit f n" if "32 \<le> n" for n
    using that by (subst small) (simp add: bit_simps)
  then have "push_bit 32 (word_of_int i) OR word_of_int f = push_bit 32 (word_of_int i) + (word_of_int f :: 64 word)"
    by (intro disjunctive_add[symmetric]) (auto simp: bit_simps)
  then show ?thesis by (simp add: push_bit_eq_mult mult.commute)
qed

text \<open>The times for which an identifier fits its 64 bits: from the epoch up to the year 2038.\<close>

definition in_epoch :: "int \<Rightarrow> bool" where
  "in_epoch n \<longleftrightarrow> 0 \<le> n \<and> n < 2 ^ 31 * 1000000000"

lemma join_range:
  "0 \<le> d \<Longrightarrow> d < 2 ^ 31 \<Longrightarrow> 0 \<le> f \<Longrightarrow> f < 1000000000 \<Longrightarrow>
     - (2 ^ 63) \<le> d * 2 ^ 32 + f \<and> d * 2 ^ 32 + f < (2 ^ 63 :: int)"
  by auto

lemma join_mod4:
  assumes "4 dvd g" "0 \<le> y" "y \<le> 3"
  shows "(d * 2 ^ 32 + (g + y)) mod 4 = (y :: int)"
proof -
  obtain h where g: "g = 4 * h" using assms(1) by blast
  have "d * 2 ^ 32 + (g + y) = y + (d * 2 ^ 30 + h) * 4" by (simp add: g)
  then show ?thesis using assms(2,3) by (simp only: mod_mult_self1) simp
qed

lemma newMessageID_value:
  assumes "in_epoch n" "0 \<le> y" "y \<le> 3"
  shows "sint (newMessageID n y) = n div 1000000000 * 2 ^ 32 + (n mod 1000000000 - n mod 4 + y)"
    and "0 \<le> n mod 1000000000 - n mod 4 + y" and "n mod 1000000000 - n mod 4 + y < 1000000000"
proof -
  let ?d = "n div 1000000000" and ?f = "n mod 1000000000 - n mod 4 + y"
  have m4: "n mod 1000000000 mod 4 = n mod 4" by (simp add: mod_mod_cancel)
  have f: "0 \<le> ?f" "?f < 1000000000"
  proof -
    have "n mod 1000000000 - n mod 1000000000 mod 4 = n mod 1000000000 div 4 * 4"
      by (simp add: minus_mod_eq_div_mult)
    moreover have "n mod 1000000000 div 4 < 250000000" by (simp add: div_less_iff_less_mult)
    moreover have "0 \<le> n mod 1000000000 div 4 * 4" by simp
    ultimately show "0 \<le> ?f" "?f < 1000000000" using assms m4 by linarith+
  qed
  then show "0 \<le> ?f" "?f < 1000000000" .
  have d: "0 \<le> ?d" "?d < 2 ^ 31" using assms(1) by (auto simp: in_epoch_def div_less_iff_less_mult)
  have sd: "n sdiv 1000000000 = ?d" "n smod 1000000000 = n mod 1000000000"
    using assms(1) by (simp_all add: in_epoch_def)
  have "newMessageID n y = word_of_int (?d * 2 ^ 32 + ?f)"
    using f word_join[of ?f ?d] by (simp add: newMessageID_def Let_def messageIDModulo_def and_minus_4 sd m4)
  moreover have "- (2 ^ 63) \<le> ?d * 2 ^ 32 + ?f" "?d * 2 ^ 32 + ?f < 2 ^ 63"
    using join_range[OF d f] by blast+
  ultimately show "sint (newMessageID n y) = ?d * 2 ^ 32 + ?f"
    by (simp only: sint64_of_int)
qed

subsection \<open>Type and time of an identifier\<close>

lemma newMessageID_mod4:
  assumes "in_epoch n" "0 \<le> y" "y \<le> 3"
  shows "0 \<le> sint (newMessageID n y)" "sint (newMessageID n y) mod 4 = y"
proof -
  let ?f = "n mod 1000000000 - n mod 4"
  have "0 \<le> n div 1000000000" using assms(1) by (simp add: in_epoch_def pos_imp_zdiv_nonneg_iff)
  with newMessageID_value[OF assms] show "0 \<le> sint (newMessageID n y)" by simp
  have "4 dvd ?f" by (simp add: mod_eq_dvd_iff[symmetric] mod_mod_cancel)
  then show "sint (newMessageID n y) mod 4 = y"
    using newMessageID_value(1)[OF assms] join_mod4[OF _ assms(2,3)] by (simp only:)
qed

lemma sint_split32:
  assumes "0 \<le> f" "f < 2 ^ 31" "sint (i :: 64 word) = d * 2 ^ 32 + f"
  shows "drop_bit 32 (sint i) = d" "sint (ucast i :: 32 word) = f"
proof -
  show "drop_bit 32 (sint i) = d"
    using assms by (simp add: drop_bit_eq_div div_add1_eq)
  have "ucast i = (word_of_int (sint i) :: 32 word)"
    by (rule bit_word_eqI) (auto simp: bit_simps)
  also have "\<dots> = word_of_int d * word_of_int (2 ^ 32) + word_of_int f"
    by (simp only: assms(3) of_int_add of_int_mult)
  also have "word_of_int (2 ^ 32) = (0 :: 32 word)"
    using word_of_int_2p_len[where 'a = 32] by simp
  finally have "ucast i = (word_of_int f :: 32 word)" by simp
  then show "sint (ucast i :: 32 word) = f"
    using assms(1,2) by (simp add: signed_of_int signed_take_bit_int_eq_self)
qed

subsection \<open>The order of identifiers\<close>

text \<open>
  The value of an identifier as a function of the time with its last two bits cleared:
  moving on by four nanoseconds or more moves the identifier by at least four.
\<close>

lemma clock_value_less:
  assumes "0 \<le> m" "m + 4 \<le> k" "4 dvd m" "4 dvd (k :: int)"
  shows "m div 1000000000 * 2 ^ 32 + m mod 1000000000 + 3 < k div 1000000000 * 2 ^ 32 + k mod 1000000000"
proof (cases "m div 1000000000 = k div 1000000000")
  case True
  define d b c where "d = m div 1000000000" and "b = m mod 1000000000" and "c = k mod 1000000000"
  have "m = d * 1000000000 + b" "k = d * 1000000000 + c"
    by (simp add: d_def b_def) (simp add: d_def c_def True)
  with assms(2) have "b + 4 \<le> c" by linarith
  then show ?thesis unfolding True by (simp add: b_def c_def)
next
  case False
  have "m div 1000000000 \<le> k div 1000000000" using assms(2) by (intro zdiv_mono1) simp_all
  with False have "m div 1000000000 + 1 \<le> k div 1000000000" by simp
  then have "(m div 1000000000 + 1) * 2 ^ 32 \<le> k div 1000000000 * 2 ^ 32"
    by (intro mult_right_mono) simp_all
  moreover have "m mod 1000000000 < 1000000000" "0 \<le> k mod 1000000000" by simp_all
  ultimately show ?thesis by (simp only: distrib_right) simp
qed

lemma below_next_bucket: "a + 3 < b \<Longrightarrow> y \<le> 3 \<Longrightarrow> 0 \<le> y' \<Longrightarrow> a + y < b + (y' :: int)"
  by simp

lemma floor4:
  fixes n :: int
  shows "(n - n mod 4) div 1000000000 = n div 1000000000"
    "(n - n mod 4) mod 1000000000 = n mod 1000000000 - n mod 4"
proof -
  let ?r = "n mod 1000000000 - n mod 4"
  have "?r = n mod 1000000000 - n mod 1000000000 mod 4" by (simp add: mod_mod_cancel)
  also have "\<dots> = n mod 1000000000 div 4 * 4" by (simp add: minus_mod_eq_div_mult)
  finally have r: "0 \<le> ?r" by simp
  moreover have "?r < 1000000000"
    using pos_mod_bound[of 1000000000 n] pos_mod_sign[of 4 n] by simp
  moreover have "n - n mod 4 = n div 1000000000 * 1000000000 + ?r" by simp
  ultimately show "(n - n mod 4) div 1000000000 = n div 1000000000"
    "(n - n mod 4) mod 1000000000 = ?r"
    by (metis div_mult_self3 div_pos_pos_trivial add.commute add.right_neutral zero_neq_numeral,
        metis mod_mult_self3 mod_pos_pos_trivial)
qed

lemma NewMessageIDNano_value:
  "in_epoch q \<Longrightarrow> sint (NewMessageIDNano q s) =
     (q - q mod 4) div 1000000000 * 2 ^ 32 + (q - q mod 4) mod 1000000000 + yield_of s"
  using newMessageID_value(1)[OF _ yield_of_range] by (simp add: NewMessageIDNano_def floor4)

lemma NewMessageIDNano_less:
  assumes "in_epoch n" "in_epoch k" "n + 4 \<le> k"
  shows "sint (NewMessageIDNano n t) < sint (NewMessageIDNano k t')"
proof -
  have "n - n mod 4 + 4 \<le> k - k mod 4"
  proof -
    have "n div 4 + 1 \<le> k div 4" using assms(3) zdiv_mono1[of "n + 4" k 4] by simp
    then show ?thesis by (simp add: minus_mod_eq_div_mult)
  qed
  moreover have "0 \<le> n - n mod 4" using assms(1) by (auto simp: in_epoch_def minus_mod_eq_div_mult)
  moreover have "4 dvd n - n mod 4" "4 dvd k - k mod 4" by simp_all
  ultimately show ?thesis
    unfolding NewMessageIDNano_value[OF assms(1)] NewMessageIDNano_value[OF assms(2)]
    by (intro below_next_bucket[OF clock_value_less] yield_of_range)
qed

text \<open>
  Readings that are never less than four nanoseconds ahead of the value the generator last used: they
  are behind it, or at least that far ahead.
\<close>

primrec coarse_clock :: "MessageIDGen \<Rightarrow> (MessageType \<times> int) list \<Rightarrow> bool" where
  "coarse_clock g [] = True"
| "coarse_clock g (c # cs) =
     ((snd c \<le> nano g \<or> nano g + 4 \<le> snd c) \<and>
      (case MessageIDGen_New (fst c) (snd c) g of (i, g') \<Rightarrow> in_epoch (nano g') \<and> coarse_clock g' cs))"

lemma gen_ids_above:
  "coarse_clock g cs \<Longrightarrow> in_epoch (nano g) \<Longrightarrow> i \<in> set (gen_ids g cs) \<Longrightarrow>
     sint (NewMessageIDNano (nano g) t) < sint i"
proof (induction cs arbitrary: g t)
  case (Cons c cs)
  define g' where "g' = snd (MessageIDGen_New (fst c) (snd c) g)"
  have New: "MessageIDGen_New (fst c) (snd c) g = (NewMessageIDNano (nano g') (fst c), g')"
    by (simp add: g'_def MessageIDGen_New_def Let_def)
  have step: "nano g + 4 \<le> nano g'" "in_epoch (nano g')" "coarse_clock g' cs"
    using Cons.prems(1) by (auto simp: g'_def MessageIDGen_New_def Let_def split: if_splits)
  have first: "sint (NewMessageIDNano (nano g) t) < sint (NewMessageIDNano (nano g') s)" for s
    using NewMessageIDNano_less[OF Cons.prems(2) step(2,1)] .
  from Cons.prems(3) New consider "i = NewMessageIDNano (nano g') (fst c)" | "i \<in> set (gen_ids g' cs)"
    by auto
  then show ?case
  proof cases
    case 2
    then have "sint (NewMessageIDNano (nano g') t) < sint i" using Cons.IH step(2,3) by blast
    with first[of t] show ?thesis by simp
  qed (use first in simp)
qed simp

lemma gen_ids_sorted: "coarse_clock g cs \<Longrightarrow> sorted_wrt (\<lambda>a b. sint a < sint b) (gen_ids g cs)"
proof (induction cs arbitrary: g)
  case (Cons c cs)
  define g' where "g' = snd (MessageIDGen_New (fst c) (snd c) g)"
  have New: "MessageIDGen_New (fst c) (snd c) g = (NewMessageIDNano (nano g') (fst c), g')"
    by (simp add: g'_def MessageIDGen_New_def Let_def)
  with Cons show ?case using gen_ids_above by auto
qed simp

text \<open>Two kinds of clocks that give such readings: those that count in steps of five nanoseconds, and those that are never read twice within four.\<close>

definition before_2038 :: "int list \<Rightarrow> bool" where
  "before_2038 rs \<longleftrightarrow> (\<forall>r\<in>set (0 # rs). r + 10 * int (length rs) < 2 ^ 31 * 1000000000)"

lemma five_ns_clock:
  "0 \<le> nano g \<Longrightarrow> 5 dvd nano g \<Longrightarrow> nano g + 10 * int (length cs) < E \<Longrightarrow> \<forall>c\<in>set cs. 5 dvd snd c \<and> snd c + 10 * int (length cs) < E \<Longrightarrow>
   E \<le> 2 ^ 31 * 1000000000 \<Longrightarrow> coarse_clock g cs"
proof (induction cs arbitrary: g)
  case (Cons c cs)
  define g' where "g' = snd (MessageIDGen_New (fst c) (snd c) g)"
  have g': "MessageIDGen_New (fst c) (snd c) g = (NewMessageIDNano (nano g') (fst c), g')" "nano g' = (if nano g < snd c then snd c else nano g + 10)"
    by (simp_all add: g'_def MessageIDGen_New_def Let_def)
  have c: "5 dvd snd c" "snd c + 10 * int (length cs) + 10 < E" using Cons.prems(4) by (simp_all add: algebra_simps)
  have far: "snd c \<le> nano g \<or> nano g + 4 \<le> snd c" using Cons.prems(2) c(1) by presburger
  have d: "0 \<le> nano g'" "nano g' + 10 * int (length cs) < E" using Cons.prems(1,3) c(2) g'(2) by (simp_all add: algebra_simps split: if_splits)
  have five: "5 dvd nano g'" using Cons.prems(2) c(1) g'(2) by (auto intro: dvd_add)
  have "\<forall>x\<in>set cs. 5 dvd snd x \<and> snd x + 10 * int (length cs) < E" using Cons.prems(4) by (auto simp: algebra_simps)
  from Cons.IH[OF d(1) five d(2) this Cons.prems(5)] have "coarse_clock g' cs" .
  moreover have "in_epoch (nano g')" using d Cons.prems(5) by (simp add: in_epoch_def)
  ultimately show ?case using far g'(1) by simp
qed simp

lemma advancing_clock:
  "0 \<le> nano g \<Longrightarrow> successively (\<lambda>a b. a + 4 \<le> b) (nano g # map snd cs) \<Longrightarrow> \<forall>c\<in>set cs. snd c < 2 ^ 31 * 1000000000 \<Longrightarrow> coarse_clock g cs"
proof (induction cs arbitrary: g)
  case (Cons c cs)
  have s: "nano g + 4 \<le> snd c" "successively (\<lambda>a b. a + 4 \<le> b) (snd c # map snd cs)" using Cons.prems(2) by simp_all
  then have n: "MessageIDGen_New (fst c) (snd c) g = (NewMessageIDNano (snd c) (fst c), g\<lparr>nano := snd c\<rparr>)"
    by (simp add: MessageIDGen_New_def)
  have "coarse_clock (g\<lparr>nano := snd c\<rparr>) cs" using Cons.IH[of "g\<lparr>nano := snd c\<rparr>"] s Cons.prems(1,3) by simp
  then show ?case using n s(1) Cons.prems(1,3) by (simp add: in_epoch_def)
qed simp

subsection \<open>The replay buffer\<close>

lemma consume_scan_spec:
  "consume_scan newID i mi m xs =
     (if newID \<in> set xs then None
      else Some (fst (the (consume_scan newID i mi m xs)), Min (insert m (set xs))))"
proof (induction xs arbitrary: i mi m)
  case (Cons x xs)
  have le: "Min (insert y (set xs)) \<le> y" for y by simp
  have ins: "Min (insert y (insert z (set xs))) = min y (Min (insert z (set xs)))" for y z
    by (rule Min_insert) simp_all
  have "Min (insert m (insert x (set xs))) = Min (insert x (set xs))" if "x < m"
    using ins[of m x] le[of x] that by (metis less_imp_le min_absorb2 order_trans)
  moreover have "Min (insert m (insert x (set xs))) = Min (insert m (set xs))" if "\<not> x < m"
    using ins[of x m] le[of m] that by (metis insert_commute min_absorb2 not_less order_trans)
  ultimately show ?case
    using Cons[of "Suc i" i x] Cons[of "Suc i" mi m] by (auto split: if_splits)
qed simp

lemma consume_scan_index:
  "consume_scan newID i mi m xs = Some (k, v) \<Longrightarrow> k = mi \<or> (i \<le> k \<and> k < i + length xs)"
  by (induction xs arbitrary: i mi m) (auto split: if_splits, fastforce+)

lemma Consume_eq:
  assumes "buf \<noteq> []"
  shows "\<exists>k < length buf. MessageIDBuf_Consume newID buf =
    (if newID \<in> set buf \<or> newID < Min (insert 0 (set buf)) then (Inr False, buf)
     else (Inr True, buf[k := newID]))"
proof (cases "newID \<in> set buf")
  case True
  then have "consume_scan newID 0 0 0 buf = None" using consume_scan_spec[of newID 0 0 0 buf] by simp
  with True assms show ?thesis by (auto simp: MessageIDBuf_Consume_def)
next
  case False
  then obtain k where k: "consume_scan newID 0 0 0 buf = Some (k, Min (insert 0 (set buf)))"
    using consume_scan_spec[of newID 0 0 0 buf] by auto
  then have "k < length buf" using consume_scan_index[OF k] assms by auto
  with k False show ?thesis by (auto simp: MessageIDBuf_Consume_def)
qed

lemma consume_scan_nonneg:
  assumes "newID \<notin> set xs" "\<And>x. x \<in> set xs \<Longrightarrow> m \<le> x"
  shows "consume_scan newID i mi m xs = Some (mi, m)"
  using assms by (induction xs arbitrary: i) fastforce+

lemma Consume_nonneg:
  assumes "newID \<notin> set (x # xs)" "\<And>y. y \<in> set (x # xs) \<Longrightarrow> 0 \<le> y" "0 \<le> newID"
  shows "MessageIDBuf_Consume newID (x # xs) = (Inr True, newID # xs)"
proof -
  have "consume_scan newID 0 0 0 (x # xs) = Some (0, 0)"
    by (rule consume_scan_nonneg) (use assms in auto)
  with assms(3) show ?thesis by (simp add: MessageIDBuf_Consume_def)
qed

lemma MessageID_Type_New:
  assumes "in_epoch now" and "t \<noteq> MessageUnknown"
  shows "MessageID_Type (NewMessageID now t) = t"
  using newMessageID_mod4[OF assms(1) yield_of_range, of t] assms(2)
  by (cases t) (simp_all add: NewMessageID_def NewMessageIDNano_def MessageID_Type_def messageIDModulo_def yield_of_def yields)

section \<open>Properties\<close>

text \<open>
  A message identifier carries what it was made from: its type is the type given to
  \<open>NewMessageID\<close>, and its time is the creation time up to the two bits that hold the type.
\<close>

theorem NewMessageID_type_time:
  assumes "in_epoch now" and "t \<noteq> MessageUnknown"
  shows "MessageID_Type (NewMessageID now t) = t \<and>
    MessageID_Time (NewMessageID now t) = now - now mod 4 + yield_of t"
proof -
  let ?i = "newMessageID now (yield_of t)"
  note val = newMessageID_value[OF assms(1) yield_of_range, of t]
  have "MessageID_Type ?i = t"
    using MessageID_Type_New[OF assms] by (simp add: NewMessageID_def NewMessageIDNano_def)
  moreover have "drop_bit 32 (sint ?i) = now div 1000000000" "sint (ucast ?i :: 32 word) = now mod 1000000000 - now mod 4 + yield_of t"
    using sint_split32[OF val(2) _ val(1)] val(3) by auto
  then have "MessageID_Time ?i = now - now mod 4 + yield_of t"
    unfolding MessageID_Time_def Let_def by (simp only:) simp
  ultimately show ?thesis by (simp add: NewMessageID_def NewMessageIDNano_def)
qed

theorem NewMessageID_type_time_witness:
  "MessageID_Type (NewMessageID 1700000000123456789 MessageFromServer) = MessageFromServer \<and>
   MessageID_Time (NewMessageID 1700000000123456789 MessageFromServer) = 1700000000123456791"
  using NewMessageID_type_time[of 1700000000123456789 MessageFromServer]
  by (simp add: in_epoch_def yield_of_def yields)

text \<open>
  C37. The identifiers of a new generator grow, so none is repeated, for any number of calls of any types, on
  two kinds of clocks that read times up to 2038. The first counts in steps of five nanoseconds or
  a multiple (a tenth of a microsecond, a microsecond): it may stand still and go
  back as it likes. The second may have any resolution but is never read twice within four
  nanoseconds. For other clocks the theorems below show repeated identifiers.
\<close>

theorem MessageIDGen_unique:
  assumes "before_2038 (map snd cs)"
    and "(\<forall>c\<in>set cs. 5 dvd snd c) \<or> successively (\<lambda>a b. a + 4 \<le> b) (0 # map snd cs)"
  shows "sorted_wrt (\<lambda>a b. sint a < sint b) (gen_ids NewMessageIDGen cs) \<and> distinct (gen_ids NewMessageIDGen cs)"
proof
  have e: "\<forall>c\<in>set cs. snd c + 10 * int (length cs) < 2 ^ 31 * 1000000000" "10 * int (length cs) < 2 ^ 31 * 1000000000"
    using assms(1) by (auto simp: before_2038_def)
  have "coarse_clock NewMessageIDGen cs" using assms(2)
  proof
    assume "\<forall>c\<in>set cs. 5 dvd snd c"
    then show ?thesis using e by (intro five_ns_clock[where E = "2 ^ 31 * 1000000000"]) (simp_all add: NewMessageIDGen_def)
  next
    assume s: "successively (\<lambda>a b. a + 4 \<le> b) (0 # map snd cs)"
    have "\<forall>c\<in>set cs. snd c < 2 ^ 31 * 1000000000" using e(1) by fastforce
    then show ?thesis using s by (intro advancing_clock) (simp_all add: NewMessageIDGen_def)
  qed
  then show sorted: "sorted_wrt (\<lambda>a b. sint a < sint b) (gen_ids NewMessageIDGen cs)" by (rule gen_ids_sorted)
  then have "sorted_wrt (\<noteq>) (gen_ids NewMessageIDGen cs)" by (rule sorted_wrt_mono_rel[rotated]) auto
  then show "distinct (gen_ids NewMessageIDGen cs)" by (simp add: distinct_conv_nth sorted_wrt_iff_nth_less) (metis linorder_neqE_nat)
qed

text \<open>A clock that stands still, moves on by 15 nanoseconds and goes back; and one that is read every four nanoseconds.\<close>

theorem MessageIDGen_unique_witness:
  "distinct (gen_ids NewMessageIDGen [(MessageFromClient, 1700000000000000000), (MessageFromClient, 1700000000000000000),
     (MessageFromServer, 1700000000000000015), (MessageFromServer, 1600000000000000000)])
   \<and> distinct (gen_ids NewMessageIDGen [(MessageFromClient, 1700000000000000001), (MessageFromClient, 1700000000000000005)])"
  using MessageIDGen_unique[of "[(MessageFromClient, 1700000000000000000), (MessageFromClient, 1700000000000000000),
     (MessageFromServer, 1700000000000000015), (MessageFromServer, 1600000000000000000)]"]
    MessageIDGen_unique[of "[(MessageFromClient, 1700000000000000001), (MessageFromClient, 1700000000000000005)]"]
  by (simp add: before_2038_def)

text \<open>
  The collision the generator does not prevent: when the clock has moved on by one
  nanosecond within the same group of four, the next call returns the same identifier
  again. The guard \<open>nano > g.nano\<close> takes the new reading although the identifier drops the
  bits in which it differs.
\<close>

theorem MessageIDGen_collision:
  assumes "in_epoch now" and "in_epoch (now + 1)" and "now mod 4 \<noteq> 3" and "nano g < now"
    and "MessageIDGen_New t now g = (i, g')"
  shows "fst (MessageIDGen_New t (now + 1) g') = i"
proof -
  have g: "nano g' = now" "i = NewMessageIDNano now t"
    using assms(4,5) by (auto simp: MessageIDGen_New_def Let_def)
  have same: "now + 1 - (now + 1) mod 4 = now - now mod 4" using assms(3) by presburger
  have "sint (NewMessageIDNano (now + 1) t) = sint (NewMessageIDNano now t)"
    by (simp only: NewMessageIDNano_value[OF assms(1)] NewMessageIDNano_value[OF assms(2)] same)
  then have "NewMessageIDNano (now + 1) t = NewMessageIDNano now t" by (rule signed_word_eqI)
  then show ?thesis using g by (simp add: MessageIDGen_New_def Let_def)
qed

theorem MessageIDGen_collision_witness:
  "fst (MessageIDGen_New MessageFromClient 1700000000000000001
      (snd (MessageIDGen_New MessageFromClient 1700000000000000000 \<lparr>nano = 0\<rparr>))) =
   fst (MessageIDGen_New MessageFromClient 1700000000000000000 \<lparr>nano = 0\<rparr>)"
  using MessageIDGen_collision[of 1700000000000000000 "\<lparr>nano = 0\<rparr>" MessageFromClient
      "fst (MessageIDGen_New MessageFromClient 1700000000000000000 \<lparr>nano = 0\<rparr>)"
      "snd (MessageIDGen_New MessageFromClient 1700000000000000000 \<lparr>nano = 0\<rparr>)"]
  by (simp add: in_epoch_def)

text \<open>
  A clock that stands still and then moves on by eleven nanoseconds: the second call has moved the generator
  ten ahead of the clock, and the third reading is in the same group of four.
\<close>

theorem MessageIDGen_collision_ahead:
  assumes "in_epoch (now + 10)" and "in_epoch (now + 11)" and "(now + 10) mod 4 \<noteq> 3" and "nano g < now"
    and "MessageIDGen_New t now g = (i1, g1)" and "MessageIDGen_New t now g1 = (i2, g2)"
  shows "fst (MessageIDGen_New t (now + 11) g2) = i2"
proof -
  have g: "nano g2 = now + 10" "i2 = NewMessageIDNano (now + 10) t"
    using assms(4-6) by (auto simp: MessageIDGen_New_def Let_def)
  have same: "now + 11 - (now + 11) mod 4 = now + 10 - (now + 10) mod 4" using assms(3) by presburger
  have "sint (NewMessageIDNano (now + 11) t) = sint (NewMessageIDNano (now + 10) t)"
    by (simp only: NewMessageIDNano_value[OF assms(1)] NewMessageIDNano_value[OF assms(2)] same)
  then have "NewMessageIDNano (now + 11) t = NewMessageIDNano (now + 10) t" by (rule signed_word_eqI)
  then show ?thesis using g by (simp add: MessageIDGen_New_def Let_def)
qed

text \<open>
  What \<open>Consume\<close> decides. On a buffer with at least one slot it never fails, keeps the
  number of slots, and accepts an identifier exactly when it is none of the stored values
  and not below both zero and all of them; an accepted identifier takes one slot, and the
  same identifier right after is refused.
\<close>

theorem MessageIDBuf_Consume_decides:
  assumes "buf \<noteq> []"
  shows "\<exists>buf'. MessageIDBuf_Consume newID buf = (Inr (newID \<notin> set buf \<and> Min (insert 0 (set buf)) \<le> newID), buf') \<and>
    length buf' = length buf \<and> set buf' \<subseteq> insert newID (set buf) \<and> fst (MessageIDBuf_Consume newID buf') = Inr False"
proof -
  from Consume_eq[OF assms] obtain k where k: "k < length buf" and
    eq: "MessageIDBuf_Consume newID buf =
      (if newID \<in> set buf \<or> newID < Min (insert 0 (set buf)) then (Inr False, buf) else (Inr True, buf[k := newID]))"
    by blast
  have again: "fst (MessageIDBuf_Consume newID (buf[k := newID])) = Inr False"
    using Consume_eq[of "buf[k := newID]" newID] k assms by (auto simp: set_update_memI)
  show ?thesis
  proof (cases "newID \<in> set buf \<or> newID < Min (insert 0 (set buf))")
    case True
    then show ?thesis using eq by (auto simp: not_le simp del: Min_gr_iff Min_le_iff Min_less_iff Min_ge_iff)
  next
    case False
    then show ?thesis using eq again set_update_subset_insert[of buf k newID]
      by (auto simp: not_less simp del: Min_gr_iff Min_le_iff Min_less_iff Min_ge_iff)
  qed
qed

theorem MessageIDBuf_Consume_decides_witness:
  "\<exists>buf'. MessageIDBuf_Consume 7 [0, 0] = (Inr True, buf') \<and> fst (MessageIDBuf_Consume 7 buf') = Inr False"
  using MessageIDBuf_Consume_decides[of "[0, 0]" 7] by auto

text \<open>
  The buffer does not remember the last \<open>N\<close> identifiers. \<open>minID\<close> starts at zero, so
  among non-negative identifiers the loop never finds a smaller one and every accepted
  identifier overwrites slot 0: whatever the size of the buffer, an identifier accepted
  two messages ago is accepted again.
\<close>

theorem MessageIDBuf_replay_accepted:
  assumes "0 < n" and "0 < a" and "0 < b" and "a \<noteq> b"
    and "MessageIDBuf_Consume a (NewMessageIDBuf n) = (r1, buf1)" and "MessageIDBuf_Consume b buf1 = (r2, buf2)"
  shows "r1 = Inr True \<and> r2 = Inr True \<and> fst (MessageIDBuf_Consume a buf2) = Inr True"
proof -
  obtain m where n: "n = Suc m" using assms(1) by (cases n) auto
  have "MessageIDBuf_Consume a (NewMessageIDBuf n) = (Inr True, a # replicate m 0)"
    unfolding NewMessageIDBuf_def n replicate.simps using assms by (intro Consume_nonneg) auto
  moreover have "MessageIDBuf_Consume b (a # replicate m 0) = (Inr True, b # replicate m 0)"
    using assms by (intro Consume_nonneg) auto
  moreover have "MessageIDBuf_Consume a (b # replicate m 0) = (Inr True, a # replicate m 0)"
    using assms by (intro Consume_nonneg) auto
  ultimately show ?thesis using assms(5,6) by auto
qed

theorem MessageIDBuf_replay_accepted_witness:
  "fst (MessageIDBuf_Consume 5 (snd (MessageIDBuf_Consume 9 (snd (MessageIDBuf_Consume 5 (NewMessageIDBuf 100)))))) = Inr True"
  using MessageIDBuf_replay_accepted[of 100 5 9 _ _ _ _, OF _ _ _ _ surjective_pairing surjective_pairing] by simp

text \<open>
  The time window. An identifier passes \<open>checkMessageID\<close> exactly when it is of a server
  type and was created at most 300 seconds ago and at most 30 seconds ahead.
\<close>

theorem checkMessageID_window:
  "checkMessageID now i = None \<longleftrightarrow>
     (MessageID_Type i = MessageFromServer \<or> MessageID_Type i = MessageServerResponse) \<and>
     now - maxPast \<le> MessageID_Time i \<and> MessageID_Time i \<le> now + maxFuture"
  by (auto simp: checkMessageID_def Let_def maxPast_def)

end
