(* ===== verification/Proto_Messages.thy ===== *)
theory Proto_Messages
  imports Bin
begin

text \<open>
  Package \<open>proto\<close>, the service messages with a hand-written encoding: \<open>MessageContainer\<close>
  and \<open>Message\<close> (\<open>container.go\<close>), \<open>Result\<close> (\<open>rpc_result.go\<close>), \<open>UnencryptedMessage\<close>
  (\<open>unencrypted_message.go\<close>) and \<open>GZIP\<close> (\<open>gzip.go\<close>). A method \<open>Encode\<close> returns the error
  and the buffer; a method \<open>Decode\<close> on a fresh receiver is a decoder. The compressor is
  the package \<open>klauspost/compress/gzip\<close>: a record of functions, argument of the operations
  that call it.
\<close>

section \<open>container.go\<close>

definition MessageContainerTypeID :: "32 word" where "MessageContainerTypeID = 0x73f1f8dc"

record Message =
  ID :: "64 word"
  SeqNo :: int
  Bytes :: int
  Body :: bytes

definition maxMessageBytes :: int where "maxMessageBytes = 1024 * 1024"

definition Message_Encode :: "Message \<Rightarrow> buffer \<Rightarrow> go_error option \<times> buffer" where
  "Message_Encode m b =
     (if Bytes m < 0 \<or> Bytes m > maxMessageBytes then (Some (Errorf ''message length %d is invalid'' [Bytes m]), b)
      else (None, Buffer_Put (Body m) (Buffer_PutInt (Bytes m) (Buffer_PutInt (SeqNo m) (Buffer_PutLong (ID m) b)))))"

definition Message_Decode :: "Message dec" where
  "Message_Decode =
     dec_bind Buffer_Long (\<lambda>i.
     dec_bind Buffer_Int (\<lambda>s.
     dec_bind Buffer_Int (\<lambda>n.
     if n < 0 \<or> n > maxMessageBytes then dec_fail (Errorf ''message length is too big'' [])
     else dec_bind (Buffer_ConsumeN (replicate (nat n) 0) n) (\<lambda>body.
          dec_return \<lparr>ID = i, SeqNo = s, Bytes = n, Body = body\<rparr>))))"

primrec encode_messages :: "Message list \<Rightarrow> buffer \<Rightarrow> go_error option \<times> buffer" where
  "encode_messages [] b = (None, b)"
| "encode_messages (m # ms) b =
     (case Message_Encode m b of (Some e, b') \<Rightarrow> (Some e, b') | (None, b') \<Rightarrow> encode_messages ms b')"

definition MessageContainer_Encode :: "Message list \<Rightarrow> buffer \<Rightarrow> go_error option \<times> buffer" where
  "MessageContainer_Encode ms b =
     encode_messages ms (Buffer_PutInt (int (length ms)) (Buffer_PutID MessageContainerTypeID b))"

text \<open>
  The receiver's slice \<open>m.Messages\<close> is appended to message by message; after an error it
  keeps the messages decoded so far.
\<close>

primrec decode_messages :: "nat \<Rightarrow> Message list \<Rightarrow> buffer \<Rightarrow> go_error option \<times> Message list \<times> buffer" where
  "decode_messages 0 ms b = (None, ms, b)"
| "decode_messages (Suc n) ms b =
     (case Message_Decode b of
        (Inl e, b') \<Rightarrow> (Some e, ms, b')
      | (Inr m, b') \<Rightarrow> decode_messages n (ms @ [m]) b')"

definition MessageContainer_Decode :: "Message list \<Rightarrow> buffer \<Rightarrow> go_error option \<times> Message list \<times> buffer" where
  "MessageContainer_Decode ms b =
     (case dec_wrap ''consume id of message container'' (Buffer_ConsumeID MessageContainerTypeID) b of
        (Inl e, b') \<Rightarrow> (Some e, ms, b')
      | (Inr _, b') \<Rightarrow>
         (case Buffer_Int b' of
            (Inl e, b'') \<Rightarrow> (Some e, ms, b'')
          | (Inr n, b'') \<Rightarrow> decode_messages (nat n) ms b''))"

section \<open>rpc\_result.go\<close>

definition ResultTypeID :: "32 word" where "ResultTypeID = 0xf35c6d01"

record Result =
  RequestMessageID :: "64 word"
  Result_Result :: bytes

definition Result_Encode :: "Result \<Rightarrow> buffer \<Rightarrow> buffer" where
  "Result_Encode r b = Buffer_Put (Result_Result r) (Buffer_PutLong (RequestMessageID r) (Buffer_PutID ResultTypeID b))"

definition Result_Decode :: "Result dec" where
  "Result_Decode =
     dec_bind (Buffer_ConsumeID ResultTypeID) (\<lambda>_.
     dec_bind Buffer_Long (\<lambda>v b.
     dec_bind (Buffer_Skip (int (length b))) (\<lambda>_.
       dec_return \<lparr>RequestMessageID = v, Result_Result = b\<rparr>) b))"

section \<open>unencrypted\_message.go\<close>

record UnencryptedMessage =
  MessageID :: "64 word"
  MessageData :: bytes

definition UnencryptedMessage_Decode :: "UnencryptedMessage dec" where
  "UnencryptedMessage_Decode =
     dec_bind Buffer_Long (\<lambda>i.
     if i \<noteq> 0 then dec_fail (Errorf ''unexpected auth_key_id %d of plaintext message'' [sint i])
     else
     dec_bind Buffer_Long (\<lambda>v.
     dec_bind Buffer_Int32 (\<lambda>dataLen b.
     if sint dataLen < 0 then (Inl (InvalidLengthError (sint dataLen) ''plaintext message data''), b)
     else if sint dataLen > int (length b) then (Inl (Wrap ''consume payload'' ErrUnexpectedEOF), b)
     else dec_bind (dec_wrap ''consume payload'' (Buffer_ConsumeN (replicate (nat (sint dataLen)) 0) (sint dataLen)))
            (\<lambda>d. dec_return \<lparr>MessageID = v, MessageData = d\<rparr>) b)))"

definition UnencryptedMessage_Encode :: "UnencryptedMessage \<Rightarrow> buffer \<Rightarrow> buffer" where
  "UnencryptedMessage_Encode u b =
     Buffer_Put (MessageData u) (Buffer_PutInt32 (word_of_int (int (length (MessageData u))))
       (Buffer_PutLong (MessageID u) (Buffer_PutLong 0 b)))"

section \<open>gzip.go\<close>

definition GZIPTypeID :: "32 word" where "GZIPTypeID = 0x3072cfa1"

definition maxUncompressedSize :: nat where "maxUncompressedSize = 1024 * 1024 * 10"

text \<open>
  The compression library. For a compressed input: the error of opening it
  (\<open>gzip.NewReader\<close> or \<open>Reset\<close>), the bytes it inflates to, the error met after those bytes
  (\<open>None\<close> is the end of the stream), the error of \<open>Close\<close>. For a plain input: the error of
  \<open>Write\<close>, the error of \<open>Close\<close>, the compressed bytes.
\<close>

record gzip_lib =
  gr_open :: "bytes \<Rightarrow> go_error option"
  gr_data :: "bytes \<Rightarrow> bytes"
  gr_err :: "bytes \<Rightarrow> go_error option"
  gr_close :: "bytes \<Rightarrow> go_error option"
  gw_write :: "bytes \<Rightarrow> go_error option"
  gw_close :: "bytes \<Rightarrow> go_error option"
  gw_out :: "bytes \<Rightarrow> bytes"

text \<open>\<open>multierr.AppendInto(&rErr, closeErr)\<close> in the deferred call.\<close>

definition append_close :: "go_error option \<Rightarrow> go_error option \<Rightarrow> go_error option" where
  "append_close rErr cl =
     (case cl of None \<Rightarrow> rErr
      | Some c \<Rightarrow> (case rErr of None \<Rightarrow> Some (Wrap ''close'' c) | Some e \<Rightarrow> Some (Multi e (Wrap ''close'' c))))"

definition GZIP_Encode :: "gzip_lib \<Rightarrow> bytes \<Rightarrow> buffer \<Rightarrow> go_error option \<times> buffer" where
  "GZIP_Encode lib d b =
     (let b' = Buffer_PutID GZIPTypeID b in
      case gw_write lib d of
        Some e \<Rightarrow> (append_close (Some (Wrap ''compress'' e)) (gw_close lib d), b')
      | None \<Rightarrow>
         (case gw_close lib d of
            Some e \<Rightarrow> (append_close (Some (Wrap ''close'' e)) (gw_close lib d), b')
          | None \<Rightarrow> (append_close None (gw_close lib d), Buffer_PutBytes (gw_out lib d) b')))"

text \<open>
  \<open>io.ReadAll\<close> over \<open>io.LimitReader(r, n)\<close>: at most \<open>n\<close> bytes, and the library's error
  only when it comes before the limit. The counter's total is the number of bytes read.
\<close>

definition read_limited :: "gzip_lib \<Rightarrow> nat \<Rightarrow> bytes \<Rightarrow> bytes \<times> go_error option" where
  "read_limited lib n buf =
     (if length (gr_data lib buf) < n then (gr_data lib buf, gr_err lib buf)
      else (take n (gr_data lib buf), None))"

text \<open>The result is the error, \<open>g.Data\<close> (given as \<open>old\<close>) and the buffer.\<close>

definition GZIP_Decode :: "gzip_lib \<Rightarrow> bytes \<Rightarrow> buffer \<Rightarrow> go_error option \<times> bytes \<times> buffer" where
  "GZIP_Decode lib old b =
     (case Buffer_ConsumeID GZIPTypeID b of
        (Inl e, b') \<Rightarrow> (Some e, old, b')
      | (Inr _, b') \<Rightarrow>
     (case Buffer_Bytes b' of
        (Inl e, b'') \<Rightarrow> (Some e, old, b'')
      | (Inr buf, b'') \<Rightarrow>
     (case gr_open lib buf of
        Some e \<Rightarrow> (Some (Wrap ''gzip error'' e), old, b'')
      | None \<Rightarrow>
     (let (d, err) = read_limited lib maxUncompressedSize buf;
          rErr = (case err of
            Some e \<Rightarrow> Some (Wrap ''decompress'' e)
          | None \<Rightarrow>
             if length d \<ge> maxUncompressedSize then
               Some (Wrap ''decompress'' (DecompressionBombErr (int maxUncompressedSize) (int (length d))))
             else map_option (Wrap ''checksum'') (gr_close lib buf))
      in (append_close rErr (gr_close lib buf), d, b'')))))"

section \<open>Lemmas\<close>

lemma ConsumeN_fresh:
  "0 \<le> n \<Longrightarrow> Buffer_ConsumeN (replicate (nat n) 0) n b =
     (if int (length b) < n then (Inl ErrUnexpectedEOF, b) else (Inr (take (nat n) b), drop (nat n) b))"
  by (auto simp: Buffer_ConsumeN_def Buffer_PeekN_def go_copy_def dec_bind_def)

lemma ConsumeN_fresh_iff:
  "0 \<le> n \<Longrightarrow> Buffer_ConsumeN (replicate (nat n) 0) n b = (Inr v, rest) \<longleftrightarrow> b = v @ rest \<and> int (length v) = n"
  by (auto simp: ConsumeN_fresh)

lemma ConsumeN_app: "Buffer_ConsumeN (replicate (length v) 0) (int (length v)) (v @ rest) = (Inr v, rest)"
  using ConsumeN_fresh_iff[of "int (length v)" "v @ rest" v rest] by simp

lemma Skip_all [simp]: "Buffer_Skip (int (length b)) b = (Inr (), [])"
  by (simp add: Buffer_Skip_def)

subsection \<open>Messages and containers\<close>

text \<open>A message whose declared length is the length of its body and within the limit.\<close>

definition valid_message :: "Message \<Rightarrow> bool" where
  "valid_message m \<longleftrightarrow> is_int32 (SeqNo m) \<and> Bytes m = int (length (Body m)) \<and> Bytes m \<le> maxMessageBytes"

definition message_bytes :: "Message \<Rightarrow> bytes" where
  "message_bytes m = Buffer_PutLong (ID m) [] @ Buffer_PutInt (SeqNo m) [] @ Buffer_PutInt (Bytes m) [] @ Body m"

lemma Message_Encode_valid: "valid_message m \<Longrightarrow> Message_Encode m b = (None, b @ message_bytes m)"
  by (auto simp: Message_Encode_def valid_message_def message_bytes_def put_defs)

lemma is_int32_length: "0 \<le> n \<Longrightarrow> n \<le> maxMessageBytes \<Longrightarrow> is_int32 n"
  by (simp add: is_int32_def maxMessageBytes_def)

lemma Message_Decode_app: "valid_message m \<Longrightarrow> Message_Decode (message_bytes m @ rest) = (Inr m, rest)"
  by (simp add: Message_Decode_def message_bytes_def valid_message_def f_long.get_put f_int.get_put
      is_int32_length ConsumeN_app dec_simps)

lemma Message_Decode_iff:
  "Message_Decode b = (Inr m, rest) \<longleftrightarrow> valid_message m \<and> b = message_bytes m @ rest"
proof
  assume "Message_Decode b = (Inr m, rest)"
  then show "valid_message m \<and> b = message_bytes m @ rest"
    by (auto simp: Message_Decode_def f_long.bind_get_iff f_int.bind_get_iff valid_message_def
        message_bytes_def ConsumeN_fresh_iff elim!: dec_bind_InrE split: if_splits)
qed (simp add: Message_Decode_app)

lemma consumes_Message_Decode [consumes_intros]: "consumes Message_Decode"
  unfolding Message_Decode_def by (intro consumes_intros)

lemma length_message_bytes: "length (message_bytes m) = 16 + length (Body m)"
  by (simp add: message_bytes_def put_defs Word_def)

lemma encode_messages_valid:
  "\<forall>m\<in>set ms. valid_message m \<Longrightarrow> encode_messages ms b = (None, b @ concat (map message_bytes ms))"
  by (induction ms arbitrary: b) (simp_all add: Message_Encode_valid)

lemma decode_messages_valid:
  "\<forall>m\<in>set ms. valid_message m \<Longrightarrow>
   decode_messages (length ms) old (concat (map message_bytes ms) @ rest) = (None, old @ ms, rest)"
  by (induction ms arbitrary: old) (simp_all add: Message_Decode_app)

text \<open>Whatever the input, each message appended was in the input, in full and in order.\<close>

lemma decode_messages_from_input:
  "decode_messages n old b = (e, ms, rest) \<Longrightarrow>
   \<exists>fresh junk. ms = old @ fresh \<and> b = concat (map message_bytes fresh) @ junk \<and> suffix rest junk
      \<and> (\<forall>m\<in>set fresh. valid_message m) \<and> (e = None \<longrightarrow> junk = rest \<and> length fresh = n)"
proof (induction n arbitrary: old b)
  case 0
  then show ?case by auto
next
  case (Suc n)
  obtain r b' where d: "Message_Decode b = (r, b')" by fastforce
  show ?case
  proof (cases r)
    case (Inl x)
    then have "ms = old" "rest = b'" "e = Some x" using Suc.prems d by auto
    moreover have "suffix b' b" using consumes_Message_Decode d by (rule consumesD)
    ultimately show ?thesis by auto
  next
    case (Inr m)
    then have "decode_messages n (old @ [m]) b' = (e, ms, rest)" using Suc.prems d by simp
    from Suc.IH[OF this] obtain fresh junk where f: "ms = (old @ [m]) @ fresh"
      "b' = concat (map message_bytes fresh) @ junk" "suffix rest junk"
      "\<forall>m\<in>set fresh. valid_message m" "e = None \<longrightarrow> junk = rest \<and> length fresh = n" by blast
    moreover have "valid_message m" "b = message_bytes m @ b'" using d Inr by (auto simp: Message_Decode_iff)
    ultimately show ?thesis by (intro exI[of _ "m # fresh"] exI[of _ junk]) auto
  qed
qed

lemma length_messages: "length (concat (map message_bytes xs)) = (\<Sum>m\<leftarrow>xs. 16 + length (Body m))"
  by (induction xs) (simp_all add: length_message_bytes)

lemma container_sum:
  assumes "MessageContainer_Decode old b = (None, ms, rest)"
  shows "\<exists>fresh. ms = old @ fresh \<and> (\<Sum>m\<leftarrow>fresh. 16 + length (Body m)) \<le> length b"
proof -
  obtain r1 b1 where c: "Buffer_ConsumeID MessageContainerTypeID b = (r1, b1)" by fastforce
  obtain r2 b2 where i: "Buffer_Int b1 = (r2, b2)" by fastforce
  obtain u n where "r1 = Inr u" "r2 = Inr n"
    using assms c i by (cases r1; cases r2) (simp_all add: MessageContainer_Decode_def dec_wrap_def)
  then have d: "decode_messages (nat n) old b2 = (None, ms, rest)"
    using assms c i by (simp add: MessageContainer_Decode_def dec_wrap_def)
  have "length b2 \<le> length b"
    using consumes_length[OF consumes_ConsumeID c] consumes_length[OF consumes_Int i] by simp
  moreover obtain fresh where "ms = old @ fresh" "b2 = concat (map message_bytes fresh) @ rest"
    using decode_messages_from_input[OF d] by auto
  ultimately show ?thesis using length_messages[of fresh] by auto
qed

subsection \<open>GZIP\<close>

lemma length_read_limited: "length (fst (read_limited lib n buf)) \<le> n"
  by (simp add: read_limited_def)

text \<open>What is relied on for a value: the library inflates what it deflated.\<close>

definition gzip_inflates :: "gzip_lib \<Rightarrow> bytes \<Rightarrow> bool" where
  "gzip_inflates lib d \<longleftrightarrow>
     gw_write lib d = None \<and> gw_close lib d = None \<and> gr_open lib (gw_out lib d) = None \<and>
     gr_data lib (gw_out lib d) = d \<and> gr_err lib (gw_out lib d) = None \<and> gr_close lib (gw_out lib d) = None"

text \<open>A library that stores its input, for the witnesses.\<close>

definition store_lib :: gzip_lib where
  "store_lib = \<lparr>gr_open = (\<lambda>_. None), gr_data = (\<lambda>b. b), gr_err = (\<lambda>_. None), gr_close = (\<lambda>_. None),
     gw_write = (\<lambda>_. None), gw_close = (\<lambda>_. None), gw_out = (\<lambda>b. b)\<rparr>"

lemma store_lib_inflates: "gzip_inflates store_lib d"
  by (simp add: gzip_inflates_def store_lib_def)

lemma Result_Decode_iff: "Result_Decode b = (Inr r, rest) \<longleftrightarrow> b = Result_Encode r [] \<and> rest = []"
  by (cases r) (auto simp: Result_Decode_def f_long.bind_get_iff f_id.bind_get_iff Result_Encode_def put_defs
      dec_simps elim!: dec_bind_InrE)

text \<open>The bytes of a container, and of a value packed by a library that inflates it.\<close>

definition container_bytes :: "Message list \<Rightarrow> bytes" where
  "container_bytes ms = Buffer_PutID MessageContainerTypeID [] @ Buffer_PutInt (int (length ms)) [] @ concat (map message_bytes ms)"

lemma MessageContainer_Encode_valid:
  "\<forall>m\<in>set ms. valid_message m \<Longrightarrow> MessageContainer_Encode ms b = (None, b @ container_bytes ms)"
  by (simp add: container_bytes_def MessageContainer_Encode_def encode_messages_valid put_defs)

lemma MessageContainer_Decode_app:
  assumes "\<forall>m\<in>set ms. valid_message m" "length ms < 2 ^ 31"
  shows "MessageContainer_Decode old (container_bytes ms @ rest) = (None, old @ ms, rest)"
proof -
  have "is_int32 (int (length ms))" using assms(2) by (simp add: is_int32_def)
  then show ?thesis using assms(1)
    by (simp add: container_bytes_def MessageContainer_Decode_def f_int.get_put decode_messages_valid dec_simps)
qed

definition gzip_bytes :: "gzip_lib \<Rightarrow> bytes \<Rightarrow> bytes" where
  "gzip_bytes lib v = Buffer_PutID GZIPTypeID [] @ Buffer_PutBytes (gw_out lib v) []"

lemma GZIP_Encode_inflates: "gzip_inflates lib v \<Longrightarrow> GZIP_Encode lib v b = (None, b @ gzip_bytes lib v)"
  using f_bytes.put_append[of _ "Buffer_PutID GZIPTypeID b"] f_uint32.put_append[of _ b]
  by (simp add: gzip_bytes_def GZIP_Encode_def gzip_inflates_def append_close_def Buffer_PutID_def)

lemma GZIP_Decode_inflates:
  "gzip_inflates lib v \<Longrightarrow> length (gw_out lib v) \<le> maxLongStringLength \<Longrightarrow>
   GZIP_Decode lib [] (gzip_bytes lib v @ rest) =
     (if length v < maxUncompressedSize then (None, v, rest)
      else (Some (Wrap ''decompress'' (DecompressionBombErr (int maxUncompressedSize) (int maxUncompressedSize))),
            take maxUncompressedSize v, rest))"
  by (simp add: gzip_bytes_def GZIP_Decode_def gzip_inflates_def f_bytes.get_put read_limited_def append_close_def)

section \<open>Properties\<close>

text \<open>
  Containers round-trip: \<open>Encode\<close> of messages whose declared length is the length of
  their body succeeds, and \<open>Decode\<close> appends exactly those messages, in order, to the
  receiver and leaves what follows.
\<close>

theorem MessageContainer_roundtrip:
  assumes "\<forall>m\<in>set ms. valid_message m" and "length ms < 2 ^ 31"
  shows "\<exists>out. MessageContainer_Encode ms b = (None, b @ out)
           \<and> MessageContainer_Decode old (out @ rest) = (None, old @ ms, rest)"
  using assms by (auto simp: MessageContainer_Encode_valid MessageContainer_Decode_app)

theorem MessageContainer_roundtrip_witness:
  "\<exists>out. MessageContainer_Encode [\<lparr>ID = 5, SeqNo = 1, Bytes = 4, Body = [1, 2, 3, 4]\<rparr>] [7] = (None, [7] @ out)
     \<and> MessageContainer_Decode [] (out @ [9]) =
         (None, [] @ [\<lparr>ID = 5, SeqNo = 1, Bytes = 4, Body = [1, 2, 3, 4]\<rparr>], [9])"
  by (rule MessageContainer_roundtrip) (simp_all add: valid_message_def is_int32_def maxMessageBytes_def)

text \<open>
  A hostile container cannot make \<open>Decode\<close> invent or over-allocate: whatever the input
  and the declared count, the messages appended are all valid, each read from
  sixteen bytes of input and its body, so together no longer than what was consumed; when
  \<open>Decode\<close> succeeds they are the declared number and the input is exactly their encoding.
\<close>

theorem MessageContainer_Decode_bounded:
  assumes "MessageContainer_Decode old b = (e, ms, rest)"
  shows "\<exists>fresh. ms = old @ fresh \<and> suffix rest b \<and> (\<forall>m\<in>set fresh. valid_message m)
           \<and> (\<Sum>m\<leftarrow>fresh. 16 + length (Body m)) \<le> length b - length rest
           \<and> (e = None \<longrightarrow> (\<exists>n. b = Buffer_PutInt n (Buffer_PutID MessageContainerTypeID []) @ concat (map message_bytes fresh) @ rest
                \<and> length fresh = nat n))"
proof -
  obtain r1 b1 where c: "Buffer_ConsumeID MessageContainerTypeID b = (r1, b1)" by fastforce
  obtain r2 b2 where i: "Buffer_Int b1 = (r2, b2)" by fastforce
  have s1: "suffix b1 b" using consumes_ConsumeID c by (rule consumesD)
  have s2: "suffix b2 b1" using consumes_Int i by (rule consumesD)
  show ?thesis
  proof (cases "(\<exists>x. r1 = Inl x) \<or> (\<exists>x. r2 = Inl x)")
    case True
    then have "ms = old" "rest = b1 \<or> rest = b2" "e \<noteq> None"
      using assms c i by (auto simp: MessageContainer_Decode_def dec_wrap_def split: sum.splits)
    then show ?thesis using s1 s2 suffix_order.trans[OF s2 s1] by auto
  next
    case False
    then obtain u n where r: "r1 = Inr u" "r2 = Inr n" by (metis sumE)
    have "decode_messages (nat n) old b2 = (e, ms, rest)"
      using assms c i r by (simp add: MessageContainer_Decode_def dec_wrap_def)
    from decode_messages_from_input[OF this] obtain fresh junk where f: "ms = old @ fresh"
      "b2 = concat (map message_bytes fresh) @ junk" "suffix rest junk" "\<forall>m\<in>set fresh. valid_message m"
      "e = None \<longrightarrow> junk = rest \<and> length fresh = nat n" by blast
    have b: "b = Buffer_PutInt n (Buffer_PutID MessageContainerTypeID []) @ b2"
      using c i r ConsumeID_only Int_only by (fastforce simp: put_defs)
    have "suffix rest b" using f(2,3) s1 s2 by (meson suffix_appendI suffix_order.trans suffix_def)
    moreover have "(\<Sum>m\<leftarrow>fresh. 16 + length (Body m)) \<le> length b - length rest"
      using b f(2) suffix_length_le[OF f(3)] length_messages[of fresh] by simp
    ultimately show ?thesis using f b by auto
  qed
qed

text \<open>A count of three announced over an input that holds one message.\<close>

theorem MessageContainer_Decode_bounded_witness:
  "\<exists>fresh. [\<lparr>ID = 5, SeqNo = 1, Bytes = 1, Body = [8]\<rparr>] = [] @ fresh
     \<and> suffix [1] (Buffer_PutInt 3 (Buffer_PutID MessageContainerTypeID []) @ message_bytes \<lparr>ID = 5, SeqNo = 1, Bytes = 1, Body = [8]\<rparr> @ [1])
     \<and> (\<forall>m\<in>set fresh. valid_message m)
     \<and> (\<Sum>m\<leftarrow>fresh. 16 + length (Body m)) \<le>
         length (Buffer_PutInt 3 (Buffer_PutID MessageContainerTypeID []) @ message_bytes \<lparr>ID = 5, SeqNo = 1, Bytes = 1, Body = [8]\<rparr> @ [1]) - length [1 :: byte]
     \<and> (Some ErrUnexpectedEOF = None \<longrightarrow>
          (\<exists>n. Buffer_PutInt 3 (Buffer_PutID MessageContainerTypeID []) @ message_bytes \<lparr>ID = 5, SeqNo = 1, Bytes = 1, Body = [8]\<rparr> @ [1]
                = Buffer_PutInt n (Buffer_PutID MessageContainerTypeID []) @ concat (map message_bytes fresh) @ [1]
              \<and> length fresh = nat n))"
  by (rule MessageContainer_Decode_bounded) code_simp

lemma UnencryptedMessage_Decode_iff:
  "UnencryptedMessage_Decode b = (Inr u, rest) \<longleftrightarrow>
     length (MessageData u) < 2 ^ 31 \<and> b = UnencryptedMessage_Encode u [] @ rest" (is "?l \<longleftrightarrow> ?r")
proof
  assume ?l
  then obtain v w d b' where d: "b = Buffer_PutLong 0 [] @ Buffer_PutLong v [] @ Buffer_PutInt32 w [] @ b'"
    "0 \<le> sint w" "b' = d @ rest" "int (length d) = sint w" "u = \<lparr>MessageID = v, MessageData = d\<rparr>"
    by (auto simp: UnencryptedMessage_Decode_def f_long.bind_get_iff f_int32.bind_get_iff ConsumeN_fresh_iff
        elim!: dec_bind_InrE dec_wrap_InrE split: if_splits)
  have "word_of_int (int (length d)) = w" using d(4) by simp
  moreover have "int (length d) < 2 ^ 31" using sint_lt[of w] d(4) by simp
  ultimately show ?r using d by (simp add: UnencryptedMessage_Encode_def put_defs)
next
  assume r: ?r
  then have s: "sint (word_of_int (int (length (MessageData u))) :: 32 word) = int (length (MessageData u))"
    by (intro sint_word_of_int32) (simp add: is_int32_def)
  have "b = Buffer_PutLong 0 [] @ Buffer_PutLong (MessageID u) [] @
      Buffer_PutInt32 (word_of_int (int (length (MessageData u)))) [] @ MessageData u @ rest"
    using r by (simp add: UnencryptedMessage_Encode_def put_defs)
  then show ?l using s
    by (simp add: UnencryptedMessage_Decode_def f_long.get_put f_int32.get_put ConsumeN_app dec_simps)
qed

text \<open>
  Plain messages have one encoding only: \<open>Decode\<close> of an unencrypted message succeeds
  exactly on the encodings of messages with less than \<open>2 ^ 31\<close> bytes of data, and returns
  that message and what follows; an \<open>rpc_result\<close> is decoded exactly from its encoding and
  takes the rest of the buffer as its result.
\<close>

theorem Plain_messages_exact:
  "(UnencryptedMessage_Decode b = (Inr u, rest) \<longleftrightarrow>
      length (MessageData u) < 2 ^ 31 \<and> b = UnencryptedMessage_Encode u [] @ rest)
   \<and> (Result_Decode b = (Inr r, rest) \<longleftrightarrow> b = Result_Encode r [] \<and> rest = [])"
  using UnencryptedMessage_Decode_iff Result_Decode_iff by blast

text \<open>
  C36. Decompression is bounded and faithful. Whatever the library does, \<open>Decode\<close> holds at
  most 10 MiB of inflated data, and succeeds only below that limit. A value that the
  library inflates back, below the limit and with a compressed form that fits a TL
  \<open>bytes\<close>, is returned as it was encoded; one at or above the limit is reported as a
  decompression bomb.
\<close>

theorem GZIP_bounded_roundtrip:
  "(\<forall>old b. length old \<le> maxUncompressedSize \<longrightarrow>
      (case GZIP_Decode lib old b of (e, d, _) \<Rightarrow> length d \<le> maxUncompressedSize
         \<and> (e = None \<longrightarrow> length d < maxUncompressedSize)))
   \<and> (gzip_inflates lib v \<and> length (gw_out lib v) \<le> maxLongStringLength \<longrightarrow>
      (\<exists>out. GZIP_Encode lib v b = (None, b @ out) \<and>
        GZIP_Decode lib [] (out @ rest) =
          (if length v < maxUncompressedSize then (None, v, rest)
           else (Some (Wrap ''decompress'' (DecompressionBombErr (int maxUncompressedSize) (int maxUncompressedSize))),
                 take maxUncompressedSize v, rest))))"
proof (intro conjI allI impI)
  fix old b :: bytes
  assume o: "length old \<le> maxUncompressedSize"
  have none: "append_close (Some e) c \<noteq> None" for e c by (simp add: append_close_def split: option.splits)
  show "case GZIP_Decode lib old b of (e, d, _) \<Rightarrow> length d \<le> maxUncompressedSize
         \<and> (e = None \<longrightarrow> length d < maxUncompressedSize)"
    using o none by (auto simp: GZIP_Decode_def read_limited_def Let_def split: prod.splits sum.splits option.splits)
qed (use GZIP_Encode_inflates GZIP_Decode_inflates in blast)

theorem GZIP_bounded_roundtrip_witness:
  "\<exists>out. GZIP_Encode store_lib [1, 2, 3] [] = (None, [] @ out) \<and> GZIP_Decode store_lib [] (out @ [4]) = (None, [1, 2, 3], [4])"
  using GZIP_bounded_roundtrip[of store_lib "[1, 2, 3]" "[]" "[4]"] store_lib_inflates[of "[1, 2, 3]"]
  by (simp add: store_lib_def maxLongStringLength_def maxUncompressedSize_def)

end
