(* ===== verification/Salts.thy ===== *)
theory Salts
  imports Bin "HOL-Library.Multiset"
begin

text \<open>
  Package \<open>mtproto/salts\<close>: the server salts a connection may use, and the generated type
  \<open>mt.FutureSalt\<close> they are kept as. The state of \<open>Salts\<close> is its slice; every method holds
  the mutex from start to end, so each is one step on that slice. \<open>sort.Sort\<close> of Go's
  library is not stable: which of the permutations sorted by \<open>Less\<close> it leaves is the
  argument \<open>srt\<close> of \<open>Store\<close>, and the locale \<open>salt_sort\<close> is what the library promises.
\<close>

section \<open>mt.FutureSalt\<close>

record FutureSalt =
  ValidSince :: int
  ValidUntil :: int
  Salt :: "64 word"

definition FutureSaltTypeID :: "32 word" where "FutureSaltTypeID = 0x949d9dc"

definition FutureSalt_EncodeBare :: "FutureSalt \<Rightarrow> buffer \<Rightarrow> buffer" where
  "FutureSalt_EncodeBare f b = Buffer_PutLong (Salt f) (Buffer_PutInt (ValidUntil f) (Buffer_PutInt (ValidSince f) b))"

definition FutureSalt_Encode :: "FutureSalt \<Rightarrow> buffer \<Rightarrow> buffer" where
  "FutureSalt_Encode f b = FutureSalt_EncodeBare f (Buffer_PutID FutureSaltTypeID b)"

definition FutureSalt_DecodeBare :: "FutureSalt dec" where
  "FutureSalt_DecodeBare =
     dec_bind (dec_wrap ''unable to decode future_salt#949d9dc: field valid_since'' Buffer_Int) (\<lambda>since.
     dec_bind (dec_wrap ''unable to decode future_salt#949d9dc: field valid_until'' Buffer_Int) (\<lambda>until.
     dec_bind (dec_wrap ''unable to decode future_salt#949d9dc: field salt'' Buffer_Long) (\<lambda>salt.
     dec_return \<lparr>ValidSince = since, ValidUntil = until, Salt = salt\<rparr>)))"

definition FutureSalt_Decode :: "FutureSalt dec" where
  "FutureSalt_Decode =
     dec_bind (dec_wrap ''unable to decode future_salt#949d9dc'' (Buffer_ConsumeID FutureSaltTypeID)) (\<lambda>_.
     FutureSalt_DecodeBare)"

section \<open>salts.go\<close>

type_synonym Salts = "FutureSalt list"

text \<open>
  \<open>Get\<close>: the test of the last salt, the filter in place, and \<open>goto check\<close>. The filter
  drops at least the last salt, so the jump is taken finitely often. \<open>date\<close> is the
  deadline in Unix seconds.
\<close>

function Salts_Get :: "int \<Rightarrow> Salts \<Rightarrow> 64 word option \<times> Salts" where
  "Salts_Get date s =
     (if length s < 1 then (None, s)
      else if ValidUntil (s ! (length s - 1)) > date then (Some (Salt (s ! (length s - 1))), s)
      else Salts_Get date (filter (\<lambda>salt. ValidUntil salt > date) s))"
  by pat_completeness auto
termination
proof (relation "measure (length \<circ> snd)", goal_cases)
  case (2 date s)
  then have "s ! (length s - 1) \<in> set s" "\<not> ValidUntil (s ! (length s - 1)) > date" by simp_all
  then show ?case using length_filter_less[of _ s "\<lambda>salt. ValidUntil salt > date"] by simp
qed simp

definition saltSlice_Less :: "FutureSalt \<Rightarrow> FutureSalt \<Rightarrow> bool" where
  "saltSlice_Less a b \<longleftrightarrow> ValidUntil a > ValidUntil b"

text \<open>The first salt of each value stays; \<open>dedup\<close> is the set of values seen.\<close>

primrec dedup_salts :: "64 word set \<Rightarrow> FutureSalt list \<Rightarrow> FutureSalt list" where
  "dedup_salts dedup [] = []"
| "dedup_salts dedup (salt # ss) =
     (if Salt salt \<in> dedup then dedup_salts dedup ss
      else salt # dedup_salts (insert (Salt salt) dedup) ss)"

definition Salts_Store :: "(FutureSalt list \<Rightarrow> FutureSalt list) \<Rightarrow> FutureSalt list \<Rightarrow> Salts \<Rightarrow> Salts" where
  "Salts_Store srt salts s = srt (dedup_salts {} (s @ salts))"

definition Salts_Reset :: "Salts \<Rightarrow> Salts" where
  "Salts_Reset s = take 0 s"

section \<open>What sort.Sort promises, and the store built on it\<close>

definition salts_sorted :: "Salts \<Rightarrow> bool" where
  "salts_sorted s \<longleftrightarrow> sorted_wrt (\<lambda>a b. \<not> saltSlice_Less b a) s"

definition salts_inv :: "Salts \<Rightarrow> bool" where
  "salts_inv s \<longleftrightarrow> salts_sorted s \<and> distinct (map Salt s)"

lemma dedup_salts_distinct:
  "distinct (map Salt (dedup_salts D ss)) \<and> Salt ` set (dedup_salts D ss) = Salt ` set ss - D"
  by (induction ss arbitrary: D) auto

lemma dedup_salts_distinct_id:
  "distinct (map Salt ss) \<Longrightarrow> Salt ` set ss \<inter> D = {} \<Longrightarrow>
   dedup_salts D (ss @ ts) = ss @ dedup_salts (D \<union> Salt ` set ss) ts"
proof (induction ss arbitrary: D)
  case (Cons a ss)
  then have "dedup_salts (insert (Salt a) D) (ss @ ts) = ss @ dedup_salts (insert (Salt a) D \<union> Salt ` set ss) ts"
    by (intro Cons.IH) auto
  then show ?case using Cons.prems by (simp add: Un_commute insert_commute)
qed simp

lemma dedup_salts_subset: "set (dedup_salts D ss) \<subseteq> set ss"
  by (induction ss arbitrary: D) auto

locale salt_sort =
  fixes srt :: "FutureSalt list \<Rightarrow> FutureSalt list"
  assumes srt_mset: "mset (srt xs) = mset xs"
    and srt_sorted: "salts_sorted (srt xs)"
begin

lemma set_Store: "set (Salts_Store srt new s) = set (dedup_salts {} (s @ new))"
  by (metis Salts_Store_def set_mset_mset srt_mset)

lemma Store_inv: "salts_inv (Salts_Store srt new s)"
proof -
  have "mset (map Salt (Salts_Store srt new s)) = mset (map Salt (dedup_salts {} (s @ new)))"
    by (simp add: Salts_Store_def srt_mset)
  then have "distinct (map Salt (Salts_Store srt new s))"
    using dedup_salts_distinct mset_eq_imp_distinct_iff by blast
  then show ?thesis by (simp add: salts_inv_def Salts_Store_def srt_sorted)
qed

lemma Store_values: "Salt ` set (Salts_Store srt new s) = Salt ` set s \<union> Salt ` set new"
  using dedup_salts_distinct[of "{}" "s @ new"] by (simp add: set_Store image_Un)

lemma Store_keeps:
  assumes "salts_inv s"
  shows "set s \<subseteq> set (Salts_Store srt new s)"
  using assms dedup_salts_distinct_id[of s "{}" new] by (simp add: set_Store salts_inv_def)

lemma Store_adds: "set (Salts_Store srt new s) \<subseteq> set s \<union> set new"
  using dedup_salts_subset[of "{}" "s @ new"] by (simp add: set_Store)

end

text \<open>The contract can be met: a stable sort by descending expiry.\<close>

definition sort_descending :: "FutureSalt list \<Rightarrow> FutureSalt list" where
  "sort_descending = sort_key (\<lambda>f. - ValidUntil f)"

interpretation stable: salt_sort sort_descending
proof
  fix xs
  show "mset (sort_descending xs) = mset xs" by (simp add: sort_descending_def)
  have "sorted (map (\<lambda>f. - ValidUntil f) (sort_descending xs))" by (simp add: sort_descending_def)
  then show "salts_sorted (sort_descending xs)"
    by (simp add: salts_sorted_def saltSlice_Less_def sorted_map not_less)
qed

section \<open>Lemmas\<close>

declare Salts_Get.simps [simp del]

lemma salts_inv_filter: "salts_inv s \<Longrightarrow> salts_inv (filter P s)"
  by (simp add: salts_inv_def salts_sorted_def sorted_wrt_filter distinct_map_filter)

lemma salts_inv_last_min:
  assumes "salts_inv s" "x \<in> set s"
  shows "ValidUntil (s ! (length s - 1)) \<le> ValidUntil x"
proof -
  obtain i where i: "i < length s" "x = s ! i" using assms(2) by (auto simp: in_set_conv_nth)
  show ?thesis
  proof (cases "i = length s - 1")
    case False
    then have "\<not> saltSlice_Less (s ! (length s - 1)) (s ! i)"
      using assms(1) i sorted_wrt_nth_less[of "\<lambda>a b. \<not> saltSlice_Less b a" s i "length s - 1"]
      by (simp add: salts_inv_def salts_sorted_def)
    then show ?thesis using i by (simp add: saltSlice_Less_def)
  qed (use i in simp)
qed

text \<open>Two rounds at most: after the filter the last salt is valid or there is none.\<close>

lemma Salts_Get_eq:
  "Salts_Get date s =
     (if s = [] then (None, [])
      else if ValidUntil (last s) > date then (Some (Salt (last s)), s)
      else (let s' = filter (\<lambda>salt. ValidUntil salt > date) s in
            if s' = [] then (None, []) else (Some (Salt (last s')), s')))"
proof -
  let ?s' = "filter (\<lambda>salt. ValidUntil salt > date) s"
  have n: "xs \<noteq> [] \<Longrightarrow> xs ! (length xs - 1) = last xs" for xs :: Salts by (simp add: last_conv_nth)
  have "?s' \<noteq> [] \<Longrightarrow> ValidUntil (last ?s') > date" using last_in_set[of ?s'] by simp
  then show ?thesis
    using n[of s] n[of ?s'] Salts_Get.simps[of date s] Salts_Get.simps[of date ?s'] by (simp add: Let_def)
qed

section \<open>Properties\<close>

text \<open>
  \<open>Get\<close> returns, from a slice that \<open>Store\<close> has left, the salt that expires first among
  those valid beyond the deadline, and reports that there is none only when every stored
  salt has expired. It forgets only expired salts and keeps the slice in order. (It returns
  on every slice: the jump is taken at most once.)
\<close>

theorem Salts_Get_soonest:
  assumes "salts_inv s" and "Salts_Get date s = (r, s')"
  shows "salts_inv s' \<and> {f \<in> set s. ValidUntil f > date} \<subseteq> set s' \<and> set s' \<subseteq> set s
    \<and> (r = None \<longleftrightarrow> (\<forall>f\<in>set s. ValidUntil f \<le> date))
    \<and> (\<forall>v. r = Some v \<longrightarrow> (\<exists>f\<in>set s. Salt f = v \<and> ValidUntil f > date
         \<and> (\<forall>g\<in>set s. ValidUntil g > date \<longrightarrow> ValidUntil f \<le> ValidUntil g)))"
proof -
  let ?ok = "\<lambda>salt. ValidUntil salt > date"
  have min: "\<forall>g\<in>set xs. ValidUntil (last xs) \<le> ValidUntil g" if "salts_inv xs" "xs \<noteq> []" for xs
    using salts_inv_last_min[OF that(1)] that(2) by (simp add: last_conv_nth)
  have inv': "salts_inv (filter ?ok s)" using assms(1) by (rule salts_inv_filter)
  consider "s = []" | "s \<noteq> []" "?ok (last s)" | "s \<noteq> []" "\<not> ?ok (last s)" "filter ?ok s = []"
    | "s \<noteq> []" "\<not> ?ok (last s)" "filter ?ok s \<noteq> []" by blast
  then show ?thesis
  proof cases
    case 1
    then show ?thesis using assms by (auto simp: Salts_Get_eq)
  next
    case 2
    then have "last s \<in> set s" "\<not> (\<forall>f\<in>set s. ValidUntil f \<le> date)" by (auto simp: not_le intro: last_in_set)
    then show ?thesis using 2 assms min[OF assms(1)]
      by (auto simp: Salts_Get_eq intro!: bexI[of _ "last s"])
  next
    case 3
    then show ?thesis using assms
      by (auto simp: Salts_Get_eq filter_empty_conv not_less salts_inv_def salts_sorted_def)
  next
    case 4
    then have "last (filter ?ok s) \<in> set (filter ?ok s)" by (rule_tac last_in_set)
    then have "r = Some (Salt (last (filter ?ok s)))" "s' = filter ?ok s"
      "last (filter ?ok s) \<in> set s" "?ok (last (filter ?ok s))"
      using 4 assms(2) by (auto simp: Salts_Get_eq Let_def)
    then show ?thesis using inv' min[OF inv' 4(3)]
      by (auto simp: not_le intro!: bexI[of _ "last (filter ?ok s)"])
  qed
qed

theorem Salts_Get_soonest_witness:
  "Salts_Get 10 (Salts_Store sort_descending
       [\<lparr>ValidSince = 0, ValidUntil = 5, Salt = 7\<rparr>, \<lparr>ValidSince = 5, ValidUntil = 30, Salt = 8\<rparr>,
        \<lparr>ValidSince = 5, ValidUntil = 20, Salt = 9\<rparr>] [])
     = (Some 9, [\<lparr>ValidSince = 5, ValidUntil = 30, Salt = 8\<rparr>, \<lparr>ValidSince = 5, ValidUntil = 20, Salt = 9\<rparr>])
   \<and> salts_inv [\<lparr>ValidSince = 5, ValidUntil = 30, Salt = 8\<rparr>, \<lparr>ValidSince = 5, ValidUntil = 20, Salt = 9\<rparr>]"
proof -
  let ?s = "Salts_Store sort_descending
       [\<lparr>ValidSince = 0, ValidUntil = 5, Salt = 7\<rparr>, \<lparr>ValidSince = 5, ValidUntil = 30, Salt = 8\<rparr>,
        \<lparr>ValidSince = 5, ValidUntil = 20, Salt = 9\<rparr>] []"
  have "Salts_Get 10 ?s = (Some 9, [\<lparr>ValidSince = 5, ValidUntil = 30, Salt = 8\<rparr>, \<lparr>ValidSince = 5, ValidUntil = 20, Salt = 9\<rparr>])"
    by (simp add: Salts_Store_def sort_descending_def Salts_Get_eq)
  from Salts_Get_soonest[OF stable.Store_inv this] this show ?thesis by simp
qed

text \<open>
  \<open>Store\<close>, whichever sorted order the library leaves, brings any slice into the order
  \<open>Get\<close> needs, without a repeated value, holding exactly the values that were stored
  before or are given; a value that was already there keeps its validity, and a \<open>Reset\<close>
  forgets everything.
\<close>

theorem Salts_Store_invariant:
  assumes "salt_sort srt"
  shows "salts_inv (Salts_Store srt salts s)
    \<and> Salt ` set (Salts_Store srt salts s) = Salt ` set s \<union> Salt ` set salts
    \<and> set (Salts_Store srt salts s) \<subseteq> set s \<union> set salts
    \<and> (salts_inv s \<longrightarrow> set s \<subseteq> set (Salts_Store srt salts s))
    \<and> Salts_Get date (Salts_Reset s) = (None, [])"
  using salt_sort.Store_inv[OF assms] salt_sort.Store_values[OF assms] salt_sort.Store_adds[OF assms]
    salt_sort.Store_keeps[OF assms]
  by (simp add: Salts_Reset_def Salts_Get_eq)

theorem Salts_Store_invariant_witness:
  "salts_inv (Salts_Store sort_descending [\<lparr>ValidSince = 0, ValidUntil = 5, Salt = 7\<rparr>] [\<lparr>ValidSince = 0, ValidUntil = 9, Salt = 7\<rparr>])
   \<and> Salt ` set (Salts_Store sort_descending [\<lparr>ValidSince = 0, ValidUntil = 5, Salt = 7\<rparr>] [\<lparr>ValidSince = 0, ValidUntil = 9, Salt = 7\<rparr>]) = {7}"
  using Salts_Store_invariant[OF stable.salt_sort_axioms, of "[\<lparr>ValidSince = 0, ValidUntil = 5, Salt = 7\<rparr>]"
      "[\<lparr>ValidSince = 0, ValidUntil = 9, Salt = 7\<rparr>]"] by simp

end
