(* ===== verification/Mt_Types.thy ===== *)
theory Mt_Types
  imports Salts
begin

text \<open>
  Package \<open>mt\<close>: the service messages of MTProto that the connection decodes, as the
  generator writes them (\<open>tl_future_salts_gen.go\<close>, \<open>tl_bad_msg_notification_gen.go\<close>,
  \<open>tl_msgs_ack_gen.go\<close>, \<open>tl_pong_gen.go\<close>, \<open>tl_new_session_created_gen.go\<close>,
  \<open>tl_rpc_error_gen.go\<close>). Receivers are never nil: the handlers decode into local variables
  and use them only when there is no error. \<open>Errorf\<close> with \<open>%w\<close> is \<open>Wrap\<close>.
\<close>

section \<open>Vectors\<close>

text \<open>The loop of a generated decoder over the elements of a vector.\<close>

primrec dec_elems :: "'a dec \<Rightarrow> nat \<Rightarrow> 'a list dec" where
  "dec_elems d 0 = dec_return []"
| "dec_elems d (Suc n) = dec_bind d (\<lambda>x. dec_bind (dec_elems d n) (\<lambda>xs. dec_return (x # xs)))"

lemma dec_elems_app:
  assumes "\<And>x rest. x \<in> set xs \<Longrightarrow> d (enc x @ rest) = (Inr x, rest)"
  shows "dec_elems d (length xs) (concat (map enc xs) @ rest) = (Inr xs, rest)"
  using assms by (induction xs) (simp_all add: dec_simps)

lemma consumes_elems [consumes_intros]: "consumes d \<Longrightarrow> consumes (dec_elems d n)"
  by (induction n) (auto intro!: consumes_intros)

section \<open>future\_salts\<close>

record FutureSalts =
  FS_ReqMsgID :: "64 word"
  FS_Now :: int
  FS_Salts :: "FutureSalt list"

definition FutureSaltsTypeID :: "32 word" where "FutureSaltsTypeID = 0xae500895"

definition FutureSalts_EncodeBare :: "FutureSalts \<Rightarrow> buffer \<Rightarrow> buffer" where
  "FutureSalts_EncodeBare f b =
     fold FutureSalt_EncodeBare (FS_Salts f)
       (Buffer_PutInt (int (length (FS_Salts f))) (Buffer_PutInt (FS_Now f) (Buffer_PutLong (FS_ReqMsgID f) b)))"

definition FutureSalts_Encode :: "FutureSalts \<Rightarrow> buffer \<Rightarrow> buffer" where
  "FutureSalts_Encode f b = FutureSalts_EncodeBare f (Buffer_PutID FutureSaltsTypeID b)"

definition FutureSalts_DecodeBare :: "FutureSalts dec" where
  "FutureSalts_DecodeBare =
     dec_bind (dec_wrap ''unable to decode future_salts#ae500895: field req_msg_id'' Buffer_Long) (\<lambda>r.
     dec_bind (dec_wrap ''unable to decode future_salts#ae500895: field now'' Buffer_Int) (\<lambda>n.
     dec_bind (dec_wrap ''unable to decode future_salts#ae500895: field salts'' Buffer_Int) (\<lambda>headerLen.
     dec_bind (dec_elems (dec_wrap ''unable to decode bare future_salts#ae500895: field salts'' FutureSalt_DecodeBare) (nat headerLen)) (\<lambda>ss.
     dec_return \<lparr>FS_ReqMsgID = r, FS_Now = n, FS_Salts = ss\<rparr>))))"

definition FutureSalts_Decode :: "FutureSalts dec" where
  "FutureSalts_Decode =
     dec_bind (dec_wrap ''unable to decode future_salts#ae500895'' (Buffer_ConsumeID FutureSaltsTypeID)) (\<lambda>_. FutureSalts_DecodeBare)"

section \<open>bad\_msg\_notification, bad\_server\_salt\<close>

record BadMsgNotification =
  BadMsgID :: "64 word"
  BadMsgSeqno :: int
  ErrorCode :: int

definition BadMsgNotificationTypeID :: "32 word" where "BadMsgNotificationTypeID = 0xa7eff811"

definition BadMsgNotification_EncodeBare :: "BadMsgNotification \<Rightarrow> buffer \<Rightarrow> buffer" where
  "BadMsgNotification_EncodeBare m b = Buffer_PutInt (ErrorCode m) (Buffer_PutInt (BadMsgSeqno m) (Buffer_PutLong (BadMsgID m) b))"

definition BadMsgNotification_Encode :: "BadMsgNotification \<Rightarrow> buffer \<Rightarrow> buffer" where
  "BadMsgNotification_Encode m b = BadMsgNotification_EncodeBare m (Buffer_PutID BadMsgNotificationTypeID b)"

definition BadMsgNotification_DecodeBare :: "BadMsgNotification dec" where
  "BadMsgNotification_DecodeBare =
     dec_bind (dec_wrap ''unable to decode bad_msg_notification#a7eff811: field bad_msg_id'' Buffer_Long) (\<lambda>i.
     dec_bind (dec_wrap ''unable to decode bad_msg_notification#a7eff811: field bad_msg_seqno'' Buffer_Int) (\<lambda>s.
     dec_bind (dec_wrap ''unable to decode bad_msg_notification#a7eff811: field error_code'' Buffer_Int) (\<lambda>e.
     dec_return \<lparr>BadMsgID = i, BadMsgSeqno = s, ErrorCode = e\<rparr>)))"

definition BadMsgNotification_Decode :: "BadMsgNotification dec" where
  "BadMsgNotification_Decode =
     dec_bind (dec_wrap ''unable to decode bad_msg_notification#a7eff811'' (Buffer_ConsumeID BadMsgNotificationTypeID))
       (\<lambda>_. BadMsgNotification_DecodeBare)"

record BadServerSalt = BadMsgNotification +
  NewServerSalt :: "64 word"

definition BadServerSaltTypeID :: "32 word" where "BadServerSaltTypeID = 0xedab447b"

definition BadServerSalt_EncodeBare :: "BadServerSalt \<Rightarrow> buffer \<Rightarrow> buffer" where
  "BadServerSalt_EncodeBare m b = Buffer_PutLong (NewServerSalt m)
     (Buffer_PutInt (ErrorCode m) (Buffer_PutInt (BadMsgSeqno m) (Buffer_PutLong (BadMsgID m) b)))"

definition BadServerSalt_Encode :: "BadServerSalt \<Rightarrow> buffer \<Rightarrow> buffer" where
  "BadServerSalt_Encode m b = BadServerSalt_EncodeBare m (Buffer_PutID BadServerSaltTypeID b)"

definition BadServerSalt_DecodeBare :: "BadServerSalt dec" where
  "BadServerSalt_DecodeBare =
     dec_bind (dec_wrap ''unable to decode bad_server_salt#edab447b: field bad_msg_id'' Buffer_Long) (\<lambda>i.
     dec_bind (dec_wrap ''unable to decode bad_server_salt#edab447b: field bad_msg_seqno'' Buffer_Int) (\<lambda>s.
     dec_bind (dec_wrap ''unable to decode bad_server_salt#edab447b: field error_code'' Buffer_Int) (\<lambda>e.
     dec_bind (dec_wrap ''unable to decode bad_server_salt#edab447b: field new_server_salt'' Buffer_Long) (\<lambda>n.
     dec_return \<lparr>BadMsgID = i, BadMsgSeqno = s, ErrorCode = e, NewServerSalt = n\<rparr>))))"

definition BadServerSalt_Decode :: "BadServerSalt dec" where
  "BadServerSalt_Decode =
     dec_bind (dec_wrap ''unable to decode bad_server_salt#edab447b'' (Buffer_ConsumeID BadServerSaltTypeID)) (\<lambda>_. BadServerSalt_DecodeBare)"

section \<open>msgs\_ack\<close>

definition MsgsAckTypeID :: "32 word" where "MsgsAckTypeID = 0x62d6b459"

text \<open>The one field of \<open>MsgsAck\<close> is \<open>MsgIDs\<close>.\<close>

definition MsgsAck_EncodeBare :: "64 word list \<Rightarrow> buffer \<Rightarrow> buffer" where
  "MsgsAck_EncodeBare ids b = fold Buffer_PutLong ids (Buffer_PutVectorHeader (int (length ids)) b)"

definition MsgsAck_Encode :: "64 word list \<Rightarrow> buffer \<Rightarrow> buffer" where
  "MsgsAck_Encode ids b = MsgsAck_EncodeBare ids (Buffer_PutID MsgsAckTypeID b)"

definition MsgsAck_DecodeBare :: "64 word list dec" where
  "MsgsAck_DecodeBare =
     dec_bind (dec_wrap ''unable to decode msgs_ack#62d6b459: field msg_ids'' Buffer_VectorHeader) (\<lambda>headerLen.
     dec_elems (dec_wrap ''unable to decode msgs_ack#62d6b459: field msg_ids'' Buffer_Long) (nat headerLen))"

definition MsgsAck_Decode :: "64 word list dec" where
  "MsgsAck_Decode =
     dec_bind (dec_wrap ''unable to decode msgs_ack#62d6b459'' (Buffer_ConsumeID MsgsAckTypeID)) (\<lambda>_. MsgsAck_DecodeBare)"

section \<open>pong, new\_session\_created, rpc\_error\<close>

record Pong =
  Pong_MsgID :: "64 word"
  PingID :: "64 word"

definition PongTypeID :: "32 word" where "PongTypeID = 0x347773c5"

definition Pong_EncodeBare :: "Pong \<Rightarrow> buffer \<Rightarrow> buffer" where
  "Pong_EncodeBare p b = Buffer_PutLong (PingID p) (Buffer_PutLong (Pong_MsgID p) b)"

definition Pong_Encode :: "Pong \<Rightarrow> buffer \<Rightarrow> buffer" where
  "Pong_Encode p b = Pong_EncodeBare p (Buffer_PutID PongTypeID b)"

definition Pong_DecodeBare :: "Pong dec" where
  "Pong_DecodeBare =
     dec_bind (dec_wrap ''unable to decode pong#347773c5: field msg_id'' Buffer_Long) (\<lambda>m.
     dec_bind (dec_wrap ''unable to decode pong#347773c5: field ping_id'' Buffer_Long) (\<lambda>p.
     dec_return \<lparr>Pong_MsgID = m, PingID = p\<rparr>))"

definition Pong_Decode :: "Pong dec" where
  "Pong_Decode = dec_bind (dec_wrap ''unable to decode pong#347773c5'' (Buffer_ConsumeID PongTypeID)) (\<lambda>_. Pong_DecodeBare)"

record NewSessionCreated =
  FirstMsgID :: "64 word"
  UniqueID :: "64 word"
  ServerSalt :: "64 word"

definition NewSessionCreatedTypeID :: "32 word" where "NewSessionCreatedTypeID = 0x9ec20908"

definition NewSessionCreated_EncodeBare :: "NewSessionCreated \<Rightarrow> buffer \<Rightarrow> buffer" where
  "NewSessionCreated_EncodeBare n b = Buffer_PutLong (ServerSalt n) (Buffer_PutLong (UniqueID n) (Buffer_PutLong (FirstMsgID n) b))"

definition NewSessionCreated_Encode :: "NewSessionCreated \<Rightarrow> buffer \<Rightarrow> buffer" where
  "NewSessionCreated_Encode n b = NewSessionCreated_EncodeBare n (Buffer_PutID NewSessionCreatedTypeID b)"

definition NewSessionCreated_DecodeBare :: "NewSessionCreated dec" where
  "NewSessionCreated_DecodeBare =
     dec_bind (dec_wrap ''unable to decode new_session_created#9ec20908: field first_msg_id'' Buffer_Long) (\<lambda>f.
     dec_bind (dec_wrap ''unable to decode new_session_created#9ec20908: field unique_id'' Buffer_Long) (\<lambda>u.
     dec_bind (dec_wrap ''unable to decode new_session_created#9ec20908: field server_salt'' Buffer_Long) (\<lambda>s.
     dec_return \<lparr>FirstMsgID = f, UniqueID = u, ServerSalt = s\<rparr>)))"

definition NewSessionCreated_Decode :: "NewSessionCreated dec" where
  "NewSessionCreated_Decode =
     dec_bind (dec_wrap ''unable to decode new_session_created#9ec20908'' (Buffer_ConsumeID NewSessionCreatedTypeID))
       (\<lambda>_. NewSessionCreated_DecodeBare)"

record RPCError =
  RE_ErrorCode :: int
  RE_ErrorMessage :: bytes

definition RPCErrorTypeID :: "32 word" where "RPCErrorTypeID = 0x2144ca19"

definition RPCError_EncodeBare :: "RPCError \<Rightarrow> buffer \<Rightarrow> buffer" where
  "RPCError_EncodeBare r b = Buffer_PutString (RE_ErrorMessage r) (Buffer_PutInt (RE_ErrorCode r) b)"

definition RPCError_Encode :: "RPCError \<Rightarrow> buffer \<Rightarrow> buffer" where
  "RPCError_Encode r b = RPCError_EncodeBare r (Buffer_PutID RPCErrorTypeID b)"

definition RPCError_DecodeBare :: "RPCError dec" where
  "RPCError_DecodeBare =
     dec_bind (dec_wrap ''unable to decode rpc_error#2144ca19: field error_code'' Buffer_Int) (\<lambda>c.
     dec_bind (dec_wrap ''unable to decode rpc_error#2144ca19: field error_message'' Buffer_String) (\<lambda>m.
     dec_return \<lparr>RE_ErrorCode = c, RE_ErrorMessage = m\<rparr>))"

definition RPCError_Decode :: "RPCError dec" where
  "RPCError_Decode =
     dec_bind (dec_wrap ''unable to decode rpc_error#2144ca19'' (Buffer_ConsumeID RPCErrorTypeID)) (\<lambda>_. RPCError_DecodeBare)"

text \<open>Two types of which only the identifier matters to the connection.\<close>

definition MsgDetailedInfoTypeID :: "32 word" where "MsgDetailedInfoTypeID = 0x276d3ec6"
definition MsgNewDetailedInfoTypeID :: "32 word" where "MsgNewDetailedInfoTypeID = 0x809db6df"

section \<open>Lemmas\<close>

lemma wrap_app: "d b = (Inr v, b') \<Longrightarrow> dec_wrap s d b = (Inr v, b')"
  by (rule dec_wrap_Inr)

definition salt_ok :: "FutureSalt \<Rightarrow> bool" where
  "salt_ok f \<longleftrightarrow> is_int32 (ValidSince f) \<and> is_int32 (ValidUntil f)"

lemma FutureSalt_bare: "salt_ok f \<Longrightarrow> FutureSalt_DecodeBare (FutureSalt_EncodeBare f [] @ rest) = (Inr f, rest)"
  by (simp add: FutureSalt_DecodeBare_def FutureSalt_EncodeBare_def salt_ok_def put_defs get_apps dec_simps)

lemma fold_FutureSalt: "fold FutureSalt_EncodeBare fs b = b @ concat (map (\<lambda>f. FutureSalt_EncodeBare f []) fs)"
  by (induction fs arbitrary: b) (simp_all add: FutureSalt_EncodeBare_def put_defs)

lemma FutureSalts_app:
  assumes "\<forall>s\<in>set (FS_Salts f). salt_ok s" "is_int32 (FS_Now f)" "length (FS_Salts f) < 2 ^ 31"
  shows "FutureSalts_Decode (FutureSalts_Encode f [] @ rest) = (Inr f, rest)"
proof -
  have n: "is_int32 (int (length (FS_Salts f)))" using assms(3) by (simp add: is_int32_def)
  have el: "dec_elems (dec_wrap s FutureSalt_DecodeBare) (length (FS_Salts f))
      (concat (map (\<lambda>f. FutureSalt_EncodeBare f []) (FS_Salts f)) @ rest) = (Inr (FS_Salts f), rest)" for s
    using assms(1) by (intro dec_elems_app) (simp add: FutureSalt_bare wrap_app)
  have "FutureSalts_Encode f [] = le_bytes Word FutureSaltsTypeID @ le_bytes (Word * 2) (FS_ReqMsgID f)
      @ le_bytes Word (word_of_int (FS_Now f) :: 32 word) @ le_bytes Word (word_of_int (int (length (FS_Salts f))) :: 32 word)
      @ concat (map (\<lambda>f. FutureSalt_EncodeBare f []) (FS_Salts f))"
    by (simp add: FutureSalts_Encode_def FutureSalts_EncodeBare_def fold_FutureSalt put_defs)
  then show ?thesis
    using el assms(2) Int_app[OF n, simplified]
    by (simp add: FutureSalts_Decode_def FutureSalts_DecodeBare_def ConsumeID_app Long_app Int_app dec_simps)
qed

lemma MsgsAck_app:
  assumes "length ids < 2 ^ 31"
  shows "MsgsAck_Decode (MsgsAck_Encode ids [] @ rest) = (Inr ids, rest)"
proof -
  have v: "0 \<le> int (length ids) \<and> int (length ids) < 2 ^ 31" using assms by simp
  have el: "dec_elems (dec_wrap s Buffer_Long) (length ids) (concat (map (\<lambda>i. Buffer_PutLong i []) ids) @ rest) = (Inr ids, rest)" for s
    by (intro dec_elems_app) (simp add: f_long.get_put wrap_app)
  have "MsgsAck_Encode ids [] = Buffer_PutID MsgsAckTypeID [] @ Buffer_PutVectorHeader (int (length ids)) []
      @ concat (map (\<lambda>i. Buffer_PutLong i []) ids)"
    using f_vector_header.put_append[of _ "Buffer_PutID MsgsAckTypeID []"]
    by (simp add: MsgsAck_Encode_def MsgsAck_EncodeBare_def f_long.fold_put)
  then show ?thesis
    using el f_vector_header.get_put[OF v]
    by (simp add: MsgsAck_Decode_def MsgsAck_DecodeBare_def dec_simps)
qed

lemmas field_simps_tl = put_defs get_apps dec_simps

lemma FutureSalt_app: "salt_ok fs \<Longrightarrow> FutureSalt_Decode (FutureSalt_Encode fs [] @ rest) = (Inr fs, rest)"
  by (simp add: FutureSalt_Decode_def FutureSalt_Encode_def FutureSalt_DecodeBare_def FutureSalt_EncodeBare_def salt_ok_def
      field_simps_tl)

lemma BadMsgNotification_app:
  "is_int32 (BadMsgSeqno n) \<Longrightarrow> is_int32 (ErrorCode n) \<Longrightarrow>
   BadMsgNotification_Decode (BadMsgNotification_Encode n [] @ rest) = (Inr n, rest)"
  by (simp add: BadMsgNotification_Decode_def BadMsgNotification_Encode_def BadMsgNotification_DecodeBare_def
      BadMsgNotification_EncodeBare_def field_simps_tl)

lemma BadServerSalt_app:
  "is_int32 (BadMsgSeqno s) \<Longrightarrow> is_int32 (ErrorCode s) \<Longrightarrow>
   BadServerSalt_Decode (BadServerSalt_Encode s [] @ rest) = (Inr s, rest)"
  by (simp add: BadServerSalt_Decode_def BadServerSalt_Encode_def BadServerSalt_DecodeBare_def
      BadServerSalt_EncodeBare_def field_simps_tl)

lemma Pong_app: "Pong_Decode (Pong_Encode p [] @ rest) = (Inr p, rest)"
  by (simp add: Pong_Decode_def Pong_Encode_def Pong_DecodeBare_def Pong_EncodeBare_def field_simps_tl)

lemma NewSessionCreated_app: "NewSessionCreated_Decode (NewSessionCreated_Encode c [] @ rest) = (Inr c, rest)"
  by (simp add: NewSessionCreated_Decode_def NewSessionCreated_Encode_def NewSessionCreated_DecodeBare_def
      NewSessionCreated_EncodeBare_def field_simps_tl)

lemma RPCError_app:
  assumes "is_int32 (RE_ErrorCode r)" "length (RE_ErrorMessage r) \<le> maxLongStringLength"
  shows "RPCError_Decode (RPCError_Encode r [] @ rest) = (Inr r, rest)"
  using assms f_string.put_append[of "RE_ErrorMessage r" "Buffer_PutInt (RE_ErrorCode r) (Buffer_PutID RPCErrorTypeID [])"]
    f_string.get_put[of "RE_ErrorMessage r" rest]
  by (simp add: RPCError_Decode_def RPCError_Encode_def RPCError_DecodeBare_def RPCError_EncodeBare_def field_simps_tl)

lemmas mt_apps = FutureSalt_app FutureSalts_app BadMsgNotification_app BadServerSalt_app MsgsAck_app Pong_app
  NewSessionCreated_app RPCError_app

section \<open>Properties\<close>

text \<open>
  The service messages round-trip: for values whose \<open>int\<close> fields fit 32 bits and whose
  strings and vectors have representable lengths, \<open>Decode\<close> returns what \<open>Encode\<close> wrote and
  leaves what follows.
\<close>

theorem mt_messages_roundtrip:
  "(salt_ok fs \<longrightarrow> FutureSalt_Decode (FutureSalt_Encode fs [] @ rest) = (Inr fs, rest))
   \<and> ((\<forall>s\<in>set (FS_Salts f). salt_ok s) \<and> is_int32 (FS_Now f) \<and> length (FS_Salts f) < 2 ^ 31 \<longrightarrow>
       FutureSalts_Decode (FutureSalts_Encode f [] @ rest) = (Inr f, rest))
   \<and> (is_int32 (BadMsgSeqno n) \<and> is_int32 (ErrorCode n) \<longrightarrow>
       BadMsgNotification_Decode (BadMsgNotification_Encode n [] @ rest) = (Inr n, rest))
   \<and> (is_int32 (BadMsgSeqno s) \<and> is_int32 (ErrorCode s) \<longrightarrow>
       BadServerSalt_Decode (BadServerSalt_Encode s [] @ rest) = (Inr s, rest))
   \<and> (length ids < 2 ^ 31 \<longrightarrow> MsgsAck_Decode (MsgsAck_Encode ids [] @ rest) = (Inr ids, rest))
   \<and> Pong_Decode (Pong_Encode p [] @ rest) = (Inr p, rest)
   \<and> NewSessionCreated_Decode (NewSessionCreated_Encode c [] @ rest) = (Inr c, rest)
   \<and> (is_int32 (RE_ErrorCode r) \<and> length (RE_ErrorMessage r) \<le> maxLongStringLength \<longrightarrow>
       RPCError_Decode (RPCError_Encode r [] @ rest) = (Inr r, rest))"
  by (simp add: mt_apps)

theorem mt_messages_roundtrip_witness:
  "MsgsAck_Decode (MsgsAck_Encode [1, 2] [] @ [9]) = (Inr [1, 2], [9])"
  using mt_messages_roundtrip[where ids = "[1, 2]" and rest = "[9]"] by simp

end
