(* ===== verification/Mt_Exchange.thy ===== *)
theory Mt_Exchange
  imports Mt_Types
begin

text \<open>
  Package \<open>mt\<close>: the messages of the key exchange, statement by statement as the generator
  writes them. Receivers are never nil.
\<close>

section \<open>Normal forms\<close>

text \<open>The encoding of a byte string and of a vector of longs as a suffix of the buffer.\<close>

definition tl_bytes :: "bytes \<Rightarrow> bytes" where
  "tl_bytes v = Buffer_PutBytes v []"

definition tl_longs :: "64 word list \<Rightarrow> bytes" where
  "tl_longs vs = fold Buffer_PutLong vs (Buffer_PutVectorHeader (int (length vs)) [])"

lemma PutBytes_eq: "Buffer_PutBytes v b = b @ tl_bytes v"
  unfolding tl_bytes_def by (rule f_bytes.put_append)

lemma tl_bytes_dvd: "length v \<le> maxLongStringLength \<Longrightarrow> 4 dvd length (tl_bytes v)"
  unfolding tl_bytes_def by (rule f_bytes.put_aligned)

lemma Bytes_app: "length v \<le> maxLongStringLength \<Longrightarrow> Buffer_Bytes (tl_bytes v @ rest) = (Inr v, rest)"
  unfolding tl_bytes_def by (rule f_bytes.get_put)

lemma tl_longs_parts:
  "tl_longs vs = Buffer_PutVectorHeader (int (length vs)) [] @ concat (map (\<lambda>v. Buffer_PutLong v []) vs)"
  by (simp add: tl_longs_def f_long.fold_put)

lemma PutLongs_eq: "fold Buffer_PutLong vs (Buffer_PutVectorHeader (int (length vs)) b) = b @ tl_longs vs"
  using f_vector_header.put_append[of "int (length vs)" b] by (simp add: tl_longs_parts f_long.fold_put)

lemma concat_longs_dvd: "4 dvd length (concat (map (\<lambda>v. Buffer_PutLong v []) vs))"
  by (induction vs) (use f_long.put_aligned in auto)

lemma tl_longs_dvd: "length vs < 2 ^ 31 \<Longrightarrow> 4 dvd length (tl_longs vs)"
  using f_vector_header.put_aligned[of "int (length vs)"] concat_longs_dvd[of vs] by (simp add: tl_longs_parts)

lemma Longs_app:
  assumes "length vs < 2 ^ 31"
  shows "dec_bind (dec_wrap s Buffer_VectorHeader) (\<lambda>n. dec_bind (dec_elems (dec_wrap s' Buffer_Long) (nat n)) k) (tl_longs vs @ rest)
    = k vs rest"
proof -
  have el: "dec_elems (dec_wrap s' Buffer_Long) (length vs) (concat (map (\<lambda>i. Buffer_PutLong i []) vs) @ rest) = (Inr vs, rest)"
    by (intro dec_elems_app) (simp add: f_long.get_put wrap_app)
  then show ?thesis
    using assms f_vector_header.get_put[of "int (length vs)"] by (simp add: tl_longs_parts dec_simps)
qed

lemma Int128_app: "length v = 16 \<Longrightarrow> Buffer_Int128 (v @ rest) = (Inr v, rest)"
  using f_int128.get_put[of v rest] by (simp add: put_defs)

lemma Int256_app: "length v = 32 \<Longrightarrow> Buffer_Int256 (v @ rest) = (Inr v, rest)"
  using f_int256.get_put[of v rest] by (simp add: put_defs)

text \<open>What the reading methods return has the declared width.\<close>

lemma eq_of_take_bit: "take_bit n (w :: 32 word) = w \<Longrightarrow> unat w = take_bit n (unat w)"
  by (metis unsigned_take_bit_eq)

lemma or_less_bytes: "unat ((ucast a :: 32 word) OR push_bit 8 (ucast b) OR push_bit 16 (ucast (c :: 8 word))) \<le> maxLongStringLength"
  for a b :: "8 word"
proof -
  let ?w = "(ucast a :: 32 word) OR push_bit 8 (ucast b) OR push_bit 16 (ucast c)"
  have byte: "bit (x :: 8 word) n \<Longrightarrow> n < 8" for x n using bit_imp_le_length[of x n] by simp
  have hi: "n < 24" if "bit ?w n" for n
    using that byte[of a n] byte[of b "n - 8"] byte[of c "n - 16"] by (simp add: bit_simps) linarith
  have "take_bit 24 ?w = ?w" by (rule bit_word_eqI) (use hi in \<open>auto simp only: bit_take_bit_iff\<close>)
  then have "unat ?w = take_bit 24 (unat ?w)" by (rule eq_of_take_bit)
  then have "unat ?w < 2 ^ 24" using take_bit_nat_less_exp[of 24 "unat ?w"] by (simp only:)
  then show ?thesis by (simp add: maxLongStringLength_def)
qed

lemma Bytes_typed: "Buffer_Bytes b = (Inr v, rest) \<Longrightarrow> length v \<le> maxLongStringLength"
proof -
  assume a: "Buffer_Bytes b = (Inr v, rest)"
  then obtain n where "decodeBytes b = Inr (n, v)" by (auto simp: Buffer_Bytes_def split: sum.splits if_splits)
  then have "length v \<le> maxLongStringLength \<or> length v \<le> maxSmallStringLength"
    using or_less_bytes[of "b ! 1" "b ! 2" "b ! 3"] by (auto simp: decodeBytes_def Let_def min_def split: if_splits)
  then show ?thesis by (auto simp: maxSmallStringLength_def maxLongStringLength_def)
qed

lemma Int128_typed: "Buffer_Int128 b = (Inr v, rest) \<Longrightarrow> length v = 16"
  using f_int128.get_only by blast

lemma Int256_typed: "Buffer_Int256 b = (Inr v, rest) \<Longrightarrow> length v = 32"
  using f_int256.get_only by blast

lemma Int_typed: "Buffer_Int b = (Inr v, rest) \<Longrightarrow> is_int32 v"
  using f_int.get_only by blast

lemma VectorHeader_typed: "Buffer_VectorHeader b = (Inr n, rest) \<Longrightarrow> nat n < 2 ^ 31"
  by (auto simp: Buffer_VectorHeader_def dec_return_def dec_fail_def is_int32_def elim!: dec_bind_InrE dest!: Int_typed split: if_splits)

lemma dec_elems_length: "dec_elems d n b = (Inr vs, rest) \<Longrightarrow> length vs = n"
  by (induction n arbitrary: b vs) (auto simp: dec_return_def elim!: dec_bind_InrE)

lemmas typed_fields = Bytes_typed Int128_typed Int256_typed Int_typed VectorHeader_typed dec_elems_length

text \<open>
  The types of a schema promise more than a field: whatever is decoded is a value of the type. So a
  decoded value can be encoded and decoded again.
\<close>

locale tl_typed = tl_field +
  assumes get_ok: "get b = (Inr v, rest) \<Longrightarrow> ok v"
begin

lemma reencode: "get b = (Inr v, rest) \<Longrightarrow> get (put v [] @ rest') = (Inr v, rest')"
  by (rule get_put) (rule get_ok)

end

lemmas tl_simps = Let_def PutLongs_eq PutBytes_eq Buffer_PutID_def Buffer_PutUint32_def Buffer_PutInt_def Buffer_PutInt32_def
  Buffer_PutLong_def Buffer_PutUint64_def Buffer_PutInt128_def Buffer_PutInt256_def Buffer_Put_def Longs_app Bytes_app Int128_app Int256_app get_apps dec_simps
  tl_bytes_dvd tl_longs_dvd

section \<open>tl\_req\_pq\_gen.go\<close>

record ReqPqRequest =
  ReqPqRequest_Nonce :: "bytes"

definition ReqPqRequestTypeID :: "32 word" where "ReqPqRequestTypeID = 0x60469778"

definition ReqPqRequest_EncodeBare :: "ReqPqRequest \<Rightarrow> buffer \<Rightarrow> buffer" where
  "ReqPqRequest_EncodeBare r b =
     (let b = Buffer_PutInt128 (ReqPqRequest_Nonce r) b
      in b)"

definition ReqPqRequest_Encode :: "ReqPqRequest \<Rightarrow> buffer \<Rightarrow> buffer" where
  "ReqPqRequest_Encode r b = ReqPqRequest_EncodeBare r (Buffer_PutID ReqPqRequestTypeID b)"

definition ReqPqRequest_DecodeBare :: "ReqPqRequest dec" where
  "ReqPqRequest_DecodeBare =
     dec_bind (dec_wrap ''unable to decode req_pq#60469778: field nonce'' Buffer_Int128) (\<lambda>v1.
     dec_return \<lparr>ReqPqRequest_Nonce = v1\<rparr>)"

definition ReqPqRequest_Decode :: "ReqPqRequest dec" where
  "ReqPqRequest_Decode =
     dec_bind (dec_wrap ''unable to decode req_pq#60469778'' (Buffer_ConsumeID ReqPqRequestTypeID)) (\<lambda>_. ReqPqRequest_DecodeBare)"

section \<open>tl\_req\_pq\_multi\_gen.go\<close>

record ReqPqMultiRequest =
  ReqPqMultiRequest_Nonce :: "bytes"

definition ReqPqMultiRequestTypeID :: "32 word" where "ReqPqMultiRequestTypeID = 0xbe7e8ef1"

definition ReqPqMultiRequest_EncodeBare :: "ReqPqMultiRequest \<Rightarrow> buffer \<Rightarrow> buffer" where
  "ReqPqMultiRequest_EncodeBare r b =
     (let b = Buffer_PutInt128 (ReqPqMultiRequest_Nonce r) b
      in b)"

definition ReqPqMultiRequest_Encode :: "ReqPqMultiRequest \<Rightarrow> buffer \<Rightarrow> buffer" where
  "ReqPqMultiRequest_Encode r b = ReqPqMultiRequest_EncodeBare r (Buffer_PutID ReqPqMultiRequestTypeID b)"

definition ReqPqMultiRequest_DecodeBare :: "ReqPqMultiRequest dec" where
  "ReqPqMultiRequest_DecodeBare =
     dec_bind (dec_wrap ''unable to decode req_pq_multi#be7e8ef1: field nonce'' Buffer_Int128) (\<lambda>v1.
     dec_return \<lparr>ReqPqMultiRequest_Nonce = v1\<rparr>)"

definition ReqPqMultiRequest_Decode :: "ReqPqMultiRequest dec" where
  "ReqPqMultiRequest_Decode =
     dec_bind (dec_wrap ''unable to decode req_pq_multi#be7e8ef1'' (Buffer_ConsumeID ReqPqMultiRequestTypeID)) (\<lambda>_. ReqPqMultiRequest_DecodeBare)"

section \<open>tl\_res\_p\_q\_gen.go\<close>

record ResPQ =
  ResPQ_Nonce :: "bytes"
  ResPQ_ServerNonce :: "bytes"
  ResPQ_Pq :: "bytes"
  ResPQ_ServerPublicKeyFingerprints :: "64 word list"

definition ResPQTypeID :: "32 word" where "ResPQTypeID = 0x5162463"

definition ResPQ_EncodeBare :: "ResPQ \<Rightarrow> buffer \<Rightarrow> buffer" where
  "ResPQ_EncodeBare r b =
     (let b = Buffer_PutInt128 (ResPQ_Nonce r) b;
          b = Buffer_PutInt128 (ResPQ_ServerNonce r) b;
          b = Buffer_PutBytes (ResPQ_Pq r) b;
          b = Buffer_PutVectorHeader (int (length (ResPQ_ServerPublicKeyFingerprints r))) b;
          b = fold Buffer_PutLong (ResPQ_ServerPublicKeyFingerprints r) b
      in b)"

definition ResPQ_Encode :: "ResPQ \<Rightarrow> buffer \<Rightarrow> buffer" where
  "ResPQ_Encode r b = ResPQ_EncodeBare r (Buffer_PutID ResPQTypeID b)"

definition ResPQ_DecodeBare :: "ResPQ dec" where
  "ResPQ_DecodeBare =
     dec_bind (dec_wrap ''unable to decode resPQ#5162463: field nonce'' Buffer_Int128) (\<lambda>v1.
     dec_bind (dec_wrap ''unable to decode resPQ#5162463: field server_nonce'' Buffer_Int128) (\<lambda>v2.
     dec_bind (dec_wrap ''unable to decode resPQ#5162463: field pq'' Buffer_Bytes) (\<lambda>v3.
     dec_bind (dec_wrap ''unable to decode resPQ#5162463: field server_public_key_fingerprints'' Buffer_VectorHeader) (\<lambda>headerLen.
     dec_bind (dec_elems (dec_wrap ''unable to decode resPQ#5162463: field server_public_key_fingerprints'' Buffer_Long) (nat headerLen)) (\<lambda>v4.
     dec_return \<lparr>ResPQ_Nonce = v1, ResPQ_ServerNonce = v2, ResPQ_Pq = v3, ResPQ_ServerPublicKeyFingerprints = v4\<rparr>)))))"

definition ResPQ_Decode :: "ResPQ dec" where
  "ResPQ_Decode =
     dec_bind (dec_wrap ''unable to decode resPQ#5162463'' (Buffer_ConsumeID ResPQTypeID)) (\<lambda>_. ResPQ_DecodeBare)"

section \<open>tl\_p\_q\_inner\_data\_gen.go\<close>

record PQInnerData =
  PQInnerData_Pq :: "bytes"
  PQInnerData_P :: "bytes"
  PQInnerData_Q :: "bytes"
  PQInnerData_Nonce :: "bytes"
  PQInnerData_ServerNonce :: "bytes"
  PQInnerData_NewNonce :: "bytes"

definition PQInnerDataTypeID :: "32 word" where "PQInnerDataTypeID = 0x83c95aec"

definition PQInnerData_EncodeBare :: "PQInnerData \<Rightarrow> buffer \<Rightarrow> buffer" where
  "PQInnerData_EncodeBare p b =
     (let b = Buffer_PutBytes (PQInnerData_Pq p) b;
          b = Buffer_PutBytes (PQInnerData_P p) b;
          b = Buffer_PutBytes (PQInnerData_Q p) b;
          b = Buffer_PutInt128 (PQInnerData_Nonce p) b;
          b = Buffer_PutInt128 (PQInnerData_ServerNonce p) b;
          b = Buffer_PutInt256 (PQInnerData_NewNonce p) b
      in b)"

definition PQInnerData_Encode :: "PQInnerData \<Rightarrow> buffer \<Rightarrow> buffer" where
  "PQInnerData_Encode p b = PQInnerData_EncodeBare p (Buffer_PutID PQInnerDataTypeID b)"

definition PQInnerData_DecodeBare :: "PQInnerData dec" where
  "PQInnerData_DecodeBare =
     dec_bind (dec_wrap ''unable to decode p_q_inner_data#83c95aec: field pq'' Buffer_Bytes) (\<lambda>v1.
     dec_bind (dec_wrap ''unable to decode p_q_inner_data#83c95aec: field p'' Buffer_Bytes) (\<lambda>v2.
     dec_bind (dec_wrap ''unable to decode p_q_inner_data#83c95aec: field q'' Buffer_Bytes) (\<lambda>v3.
     dec_bind (dec_wrap ''unable to decode p_q_inner_data#83c95aec: field nonce'' Buffer_Int128) (\<lambda>v4.
     dec_bind (dec_wrap ''unable to decode p_q_inner_data#83c95aec: field server_nonce'' Buffer_Int128) (\<lambda>v5.
     dec_bind (dec_wrap ''unable to decode p_q_inner_data#83c95aec: field new_nonce'' Buffer_Int256) (\<lambda>v6.
     dec_return \<lparr>PQInnerData_Pq = v1, PQInnerData_P = v2, PQInnerData_Q = v3, PQInnerData_Nonce = v4, PQInnerData_ServerNonce = v5, PQInnerData_NewNonce = v6\<rparr>))))))"

definition PQInnerData_Decode :: "PQInnerData dec" where
  "PQInnerData_Decode =
     dec_bind (dec_wrap ''unable to decode p_q_inner_data#83c95aec'' (Buffer_ConsumeID PQInnerDataTypeID)) (\<lambda>_. PQInnerData_DecodeBare)"

record PQInnerDataDC =
  PQInnerDataDC_Pq :: "bytes"
  PQInnerDataDC_P :: "bytes"
  PQInnerDataDC_Q :: "bytes"
  PQInnerDataDC_Nonce :: "bytes"
  PQInnerDataDC_ServerNonce :: "bytes"
  PQInnerDataDC_NewNonce :: "bytes"
  PQInnerDataDC_DC :: "int"

definition PQInnerDataDCTypeID :: "32 word" where "PQInnerDataDCTypeID = 0xa9f55f95"

definition PQInnerDataDC_EncodeBare :: "PQInnerDataDC \<Rightarrow> buffer \<Rightarrow> buffer" where
  "PQInnerDataDC_EncodeBare p b =
     (let b = Buffer_PutBytes (PQInnerDataDC_Pq p) b;
          b = Buffer_PutBytes (PQInnerDataDC_P p) b;
          b = Buffer_PutBytes (PQInnerDataDC_Q p) b;
          b = Buffer_PutInt128 (PQInnerDataDC_Nonce p) b;
          b = Buffer_PutInt128 (PQInnerDataDC_ServerNonce p) b;
          b = Buffer_PutInt256 (PQInnerDataDC_NewNonce p) b;
          b = Buffer_PutInt (PQInnerDataDC_DC p) b
      in b)"

definition PQInnerDataDC_Encode :: "PQInnerDataDC \<Rightarrow> buffer \<Rightarrow> buffer" where
  "PQInnerDataDC_Encode p b = PQInnerDataDC_EncodeBare p (Buffer_PutID PQInnerDataDCTypeID b)"

definition PQInnerDataDC_DecodeBare :: "PQInnerDataDC dec" where
  "PQInnerDataDC_DecodeBare =
     dec_bind (dec_wrap ''unable to decode p_q_inner_data_dc#a9f55f95: field pq'' Buffer_Bytes) (\<lambda>v1.
     dec_bind (dec_wrap ''unable to decode p_q_inner_data_dc#a9f55f95: field p'' Buffer_Bytes) (\<lambda>v2.
     dec_bind (dec_wrap ''unable to decode p_q_inner_data_dc#a9f55f95: field q'' Buffer_Bytes) (\<lambda>v3.
     dec_bind (dec_wrap ''unable to decode p_q_inner_data_dc#a9f55f95: field nonce'' Buffer_Int128) (\<lambda>v4.
     dec_bind (dec_wrap ''unable to decode p_q_inner_data_dc#a9f55f95: field server_nonce'' Buffer_Int128) (\<lambda>v5.
     dec_bind (dec_wrap ''unable to decode p_q_inner_data_dc#a9f55f95: field new_nonce'' Buffer_Int256) (\<lambda>v6.
     dec_bind (dec_wrap ''unable to decode p_q_inner_data_dc#a9f55f95: field dc'' Buffer_Int) (\<lambda>v7.
     dec_return \<lparr>PQInnerDataDC_Pq = v1, PQInnerDataDC_P = v2, PQInnerDataDC_Q = v3, PQInnerDataDC_Nonce = v4, PQInnerDataDC_ServerNonce = v5, PQInnerDataDC_NewNonce = v6, PQInnerDataDC_DC = v7\<rparr>)))))))"

definition PQInnerDataDC_Decode :: "PQInnerDataDC dec" where
  "PQInnerDataDC_Decode =
     dec_bind (dec_wrap ''unable to decode p_q_inner_data_dc#a9f55f95'' (Buffer_ConsumeID PQInnerDataDCTypeID)) (\<lambda>_. PQInnerDataDC_DecodeBare)"

record PQInnerDataTempDC =
  PQInnerDataTempDC_Pq :: "bytes"
  PQInnerDataTempDC_P :: "bytes"
  PQInnerDataTempDC_Q :: "bytes"
  PQInnerDataTempDC_Nonce :: "bytes"
  PQInnerDataTempDC_ServerNonce :: "bytes"
  PQInnerDataTempDC_NewNonce :: "bytes"
  PQInnerDataTempDC_DC :: "int"
  PQInnerDataTempDC_ExpiresIn :: "int"

definition PQInnerDataTempDCTypeID :: "32 word" where "PQInnerDataTempDCTypeID = 0x56fddf88"

definition PQInnerDataTempDC_EncodeBare :: "PQInnerDataTempDC \<Rightarrow> buffer \<Rightarrow> buffer" where
  "PQInnerDataTempDC_EncodeBare p b =
     (let b = Buffer_PutBytes (PQInnerDataTempDC_Pq p) b;
          b = Buffer_PutBytes (PQInnerDataTempDC_P p) b;
          b = Buffer_PutBytes (PQInnerDataTempDC_Q p) b;
          b = Buffer_PutInt128 (PQInnerDataTempDC_Nonce p) b;
          b = Buffer_PutInt128 (PQInnerDataTempDC_ServerNonce p) b;
          b = Buffer_PutInt256 (PQInnerDataTempDC_NewNonce p) b;
          b = Buffer_PutInt (PQInnerDataTempDC_DC p) b;
          b = Buffer_PutInt (PQInnerDataTempDC_ExpiresIn p) b
      in b)"

definition PQInnerDataTempDC_Encode :: "PQInnerDataTempDC \<Rightarrow> buffer \<Rightarrow> buffer" where
  "PQInnerDataTempDC_Encode p b = PQInnerDataTempDC_EncodeBare p (Buffer_PutID PQInnerDataTempDCTypeID b)"

definition PQInnerDataTempDC_DecodeBare :: "PQInnerDataTempDC dec" where
  "PQInnerDataTempDC_DecodeBare =
     dec_bind (dec_wrap ''unable to decode p_q_inner_data_temp_dc#56fddf88: field pq'' Buffer_Bytes) (\<lambda>v1.
     dec_bind (dec_wrap ''unable to decode p_q_inner_data_temp_dc#56fddf88: field p'' Buffer_Bytes) (\<lambda>v2.
     dec_bind (dec_wrap ''unable to decode p_q_inner_data_temp_dc#56fddf88: field q'' Buffer_Bytes) (\<lambda>v3.
     dec_bind (dec_wrap ''unable to decode p_q_inner_data_temp_dc#56fddf88: field nonce'' Buffer_Int128) (\<lambda>v4.
     dec_bind (dec_wrap ''unable to decode p_q_inner_data_temp_dc#56fddf88: field server_nonce'' Buffer_Int128) (\<lambda>v5.
     dec_bind (dec_wrap ''unable to decode p_q_inner_data_temp_dc#56fddf88: field new_nonce'' Buffer_Int256) (\<lambda>v6.
     dec_bind (dec_wrap ''unable to decode p_q_inner_data_temp_dc#56fddf88: field dc'' Buffer_Int) (\<lambda>v7.
     dec_bind (dec_wrap ''unable to decode p_q_inner_data_temp_dc#56fddf88: field expires_in'' Buffer_Int) (\<lambda>v8.
     dec_return \<lparr>PQInnerDataTempDC_Pq = v1, PQInnerDataTempDC_P = v2, PQInnerDataTempDC_Q = v3, PQInnerDataTempDC_Nonce = v4, PQInnerDataTempDC_ServerNonce = v5, PQInnerDataTempDC_NewNonce = v6, PQInnerDataTempDC_DC = v7, PQInnerDataTempDC_ExpiresIn = v8\<rparr>))))))))"

definition PQInnerDataTempDC_Decode :: "PQInnerDataTempDC dec" where
  "PQInnerDataTempDC_Decode =
     dec_bind (dec_wrap ''unable to decode p_q_inner_data_temp_dc#56fddf88'' (Buffer_ConsumeID PQInnerDataTempDCTypeID)) (\<lambda>_. PQInnerDataTempDC_DecodeBare)"

datatype PQInnerDataClass = PQ_PQInnerData "PQInnerData" | PQ_PQInnerDataDC "PQInnerDataDC" | PQ_PQInnerDataTempDC "PQInnerDataTempDC"

text \<open>\<open>DecodePQInnerData\<close> chooses the decoder by the identifier it peeks.\<close>

definition DecodePQInnerData :: "PQInnerDataClass dec" where
  "DecodePQInnerData = dec_bind Buffer_PeekID (\<lambda>i.
     if i = PQInnerDataTypeID then dec_bind (dec_wrap ''unable to decode PQInnerDataClass'' PQInnerData_Decode) (\<lambda>v. dec_return (PQ_PQInnerData v))
     else if i = PQInnerDataDCTypeID then dec_bind (dec_wrap ''unable to decode PQInnerDataClass'' PQInnerDataDC_Decode) (\<lambda>v. dec_return (PQ_PQInnerDataDC v))
     else if i = PQInnerDataTempDCTypeID then dec_bind (dec_wrap ''unable to decode PQInnerDataClass'' PQInnerDataTempDC_Decode) (\<lambda>v. dec_return (PQ_PQInnerDataTempDC v))
     else dec_fail (Wrap ''unable to decode PQInnerDataClass'' (UnexpectedIDErr i)))"

text \<open>\<open>Encode\<close> of a boxed value is the method of its variant.\<close>

definition PQInnerDataClass_Encode :: "PQInnerDataClass \<Rightarrow> buffer \<Rightarrow> buffer" where
  "PQInnerDataClass_Encode d buf =
     (case d of
        PQ_PQInnerData v \<Rightarrow> PQInnerData_Encode v buf
      | PQ_PQInnerDataDC v \<Rightarrow> PQInnerDataDC_Encode v buf
      | PQ_PQInnerDataTempDC v \<Rightarrow> PQInnerDataTempDC_Encode v buf)"

section \<open>tl\_req\_d\_h\_params\_gen.go\<close>

record ReqDHParamsRequest =
  ReqDHParamsRequest_Nonce :: "bytes"
  ReqDHParamsRequest_ServerNonce :: "bytes"
  ReqDHParamsRequest_P :: "bytes"
  ReqDHParamsRequest_Q :: "bytes"
  ReqDHParamsRequest_PublicKeyFingerprint :: "64 word"
  ReqDHParamsRequest_EncryptedData :: "bytes"

definition ReqDHParamsRequestTypeID :: "32 word" where "ReqDHParamsRequestTypeID = 0xd712e4be"

definition ReqDHParamsRequest_EncodeBare :: "ReqDHParamsRequest \<Rightarrow> buffer \<Rightarrow> buffer" where
  "ReqDHParamsRequest_EncodeBare r b =
     (let b = Buffer_PutInt128 (ReqDHParamsRequest_Nonce r) b;
          b = Buffer_PutInt128 (ReqDHParamsRequest_ServerNonce r) b;
          b = Buffer_PutBytes (ReqDHParamsRequest_P r) b;
          b = Buffer_PutBytes (ReqDHParamsRequest_Q r) b;
          b = Buffer_PutLong (ReqDHParamsRequest_PublicKeyFingerprint r) b;
          b = Buffer_PutBytes (ReqDHParamsRequest_EncryptedData r) b
      in b)"

definition ReqDHParamsRequest_Encode :: "ReqDHParamsRequest \<Rightarrow> buffer \<Rightarrow> buffer" where
  "ReqDHParamsRequest_Encode r b = ReqDHParamsRequest_EncodeBare r (Buffer_PutID ReqDHParamsRequestTypeID b)"

definition ReqDHParamsRequest_DecodeBare :: "ReqDHParamsRequest dec" where
  "ReqDHParamsRequest_DecodeBare =
     dec_bind (dec_wrap ''unable to decode req_DH_params#d712e4be: field nonce'' Buffer_Int128) (\<lambda>v1.
     dec_bind (dec_wrap ''unable to decode req_DH_params#d712e4be: field server_nonce'' Buffer_Int128) (\<lambda>v2.
     dec_bind (dec_wrap ''unable to decode req_DH_params#d712e4be: field p'' Buffer_Bytes) (\<lambda>v3.
     dec_bind (dec_wrap ''unable to decode req_DH_params#d712e4be: field q'' Buffer_Bytes) (\<lambda>v4.
     dec_bind (dec_wrap ''unable to decode req_DH_params#d712e4be: field public_key_fingerprint'' Buffer_Long) (\<lambda>v5.
     dec_bind (dec_wrap ''unable to decode req_DH_params#d712e4be: field encrypted_data'' Buffer_Bytes) (\<lambda>v6.
     dec_return \<lparr>ReqDHParamsRequest_Nonce = v1, ReqDHParamsRequest_ServerNonce = v2, ReqDHParamsRequest_P = v3, ReqDHParamsRequest_Q = v4, ReqDHParamsRequest_PublicKeyFingerprint = v5, ReqDHParamsRequest_EncryptedData = v6\<rparr>))))))"

definition ReqDHParamsRequest_Decode :: "ReqDHParamsRequest dec" where
  "ReqDHParamsRequest_Decode =
     dec_bind (dec_wrap ''unable to decode req_DH_params#d712e4be'' (Buffer_ConsumeID ReqDHParamsRequestTypeID)) (\<lambda>_. ReqDHParamsRequest_DecodeBare)"

section \<open>tl\_server\_d\_h\_params\_gen.go\<close>

record ServerDHParamsFail =
  ServerDHParamsFail_Nonce :: "bytes"
  ServerDHParamsFail_ServerNonce :: "bytes"
  ServerDHParamsFail_NewNonceHash :: "bytes"

definition ServerDHParamsFailTypeID :: "32 word" where "ServerDHParamsFailTypeID = 0x79cb045d"

definition ServerDHParamsFail_EncodeBare :: "ServerDHParamsFail \<Rightarrow> buffer \<Rightarrow> buffer" where
  "ServerDHParamsFail_EncodeBare s b =
     (let b = Buffer_PutInt128 (ServerDHParamsFail_Nonce s) b;
          b = Buffer_PutInt128 (ServerDHParamsFail_ServerNonce s) b;
          b = Buffer_PutInt128 (ServerDHParamsFail_NewNonceHash s) b
      in b)"

definition ServerDHParamsFail_Encode :: "ServerDHParamsFail \<Rightarrow> buffer \<Rightarrow> buffer" where
  "ServerDHParamsFail_Encode s b = ServerDHParamsFail_EncodeBare s (Buffer_PutID ServerDHParamsFailTypeID b)"

definition ServerDHParamsFail_DecodeBare :: "ServerDHParamsFail dec" where
  "ServerDHParamsFail_DecodeBare =
     dec_bind (dec_wrap ''unable to decode server_DH_params_fail#79cb045d: field nonce'' Buffer_Int128) (\<lambda>v1.
     dec_bind (dec_wrap ''unable to decode server_DH_params_fail#79cb045d: field server_nonce'' Buffer_Int128) (\<lambda>v2.
     dec_bind (dec_wrap ''unable to decode server_DH_params_fail#79cb045d: field new_nonce_hash'' Buffer_Int128) (\<lambda>v3.
     dec_return \<lparr>ServerDHParamsFail_Nonce = v1, ServerDHParamsFail_ServerNonce = v2, ServerDHParamsFail_NewNonceHash = v3\<rparr>)))"

definition ServerDHParamsFail_Decode :: "ServerDHParamsFail dec" where
  "ServerDHParamsFail_Decode =
     dec_bind (dec_wrap ''unable to decode server_DH_params_fail#79cb045d'' (Buffer_ConsumeID ServerDHParamsFailTypeID)) (\<lambda>_. ServerDHParamsFail_DecodeBare)"

record ServerDHParamsOk =
  ServerDHParamsOk_Nonce :: "bytes"
  ServerDHParamsOk_ServerNonce :: "bytes"
  ServerDHParamsOk_EncryptedAnswer :: "bytes"

definition ServerDHParamsOkTypeID :: "32 word" where "ServerDHParamsOkTypeID = 0xd0e8075c"

definition ServerDHParamsOk_EncodeBare :: "ServerDHParamsOk \<Rightarrow> buffer \<Rightarrow> buffer" where
  "ServerDHParamsOk_EncodeBare s b =
     (let b = Buffer_PutInt128 (ServerDHParamsOk_Nonce s) b;
          b = Buffer_PutInt128 (ServerDHParamsOk_ServerNonce s) b;
          b = Buffer_PutBytes (ServerDHParamsOk_EncryptedAnswer s) b
      in b)"

definition ServerDHParamsOk_Encode :: "ServerDHParamsOk \<Rightarrow> buffer \<Rightarrow> buffer" where
  "ServerDHParamsOk_Encode s b = ServerDHParamsOk_EncodeBare s (Buffer_PutID ServerDHParamsOkTypeID b)"

definition ServerDHParamsOk_DecodeBare :: "ServerDHParamsOk dec" where
  "ServerDHParamsOk_DecodeBare =
     dec_bind (dec_wrap ''unable to decode server_DH_params_ok#d0e8075c: field nonce'' Buffer_Int128) (\<lambda>v1.
     dec_bind (dec_wrap ''unable to decode server_DH_params_ok#d0e8075c: field server_nonce'' Buffer_Int128) (\<lambda>v2.
     dec_bind (dec_wrap ''unable to decode server_DH_params_ok#d0e8075c: field encrypted_answer'' Buffer_Bytes) (\<lambda>v3.
     dec_return \<lparr>ServerDHParamsOk_Nonce = v1, ServerDHParamsOk_ServerNonce = v2, ServerDHParamsOk_EncryptedAnswer = v3\<rparr>)))"

definition ServerDHParamsOk_Decode :: "ServerDHParamsOk dec" where
  "ServerDHParamsOk_Decode =
     dec_bind (dec_wrap ''unable to decode server_DH_params_ok#d0e8075c'' (Buffer_ConsumeID ServerDHParamsOkTypeID)) (\<lambda>_. ServerDHParamsOk_DecodeBare)"

datatype ServerDHParamsClass = SDH_ServerDHParamsFail "ServerDHParamsFail" | SDH_ServerDHParamsOk "ServerDHParamsOk"

text \<open>\<open>DecodeServerDHParams\<close> chooses the decoder by the identifier it peeks.\<close>

definition DecodeServerDHParams :: "ServerDHParamsClass dec" where
  "DecodeServerDHParams = dec_bind Buffer_PeekID (\<lambda>i.
     if i = ServerDHParamsFailTypeID then dec_bind (dec_wrap ''unable to decode ServerDHParamsClass'' ServerDHParamsFail_Decode) (\<lambda>v. dec_return (SDH_ServerDHParamsFail v))
     else if i = ServerDHParamsOkTypeID then dec_bind (dec_wrap ''unable to decode ServerDHParamsClass'' ServerDHParamsOk_Decode) (\<lambda>v. dec_return (SDH_ServerDHParamsOk v))
     else dec_fail (Wrap ''unable to decode ServerDHParamsClass'' (UnexpectedIDErr i)))"

text \<open>\<open>Encode\<close> of a boxed value is the method of its variant.\<close>

definition ServerDHParamsClass_Encode :: "ServerDHParamsClass \<Rightarrow> buffer \<Rightarrow> buffer" where
  "ServerDHParamsClass_Encode d buf =
     (case d of
        SDH_ServerDHParamsFail v \<Rightarrow> ServerDHParamsFail_Encode v buf
      | SDH_ServerDHParamsOk v \<Rightarrow> ServerDHParamsOk_Encode v buf)"

section \<open>tl\_server\_d\_h\_inner\_data\_gen.go\<close>

record ServerDHInnerData =
  ServerDHInnerData_Nonce :: "bytes"
  ServerDHInnerData_ServerNonce :: "bytes"
  ServerDHInnerData_G :: "int"
  ServerDHInnerData_DhPrime :: "bytes"
  ServerDHInnerData_GA :: "bytes"
  ServerDHInnerData_ServerTime :: "int"

definition ServerDHInnerDataTypeID :: "32 word" where "ServerDHInnerDataTypeID = 0xb5890dba"

definition ServerDHInnerData_EncodeBare :: "ServerDHInnerData \<Rightarrow> buffer \<Rightarrow> buffer" where
  "ServerDHInnerData_EncodeBare s b =
     (let b = Buffer_PutInt128 (ServerDHInnerData_Nonce s) b;
          b = Buffer_PutInt128 (ServerDHInnerData_ServerNonce s) b;
          b = Buffer_PutInt (ServerDHInnerData_G s) b;
          b = Buffer_PutBytes (ServerDHInnerData_DhPrime s) b;
          b = Buffer_PutBytes (ServerDHInnerData_GA s) b;
          b = Buffer_PutInt (ServerDHInnerData_ServerTime s) b
      in b)"

definition ServerDHInnerData_Encode :: "ServerDHInnerData \<Rightarrow> buffer \<Rightarrow> buffer" where
  "ServerDHInnerData_Encode s b = ServerDHInnerData_EncodeBare s (Buffer_PutID ServerDHInnerDataTypeID b)"

definition ServerDHInnerData_DecodeBare :: "ServerDHInnerData dec" where
  "ServerDHInnerData_DecodeBare =
     dec_bind (dec_wrap ''unable to decode server_DH_inner_data#b5890dba: field nonce'' Buffer_Int128) (\<lambda>v1.
     dec_bind (dec_wrap ''unable to decode server_DH_inner_data#b5890dba: field server_nonce'' Buffer_Int128) (\<lambda>v2.
     dec_bind (dec_wrap ''unable to decode server_DH_inner_data#b5890dba: field g'' Buffer_Int) (\<lambda>v3.
     dec_bind (dec_wrap ''unable to decode server_DH_inner_data#b5890dba: field dh_prime'' Buffer_Bytes) (\<lambda>v4.
     dec_bind (dec_wrap ''unable to decode server_DH_inner_data#b5890dba: field g_a'' Buffer_Bytes) (\<lambda>v5.
     dec_bind (dec_wrap ''unable to decode server_DH_inner_data#b5890dba: field server_time'' Buffer_Int) (\<lambda>v6.
     dec_return \<lparr>ServerDHInnerData_Nonce = v1, ServerDHInnerData_ServerNonce = v2, ServerDHInnerData_G = v3, ServerDHInnerData_DhPrime = v4, ServerDHInnerData_GA = v5, ServerDHInnerData_ServerTime = v6\<rparr>))))))"

definition ServerDHInnerData_Decode :: "ServerDHInnerData dec" where
  "ServerDHInnerData_Decode =
     dec_bind (dec_wrap ''unable to decode server_DH_inner_data#b5890dba'' (Buffer_ConsumeID ServerDHInnerDataTypeID)) (\<lambda>_. ServerDHInnerData_DecodeBare)"

section \<open>tl\_client\_d\_h\_inner\_data\_gen.go\<close>

record ClientDHInnerData =
  ClientDHInnerData_Nonce :: "bytes"
  ClientDHInnerData_ServerNonce :: "bytes"
  ClientDHInnerData_RetryID :: "64 word"
  ClientDHInnerData_GB :: "bytes"

definition ClientDHInnerDataTypeID :: "32 word" where "ClientDHInnerDataTypeID = 0x6643b654"

definition ClientDHInnerData_EncodeBare :: "ClientDHInnerData \<Rightarrow> buffer \<Rightarrow> buffer" where
  "ClientDHInnerData_EncodeBare c b =
     (let b = Buffer_PutInt128 (ClientDHInnerData_Nonce c) b;
          b = Buffer_PutInt128 (ClientDHInnerData_ServerNonce c) b;
          b = Buffer_PutLong (ClientDHInnerData_RetryID c) b;
          b = Buffer_PutBytes (ClientDHInnerData_GB c) b
      in b)"

definition ClientDHInnerData_Encode :: "ClientDHInnerData \<Rightarrow> buffer \<Rightarrow> buffer" where
  "ClientDHInnerData_Encode c b = ClientDHInnerData_EncodeBare c (Buffer_PutID ClientDHInnerDataTypeID b)"

definition ClientDHInnerData_DecodeBare :: "ClientDHInnerData dec" where
  "ClientDHInnerData_DecodeBare =
     dec_bind (dec_wrap ''unable to decode client_DH_inner_data#6643b654: field nonce'' Buffer_Int128) (\<lambda>v1.
     dec_bind (dec_wrap ''unable to decode client_DH_inner_data#6643b654: field server_nonce'' Buffer_Int128) (\<lambda>v2.
     dec_bind (dec_wrap ''unable to decode client_DH_inner_data#6643b654: field retry_id'' Buffer_Long) (\<lambda>v3.
     dec_bind (dec_wrap ''unable to decode client_DH_inner_data#6643b654: field g_b'' Buffer_Bytes) (\<lambda>v4.
     dec_return \<lparr>ClientDHInnerData_Nonce = v1, ClientDHInnerData_ServerNonce = v2, ClientDHInnerData_RetryID = v3, ClientDHInnerData_GB = v4\<rparr>))))"

definition ClientDHInnerData_Decode :: "ClientDHInnerData dec" where
  "ClientDHInnerData_Decode =
     dec_bind (dec_wrap ''unable to decode client_DH_inner_data#6643b654'' (Buffer_ConsumeID ClientDHInnerDataTypeID)) (\<lambda>_. ClientDHInnerData_DecodeBare)"

section \<open>tl\_set\_client\_d\_h\_params\_gen.go\<close>

record SetClientDHParamsRequest =
  SetClientDHParamsRequest_Nonce :: "bytes"
  SetClientDHParamsRequest_ServerNonce :: "bytes"
  SetClientDHParamsRequest_EncryptedData :: "bytes"

definition SetClientDHParamsRequestTypeID :: "32 word" where "SetClientDHParamsRequestTypeID = 0xf5045f1f"

definition SetClientDHParamsRequest_EncodeBare :: "SetClientDHParamsRequest \<Rightarrow> buffer \<Rightarrow> buffer" where
  "SetClientDHParamsRequest_EncodeBare s b =
     (let b = Buffer_PutInt128 (SetClientDHParamsRequest_Nonce s) b;
          b = Buffer_PutInt128 (SetClientDHParamsRequest_ServerNonce s) b;
          b = Buffer_PutBytes (SetClientDHParamsRequest_EncryptedData s) b
      in b)"

definition SetClientDHParamsRequest_Encode :: "SetClientDHParamsRequest \<Rightarrow> buffer \<Rightarrow> buffer" where
  "SetClientDHParamsRequest_Encode s b = SetClientDHParamsRequest_EncodeBare s (Buffer_PutID SetClientDHParamsRequestTypeID b)"

definition SetClientDHParamsRequest_DecodeBare :: "SetClientDHParamsRequest dec" where
  "SetClientDHParamsRequest_DecodeBare =
     dec_bind (dec_wrap ''unable to decode set_client_DH_params#f5045f1f: field nonce'' Buffer_Int128) (\<lambda>v1.
     dec_bind (dec_wrap ''unable to decode set_client_DH_params#f5045f1f: field server_nonce'' Buffer_Int128) (\<lambda>v2.
     dec_bind (dec_wrap ''unable to decode set_client_DH_params#f5045f1f: field encrypted_data'' Buffer_Bytes) (\<lambda>v3.
     dec_return \<lparr>SetClientDHParamsRequest_Nonce = v1, SetClientDHParamsRequest_ServerNonce = v2, SetClientDHParamsRequest_EncryptedData = v3\<rparr>)))"

definition SetClientDHParamsRequest_Decode :: "SetClientDHParamsRequest dec" where
  "SetClientDHParamsRequest_Decode =
     dec_bind (dec_wrap ''unable to decode set_client_DH_params#f5045f1f'' (Buffer_ConsumeID SetClientDHParamsRequestTypeID)) (\<lambda>_. SetClientDHParamsRequest_DecodeBare)"

section \<open>tl\_set\_client\_d\_h\_params\_answer\_gen.go\<close>

record DhGenOk =
  DhGenOk_Nonce :: "bytes"
  DhGenOk_ServerNonce :: "bytes"
  DhGenOk_NewNonceHash1 :: "bytes"

definition DhGenOkTypeID :: "32 word" where "DhGenOkTypeID = 0x3bcbf734"

definition DhGenOk_EncodeBare :: "DhGenOk \<Rightarrow> buffer \<Rightarrow> buffer" where
  "DhGenOk_EncodeBare d b =
     (let b = Buffer_PutInt128 (DhGenOk_Nonce d) b;
          b = Buffer_PutInt128 (DhGenOk_ServerNonce d) b;
          b = Buffer_PutInt128 (DhGenOk_NewNonceHash1 d) b
      in b)"

definition DhGenOk_Encode :: "DhGenOk \<Rightarrow> buffer \<Rightarrow> buffer" where
  "DhGenOk_Encode d b = DhGenOk_EncodeBare d (Buffer_PutID DhGenOkTypeID b)"

definition DhGenOk_DecodeBare :: "DhGenOk dec" where
  "DhGenOk_DecodeBare =
     dec_bind (dec_wrap ''unable to decode dh_gen_ok#3bcbf734: field nonce'' Buffer_Int128) (\<lambda>v1.
     dec_bind (dec_wrap ''unable to decode dh_gen_ok#3bcbf734: field server_nonce'' Buffer_Int128) (\<lambda>v2.
     dec_bind (dec_wrap ''unable to decode dh_gen_ok#3bcbf734: field new_nonce_hash1'' Buffer_Int128) (\<lambda>v3.
     dec_return \<lparr>DhGenOk_Nonce = v1, DhGenOk_ServerNonce = v2, DhGenOk_NewNonceHash1 = v3\<rparr>)))"

definition DhGenOk_Decode :: "DhGenOk dec" where
  "DhGenOk_Decode =
     dec_bind (dec_wrap ''unable to decode dh_gen_ok#3bcbf734'' (Buffer_ConsumeID DhGenOkTypeID)) (\<lambda>_. DhGenOk_DecodeBare)"

record DhGenRetry =
  DhGenRetry_Nonce :: "bytes"
  DhGenRetry_ServerNonce :: "bytes"
  DhGenRetry_NewNonceHash2 :: "bytes"

definition DhGenRetryTypeID :: "32 word" where "DhGenRetryTypeID = 0x46dc1fb9"

definition DhGenRetry_EncodeBare :: "DhGenRetry \<Rightarrow> buffer \<Rightarrow> buffer" where
  "DhGenRetry_EncodeBare d b =
     (let b = Buffer_PutInt128 (DhGenRetry_Nonce d) b;
          b = Buffer_PutInt128 (DhGenRetry_ServerNonce d) b;
          b = Buffer_PutInt128 (DhGenRetry_NewNonceHash2 d) b
      in b)"

definition DhGenRetry_Encode :: "DhGenRetry \<Rightarrow> buffer \<Rightarrow> buffer" where
  "DhGenRetry_Encode d b = DhGenRetry_EncodeBare d (Buffer_PutID DhGenRetryTypeID b)"

definition DhGenRetry_DecodeBare :: "DhGenRetry dec" where
  "DhGenRetry_DecodeBare =
     dec_bind (dec_wrap ''unable to decode dh_gen_retry#46dc1fb9: field nonce'' Buffer_Int128) (\<lambda>v1.
     dec_bind (dec_wrap ''unable to decode dh_gen_retry#46dc1fb9: field server_nonce'' Buffer_Int128) (\<lambda>v2.
     dec_bind (dec_wrap ''unable to decode dh_gen_retry#46dc1fb9: field new_nonce_hash2'' Buffer_Int128) (\<lambda>v3.
     dec_return \<lparr>DhGenRetry_Nonce = v1, DhGenRetry_ServerNonce = v2, DhGenRetry_NewNonceHash2 = v3\<rparr>)))"

definition DhGenRetry_Decode :: "DhGenRetry dec" where
  "DhGenRetry_Decode =
     dec_bind (dec_wrap ''unable to decode dh_gen_retry#46dc1fb9'' (Buffer_ConsumeID DhGenRetryTypeID)) (\<lambda>_. DhGenRetry_DecodeBare)"

record DhGenFail =
  DhGenFail_Nonce :: "bytes"
  DhGenFail_ServerNonce :: "bytes"
  DhGenFail_NewNonceHash3 :: "bytes"

definition DhGenFailTypeID :: "32 word" where "DhGenFailTypeID = 0xa69dae02"

definition DhGenFail_EncodeBare :: "DhGenFail \<Rightarrow> buffer \<Rightarrow> buffer" where
  "DhGenFail_EncodeBare d b =
     (let b = Buffer_PutInt128 (DhGenFail_Nonce d) b;
          b = Buffer_PutInt128 (DhGenFail_ServerNonce d) b;
          b = Buffer_PutInt128 (DhGenFail_NewNonceHash3 d) b
      in b)"

definition DhGenFail_Encode :: "DhGenFail \<Rightarrow> buffer \<Rightarrow> buffer" where
  "DhGenFail_Encode d b = DhGenFail_EncodeBare d (Buffer_PutID DhGenFailTypeID b)"

definition DhGenFail_DecodeBare :: "DhGenFail dec" where
  "DhGenFail_DecodeBare =
     dec_bind (dec_wrap ''unable to decode dh_gen_fail#a69dae02: field nonce'' Buffer_Int128) (\<lambda>v1.
     dec_bind (dec_wrap ''unable to decode dh_gen_fail#a69dae02: field server_nonce'' Buffer_Int128) (\<lambda>v2.
     dec_bind (dec_wrap ''unable to decode dh_gen_fail#a69dae02: field new_nonce_hash3'' Buffer_Int128) (\<lambda>v3.
     dec_return \<lparr>DhGenFail_Nonce = v1, DhGenFail_ServerNonce = v2, DhGenFail_NewNonceHash3 = v3\<rparr>)))"

definition DhGenFail_Decode :: "DhGenFail dec" where
  "DhGenFail_Decode =
     dec_bind (dec_wrap ''unable to decode dh_gen_fail#a69dae02'' (Buffer_ConsumeID DhGenFailTypeID)) (\<lambda>_. DhGenFail_DecodeBare)"

datatype SetClientDHParamsAnswerClass = SCA_DhGenOk "DhGenOk" | SCA_DhGenRetry "DhGenRetry" | SCA_DhGenFail "DhGenFail"

text \<open>\<open>DecodeSetClientDHParamsAnswer\<close> chooses the decoder by the identifier it peeks.\<close>

definition DecodeSetClientDHParamsAnswer :: "SetClientDHParamsAnswerClass dec" where
  "DecodeSetClientDHParamsAnswer = dec_bind Buffer_PeekID (\<lambda>i.
     if i = DhGenOkTypeID then dec_bind (dec_wrap ''unable to decode SetClientDHParamsAnswerClass'' DhGenOk_Decode) (\<lambda>v. dec_return (SCA_DhGenOk v))
     else if i = DhGenRetryTypeID then dec_bind (dec_wrap ''unable to decode SetClientDHParamsAnswerClass'' DhGenRetry_Decode) (\<lambda>v. dec_return (SCA_DhGenRetry v))
     else if i = DhGenFailTypeID then dec_bind (dec_wrap ''unable to decode SetClientDHParamsAnswerClass'' DhGenFail_Decode) (\<lambda>v. dec_return (SCA_DhGenFail v))
     else dec_fail (Wrap ''unable to decode SetClientDHParamsAnswerClass'' (UnexpectedIDErr i)))"

text \<open>\<open>Encode\<close> of a boxed value is the method of its variant.\<close>

definition SetClientDHParamsAnswerClass_Encode :: "SetClientDHParamsAnswerClass \<Rightarrow> buffer \<Rightarrow> buffer" where
  "SetClientDHParamsAnswerClass_Encode d buf =
     (case d of
        SCA_DhGenOk v \<Rightarrow> DhGenOk_Encode v buf
      | SCA_DhGenRetry v \<Rightarrow> DhGenRetry_Encode v buf
      | SCA_DhGenFail v \<Rightarrow> DhGenFail_Encode v buf)"

section \<open>Every type is a field type\<close>

text \<open>
  The values the methods are meant for, and the interpretation of the contract of the wire format
  for each type: encoding appends whole words, and decoding returns the value and what follows.
\<close>

definition ReqPqRequest_ok :: "ReqPqRequest \<Rightarrow> bool" where
  "ReqPqRequest_ok r \<longleftrightarrow> length (ReqPqRequest_Nonce r) = 16"

definition ReqPqMultiRequest_ok :: "ReqPqMultiRequest \<Rightarrow> bool" where
  "ReqPqMultiRequest_ok r \<longleftrightarrow> length (ReqPqMultiRequest_Nonce r) = 16"

definition ResPQ_ok :: "ResPQ \<Rightarrow> bool" where
  "ResPQ_ok r \<longleftrightarrow> length (ResPQ_Nonce r) = 16
     \<and> length (ResPQ_ServerNonce r) = 16
     \<and> length (ResPQ_Pq r) \<le> maxLongStringLength
     \<and> length (ResPQ_ServerPublicKeyFingerprints r) < 2 ^ 31"

definition PQInnerData_ok :: "PQInnerData \<Rightarrow> bool" where
  "PQInnerData_ok r \<longleftrightarrow> length (PQInnerData_Pq r) \<le> maxLongStringLength
     \<and> length (PQInnerData_P r) \<le> maxLongStringLength
     \<and> length (PQInnerData_Q r) \<le> maxLongStringLength
     \<and> length (PQInnerData_Nonce r) = 16
     \<and> length (PQInnerData_ServerNonce r) = 16
     \<and> length (PQInnerData_NewNonce r) = 32"

definition PQInnerDataDC_ok :: "PQInnerDataDC \<Rightarrow> bool" where
  "PQInnerDataDC_ok r \<longleftrightarrow> length (PQInnerDataDC_Pq r) \<le> maxLongStringLength
     \<and> length (PQInnerDataDC_P r) \<le> maxLongStringLength
     \<and> length (PQInnerDataDC_Q r) \<le> maxLongStringLength
     \<and> length (PQInnerDataDC_Nonce r) = 16
     \<and> length (PQInnerDataDC_ServerNonce r) = 16
     \<and> length (PQInnerDataDC_NewNonce r) = 32
     \<and> is_int32 (PQInnerDataDC_DC r)"

definition PQInnerDataTempDC_ok :: "PQInnerDataTempDC \<Rightarrow> bool" where
  "PQInnerDataTempDC_ok r \<longleftrightarrow> length (PQInnerDataTempDC_Pq r) \<le> maxLongStringLength
     \<and> length (PQInnerDataTempDC_P r) \<le> maxLongStringLength
     \<and> length (PQInnerDataTempDC_Q r) \<le> maxLongStringLength
     \<and> length (PQInnerDataTempDC_Nonce r) = 16
     \<and> length (PQInnerDataTempDC_ServerNonce r) = 16
     \<and> length (PQInnerDataTempDC_NewNonce r) = 32
     \<and> is_int32 (PQInnerDataTempDC_DC r)
     \<and> is_int32 (PQInnerDataTempDC_ExpiresIn r)"

definition ReqDHParamsRequest_ok :: "ReqDHParamsRequest \<Rightarrow> bool" where
  "ReqDHParamsRequest_ok r \<longleftrightarrow> length (ReqDHParamsRequest_Nonce r) = 16
     \<and> length (ReqDHParamsRequest_ServerNonce r) = 16
     \<and> length (ReqDHParamsRequest_P r) \<le> maxLongStringLength
     \<and> length (ReqDHParamsRequest_Q r) \<le> maxLongStringLength
     \<and> length (ReqDHParamsRequest_EncryptedData r) \<le> maxLongStringLength"

definition ServerDHParamsFail_ok :: "ServerDHParamsFail \<Rightarrow> bool" where
  "ServerDHParamsFail_ok r \<longleftrightarrow> length (ServerDHParamsFail_Nonce r) = 16
     \<and> length (ServerDHParamsFail_ServerNonce r) = 16
     \<and> length (ServerDHParamsFail_NewNonceHash r) = 16"

definition ServerDHParamsOk_ok :: "ServerDHParamsOk \<Rightarrow> bool" where
  "ServerDHParamsOk_ok r \<longleftrightarrow> length (ServerDHParamsOk_Nonce r) = 16
     \<and> length (ServerDHParamsOk_ServerNonce r) = 16
     \<and> length (ServerDHParamsOk_EncryptedAnswer r) \<le> maxLongStringLength"

definition ServerDHInnerData_ok :: "ServerDHInnerData \<Rightarrow> bool" where
  "ServerDHInnerData_ok r \<longleftrightarrow> length (ServerDHInnerData_Nonce r) = 16
     \<and> length (ServerDHInnerData_ServerNonce r) = 16
     \<and> is_int32 (ServerDHInnerData_G r)
     \<and> length (ServerDHInnerData_DhPrime r) \<le> maxLongStringLength
     \<and> length (ServerDHInnerData_GA r) \<le> maxLongStringLength
     \<and> is_int32 (ServerDHInnerData_ServerTime r)"

definition ClientDHInnerData_ok :: "ClientDHInnerData \<Rightarrow> bool" where
  "ClientDHInnerData_ok r \<longleftrightarrow> length (ClientDHInnerData_Nonce r) = 16
     \<and> length (ClientDHInnerData_ServerNonce r) = 16
     \<and> length (ClientDHInnerData_GB r) \<le> maxLongStringLength"

definition SetClientDHParamsRequest_ok :: "SetClientDHParamsRequest \<Rightarrow> bool" where
  "SetClientDHParamsRequest_ok r \<longleftrightarrow> length (SetClientDHParamsRequest_Nonce r) = 16
     \<and> length (SetClientDHParamsRequest_ServerNonce r) = 16
     \<and> length (SetClientDHParamsRequest_EncryptedData r) \<le> maxLongStringLength"

definition DhGenOk_ok :: "DhGenOk \<Rightarrow> bool" where
  "DhGenOk_ok r \<longleftrightarrow> length (DhGenOk_Nonce r) = 16
     \<and> length (DhGenOk_ServerNonce r) = 16
     \<and> length (DhGenOk_NewNonceHash1 r) = 16"

definition DhGenRetry_ok :: "DhGenRetry \<Rightarrow> bool" where
  "DhGenRetry_ok r \<longleftrightarrow> length (DhGenRetry_Nonce r) = 16
     \<and> length (DhGenRetry_ServerNonce r) = 16
     \<and> length (DhGenRetry_NewNonceHash2 r) = 16"

definition DhGenFail_ok :: "DhGenFail \<Rightarrow> bool" where
  "DhGenFail_ok r \<longleftrightarrow> length (DhGenFail_Nonce r) = 16
     \<and> length (DhGenFail_ServerNonce r) = 16
     \<and> length (DhGenFail_NewNonceHash3 r) = 16"

lemma ReqPqRequest_typed: "ReqPqRequest_Decode b = (Inr v, rest) \<Longrightarrow> ReqPqRequest_ok v"
  by (auto simp: ReqPqRequest_Decode_def ReqPqRequest_DecodeBare_def ReqPqRequest_ok_def dec_return_def elim!: dec_bind_InrE dec_wrap_InrE dest!: typed_fields)

interpretation t_ReqPqRequest: tl_typed ReqPqRequest_Encode ReqPqRequest_Decode ReqPqRequest_ok
  by (unfold_locales; (rule ReqPqRequest_typed, assumption)?;
      simp add: ReqPqRequest_ok_def ReqPqRequest_Decode_def ReqPqRequest_Encode_def ReqPqRequest_DecodeBare_def ReqPqRequest_EncodeBare_def tl_simps consumes_intros)

lemma ReqPqMultiRequest_typed: "ReqPqMultiRequest_Decode b = (Inr v, rest) \<Longrightarrow> ReqPqMultiRequest_ok v"
  by (auto simp: ReqPqMultiRequest_Decode_def ReqPqMultiRequest_DecodeBare_def ReqPqMultiRequest_ok_def dec_return_def elim!: dec_bind_InrE dec_wrap_InrE dest!: typed_fields)

interpretation t_ReqPqMultiRequest: tl_typed ReqPqMultiRequest_Encode ReqPqMultiRequest_Decode ReqPqMultiRequest_ok
  by (unfold_locales; (rule ReqPqMultiRequest_typed, assumption)?;
      simp add: ReqPqMultiRequest_ok_def ReqPqMultiRequest_Decode_def ReqPqMultiRequest_Encode_def ReqPqMultiRequest_DecodeBare_def ReqPqMultiRequest_EncodeBare_def tl_simps consumes_intros)

lemma ResPQ_typed: "ResPQ_Decode b = (Inr v, rest) \<Longrightarrow> ResPQ_ok v"
  by (auto simp: ResPQ_Decode_def ResPQ_DecodeBare_def ResPQ_ok_def dec_return_def elim!: dec_bind_InrE dec_wrap_InrE dest!: typed_fields)

interpretation t_ResPQ: tl_typed ResPQ_Encode ResPQ_Decode ResPQ_ok
  by (unfold_locales; (rule ResPQ_typed, assumption)?;
      simp add: ResPQ_ok_def ResPQ_Decode_def ResPQ_Encode_def ResPQ_DecodeBare_def ResPQ_EncodeBare_def tl_simps consumes_intros)

lemma PQInnerData_typed: "PQInnerData_Decode b = (Inr v, rest) \<Longrightarrow> PQInnerData_ok v"
  by (auto simp: PQInnerData_Decode_def PQInnerData_DecodeBare_def PQInnerData_ok_def dec_return_def elim!: dec_bind_InrE dec_wrap_InrE dest!: typed_fields)

interpretation t_PQInnerData: tl_typed PQInnerData_Encode PQInnerData_Decode PQInnerData_ok
  by (unfold_locales; (rule PQInnerData_typed, assumption)?;
      simp add: PQInnerData_ok_def PQInnerData_Decode_def PQInnerData_Encode_def PQInnerData_DecodeBare_def PQInnerData_EncodeBare_def tl_simps consumes_intros)

lemma PQInnerDataDC_typed: "PQInnerDataDC_Decode b = (Inr v, rest) \<Longrightarrow> PQInnerDataDC_ok v"
  by (auto simp: PQInnerDataDC_Decode_def PQInnerDataDC_DecodeBare_def PQInnerDataDC_ok_def dec_return_def elim!: dec_bind_InrE dec_wrap_InrE dest!: typed_fields)

interpretation t_PQInnerDataDC: tl_typed PQInnerDataDC_Encode PQInnerDataDC_Decode PQInnerDataDC_ok
  by (unfold_locales; (rule PQInnerDataDC_typed, assumption)?;
      simp add: PQInnerDataDC_ok_def PQInnerDataDC_Decode_def PQInnerDataDC_Encode_def PQInnerDataDC_DecodeBare_def PQInnerDataDC_EncodeBare_def tl_simps consumes_intros)

lemma PQInnerDataTempDC_typed: "PQInnerDataTempDC_Decode b = (Inr v, rest) \<Longrightarrow> PQInnerDataTempDC_ok v"
  by (auto simp: PQInnerDataTempDC_Decode_def PQInnerDataTempDC_DecodeBare_def PQInnerDataTempDC_ok_def dec_return_def elim!: dec_bind_InrE dec_wrap_InrE dest!: typed_fields)

interpretation t_PQInnerDataTempDC: tl_typed PQInnerDataTempDC_Encode PQInnerDataTempDC_Decode PQInnerDataTempDC_ok
  by (unfold_locales; (rule PQInnerDataTempDC_typed, assumption)?;
      simp add: PQInnerDataTempDC_ok_def PQInnerDataTempDC_Decode_def PQInnerDataTempDC_Encode_def PQInnerDataTempDC_DecodeBare_def PQInnerDataTempDC_EncodeBare_def tl_simps consumes_intros)

lemma ReqDHParamsRequest_typed: "ReqDHParamsRequest_Decode b = (Inr v, rest) \<Longrightarrow> ReqDHParamsRequest_ok v"
  by (auto simp: ReqDHParamsRequest_Decode_def ReqDHParamsRequest_DecodeBare_def ReqDHParamsRequest_ok_def dec_return_def elim!: dec_bind_InrE dec_wrap_InrE dest!: typed_fields)

interpretation t_ReqDHParamsRequest: tl_typed ReqDHParamsRequest_Encode ReqDHParamsRequest_Decode ReqDHParamsRequest_ok
  by (unfold_locales; (rule ReqDHParamsRequest_typed, assumption)?;
      simp add: ReqDHParamsRequest_ok_def ReqDHParamsRequest_Decode_def ReqDHParamsRequest_Encode_def ReqDHParamsRequest_DecodeBare_def ReqDHParamsRequest_EncodeBare_def tl_simps consumes_intros)

lemma ServerDHParamsFail_typed: "ServerDHParamsFail_Decode b = (Inr v, rest) \<Longrightarrow> ServerDHParamsFail_ok v"
  by (auto simp: ServerDHParamsFail_Decode_def ServerDHParamsFail_DecodeBare_def ServerDHParamsFail_ok_def dec_return_def elim!: dec_bind_InrE dec_wrap_InrE dest!: typed_fields)

interpretation t_ServerDHParamsFail: tl_typed ServerDHParamsFail_Encode ServerDHParamsFail_Decode ServerDHParamsFail_ok
  by (unfold_locales; (rule ServerDHParamsFail_typed, assumption)?;
      simp add: ServerDHParamsFail_ok_def ServerDHParamsFail_Decode_def ServerDHParamsFail_Encode_def ServerDHParamsFail_DecodeBare_def ServerDHParamsFail_EncodeBare_def tl_simps consumes_intros)

lemma ServerDHParamsOk_typed: "ServerDHParamsOk_Decode b = (Inr v, rest) \<Longrightarrow> ServerDHParamsOk_ok v"
  by (auto simp: ServerDHParamsOk_Decode_def ServerDHParamsOk_DecodeBare_def ServerDHParamsOk_ok_def dec_return_def elim!: dec_bind_InrE dec_wrap_InrE dest!: typed_fields)

interpretation t_ServerDHParamsOk: tl_typed ServerDHParamsOk_Encode ServerDHParamsOk_Decode ServerDHParamsOk_ok
  by (unfold_locales; (rule ServerDHParamsOk_typed, assumption)?;
      simp add: ServerDHParamsOk_ok_def ServerDHParamsOk_Decode_def ServerDHParamsOk_Encode_def ServerDHParamsOk_DecodeBare_def ServerDHParamsOk_EncodeBare_def tl_simps consumes_intros)

lemma ServerDHInnerData_typed: "ServerDHInnerData_Decode b = (Inr v, rest) \<Longrightarrow> ServerDHInnerData_ok v"
  by (auto simp: ServerDHInnerData_Decode_def ServerDHInnerData_DecodeBare_def ServerDHInnerData_ok_def dec_return_def elim!: dec_bind_InrE dec_wrap_InrE dest!: typed_fields)

interpretation t_ServerDHInnerData: tl_typed ServerDHInnerData_Encode ServerDHInnerData_Decode ServerDHInnerData_ok
  by (unfold_locales; (rule ServerDHInnerData_typed, assumption)?;
      simp add: ServerDHInnerData_ok_def ServerDHInnerData_Decode_def ServerDHInnerData_Encode_def ServerDHInnerData_DecodeBare_def ServerDHInnerData_EncodeBare_def tl_simps consumes_intros)

lemma ClientDHInnerData_typed: "ClientDHInnerData_Decode b = (Inr v, rest) \<Longrightarrow> ClientDHInnerData_ok v"
  by (auto simp: ClientDHInnerData_Decode_def ClientDHInnerData_DecodeBare_def ClientDHInnerData_ok_def dec_return_def elim!: dec_bind_InrE dec_wrap_InrE dest!: typed_fields)

interpretation t_ClientDHInnerData: tl_typed ClientDHInnerData_Encode ClientDHInnerData_Decode ClientDHInnerData_ok
  by (unfold_locales; (rule ClientDHInnerData_typed, assumption)?;
      simp add: ClientDHInnerData_ok_def ClientDHInnerData_Decode_def ClientDHInnerData_Encode_def ClientDHInnerData_DecodeBare_def ClientDHInnerData_EncodeBare_def tl_simps consumes_intros)

lemma SetClientDHParamsRequest_typed: "SetClientDHParamsRequest_Decode b = (Inr v, rest) \<Longrightarrow> SetClientDHParamsRequest_ok v"
  by (auto simp: SetClientDHParamsRequest_Decode_def SetClientDHParamsRequest_DecodeBare_def SetClientDHParamsRequest_ok_def dec_return_def elim!: dec_bind_InrE dec_wrap_InrE dest!: typed_fields)

interpretation t_SetClientDHParamsRequest: tl_typed SetClientDHParamsRequest_Encode SetClientDHParamsRequest_Decode SetClientDHParamsRequest_ok
  by (unfold_locales; (rule SetClientDHParamsRequest_typed, assumption)?;
      simp add: SetClientDHParamsRequest_ok_def SetClientDHParamsRequest_Decode_def SetClientDHParamsRequest_Encode_def SetClientDHParamsRequest_DecodeBare_def SetClientDHParamsRequest_EncodeBare_def tl_simps consumes_intros)

lemma DhGenOk_typed: "DhGenOk_Decode b = (Inr v, rest) \<Longrightarrow> DhGenOk_ok v"
  by (auto simp: DhGenOk_Decode_def DhGenOk_DecodeBare_def DhGenOk_ok_def dec_return_def elim!: dec_bind_InrE dec_wrap_InrE dest!: typed_fields)

interpretation t_DhGenOk: tl_typed DhGenOk_Encode DhGenOk_Decode DhGenOk_ok
  by (unfold_locales; (rule DhGenOk_typed, assumption)?;
      simp add: DhGenOk_ok_def DhGenOk_Decode_def DhGenOk_Encode_def DhGenOk_DecodeBare_def DhGenOk_EncodeBare_def tl_simps consumes_intros)

lemma DhGenRetry_typed: "DhGenRetry_Decode b = (Inr v, rest) \<Longrightarrow> DhGenRetry_ok v"
  by (auto simp: DhGenRetry_Decode_def DhGenRetry_DecodeBare_def DhGenRetry_ok_def dec_return_def elim!: dec_bind_InrE dec_wrap_InrE dest!: typed_fields)

interpretation t_DhGenRetry: tl_typed DhGenRetry_Encode DhGenRetry_Decode DhGenRetry_ok
  by (unfold_locales; (rule DhGenRetry_typed, assumption)?;
      simp add: DhGenRetry_ok_def DhGenRetry_Decode_def DhGenRetry_Encode_def DhGenRetry_DecodeBare_def DhGenRetry_EncodeBare_def tl_simps consumes_intros)

lemma DhGenFail_typed: "DhGenFail_Decode b = (Inr v, rest) \<Longrightarrow> DhGenFail_ok v"
  by (auto simp: DhGenFail_Decode_def DhGenFail_DecodeBare_def DhGenFail_ok_def dec_return_def elim!: dec_bind_InrE dec_wrap_InrE dest!: typed_fields)

interpretation t_DhGenFail: tl_typed DhGenFail_Encode DhGenFail_Decode DhGenFail_ok
  by (unfold_locales; (rule DhGenFail_typed, assumption)?;
      simp add: DhGenFail_ok_def DhGenFail_Decode_def DhGenFail_Encode_def DhGenFail_DecodeBare_def DhGenFail_EncodeBare_def tl_simps consumes_intros)

definition PQInnerDataClass_ok :: "PQInnerDataClass \<Rightarrow> bool" where
  "PQInnerDataClass_ok d \<longleftrightarrow> (case d of PQ_PQInnerData v \<Rightarrow> PQInnerData_ok v | PQ_PQInnerDataDC v \<Rightarrow> PQInnerDataDC_ok v | PQ_PQInnerDataTempDC v \<Rightarrow> PQInnerDataTempDC_ok v)"

definition ServerDHParamsClass_ok :: "ServerDHParamsClass \<Rightarrow> bool" where
  "ServerDHParamsClass_ok d \<longleftrightarrow> (case d of SDH_ServerDHParamsFail v \<Rightarrow> ServerDHParamsFail_ok v | SDH_ServerDHParamsOk v \<Rightarrow> ServerDHParamsOk_ok v)"

definition SetClientDHParamsAnswerClass_ok :: "SetClientDHParamsAnswerClass \<Rightarrow> bool" where
  "SetClientDHParamsAnswerClass_ok d \<longleftrightarrow> (case d of SCA_DhGenOk v \<Rightarrow> DhGenOk_ok v | SCA_DhGenRetry v \<Rightarrow> DhGenRetry_ok v | SCA_DhGenFail v \<Rightarrow> DhGenFail_ok v)"

section \<open>Class decoders\<close>

lemmas class_simps = tl_simps PeekID_app PQInnerDataTypeID_def PQInnerDataDCTypeID_def PQInnerDataTempDCTypeID_def
  ServerDHParamsFailTypeID_def ServerDHParamsOkTypeID_def DhGenOkTypeID_def DhGenRetryTypeID_def DhGenFailTypeID_def

lemma DecodePQInnerData_app:
  "PQInnerData_ok a \<Longrightarrow> DecodePQInnerData (PQInnerData_Encode a [] @ rest) = (Inr (PQ_PQInnerData a), rest)"
  "PQInnerDataDC_ok d \<Longrightarrow> DecodePQInnerData (PQInnerDataDC_Encode d [] @ rest) = (Inr (PQ_PQInnerDataDC d), rest)"
  "PQInnerDataTempDC_ok t \<Longrightarrow> DecodePQInnerData (PQInnerDataTempDC_Encode t [] @ rest) = (Inr (PQ_PQInnerDataTempDC t), rest)"
  using t_PQInnerData.get_put[of a rest] t_PQInnerDataDC.get_put[of d rest] t_PQInnerDataTempDC.get_put[of t rest]
  by (simp_all add: class_simps DecodePQInnerData_def PQInnerData_Encode_def PQInnerDataDC_Encode_def PQInnerDataTempDC_Encode_def
      PQInnerData_EncodeBare_def PQInnerDataDC_EncodeBare_def PQInnerDataTempDC_EncodeBare_def)

lemma DecodeServerDHParams_app:
  "ServerDHParamsFail_ok f \<Longrightarrow> DecodeServerDHParams (ServerDHParamsFail_Encode f [] @ rest) = (Inr (SDH_ServerDHParamsFail f), rest)"
  "ServerDHParamsOk_ok k \<Longrightarrow> DecodeServerDHParams (ServerDHParamsOk_Encode k [] @ rest) = (Inr (SDH_ServerDHParamsOk k), rest)"
  using t_ServerDHParamsFail.get_put[of f rest] t_ServerDHParamsOk.get_put[of k rest]
  by (simp_all add: class_simps DecodeServerDHParams_def ServerDHParamsFail_Encode_def ServerDHParamsOk_Encode_def
      ServerDHParamsFail_EncodeBare_def ServerDHParamsOk_EncodeBare_def)

lemma DecodeSetClientDHParamsAnswer_app:
  "DhGenOk_ok k \<Longrightarrow> DecodeSetClientDHParamsAnswer (DhGenOk_Encode k [] @ rest) = (Inr (SCA_DhGenOk k), rest)"
  "DhGenRetry_ok y \<Longrightarrow> DecodeSetClientDHParamsAnswer (DhGenRetry_Encode y [] @ rest) = (Inr (SCA_DhGenRetry y), rest)"
  "DhGenFail_ok f \<Longrightarrow> DecodeSetClientDHParamsAnswer (DhGenFail_Encode f [] @ rest) = (Inr (SCA_DhGenFail f), rest)"
  using t_DhGenOk.get_put[of k rest] t_DhGenRetry.get_put[of y rest] t_DhGenFail.get_put[of f rest]
  by (simp_all add: class_simps DecodeSetClientDHParamsAnswer_def DhGenOk_Encode_def DhGenRetry_Encode_def DhGenFail_Encode_def
      DhGenOk_EncodeBare_def DhGenRetry_EncodeBare_def DhGenFail_EncodeBare_def)

lemma PQInnerDataClass_typed: "DecodePQInnerData b = (Inr d, rest) \<Longrightarrow> PQInnerDataClass_ok d"
  by (auto simp: DecodePQInnerData_def PQInnerDataClass_ok_def dec_return_def dec_fail_def elim!: dec_bind_InrE dec_wrap_InrE split: if_splits)
    (erule PQInnerData_typed | erule PQInnerDataDC_typed | erule PQInnerDataTempDC_typed)+

interpretation t_PQInnerDataClass: tl_typed PQInnerDataClass_Encode DecodePQInnerData PQInnerDataClass_ok
proof
  show "PQInnerDataClass_Encode v b = b @ PQInnerDataClass_Encode v []" for v b
    using t_PQInnerData.put_append[of _ b] t_PQInnerDataDC.put_append[of _ b] t_PQInnerDataTempDC.put_append[of _ b] by (cases v) (simp_all add: PQInnerDataClass_Encode_def)
  show "PQInnerDataClass_ok v \<Longrightarrow> 4 dvd length (PQInnerDataClass_Encode v [])" for v
    by (cases v) (simp_all add: PQInnerDataClass_Encode_def PQInnerDataClass_ok_def t_PQInnerData.put_aligned t_PQInnerDataDC.put_aligned t_PQInnerDataTempDC.put_aligned)
  show "PQInnerDataClass_ok v \<Longrightarrow> DecodePQInnerData (PQInnerDataClass_Encode v [] @ rest) = (Inr v, rest)" for v rest
    by (cases v) (simp_all add: PQInnerDataClass_Encode_def PQInnerDataClass_ok_def DecodePQInnerData_app)
  show "consumes DecodePQInnerData" unfolding DecodePQInnerData_def
    by (intro consumes_intros t_PQInnerData.get_consumes t_PQInnerDataDC.get_consumes t_PQInnerDataTempDC.get_consumes)
qed (rule PQInnerDataClass_typed)

lemma ServerDHParamsClass_typed: "DecodeServerDHParams b = (Inr d, rest) \<Longrightarrow> ServerDHParamsClass_ok d"
  by (auto simp: DecodeServerDHParams_def ServerDHParamsClass_ok_def dec_return_def dec_fail_def elim!: dec_bind_InrE dec_wrap_InrE split: if_splits)
    (erule ServerDHParamsFail_typed | erule ServerDHParamsOk_typed)+

interpretation t_ServerDHParamsClass: tl_typed ServerDHParamsClass_Encode DecodeServerDHParams ServerDHParamsClass_ok
proof
  show "ServerDHParamsClass_Encode v b = b @ ServerDHParamsClass_Encode v []" for v b
    using t_ServerDHParamsFail.put_append[of _ b] t_ServerDHParamsOk.put_append[of _ b] by (cases v) (simp_all add: ServerDHParamsClass_Encode_def)
  show "ServerDHParamsClass_ok v \<Longrightarrow> 4 dvd length (ServerDHParamsClass_Encode v [])" for v
    by (cases v) (simp_all add: ServerDHParamsClass_Encode_def ServerDHParamsClass_ok_def t_ServerDHParamsFail.put_aligned t_ServerDHParamsOk.put_aligned)
  show "ServerDHParamsClass_ok v \<Longrightarrow> DecodeServerDHParams (ServerDHParamsClass_Encode v [] @ rest) = (Inr v, rest)" for v rest
    by (cases v) (simp_all add: ServerDHParamsClass_Encode_def ServerDHParamsClass_ok_def DecodeServerDHParams_app)
  show "consumes DecodeServerDHParams" unfolding DecodeServerDHParams_def
    by (intro consumes_intros t_ServerDHParamsFail.get_consumes t_ServerDHParamsOk.get_consumes)
qed (rule ServerDHParamsClass_typed)

lemma SetClientDHParamsAnswerClass_typed: "DecodeSetClientDHParamsAnswer b = (Inr d, rest) \<Longrightarrow> SetClientDHParamsAnswerClass_ok d"
  by (auto simp: DecodeSetClientDHParamsAnswer_def SetClientDHParamsAnswerClass_ok_def dec_return_def dec_fail_def elim!: dec_bind_InrE dec_wrap_InrE split: if_splits)
    (erule DhGenOk_typed | erule DhGenRetry_typed | erule DhGenFail_typed)+

interpretation t_SetClientDHParamsAnswerClass: tl_typed SetClientDHParamsAnswerClass_Encode DecodeSetClientDHParamsAnswer SetClientDHParamsAnswerClass_ok
proof
  show "SetClientDHParamsAnswerClass_Encode v b = b @ SetClientDHParamsAnswerClass_Encode v []" for v b
    using t_DhGenOk.put_append[of _ b] t_DhGenRetry.put_append[of _ b] t_DhGenFail.put_append[of _ b] by (cases v) (simp_all add: SetClientDHParamsAnswerClass_Encode_def)
  show "SetClientDHParamsAnswerClass_ok v \<Longrightarrow> 4 dvd length (SetClientDHParamsAnswerClass_Encode v [])" for v
    by (cases v) (simp_all add: SetClientDHParamsAnswerClass_Encode_def SetClientDHParamsAnswerClass_ok_def t_DhGenOk.put_aligned t_DhGenRetry.put_aligned t_DhGenFail.put_aligned)
  show "SetClientDHParamsAnswerClass_ok v \<Longrightarrow> DecodeSetClientDHParamsAnswer (SetClientDHParamsAnswerClass_Encode v [] @ rest) = (Inr v, rest)" for v rest
    by (cases v) (simp_all add: SetClientDHParamsAnswerClass_Encode_def SetClientDHParamsAnswerClass_ok_def DecodeSetClientDHParamsAnswer_app)
  show "consumes DecodeSetClientDHParamsAnswer" unfolding DecodeSetClientDHParamsAnswer_def
    by (intro consumes_intros t_DhGenOk.get_consumes t_DhGenRetry.get_consumes t_DhGenFail.get_consumes)
qed (rule SetClientDHParamsAnswerClass_typed)

section \<open>Properties\<close>

text \<open>
  C34. Decoding a class of the key exchange is type-safe. Whatever bytes arrive, a value that one of the class
  decoders returns has fields of their declared types: 16 and 32 bytes for the nonces and
  hashes, 32 bits for an \<open>int\<close>, a representable length for a string. So the value can be encoded
  by the method of its variant, and the decoder finds the same variant again.
\<close>

theorem class_values_typed:
  "(DecodePQInnerData b = (Inr d, rest) \<longrightarrow>
      PQInnerDataClass_ok d \<and> DecodePQInnerData (PQInnerDataClass_Encode d [] @ rest') = (Inr d, rest'))
   \<and> (DecodeServerDHParams b = (Inr e, rest) \<longrightarrow>
      ServerDHParamsClass_ok e \<and> DecodeServerDHParams (ServerDHParamsClass_Encode e [] @ rest') = (Inr e, rest'))
   \<and> (DecodeSetClientDHParamsAnswer b = (Inr f, rest) \<longrightarrow>
      SetClientDHParamsAnswerClass_ok f \<and> DecodeSetClientDHParamsAnswer (SetClientDHParamsAnswerClass_Encode f [] @ rest') = (Inr f, rest'))"
  by (intro conjI impI)
    (erule t_PQInnerDataClass.get_ok t_PQInnerDataClass.reencode t_ServerDHParamsClass.get_ok t_ServerDHParamsClass.reencode
      t_SetClientDHParamsAnswerClass.get_ok t_SetClientDHParamsAnswerClass.reencode)+

theorem class_values_typed_witness:
  "\<exists>d. DecodeSetClientDHParamsAnswer (DhGenFail_Encode \<lparr>DhGenFail_Nonce = replicate 16 1, DhGenFail_ServerNonce = replicate 16 2,
       DhGenFail_NewNonceHash3 = replicate 16 3\<rparr> [] @ [9]) = (Inr d, [9]) \<and> SetClientDHParamsAnswerClass_ok d
     \<and> DecodeSetClientDHParamsAnswer (SetClientDHParamsAnswerClass_Encode d [] @ [4]) = (Inr d, [4])"
proof -
  let ?v = "\<lparr>DhGenFail_Nonce = replicate 16 1, DhGenFail_ServerNonce = replicate 16 2, DhGenFail_NewNonceHash3 = replicate 16 3\<rparr>"
  have "DecodeSetClientDHParamsAnswer (DhGenFail_Encode ?v [] @ [9]) = (Inr (SCA_DhGenFail ?v), [9])"
    by (rule DecodeSetClientDHParamsAnswer_app) (simp add: DhGenFail_ok_def)
  with class_values_typed[THEN conjunct2, THEN conjunct2, THEN mp, OF this, of "[4]"] show ?thesis by blast
qed

end
