(* ===== verification/Mt_Service.thy ===== *)
theory Mt_Service
  imports Mt_Exchange
begin

text \<open>
  Package \<open>mt\<close>: the service messages that the connection sends or that the protocol knows
  beside those of \<open>Mt_Types\<close>, statement by statement as the generator writes them.
\<close>

section \<open>tl\_destroy\_session\_gen.go\<close>

record DestroySessionRequest =
  DestroySessionRequest_SessionID :: "64 word"

definition DestroySessionRequestTypeID :: "32 word" where "DestroySessionRequestTypeID = 0xe7512126"

definition DestroySessionRequest_EncodeBare :: "DestroySessionRequest \<Rightarrow> buffer \<Rightarrow> buffer" where
  "DestroySessionRequest_EncodeBare d b =
     (let b = Buffer_PutLong (DestroySessionRequest_SessionID d) b
      in b)"

definition DestroySessionRequest_Encode :: "DestroySessionRequest \<Rightarrow> buffer \<Rightarrow> buffer" where
  "DestroySessionRequest_Encode d b = DestroySessionRequest_EncodeBare d (Buffer_PutID DestroySessionRequestTypeID b)"

definition DestroySessionRequest_DecodeBare :: "DestroySessionRequest dec" where
  "DestroySessionRequest_DecodeBare =
     dec_bind (dec_wrap ''unable to decode destroy_session#e7512126: field session_id'' Buffer_Long) (\<lambda>v1.
     dec_return \<lparr>DestroySessionRequest_SessionID = v1\<rparr>)"

definition DestroySessionRequest_Decode :: "DestroySessionRequest dec" where
  "DestroySessionRequest_Decode =
     dec_bind (dec_wrap ''unable to decode destroy_session#e7512126'' (Buffer_ConsumeID DestroySessionRequestTypeID)) (\<lambda>_. DestroySessionRequest_DecodeBare)"

section \<open>tl\_destroy\_session\_res\_gen.go\<close>

record DestroySessionOk =
  DestroySessionOk_SessionID :: "64 word"

definition DestroySessionOkTypeID :: "32 word" where "DestroySessionOkTypeID = 0xe22045fc"

definition DestroySessionOk_EncodeBare :: "DestroySessionOk \<Rightarrow> buffer \<Rightarrow> buffer" where
  "DestroySessionOk_EncodeBare d b =
     (let b = Buffer_PutLong (DestroySessionOk_SessionID d) b
      in b)"

definition DestroySessionOk_Encode :: "DestroySessionOk \<Rightarrow> buffer \<Rightarrow> buffer" where
  "DestroySessionOk_Encode d b = DestroySessionOk_EncodeBare d (Buffer_PutID DestroySessionOkTypeID b)"

definition DestroySessionOk_DecodeBare :: "DestroySessionOk dec" where
  "DestroySessionOk_DecodeBare =
     dec_bind (dec_wrap ''unable to decode destroy_session_ok#e22045fc: field session_id'' Buffer_Long) (\<lambda>v1.
     dec_return \<lparr>DestroySessionOk_SessionID = v1\<rparr>)"

definition DestroySessionOk_Decode :: "DestroySessionOk dec" where
  "DestroySessionOk_Decode =
     dec_bind (dec_wrap ''unable to decode destroy_session_ok#e22045fc'' (Buffer_ConsumeID DestroySessionOkTypeID)) (\<lambda>_. DestroySessionOk_DecodeBare)"

record DestroySessionNone =
  DestroySessionNone_SessionID :: "64 word"

definition DestroySessionNoneTypeID :: "32 word" where "DestroySessionNoneTypeID = 0x62d350c9"

definition DestroySessionNone_EncodeBare :: "DestroySessionNone \<Rightarrow> buffer \<Rightarrow> buffer" where
  "DestroySessionNone_EncodeBare d b =
     (let b = Buffer_PutLong (DestroySessionNone_SessionID d) b
      in b)"

definition DestroySessionNone_Encode :: "DestroySessionNone \<Rightarrow> buffer \<Rightarrow> buffer" where
  "DestroySessionNone_Encode d b = DestroySessionNone_EncodeBare d (Buffer_PutID DestroySessionNoneTypeID b)"

definition DestroySessionNone_DecodeBare :: "DestroySessionNone dec" where
  "DestroySessionNone_DecodeBare =
     dec_bind (dec_wrap ''unable to decode destroy_session_none#62d350c9: field session_id'' Buffer_Long) (\<lambda>v1.
     dec_return \<lparr>DestroySessionNone_SessionID = v1\<rparr>)"

definition DestroySessionNone_Decode :: "DestroySessionNone dec" where
  "DestroySessionNone_Decode =
     dec_bind (dec_wrap ''unable to decode destroy_session_none#62d350c9'' (Buffer_ConsumeID DestroySessionNoneTypeID)) (\<lambda>_. DestroySessionNone_DecodeBare)"

datatype DestroySessionResClass = DSR_DestroySessionOk "DestroySessionOk" | DSR_DestroySessionNone "DestroySessionNone"

text \<open>\<open>DecodeDestroySessionRes\<close> chooses the decoder by the identifier it peeks.\<close>

definition DecodeDestroySessionRes :: "DestroySessionResClass dec" where
  "DecodeDestroySessionRes = dec_bind Buffer_PeekID (\<lambda>i.
     if i = DestroySessionOkTypeID then dec_bind (dec_wrap ''unable to decode DestroySessionResClass'' DestroySessionOk_Decode) (\<lambda>v. dec_return (DSR_DestroySessionOk v))
     else if i = DestroySessionNoneTypeID then dec_bind (dec_wrap ''unable to decode DestroySessionResClass'' DestroySessionNone_Decode) (\<lambda>v. dec_return (DSR_DestroySessionNone v))
     else dec_fail (Wrap ''unable to decode DestroySessionResClass'' (UnexpectedIDErr i)))"

text \<open>\<open>Encode\<close> of a boxed value is the method of its variant.\<close>

definition DestroySessionResClass_Encode :: "DestroySessionResClass \<Rightarrow> buffer \<Rightarrow> buffer" where
  "DestroySessionResClass_Encode d buf =
     (case d of
        DSR_DestroySessionOk v \<Rightarrow> DestroySessionOk_Encode v buf
      | DSR_DestroySessionNone v \<Rightarrow> DestroySessionNone_Encode v buf)"

section \<open>tl\_get\_future\_salts\_gen.go\<close>

record GetFutureSaltsRequest =
  GetFutureSaltsRequest_Num :: "int"

definition GetFutureSaltsRequestTypeID :: "32 word" where "GetFutureSaltsRequestTypeID = 0xb921bd04"

definition GetFutureSaltsRequest_EncodeBare :: "GetFutureSaltsRequest \<Rightarrow> buffer \<Rightarrow> buffer" where
  "GetFutureSaltsRequest_EncodeBare g b =
     (let b = Buffer_PutInt (GetFutureSaltsRequest_Num g) b
      in b)"

definition GetFutureSaltsRequest_Encode :: "GetFutureSaltsRequest \<Rightarrow> buffer \<Rightarrow> buffer" where
  "GetFutureSaltsRequest_Encode g b = GetFutureSaltsRequest_EncodeBare g (Buffer_PutID GetFutureSaltsRequestTypeID b)"

definition GetFutureSaltsRequest_DecodeBare :: "GetFutureSaltsRequest dec" where
  "GetFutureSaltsRequest_DecodeBare =
     dec_bind (dec_wrap ''unable to decode get_future_salts#b921bd04: field num'' Buffer_Int) (\<lambda>v1.
     dec_return \<lparr>GetFutureSaltsRequest_Num = v1\<rparr>)"

definition GetFutureSaltsRequest_Decode :: "GetFutureSaltsRequest dec" where
  "GetFutureSaltsRequest_Decode =
     dec_bind (dec_wrap ''unable to decode get_future_salts#b921bd04'' (Buffer_ConsumeID GetFutureSaltsRequestTypeID)) (\<lambda>_. GetFutureSaltsRequest_DecodeBare)"

section \<open>tl\_gzip\_packed\_gen.go\<close>

record GzipPacked =
  GzipPacked_PackedData :: "bytes"

definition GzipPackedTypeID :: "32 word" where "GzipPackedTypeID = 0x3072cfa1"

definition GzipPacked_EncodeBare :: "GzipPacked \<Rightarrow> buffer \<Rightarrow> buffer" where
  "GzipPacked_EncodeBare g b =
     (let b = Buffer_PutBytes (GzipPacked_PackedData g) b
      in b)"

definition GzipPacked_Encode :: "GzipPacked \<Rightarrow> buffer \<Rightarrow> buffer" where
  "GzipPacked_Encode g b = GzipPacked_EncodeBare g (Buffer_PutID GzipPackedTypeID b)"

definition GzipPacked_DecodeBare :: "GzipPacked dec" where
  "GzipPacked_DecodeBare =
     dec_bind (dec_wrap ''unable to decode gzip_packed#3072cfa1: field packed_data'' Buffer_Bytes) (\<lambda>v1.
     dec_return \<lparr>GzipPacked_PackedData = v1\<rparr>)"

definition GzipPacked_Decode :: "GzipPacked dec" where
  "GzipPacked_Decode =
     dec_bind (dec_wrap ''unable to decode gzip_packed#3072cfa1'' (Buffer_ConsumeID GzipPackedTypeID)) (\<lambda>_. GzipPacked_DecodeBare)"

section \<open>tl\_http\_wait\_gen.go\<close>

record HTTPWaitRequest =
  HTTPWaitRequest_MaxDelay :: "int"
  HTTPWaitRequest_WaitAfter :: "int"
  HTTPWaitRequest_MaxWait :: "int"

definition HTTPWaitRequestTypeID :: "32 word" where "HTTPWaitRequestTypeID = 0x9299359f"

definition HTTPWaitRequest_EncodeBare :: "HTTPWaitRequest \<Rightarrow> buffer \<Rightarrow> buffer" where
  "HTTPWaitRequest_EncodeBare h b =
     (let b = Buffer_PutInt (HTTPWaitRequest_MaxDelay h) b;
          b = Buffer_PutInt (HTTPWaitRequest_WaitAfter h) b;
          b = Buffer_PutInt (HTTPWaitRequest_MaxWait h) b
      in b)"

definition HTTPWaitRequest_Encode :: "HTTPWaitRequest \<Rightarrow> buffer \<Rightarrow> buffer" where
  "HTTPWaitRequest_Encode h b = HTTPWaitRequest_EncodeBare h (Buffer_PutID HTTPWaitRequestTypeID b)"

definition HTTPWaitRequest_DecodeBare :: "HTTPWaitRequest dec" where
  "HTTPWaitRequest_DecodeBare =
     dec_bind (dec_wrap ''unable to decode http_wait#9299359f: field max_delay'' Buffer_Int) (\<lambda>v1.
     dec_bind (dec_wrap ''unable to decode http_wait#9299359f: field wait_after'' Buffer_Int) (\<lambda>v2.
     dec_bind (dec_wrap ''unable to decode http_wait#9299359f: field max_wait'' Buffer_Int) (\<lambda>v3.
     dec_return \<lparr>HTTPWaitRequest_MaxDelay = v1, HTTPWaitRequest_WaitAfter = v2, HTTPWaitRequest_MaxWait = v3\<rparr>)))"

definition HTTPWaitRequest_Decode :: "HTTPWaitRequest dec" where
  "HTTPWaitRequest_Decode =
     dec_bind (dec_wrap ''unable to decode http_wait#9299359f'' (Buffer_ConsumeID HTTPWaitRequestTypeID)) (\<lambda>_. HTTPWaitRequest_DecodeBare)"

section \<open>tl\_msg\_detailed\_info\_gen.go\<close>

record MsgDetailedInfo =
  MsgDetailedInfo_MsgID :: "64 word"
  MsgDetailedInfo_AnswerMsgID :: "64 word"
  MsgDetailedInfo_Bytes :: "int"
  MsgDetailedInfo_Status :: "int"

definition MsgDetailedInfo_EncodeBare :: "MsgDetailedInfo \<Rightarrow> buffer \<Rightarrow> buffer" where
  "MsgDetailedInfo_EncodeBare m b =
     (let b = Buffer_PutLong (MsgDetailedInfo_MsgID m) b;
          b = Buffer_PutLong (MsgDetailedInfo_AnswerMsgID m) b;
          b = Buffer_PutInt (MsgDetailedInfo_Bytes m) b;
          b = Buffer_PutInt (MsgDetailedInfo_Status m) b
      in b)"

definition MsgDetailedInfo_Encode :: "MsgDetailedInfo \<Rightarrow> buffer \<Rightarrow> buffer" where
  "MsgDetailedInfo_Encode m b = MsgDetailedInfo_EncodeBare m (Buffer_PutID MsgDetailedInfoTypeID b)"

definition MsgDetailedInfo_DecodeBare :: "MsgDetailedInfo dec" where
  "MsgDetailedInfo_DecodeBare =
     dec_bind (dec_wrap ''unable to decode msg_detailed_info#276d3ec6: field msg_id'' Buffer_Long) (\<lambda>v1.
     dec_bind (dec_wrap ''unable to decode msg_detailed_info#276d3ec6: field answer_msg_id'' Buffer_Long) (\<lambda>v2.
     dec_bind (dec_wrap ''unable to decode msg_detailed_info#276d3ec6: field bytes'' Buffer_Int) (\<lambda>v3.
     dec_bind (dec_wrap ''unable to decode msg_detailed_info#276d3ec6: field status'' Buffer_Int) (\<lambda>v4.
     dec_return \<lparr>MsgDetailedInfo_MsgID = v1, MsgDetailedInfo_AnswerMsgID = v2, MsgDetailedInfo_Bytes = v3, MsgDetailedInfo_Status = v4\<rparr>))))"

definition MsgDetailedInfo_Decode :: "MsgDetailedInfo dec" where
  "MsgDetailedInfo_Decode =
     dec_bind (dec_wrap ''unable to decode msg_detailed_info#276d3ec6'' (Buffer_ConsumeID MsgDetailedInfoTypeID)) (\<lambda>_. MsgDetailedInfo_DecodeBare)"

record MsgNewDetailedInfo =
  MsgNewDetailedInfo_AnswerMsgID :: "64 word"
  MsgNewDetailedInfo_Bytes :: "int"
  MsgNewDetailedInfo_Status :: "int"

definition MsgNewDetailedInfo_EncodeBare :: "MsgNewDetailedInfo \<Rightarrow> buffer \<Rightarrow> buffer" where
  "MsgNewDetailedInfo_EncodeBare m b =
     (let b = Buffer_PutLong (MsgNewDetailedInfo_AnswerMsgID m) b;
          b = Buffer_PutInt (MsgNewDetailedInfo_Bytes m) b;
          b = Buffer_PutInt (MsgNewDetailedInfo_Status m) b
      in b)"

definition MsgNewDetailedInfo_Encode :: "MsgNewDetailedInfo \<Rightarrow> buffer \<Rightarrow> buffer" where
  "MsgNewDetailedInfo_Encode m b = MsgNewDetailedInfo_EncodeBare m (Buffer_PutID MsgNewDetailedInfoTypeID b)"

definition MsgNewDetailedInfo_DecodeBare :: "MsgNewDetailedInfo dec" where
  "MsgNewDetailedInfo_DecodeBare =
     dec_bind (dec_wrap ''unable to decode msg_new_detailed_info#809db6df: field answer_msg_id'' Buffer_Long) (\<lambda>v1.
     dec_bind (dec_wrap ''unable to decode msg_new_detailed_info#809db6df: field bytes'' Buffer_Int) (\<lambda>v2.
     dec_bind (dec_wrap ''unable to decode msg_new_detailed_info#809db6df: field status'' Buffer_Int) (\<lambda>v3.
     dec_return \<lparr>MsgNewDetailedInfo_AnswerMsgID = v1, MsgNewDetailedInfo_Bytes = v2, MsgNewDetailedInfo_Status = v3\<rparr>)))"

definition MsgNewDetailedInfo_Decode :: "MsgNewDetailedInfo dec" where
  "MsgNewDetailedInfo_Decode =
     dec_bind (dec_wrap ''unable to decode msg_new_detailed_info#809db6df'' (Buffer_ConsumeID MsgNewDetailedInfoTypeID)) (\<lambda>_. MsgNewDetailedInfo_DecodeBare)"

datatype MsgDetailedInfoClass = MDI_MsgDetailedInfo "MsgDetailedInfo" | MDI_MsgNewDetailedInfo "MsgNewDetailedInfo"

text \<open>\<open>DecodeMsgDetailedInfo\<close> chooses the decoder by the identifier it peeks.\<close>

definition DecodeMsgDetailedInfo :: "MsgDetailedInfoClass dec" where
  "DecodeMsgDetailedInfo = dec_bind Buffer_PeekID (\<lambda>i.
     if i = MsgDetailedInfoTypeID then dec_bind (dec_wrap ''unable to decode MsgDetailedInfoClass'' MsgDetailedInfo_Decode) (\<lambda>v. dec_return (MDI_MsgDetailedInfo v))
     else if i = MsgNewDetailedInfoTypeID then dec_bind (dec_wrap ''unable to decode MsgDetailedInfoClass'' MsgNewDetailedInfo_Decode) (\<lambda>v. dec_return (MDI_MsgNewDetailedInfo v))
     else dec_fail (Wrap ''unable to decode MsgDetailedInfoClass'' (UnexpectedIDErr i)))"

text \<open>\<open>Encode\<close> of a boxed value is the method of its variant.\<close>

definition MsgDetailedInfoClass_Encode :: "MsgDetailedInfoClass \<Rightarrow> buffer \<Rightarrow> buffer" where
  "MsgDetailedInfoClass_Encode d buf =
     (case d of
        MDI_MsgDetailedInfo v \<Rightarrow> MsgDetailedInfo_Encode v buf
      | MDI_MsgNewDetailedInfo v \<Rightarrow> MsgNewDetailedInfo_Encode v buf)"

section \<open>tl\_msg\_resend\_req\_gen.go\<close>

record MsgResendReq =
  MsgResendReq_MsgIDs :: "64 word list"

definition MsgResendReqTypeID :: "32 word" where "MsgResendReqTypeID = 0x7d861a08"

definition MsgResendReq_EncodeBare :: "MsgResendReq \<Rightarrow> buffer \<Rightarrow> buffer" where
  "MsgResendReq_EncodeBare m b =
     (let b = Buffer_PutVectorHeader (int (length (MsgResendReq_MsgIDs m))) b;
          b = fold Buffer_PutLong (MsgResendReq_MsgIDs m) b
      in b)"

definition MsgResendReq_Encode :: "MsgResendReq \<Rightarrow> buffer \<Rightarrow> buffer" where
  "MsgResendReq_Encode m b = MsgResendReq_EncodeBare m (Buffer_PutID MsgResendReqTypeID b)"

definition MsgResendReq_DecodeBare :: "MsgResendReq dec" where
  "MsgResendReq_DecodeBare =
     dec_bind (dec_wrap ''unable to decode msg_resend_req#7d861a08: field msg_ids'' Buffer_VectorHeader) (\<lambda>headerLen.
     dec_bind (dec_elems (dec_wrap ''unable to decode msg_resend_req#7d861a08: field msg_ids'' Buffer_Long) (nat headerLen)) (\<lambda>v1.
     dec_return \<lparr>MsgResendReq_MsgIDs = v1\<rparr>))"

definition MsgResendReq_Decode :: "MsgResendReq dec" where
  "MsgResendReq_Decode =
     dec_bind (dec_wrap ''unable to decode msg_resend_req#7d861a08'' (Buffer_ConsumeID MsgResendReqTypeID)) (\<lambda>_. MsgResendReq_DecodeBare)"

section \<open>tl\_msgs\_all\_info\_gen.go\<close>

record MsgsAllInfo =
  MsgsAllInfo_MsgIDs :: "64 word list"
  MsgsAllInfo_Info :: "bytes"

definition MsgsAllInfoTypeID :: "32 word" where "MsgsAllInfoTypeID = 0x8cc0d131"

definition MsgsAllInfo_EncodeBare :: "MsgsAllInfo \<Rightarrow> buffer \<Rightarrow> buffer" where
  "MsgsAllInfo_EncodeBare m b =
     (let b = Buffer_PutVectorHeader (int (length (MsgsAllInfo_MsgIDs m))) b;
          b = fold Buffer_PutLong (MsgsAllInfo_MsgIDs m) b;
          b = Buffer_PutBytes (MsgsAllInfo_Info m) b
      in b)"

definition MsgsAllInfo_Encode :: "MsgsAllInfo \<Rightarrow> buffer \<Rightarrow> buffer" where
  "MsgsAllInfo_Encode m b = MsgsAllInfo_EncodeBare m (Buffer_PutID MsgsAllInfoTypeID b)"

definition MsgsAllInfo_DecodeBare :: "MsgsAllInfo dec" where
  "MsgsAllInfo_DecodeBare =
     dec_bind (dec_wrap ''unable to decode msgs_all_info#8cc0d131: field msg_ids'' Buffer_VectorHeader) (\<lambda>headerLen.
     dec_bind (dec_elems (dec_wrap ''unable to decode msgs_all_info#8cc0d131: field msg_ids'' Buffer_Long) (nat headerLen)) (\<lambda>v1.
     dec_bind (dec_wrap ''unable to decode msgs_all_info#8cc0d131: field info'' Buffer_Bytes) (\<lambda>v2.
     dec_return \<lparr>MsgsAllInfo_MsgIDs = v1, MsgsAllInfo_Info = v2\<rparr>)))"

definition MsgsAllInfo_Decode :: "MsgsAllInfo dec" where
  "MsgsAllInfo_Decode =
     dec_bind (dec_wrap ''unable to decode msgs_all_info#8cc0d131'' (Buffer_ConsumeID MsgsAllInfoTypeID)) (\<lambda>_. MsgsAllInfo_DecodeBare)"

section \<open>tl\_msgs\_state\_info\_gen.go\<close>

record MsgsStateInfo =
  MsgsStateInfo_ReqMsgID :: "64 word"
  MsgsStateInfo_Info :: "bytes"

definition MsgsStateInfoTypeID :: "32 word" where "MsgsStateInfoTypeID = 0x4deb57d"

definition MsgsStateInfo_EncodeBare :: "MsgsStateInfo \<Rightarrow> buffer \<Rightarrow> buffer" where
  "MsgsStateInfo_EncodeBare m b =
     (let b = Buffer_PutLong (MsgsStateInfo_ReqMsgID m) b;
          b = Buffer_PutBytes (MsgsStateInfo_Info m) b
      in b)"

definition MsgsStateInfo_Encode :: "MsgsStateInfo \<Rightarrow> buffer \<Rightarrow> buffer" where
  "MsgsStateInfo_Encode m b = MsgsStateInfo_EncodeBare m (Buffer_PutID MsgsStateInfoTypeID b)"

definition MsgsStateInfo_DecodeBare :: "MsgsStateInfo dec" where
  "MsgsStateInfo_DecodeBare =
     dec_bind (dec_wrap ''unable to decode msgs_state_info#4deb57d: field req_msg_id'' Buffer_Long) (\<lambda>v1.
     dec_bind (dec_wrap ''unable to decode msgs_state_info#4deb57d: field info'' Buffer_Bytes) (\<lambda>v2.
     dec_return \<lparr>MsgsStateInfo_ReqMsgID = v1, MsgsStateInfo_Info = v2\<rparr>))"

definition MsgsStateInfo_Decode :: "MsgsStateInfo dec" where
  "MsgsStateInfo_Decode =
     dec_bind (dec_wrap ''unable to decode msgs_state_info#4deb57d'' (Buffer_ConsumeID MsgsStateInfoTypeID)) (\<lambda>_. MsgsStateInfo_DecodeBare)"

section \<open>tl\_msgs\_state\_req\_gen.go\<close>

record MsgsStateReq =
  MsgsStateReq_MsgIDs :: "64 word list"

definition MsgsStateReqTypeID :: "32 word" where "MsgsStateReqTypeID = 0xda69fb52"

definition MsgsStateReq_EncodeBare :: "MsgsStateReq \<Rightarrow> buffer \<Rightarrow> buffer" where
  "MsgsStateReq_EncodeBare m b =
     (let b = Buffer_PutVectorHeader (int (length (MsgsStateReq_MsgIDs m))) b;
          b = fold Buffer_PutLong (MsgsStateReq_MsgIDs m) b
      in b)"

definition MsgsStateReq_Encode :: "MsgsStateReq \<Rightarrow> buffer \<Rightarrow> buffer" where
  "MsgsStateReq_Encode m b = MsgsStateReq_EncodeBare m (Buffer_PutID MsgsStateReqTypeID b)"

definition MsgsStateReq_DecodeBare :: "MsgsStateReq dec" where
  "MsgsStateReq_DecodeBare =
     dec_bind (dec_wrap ''unable to decode msgs_state_req#da69fb52: field msg_ids'' Buffer_VectorHeader) (\<lambda>headerLen.
     dec_bind (dec_elems (dec_wrap ''unable to decode msgs_state_req#da69fb52: field msg_ids'' Buffer_Long) (nat headerLen)) (\<lambda>v1.
     dec_return \<lparr>MsgsStateReq_MsgIDs = v1\<rparr>))"

definition MsgsStateReq_Decode :: "MsgsStateReq dec" where
  "MsgsStateReq_Decode =
     dec_bind (dec_wrap ''unable to decode msgs_state_req#da69fb52'' (Buffer_ConsumeID MsgsStateReqTypeID)) (\<lambda>_. MsgsStateReq_DecodeBare)"

section \<open>tl\_ping\_delay\_disconnect\_gen.go\<close>

record PingDelayDisconnectRequest =
  PingDelayDisconnectRequest_PingID :: "64 word"
  PingDelayDisconnectRequest_DisconnectDelay :: "int"

definition PingDelayDisconnectRequestTypeID :: "32 word" where "PingDelayDisconnectRequestTypeID = 0xf3427b8c"

definition PingDelayDisconnectRequest_EncodeBare :: "PingDelayDisconnectRequest \<Rightarrow> buffer \<Rightarrow> buffer" where
  "PingDelayDisconnectRequest_EncodeBare p b =
     (let b = Buffer_PutLong (PingDelayDisconnectRequest_PingID p) b;
          b = Buffer_PutInt (PingDelayDisconnectRequest_DisconnectDelay p) b
      in b)"

definition PingDelayDisconnectRequest_Encode :: "PingDelayDisconnectRequest \<Rightarrow> buffer \<Rightarrow> buffer" where
  "PingDelayDisconnectRequest_Encode p b = PingDelayDisconnectRequest_EncodeBare p (Buffer_PutID PingDelayDisconnectRequestTypeID b)"

definition PingDelayDisconnectRequest_DecodeBare :: "PingDelayDisconnectRequest dec" where
  "PingDelayDisconnectRequest_DecodeBare =
     dec_bind (dec_wrap ''unable to decode ping_delay_disconnect#f3427b8c: field ping_id'' Buffer_Long) (\<lambda>v1.
     dec_bind (dec_wrap ''unable to decode ping_delay_disconnect#f3427b8c: field disconnect_delay'' Buffer_Int) (\<lambda>v2.
     dec_return \<lparr>PingDelayDisconnectRequest_PingID = v1, PingDelayDisconnectRequest_DisconnectDelay = v2\<rparr>))"

definition PingDelayDisconnectRequest_Decode :: "PingDelayDisconnectRequest dec" where
  "PingDelayDisconnectRequest_Decode =
     dec_bind (dec_wrap ''unable to decode ping_delay_disconnect#f3427b8c'' (Buffer_ConsumeID PingDelayDisconnectRequestTypeID)) (\<lambda>_. PingDelayDisconnectRequest_DecodeBare)"

section \<open>tl\_ping\_gen.go\<close>

record PingRequest =
  PingRequest_PingID :: "64 word"

definition PingRequestTypeID :: "32 word" where "PingRequestTypeID = 0x7abe77ec"

definition PingRequest_EncodeBare :: "PingRequest \<Rightarrow> buffer \<Rightarrow> buffer" where
  "PingRequest_EncodeBare p b =
     (let b = Buffer_PutLong (PingRequest_PingID p) b
      in b)"

definition PingRequest_Encode :: "PingRequest \<Rightarrow> buffer \<Rightarrow> buffer" where
  "PingRequest_Encode p b = PingRequest_EncodeBare p (Buffer_PutID PingRequestTypeID b)"

definition PingRequest_DecodeBare :: "PingRequest dec" where
  "PingRequest_DecodeBare =
     dec_bind (dec_wrap ''unable to decode ping#7abe77ec: field ping_id'' Buffer_Long) (\<lambda>v1.
     dec_return \<lparr>PingRequest_PingID = v1\<rparr>)"

definition PingRequest_Decode :: "PingRequest dec" where
  "PingRequest_Decode =
     dec_bind (dec_wrap ''unable to decode ping#7abe77ec'' (Buffer_ConsumeID PingRequestTypeID)) (\<lambda>_. PingRequest_DecodeBare)"

section \<open>tl\_rpc\_drop\_answer\_const\_gen.go\<close>

record RPCDropAnswerRequest =
  RPCDropAnswerRequest_ReqMsgID :: "64 word"

definition RPCDropAnswerRequestTypeID :: "32 word" where "RPCDropAnswerRequestTypeID = 0x58e4a740"

definition RPCDropAnswerRequest_EncodeBare :: "RPCDropAnswerRequest \<Rightarrow> buffer \<Rightarrow> buffer" where
  "RPCDropAnswerRequest_EncodeBare r b =
     (let b = Buffer_PutLong (RPCDropAnswerRequest_ReqMsgID r) b
      in b)"

definition RPCDropAnswerRequest_Encode :: "RPCDropAnswerRequest \<Rightarrow> buffer \<Rightarrow> buffer" where
  "RPCDropAnswerRequest_Encode r b = RPCDropAnswerRequest_EncodeBare r (Buffer_PutID RPCDropAnswerRequestTypeID b)"

definition RPCDropAnswerRequest_DecodeBare :: "RPCDropAnswerRequest dec" where
  "RPCDropAnswerRequest_DecodeBare =
     dec_bind (dec_wrap ''unable to decode rpc_drop_answer#58e4a740: field req_msg_id'' Buffer_Long) (\<lambda>v1.
     dec_return \<lparr>RPCDropAnswerRequest_ReqMsgID = v1\<rparr>)"

definition RPCDropAnswerRequest_Decode :: "RPCDropAnswerRequest dec" where
  "RPCDropAnswerRequest_Decode =
     dec_bind (dec_wrap ''unable to decode rpc_drop_answer#58e4a740'' (Buffer_ConsumeID RPCDropAnswerRequestTypeID)) (\<lambda>_. RPCDropAnswerRequest_DecodeBare)"

section \<open>tl\_rpc\_drop\_answer\_gen.go\<close>

text \<open>\<open>RPCAnswerUnknown\<close> has no fields.\<close>

type_synonym RPCAnswerUnknown = unit

definition RPCAnswerUnknownTypeID :: "32 word" where "RPCAnswerUnknownTypeID = 0x5e2ad36e"

definition RPCAnswerUnknown_EncodeBare :: "RPCAnswerUnknown \<Rightarrow> buffer \<Rightarrow> buffer" where
  "RPCAnswerUnknown_EncodeBare r b =
     b"

definition RPCAnswerUnknown_Encode :: "RPCAnswerUnknown \<Rightarrow> buffer \<Rightarrow> buffer" where
  "RPCAnswerUnknown_Encode r b = RPCAnswerUnknown_EncodeBare r (Buffer_PutID RPCAnswerUnknownTypeID b)"

definition RPCAnswerUnknown_DecodeBare :: "RPCAnswerUnknown dec" where
  "RPCAnswerUnknown_DecodeBare =
     dec_return ()"

definition RPCAnswerUnknown_Decode :: "RPCAnswerUnknown dec" where
  "RPCAnswerUnknown_Decode =
     dec_bind (dec_wrap ''unable to decode rpc_answer_unknown#5e2ad36e'' (Buffer_ConsumeID RPCAnswerUnknownTypeID)) (\<lambda>_. RPCAnswerUnknown_DecodeBare)"

text \<open>\<open>RPCAnswerDroppedRunning\<close> has no fields.\<close>

type_synonym RPCAnswerDroppedRunning = unit

definition RPCAnswerDroppedRunningTypeID :: "32 word" where "RPCAnswerDroppedRunningTypeID = 0xcd78e586"

definition RPCAnswerDroppedRunning_EncodeBare :: "RPCAnswerDroppedRunning \<Rightarrow> buffer \<Rightarrow> buffer" where
  "RPCAnswerDroppedRunning_EncodeBare r b =
     b"

definition RPCAnswerDroppedRunning_Encode :: "RPCAnswerDroppedRunning \<Rightarrow> buffer \<Rightarrow> buffer" where
  "RPCAnswerDroppedRunning_Encode r b = RPCAnswerDroppedRunning_EncodeBare r (Buffer_PutID RPCAnswerDroppedRunningTypeID b)"

definition RPCAnswerDroppedRunning_DecodeBare :: "RPCAnswerDroppedRunning dec" where
  "RPCAnswerDroppedRunning_DecodeBare =
     dec_return ()"

definition RPCAnswerDroppedRunning_Decode :: "RPCAnswerDroppedRunning dec" where
  "RPCAnswerDroppedRunning_Decode =
     dec_bind (dec_wrap ''unable to decode rpc_answer_dropped_running#cd78e586'' (Buffer_ConsumeID RPCAnswerDroppedRunningTypeID)) (\<lambda>_. RPCAnswerDroppedRunning_DecodeBare)"

record RPCAnswerDropped =
  RPCAnswerDropped_MsgID :: "64 word"
  RPCAnswerDropped_SeqNo :: "int"
  RPCAnswerDropped_Bytes :: "int"

definition RPCAnswerDroppedTypeID :: "32 word" where "RPCAnswerDroppedTypeID = 0xa43ad8b7"

definition RPCAnswerDropped_EncodeBare :: "RPCAnswerDropped \<Rightarrow> buffer \<Rightarrow> buffer" where
  "RPCAnswerDropped_EncodeBare r b =
     (let b = Buffer_PutLong (RPCAnswerDropped_MsgID r) b;
          b = Buffer_PutInt (RPCAnswerDropped_SeqNo r) b;
          b = Buffer_PutInt (RPCAnswerDropped_Bytes r) b
      in b)"

definition RPCAnswerDropped_Encode :: "RPCAnswerDropped \<Rightarrow> buffer \<Rightarrow> buffer" where
  "RPCAnswerDropped_Encode r b = RPCAnswerDropped_EncodeBare r (Buffer_PutID RPCAnswerDroppedTypeID b)"

definition RPCAnswerDropped_DecodeBare :: "RPCAnswerDropped dec" where
  "RPCAnswerDropped_DecodeBare =
     dec_bind (dec_wrap ''unable to decode rpc_answer_dropped#a43ad8b7: field msg_id'' Buffer_Long) (\<lambda>v1.
     dec_bind (dec_wrap ''unable to decode rpc_answer_dropped#a43ad8b7: field seq_no'' Buffer_Int) (\<lambda>v2.
     dec_bind (dec_wrap ''unable to decode rpc_answer_dropped#a43ad8b7: field bytes'' Buffer_Int) (\<lambda>v3.
     dec_return \<lparr>RPCAnswerDropped_MsgID = v1, RPCAnswerDropped_SeqNo = v2, RPCAnswerDropped_Bytes = v3\<rparr>)))"

definition RPCAnswerDropped_Decode :: "RPCAnswerDropped dec" where
  "RPCAnswerDropped_Decode =
     dec_bind (dec_wrap ''unable to decode rpc_answer_dropped#a43ad8b7'' (Buffer_ConsumeID RPCAnswerDroppedTypeID)) (\<lambda>_. RPCAnswerDropped_DecodeBare)"

datatype RPCDropAnswerClass = RDA_RPCAnswerUnknown "RPCAnswerUnknown" | RDA_RPCAnswerDroppedRunning "RPCAnswerDroppedRunning" | RDA_RPCAnswerDropped "RPCAnswerDropped"

text \<open>\<open>DecodeRPCDropAnswer\<close> chooses the decoder by the identifier it peeks.\<close>

definition DecodeRPCDropAnswer :: "RPCDropAnswerClass dec" where
  "DecodeRPCDropAnswer = dec_bind Buffer_PeekID (\<lambda>i.
     if i = RPCAnswerUnknownTypeID then dec_bind (dec_wrap ''unable to decode RPCDropAnswerClass'' RPCAnswerUnknown_Decode) (\<lambda>v. dec_return (RDA_RPCAnswerUnknown v))
     else if i = RPCAnswerDroppedRunningTypeID then dec_bind (dec_wrap ''unable to decode RPCDropAnswerClass'' RPCAnswerDroppedRunning_Decode) (\<lambda>v. dec_return (RDA_RPCAnswerDroppedRunning v))
     else if i = RPCAnswerDroppedTypeID then dec_bind (dec_wrap ''unable to decode RPCDropAnswerClass'' RPCAnswerDropped_Decode) (\<lambda>v. dec_return (RDA_RPCAnswerDropped v))
     else dec_fail (Wrap ''unable to decode RPCDropAnswerClass'' (UnexpectedIDErr i)))"

text \<open>\<open>Encode\<close> of a boxed value is the method of its variant.\<close>

definition RPCDropAnswerClass_Encode :: "RPCDropAnswerClass \<Rightarrow> buffer \<Rightarrow> buffer" where
  "RPCDropAnswerClass_Encode d buf =
     (case d of
        RDA_RPCAnswerUnknown v \<Rightarrow> RPCAnswerUnknown_Encode v buf
      | RDA_RPCAnswerDroppedRunning v \<Rightarrow> RPCAnswerDroppedRunning_Encode v buf
      | RDA_RPCAnswerDropped v \<Rightarrow> RPCAnswerDropped_Encode v buf)"

section \<open>Every type is a field type\<close>

text \<open>
  The values the methods are meant for, and the interpretation of the contract of the wire format
  for each type: encoding appends whole words, and decoding returns the value and what follows.
\<close>

definition DestroySessionRequest_ok :: "DestroySessionRequest \<Rightarrow> bool" where
  "DestroySessionRequest_ok r \<longleftrightarrow> True"

definition DestroySessionOk_ok :: "DestroySessionOk \<Rightarrow> bool" where
  "DestroySessionOk_ok r \<longleftrightarrow> True"

definition DestroySessionNone_ok :: "DestroySessionNone \<Rightarrow> bool" where
  "DestroySessionNone_ok r \<longleftrightarrow> True"

definition GetFutureSaltsRequest_ok :: "GetFutureSaltsRequest \<Rightarrow> bool" where
  "GetFutureSaltsRequest_ok r \<longleftrightarrow> is_int32 (GetFutureSaltsRequest_Num r)"

definition GzipPacked_ok :: "GzipPacked \<Rightarrow> bool" where
  "GzipPacked_ok r \<longleftrightarrow> length (GzipPacked_PackedData r) \<le> maxLongStringLength"

definition HTTPWaitRequest_ok :: "HTTPWaitRequest \<Rightarrow> bool" where
  "HTTPWaitRequest_ok r \<longleftrightarrow> is_int32 (HTTPWaitRequest_MaxDelay r)
     \<and> is_int32 (HTTPWaitRequest_WaitAfter r)
     \<and> is_int32 (HTTPWaitRequest_MaxWait r)"

definition MsgDetailedInfo_ok :: "MsgDetailedInfo \<Rightarrow> bool" where
  "MsgDetailedInfo_ok r \<longleftrightarrow> is_int32 (MsgDetailedInfo_Bytes r)
     \<and> is_int32 (MsgDetailedInfo_Status r)"

definition MsgNewDetailedInfo_ok :: "MsgNewDetailedInfo \<Rightarrow> bool" where
  "MsgNewDetailedInfo_ok r \<longleftrightarrow> is_int32 (MsgNewDetailedInfo_Bytes r)
     \<and> is_int32 (MsgNewDetailedInfo_Status r)"

definition MsgResendReq_ok :: "MsgResendReq \<Rightarrow> bool" where
  "MsgResendReq_ok r \<longleftrightarrow> length (MsgResendReq_MsgIDs r) < 2 ^ 31"

definition MsgsAllInfo_ok :: "MsgsAllInfo \<Rightarrow> bool" where
  "MsgsAllInfo_ok r \<longleftrightarrow> length (MsgsAllInfo_MsgIDs r) < 2 ^ 31
     \<and> length (MsgsAllInfo_Info r) \<le> maxLongStringLength"

definition MsgsStateInfo_ok :: "MsgsStateInfo \<Rightarrow> bool" where
  "MsgsStateInfo_ok r \<longleftrightarrow> length (MsgsStateInfo_Info r) \<le> maxLongStringLength"

definition MsgsStateReq_ok :: "MsgsStateReq \<Rightarrow> bool" where
  "MsgsStateReq_ok r \<longleftrightarrow> length (MsgsStateReq_MsgIDs r) < 2 ^ 31"

definition PingDelayDisconnectRequest_ok :: "PingDelayDisconnectRequest \<Rightarrow> bool" where
  "PingDelayDisconnectRequest_ok r \<longleftrightarrow> is_int32 (PingDelayDisconnectRequest_DisconnectDelay r)"

definition PingRequest_ok :: "PingRequest \<Rightarrow> bool" where
  "PingRequest_ok r \<longleftrightarrow> True"

definition RPCDropAnswerRequest_ok :: "RPCDropAnswerRequest \<Rightarrow> bool" where
  "RPCDropAnswerRequest_ok r \<longleftrightarrow> True"

definition RPCAnswerUnknown_ok :: "RPCAnswerUnknown \<Rightarrow> bool" where
  "RPCAnswerUnknown_ok r \<longleftrightarrow> True"

definition RPCAnswerDroppedRunning_ok :: "RPCAnswerDroppedRunning \<Rightarrow> bool" where
  "RPCAnswerDroppedRunning_ok r \<longleftrightarrow> True"

definition RPCAnswerDropped_ok :: "RPCAnswerDropped \<Rightarrow> bool" where
  "RPCAnswerDropped_ok r \<longleftrightarrow> is_int32 (RPCAnswerDropped_SeqNo r)
     \<and> is_int32 (RPCAnswerDropped_Bytes r)"

lemma DestroySessionRequest_typed: "DestroySessionRequest_Decode b = (Inr v, rest) \<Longrightarrow> DestroySessionRequest_ok v"
  by (auto simp: DestroySessionRequest_Decode_def DestroySessionRequest_DecodeBare_def DestroySessionRequest_ok_def dec_return_def elim!: dec_bind_InrE dec_wrap_InrE dest!: typed_fields)

interpretation t_DestroySessionRequest: tl_typed DestroySessionRequest_Encode DestroySessionRequest_Decode DestroySessionRequest_ok
  by (unfold_locales; (rule DestroySessionRequest_typed, assumption)?;
      simp add: DestroySessionRequest_ok_def DestroySessionRequest_Decode_def DestroySessionRequest_Encode_def DestroySessionRequest_DecodeBare_def DestroySessionRequest_EncodeBare_def tl_simps consumes_intros)

lemma DestroySessionOk_typed: "DestroySessionOk_Decode b = (Inr v, rest) \<Longrightarrow> DestroySessionOk_ok v"
  by (auto simp: DestroySessionOk_Decode_def DestroySessionOk_DecodeBare_def DestroySessionOk_ok_def dec_return_def elim!: dec_bind_InrE dec_wrap_InrE dest!: typed_fields)

interpretation t_DestroySessionOk: tl_typed DestroySessionOk_Encode DestroySessionOk_Decode DestroySessionOk_ok
  by (unfold_locales; (rule DestroySessionOk_typed, assumption)?;
      simp add: DestroySessionOk_ok_def DestroySessionOk_Decode_def DestroySessionOk_Encode_def DestroySessionOk_DecodeBare_def DestroySessionOk_EncodeBare_def tl_simps consumes_intros)

lemma DestroySessionNone_typed: "DestroySessionNone_Decode b = (Inr v, rest) \<Longrightarrow> DestroySessionNone_ok v"
  by (auto simp: DestroySessionNone_Decode_def DestroySessionNone_DecodeBare_def DestroySessionNone_ok_def dec_return_def elim!: dec_bind_InrE dec_wrap_InrE dest!: typed_fields)

interpretation t_DestroySessionNone: tl_typed DestroySessionNone_Encode DestroySessionNone_Decode DestroySessionNone_ok
  by (unfold_locales; (rule DestroySessionNone_typed, assumption)?;
      simp add: DestroySessionNone_ok_def DestroySessionNone_Decode_def DestroySessionNone_Encode_def DestroySessionNone_DecodeBare_def DestroySessionNone_EncodeBare_def tl_simps consumes_intros)

lemma GetFutureSaltsRequest_typed: "GetFutureSaltsRequest_Decode b = (Inr v, rest) \<Longrightarrow> GetFutureSaltsRequest_ok v"
  by (auto simp: GetFutureSaltsRequest_Decode_def GetFutureSaltsRequest_DecodeBare_def GetFutureSaltsRequest_ok_def dec_return_def elim!: dec_bind_InrE dec_wrap_InrE dest!: typed_fields)

interpretation t_GetFutureSaltsRequest: tl_typed GetFutureSaltsRequest_Encode GetFutureSaltsRequest_Decode GetFutureSaltsRequest_ok
  by (unfold_locales; (rule GetFutureSaltsRequest_typed, assumption)?;
      simp add: GetFutureSaltsRequest_ok_def GetFutureSaltsRequest_Decode_def GetFutureSaltsRequest_Encode_def GetFutureSaltsRequest_DecodeBare_def GetFutureSaltsRequest_EncodeBare_def tl_simps consumes_intros)

lemma GzipPacked_typed: "GzipPacked_Decode b = (Inr v, rest) \<Longrightarrow> GzipPacked_ok v"
  by (auto simp: GzipPacked_Decode_def GzipPacked_DecodeBare_def GzipPacked_ok_def dec_return_def elim!: dec_bind_InrE dec_wrap_InrE dest!: typed_fields)

interpretation t_GzipPacked: tl_typed GzipPacked_Encode GzipPacked_Decode GzipPacked_ok
  by (unfold_locales; (rule GzipPacked_typed, assumption)?;
      simp add: GzipPacked_ok_def GzipPacked_Decode_def GzipPacked_Encode_def GzipPacked_DecodeBare_def GzipPacked_EncodeBare_def tl_simps consumes_intros)

lemma HTTPWaitRequest_typed: "HTTPWaitRequest_Decode b = (Inr v, rest) \<Longrightarrow> HTTPWaitRequest_ok v"
  by (auto simp: HTTPWaitRequest_Decode_def HTTPWaitRequest_DecodeBare_def HTTPWaitRequest_ok_def dec_return_def elim!: dec_bind_InrE dec_wrap_InrE dest!: typed_fields)

interpretation t_HTTPWaitRequest: tl_typed HTTPWaitRequest_Encode HTTPWaitRequest_Decode HTTPWaitRequest_ok
  by (unfold_locales; (rule HTTPWaitRequest_typed, assumption)?;
      simp add: HTTPWaitRequest_ok_def HTTPWaitRequest_Decode_def HTTPWaitRequest_Encode_def HTTPWaitRequest_DecodeBare_def HTTPWaitRequest_EncodeBare_def tl_simps consumes_intros)

lemma MsgDetailedInfo_typed: "MsgDetailedInfo_Decode b = (Inr v, rest) \<Longrightarrow> MsgDetailedInfo_ok v"
  by (auto simp: MsgDetailedInfo_Decode_def MsgDetailedInfo_DecodeBare_def MsgDetailedInfo_ok_def dec_return_def elim!: dec_bind_InrE dec_wrap_InrE dest!: typed_fields)

interpretation t_MsgDetailedInfo: tl_typed MsgDetailedInfo_Encode MsgDetailedInfo_Decode MsgDetailedInfo_ok
  by (unfold_locales; (rule MsgDetailedInfo_typed, assumption)?;
      simp add: MsgDetailedInfo_ok_def MsgDetailedInfo_Decode_def MsgDetailedInfo_Encode_def MsgDetailedInfo_DecodeBare_def MsgDetailedInfo_EncodeBare_def tl_simps consumes_intros)

lemma MsgNewDetailedInfo_typed: "MsgNewDetailedInfo_Decode b = (Inr v, rest) \<Longrightarrow> MsgNewDetailedInfo_ok v"
  by (auto simp: MsgNewDetailedInfo_Decode_def MsgNewDetailedInfo_DecodeBare_def MsgNewDetailedInfo_ok_def dec_return_def elim!: dec_bind_InrE dec_wrap_InrE dest!: typed_fields)

interpretation t_MsgNewDetailedInfo: tl_typed MsgNewDetailedInfo_Encode MsgNewDetailedInfo_Decode MsgNewDetailedInfo_ok
  by (unfold_locales; (rule MsgNewDetailedInfo_typed, assumption)?;
      simp add: MsgNewDetailedInfo_ok_def MsgNewDetailedInfo_Decode_def MsgNewDetailedInfo_Encode_def MsgNewDetailedInfo_DecodeBare_def MsgNewDetailedInfo_EncodeBare_def tl_simps consumes_intros)

lemma MsgResendReq_typed: "MsgResendReq_Decode b = (Inr v, rest) \<Longrightarrow> MsgResendReq_ok v"
  by (auto simp: MsgResendReq_Decode_def MsgResendReq_DecodeBare_def MsgResendReq_ok_def dec_return_def elim!: dec_bind_InrE dec_wrap_InrE dest!: typed_fields)

interpretation t_MsgResendReq: tl_typed MsgResendReq_Encode MsgResendReq_Decode MsgResendReq_ok
  by (unfold_locales; (rule MsgResendReq_typed, assumption)?;
      simp add: MsgResendReq_ok_def MsgResendReq_Decode_def MsgResendReq_Encode_def MsgResendReq_DecodeBare_def MsgResendReq_EncodeBare_def tl_simps consumes_intros)

lemma MsgsAllInfo_typed: "MsgsAllInfo_Decode b = (Inr v, rest) \<Longrightarrow> MsgsAllInfo_ok v"
  by (auto simp: MsgsAllInfo_Decode_def MsgsAllInfo_DecodeBare_def MsgsAllInfo_ok_def dec_return_def elim!: dec_bind_InrE dec_wrap_InrE dest!: typed_fields)

interpretation t_MsgsAllInfo: tl_typed MsgsAllInfo_Encode MsgsAllInfo_Decode MsgsAllInfo_ok
  by (unfold_locales; (rule MsgsAllInfo_typed, assumption)?;
      simp add: MsgsAllInfo_ok_def MsgsAllInfo_Decode_def MsgsAllInfo_Encode_def MsgsAllInfo_DecodeBare_def MsgsAllInfo_EncodeBare_def tl_simps consumes_intros)

lemma MsgsStateInfo_typed: "MsgsStateInfo_Decode b = (Inr v, rest) \<Longrightarrow> MsgsStateInfo_ok v"
  by (auto simp: MsgsStateInfo_Decode_def MsgsStateInfo_DecodeBare_def MsgsStateInfo_ok_def dec_return_def elim!: dec_bind_InrE dec_wrap_InrE dest!: typed_fields)

interpretation t_MsgsStateInfo: tl_typed MsgsStateInfo_Encode MsgsStateInfo_Decode MsgsStateInfo_ok
  by (unfold_locales; (rule MsgsStateInfo_typed, assumption)?;
      simp add: MsgsStateInfo_ok_def MsgsStateInfo_Decode_def MsgsStateInfo_Encode_def MsgsStateInfo_DecodeBare_def MsgsStateInfo_EncodeBare_def tl_simps consumes_intros)

lemma MsgsStateReq_typed: "MsgsStateReq_Decode b = (Inr v, rest) \<Longrightarrow> MsgsStateReq_ok v"
  by (auto simp: MsgsStateReq_Decode_def MsgsStateReq_DecodeBare_def MsgsStateReq_ok_def dec_return_def elim!: dec_bind_InrE dec_wrap_InrE dest!: typed_fields)

interpretation t_MsgsStateReq: tl_typed MsgsStateReq_Encode MsgsStateReq_Decode MsgsStateReq_ok
  by (unfold_locales; (rule MsgsStateReq_typed, assumption)?;
      simp add: MsgsStateReq_ok_def MsgsStateReq_Decode_def MsgsStateReq_Encode_def MsgsStateReq_DecodeBare_def MsgsStateReq_EncodeBare_def tl_simps consumes_intros)

lemma PingDelayDisconnectRequest_typed: "PingDelayDisconnectRequest_Decode b = (Inr v, rest) \<Longrightarrow> PingDelayDisconnectRequest_ok v"
  by (auto simp: PingDelayDisconnectRequest_Decode_def PingDelayDisconnectRequest_DecodeBare_def PingDelayDisconnectRequest_ok_def dec_return_def elim!: dec_bind_InrE dec_wrap_InrE dest!: typed_fields)

interpretation t_PingDelayDisconnectRequest: tl_typed PingDelayDisconnectRequest_Encode PingDelayDisconnectRequest_Decode PingDelayDisconnectRequest_ok
  by (unfold_locales; (rule PingDelayDisconnectRequest_typed, assumption)?;
      simp add: PingDelayDisconnectRequest_ok_def PingDelayDisconnectRequest_Decode_def PingDelayDisconnectRequest_Encode_def PingDelayDisconnectRequest_DecodeBare_def PingDelayDisconnectRequest_EncodeBare_def tl_simps consumes_intros)

lemma PingRequest_typed: "PingRequest_Decode b = (Inr v, rest) \<Longrightarrow> PingRequest_ok v"
  by (auto simp: PingRequest_Decode_def PingRequest_DecodeBare_def PingRequest_ok_def dec_return_def elim!: dec_bind_InrE dec_wrap_InrE dest!: typed_fields)

interpretation t_PingRequest: tl_typed PingRequest_Encode PingRequest_Decode PingRequest_ok
  by (unfold_locales; (rule PingRequest_typed, assumption)?;
      simp add: PingRequest_ok_def PingRequest_Decode_def PingRequest_Encode_def PingRequest_DecodeBare_def PingRequest_EncodeBare_def tl_simps consumes_intros)

lemma RPCDropAnswerRequest_typed: "RPCDropAnswerRequest_Decode b = (Inr v, rest) \<Longrightarrow> RPCDropAnswerRequest_ok v"
  by (auto simp: RPCDropAnswerRequest_Decode_def RPCDropAnswerRequest_DecodeBare_def RPCDropAnswerRequest_ok_def dec_return_def elim!: dec_bind_InrE dec_wrap_InrE dest!: typed_fields)

interpretation t_RPCDropAnswerRequest: tl_typed RPCDropAnswerRequest_Encode RPCDropAnswerRequest_Decode RPCDropAnswerRequest_ok
  by (unfold_locales; (rule RPCDropAnswerRequest_typed, assumption)?;
      simp add: RPCDropAnswerRequest_ok_def RPCDropAnswerRequest_Decode_def RPCDropAnswerRequest_Encode_def RPCDropAnswerRequest_DecodeBare_def RPCDropAnswerRequest_EncodeBare_def tl_simps consumes_intros)

lemma RPCAnswerUnknown_typed: "RPCAnswerUnknown_Decode b = (Inr v, rest) \<Longrightarrow> RPCAnswerUnknown_ok v"
  by (auto simp: RPCAnswerUnknown_Decode_def RPCAnswerUnknown_DecodeBare_def RPCAnswerUnknown_ok_def dec_return_def elim!: dec_bind_InrE dec_wrap_InrE dest!: typed_fields)

interpretation t_RPCAnswerUnknown: tl_typed RPCAnswerUnknown_Encode RPCAnswerUnknown_Decode RPCAnswerUnknown_ok
  by (unfold_locales; (rule RPCAnswerUnknown_typed, assumption)?;
      simp add: RPCAnswerUnknown_ok_def RPCAnswerUnknown_Decode_def RPCAnswerUnknown_Encode_def RPCAnswerUnknown_DecodeBare_def RPCAnswerUnknown_EncodeBare_def tl_simps consumes_intros)

lemma RPCAnswerDroppedRunning_typed: "RPCAnswerDroppedRunning_Decode b = (Inr v, rest) \<Longrightarrow> RPCAnswerDroppedRunning_ok v"
  by (auto simp: RPCAnswerDroppedRunning_Decode_def RPCAnswerDroppedRunning_DecodeBare_def RPCAnswerDroppedRunning_ok_def dec_return_def elim!: dec_bind_InrE dec_wrap_InrE dest!: typed_fields)

interpretation t_RPCAnswerDroppedRunning: tl_typed RPCAnswerDroppedRunning_Encode RPCAnswerDroppedRunning_Decode RPCAnswerDroppedRunning_ok
  by (unfold_locales; (rule RPCAnswerDroppedRunning_typed, assumption)?;
      simp add: RPCAnswerDroppedRunning_ok_def RPCAnswerDroppedRunning_Decode_def RPCAnswerDroppedRunning_Encode_def RPCAnswerDroppedRunning_DecodeBare_def RPCAnswerDroppedRunning_EncodeBare_def tl_simps consumes_intros)

lemma RPCAnswerDropped_typed: "RPCAnswerDropped_Decode b = (Inr v, rest) \<Longrightarrow> RPCAnswerDropped_ok v"
  by (auto simp: RPCAnswerDropped_Decode_def RPCAnswerDropped_DecodeBare_def RPCAnswerDropped_ok_def dec_return_def elim!: dec_bind_InrE dec_wrap_InrE dest!: typed_fields)

interpretation t_RPCAnswerDropped: tl_typed RPCAnswerDropped_Encode RPCAnswerDropped_Decode RPCAnswerDropped_ok
  by (unfold_locales; (rule RPCAnswerDropped_typed, assumption)?;
      simp add: RPCAnswerDropped_ok_def RPCAnswerDropped_Decode_def RPCAnswerDropped_Encode_def RPCAnswerDropped_DecodeBare_def RPCAnswerDropped_EncodeBare_def tl_simps consumes_intros)

definition DestroySessionResClass_ok :: "DestroySessionResClass \<Rightarrow> bool" where
  "DestroySessionResClass_ok d \<longleftrightarrow> (case d of DSR_DestroySessionOk v \<Rightarrow> DestroySessionOk_ok v | DSR_DestroySessionNone v \<Rightarrow> DestroySessionNone_ok v)"

definition MsgDetailedInfoClass_ok :: "MsgDetailedInfoClass \<Rightarrow> bool" where
  "MsgDetailedInfoClass_ok d \<longleftrightarrow> (case d of MDI_MsgDetailedInfo v \<Rightarrow> MsgDetailedInfo_ok v | MDI_MsgNewDetailedInfo v \<Rightarrow> MsgNewDetailedInfo_ok v)"

definition RPCDropAnswerClass_ok :: "RPCDropAnswerClass \<Rightarrow> bool" where
  "RPCDropAnswerClass_ok d \<longleftrightarrow> (case d of RDA_RPCAnswerUnknown v \<Rightarrow> RPCAnswerUnknown_ok v | RDA_RPCAnswerDroppedRunning v \<Rightarrow> RPCAnswerDroppedRunning_ok v | RDA_RPCAnswerDropped v \<Rightarrow> RPCAnswerDropped_ok v)"

section \<open>Class decoders\<close>

lemmas service_class_simps = tl_simps PeekID_app DestroySessionOkTypeID_def DestroySessionNoneTypeID_def MsgDetailedInfoTypeID_def
  MsgNewDetailedInfoTypeID_def RPCAnswerUnknownTypeID_def RPCAnswerDroppedRunningTypeID_def RPCAnswerDroppedTypeID_def

lemma DecodeDestroySessionRes_app:
  "DecodeDestroySessionRes (DestroySessionOk_Encode k [] @ rest) = (Inr (DSR_DestroySessionOk k), rest)"
  "DecodeDestroySessionRes (DestroySessionNone_Encode n [] @ rest) = (Inr (DSR_DestroySessionNone n), rest)"
  using t_DestroySessionOk.get_put[of k rest] t_DestroySessionNone.get_put[of n rest]
  by (simp_all add: service_class_simps DecodeDestroySessionRes_def DestroySessionOk_Encode_def DestroySessionNone_Encode_def
      DestroySessionOk_EncodeBare_def DestroySessionNone_EncodeBare_def DestroySessionOk_ok_def DestroySessionNone_ok_def)

lemma DecodeRPCDropAnswer_app:
  "DecodeRPCDropAnswer (RPCAnswerUnknown_Encode u [] @ rest) = (Inr (RDA_RPCAnswerUnknown u), rest)"
  "DecodeRPCDropAnswer (RPCAnswerDroppedRunning_Encode u [] @ rest) = (Inr (RDA_RPCAnswerDroppedRunning u), rest)"
  "RPCAnswerDropped_ok d \<Longrightarrow> DecodeRPCDropAnswer (RPCAnswerDropped_Encode d [] @ rest) = (Inr (RDA_RPCAnswerDropped d), rest)"
  using t_RPCAnswerUnknown.get_put[of u rest] t_RPCAnswerDroppedRunning.get_put[of u rest] t_RPCAnswerDropped.get_put[of d rest]
  by (simp_all add: service_class_simps DecodeRPCDropAnswer_def RPCAnswerUnknown_Encode_def RPCAnswerDroppedRunning_Encode_def RPCAnswerDropped_Encode_def
      RPCAnswerUnknown_EncodeBare_def RPCAnswerDroppedRunning_EncodeBare_def RPCAnswerDropped_EncodeBare_def
      RPCAnswerUnknown_ok_def RPCAnswerDroppedRunning_ok_def)

lemma DecodeMsgDetailedInfo_app:
  "MsgDetailedInfo_ok m \<Longrightarrow> DecodeMsgDetailedInfo (MsgDetailedInfo_Encode m [] @ rest) = (Inr (MDI_MsgDetailedInfo m), rest)"
  "MsgNewDetailedInfo_ok n \<Longrightarrow> DecodeMsgDetailedInfo (MsgNewDetailedInfo_Encode n [] @ rest) = (Inr (MDI_MsgNewDetailedInfo n), rest)"
  using t_MsgDetailedInfo.get_put[of m rest] t_MsgNewDetailedInfo.get_put[of n rest]
  by (simp_all add: service_class_simps DecodeMsgDetailedInfo_def MsgDetailedInfo_Encode_def MsgNewDetailedInfo_Encode_def
      MsgDetailedInfo_EncodeBare_def MsgNewDetailedInfo_EncodeBare_def)

lemma DestroySessionResClass_typed: "DecodeDestroySessionRes b = (Inr d, rest) \<Longrightarrow> DestroySessionResClass_ok d"
  by (auto simp: DecodeDestroySessionRes_def DestroySessionResClass_ok_def dec_return_def dec_fail_def elim!: dec_bind_InrE dec_wrap_InrE split: if_splits)
    (erule DestroySessionOk_typed | erule DestroySessionNone_typed)+

interpretation t_DestroySessionResClass: tl_typed DestroySessionResClass_Encode DecodeDestroySessionRes DestroySessionResClass_ok
proof
  show "DestroySessionResClass_Encode v b = b @ DestroySessionResClass_Encode v []" for v b
    using t_DestroySessionOk.put_append[of _ b] t_DestroySessionNone.put_append[of _ b] by (cases v) (simp_all add: DestroySessionResClass_Encode_def)
  show "DestroySessionResClass_ok v \<Longrightarrow> 4 dvd length (DestroySessionResClass_Encode v [])" for v
    by (cases v) (simp_all add: DestroySessionResClass_Encode_def DestroySessionResClass_ok_def t_DestroySessionOk.put_aligned t_DestroySessionNone.put_aligned)
  show "DestroySessionResClass_ok v \<Longrightarrow> DecodeDestroySessionRes (DestroySessionResClass_Encode v [] @ rest) = (Inr v, rest)" for v rest
    by (cases v) (simp_all add: DestroySessionResClass_Encode_def DestroySessionResClass_ok_def DecodeDestroySessionRes_app)
  show "consumes DecodeDestroySessionRes" unfolding DecodeDestroySessionRes_def
    by (intro consumes_intros t_DestroySessionOk.get_consumes t_DestroySessionNone.get_consumes)
qed (rule DestroySessionResClass_typed)

lemma MsgDetailedInfoClass_typed: "DecodeMsgDetailedInfo b = (Inr d, rest) \<Longrightarrow> MsgDetailedInfoClass_ok d"
  by (auto simp: DecodeMsgDetailedInfo_def MsgDetailedInfoClass_ok_def dec_return_def dec_fail_def elim!: dec_bind_InrE dec_wrap_InrE split: if_splits)
    (erule MsgDetailedInfo_typed | erule MsgNewDetailedInfo_typed)+

interpretation t_MsgDetailedInfoClass: tl_typed MsgDetailedInfoClass_Encode DecodeMsgDetailedInfo MsgDetailedInfoClass_ok
proof
  show "MsgDetailedInfoClass_Encode v b = b @ MsgDetailedInfoClass_Encode v []" for v b
    using t_MsgDetailedInfo.put_append[of _ b] t_MsgNewDetailedInfo.put_append[of _ b] by (cases v) (simp_all add: MsgDetailedInfoClass_Encode_def)
  show "MsgDetailedInfoClass_ok v \<Longrightarrow> 4 dvd length (MsgDetailedInfoClass_Encode v [])" for v
    by (cases v) (simp_all add: MsgDetailedInfoClass_Encode_def MsgDetailedInfoClass_ok_def t_MsgDetailedInfo.put_aligned t_MsgNewDetailedInfo.put_aligned)
  show "MsgDetailedInfoClass_ok v \<Longrightarrow> DecodeMsgDetailedInfo (MsgDetailedInfoClass_Encode v [] @ rest) = (Inr v, rest)" for v rest
    by (cases v) (simp_all add: MsgDetailedInfoClass_Encode_def MsgDetailedInfoClass_ok_def DecodeMsgDetailedInfo_app)
  show "consumes DecodeMsgDetailedInfo" unfolding DecodeMsgDetailedInfo_def
    by (intro consumes_intros t_MsgDetailedInfo.get_consumes t_MsgNewDetailedInfo.get_consumes)
qed (rule MsgDetailedInfoClass_typed)

lemma RPCDropAnswerClass_typed: "DecodeRPCDropAnswer b = (Inr d, rest) \<Longrightarrow> RPCDropAnswerClass_ok d"
  by (auto simp: DecodeRPCDropAnswer_def RPCDropAnswerClass_ok_def dec_return_def dec_fail_def elim!: dec_bind_InrE dec_wrap_InrE split: if_splits)
    (erule RPCAnswerUnknown_typed | erule RPCAnswerDroppedRunning_typed | erule RPCAnswerDropped_typed)+

interpretation t_RPCDropAnswerClass: tl_typed RPCDropAnswerClass_Encode DecodeRPCDropAnswer RPCDropAnswerClass_ok
proof
  show "RPCDropAnswerClass_Encode v b = b @ RPCDropAnswerClass_Encode v []" for v b
    using t_RPCAnswerUnknown.put_append[of _ b] t_RPCAnswerDroppedRunning.put_append[of _ b] t_RPCAnswerDropped.put_append[of _ b] by (cases v) (simp_all add: RPCDropAnswerClass_Encode_def)
  show "RPCDropAnswerClass_ok v \<Longrightarrow> 4 dvd length (RPCDropAnswerClass_Encode v [])" for v
    by (cases v) (simp_all add: RPCDropAnswerClass_Encode_def RPCDropAnswerClass_ok_def t_RPCAnswerUnknown.put_aligned t_RPCAnswerDroppedRunning.put_aligned t_RPCAnswerDropped.put_aligned)
  show "RPCDropAnswerClass_ok v \<Longrightarrow> DecodeRPCDropAnswer (RPCDropAnswerClass_Encode v [] @ rest) = (Inr v, rest)" for v rest
    by (cases v) (simp_all add: RPCDropAnswerClass_Encode_def RPCDropAnswerClass_ok_def DecodeRPCDropAnswer_app)
  show "consumes DecodeRPCDropAnswer" unfolding DecodeRPCDropAnswer_def
    by (intro consumes_intros t_RPCAnswerUnknown.get_consumes t_RPCAnswerDroppedRunning.get_consumes t_RPCAnswerDropped.get_consumes)
qed (rule RPCDropAnswerClass_typed)

end
