(* ===== verification/Rpc_Engine.thy ===== *)
theory Rpc_Engine
  imports Go_Prelude
begin

text \<open>
  Package \<open>rpc\<close>: the engine that matches the server's answers with the calls waiting for
  them. \<open>Engine\<close> is shared by the goroutines that run \<open>Do\<close>, by the ones that deliver
  notifications (\<open>NotifyResult\<close>, \<open>NotifyError\<close>, \<open>NotifyAcks\<close>) and by the one that closes
  it; what is atomic is what the code does under the mutex, one channel operation or one
  \<open>select\<close>. The state holds the engine's fields and, for every call of \<open>Do\<close>, its local
  variables with a program counter; \<open>step\<close> performs one such atomic action, named by an
  event that also carries what the environment chooses (whether a send fails, which ready
  case a \<open>select\<close> takes), and is \<open>None\<close> where the goroutine cannot take it. A run is a
  sequence of events; every interleaving is one.
\<close>

section \<open>State\<close>

type_synonym msg_id = "64 word"

text \<open>
  A registered callback: the closure \<open>handler\<close> of call \<open>t\<close>, or the function that does
  nothing which \<open>Do\<close> leaves behind while it drops a request.
\<close>

datatype callback = Handler nat | Nop

datatype payload = Result bytes | Error go_error

text \<open>
  A notification in flight: \<open>Fetched m f p\<close> after the callback was looked up for message
  \<open>m\<close> under the mutex, \<open>Running m t p\<close> inside \<open>handler\<close> of call \<open>t\<close> after its
  compare-and-swap.
\<close>

datatype notification = Fetched msg_id callback payload | Running msg_id nat payload

text \<open>
  Where a call of \<open>Do\<close> is. \<open>PRetryDone e\<close>: \<open>retryUntilAck\<close> returns \<open>e\<close>, its deferred
  \<open>removeAck\<close> to run; \<open>PCheck e\<close>: back in \<open>Do\<close>; \<open>PReturn r\<close>: \<open>Do\<close> returns \<open>r\<close>, its deferred
  calls to run; \<open>PReturned r\<close>: over.
\<close>

datatype (discs_sels) pc =
    PRegister | PWaitAck | PSend | PLoop | PRetryDone "go_error option" | PCheck "go_error option"
  | PSelect | PDrop | PReturn "go_error option" | PUnregistered "go_error option" | PReturned "go_error option"

text \<open>
  \<open>Output\<close> is \<open>req.Output.Decode\<close>: its error. \<open>ctxErr\<close> and \<open>retryErr\<close> are \<open>ctx.Err()\<close> and
  \<open>retryCtx.Err()\<close>. \<open>sends\<close> counts the calls of \<open>send\<close>.
\<close>

record call =
  MsgID :: msg_id
  Output :: "bytes \<Rightarrow> go_error option"
  c_pc :: pc
  handlerCalled :: bool
  c_done :: bool
  resultErr :: "go_error option"
  ctxErr :: "go_error option"
  retryErr :: "go_error option"
  ackChan :: nat
  retries :: int
  c_sent :: bool
  sends :: nat

text \<open>
  Channels of acknowledgements are numbered; \<open>ackClosed\<close> are the closed ones. \<open>reqDone\<close>:
  \<open>reqCtx\<close> is cancelled (with cause \<open>ErrEngineClosed\<close>). \<open>closeReturned\<close>: \<open>wg.Wait\<close> of
  \<open>Close\<close> has returned. \<open>notified\<close> and \<open>delivered\<close> record the notifications received and
  the ones whose handler ran to its end, the latest first. \<open>panicked\<close>: a closed channel
  was closed again.
\<close>

record Engine =
  e_rpc :: "msg_id \<rightharpoonup> callback"
  e_ack :: "msg_id \<rightharpoonup> nat"
  maxRetries :: int
  closed :: bool
  reqDone :: bool
  wg :: int
  calls :: "nat \<rightharpoonup> call"
  ackClosed :: "nat set"
  nextChan :: nat
  flight :: "notification list"
  notified :: "(msg_id \<times> payload) list"
  delivered :: "(nat \<times> msg_id \<times> payload) list"
  closeReturned :: bool
  panicked :: bool

definition New :: "int \<Rightarrow> Engine" where
  "New n = \<lparr>e_rpc = Map.empty, e_ack = Map.empty, maxRetries = (if n = 0 then 5 else n), closed = False,
     reqDone = False, wg = 0, calls = Map.empty, ackClosed = {}, nextChan = 0, flight = [],
     notified = [], delivered = [], closeReturned = False, panicked = False\<rparr>"

section \<open>Steps\<close>

datatype event =
    DoBegin nat msg_id "bytes \<Rightarrow> go_error option"
  | Register nat | WaitAck nat | Send nat "go_error option"
  | LoopCtx nat | LoopReq nat | LoopAck nat | LoopTimer nat "go_error option"
  | RemoveAck nat | Check nat | SelCtx nat | SelReq nat | SelDone nat | Drop nat
  | Unregister nat | Return nat
  | Notify msg_id payload | Call nat | Finish nat | NotifyAcks "msg_id list"
  | CtxDone nat go_error | ReqCancel | Close | CloseReturn

definition new_call :: "msg_id \<Rightarrow> (bytes \<Rightarrow> go_error option) \<Rightarrow> pc \<Rightarrow> call" where
  "new_call m out p = \<lparr>MsgID = m, Output = out, c_pc = p, handlerCalled = False, c_done = False,
     resultErr = None, ctxErr = None, retryErr = None, ackChan = 0, retries = 0, c_sent = False, sends = 0\<rparr>"

definition set_call :: "nat \<Rightarrow> call \<Rightarrow> Engine \<Rightarrow> Engine" where
  "set_call t c e = e\<lparr>calls := (calls e)(t \<mapsto> c)\<rparr>"

text \<open>\<open>context.WithCancel\<close>: the first cancellation decides the error.\<close>

definition cancel :: "go_error \<Rightarrow> go_error option \<Rightarrow> go_error option" where
  "cancel err old = (case old of None \<Rightarrow> Some err | Some e \<Rightarrow> Some e)"

text \<open>\<open>errors.Is(err, target)\<close> for a sentinel target.\<close>

definition errors_Is :: "go_error \<Rightarrow> go_error option \<Rightarrow> bool" where
  "errors_Is err target \<longleftrightarrow> (case target of None \<Rightarrow> False | Some t \<Rightarrow> root_error err = t)"

subsection \<open>Do\<close>

definition do_begin :: "nat \<Rightarrow> msg_id \<Rightarrow> (bytes \<Rightarrow> go_error option) \<Rightarrow> Engine \<Rightarrow> Engine option" where
  "do_begin t m out e =
     (if calls e t \<noteq> None then None
      else if closed e then Some (set_call t (new_call m out (PReturned (Some ErrEngineClosed))) e)
      else Some (set_call t (new_call m out PRegister) (e\<lparr>wg := wg e + 1\<rparr>)))"

definition do_register :: "nat \<Rightarrow> call \<Rightarrow> Engine \<Rightarrow> Engine" where
  "do_register t c e = set_call t (c\<lparr>c_pc := PWaitAck\<rparr>) (e\<lparr>e_rpc := (e_rpc e)(MsgID c \<mapsto> Handler t)\<rparr>)"

text \<open>\<open>err != nil && !errors.Is(err, retryCtx.Err())\<close> after \<open>retryUntilAck\<close>.\<close>

definition do_check :: "nat \<Rightarrow> call \<Rightarrow> go_error option \<Rightarrow> Engine \<Rightarrow> Engine" where
  "do_check t c err e =
     (case err of
        Some x \<Rightarrow> if \<not> errors_Is x (retryErr c) then set_call t (c\<lparr>c_pc := PReturn (Some (Wrap ''retryUntilAck'' x))\<rparr>) e
                  else set_call t (c\<lparr>c_pc := PSelect\<rparr>) e
      | None \<Rightarrow> set_call t (c\<lparr>c_pc := PSelect\<rparr>) e)"

definition do_sel_ctx :: "nat \<Rightarrow> call \<Rightarrow> Engine \<Rightarrow> Engine" where
  "do_sel_ctx t c e =
     (if \<not> c_sent c then set_call t (c\<lparr>c_pc := PReturn (ctxErr c)\<rparr>) e
      else set_call t (c\<lparr>c_pc := PDrop\<rparr>) (e\<lparr>e_rpc := (e_rpc e)(MsgID c \<mapsto> Nop)\<rparr>))"

definition do_sel_req :: "nat \<Rightarrow> call \<Rightarrow> Engine \<Rightarrow> Engine" where
  "do_sel_req t c e =
     (if c_done c then set_call t (c\<lparr>c_pc := PReturn (resultErr c)\<rparr>) e
      else set_call t (c\<lparr>c_pc := PReturn (Some (Wrap ''engine forcibly closed'' ContextCanceled))\<rparr>) e)"

definition do_unregister :: "nat \<Rightarrow> call \<Rightarrow> go_error option \<Rightarrow> Engine \<Rightarrow> Engine" where
  "do_unregister t c r e = set_call t (c\<lparr>c_pc := PUnregistered r\<rparr>) (e\<lparr>e_rpc := (e_rpc e)(MsgID c := None)\<rparr>)"

definition do_return :: "nat \<Rightarrow> call \<Rightarrow> go_error option \<Rightarrow> Engine \<Rightarrow> Engine" where
  "do_return t c r e =
     set_call t (c\<lparr>c_pc := PReturned r, retryErr := cancel ContextCanceled (retryErr c)\<rparr>) (e\<lparr>wg := wg e - 1\<rparr>)"

subsection \<open>retryUntilAck, waitAck, removeAck\<close>

definition waitAck :: "nat \<Rightarrow> call \<Rightarrow> Engine \<Rightarrow> Engine" where
  "waitAck t c e =
     (case e_ack e (MsgID c) of
        Some ch \<Rightarrow> set_call t (c\<lparr>c_pc := PSend, ackChan := ch\<rparr>) e
      | None \<Rightarrow> set_call t (c\<lparr>c_pc := PSend, ackChan := nextChan e\<rparr>)
                 (e\<lparr>e_ack := (e_ack e)(MsgID c \<mapsto> nextChan e), nextChan := nextChan e + 1\<rparr>))"

definition removeAck :: "nat \<Rightarrow> call \<Rightarrow> go_error option \<Rightarrow> Engine \<Rightarrow> Engine" where
  "removeAck t c err e = set_call t (c\<lparr>c_pc := PCheck err\<rparr>) (e\<lparr>e_ack := (e_ack e)(MsgID c := None)\<rparr>)"

definition first_send :: "nat \<Rightarrow> call \<Rightarrow> go_error option \<Rightarrow> Engine \<Rightarrow> Engine" where
  "first_send t c err e =
     (case err of
        Some x \<Rightarrow> set_call t (c\<lparr>c_pc := PRetryDone (Some (Wrap ''send'' x)), sends := sends c + 1\<rparr>) e
      | None \<Rightarrow> set_call t (c\<lparr>c_pc := PLoop, c_sent := True, sends := sends c + 1\<rparr>) e)"

definition loop_req :: "nat \<Rightarrow> call \<Rightarrow> Engine \<Rightarrow> Engine" where
  "loop_req t c e =
     (if ackChan c \<in> ackClosed e then set_call t (c\<lparr>c_pc := PRetryDone None\<rparr>) e
      else set_call t (c\<lparr>c_pc := PRetryDone (Some (Wrap ''engine forcibly closed'' ErrEngineClosed))\<rparr>) e)"

definition loop_timer :: "nat \<Rightarrow> call \<Rightarrow> go_error option \<Rightarrow> Engine \<Rightarrow> Engine" where
  "loop_timer t c err e =
     (let c' = c\<lparr>sends := sends c + 1\<rparr> in
      case err of
        Some x \<Rightarrow>
          if errors_Is x (Some ContextCanceled) then set_call t (c'\<lparr>c_pc := PRetryDone None\<rparr>) e
          else set_call t (c'\<lparr>c_pc := PRetryDone (Some x)\<rparr>) e
      | None \<Rightarrow>
          if retries c + 1 \<ge> maxRetries e
          then set_call t (c'\<lparr>retries := retries c + 1, c_pc := PRetryDone (Some (RetryLimitReachedErr (retries c + 1)))\<rparr>) e
          else set_call t (c'\<lparr>retries := retries c + 1\<rparr>) e)"

subsection \<open>Notifications and closing\<close>

text \<open>\<open>NotifyResult\<close> and \<open>NotifyError\<close>: the callback is fetched under the mutex and called after it.\<close>

definition notify :: "msg_id \<Rightarrow> payload \<Rightarrow> Engine \<Rightarrow> Engine" where
  "notify m p e =
     (case e_rpc e m of
        None \<Rightarrow> e\<lparr>notified := (m, p) # notified e\<rparr>
      | Some fn \<Rightarrow> e\<lparr>notified := (m, p) # notified e, flight := flight e @ [Fetched m fn p]\<rparr>)"

definition remove_nth :: "nat \<Rightarrow> 'a list \<Rightarrow> 'a list" where
  "remove_nth i xs = take i xs @ drop (Suc i) xs"

definition handler_start :: "nat \<Rightarrow> Engine \<Rightarrow> Engine option" where
  "handler_start i e =
     (if i < length (flight e) then
        (case flight e ! i of
           Fetched m Nop p \<Rightarrow> Some (e\<lparr>flight := remove_nth i (flight e)\<rparr>)
         | Fetched m (Handler t) p \<Rightarrow>
             (case calls e t of
                None \<Rightarrow> None
              | Some c \<Rightarrow>
                  if handlerCalled c then Some (e\<lparr>flight := remove_nth i (flight e)\<rparr>)
                  else Some (set_call t (c\<lparr>handlerCalled := True\<rparr>) (e\<lparr>flight := (flight e)[i := Running m t p]\<rparr>)))
         | Running m t p \<Rightarrow> None)
      else None)"

definition handler_result :: "call \<Rightarrow> payload \<Rightarrow> go_error option" where
  "handler_result c p = (case p of Error err \<Rightarrow> Some err | Result b \<Rightarrow> Output c b)"

text \<open>The end of \<open>handler\<close>: the result is set, then \<open>done\<close> is closed and \<open>retryCtx\<close> cancelled.\<close>

definition handler_finish :: "nat \<Rightarrow> Engine \<Rightarrow> Engine option" where
  "handler_finish i e =
     (if i < length (flight e) then
        (case flight e ! i of
           Fetched m fn p \<Rightarrow> None
         | Running m t p \<Rightarrow>
             (case calls e t of
                None \<Rightarrow> None
              | Some c \<Rightarrow> Some (set_call t
                  (c\<lparr>resultErr := handler_result c p, c_done := True, retryErr := cancel ContextCanceled (retryErr c)\<rparr>)
                  (e\<lparr>flight := remove_nth i (flight e), delivered := (t, m, p) # delivered e\<rparr>))))
      else None)"

primrec notify_acks :: "msg_id list \<Rightarrow> Engine \<Rightarrow> Engine" where
  "notify_acks [] e = e"
| "notify_acks (m # ms) e =
     (case e_ack e m of
        None \<Rightarrow> notify_acks ms e
      | Some ch \<Rightarrow> notify_acks ms
          (e\<lparr>panicked := (panicked e \<or> ch \<in> ackClosed e), ackClosed := insert ch (ackClosed e),
             e_ack := (e_ack e)(m := None)\<rparr>))"

text \<open>Cancelling the caller's context cancels \<open>retryCtx\<close>, its child.\<close>

definition ctx_done :: "nat \<Rightarrow> go_error \<Rightarrow> call \<Rightarrow> Engine \<Rightarrow> Engine" where
  "ctx_done t err c e = set_call t (c\<lparr>ctxErr := Some err, retryErr := cancel err (retryErr c)\<rparr>) e"

subsection \<open>One step\<close>

text \<open>The step of call \<open>t\<close> at a program counter that satisfies \<open>g\<close>.\<close>

definition at_call :: "nat \<Rightarrow> Engine \<Rightarrow> (call \<Rightarrow> bool) \<Rightarrow> (call \<Rightarrow> Engine) \<Rightarrow> Engine option" where
  "at_call t e g f = (case calls e t of None \<Rightarrow> None | Some c \<Rightarrow> if g c then Some (f c) else None)"

fun step :: "event \<Rightarrow> Engine \<Rightarrow> Engine option" where
  "step (DoBegin t m out) e = do_begin t m out e"
| "step (Register t) e = at_call t e (\<lambda>c. c_pc c = PRegister) (\<lambda>c. do_register t c e)"
| "step (WaitAck t) e = at_call t e (\<lambda>c. c_pc c = PWaitAck) (\<lambda>c. waitAck t c e)"
| "step (Send t err) e = at_call t e (\<lambda>c. c_pc c = PSend) (\<lambda>c. first_send t c err e)"
| "step (LoopCtx t) e = at_call t e (\<lambda>c. c_pc c = PLoop \<and> retryErr c \<noteq> None)
     (\<lambda>c. set_call t (c\<lparr>c_pc := PRetryDone (retryErr c)\<rparr>) e)"
| "step (LoopReq t) e = at_call t e (\<lambda>c. c_pc c = PLoop \<and> reqDone e) (\<lambda>c. loop_req t c e)"
| "step (LoopAck t) e = at_call t e (\<lambda>c. c_pc c = PLoop \<and> ackChan c \<in> ackClosed e)
     (\<lambda>c. set_call t (c\<lparr>c_pc := PRetryDone None\<rparr>) e)"
| "step (LoopTimer t err) e = at_call t e (\<lambda>c. c_pc c = PLoop) (\<lambda>c. loop_timer t c err e)"
| "step (RemoveAck t) e = at_call t e (\<lambda>c. is_PRetryDone (c_pc c))
     (\<lambda>c. removeAck t c (un_PRetryDone (c_pc c)) e)"
| "step (Check t) e = at_call t e (\<lambda>c. is_PCheck (c_pc c))
     (\<lambda>c. do_check t c (un_PCheck (c_pc c)) e)"
| "step (SelCtx t) e = at_call t e (\<lambda>c. c_pc c = PSelect \<and> ctxErr c \<noteq> None) (\<lambda>c. do_sel_ctx t c e)"
| "step (SelReq t) e = at_call t e (\<lambda>c. c_pc c = PSelect \<and> reqDone e) (\<lambda>c. do_sel_req t c e)"
| "step (SelDone t) e = at_call t e (\<lambda>c. c_pc c = PSelect \<and> c_done c)
     (\<lambda>c. set_call t (c\<lparr>c_pc := PReturn (resultErr c)\<rparr>) e)"
| "step (Drop t) e = at_call t e (\<lambda>c. c_pc c = PDrop) (\<lambda>c. set_call t (c\<lparr>c_pc := PReturn (ctxErr c)\<rparr>) e)"
| "step (Unregister t) e = at_call t e (\<lambda>c. is_PReturn (c_pc c))
     (\<lambda>c. do_unregister t c (un_PReturn (c_pc c)) e)"
| "step (Return t) e = at_call t e (\<lambda>c. is_PUnregistered (c_pc c))
     (\<lambda>c. do_return t c (un_PUnregistered (c_pc c)) e)"
| "step (Notify m p) e = Some (notify m p e)"
| "step (Call i) e = handler_start i e"
| "step (Finish i) e = handler_finish i e"
| "step (NotifyAcks ms) e = Some (notify_acks ms e)"
| "step (CtxDone t err) e = at_call t e (\<lambda>c. ctxErr c = None) (\<lambda>c. ctx_done t err c e)"
| "step ReqCancel e = Some (e\<lparr>reqDone := True\<rparr>)"
| "step Close e = Some (e\<lparr>closed := True\<rparr>)"
| "step CloseReturn e = (if closed e \<and> wg e = 0 then Some (e\<lparr>closeReturned := True\<rparr>) else None)"

inductive reachable :: "int \<Rightarrow> Engine \<Rightarrow> bool" for n where
  init: "reachable n (New n)"
| step: "reachable n e \<Longrightarrow> step ev e = Some e' \<Longrightarrow> reachable n e'"

primrec run :: "event list \<Rightarrow> Engine \<Rightarrow> Engine option" where
  "run [] e = Some e"
| "run (ev # evs) e = (case step ev e of None \<Rightarrow> None | Some e' \<Rightarrow> run evs e')"


section \<open>Lemmas\<close>

text \<open>Everything that unfolds one step.\<close>

lemmas step_defs = at_call_def do_begin_def do_register_def do_check_def do_sel_ctx_def do_sel_req_def
  do_unregister_def do_return_def waitAck_def removeAck_def first_send_def loop_req_def loop_timer_def
  notify_def handler_start_def handler_finish_def ctx_done_def set_call_def new_call_def Let_def

lemmas step_splits = if_splits option.splits notification.splits callback.splits

lemma notify_acks_frame [simp]:
  "e_rpc (notify_acks ms e) = e_rpc e" "calls (notify_acks ms e) = calls e" "wg (notify_acks ms e) = wg e"
  "closed (notify_acks ms e) = closed e" "reqDone (notify_acks ms e) = reqDone e"
  "flight (notify_acks ms e) = flight e" "notified (notify_acks ms e) = notified e"
  "delivered (notify_acks ms e) = delivered e" "closeReturned (notify_acks ms e) = closeReturned e"
  "maxRetries (notify_acks ms e) = maxRetries e" "nextChan (notify_acks ms e) = nextChan e"
  by (induction ms arbitrary: e; simp split: option.splits)+

subsection \<open>Acknowledgement channels\<close>

definition ack_inv :: "Engine \<Rightarrow> bool" where
  "ack_inv e \<longleftrightarrow> \<not> panicked e \<and> (\<forall>m m' ch. e_ack e m = Some ch \<longrightarrow> e_ack e m' = Some ch \<longrightarrow> m = m')
     \<and> (\<forall>m ch. e_ack e m = Some ch \<longrightarrow> ch < nextChan e \<and> ch \<notin> ackClosed e)
     \<and> (\<forall>ch\<in>ackClosed e. ch < nextChan e)"

lemma ack_inv_acks: "ack_inv e \<Longrightarrow> ack_inv (notify_acks ms e)"
proof (induction ms arbitrary: e)
  case (Cons m ms)
  show ?case
  proof (cases "e_ack e m")
    case None
    then show ?thesis using Cons by simp
  next
    case (Some ch)
    have "ack_inv (e\<lparr>panicked := (panicked e \<or> ch \<in> ackClosed e), ackClosed := insert ch (ackClosed e),
             e_ack := (e_ack e)(m := None)\<rparr>)"
      using Cons.prems Some by (auto simp: ack_inv_def)
    then show ?thesis using Cons.IH Some by simp
  qed
qed simp

lemma step_ack_frame:
  assumes "step ev e = Some e'" "\<forall>t. ev \<noteq> WaitAck t \<and> ev \<noteq> RemoveAck t" "\<forall>ms. ev \<noteq> NotifyAcks ms"
  shows "panicked e' = panicked e \<and> e_ack e' = e_ack e \<and> ackClosed e' = ackClosed e \<and> nextChan e' = nextChan e"
  using assms
  by (cases ev; clarsimp simp: at_call_def split: option.splits if_splits)
    (simp add: step_defs split: step_splits; clarsimp?)+

lemma ack_inv_step:
  assumes "step ev e = Some e'" "ack_inv e"
  shows "ack_inv e'"
proof -
  consider t where "ev = WaitAck t" | t where "ev = RemoveAck t" | ms where "ev = NotifyAcks ms"
    | "\<forall>t. ev \<noteq> WaitAck t \<and> ev \<noteq> RemoveAck t" "\<forall>ms. ev \<noteq> NotifyAcks ms" by blast
  then show ?thesis
  proof cases
    case 1
    then obtain c where "e' = waitAck t c e" using assms(1) by (auto simp: at_call_def split: option.splits if_splits)
    then show ?thesis using assms(2)
      by (cases "e_ack e (MsgID c)") (auto simp: waitAck_def set_call_def ack_inv_def intro: less_SucI)
  next
    case 2
    then obtain c where "e' = removeAck t c (un_PRetryDone (c_pc c)) e"
      using assms(1) by (auto simp: at_call_def split: option.splits if_splits)
    then show ?thesis using assms(2) by (simp add: removeAck_def set_call_def ack_inv_def)
  next
    case 3
    then show ?thesis using assms by (auto simp: ack_inv_acks)
  next
    case 4
    then show ?thesis using assms step_ack_frame[OF assms(1)] by (simp add: ack_inv_def)
  qed
qed

subsection \<open>The steps of a call\<close>

text \<open>The events that are a step of call \<open>t\<close> itself.\<close>

fun own_event :: "nat \<Rightarrow> event \<Rightarrow> bool" where
  "own_event t (Register u) = (u = t)" | "own_event t (WaitAck u) = (u = t)" | "own_event t (Send u err) = (u = t)"
| "own_event t (LoopCtx u) = (u = t)" | "own_event t (LoopReq u) = (u = t)" | "own_event t (LoopAck u) = (u = t)"
| "own_event t (LoopTimer u err) = (u = t)" | "own_event t (RemoveAck u) = (u = t)" | "own_event t (Check u) = (u = t)"
| "own_event t (SelCtx u) = (u = t)" | "own_event t (SelReq u) = (u = t)" | "own_event t (SelDone u) = (u = t)"
| "own_event t (Drop u) = (u = t)" | "own_event t (Unregister u) = (u = t)" | "own_event t (Return u) = (u = t)"
| "own_event t _ = False"

definition active :: "call \<Rightarrow> bool" where
  "active c \<longleftrightarrow> \<not> is_PReturned (c_pc c)"

text \<open>The value a call returns, once that is decided.\<close>

definition c_ret :: "call \<Rightarrow> go_error option option" where
  "c_ret c = (case c_pc c of PReturn r \<Rightarrow> Some r | PUnregistered r \<Rightarrow> Some r | PReturned r \<Rightarrow> Some r | _ \<Rightarrow> None)"

definition pc_inv :: "call \<Rightarrow> bool" where
  "pc_inv c \<longleftrightarrow> (c_pc c = PDrop \<longrightarrow> ctxErr c \<noteq> None) \<and> (c_ret c = Some None \<longrightarrow> c_done c \<and> resultErr c = None)"

definition sends_ok :: "int \<Rightarrow> call \<Rightarrow> bool" where
  "sends_ok mx c \<longleftrightarrow> 0 \<le> retries c \<and> int (sends c) \<le> 1 + max 1 mx
     \<and> (c_pc c \<in> {PRegister, PWaitAck, PSend} \<longrightarrow> sends c = 0 \<and> retries c = 0)
     \<and> (c_pc c = PLoop \<longrightarrow> int (sends c) = retries c + 1 \<and> (retries c = 0 \<or> retries c < mx))"

definition pc_rank :: "pc \<Rightarrow> nat" where
  "pc_rank p = (case p of PRegister \<Rightarrow> 10 | PWaitAck \<Rightarrow> 9 | PSend \<Rightarrow> 8 | PLoop \<Rightarrow> 7 | PRetryDone _ \<Rightarrow> 6 | PCheck _ \<Rightarrow> 5
     | PSelect \<Rightarrow> 4 | PDrop \<Rightarrow> 3 | PReturn _ \<Rightarrow> 2 | PUnregistered _ \<Rightarrow> 1 | PReturned _ \<Rightarrow> 0)"

definition rank :: "int \<Rightarrow> call \<Rightarrow> nat" where
  "rank mx c = pc_rank (c_pc c) + nat (mx - retries c)"

lemmas call_defs = active_def c_ret_def pc_inv_def sends_ok_def rank_def pc_rank_def

text \<open>
  What a step of call \<open>t\<close> does: it changes that call only, leaves the part of the call that
  belongs to its handler alone, keeps the invariants of a call and comes closer to the end.
\<close>

definition own_effect :: "nat \<Rightarrow> Engine \<Rightarrow> Engine \<Rightarrow> call \<Rightarrow> call \<Rightarrow> bool" where
  "own_effect t e e' c c' \<longleftrightarrow>
     calls e t = Some c \<and> calls e' = (calls e)(t \<mapsto> c') \<and> MsgID c' = MsgID c \<and> Output c' = Output c
   \<and> handlerCalled c' = handlerCalled c \<and> c_done c' = c_done c \<and> resultErr c' = resultErr c
   \<and> (\<forall>m u. e_rpc e' m = Some (Handler u) \<longrightarrow> e_rpc e m = Some (Handler u) \<or> m = MsgID c \<and> u = t)
   \<and> flight e' = flight e \<and> notified e' = notified e \<and> delivered e' = delivered e
   \<and> closed e' = closed e \<and> reqDone e' = reqDone e \<and> maxRetries e' = maxRetries e
   \<and> closeReturned e' = closeReturned e \<and> active c
   \<and> wg e' = wg e - (if active c' then 0 else 1)
   \<and> (pc_inv c \<longrightarrow> pc_inv c') \<and> (sends_ok (maxRetries e) c \<longrightarrow> sends_ok (maxRetries e) c')
   \<and> rank (maxRetries e) c' < rank (maxRetries e) c"

lemmas effect_defs = own_effect_def step_defs call_defs

lemma loop_timer_effect:
  assumes "calls e t = Some c" "c_pc c = PLoop"
  shows "own_effect t e (loop_timer t c err e) c (the (calls (loop_timer t c err e) t))"
proof (cases err)
  case None
  then show ?thesis using assms by (cases "retries c + 1 \<ge> maxRetries e") (simp add: effect_defs; arith)+
next
  case (Some x)
  then show ?thesis using assms
    by (cases "errors_Is x (Some ContextCanceled)") (simp add: effect_defs; arith)+
qed

lemma own_step:
  assumes "step ev e = Some e'" "own_event t ev"
  shows "own_effect t e e' (the (calls e t)) (the (calls e' t))"
proof -
  obtain c where c: "calls e t = Some c"
    using assms by (cases ev) (auto simp: at_call_def split: option.splits)
  show ?thesis
  proof (cases ev)
    case (Register u)
    then show ?thesis using assms c
      by (clarsimp simp: at_call_def split: if_splits) (simp add: effect_defs)
  next
    case (WaitAck u)
    then show ?thesis using assms c
      by (clarsimp simp: at_call_def split: if_splits) (cases "e_ack e (MsgID c)"; simp add: effect_defs)
  next
    case (Send u err)
    then show ?thesis using assms c
      by (clarsimp simp: at_call_def split: if_splits) (cases err; simp add: effect_defs; arith)
  next
    case (LoopCtx u)
    then show ?thesis using assms c
      by (clarsimp simp: at_call_def split: if_splits) (simp add: effect_defs)
  next
    case (LoopReq u)
    then show ?thesis using assms c
      by (clarsimp simp: at_call_def split: if_splits) (simp add: effect_defs)
  next
    case (LoopAck u)
    then show ?thesis using assms c
      by (clarsimp simp: at_call_def split: if_splits) (simp add: effect_defs)
  next
    case (LoopTimer u err)
    then show ?thesis using assms c
      by (clarsimp simp: at_call_def split: if_splits) (rule loop_timer_effect)
  next
    case (RemoveAck u)
    then show ?thesis using assms c
      by (clarsimp simp: at_call_def split: if_splits) (cases "c_pc c"; simp add: effect_defs)
  next
    case (Check u)
    then show ?thesis using assms c
      by (clarsimp simp: at_call_def split: if_splits) (cases "c_pc c"; simp; rename_tac x; case_tac x; simp add: effect_defs)
  next
    case (SelCtx u)
    then show ?thesis using assms c
      by (clarsimp simp: at_call_def split: if_splits) (simp add: effect_defs)
  next
    case (SelReq u)
    then show ?thesis using assms c
      by (clarsimp simp: at_call_def split: if_splits) (simp add: effect_defs)
  next
    case (SelDone u)
    then show ?thesis using assms c
      by (clarsimp simp: at_call_def split: if_splits) (simp add: effect_defs)
  next
    case (Drop u)
    then show ?thesis using assms c
      by (clarsimp simp: at_call_def split: if_splits) (cases "ctxErr c"; simp add: effect_defs)
  next
    case (Unregister u)
    then show ?thesis using assms c
      by (clarsimp simp: at_call_def split: if_splits) (cases "c_pc c"; simp add: effect_defs)
  next
    case (Return u)
    then show ?thesis using assms c
      by (clarsimp simp: at_call_def split: if_splits) (cases "c_pc c"; simp add: effect_defs)
  qed (use assms in simp_all)
qed

subsection \<open>Delivery\<close>

primrec running :: "notification list \<Rightarrow> nat list" where
  "running [] = []"
| "running (x # ns) = (case x of Running m t p \<Rightarrow> t # running ns | Fetched m f p \<Rightarrow> running ns)"

lemma running_append [simp]: "running (as @ bs) = running as @ running bs"
  by (induction as) (simp_all split: notification.splits)

lemma running_set: "t \<in> set (running ns) \<longleftrightarrow> (\<exists>m p. Running m t p \<in> set ns)"
  by (induction ns) (auto split: notification.splits)

lemma flight_split:
  assumes "i < length xs"
  obtains as bs where "xs = as @ xs ! i # bs" "remove_nth i xs = as @ bs" "\<And>y. xs[i := y] = as @ y # bs"
  using assms that[of "take i xs" "drop (Suc i) xs"]
  by (simp add: remove_nth_def id_take_nth_drop upd_conv_take_nth_drop)

text \<open>A notification for message \<open>m\<close> that concerns call \<open>t\<close> was received and is for its message.\<close>

definition for_call :: "Engine \<Rightarrow> nat \<Rightarrow> msg_id \<Rightarrow> payload \<Rightarrow> (call \<Rightarrow> bool) \<Rightarrow> bool" where
  "for_call e t m p P \<longleftrightarrow> (m, p) \<in> set (notified e) \<and> (\<exists>c. calls e t = Some c \<and> MsgID c = m \<and> P c)"

definition delivery_inv :: "Engine \<Rightarrow> bool" where
  "delivery_inv e \<longleftrightarrow>
     (\<forall>m t. e_rpc e m = Some (Handler t) \<longrightarrow> (\<exists>c. calls e t = Some c \<and> MsgID c = m))
   \<and> (\<forall>m t p. Fetched m (Handler t) p \<in> set (flight e) \<longrightarrow> for_call e t m p (\<lambda>_. True))
   \<and> (\<forall>m t p. Running m t p \<in> set (flight e) \<longrightarrow> for_call e t m p (\<lambda>c. handlerCalled c \<and> \<not> c_done c))
   \<and> (\<forall>t m p. (t, m, p) \<in> set (delivered e) \<longrightarrow>
        for_call e t m p (\<lambda>c. handlerCalled c \<and> c_done c \<and> resultErr c = handler_result c p))
   \<and> distinct (running (flight e)) \<and> distinct (map fst (delivered e))
   \<and> (\<forall>t c. calls e t = Some c \<longrightarrow> pc_inv c \<and> (c_done c \<longrightarrow> t \<in> fst ` set (delivered e)))"

lemma delivery_inv_New: "delivery_inv (New n)"
  by (simp add: delivery_inv_def New_def)

lemma handler_result_cong: "Output c' = Output c \<Longrightarrow> handler_result c' p = handler_result c p"
  by (simp add: handler_result_def split: payload.splits)

lemma delivery_invD:
  assumes "delivery_inv e"
  shows rpc_known: "\<And>m t. e_rpc e m = Some (Handler t) \<Longrightarrow> \<exists>c. calls e t = Some c \<and> MsgID c = m"
    and fetched: "\<And>m t p. Fetched m (Handler t) p \<in> set (flight e) \<Longrightarrow> for_call e t m p (\<lambda>_. True)"
    and started: "\<And>m t p. Running m t p \<in> set (flight e) \<Longrightarrow> for_call e t m p (\<lambda>c. handlerCalled c \<and> \<not> c_done c)"
    and finished: "\<And>t m p. (t, m, p) \<in> set (delivered e) \<Longrightarrow>
        for_call e t m p (\<lambda>c. handlerCalled c \<and> c_done c \<and> resultErr c = handler_result c p)"
    and once: "distinct (running (flight e))" "distinct (map fst (delivered e))"
    and call_ok: "\<And>t c. calls e t = Some c \<Longrightarrow> pc_inv c \<and> (c_done c \<longrightarrow> t \<in> fst ` set (delivered e))"
  using assms unfolding delivery_inv_def by blast+

lemma for_call_upd:
  assumes "for_call e u m p P" "calls e t = Some c" "calls e' = (calls e)(t \<mapsto> c')" "MsgID c' = MsgID c"
    "set (notified e) \<subseteq> set (notified e')" "u = t \<Longrightarrow> P c \<Longrightarrow> Q c'" "\<And>c. P c \<Longrightarrow> Q c"
  shows "for_call e' u m p Q"
proof -
  obtain d where d: "calls e u = Some d" "MsgID d = m" "P d" "(m, p) \<in> set (notified e)"
    using assms(1) unfolding for_call_def by blast
  show ?thesis
  proof (cases "u = t")
    case True
    then have "d = c" using d(1) assms(2) by simp
    then show ?thesis using True d assms unfolding for_call_def by auto
  next
    case False
    then show ?thesis using d assms(3,5,7) unfolding for_call_def by auto
  qed
qed

text \<open>Updates of one call that leave its handler part alone keep the invariant.\<close>

lemma delivery_inv_call:
  assumes inv: "delivery_inv e" and c: "calls e t = Some c" "calls e' = (calls e)(t \<mapsto> c')"
    and same: "MsgID c' = MsgID c" "Output c' = Output c" "handlerCalled c' = handlerCalled c"
      "c_done c' = c_done c" "resultErr c' = resultErr c" "pc_inv c \<longrightarrow> pc_inv c'"
    and rpc: "\<forall>m u. e_rpc e' m = Some (Handler u) \<longrightarrow> e_rpc e m = Some (Handler u) \<or> m = MsgID c \<and> u = t"
    and fr: "flight e' = flight e" "notified e' = notified e" "delivered e' = delivered e"
  shows "delivery_inv e'"
proof -
  note D = delivery_invD[OF inv]
  note fc = for_call_upd[OF _ c(1) c(2) same(1), unfolded fr(2), OF _ subset_refl]
  have hr: "handler_result c' p = handler_result c p" for p using same(2) by (rule handler_result_cong)
  show ?thesis
    unfolding delivery_inv_def
  proof (intro conjI allI impI, goal_cases)
    case (1 m u)
    then consider "e_rpc e m = Some (Handler u)" | "m = MsgID c" "u = t" using rpc by blast
    then show ?case
    proof cases
      case 1
      then obtain d where "calls e u = Some d" "MsgID d = m" using D(1) by blast
      then show ?thesis using c same(1) by (cases "u = t") auto
    qed (use c same in simp)
  next
    case (2 m u p)
    then have "for_call e u m p (\<lambda>_. True)" using D(2) fr(1) by simp
    then show ?case by (rule fc) simp_all
  next
    case (3 m u p)
    then have "for_call e u m p (\<lambda>c. handlerCalled c \<and> \<not> c_done c)" using D(3) fr(1) by simp
    then show ?case by (rule fc) (simp_all add: same)
  next
    case (4 u m p)
    then have "for_call e u m p (\<lambda>c. handlerCalled c \<and> c_done c \<and> resultErr c = handler_result c p)"
      using D(4) fr(3) by simp
    then show ?case by (rule fc) (simp_all add: same hr)
  next
    case 5
    then show ?case using D(5) fr(1) by simp
  next
    case 6
    then show ?case using D(6) fr(3) by simp
  next
    case (7 u d)
    then show ?case using D(7)[OF c(1)] D(7)[of u d] c(2) same(6) by (cases "u = t") auto
  next
    case (8 u d)
    then show ?case using D(7)[OF c(1)] D(7)[of u d] c(2) same(4) fr(3) by (cases "u = t") auto
  qed
qed

lemma delivery_inv_begin:
  assumes inv: "delivery_inv e" and "calls e t = None" "calls e' = (calls e)(t \<mapsto> c')"
    and "\<not> c_done c'" "pc_inv c'" and "e_rpc e' = e_rpc e" "flight e' = flight e" "notified e' = notified e" "delivered e' = delivered e"
  shows "delivery_inv e'"
proof -
  note D = delivery_invD[OF inv]
  have mono: "for_call e u m p P \<Longrightarrow> for_call e' u m p P" for u m p P
    using assms(2,3,8) unfolding for_call_def by (metis fun_upd_other option.distinct(1))
  show ?thesis
    unfolding delivery_inv_def assms(6,7,9)
    using D(2-6) mono assms(2-5) D(1,7) by (auto split: if_splits) (metis option.distinct(1))
qed

text \<open>Dropping a notification, or receiving one for a registered callback.\<close>

lemma delivery_inv_flight:
  assumes inv: "delivery_inv e" and "set (flight e') \<subseteq> set (flight e) \<union> {Fetched m f p}"
    and "e_rpc e m = Some f \<or> set (flight e') \<subseteq> set (flight e)" and "distinct (running (flight e'))"
    and "(m, p) \<in> set (notified e') \<or> set (flight e') \<subseteq> set (flight e)" "set (notified e) \<subseteq> set (notified e')"
    and "calls e' = calls e" "e_rpc e' = e_rpc e" "delivered e' = delivered e"
  shows "delivery_inv e'"
proof -
  note D = delivery_invD[OF inv]
  have mono: "for_call e u k q P \<Longrightarrow> for_call e' u k q P" for u k q P
    using assms(6,7) unfolding for_call_def by auto
  have new: "for_call e' u k q (\<lambda>_. True)" if "Fetched k (Handler u) q \<in> set (flight e')" for u k q
  proof (cases "Fetched k (Handler u) q \<in> set (flight e)")
    case False
    then have "k = m" "q = p" "f = Handler u" and "e_rpc e m = Some f" "(m, p) \<in> set (notified e')"
      using that assms(2,3,5) by auto
    then show ?thesis using D(1)[of m u] assms(7) unfolding for_call_def by auto
  qed (use D(2) mono in blast)
  have run: "Running k u q \<in> set (flight e)" if "Running k u q \<in> set (flight e')" for k u q
    using that assms(2) by auto
  show ?thesis
    unfolding delivery_inv_def assms(7-9)
    using D(1,4,6,7) assms(4) new mono run D(3) by blast
qed

lemma delivery_inv_start:
  assumes inv: "delivery_inv e" and fl: "flight e = as @ Fetched m (Handler t) p # bs" "flight e' = as @ Running m t p # bs"
    and c: "calls e t = Some c" "\<not> handlerCalled c" "calls e' = (calls e)(t \<mapsto> c\<lparr>handlerCalled := True\<rparr>)"
    and fr: "e_rpc e' = e_rpc e" "notified e' = notified e" "delivered e' = delivered e"
  shows "delivery_inv e'"
proof -
  note D = delivery_invD[OF inv]
  note fc = for_call_upd[OF _ c(1) c(3), unfolded fr(2), OF _ _ subset_refl]
  have "Running k t q \<notin> set (flight e)" for k q using D(3)[of k t q] c(1,2) unfolding for_call_def by auto
  then have notrun: "t \<notin> set (running (flight e))" by (simp add: running_set)
  have "(t, k, q) \<notin> set (delivered e)" for k q using D(4)[of t k q] c(1,2) unfolding for_call_def by auto
  then have nd: "\<not> c_done c" using D(7)[OF c(1)] by force
  show ?thesis
    unfolding delivery_inv_def
  proof (intro conjI allI impI, goal_cases)
    case (1 k u)
    then show ?case using D(1)[of k u] c fr by (cases "u = t") auto
  next
    case (2 k u q)
    then have "for_call e u k q (\<lambda>_. True)" using D(2) fl by auto
    then show ?case by (rule fc) simp_all
  next
    case (3 k u q)
    show ?case
    proof (cases "Running k u q \<in> set (flight e)")
      case True
      then show ?thesis by (rule D(3)[THEN fc]) simp_all
    next
      case False
      then have "u = t" "k = m" "q = p" using 3 fl by auto
      moreover have "for_call e t m p (\<lambda>_. True)" using D(2) fl by simp
      ultimately show ?thesis using c nd fr(2) unfolding for_call_def by auto
    qed
  next
    case (4 u k q)
    then have "for_call e u k q (\<lambda>c. handlerCalled c \<and> c_done c \<and> resultErr c = handler_result c q)"
      using D(4) fr by simp
    then show ?case by (rule fc) (simp_all add: handler_result_def split: payload.splits)
  next
    case 5
    then show ?case using D(5) notrun fl by simp
  next
    case 6
    then show ?case using D(6) fr by simp
  next
    case (7 u d)
    then show ?case using D(7)[OF c(1)] D(7)[of u d] c(3) by (cases "u = t") (auto simp: pc_inv_def c_ret_def)
  next
    case (8 u d)
    then show ?case using D(7)[OF c(1)] D(7)[of u d] c(3) fr nd by (cases "u = t") auto
  qed
qed

lemma delivery_inv_finish:
  assumes inv: "delivery_inv e" and fl: "flight e = as @ Running m t p # bs" "flight e' = as @ bs"
    and c: "calls e t = Some c" "calls e' = (calls e)(t \<mapsto> c')"
    and c': "MsgID c' = MsgID c" "Output c' = Output c" "handlerCalled c' = handlerCalled c" "c_done c'"
      "resultErr c' = handler_result c p" "c_pc c' = c_pc c" "ctxErr c' = ctxErr c"
    and fr: "e_rpc e' = e_rpc e" "notified e' = notified e" "delivered e' = (t, m, p) # delivered e"
  shows "delivery_inv e'"
proof -
  note D = delivery_invD[OF inv]
  note fc = for_call_upd[OF _ c c'(1), unfolded fr(2), OF _ subset_refl]
  have this_run: "for_call e t m p (\<lambda>c. handlerCalled c \<and> \<not> c_done c)" using D(3) fl by simp
  then have st: "handlerCalled c" "\<not> c_done c" "MsgID c = m" "(m, p) \<in> set (notified e)"
    using c(1) unfolding for_call_def by auto
  have undel: "u \<noteq> t" if "(u, k, q) \<in> set (delivered e)" for u k q
    using D(4)[OF that] st(2) c(1) unfolding for_call_def by auto
  have other: "u \<noteq> t" if "Running k u q \<in> set (as @ bs)" for k u q
    using D(5) fl that running_set[of t "as @ bs"] by auto
  have ret: "pc_inv c'" using D(7)[OF c(1)] st(2) c' by (simp add: pc_inv_def c_ret_def)
  show ?thesis
    unfolding delivery_inv_def
  proof (intro conjI allI impI, goal_cases)
    case (1 k u)
    then show ?case using D(1)[of k u] c c' fr by (cases "u = t") auto
  next
    case (2 k u q)
    then have "for_call e u k q (\<lambda>_. True)" using D(2) fl by auto
    then show ?case by (rule fc) simp_all
  next
    case (3 k u q)
    then have "for_call e u k q (\<lambda>c. handlerCalled c \<and> \<not> c_done c)" "u \<noteq> t" using D(3) fl other by auto
    then show ?case by (auto intro: fc)
  next
    case (4 u k q)
    then consider "u = t" "k = m" "q = p" | "(u, k, q) \<in> set (delivered e)" using fr by auto
    then show ?case
    proof cases
      case 1
      then show ?thesis using st c c' fr(2) unfolding for_call_def by (auto simp: handler_result_def split: payload.splits)
    next
      case 2
      from D(4)[OF this] undel[OF this] show ?thesis by (auto intro: fc)
    qed
  next
    case 5
    then show ?case using D(5) fl by simp
  next
    case 6
    then show ?case using D(6) fr by (auto dest: undel)
  next
    case (7 u d)
    then show ?case using D(7)[of u d] ret c(2) by (cases "u = t") auto
  next
    case (8 u d)
    then show ?case using D(7)[of u d] c(2) fr by (cases "u = t") auto
  qed
qed

lemma running_remove: "distinct (running (as @ x # bs)) \<Longrightarrow> distinct (running (as @ bs))"
  by (cases x) auto

lemma delivery_inv_same:
  assumes "delivery_inv e" "calls e' = calls e" "e_rpc e' = e_rpc e" "flight e' = flight e"
    "notified e' = notified e" "delivered e' = delivered e"
  shows "delivery_inv e'"
  using assms unfolding delivery_inv_def for_call_def by simp

lemma delivery_inv_handler_start:
  assumes inv: "delivery_inv e" and st: "handler_start i e = Some e'"
  shows "delivery_inv e'"
proof -
  have i: "i < length (flight e)" using st by (simp add: handler_start_def split: if_splits)
  then obtain as bs where fl: "flight e = as @ flight e ! i # bs" "remove_nth i (flight e) = as @ bs"
    "\<And>y. (flight e)[i := y] = as @ y # bs" by (rule flight_split) blast
  have "distinct (running (as @ bs))"
    using delivery_invD(5)[OF inv] by (subst (asm) fl(1)) (rule running_remove)
  moreover have "set (as @ bs) \<subseteq> set (flight e)" by (subst fl(1)) auto
  ultimately have dr: "delivery_inv (e\<lparr>flight := remove_nth i (flight e)\<rparr>)"
    by (intro delivery_inv_flight[OF inv, where m = 0 and f = Nop and p = "Result []"]) (auto simp: fl(2))
  show ?thesis
  proof (cases "flight e ! i")
    case (Fetched m f p)
    show ?thesis
    proof (cases f)
      case (Handler t)
      then obtain c where c: "calls e t = Some c" using st i Fetched by (auto simp: handler_start_def split: option.splits)
      show ?thesis
      proof (cases "handlerCalled c")
        case False
        then have "e' = set_call t (c\<lparr>handlerCalled := True\<rparr>) (e\<lparr>flight := as @ Running m t p # bs\<rparr>)"
          using st i Fetched Handler c fl(3) by (simp add: handler_start_def)
        then show ?thesis
          using delivery_inv_start[OF inv, of as m t p bs e' c] fl(1) Fetched Handler c False by (simp add: set_call_def)
      qed (use st i Fetched Handler c dr in \<open>simp add: handler_start_def\<close>)
    qed (use st i Fetched dr in \<open>simp add: handler_start_def\<close>)
  qed (use st i in \<open>simp add: handler_start_def\<close>)
qed

lemma delivery_inv_handler_finish:
  assumes inv: "delivery_inv e" and st: "handler_finish i e = Some e'"
  shows "delivery_inv e'"
proof -
  have i: "i < length (flight e)" using st by (simp add: handler_finish_def split: if_splits)
  then obtain as bs where fl: "flight e = as @ flight e ! i # bs" "remove_nth i (flight e) = as @ bs"
    by (rule flight_split) blast
  obtain m t p c where r: "flight e ! i = Running m t p" and c: "calls e t = Some c"
    using st i by (auto simp: handler_finish_def split: notification.splits option.splits)
  show ?thesis
    by (rule delivery_inv_finish[OF inv, of as m t p bs e' c
          "c\<lparr>resultErr := handler_result c p, c_done := True, retryErr := cancel ContextCanceled (retryErr c)\<rparr>"])
      (use st i r c fl in \<open>auto simp: handler_finish_def set_call_def\<close>)
qed

lemma delivery_inv_step:
  assumes "step ev e = Some e'" and inv: "delivery_inv e"
  shows "delivery_inv e'"
proof (cases "\<exists>t. own_event t ev")
  case True
  then obtain t where "own_event t ev" by blast
  from own_step[OF assms(1) this] show ?thesis
    unfolding own_effect_def by (elim conjE) (rule delivery_inv_call[OF inv]; assumption)
next
  case own: False
  show ?thesis
  proof (cases ev)
    case (DoBegin t m out)
    then show ?thesis using assms(1)
      by (auto simp: step_defs pc_inv_def c_ret_def split: if_splits intro!: delivery_inv_begin[OF inv, where t = t])
  next
    case (CtxDone t err)
    then obtain c where "calls e t = Some c" "e' = ctx_done t err c e"
      using assms(1) by (auto simp: at_call_def split: option.splits if_splits)
    then show ?thesis
      by (intro delivery_inv_call[OF inv, where t = t and c = c and
            c' = "c\<lparr>ctxErr := Some err, retryErr := cancel err (retryErr c)\<rparr>"])
        (simp_all add: ctx_done_def set_call_def pc_inv_def c_ret_def)
  next
    case (Notify m p)
    then show ?thesis using assms(1) delivery_invD(5)[OF inv]
      by (cases "e_rpc e m") (auto simp: notify_def intro!: delivery_inv_flight[OF inv, where m = m and p = p])
  next
    case (Call i)
    then show ?thesis using assms delivery_inv_handler_start by simp
  next
    case (Finish i)
    then show ?thesis using assms delivery_inv_handler_finish by simp
  next
    case (NotifyAcks ms)
    then show ?thesis using assms by (auto intro!: delivery_inv_same[OF inv])
  next
    case ReqCancel
    then show ?thesis using assms by (auto intro!: delivery_inv_same[OF inv])
  next
    case Close
    then show ?thesis using assms by (auto intro!: delivery_inv_same[OF inv])
  next
    case CloseReturn
    then show ?thesis using assms by (auto intro!: delivery_inv_same[OF inv] split: if_splits)
  qed (use own in simp_all)
qed

lemma delivery_inv_reachable: "reachable n e \<Longrightarrow> delivery_inv e"
  by (induction rule: reachable.induct) (auto intro: delivery_inv_New delivery_inv_step)

subsection \<open>What a call returns\<close>

text \<open>
  The errors that are not an answer: the engine was closed before the call began, sending or waiting for
  the acknowledgement failed, the caller's context is done, or the engine was closed by force
  while the call waited for its answer.
\<close>

definition own_failure :: "bool \<Rightarrow> call \<Rightarrow> go_error option \<Rightarrow> bool" where
  "own_failure forced c v \<longleftrightarrow> v = Some ErrEngineClosed \<or> (\<exists>x. v = Some (Wrap ''retryUntilAck'' x)) \<or> (v = ctxErr c \<and> ctxErr c \<noteq> None)
     \<or> (forced \<and> v = Some (Wrap ''engine forcibly closed'' ContextCanceled))"

definition ret_ok :: "bool \<Rightarrow> call \<Rightarrow> bool" where
  "ret_ok forced c \<longleftrightarrow> (\<forall>v. c_ret c = Some v \<longrightarrow> c_done c \<and> v = resultErr c \<or> own_failure forced c v)"

lemmas ret_defs = ret_ok_def own_failure_def c_ret_def

lemma own_step_ret:
  assumes "step ev e = Some e'" "own_event t ev" "calls e t = Some c" "pc_inv c" "ret_ok (reqDone e) c"
  shows "ret_ok (reqDone e') (the (calls e' t))"
proof (cases "c_pc c")
  case (PCheck x)
  then show ?thesis using assms
    by (cases ev) (auto simp: at_call_def do_check_def set_call_def ret_defs split: option.splits if_splits)
next
  case PLoop
  then show ?thesis using assms
    by (cases ev) (auto simp: at_call_def loop_req_def loop_timer_def set_call_def ret_defs Let_def split: option.splits if_splits)
next
  case PDrop
  then have "ctxErr c \<noteq> None" using assms(4) by (simp add: pc_inv_def)
  then show ?thesis using assms PDrop by (cases ev) (auto simp: at_call_def set_call_def ret_defs split: if_splits)
qed (use assms in \<open>cases ev; auto simp: at_call_def do_register_def waitAck_def first_send_def removeAck_def do_sel_ctx_def do_sel_req_def
      do_unregister_def do_return_def set_call_def ret_defs split: option.splits if_splits\<close>)+

definition ret_inv :: "Engine \<Rightarrow> bool" where
  "ret_inv e \<longleftrightarrow> (\<forall>t c. calls e t = Some c \<longrightarrow> ret_ok (reqDone e) c)"

lemma ret_inv_call:
  "ret_inv e \<Longrightarrow> calls e' = (calls e)(t \<mapsto> c') \<Longrightarrow> reqDone e' = reqDone e \<Longrightarrow> ret_ok (reqDone e) c' \<Longrightarrow> ret_inv e'"
  by (simp add: ret_inv_def)

lemma ret_inv_same: "ret_inv e \<Longrightarrow> calls e' = calls e \<Longrightarrow> (reqDone e \<longrightarrow> reqDone e') \<Longrightarrow> ret_inv e'"
  unfolding ret_inv_def ret_ok_def own_failure_def by auto

lemma ret_inv_finish:
  assumes "ret_inv e" "delivery_inv e" "handler_finish i e = Some e'"
  shows "ret_inv e'"
proof -
  obtain m t p c where r: "i < length (flight e)" "flight e ! i = Running m t p" and c: "calls e t = Some c"
    using assms(3) by (auto simp: handler_finish_def split: notification.splits option.splits if_splits)
  have "Running m t p \<in> set (flight e)" using r nth_mem by metis
  from delivery_invD(3)[OF assms(2) this] have "\<not> c_done c" using c by (auto simp: for_call_def)
  moreover have "ret_ok (reqDone e) c" using assms(1) c by (simp add: ret_inv_def)
  ultimately have "ret_ok (reqDone e) (c\<lparr>resultErr := handler_result c p, c_done := True, retryErr := cancel ContextCanceled (retryErr c)\<rparr>)"
    by (simp add: ret_defs)
  then show ?thesis using assms(1,3) r c by (auto simp: handler_finish_def set_call_def intro: ret_inv_call)
qed

lemma ret_inv_step:
  assumes "step ev e = Some e'" and inv: "delivery_inv e" "ret_inv e"
  shows "ret_inv e'"
proof (cases "\<exists>t. own_event t ev")
  case True
  then obtain t where t: "own_event t ev" by blast
  note o = own_step[OF assms(1) t, unfolded own_effect_def]
  have "ret_ok (reqDone e') (the (calls e' t))"
    using own_step_ret[OF assms(1) t, of "the (calls e t)"] o delivery_invD(7)[OF inv(1), of t] inv(2) by (auto simp: ret_inv_def)
  then show ?thesis using ret_inv_call[OF inv(2), of e' t "the (calls e' t)"] o by auto
next
  case own: False
  show ?thesis
  proof (cases ev)
    case (DoBegin t m out)
    then obtain p where p: "calls e' = (calls e)(t \<mapsto> new_call m out p)" "reqDone e' = reqDone e" "p = PReturned (Some ErrEngineClosed) \<or> p = PRegister"
      using assms(1) by (auto simp: do_begin_def set_call_def split: if_splits)
    then have "ret_ok (reqDone e) (new_call m out p)" by (auto simp: ret_defs new_call_def)
    then show ?thesis using p(1,2) by (intro ret_inv_call[OF inv(2)])
  next
    case (CtxDone t err)
    then obtain c where c: "calls e t = Some c" "ctxErr c = None" "e' = ctx_done t err c e"
      using assms(1) by (auto simp: at_call_def split: option.splits if_splits)
    then have "ret_ok (reqDone e) c" using inv(2) by (simp add: ret_inv_def)
    then have "ret_ok (reqDone e) (c\<lparr>ctxErr := Some err, retryErr := cancel err (retryErr c)\<rparr>)"
      using c(2) by (simp add: ret_defs) blast
    then show ?thesis using c(3) inv(2) by (auto simp: ctx_done_def set_call_def intro: ret_inv_call)
  next
    case (Notify m p)
    then show ?thesis using assms(1) by (intro ret_inv_same[OF inv(2)]) (auto simp: notify_def split: option.splits)
  next
    case (Call i)
    then consider "calls e' = calls e" "reqDone e' = reqDone e"
      | t c where "calls e t = Some c" "calls e' = (calls e)(t \<mapsto> c\<lparr>handlerCalled := True\<rparr>)" "reqDone e' = reqDone e"
      using assms(1) by (auto simp: handler_start_def set_call_def split: step_splits)
    then show ?thesis
    proof cases
      case (2 t c)
      then have "ret_ok (reqDone e) c" using inv(2) by (simp add: ret_inv_def)
      then have "ret_ok (reqDone e) (c\<lparr>handlerCalled := True\<rparr>)" by (simp add: ret_defs)
      then show ?thesis using 2 by (intro ret_inv_call[OF inv(2)])
    qed (auto intro: ret_inv_same[OF inv(2)])
  next
    case (Finish i)
    then show ?thesis using assms ret_inv_finish by simp
  next
    case (NotifyAcks ms)
    then show ?thesis using assms by (auto intro!: ret_inv_same[OF inv(2)])
  next
    case ReqCancel
    then show ?thesis using assms by (auto intro!: ret_inv_same[OF inv(2)])
  next
    case Close
    then show ?thesis using assms by (auto intro!: ret_inv_same[OF inv(2)])
  next
    case CloseReturn
    then show ?thesis using assms by (auto intro!: ret_inv_same[OF inv(2)] split: if_splits)
  qed (use own in simp_all)
qed

lemma ret_inv_reachable: "reachable n e \<Longrightarrow> ret_inv e"
proof (induction rule: reachable.induct)
  case init
  then show ?case by (simp add: ret_inv_def New_def)
next
  case (step e ev e')
  then show ?case using ret_inv_step delivery_inv_reachable by blast
qed

lemma ack_inv_New: "ack_inv (New n)"
  by (simp add: ack_inv_def New_def)

lemma ack_inv_reachable: "reachable n e \<Longrightarrow> ack_inv e"
  by (induction rule: reachable.induct) (auto intro: ack_inv_New ack_inv_step)

subsection \<open>The wait group and the number of sends\<close>

definition active_calls :: "Engine \<Rightarrow> nat set" where
  "active_calls e = {t. \<exists>c. calls e t = Some c \<and> active c}"

definition count_inv :: "int \<Rightarrow> Engine \<Rightarrow> bool" where
  "count_inv n e \<longleftrightarrow> maxRetries e = (if n = 0 then 5 else n) \<and> finite (active_calls e)
     \<and> wg e = int (card (active_calls e)) \<and> (closeReturned e \<longrightarrow> closed e \<and> wg e = 0)
     \<and> (\<forall>t c. calls e t = Some c \<longrightarrow> sends_ok (maxRetries e) c)"

lemma count_inv_New: "count_inv n (New n)"
  by (simp add: count_inv_def New_def active_calls_def)

lemma active_calls_upd:
  "calls e' = (calls e)(t \<mapsto> c') \<Longrightarrow>
   active_calls e' = (if active c' then insert t (active_calls e) else active_calls e - {t})"
  by (auto simp: active_calls_def split: if_splits)

lemma count_inv_call:
  assumes inv: "count_inv n e" and c: "calls e t = Some c" "calls e' = (calls e)(t \<mapsto> c')"
    and "active c \<longrightarrow> wg e' = wg e - (if active c' then 0 else 1)" "\<not> active c \<longrightarrow> \<not> active c' \<and> wg e' = wg e"
    and "sends_ok (maxRetries e) c \<longrightarrow> sends_ok (maxRetries e) c'"
    and "maxRetries e' = maxRetries e" "closed e' = closed e" "closeReturned e' = closeReturned e"
  shows "count_inv n e'"
proof -
  have t: "t \<in> active_calls e \<longleftrightarrow> active c" using c by (simp add: active_calls_def)
  have fin: "finite (active_calls e)" and wg: "wg e = int (card (active_calls e))"
    and cr: "closeReturned e \<longrightarrow> closed e \<and> wg e = 0" using inv by (auto simp: count_inv_def)
  have card: "active c \<longrightarrow> 0 < card (active_calls e)" using t fin card_gt_0_iff by blast
  have "wg e' = int (card (active_calls e'))"
    using assms(4,5) card wg t fin by (auto simp: active_calls_upd[OF c(2)] insert_absorb)
  moreover have "closeReturned e' \<longrightarrow> closed e' \<and> wg e' = 0"
    using cr assms(4,5,8,9) card wg by auto
  ultimately show ?thesis
    using inv assms(6,7) c fin by (auto simp: count_inv_def active_calls_upd[OF c(2)])
qed

lemma count_inv_same:
  assumes "count_inv n e" "calls e' = calls e" "wg e' = wg e" "maxRetries e' = maxRetries e"
    "closed e \<longrightarrow> closed e'" "closeReturned e' \<longrightarrow> closeReturned e \<or> closed e' \<and> wg e' = 0"
  shows "count_inv n e'"
  using assms by (auto simp: count_inv_def active_calls_def)

lemma sends_ok_new: "p \<noteq> PLoop \<Longrightarrow> sends_ok mx (new_call m out p)"
  by (simp add: sends_ok_def new_call_def)

lemma count_inv_step:
  assumes "step ev e = Some e'" and inv: "count_inv n e"
  shows "count_inv n e'"
proof (cases "\<exists>t. own_event t ev")
  case True
  then obtain t where "own_event t ev" by blast
  from own_step[OF assms(1) this] show ?thesis
    unfolding own_effect_def by (elim conjE) (rule count_inv_call[OF inv]; simp)
next
  case own: False
  show ?thesis
  proof (cases ev)
    case (DoBegin t m out)
    show ?thesis
    proof (cases "closed e")
      case True
      then have new: "calls e t = None" "e' = set_call t (new_call m out (PReturned (Some ErrEngineClosed))) e"
        using DoBegin assms(1) by (auto simp: do_begin_def split: if_splits)
      then have "active_calls e' = active_calls e"
        by (auto simp: set_call_def new_call_def active_calls_def active_def split: if_splits)
      then show ?thesis using new inv by (auto simp: count_inv_def set_call_def sends_ok_new)
    next
      case False
      then have new: "calls e t = None" "e' = set_call t (new_call m out PRegister) (e\<lparr>wg := wg e + 1\<rparr>)"
        using DoBegin assms(1) by (auto simp: do_begin_def split: if_splits)
      then have "active_calls e' = insert t (active_calls e)" "t \<notin> active_calls e"
        by (auto simp: set_call_def new_call_def active_calls_def active_def)
      then show ?thesis using new inv False by (auto simp: count_inv_def set_call_def sends_ok_new)
    qed
  next
    case (CtxDone t err)
    then obtain c where "calls e t = Some c" "e' = ctx_done t err c e"
      using assms(1) by (auto simp: at_call_def split: option.splits if_splits)
    then show ?thesis
      by (intro count_inv_call[OF inv, where t = t and c = c and
            c' = "c\<lparr>ctxErr := Some err, retryErr := cancel err (retryErr c)\<rparr>"])
        (simp_all add: ctx_done_def set_call_def sends_ok_def active_def)
  next
    case (Notify m p)
    then show ?thesis using assms
      by (cases "e_rpc e m") (auto simp: notify_def intro!: count_inv_same[OF inv])
  next
    case (Call i)
    then consider e'' where "e' = e\<lparr>flight := e''\<rparr>"
      | t c fl where "calls e t = Some c" "e' = set_call t (c\<lparr>handlerCalled := True\<rparr>) (e\<lparr>flight := fl\<rparr>)"
      using assms(1) by (auto simp: handler_start_def split: step_splits)
    then show ?thesis
    proof cases
      case 1
      then show ?thesis by (auto intro!: count_inv_same[OF inv])
    next
      case 2
      then show ?thesis
        by (intro count_inv_call[OF inv, where t = t and c = c and c' = "c\<lparr>handlerCalled := True\<rparr>"])
          (simp_all add: set_call_def sends_ok_def active_def)
    qed
  next
    case (Finish i)
    then obtain m t p c where "calls e t = Some c" "e' = set_call t
        (c\<lparr>resultErr := handler_result c p, c_done := True, retryErr := cancel ContextCanceled (retryErr c)\<rparr>)
        (e\<lparr>flight := remove_nth i (flight e), delivered := (t, m, p) # delivered e\<rparr>)"
      using assms(1) by (auto simp: handler_finish_def split: step_splits)
    then show ?thesis
      by (intro count_inv_call[OF inv, where t = t and c = c and
          c' = "c\<lparr>resultErr := handler_result c p, c_done := True, retryErr := cancel ContextCanceled (retryErr c)\<rparr>"])
        (simp_all add: set_call_def sends_ok_def active_def)
  next
    case (NotifyAcks ms)
    then show ?thesis using assms by (auto intro!: count_inv_same[OF inv])
  next
    case ReqCancel
    then show ?thesis using assms by (auto intro!: count_inv_same[OF inv])
  next
    case Close
    then show ?thesis using assms by (auto intro!: count_inv_same[OF inv])
  next
    case CloseReturn
    then show ?thesis using assms by (auto intro!: count_inv_same[OF inv] split: if_splits)
  qed (use own in simp_all)
qed

lemma count_inv_reachable: "reachable n e \<Longrightarrow> count_inv n e"
  by (induction rule: reachable.induct) (auto intro: count_inv_New count_inv_step)

subsection \<open>Progress\<close>

lemma run_append: "run (as @ bs) e = (case run as e of None \<Rightarrow> None | Some e' \<Rightarrow> run bs e')"
  by (induction as arbitrary: e) (simp_all split: option.splits)

lemma reachable_run: "reachable n e \<Longrightarrow> run evs e = Some e' \<Longrightarrow> reachable n e'"
  by (induction evs arbitrary: e) (auto split: option.splits intro: reachable.step)

text \<open>Steps of other goroutines neither end a call nor move it back.\<close>

lemma foreign_step:
  assumes "step ev e = Some e'" "calls e t = Some c" "\<not> own_event t ev"
  shows "\<exists>c'. calls e' t = Some c' \<and> c_pc c' = c_pc c \<and> retries c' = retries c \<and> maxRetries e' = maxRetries e"
proof (cases "\<exists>u. own_event u ev")
  case True
  then obtain u where u: "own_event u ev" by blast
  then have "u \<noteq> t" using assms(3) by auto
  from own_step[OF assms(1) u] obtain d d' where "calls e' = (calls e)(u \<mapsto> d)" "maxRetries e' = maxRetries e"
    unfolding own_effect_def by blast
  then show ?thesis using assms(2) \<open>u \<noteq> t\<close> by simp
next
  case own: False
  show ?thesis
  proof (cases ev)
    case (DoBegin u m out)
    then show ?thesis using assms by (auto simp: do_begin_def set_call_def split: if_splits)
  next
    case (CtxDone u err)
    then show ?thesis using assms
      by (cases "u = t") (auto simp: at_call_def ctx_done_def set_call_def split: if_splits option.splits)
  next
    case (Notify m p)
    then show ?thesis using assms by (auto simp: notify_def split: option.splits)
  next
    case (Call i)
    then show ?thesis using assms by (auto simp: handler_start_def set_call_def split: step_splits)
  next
    case (Finish i)
    then show ?thesis using assms by (auto simp: handler_finish_def set_call_def split: step_splits)
  qed (use assms own in \<open>auto split: if_splits\<close>)
qed

lemma rank_step:
  assumes "step ev e = Some e'" "calls e t = Some c"
  shows "\<exists>c'. calls e' t = Some c' \<and> maxRetries e' = maxRetries e
    \<and> (if own_event t ev then 1 else 0) + rank (maxRetries e) c' \<le> rank (maxRetries e) c"
proof (cases "own_event t ev")
  case True
  from own_step[OF assms(1) this] obtain d' where "calls e' = (calls e)(t \<mapsto> d')" "maxRetries e' = maxRetries e"
    "rank (maxRetries e) d' < rank (maxRetries e) c" using assms(2) unfolding own_effect_def by auto
  then show ?thesis using True by simp
next
  case False
  then show ?thesis using foreign_step[OF assms] by (auto simp: rank_def)
qed

lemma own_steps_bounded:
  assumes "run evs e = Some e'" "calls e t = Some c"
  shows "length (filter (own_event t) evs) \<le> rank (maxRetries e) c"
  using assms
proof (induction evs arbitrary: e c)
  case (Cons ev evs)
  then obtain e1 where e1: "step ev e = Some e1" "run evs e1 = Some e'" by (auto split: option.splits)
  from rank_step[OF e1(1) Cons.prems(2)] obtain c1 where "calls e1 t = Some c1" "maxRetries e1 = maxRetries e"
    "(if own_event t ev then 1 else 0) + rank (maxRetries e) c1 \<le> rank (maxRetries e) c" by blast
  then show ?case using Cons.IH[OF e1(2)] by (cases "own_event t ev") fastforce+
qed simp

text \<open>Once \<open>reqCtx\<close> is cancelled a call always has a step to take.\<close>

lemma forced_enabled:
  assumes "calls e t = Some c" "active c" "reqDone e"
  shows "\<exists>ev e'. own_event t ev \<and> step ev e = Some e'"
proof (cases "c_pc c")
  case PRegister
  then show ?thesis using assms by (intro exI[of _ "Register t"]) (simp add: at_call_def)
next
  case PWaitAck
  then show ?thesis using assms by (intro exI[of _ "WaitAck t"]) (simp add: at_call_def)
next
  case PSend
  then show ?thesis using assms by (intro exI[of _ "Send t None"]) (simp add: at_call_def)
next
  case PLoop
  then show ?thesis using assms by (intro exI[of _ "LoopReq t"]) (simp add: at_call_def)
next
  case (PRetryDone r)
  then show ?thesis using assms by (intro exI[of _ "RemoveAck t"]) (simp add: at_call_def)
next
  case (PCheck r)
  then show ?thesis using assms by (intro exI[of _ "Check t"]) (simp add: at_call_def)
next
  case PSelect
  then show ?thesis using assms by (intro exI[of _ "SelReq t"]) (simp add: at_call_def)
next
  case PDrop
  then show ?thesis using assms by (intro exI[of _ "Drop t"]) (simp add: at_call_def)
next
  case (PReturn r)
  then show ?thesis using assms by (intro exI[of _ "Unregister t"]) (simp add: at_call_def)
next
  case (PUnregistered r)
  then show ?thesis using assms by (intro exI[of _ "Return t"]) (simp add: at_call_def)
qed (use assms in \<open>simp add: active_def\<close>)

text \<open>Running one call to its end.\<close>

lemma drain_call:
  assumes "calls e t = Some c" "reqDone e"
  shows "\<exists>evs e'. run evs e = Some e' \<and> (\<forall>ev\<in>set evs. own_event t ev) \<and> active_calls e' = active_calls e - {t}
    \<and> reqDone e' \<and> closed e' = closed e"
  using assms
proof (induction "rank (maxRetries e) c" arbitrary: e c rule: less_induct)
  case less
  show ?case
  proof (cases "active c")
    case False
    then have "active_calls e = active_calls e - {t}" using less.prems by (auto simp: active_calls_def)
    then show ?thesis using less.prems by (intro exI[of _ "[]"]) auto
  next
    case True
    then obtain ev e1 where st: "own_event t ev" "step ev e = Some e1" using forced_enabled less.prems by blast
    obtain c1 where eff: "own_effect t e e1 c c1" using own_step[OF st(2,1)] less.prems by auto
    then have c1: "calls e1 t = Some c1" "reqDone e1" "rank (maxRetries e1) c1 < rank (maxRetries e) c"
      "closed e1 = closed e" using less.prems by (auto simp: own_effect_def)
    from less.hyps[OF c1(3,1,2)] obtain evs e' where
      "run evs e1 = Some e'" "\<forall>ev\<in>set evs. own_event t ev" "active_calls e' = active_calls e1 - {t}"
      "reqDone e'" "closed e' = closed e1" by blast
    moreover have "active_calls e1 - {t} = active_calls e - {t}"
      using eff by (auto simp: own_effect_def active_calls_def split: if_splits)
    ultimately show ?thesis using st c1(4) by (intro exI[of _ "ev # evs"] exI[of _ e']) auto
  qed
qed

lemma drain_all:
  assumes "reqDone e" "finite (active_calls e)"
  shows "\<exists>evs e'. run evs e = Some e' \<and> active_calls e' = {} \<and> closed e' = closed e"
  using assms
proof (induction "card (active_calls e)" arbitrary: e)
  case 0
  then show ?case by (intro exI[of _ "[]"]) auto
next
  case (Suc k)
  then obtain t where "t \<in> active_calls e" by (metis card.empty ex_in_conv nat.simps(3))
  then obtain c where "calls e t = Some c" by (auto simp: active_calls_def)
  from drain_call[OF this Suc.prems(1)] obtain evs e1 where
    d: "run evs e = Some e1" "active_calls e1 = active_calls e - {t}" "reqDone e1" "closed e1 = closed e" by blast
  have "k = card (active_calls e1)" using d(2) Suc.hyps(2) \<open>t \<in> active_calls e\<close> Suc.prems(2) by simp
  from Suc.hyps(1)[OF this d(3)] obtain evs' e' where "run evs' e1 = Some e'" "active_calls e' = {}" "closed e' = closed e1"
    using d(2) Suc.prems(2) by auto
  then show ?case using d by (intro exI[of _ "evs @ evs'"] exI[of _ e']) (simp add: run_append)
qed

section \<open>Properties\<close>

text \<open>
  C7. \<open>Do\<close> reports success only for an answer to its own request: in every interleaving, a
  call that returned nil had a result for its message identifier delivered by the server,
  and its output decoded that result without an error.
\<close>

theorem Do_success_has_answer:
  assumes "reachable n e" and "calls e t = Some c" and "c_pc c = PReturned None"
  shows "\<exists>b. (MsgID c, Result b) \<in> set (notified e) \<and> (t, MsgID c, Result b) \<in> set (delivered e) \<and> Output c b = None"
proof -
  note D = delivery_invD[OF delivery_inv_reachable[OF assms(1)]]
  have "c_done c" "resultErr c = None" using D(7)[OF assms(2)] assms(3) by (auto simp: pc_inv_def c_ret_def)
  moreover then obtain m p where del: "(t, m, p) \<in> set (delivered e)" using D(7)[OF assms(2)] by force
  ultimately have "handler_result c p = None" "m = MsgID c" "(m, p) \<in> set (notified e)"
    using D(4)[OF del] assms(2) by (auto simp: for_call_def)
  then show ?thesis using del by (cases p) (auto simp: handler_result_def)
qed

definition example_run :: "event list" where
  "example_run = [DoBegin 0 7 (\<lambda>_. None), Register 0, WaitAck 0, Send 0 None, Notify 7 (Result [1]), Call 0, Finish 0,
     LoopCtx 0, RemoveAck 0, Check 0, SelDone 0, Unregister 0, Return 0]"

theorem Do_success_has_answer_witness:
  "\<exists>e c. run example_run (New 0) = Some e \<and> calls e 0 = Some c \<and>
     (\<exists>b. (MsgID c, Result b) \<in> set (notified e) \<and> (0, MsgID c, Result b) \<in> set (delivered e) \<and> Output c b = None)"
proof -
  obtain e c where r: "run example_run (New 0) = Some e" "calls e 0 = Some c" "c_pc c = PReturned None"
    by (simp add: example_run_def New_def step_defs remove_nth_def cancel_def errors_Is_def handler_result_def)
  have "reachable 0 e" by (rule reachable_run[OF reachable.init r(1)])
  from Do_success_has_answer[OF this r(2,3)] r show ?thesis by blast
qed

text \<open>
  C27. Each handler takes effect at most once, for a notification that was received for the message of its
  call: duplicated answers and errors of the server cannot overwrite its result. A call that has
  returned has returned the error or the decoding result of that notification, or one of
  the errors that are no answer: the engine was closed before it began, sending or waiting for the
  acknowledgement failed, its context is done, or the engine was closed by force. (The
  handler may also finish after the call has returned such an error.)
\<close>

theorem handlers_run_once:
  assumes "reachable n e"
  shows "distinct (map fst (delivered e))
    \<and> (\<forall>t m p. (t, m, p) \<in> set (delivered e) \<longrightarrow> (m, p) \<in> set (notified e)
        \<and> (\<exists>c. calls e t = Some c \<and> MsgID c = m \<and> c_done c \<and> resultErr c = handler_result c p))
    \<and> (\<forall>t c v. calls e t = Some c \<and> c_pc c = PReturned v \<longrightarrow>
        (\<exists>p. (t, MsgID c, p) \<in> set (delivered e) \<and> v = handler_result c p) \<or> own_failure (reqDone e) c v)"
proof (intro conjI allI impI)
  note D = delivery_invD[OF delivery_inv_reachable[OF assms]]
  show "distinct (map fst (delivered e))" by (rule D(6))
  show "(m, p) \<in> set (notified e)" "\<exists>c. calls e t = Some c \<and> MsgID c = m \<and> c_done c \<and> resultErr c = handler_result c p"
    if "(t, m, p) \<in> set (delivered e)" for t m p
    using D(4)[OF that] unfolding for_call_def by blast+
  fix t c v
  assume c: "calls e t = Some c \<and> c_pc c = PReturned v"
  have "ret_ok (reqDone e) c" using ret_inv_reachable[OF assms] c unfolding ret_inv_def by blast
  moreover have "c_ret c = Some v" using c by (simp add: c_ret_def)
  ultimately have "c_done c \<and> v = resultErr c \<or> own_failure (reqDone e) c v" by (simp add: ret_ok_def)
  then show "(\<exists>p. (t, MsgID c, p) \<in> set (delivered e) \<and> v = handler_result c p) \<or> own_failure (reqDone e) c v"
  proof
    assume v: "c_done c \<and> v = resultErr c"
    then obtain m p where d: "(t, m, p) \<in> set (delivered e)" using D(7)[of t c] c by force
    then show ?thesis using D(4)[OF d] c v unfolding for_call_def by auto
  qed simp
qed

text \<open>A call that is answered twice, with a result and then with an error, while its engine stays open and its context is not done.\<close>

theorem handlers_run_once_witness:
  "\<exists>e c. run (example_run @ [Notify 7 (Error EOF)]) (New 0) = Some e \<and> calls e 0 = Some c \<and> c_pc c = PReturned None
    \<and> distinct (map fst (delivered e)) \<and> (\<exists>p. (0, MsgID c, p) \<in> set (delivered e) \<and> None = handler_result c p)"
proof -
  obtain e c where r: "run (example_run @ [Notify 7 (Error EOF)]) (New 0) = Some e" "calls e 0 = Some c" "c_pc c = PReturned None" "ctxErr c = None"
    by (simp add: example_run_def New_def step_defs remove_nth_def cancel_def errors_Is_def handler_result_def)
  have "reachable 0 e" by (rule reachable_run[OF reachable.init r(1)])
  moreover have "\<not> own_failure x c None" for x using r(4) by (simp add: own_failure_def)
  ultimately show ?thesis using handlers_run_once[of 0 e] r by blast
qed

text \<open>
  C38. Resources of the engine, in every interleaving: a request is sent at most once more
  than the retry limit (one if that is not positive), no acknowledgement channel is closed
  twice (which would panic), the wait group counts exactly the calls that have not
  returned, and \<open>Close\<close> returns only when there is none.
\<close>

theorem Engine_resources:
  assumes "reachable n e"
  shows "\<not> panicked e \<and> wg e = int (card (active_calls e)) \<and> (closeReturned e \<longrightarrow> closed e \<and> active_calls e = {})
    \<and> (\<forall>t c. calls e t = Some c \<longrightarrow> int (sends c) \<le> 1 + max 1 (if n = 0 then 5 else n))"
  using count_inv_reachable[OF assms] ack_inv_reachable[OF assms]
  by (auto simp: count_inv_def ack_inv_def sends_ok_def)

theorem Engine_resources_witness:
  "\<exists>e. run (example_run @ [Close, CloseReturn]) (New 0) = Some e \<and> closeReturned e \<and> active_calls e = {}"
proof -
  obtain e where r: "run (example_run @ [Close, CloseReturn]) (New 0) = Some e" "closeReturned e"
    by (simp add: example_run_def New_def step_defs remove_nth_def cancel_def errors_Is_def handler_result_def)
  have "reachable 0 e" by (rule reachable_run[OF reachable.init r(1)])
  from Engine_resources[OF this] r show ?thesis by blast
qed

text \<open>
  C10. The engine can always be shut down. A call of \<open>Do\<close> takes at most ten steps of its own
  and one for each allowed retry, however the others are interleaved with it; after
  \<open>ForceClose\<close> has cancelled the requests and marked the engine closed, a call that has not
  returned always has a step to take, and from every such state there is a run after which
  \<open>Close\<close> has returned, with no help from the server.
\<close>

theorem ForceClose_drains:
  assumes "reachable n e" and "reqDone e" and "closed e"
  shows "(\<forall>t c evs e'. calls e t = Some c \<and> run evs e = Some e' \<longrightarrow>
            length (filter (own_event t) evs) \<le> 10 + nat (if n = 0 then 5 else n))
    \<and> (\<forall>t c. calls e t = Some c \<and> active c \<longrightarrow> (\<exists>ev e'. own_event t ev \<and> step ev e = Some e'))
    \<and> (\<exists>evs e'. run evs e = Some e' \<and> closeReturned e')"
proof (intro conjI allI impI)
  have inv: "count_inv n e" using assms(1) by (rule count_inv_reachable)
  fix t c evs e'
  assume a: "calls e t = Some c \<and> run evs e = Some e'"
  have "pc_rank p \<le> 10" for p by (cases p) (simp_all add: pc_rank_def)
  moreover have "0 \<le> retries c" using inv a by (auto simp: count_inv_def sends_ok_def)
  ultimately have "rank (maxRetries e) c \<le> 10 + nat (maxRetries e)"
    unfolding rank_def by (intro add_mono nat_mono) auto
  then show "length (filter (own_event t) evs) \<le> 10 + nat (if n = 0 then 5 else n)"
    using own_steps_bounded[of evs e e' t c] a inv by (simp add: count_inv_def)
next
  fix t c
  assume "calls e t = Some c \<and> active c"
  then show "\<exists>ev e'. own_event t ev \<and> step ev e = Some e'" using forced_enabled assms(2) by blast
next
  have "finite (active_calls e)" using count_inv_reachable[OF assms(1)] by (simp add: count_inv_def)
  from drain_all[OF assms(2) this] obtain evs e1 where
    d: "run evs e = Some e1" "active_calls e1 = {}" "closed e1 = closed e" by blast
  have "wg e1 = 0" using count_inv_reachable[OF reachable_run[OF assms(1) d(1)]] d(2) by (simp add: count_inv_def)
  then show "\<exists>evs e'. run evs e = Some e' \<and> closeReturned e'"
    using d assms(3) by (intro exI[of _ "evs @ [CloseReturn]"]) (auto simp: run_append)
qed

theorem ForceClose_drains_witness:
  "\<exists>e. run [DoBegin 0 7 (\<lambda>_. None), Register 0, WaitAck 0, Send 0 None, ReqCancel, Close] (New 0) = Some e
     \<and> (\<exists>evs e'. run evs e = Some e' \<and> closeReturned e')"
proof -
  obtain e where r: "run [DoBegin 0 7 (\<lambda>_. None), Register 0, WaitAck 0, Send 0 None, ReqCancel, Close] (New 0) = Some e"
      "reqDone e" "closed e"
    by (simp add: New_def step_defs)
  have "reachable 0 e" by (rule reachable_run[OF reachable.init r(1)])
  from ForceClose_drains[OF this r(2,3)] r show ?thesis by blast
qed

text \<open>
  What the closing path loses. When the result arrives while \<open>retryUntilAck\<close> still
  waits for the acknowledgement and the engine is forcibly closed, both cases of the
  \<open>select\<close> are ready; if it takes the one of \<open>reqCtx\<close>, \<open>Do\<close> returns \<open>ErrEngineClosed\<close>,
  which tells the caller to send the request again, although the server answered it and
  the output was decoded.
\<close>

theorem ForceClose_loses_result:
  "\<exists>evs e c err. run evs (New 0) = Some e \<and> calls e 0 = Some c \<and> c_pc c = PReturned (Some err)
     \<and> root_error err = ErrEngineClosed \<and> c_done c \<and> resultErr c = None"
  by (rule exI[of _ "[DoBegin 0 7 (\<lambda>_. None), Register 0, WaitAck 0, Send 0 None, Notify 7 (Result [1]), Call 0, Finish 0,
        ReqCancel, LoopReq 0, RemoveAck 0, Check 0, Unregister 0, Return 0]"])
    (simp add: New_def step_defs remove_nth_def cancel_def errors_Is_def handler_result_def)

text \<open>
  The callback can run after \<open>Do\<close> has returned, in spite of the deletion that should
  prevent it: a notification that fetched the callback before the deletion calls it
  afterwards and decodes into the output of a request that is over.
\<close>

theorem handler_after_return:
  "\<exists>evs e c e' c'. run evs (New 0) = Some e \<and> calls e 0 = Some c \<and> c_pc c = PReturned (Some ContextCanceled)
     \<and> \<not> c_done c \<and> run [Call 0, Finish 0] e = Some e' \<and> calls e' 0 = Some c' \<and> c_done c'
     \<and> delivered e' = [(0, 7, Result [1])]"
  by (rule exI[of _ "[DoBegin 0 7 (\<lambda>_. None), Register 0, WaitAck 0, Send 0 None, Notify 7 (Result [1]),
        CtxDone 0 ContextCanceled, LoopCtx 0, RemoveAck 0, Check 0, SelCtx 0, Drop 0, Unregister 0, Return 0]"])
    (simp add: New_def step_defs remove_nth_def cancel_def errors_Is_def handler_result_def)

end
