(* ===== verification/Sequence_Box.thy ===== *)
theory Sequence_Box
  imports Go_Prelude
begin

text \<open>
  Package \<open>telegram/updates\<close>: \<open>sequenceBox\<close>, which puts the updates of one sequence (pts,
  qts or seq) into order before they reach the user's handler (\<open>sequence_box.go\<close>), with
  the gap check (\<open>gap_check.go\<close>), the buffer of missing ranges (\<open>gap_buffer.go\<close>) and the
  position of an update in its sequence (\<open>update.go\<close>). The callback \<open>apply\<close> is an argument
  that says whether it fails; the calls of it that succeeded are recorded in the state.
  Positions are \<open>int\<close>s that come from 32-bit fields, so their sums and differences do not
  overflow Go's 64 bits.
\<close>

section \<open>update.go, gap\_check.go, gap\_buffer.go\<close>

record 'v update =
  Value :: 'v
  State :: int
  Count :: int

definition update_start :: "'v update \<Rightarrow> int" where
  "update_start u = State u - Count u"

definition update_end :: "'v update \<Rightarrow> int" where
  "update_end u = State u"

datatype gapCheckResult = gapApply | gapIgnore | gapRefetch

definition checkGap :: "int \<Rightarrow> int \<Rightarrow> int \<Rightarrow> gapCheckResult" where
  "checkGap localState remoteState count =
     (if remoteState = 0 then gapApply
      else if localState + count = remoteState then gapApply
      else if localState + count > remoteState then gapIgnore
      else gapRefetch)"

type_synonym gapBuffer = "(int \<times> int) list"

definition gapBuffer_Has :: "gapBuffer \<Rightarrow> bool" where
  "gapBuffer_Has b \<longleftrightarrow> length b > 0"

definition gapBuffer_Clear :: "gapBuffer \<Rightarrow> gapBuffer" where
  "gapBuffer_Clear b = []"

definition gapBuffer_Enable :: "int \<Rightarrow> int \<Rightarrow> gapBuffer \<Rightarrow> go_error + gapBuffer" where
  "gapBuffer_Enable from to b = (if length b > 0 then Inl (GoPanic ''unreachable'') else Inr (b @ [(from, to)]))"

text \<open>
  The loop over \<open>b.gaps\<close>: \<open>before\<close> are the gaps already passed. The gap that contains the
  update is cut out; what is left of it on either side is appended at the end.
\<close>

primrec consume_gaps :: "'v update \<Rightarrow> gapBuffer \<Rightarrow> gapBuffer \<Rightarrow> bool \<times> gapBuffer" where
  "consume_gaps u before [] = (False, before)"
| "consume_gaps u before (g # gs) =
     (if fst g \<le> update_start u \<and> snd g \<ge> update_end u then
        (True, before @ gs
           @ (if fst g < update_start u then [(fst g, update_start u)] else [])
           @ (if snd g > update_end u then [(update_end u, snd g)] else []))
      else consume_gaps u (before @ [g]) gs)"

definition gapBuffer_Consume :: "'v update \<Rightarrow> gapBuffer \<Rightarrow> bool \<times> gapBuffer" where
  "gapBuffer_Consume u b = consume_gaps u [] b"

section \<open>sequence\_box.go\<close>

text \<open>
  \<open>gapTimer\<close>: the timer \<open>gapTimeout\<close> is running. \<open>applied\<close>: the successful calls of
  \<open>apply\<close>, in order.
\<close>

record 'v sequenceBox =
  state :: int
  gaps :: gapBuffer
  gapTimer :: bool
  pending :: "'v update list"
  applied :: "(int \<times> 'v update list) list"

type_synonym 'v apply_fn = "int \<Rightarrow> 'v update list \<Rightarrow> go_error option"

definition newSequenceBox :: "int \<Rightarrow> 'v sequenceBox" where
  "newSequenceBox s = \<lparr>state = s, gaps = [], gapTimer = False, pending = [], applied = []\<rparr>"

definition setState :: "int \<Rightarrow> 'v sequenceBox \<Rightarrow> 'v sequenceBox" where
  "setState s b = b\<lparr>state := s\<rparr>"

text \<open>The call \<open>s.apply\<close> followed by \<open>s.setState\<close> when it succeeds.\<close>

definition call_apply :: "'v apply_fn \<Rightarrow> int \<Rightarrow> 'v update list \<Rightarrow> 'v sequenceBox \<Rightarrow> go_error option \<times> 'v sequenceBox" where
  "call_apply apply s us b =
     (case apply s us of
        Some err \<Rightarrow> (Some err, b)
      | None \<Rightarrow> (None, setState s (b\<lparr>applied := applied b @ [(s, us)]\<rparr>)))"

text \<open>The loop of \<open>applyPending\<close>: state, accepted updates and cursor.\<close>

primrec pending_loop :: "nat \<Rightarrow> int \<Rightarrow> 'v update list \<Rightarrow> nat \<Rightarrow> 'v update list \<Rightarrow> int \<times> 'v update list \<times> nat" where
  "pending_loop i st accepted cursor [] = (st, accepted, cursor)"
| "pending_loop i st accepted cursor (u # us) =
     (case checkGap st (State u) (Count u) of
        gapApply \<Rightarrow> pending_loop (i + 1) (State u) (accepted @ [u]) (i + 1) us
      | gapIgnore \<Rightarrow> pending_loop (i + 1) st accepted (i + 1) us
      | gapRefetch \<Rightarrow> (st, accepted, cursor))"

definition applyPending :: "'v apply_fn \<Rightarrow> 'v sequenceBox \<Rightarrow> go_error option \<times> 'v sequenceBox" where
  "applyPending apply b =
     (let p = sort_key update_start (pending b) in
      case pending_loop 0 (state b) [] 0 p of (st, accepted, cursor) \<Rightarrow>
      let b' = b\<lparr>pending := drop cursor p\<rparr> in
      if length accepted = 0 then (None, b') else call_apply apply st accepted b')"

definition consume_all :: "'v update list \<Rightarrow> gapBuffer \<Rightarrow> gapBuffer" where
  "consume_all us g = fold (\<lambda>u g. snd (gapBuffer_Consume u g)) us g"

definition sequenceBox_Handle :: "'v apply_fn \<Rightarrow> 'v update \<Rightarrow> 'v sequenceBox \<Rightarrow> go_error option \<times> 'v sequenceBox" where
  "sequenceBox_Handle apply u b =
     (if checkGap (state b) (State u) (Count u) = gapIgnore then (None, b)
      else if gapBuffer_Has (gaps b) then
        (let b = b\<lparr>pending := pending b @ [u]\<rparr>;
             (accepted, g) = gapBuffer_Consume u (gaps b);
             b = b\<lparr>gaps := g\<rparr> in
         if \<not> accepted then (None, b)
         else if \<not> gapBuffer_Has (gaps b) then applyPending apply (b\<lparr>gapTimer := False\<rparr>)
         else (None, b))
      else
        (case checkGap (state b) (State u) (Count u) of
           gapApply \<Rightarrow>
             if length (pending b) > 0 then applyPending apply (b\<lparr>pending := pending b @ [u]\<rparr>)
             else call_apply apply (State u) [u] b
         | gapRefetch \<Rightarrow>
             (let b = b\<lparr>pending := pending b @ [u]\<rparr> in
              case gapBuffer_Enable (state b) (update_start u) (gaps b) of
                Inl err \<Rightarrow> (Some err, b)
              | Inr g \<Rightarrow>
                  (let b = b\<lparr>gaps := consume_all (pending b) g\<rparr> in
                   if \<not> gapBuffer_Has (gaps b) then applyPending apply b
                   else (None, b\<lparr>gapTimer := True\<rparr>)))
         | gapIgnore \<Rightarrow> (Some (GoPanic ''unreachable''), b)))"

text \<open>The updates of a run, errors being reported and the next update handled.\<close>

primrec handle_all :: "'v apply_fn \<Rightarrow> 'v update list \<Rightarrow> 'v sequenceBox \<Rightarrow> 'v sequenceBox" where
  "handle_all apply [] b = b"
| "handle_all apply (u # us) b = handle_all apply us (snd (sequenceBox_Handle apply u b))"

definition applied_updates :: "'v sequenceBox \<Rightarrow> 'v update list" where
  "applied_updates b = concat (map snd (applied b))"

section \<open>Contiguous sequences\<close>

text \<open>
  Updates that can be applied one after the other from state \<open>s\<close>, ending in \<open>t\<close>: each starts where the one
  before ended, or has no position and takes the state to zero.
\<close>

primrec chain :: "int \<Rightarrow> 'v update list \<Rightarrow> int \<Rightarrow> bool" where
  "chain s [] t \<longleftrightarrow> s = t"
| "chain s (u # us) t \<longleftrightarrow> (State u = 0 \<or> State u = s + Count u) \<and> chain (State u) us t"

text \<open>Updates without a gap and without such a reset.\<close>

primrec gapless :: "int \<Rightarrow> 'v update list \<Rightarrow> int \<Rightarrow> bool" where
  "gapless s [] t \<longleftrightarrow> s = t"
| "gapless s (u # us) t \<longleftrightarrow> update_start u = s \<and> gapless (State u) us t"

lemma checkGap_apply: "checkGap s r n = gapApply \<longleftrightarrow> r = 0 \<or> r = s + n"
  by (auto simp: checkGap_def)

lemma chain_gapless: "chain s us t \<Longrightarrow> \<forall>u\<in>set us. State u \<noteq> 0 \<Longrightarrow> gapless s us t"
  by (induction us arbitrary: s) (auto simp: update_start_def)

lemma gapless_sum: "gapless s us t \<Longrightarrow> t = s + (\<Sum>u\<leftarrow>us. Count u)"
  by (induction us arbitrary: s) (auto simp: update_start_def)

lemma chain_append: "chain s (us @ vs) t \<longleftrightarrow> (\<exists>m. chain s us m \<and> chain m vs t)"
  by (induction us arbitrary: s) auto

lemma pending_loop_chain:
  "pending_loop i st acc i us = (st', acc', cur) \<Longrightarrow>
   \<exists>k new. cur = i + k \<and> k \<le> length us \<and> acc' = acc @ new \<and> chain st new st' \<and> set new \<subseteq> set (take k us)
     \<and> (k < length us \<longrightarrow> checkGap st' (State (us ! k)) (Count (us ! k)) = gapRefetch)"
proof (induction us arbitrary: i st acc)
  case (Cons u us)
  consider "checkGap st (State u) (Count u) = gapApply" | "checkGap st (State u) (Count u) = gapIgnore"
    | "checkGap st (State u) (Count u) = gapRefetch" by (cases "checkGap st (State u) (Count u)")
  then show ?case
  proof cases
    case 1
    with Cons.prems have "pending_loop (i + 1) (State u) (acc @ [u]) (i + 1) us = (st', acc', cur)" by simp
    from Cons.IH[OF this] obtain k new where "cur = (i + 1) + k" "k \<le> length us" "acc' = (acc @ [u]) @ new"
      "chain (State u) new st'" "set new \<subseteq> set (take k us)"
      "k < length us \<longrightarrow> checkGap st' (State (us ! k)) (Count (us ! k)) = gapRefetch" by blast
    then show ?thesis using 1 by (intro exI[of _ "Suc k"] exI[of _ "u # new"]) (auto simp: checkGap_apply)
  next
    case 2
    with Cons.prems have "pending_loop (i + 1) st acc (i + 1) us = (st', acc', cur)" by simp
    from Cons.IH[OF this] obtain k new where "cur = (i + 1) + k" "k \<le> length us" "acc' = acc @ new"
      "chain st new st'" "set new \<subseteq> set (take k us)"
      "k < length us \<longrightarrow> checkGap st' (State (us ! k)) (Count (us ! k)) = gapRefetch" by blast
    then show ?thesis by (intro exI[of _ "Suc k"] exI[of _ new]) auto
  next
    case 3
    then show ?thesis using Cons.prems by (intro exI[of _ 0]) auto
  qed
qed auto

lemma applied_updates_snoc [simp]:
  "applied_updates (b\<lparr>applied := applied b @ [(s, us)]\<rparr>) = applied_updates b @ us"
  by (simp add: applied_updates_def)

text \<open>Whatever happens, the box either leaves state and history alone or extends both by a chain.\<close>

definition extends :: "'v sequenceBox \<Rightarrow> 'v sequenceBox \<Rightarrow> 'v update set \<Rightarrow> bool" where
  "extends b b' P \<longleftrightarrow> (\<exists>new. applied_updates b' = applied_updates b @ new \<and> chain (state b) new (state b') \<and> set new \<subseteq> P)"

lemma extends_refl [simp]:
  "state b' = state b \<Longrightarrow> applied b' = applied b \<Longrightarrow> extends b b' P"
  by (auto simp: extends_def applied_updates_def intro!: exI[of _ "[]"])

lemma call_apply_extends:
  assumes "chain (state b) us s" "set us \<subseteq> P" "state b0 = state b" "applied b0 = applied b"
  shows "extends b0 (snd (call_apply apply s us b)) P"
  using assms by (auto simp: call_apply_def setState_def extends_def applied_updates_def split: option.splits)

lemma applyPending_extends:
  assumes "state b0 = state b" "applied b0 = applied b"
  shows "extends b0 (snd (applyPending apply b)) (set (pending b))"
proof -
  let ?p = "sort_key update_start (pending b)"
  obtain st acc cur where l: "pending_loop 0 (state b) [] 0 ?p = (st, acc, cur)" by (metis prod_cases3)
  from pending_loop_chain[OF this] have "chain (state b) acc st" "set acc \<subseteq> set (take cur ?p)" by auto
  moreover then have "set acc \<subseteq> set (pending b)" using set_take_subset[of cur ?p] by simp
  ultimately have "extends b0 (snd (call_apply apply st acc (b\<lparr>pending := drop cur ?p\<rparr>))) (set (pending b))"
    using assms by (intro call_apply_extends) auto
  then show ?thesis using assms l by (simp add: applyPending_def Let_def)
qed

text \<open>The outcomes of \<open>Handle\<close>, one for each path through it.\<close>

lemma Handle_cases [consumes 1, case_names ignore postpone fill resolve direct pend enable enable_resolve]:
  assumes "sequenceBox_Handle apply u b = r"
  obtains
    "checkGap (state b) (State u) (Count u) = gapIgnore" "r = (None, b)"
  | g where "checkGap (state b) (State u) (Count u) \<noteq> gapIgnore" "gaps b \<noteq> []" "gapBuffer_Consume u (gaps b) = (False, g)"
      "r = (None, b\<lparr>pending := pending b @ [u], gaps := g\<rparr>)"
  | g where "checkGap (state b) (State u) (Count u) \<noteq> gapIgnore" "gaps b \<noteq> []" "gapBuffer_Consume u (gaps b) = (True, g)" "g \<noteq> []"
      "r = (None, b\<lparr>pending := pending b @ [u], gaps := g\<rparr>)"
  | "checkGap (state b) (State u) (Count u) \<noteq> gapIgnore" "gaps b \<noteq> []" "gapBuffer_Consume u (gaps b) = (True, [])"
      "r = applyPending apply (b\<lparr>pending := pending b @ [u], gaps := [], gapTimer := False\<rparr>)"
  | "checkGap (state b) (State u) (Count u) = gapApply" "gaps b = []" "pending b = []" "r = call_apply apply (State u) [u] b"
  | "checkGap (state b) (State u) (Count u) = gapApply" "gaps b = []" "pending b \<noteq> []"
      "r = applyPending apply (b\<lparr>pending := pending b @ [u]\<rparr>)"
  | g where "checkGap (state b) (State u) (Count u) = gapRefetch" "gaps b = []"
      "g = consume_all (pending b @ [u]) [(state b, update_start u)]" "g \<noteq> []"
      "r = (None, b\<lparr>pending := pending b @ [u], gaps := g, gapTimer := True\<rparr>)"
  | "checkGap (state b) (State u) (Count u) = gapRefetch" "gaps b = []"
      "consume_all (pending b @ [u]) [(state b, update_start u)] = []"
      "r = applyPending apply (b\<lparr>pending := pending b @ [u], gaps := []\<rparr>)"
proof (cases "checkGap (state b) (State u) (Count u) = gapIgnore")
  case True
  then show thesis using assms that(1) by (simp add: sequenceBox_Handle_def)
next
  case False
  show thesis
  proof (cases "gaps b = []")
    case noGaps: True
    show thesis
    proof (cases "checkGap (state b) (State u) (Count u)")
      case gapApply
      then show thesis using assms noGaps that(5,6)
        by (cases "pending b = []") (simp_all add: sequenceBox_Handle_def gapBuffer_Has_def)
    next
      case gapRefetch
      then show thesis using assms noGaps that(7,8)
        by (cases "consume_all (pending b @ [u]) [(state b, update_start u)] = []")
          (simp_all add: sequenceBox_Handle_def gapBuffer_Has_def gapBuffer_Enable_def Let_def)
    qed (use False in simp)
  next
    case hasGaps: False
    obtain acc g where c: "gapBuffer_Consume u (gaps b) = (acc, g)" by fastforce
    show thesis
    proof (cases acc)
      case True
      then show thesis using assms False hasGaps c that(3,4)
        by (cases "g = []") (simp_all add: sequenceBox_Handle_def gapBuffer_Has_def Let_def)
    next
      case acc: False
      then show thesis using assms False hasGaps c that(2)
        by (simp add: sequenceBox_Handle_def gapBuffer_Has_def Let_def)
    qed
  qed
qed

lemma Handle_extends:
  "extends b (snd (sequenceBox_Handle apply u b)) (insert u (set (pending b)))"
proof -
  have ap: "extends b (snd (applyPending apply b')) (insert u (set (pending b)))"
    if "state b' = state b" "applied b' = applied b" "pending b' = pending b @ [u]" for b'
    using applyPending_extends[of b b' "apply"] that by (simp add: Un_commute)
  obtain r where "sequenceBox_Handle apply u b = r" by simp
  then show ?thesis
  proof (cases rule: Handle_cases)
    case direct
    then show ?thesis using \<open>_ = r\<close> by (auto simp: checkGap_apply intro: call_apply_extends)
  qed (use \<open>_ = r\<close> in \<open>simp_all add: ap\<close>)
qed

section \<open>Consistent updates\<close>

text \<open>
  What the server numbers: updates of positive length that never partly overlap. A position
  is aligned when no update straddles it.
\<close>

definition consistent :: "'v update set \<Rightarrow> bool" where
  "consistent B \<longleftrightarrow> (\<forall>u\<in>B. Count u > 0 \<and> State u \<noteq> 0)
     \<and> (\<forall>u\<in>B. \<forall>w\<in>B. u = w \<or> State u \<le> update_start w \<or> State w \<le> update_start u)"

definition aligned :: "'v update set \<Rightarrow> int \<Rightarrow> bool" where
  "aligned B x \<longleftrightarrow> (\<forall>w\<in>B. x \<le> update_start w \<or> State w \<le> x)"

definition span :: "'v update \<Rightarrow> int set" where
  "span u = {update_start u ..< State u}"

definition gap_set :: "gapBuffer \<Rightarrow> int set" where
  "gap_set gs = (\<Union>g\<in>set gs. {fst g ..< snd g})"

definition gaps_ok :: "'v update set \<Rightarrow> gapBuffer \<Rightarrow> bool" where
  "gaps_ok B gs \<longleftrightarrow> (\<forall>g\<in>set gs. fst g < snd g \<and> aligned B (fst g) \<and> aligned B (snd g))
     \<and> sorted_wrt (\<lambda>g h. snd g \<le> fst h \<or> snd h \<le> fst g) gs"

lemma aligned_ends:
  assumes "consistent B" "u \<in> B"
  shows "aligned B (update_start u)" "aligned B (State u)"
proof -
  have pos: "w \<in> B \<Longrightarrow> update_start w < State w" for w using assms(1) by (simp add: consistent_def update_start_def)
  have sep: "w \<in> B \<Longrightarrow> u = w \<or> State u \<le> update_start w \<or> State w \<le> update_start u" for w
    using assms by (simp add: consistent_def)
  show "aligned B (update_start u)" "aligned B (State u)"
    using pos sep pos[OF assms(2)] by (fastforce simp: aligned_def)+
qed

lemma checkGap_consistent:
  assumes "consistent B" "u \<in> B"
  shows "checkGap s (State u) (Count u) =
     (if s = update_start u then gapApply else if update_start u < s then gapIgnore else gapRefetch)"
  using assms by (auto simp: checkGap_def consistent_def update_start_def)

lemma consume_gaps_spec:
  assumes "consistent B" "u \<in> B"
  shows "gaps_ok B (before @ gs) \<Longrightarrow> \<forall>g\<in>set before. \<not> (fst g \<le> update_start u \<and> State u \<le> snd g) \<Longrightarrow>
    consume_gaps u before gs = (acc, gs') \<Longrightarrow>
    gaps_ok B gs' \<and> gap_set gs' = gap_set (before @ gs) - span u \<and> (\<not> acc \<longrightarrow> gs' = before @ gs)"
proof (induction gs arbitrary: before)
  case Nil
  have "{fst g ..< snd g} \<inter> span u = {}" if "g \<in> set before" for g
  proof -
    have "aligned B (fst g)" "aligned B (snd g)" using Nil.prems(1) that by (simp_all add: gaps_ok_def)
    then show ?thesis using Nil.prems(2) that assms by (fastforce simp: aligned_def span_def)
  qed
  then show ?case using Nil.prems by (auto simp: gap_set_def)
next
  case (Cons g gs)
  show ?case
  proof (cases "fst g \<le> update_start u \<and> State u \<le> snd g")
    case True
    let ?l = "if fst g < update_start u then [(fst g, update_start u)] else []"
    let ?r = "if snd g > State u then [(State u, snd g)] else []"
    have pos: "update_start u < State u" using assms by (simp add: consistent_def update_start_def)
    have gs': "gs' = before @ gs @ ?l @ ?r" using Cons.prems(3) True by (auto simp: update_end_def)
    have cut: "gap_set (?l @ ?r) = {fst g ..< snd g} - span u"
      using True pos by (auto simp: gap_set_def span_def)
    have rest: "{fst h ..< snd h} \<inter> span u = {}" if "h \<in> set (before @ gs)" for h
      using Cons.prems(1) True pos that by (fastforce simp: gaps_ok_def sorted_wrt_append span_def)
    have "gap_set gs' = gap_set (before @ gs) \<union> gap_set (?l @ ?r)" unfolding gs' gap_set_def by auto
    also have "\<dots> = gap_set (before @ g # gs) - span u"
      unfolding cut using rest by (auto simp: gap_set_def)
    finally have "gap_set gs' = gap_set (before @ g # gs) - span u" .
    moreover have "gaps_ok B gs'"
      using Cons.prems(1) True pos aligned_ends[OF assms] unfolding gs'
      by (auto simp: gaps_ok_def sorted_wrt_append)
    moreover have acc using Cons.prems(3) True by (simp add: update_end_def)
    ultimately show ?thesis by blast
  next
    case False
    have eq: "consume_gaps u (before @ [g]) gs = (acc, gs')" using Cons.prems(3) False by (auto simp: update_end_def)
    show ?thesis using Cons.IH[OF _ _ eq] Cons.prems(1,2) False by auto
  qed
qed

lemma Consume_spec:
  assumes "consistent B" "u \<in> B" "gaps_ok B gs" "gapBuffer_Consume u gs = (acc, gs')"
  shows "gaps_ok B gs'" "gap_set gs' = gap_set gs - span u" "\<not> acc \<Longrightarrow> gs' = gs"
  using consume_gaps_spec[OF assms(1,2), of "[]" gs acc gs'] assms(3,4) by (auto simp: gapBuffer_Consume_def)

lemma consume_all_spec:
  assumes "consistent B" "set us \<subseteq> B" "gaps_ok B gs"
  shows "gaps_ok B (consume_all us gs) \<and> gap_set (consume_all us gs) = gap_set gs - (\<Union>u\<in>set us. span u)"
  using assms(2,3)
proof (induction us arbitrary: gs)
  case (Cons u us)
  obtain acc gs' where c: "gapBuffer_Consume u gs = (acc, gs')" by fastforce
  have "gaps_ok B gs'" "gap_set gs' = gap_set gs - span u"
    using Consume_spec[OF assms(1) _ Cons.prems(2) c] Cons.prems(1) by auto
  then show ?case using Cons.IH[of gs'] Cons.prems(1) c by (auto simp: consume_all_def)
qed (simp add: consume_all_def)

lemma gap_set_Nil: "gaps_ok B gs \<Longrightarrow> gap_set gs = {} \<longleftrightarrow> gs = []"
  by (cases gs) (force simp: gaps_ok_def gap_set_def)+

lemma chain_mono:
  assumes "consistent B"
  shows "chain s us t \<Longrightarrow> set us \<subseteq> B \<Longrightarrow> s \<le> t \<and> (\<forall>u\<in>set us. s \<le> update_start u \<and> State u \<le> t)"
proof (induction us arbitrary: s)
  case (Cons u us)
  have u: "u \<in> B" using Cons.prems by simp
  then have "s = update_start u" using Cons.prems(1) assms by (auto simp: consistent_def update_start_def)
  moreover have "update_start u < State u" using assms u by (simp add: consistent_def update_start_def)
  moreover have "State u \<le> t \<and> (\<forall>u'\<in>set us. State u \<le> update_start u' \<and> State u' \<le> t)"
    using Cons.IH[of "State u"] Cons.prems by simp
  ultimately show ?case by force
qed simp

text \<open>The loop over sorted pending updates: what it trims is behind the state it reaches.\<close>

lemma pending_loop_consistent:
  assumes "consistent B"
  shows "pending_loop i st acc i us = (st', acc', cur) \<Longrightarrow> set us \<subseteq> B \<Longrightarrow> aligned B st \<Longrightarrow>
    aligned B st' \<and> st \<le> st' \<and> i \<le> cur \<and> (\<forall>w\<in>set (take (cur - i) us). State w \<le> st')"
proof (induction us arbitrary: i st acc)
  case (Cons u us)
  have u: "u \<in> B" and us: "set us \<subseteq> B" using Cons.prems(2) by simp_all
  have pos: "update_start u < State u" using assms u by (simp add: consistent_def update_start_def)
  have step: "aligned B st' \<and> st \<le> st' \<and> i \<le> cur \<and> (\<forall>w\<in>set (take (cur - i) (u # us)). State w \<le> st')"
    if l: "pending_loop (i + 1) st1 acc1 (i + 1) us = (st', acc', cur)" and st1: "aligned B st1" "st \<le> st1" "State u \<le> st1"
    for st1 acc1
  proof -
    have "aligned B st' \<and> st1 \<le> st' \<and> i + 1 \<le> cur \<and> (\<forall>w\<in>set (take (cur - (i + 1)) us). State w \<le> st')"
      using Cons.IH[OF l us st1(1)] .
    moreover from this have "cur - i = Suc (cur - (i + 1))" by linarith
    ultimately show ?thesis using st1 by auto
  qed
  consider "st = update_start u" | "update_start u < st" | "st < update_start u" by linarith
  then show ?case
  proof cases
    case 1
    then show ?thesis using Cons.prems(1) checkGap_consistent[OF assms u, of st] pos aligned_ends[OF assms u]
      by (intro step[of "State u" "acc @ [u]"]) auto
  next
    case 2
    then have "State u \<le> st" using Cons.prems(3) u by (auto simp: aligned_def)
    then show ?thesis using 2 Cons.prems checkGap_consistent[OF assms u, of st]
      by (intro step[of st acc]) auto
  next
    case 3
    then show ?thesis using Cons.prems checkGap_consistent[OF assms u, of st] by auto
  qed
qed auto

definition box_inv :: "'v update set \<Rightarrow> 'v update set \<Rightarrow> 'v sequenceBox \<Rightarrow> bool" where
  "box_inv B H b \<longleftrightarrow> set (pending b) \<subseteq> B \<and> set (applied_updates b) \<subseteq> B \<and> aligned B (state b)
     \<and> (\<forall>h\<in>H. State h > state b \<longrightarrow> h \<in> set (pending b))
     \<and> (if gaps b = [] then (\<forall>w\<in>set (pending b). update_start w > state b)
        else gaps_ok B (gaps b) \<and>
          (\<exists>w\<in>B. gap_set (gaps b) = {state b ..< update_start w} - (\<Union>p\<in>set (pending b). span p)))"

lemma applyPending_shape:
  assumes B: "consistent B" and pre: "set (pending b) \<subseteq> B" "aligned B (state b)" and ok: "\<forall>s us. apply s us = None"
  obtains acc cur where "pending (snd (applyPending apply b)) = drop cur (sort_key update_start (pending b))"
    "gaps (snd (applyPending apply b)) = gaps b" "applied_updates (snd (applyPending apply b)) = applied_updates b @ acc"
    "chain (state b) acc (state (snd (applyPending apply b)))" "set acc \<subseteq> set (take cur (sort_key update_start (pending b)))"
    "aligned B (state (snd (applyPending apply b)))" "state b \<le> state (snd (applyPending apply b))"
    "\<forall>w\<in>set (take cur (sort_key update_start (pending b))). State w \<le> state (snd (applyPending apply b))"
    "cur < length (pending b) \<longrightarrow> checkGap (state (snd (applyPending apply b))) (State (sort_key update_start (pending b) ! cur))
       (Count (sort_key update_start (pending b) ! cur)) = gapRefetch"
proof -
  let ?p = "sort_key update_start (pending b)" and ?b = "snd (applyPending apply b)"
  obtain st acc cur where l: "pending_loop 0 (state b) [] 0 ?p = (st, acc, cur)" by (metis prod_cases3)
  have pB: "set ?p \<subseteq> B" using pre(1) by simp
  from pending_loop_chain[OF l] have ch: "chain (state b) acc st" "set acc \<subseteq> set (take cur ?p)"
    "cur < length (pending b) \<longrightarrow> checkGap st (State (?p ! cur)) (Count (?p ! cur)) = gapRefetch" by auto
  from pending_loop_consistent[OF B l pB pre(2)]
  have al: "aligned B st" "state b \<le> st" "\<forall>w\<in>set (take cur ?p). State w \<le> st" by auto
  have "acc = [] \<Longrightarrow> st = state b" using ch(1) by simp
  then have "state ?b = st" "pending ?b = drop cur ?p" "gaps ?b = gaps b" "applied_updates ?b = applied_updates b @ acc"
    using l ok by (auto simp: applyPending_def call_apply_def setState_def applied_updates_def Let_def)
  then show thesis using that ch al by metis
qed

lemma applyPending_inv:
  assumes B: "consistent B" and pre: "set (pending b) \<subseteq> B" "set (applied_updates b) \<subseteq> B" "aligned B (state b)"
    "\<forall>h\<in>H. State h > state b \<longrightarrow> h \<in> set (pending b)" "gaps b = []" and ok: "\<forall>s us. apply s us = None"
  shows "box_inv B H (snd (applyPending apply b))"
proof -
  let ?p = "sort_key update_start (pending b)" and ?b = "snd (applyPending apply b)"
  obtain acc cur where b': "pending ?b = drop cur ?p" "gaps ?b = []" "applied_updates ?b = applied_updates b @ acc"
    and ch: "set acc \<subseteq> set (take cur ?p)"
      "cur < length (pending b) \<longrightarrow> checkGap (state ?b) (State (?p ! cur)) (Count (?p ! cur)) = gapRefetch"
    and al: "aligned B (state ?b)" "state b \<le> state ?b" "\<forall>w\<in>set (take cur ?p). State w \<le> state ?b"
    using applyPending_shape[OF B pre(1,3) ok] pre(5) by metis
  have pB: "set ?p \<subseteq> B" using pre(1) by simp
  have beyond: "update_start w > state ?b" if w: "w \<in> set (drop cur ?p)" for w
  proof -
    have c: "cur < length ?p" using w by (cases "cur < length ?p") auto
    then have "?p ! cur \<in> B" using pB nth_mem by blast
    then have "update_start (?p ! cur) > state ?b"
      using ch(2) c checkGap_consistent[OF B, of "?p ! cur" "state ?b"] by (auto split: if_splits)
    moreover obtain i where "i < length ?p - cur" "w = ?p ! (cur + i)" using w by (auto simp: in_set_conv_nth)
    moreover then have "update_start (?p ! cur) \<le> update_start w"
      using sorted_nth_mono[of "map update_start ?p" cur "cur + i"] by simp
    ultimately show ?thesis by simp
  qed
  have kept: "h \<in> set (drop cur ?p)" if "h \<in> H" "State h > state ?b" for h
  proof -
    have "h \<in> set ?p" using that pre(4) al(2) by auto
    then have "h \<in> set (take cur ?p) \<union> set (drop cur ?p)" by (metis append_take_drop_id set_append)
    then show ?thesis using al(3) that(2) by auto
  qed
  have "set acc \<subseteq> B" using ch(1) pB set_take_subset[of cur ?p] by blast
  moreover have "set (drop cur ?p) \<subseteq> B" using pB set_drop_subset[of cur ?p] by blast
  ultimately show ?thesis
    unfolding box_inv_def b' using al(1) pre(2) beyond kept by auto
qed

lemma Handle_inv:
  assumes B: "consistent B" "u \<in> B" and inv: "box_inv B H b" and ok: "\<forall>s us. apply s us = None"
  shows "box_inv B (insert u H) (snd (sequenceBox_Handle apply u b))"
proof -
  note cg = checkGap_consistent[OF B, of "state b"]
  have base: "set (pending b) \<subseteq> B" "set (applied_updates b) \<subseteq> B" "aligned B (state b)"
    "\<forall>h\<in>H. State h > state b \<longrightarrow> h \<in> set (pending b)" using inv by (auto simp: box_inv_def)
  have ap: "box_inv B (insert u H) (snd (applyPending apply b'))"
    if "pending b' = pending b @ [u]" "state b' = state b" "applied b' = applied b" "gaps b' = []" for b'
    using that base B(2) by (intro applyPending_inv[OF B(1) _ _ _ _ _ ok]) (auto simp: applied_updates_def)
  obtain r where r: "sequenceBox_Handle apply u b = r" by simp
  from this show ?thesis
  proof (cases rule: Handle_cases)
    case ignore
    then have "update_start u < state b" using cg by (auto split: if_splits)
    then have "State u \<le> state b" using base(3) B(2) by (auto simp: aligned_def)
    then show ?thesis using r ignore inv by (auto simp: box_inv_def)
  next
    case (postpone g)
    then have g: "gaps_ok B (gaps b)" using inv by (simp add: box_inv_def)
    then show ?thesis
      using Consume_spec[OF B g postpone(3)] inv postpone r B(2) by (auto simp: box_inv_def applied_updates_def)
  next
    case (fill g)
    then have g: "gaps_ok B (gaps b)" using inv by (simp add: box_inv_def)
    then show ?thesis
      using Consume_spec[OF B g fill(3)] inv fill r B(2) by (auto simp: box_inv_def applied_updates_def)
  next
    case resolve
    then show ?thesis using r by (simp add: ap)
  next
    case direct
    then have "state b = update_start u" using cg by (auto split: if_splits)
    then have "state b < State u" using B by (simp add: consistent_def update_start_def)
    then show ?thesis using direct r base ok aligned_ends[OF B] B(2)
      by (auto simp: call_apply_def setState_def box_inv_def applied_updates_def)
  next
    case pend
    then show ?thesis using r by (simp add: ap)
  next
    case (enable g)
    have lt: "state b < update_start u" using enable(1) cg by (auto split: if_splits)
    then have "gaps_ok B [(state b, update_start u)]" using base(3) aligned_ends[OF B] by (simp add: gaps_ok_def)
    from consume_all_spec[OF B(1) _ this, of "pending b @ [u]"]
    have "gaps_ok B g" "gap_set g = {state b ..< update_start u} - (\<Union>p\<in>set (pending b @ [u]). span p)"
      using enable(3) base(1) B(2) by (auto simp: gap_set_def)
    then show ?thesis using enable r base B(2)
      by (auto simp: box_inv_def applied_updates_def intro!: bexI[of _ u])
  next
    case enable_resolve
    then show ?thesis using r by (simp add: ap)
  qed
qed

lemma handle_all_inv:
  assumes "consistent B" "\<forall>s us. apply s us = None"
  shows "box_inv B H b \<Longrightarrow> set hs \<subseteq> B \<Longrightarrow> box_inv B (H \<union> set hs) (handle_all apply hs b)"
proof (induction hs arbitrary: H b)
  case (Cons u hs)
  then show ?case using Cons.IH[OF Handle_inv[OF assms(1) _ Cons.prems(1) assms(2), of u]] by simp
qed simp

lemma handle_all_chain:
  "chain s0 (applied_updates b) (state b) \<Longrightarrow>
   chain s0 (applied_updates (handle_all apply hs b)) (state (handle_all apply hs b))"
proof (induction hs arbitrary: b)
  case (Cons u hs)
  have "extends b (snd (sequenceBox_Handle apply u b)) (insert u (set (pending b)))" by (rule Handle_extends)
  then have "chain s0 (applied_updates (snd (sequenceBox_Handle apply u b))) (state (snd (sequenceBox_Handle apply u b)))"
    using Cons.prems by (auto simp: extends_def chain_append)
  then show ?case using Cons.IH by simp
qed simp

lemma Handle_pending_subset: "set (pending (snd (sequenceBox_Handle apply u b))) \<subseteq> insert u (set (pending b))"
proof -
  have ap: "set (pending (snd (applyPending apply b0))) \<subseteq> set (pending b0)" for b0 :: "'a sequenceBox"
  proof -
    have "set (drop n (sort_key update_start (pending b0))) \<subseteq> set (pending b0)" for n
      using set_drop_subset[of n "sort_key update_start (pending b0)"] by simp
    then show ?thesis
      by (auto simp: applyPending_def call_apply_def setState_def Let_def split: prod.splits option.splits)
  qed
  obtain r where "sequenceBox_Handle apply u b = r" by simp
  then show ?thesis
  proof (cases rule: Handle_cases)
    case direct
    then show ?thesis using \<open>_ = r\<close> by (auto simp: call_apply_def setState_def split: option.splits)
  next
    case resolve
    then show ?thesis using \<open>_ = r\<close> ap[of "b\<lparr>pending := pending b @ [u], gaps := [], gapTimer := False\<rparr>"] by auto
  next
    case pend
    then show ?thesis using \<open>_ = r\<close> ap[of "b\<lparr>pending := pending b @ [u]\<rparr>"] by auto
  next
    case enable_resolve
    then show ?thesis using \<open>_ = r\<close> ap[of "b\<lparr>pending := pending b @ [u], gaps := []\<rparr>"] by auto
  qed (use \<open>_ = r\<close> in auto)
qed

lemma handle_all_received:
  "set (applied_updates b) \<union> set (pending b) \<subseteq> H \<Longrightarrow>
   set (applied_updates (handle_all apply hs b)) \<subseteq> H \<union> set hs"
proof (induction hs arbitrary: b H)
  case (Cons u hs)
  have "set (applied_updates (snd (sequenceBox_Handle apply u b))) \<subseteq> insert u H"
    using Handle_extends[of b "apply" u] Cons.prems unfolding extends_def by fastforce
  moreover have "set (pending (snd (sequenceBox_Handle apply u b))) \<subseteq> insert u H"
    using Handle_pending_subset[of "apply" u b] Cons.prems by auto
  ultimately show ?case using Cons.IH[of "snd (sequenceBox_Handle apply u b)" "insert u H"] by simp
qed simp

lemma chain_le:
  "chain s us t \<Longrightarrow> \<forall>u\<in>set us. State u \<noteq> 0 \<and> 0 \<le> Count u \<Longrightarrow> s \<le> t"
  by (induction us arbitrary: s) (fastforce simp: checkGap_def split: if_splits)+

subsection \<open>A numbered sequence\<close>

lemma chain_consistent:
  assumes "\<forall>u\<in>set us. Count u > 0 \<and> State u \<noteq> 0" "chain s us t"
  shows "consistent (set us) \<and> (\<forall>u\<in>set us. s \<le> update_start u) \<and> aligned (set us) s"
  using assms
proof (induction us arbitrary: s)
  case (Cons u us)
  then have "State u = s + Count u" by (auto simp: checkGap_def split: if_splits)
  then have "s = update_start u" "s < State u" using Cons.prems(1) by (simp_all add: update_start_def)
  moreover have "\<forall>w\<in>set us. Count w > 0 \<and> State w \<noteq> 0" "chain (State u) us t" using Cons.prems by (simp, simp only: chain.simps)
  from Cons.IH[OF this] have "consistent (set us) \<and> (\<forall>w\<in>set us. State u \<le> update_start w)" by blast
  ultimately show ?case using Cons.prems(1) by (fastforce simp: consistent_def aligned_def)
qed (simp add: consistent_def aligned_def)

lemma chain_cover:
  assumes "\<forall>u\<in>set us. Count u > 0 \<and> State u \<noteq> 0" "chain s us t" "s \<le> k" "k < t"
  shows "\<exists>w\<in>set us. k \<in> span w"
  using assms
proof (induction us arbitrary: s)
  case (Cons u us)
  then have "s = update_start u" by (auto simp: checkGap_def update_start_def split: if_splits)
  then show ?case
    using Cons.IH[of "State u"] Cons.prems by (cases "k < State u") (auto simp: span_def)
qed simp

lemma chain_prefix:
  assumes "\<forall>u\<in>set us. Count u > 0 \<and> State u \<noteq> 0" "chain s us t" "chain s vs m" "set vs \<subseteq> set us"
  shows "\<exists>ws. us = vs @ ws \<and> chain m ws t"
  using assms
proof (induction vs arbitrary: us s)
  case (Cons v vs)
  then obtain u us' where us: "us = u # us'" by (cases us) auto
  have su: "s = update_start u" "s < State u" and sv: "s = update_start v" and v: "Count v > 0" "State v \<noteq> 0"
    using Cons.prems us by (auto simp: checkGap_def update_start_def split: if_splits)
  have p: "\<forall>w\<in>set us'. Count w > 0 \<and> State w \<noteq> 0" "chain (State u) us' t" using Cons.prems(1,2) us by (simp, simp only: chain.simps)
  have later: "\<forall>w\<in>set us'. State u \<le> update_start w" using chain_consistent[OF p] by blast
  have uv: "v = u" using Cons.prems(4) us later su sv by fastforce
  have "consistent (set us)" using chain_consistent[OF Cons.prems(1,2)] by simp
  moreover have "chain (State v) vs m" "set vs \<subseteq> set us" using Cons.prems by auto
  ultimately have "\<forall>w\<in>set vs. State v \<le> update_start w" using chain_mono[of "set us"] by blast
  then have "u \<notin> set vs" using su uv by auto
  then have "set vs \<subseteq> set us'" using \<open>set vs \<subseteq> set us\<close> us by auto
  from Cons.IH[OF _ _ _ this, of "State u"] Cons.prems us uv
  show ?case by auto
qed auto

section \<open>The specification of reordering\<close>

text \<open>
  What a reordering buffer promises, without lists of gaps, timers and cursors: a position, the
  updates that are waiting, the positions known to be missing, and what was delivered. A step
  delivers a chain of received updates that starts at the position, keeps exactly the received
  updates beyond the new position, never counts a waiting update as missing, and when nothing
  is missing has delivered all it can.
\<close>

record 'v reorder =
  r_pos :: int
  r_waiting :: "'v update set"
  r_missing :: "int set"
  r_out :: "'v update list"

inductive reorder_step :: "'v update \<Rightarrow> 'v reorder \<Rightarrow> 'v reorder \<Rightarrow> bool" where
  step: "chain (r_pos r) new p \<Longrightarrow> set new \<subseteq> insert u (r_waiting r) \<Longrightarrow> W = {w \<in> insert u (r_waiting r). p < State w} \<Longrightarrow>
    M \<subseteq> {p ..} \<Longrightarrow> M \<inter> (\<Union>w\<in>W. span w) = {} \<Longrightarrow> (M = {} \<longrightarrow> (\<forall>w\<in>W. p < update_start w)) \<Longrightarrow>
    reorder_step u r \<lparr>r_pos = p, r_waiting = W, r_missing = M, r_out = r_out r @ new\<rparr>"

inductive reorder_run :: "'v update list \<Rightarrow> 'v reorder \<Rightarrow> 'v reorder \<Rightarrow> bool" where
  refl: "reorder_run [] r r"
| step: "reorder_step u r r' \<Longrightarrow> reorder_run us r' r'' \<Longrightarrow> reorder_run (u # us) r r''"

inductive_cases reorder_stepE: "reorder_step u r r'"

definition abs_box :: "'v sequenceBox \<Rightarrow> 'v reorder" where
  "abs_box b = \<lparr>r_pos = state b, r_waiting = {w \<in> set (pending b). state b < State w}, r_missing = gap_set (gaps b),
     r_out = applied_updates b\<rparr>"

text \<open>
  Handling loses none of the received updates beyond the position it reaches.
\<close>

lemma Handle_pending:
  assumes B: "consistent B" "u \<in> B" and inv: "box_inv B H b" and ok: "\<forall>s us. apply s us = None"
    and w: "state (snd (sequenceBox_Handle apply u b)) < State w"
  shows "w \<in> set (pending (snd (sequenceBox_Handle apply u b))) \<longleftrightarrow> w = u \<or> w \<in> set (pending b)"
proof -
  have base: "set (pending b) \<subseteq> B" "aligned B (state b)" using inv by (auto simp: box_inv_def)
  have ap: "w \<in> set (pending (snd (applyPending apply b'))) \<longleftrightarrow> w = u \<or> w \<in> set (pending b)"
    if b': "pending b' = pending b @ [u]" "state b' = state b" and w: "state (snd (applyPending apply b')) < State w" for b'
  proof -
    let ?p = "sort_key update_start (pending b')"
    have "set (pending b') \<subseteq> B" "aligned B (state b')" using b' base B(2) by auto
    from applyPending_shape[OF B(1) this ok] obtain cur where
      p: "pending (snd (applyPending apply b')) = drop cur ?p" and "\<forall>x\<in>set (take cur ?p). State x \<le> state (snd (applyPending apply b'))"
      by metis
    with w have nt: "w \<notin> set (take cur ?p)" by force
    have "set ?p = set (take cur ?p) \<union> set (drop cur ?p)" by (metis append_take_drop_id set_append)
    moreover have "set ?p = insert u (set (pending b))" using b' by auto
    ultimately show ?thesis using p nt by (metis Un_iff insert_iff)
  qed
  obtain r where r: "sequenceBox_Handle apply u b = r" by simp
  from this show ?thesis
  proof (cases rule: Handle_cases)
    case ignore
    then have "update_start u < state b" using checkGap_consistent[OF B, of "state b"] by (auto split: if_splits)
    then have "State u \<le> state b" using base(2) B(2) by (auto simp: aligned_def)
    then show ?thesis using ignore r w by auto
  next
    case direct
    then show ?thesis using r w ok by (auto simp: call_apply_def setState_def)
  qed (use r w ap in auto)
qed

lemma Handle_refines:
  assumes B: "consistent B" "u \<in> B" and inv: "box_inv B H b" and ok: "\<forall>s us. apply s us = None"
  shows "reorder_step u (abs_box b) (abs_box (snd (sequenceBox_Handle apply u b)))"
proof -
  let ?b = "snd (sequenceBox_Handle apply u b)"
  have inv': "box_inv B (insert u H) ?b" by (rule Handle_inv[OF B inv ok])
  obtain new where new: "applied_updates ?b = applied_updates b @ new" "chain (state b) new (state ?b)" "set new \<subseteq> insert u (set (pending b))"
    using Handle_extends[of b "apply" u] by (auto simp: extends_def)
  have sub: "set new \<subseteq> B" using new(3) B(2) inv by (auto simp: box_inv_def)
  note mono = chain_mono[OF B(1) new(2) sub]
  have later: "state b < State x" if "x \<in> set new" for x
    using mono that sub B(1) by (fastforce simp: consistent_def update_start_def)
  let ?W = "{w \<in> insert u {w \<in> set (pending b). state b < State w}. state ?b < State w}"
  have W: "{w \<in> set (pending ?b). state ?b < State w} = ?W"
    using Handle_pending[OF B inv ok] mono by auto
  have "gap_set (gaps ?b) \<subseteq> {state ?b ..}" "gap_set (gaps ?b) \<inter> (\<Union>w\<in>{w \<in> set (pending ?b). state ?b < State w}. span w) = {}"
    using inv' by (auto simp: box_inv_def gap_set_def split: if_splits)
  moreover have "gap_set (gaps ?b) = {} \<longrightarrow> (\<forall>w\<in>{w \<in> set (pending ?b). state ?b < State w}. state ?b < update_start w)"
    using inv' gap_set_Nil[of B "gaps ?b"] by (auto simp: box_inv_def split: if_splits)
  moreover have "set new \<subseteq> insert u {w \<in> set (pending b). state b < State w}" using new(3) later by auto
  ultimately have "reorder_step u (abs_box b) \<lparr>r_pos = state ?b, r_waiting = ?W, r_missing = gap_set (gaps ?b), r_out = r_out (abs_box b) @ new\<rparr>"
    using new(2) W by (intro reorder_step.intros) (simp_all add: abs_box_def)
  then show ?thesis using W new(1) by (simp add: abs_box_def)
qed

lemma handle_all_refines:
  assumes "consistent B" "\<forall>s us. apply s us = None"
  shows "box_inv B H b \<Longrightarrow> set hs \<subseteq> B \<Longrightarrow> reorder_run hs (abs_box b) (abs_box (handle_all apply hs b))"
proof (induction hs arbitrary: H b)
  case (Cons u hs)
  then show ?case
    using Handle_refines[OF assms(1) _ Cons.prems(1) assms(2), of u] Handle_inv[OF assms(1) _ Cons.prems(1) assms(2), of u] Cons.IH
    by (auto intro: reorder_run.step)
qed (simp add: reorder_run.refl)

section \<open>Properties\<close>

text \<open>
  C8. Updates are handed to the application in order and without a gap, whatever arrives and whichever
  calls of \<open>apply\<close> fail, as long as every update has a position (its state is not zero): of
  the updates of the successful calls, taken together, the first starts at the initial state,
  each starts where the one before ended, and the state of the box is the end of the last,
  so it has moved by exactly what they count. Each of them has arrived.
\<close>

theorem applied_in_order:
  assumes "\<forall>u\<in>set us. State u \<noteq> 0"
  shows "let b = handle_all apply us (newSequenceBox s0) in
    gapless s0 (applied_updates b) (state b) \<and> state b = s0 + (\<Sum>u\<leftarrow>applied_updates b. Count u) \<and> set (applied_updates b) \<subseteq> set us"
proof -
  let ?b = "handle_all apply us (newSequenceBox s0)"
  have "chain s0 (applied_updates ?b) (state ?b)"
    by (rule handle_all_chain) (simp add: newSequenceBox_def applied_updates_def)
  moreover have "set (applied_updates ?b) \<subseteq> set us"
    using handle_all_received[of "newSequenceBox s0" "{}" "apply" us] by (simp add: newSequenceBox_def applied_updates_def)
  moreover from calculation have g: "gapless s0 (applied_updates ?b) (state ?b)" using assms by (intro chain_gapless) auto
  ultimately show ?thesis using gapless_sum[OF g] by (simp add: Let_def)
qed

text \<open>Five updates, the last but one behind a gap, with an application that refuses to move to 12.\<close>

definition example_updates :: "string update list" where
  "example_updates = [\<lparr>Value = ''a'', State = 11, Count = 1\<rparr>, \<lparr>Value = ''b'', State = 12, Count = 1\<rparr>, \<lparr>Value = ''c'', State = 13, Count = 2\<rparr>,
     \<lparr>Value = ''e'', State = 15, Count = 1\<rparr>, \<lparr>Value = ''d'', State = 14, Count = 1\<rparr>]"

theorem applied_in_order_witness:
  "let b = handle_all (\<lambda>s us. if s = 12 then Some EOF else None) example_updates (newSequenceBox 10) in
     gapless 10 (applied_updates b) (state b) \<and> state b = 15 \<and> map Value (applied_updates b) = [''a'', ''c'', ''d'', ''e'']"
proof -
  let ?b = "handle_all (\<lambda>s us. if s = 12 then Some EOF else None) example_updates (newSequenceBox 10)"
  have "state ?b = 15" "map Value (applied_updates ?b) = [''a'', ''c'', ''d'', ''e'']" by code_simp+
  moreover have "\<forall>u\<in>set example_updates. State u \<noteq> 0" by (simp add: example_updates_def)
  then have "gapless 10 (applied_updates ?b) (state ?b)"
    using applied_in_order[of example_updates "\<lambda>s us. if s = 12 then Some EOF else None" 10] unfolding Let_def by blast
  ultimately show ?thesis by (simp add: Let_def)
qed

text \<open>
  C12. Nothing is lost and nothing is applied twice. Let the server number updates of
  positive length contiguously from the box's state. When all of them have arrived, in any
  order and with any repetitions, and the application accepts what it is given, the
  application has received exactly these updates, once each and in the server's order, the
  state is the end of the sequence and no gap is left.
\<close>

theorem reordered_updates_applied_once:
  assumes "chain s0 us t" and "\<forall>u\<in>set us. Count u > 0 \<and> State u \<noteq> 0" and "set arrivals = set us"
    and "\<forall>s xs. apply s xs = None"
  shows "applied_updates (handle_all apply arrivals (newSequenceBox s0)) = us
    \<and> state (handle_all apply arrivals (newSequenceBox s0)) = t
    \<and> gaps (handle_all apply arrivals (newSequenceBox s0)) = []"
proof -
  let ?b = "handle_all apply arrivals (newSequenceBox s0)"
  have B: "consistent (set us)" "aligned (set us) s0" using chain_consistent[OF assms(2,1)] by auto
  have "box_inv (set us) {} (newSequenceBox s0)"
    using B(2) by (simp add: box_inv_def newSequenceBox_def applied_updates_def)
  from handle_all_inv[OF B(1) assms(4) this, of arrivals]
  have inv: "box_inv (set us) (set us) ?b" using assms(3) by simp
  have ch: "chain s0 (applied_updates ?b) (state ?b)"
    by (rule handle_all_chain) (simp add: newSequenceBox_def applied_updates_def)
  have sub: "set (applied_updates ?b) \<subseteq> set us" using inv by (simp add: box_inv_def)
  from chain_prefix[OF assms(2,1) ch sub] obtain ws where ws: "us = applied_updates ?b @ ws" "chain (state ?b) ws t"
    by blast
  have upd: "w \<in> set (pending ?b)" if "w \<in> set us" "state ?b < State w" for w
    using inv that by (simp add: box_inv_def)
  have "gaps ?b = []"
  proof (rule ccontr)
    assume g: "gaps ?b \<noteq> []"
    then obtain x where ok: "gaps_ok (set us) (gaps ?b)" and x: "x \<in> set us"
      and gs: "gap_set (gaps ?b) = {state ?b ..< update_start x} - (\<Union>p\<in>set (pending ?b). span p)"
      using inv by (auto simp: box_inv_def)
    have xt: "update_start x < t"
      using chain_mono[OF B(1) assms(1)] x assms(2) by (fastforce simp: update_start_def)
    have "k \<in> (\<Union>p\<in>set (pending ?b). span p)" if k: "state ?b \<le> k" "k < update_start x" for k
    proof -
      have "s0 \<le> k" using chain_mono[OF B(1) ch sub] k by simp
      then obtain w where w: "w \<in> set us" "k \<in> span w" using chain_cover[OF assms(2,1)] k xt by fastforce
      then show ?thesis using upd[of w] k by (auto simp: span_def)
    qed
    then have "gap_set (gaps ?b) = {}" unfolding gs by auto
    then show False using gap_set_Nil[OF ok] g by simp
  qed
  moreover have "ws = []"
  proof (cases ws)
    case (Cons w ws')
    then have "update_start w = state ?b" "state ?b < State w" "w \<in> set us"
      using ws assms(2) by (auto simp: checkGap_def update_start_def split: if_splits)
    moreover have "\<forall>p\<in>set (pending ?b). update_start p > state ?b" using inv \<open>gaps ?b = []\<close> by (simp add: box_inv_def)
    ultimately show ?thesis using upd[of w] by force
  qed
  ultimately show ?thesis using ws by simp
qed

theorem reordered_updates_applied_once_witness:
  "applied_updates (handle_all (\<lambda>_ _. None)
       [\<lparr>Value = ''c'', State = 14, Count = 1\<rparr>, \<lparr>Value = ''b'', State = 13, Count = 2\<rparr>,
        \<lparr>Value = ''b'', State = 13, Count = 2\<rparr>, \<lparr>Value = ''a'', State = 11, Count = 1\<rparr>] (newSequenceBox 10))
     = [\<lparr>Value = ''a'', State = 11, Count = 1\<rparr>, \<lparr>Value = ''b'', State = 13, Count = 2\<rparr>, \<lparr>Value = ''c'', State = 14, Count = 1\<rparr>]"
  by (rule reordered_updates_applied_once[where t = 14, THEN conjunct1]) auto

text \<open>
  C14. The box implements the specification of reordering. Through the abstraction that keeps the
  position, the pending updates beyond it, the positions in the gaps and what was applied,
  every run on consistently numbered updates, in any order and with any repetitions, is a run
  of the specification, when the application accepts what it is given.
\<close>

theorem sequenceBox_refines:
  assumes "consistent B" and "set arrivals \<subseteq> B" and "aligned B s0" and "\<forall>s us. apply s us = None"
  shows "reorder_run arrivals \<lparr>r_pos = s0, r_waiting = {}, r_missing = {}, r_out = []\<rparr>
    (abs_box (handle_all apply arrivals (newSequenceBox s0)))"
proof -
  have "box_inv B {} (newSequenceBox s0)" using assms(3) by (simp add: box_inv_def newSequenceBox_def applied_updates_def)
  from handle_all_refines[OF assms(1,4) this assms(2)] show ?thesis
    by (simp add: abs_box_def newSequenceBox_def applied_updates_def gap_set_def)
qed

theorem sequenceBox_refines_witness:
  "reorder_run [\<lparr>Value = ''b'', State = 13, Count = 2\<rparr>, \<lparr>Value = ''a'', State = 11, Count = 1\<rparr>]
     \<lparr>r_pos = 10, r_waiting = {}, r_missing = {}, r_out = []\<rparr>
     (abs_box (handle_all (\<lambda>_ _. None) [\<lparr>Value = ''b'', State = 13, Count = 2\<rparr>, \<lparr>Value = ''a'', State = 11, Count = 1\<rparr>] (newSequenceBox 10)))"
  by (rule sequenceBox_refines[where B = "{\<lparr>Value = ''b'', State = 13, Count = 2\<rparr>, \<lparr>Value = ''a'', State = 11, Count = 1\<rparr>}"])
    (auto simp: consistent_def aligned_def update_start_def)

text \<open>
  C39. Handling never panics: the two branches the code marks as unreachable are. An error that \<open>Handle\<close>
  returns is one the application returned for a call with at least one update, and the state
  has not moved. When the update and all pending ones have a position and no negative
  count, the state does not move back. The first of these conditions matters: an update
  whose state is zero is applied to a box without gaps at once, and takes it back to zero.
\<close>

theorem Handle_never_panics:
  assumes "sequenceBox_Handle apply u b = (err, b')"
  shows "(err \<noteq> None \<longrightarrow> state b' = state b \<and> (\<exists>s us. err = apply s us \<and> us \<noteq> []))
    \<and> ((\<forall>w\<in>insert u (set (pending b)). State w \<noteq> 0 \<and> 0 \<le> Count w) \<longrightarrow> state b \<le> state b')
    \<and> (State u = 0 \<and> gaps b = [] \<and> pending b = [] \<and> apply 0 [u] = None \<longrightarrow> state b' = 0 \<and> applied b' = applied b @ [(0, [u])])"
proof (intro conjI)
  have ap: "err \<noteq> None \<longrightarrow> state b' = state b0 \<and> (\<exists>s us. err = apply s us \<and> us \<noteq> [])"
    if "(err, b') = applyPending apply b0" for b0
    using that by (auto simp: applyPending_def call_apply_def Let_def split: prod.splits if_splits option.splits) metis
  from assms show "err \<noteq> None \<longrightarrow> state b' = state b \<and> (\<exists>s us. err = apply s us \<and> us \<noteq> [])"
  proof (cases rule: Handle_cases)
    case direct
    then show ?thesis by (auto simp: call_apply_def split: option.splits) (metis list.distinct(1))
  qed (use ap in auto)
  have "extends b b' (insert u (set (pending b)))" using Handle_extends[of b "apply" u] assms by simp
  then show "(\<forall>w\<in>insert u (set (pending b)). State w \<noteq> 0 \<and> 0 \<le> Count w) \<longrightarrow> state b \<le> state b'"
    using chain_le by (fastforce simp: extends_def)
  show "State u = 0 \<and> gaps b = [] \<and> pending b = [] \<and> apply 0 [u] = None \<longrightarrow> state b' = 0 \<and> applied b' = applied b @ [(0, [u])]"
    using assms by (auto simp: sequenceBox_Handle_def checkGap_def gapBuffer_Has_def call_apply_def setState_def)
qed

text \<open>An update that moves the state from 10 to 11, the same with an application that fails, and one without a position.\<close>

theorem Handle_never_panics_witness:
  "\<exists>b1 b2 b3. sequenceBox_Handle (\<lambda>_ _. None) \<lparr>Value = (), State = 11, Count = 1\<rparr> (newSequenceBox 10) = (None, b1) \<and> 10 \<le> state b1 \<and> state b1 = 11
    \<and> sequenceBox_Handle (\<lambda>_ _. Some EOF) \<lparr>Value = (), State = 11, Count = 1\<rparr> (newSequenceBox 10) = (Some EOF, b2) \<and> state b2 = 10
    \<and> sequenceBox_Handle (\<lambda>_ _. None) \<lparr>Value = (), State = 0, Count = 1\<rparr> (newSequenceBox 10) = (None, b3) \<and> state b3 = 0"
proof -
  let ?u = "\<lparr>Value = (), State = 11, Count = 1\<rparr>" and ?z = "\<lparr>Value = (), State = 0, Count = 1\<rparr>" and ?b = "newSequenceBox 10 :: unit sequenceBox"
  have e: "fst (sequenceBox_Handle (\<lambda>_ _. None) ?u ?b) = None" "state (snd (sequenceBox_Handle (\<lambda>_ _. None) ?u ?b)) = 11"
    "fst (sequenceBox_Handle (\<lambda>_ _. Some EOF) ?u ?b) = Some EOF" "fst (sequenceBox_Handle (\<lambda>_ _. None) ?z ?b) = None" by code_simp+
  then obtain b1 b2 b3 where r: "sequenceBox_Handle (\<lambda>_ _. None) ?u ?b = (None, b1)" "state b1 = 11"
    "sequenceBox_Handle (\<lambda>_ _. Some EOF) ?u ?b = (Some EOF, b2)" "sequenceBox_Handle (\<lambda>_ _. None) ?z ?b = (None, b3)"
    by (metis prod.collapse)
  have "10 \<le> state b1" using Handle_never_panics[OF r(1)] by (simp add: newSequenceBox_def)
  moreover have "state b2 = 10" using Handle_never_panics[OF r(3)] by (simp add: newSequenceBox_def)
  moreover have "state b3 = 0" using Handle_never_panics[OF r(4)] by (simp add: newSequenceBox_def)
  ultimately show ?thesis using r by blast
qed

text \<open>
  What \<open>applyPending\<close> leaves behind: when a gap is resolved but a later one follows, the
  updates behind the later gap stay pending with no gap recorded and no timer running, so
  nothing but another update (or the idle timeout of the caller) makes the box notice it.
\<close>

theorem later_gap_not_recorded:
  "let b = handle_all (\<lambda>_ _. None)
       [\<lparr>Value = (), State = 13, Count = 1\<rparr>, \<lparr>Value = (), State = 16, Count = 1\<rparr>, \<lparr>Value = (), State = 12, Count = 2\<rparr>]
       (newSequenceBox 10)
   in state b = 13 \<and> pending b = [\<lparr>Value = (), State = 16, Count = 1\<rparr>] \<and> gaps b = [] \<and> \<not> gapTimer b"
  by (simp add: newSequenceBox_def sequenceBox_Handle_def checkGap_def gapBuffer_Has_def gapBuffer_Enable_def
      gapBuffer_Consume_def consume_all_def update_start_def update_end_def applyPending_def call_apply_def setState_def Let_def)

end
