(* ===== verification/Fileid.thy ===== *)
theory Fileid
  imports Bin
begin

text \<open>
  Package \<open>fileid\<close>: the textual file identifiers of the Bot API. A \<open>FileID\<close> is laid out in
  the TL wire format (\<open>file_id.go\<close>, \<open>photo_size_source.go\<close>), a version byte is appended,
  runs of zero bytes are shortened (\<open>rle.go\<close>) and the result is written in unpadded URL
  base64 (\<open>encode.go\<close>, \<open>decode.go\<close>; the alphabet and the quanta of Go's
  \<open>encoding/base64\<close>). A \<open>Type\<close> and a \<open>PhotoSizeSourceType\<close> are Go \<open>int\<close>s; a decoder
  returns the structure it filled, which callers use only when there is no error.
\<close>

section \<open>rle.go\<close>

text \<open>The loop of \<open>rleEncode\<close>; \<open>count\<close> is a byte and wraps.\<close>

primrec rleEncode_loop :: "byte \<Rightarrow> bytes \<Rightarrow> bytes \<Rightarrow> bytes" where
  "rleEncode_loop count r [] = (if count > 0 then r @ [0, count] else r)"
| "rleEncode_loop count r (cur # s) =
     (if cur = 0 then rleEncode_loop (count + 1) r s
      else rleEncode_loop 0 ((if count > 0 then r @ [0, count] else r) @ [cur]) s)"

definition rleEncode :: "bytes \<Rightarrow> bytes" where
  "rleEncode s = rleEncode_loop 0 [] s"

primrec rleDecode_loop :: "bytes \<Rightarrow> bytes \<Rightarrow> bytes \<Rightarrow> bytes" where
  "rleDecode_loop lst r [] = r @ lst"
| "rleDecode_loop lst r (cur # s) =
     (if lst = [0] then rleDecode_loop [] (r @ concat (replicate (unat cur) lst)) s
      else rleDecode_loop [cur] (r @ lst) s)"

definition rleDecode :: "bytes \<Rightarrow> bytes" where
  "rleDecode s = rleDecode_loop [] [] s"

section \<open>Unpadded URL base64\<close>

definition b64_alphabet :: bytes where
  "b64_alphabet = map word_of_nat ([65..<91] @ [97..<123] @ [48..<58] @ [45, 95])"

definition b64_char :: "nat \<Rightarrow> byte" where
  "b64_char v = b64_alphabet ! v"

fun index_of :: "'a \<Rightarrow> 'a list \<Rightarrow> nat option" where
  "index_of x [] = None"
| "index_of x (y # ys) = (if x = y then Some 0 else map_option Suc (index_of x ys))"

definition b64_value :: "byte \<Rightarrow> nat option" where
  "b64_value c = index_of c b64_alphabet"

fun base64Encode :: "bytes \<Rightarrow> bytes" where
  "base64Encode [] = []"
| "base64Encode [a] = (let n = unat a * 16 in [b64_char (n div 64), b64_char (n mod 64)])"
| "base64Encode [a, b] = (let n = (unat a * 256 + unat b) * 4 in
     [b64_char (n div 4096), b64_char (n div 64 mod 64), b64_char (n mod 64)])"
| "base64Encode (a # b # c # s) = (let n = unat a * 65536 + unat b * 256 + unat c in
     b64_char (n div 262144) # b64_char (n div 4096 mod 64) # b64_char (n div 64 mod 64) # b64_char (n mod 64)
       # base64Encode s)"

text \<open>
  \<open>DecodeString\<close>: carriage returns and line feeds are skipped; the unused low bits of the
  last quantum are not checked (the encoding is not strict); a single character left over
  or a character outside the alphabet is a \<open>CorruptInputError\<close>, whose offset is not kept.
\<close>

fun b64_quanta :: "nat list \<Rightarrow> go_error + bytes" where
  "b64_quanta [] = Inr []"
| "b64_quanta [v] = Inl (Errorf ''illegal base64 data'' [])"
| "b64_quanta [v, w] = Inr [word_of_nat ((v * 64 + w) div 16)]"
| "b64_quanta [v, w, x] = (let n = (v * 4096 + w * 64 + x) div 4 in Inr [word_of_nat (n div 256), word_of_nat (n mod 256)])"
| "b64_quanta (v # w # x # y # s) = (let n = v * 262144 + w * 4096 + x * 64 + y in
     case b64_quanta s of
       Inl e \<Rightarrow> Inl e
     | Inr bs \<Rightarrow> Inr (word_of_nat (n div 65536) # word_of_nat (n div 256 mod 256) # word_of_nat (n mod 256) # bs))"

definition base64Decode :: "bytes \<Rightarrow> go_error + bytes" where
  "base64Decode s =
     (let vs = map b64_value (filter (\<lambda>c. c \<noteq> 10 \<and> c \<noteq> 13) s) in
      if None \<in> set vs then Inl (Errorf ''illegal base64 data'' []) else b64_quanta (map the vs))"

section \<open>type.go, photo\_size\_source\_type.go\<close>

definition Thumbnail :: int where "Thumbnail = 0"
definition ProfilePhoto :: int where "ProfilePhoto = 1"
definition Photo :: int where "Photo = 2"
definition lastType :: int where "lastType = 18"

definition PhotoSizeSourceLegacy :: int where "PhotoSizeSourceLegacy = 0"
definition PhotoSizeSourceThumbnail :: int where "PhotoSizeSourceThumbnail = 1"
definition PhotoSizeSourceDialogPhotoSmall :: int where "PhotoSizeSourceDialogPhotoSmall = 2"
definition PhotoSizeSourceDialogPhotoBig :: int where "PhotoSizeSourceDialogPhotoBig = 3"
definition PhotoSizeSourceStickerSetThumbnail :: int where "PhotoSizeSourceStickerSetThumbnail = 4"
definition PhotoSizeSourceFullLegacy :: int where "PhotoSizeSourceFullLegacy = 5"
definition PhotoSizeSourceDialogPhotoSmallLegacy :: int where "PhotoSizeSourceDialogPhotoSmallLegacy = 6"
definition PhotoSizeSourceDialogPhotoBigLegacy :: int where "PhotoSizeSourceDialogPhotoBigLegacy = 7"
definition PhotoSizeSourceStickerSetThumbnailLegacy :: int where "PhotoSizeSourceStickerSetThumbnailLegacy = 8"
definition PhotoSizeSourceStickerSetThumbnailVersion :: int where "PhotoSizeSourceStickerSetThumbnailVersion = 9"
definition lastPhotoSizeSourceType :: int where "lastPhotoSizeSourceType = 10"

lemmas source_types = PhotoSizeSourceLegacy_def PhotoSizeSourceThumbnail_def PhotoSizeSourceDialogPhotoSmall_def
  PhotoSizeSourceDialogPhotoBig_def PhotoSizeSourceStickerSetThumbnail_def PhotoSizeSourceFullLegacy_def
  PhotoSizeSourceDialogPhotoSmallLegacy_def PhotoSizeSourceDialogPhotoBigLegacy_def
  PhotoSizeSourceStickerSetThumbnailLegacy_def PhotoSizeSourceStickerSetThumbnailVersion_def

section \<open>photo\_size\_source.go\<close>

record PhotoSizeSource =
  P_Type :: int
  VolumeID :: "64 word"
  LocalID :: int
  Secret :: "64 word"
  PhotoSize :: bytes
  FileType :: int
  ThumbnailType :: "32 word"
  DialogID :: "64 word"
  DialogAccessHash :: "64 word"
  StickerSetID :: "64 word"
  StickerSetAccessHash :: "64 word"
  StickerVersion :: "32 word"

definition zero_source :: PhotoSizeSource where
  "zero_source = \<lparr>P_Type = 0, VolumeID = 0, LocalID = 0, Secret = 0, PhotoSize = [], FileType = 0, ThumbnailType = 0,
     DialogID = 0, DialogAccessHash = 0, StickerSetID = 0, StickerSetAccessHash = 0, StickerVersion = 0\<rparr>"

definition readLocalIDVolumeID :: "PhotoSizeSource \<Rightarrow> PhotoSizeSource dec" where
  "readLocalIDVolumeID p =
     dec_bind (dec_wrap ''read volume_id'' Buffer_Long) (\<lambda>v.
     dec_bind (dec_wrap ''read local_id'' Buffer_Int) (\<lambda>l.
     dec_return (p\<lparr>VolumeID := v, LocalID := l\<rparr>)))"

definition readDialog :: "PhotoSizeSource \<Rightarrow> PhotoSizeSource dec" where
  "readDialog p =
     dec_bind (dec_wrap ''read dialog_id'' Buffer_Long) (\<lambda>i.
     dec_bind (dec_wrap ''read dialog_access_hash'' Buffer_Long) (\<lambda>h.
     dec_return (p\<lparr>DialogID := i, DialogAccessHash := h\<rparr>)))"

definition readStickerSet :: "PhotoSizeSource \<Rightarrow> PhotoSizeSource dec" where
  "readStickerSet p =
     dec_bind (dec_wrap ''read sticker_set_id'' Buffer_Long) (\<lambda>i.
     dec_bind (dec_wrap ''read sticker_set_access_hash'' Buffer_Long) (\<lambda>h.
     dec_return (p\<lparr>StickerSetID := i, StickerSetAccessHash := h\<rparr>)))"

definition latestSubVersion :: byte where "latestSubVersion = 34"

text \<open>The \<open>switch\<close> on the type of the source.\<close>

definition decode_by_type :: "int \<Rightarrow> PhotoSizeSource \<Rightarrow> PhotoSizeSource dec" where
  "decode_by_type ty p =
     (if ty = PhotoSizeSourceLegacy then
        dec_bind (dec_wrap ''read secret'' Buffer_Long) (\<lambda>v. dec_return (p\<lparr>Secret := v\<rparr>))
      else if ty = PhotoSizeSourceThumbnail then
        dec_bind (dec_wrap ''read file_type'' Buffer_Uint32) (\<lambda>v.
        dec_bind (dec_wrap ''read thumbnail_type'' Buffer_Int32) (\<lambda>w.
        dec_return (p\<lparr>FileType := uint v, ThumbnailType := w\<rparr>)))
      else if ty = PhotoSizeSourceDialogPhotoBig \<or> ty = PhotoSizeSourceDialogPhotoSmall then
        dec_wrap ''read dialog'' (readDialog p)
      else if ty = PhotoSizeSourceStickerSetThumbnail then
        dec_wrap ''read sticker_set'' (readStickerSet p)
      else if ty = PhotoSizeSourceFullLegacy then
        dec_bind (dec_wrap ''read volume_id'' Buffer_Long) (\<lambda>v.
        dec_bind (dec_wrap ''read secret'' Buffer_Long) (\<lambda>s.
        dec_bind (dec_wrap ''read local_id'' Buffer_Int) (\<lambda>l.
        dec_return (p\<lparr>VolumeID := v, Secret := s, LocalID := l\<rparr>))))
      else if ty = PhotoSizeSourceDialogPhotoBigLegacy \<or> ty = PhotoSizeSourceDialogPhotoSmallLegacy then
        dec_bind (dec_wrap ''read dialog'' (readDialog p)) (\<lambda>p.
        dec_wrap ''read legacy photo'' (readLocalIDVolumeID p))
      else if ty = PhotoSizeSourceStickerSetThumbnailLegacy then
        dec_bind (dec_wrap ''read sticker_set'' (readStickerSet p)) (\<lambda>p.
        dec_wrap ''read legacy photo'' (readLocalIDVolumeID p))
      else if ty = PhotoSizeSourceStickerSetThumbnailVersion then
        dec_bind (dec_wrap ''read sticker_set'' (readStickerSet p)) (\<lambda>p.
        dec_bind (dec_wrap ''read sticker_version'' Buffer_Int32) (\<lambda>v. dec_return (p\<lparr>StickerVersion := v\<rparr>)))
      else dec_return p)"

definition PhotoSizeSource_decode :: "PhotoSizeSource \<Rightarrow> byte \<Rightarrow> PhotoSizeSource dec" where
  "PhotoSizeSource_decode p subVersion =
     dec_bind (if subVersion < 32 then
         dec_bind (dec_wrap ''read volume_id'' Buffer_Long) (\<lambda>v. dec_return (p\<lparr>VolumeID := v\<rparr>))
       else dec_return p) (\<lambda>p.
     if subVersion < 22 then
       dec_bind (dec_wrap ''read secret'' Buffer_Long) (\<lambda>v.
       dec_bind (dec_wrap ''read local_id'' Buffer_Int) (\<lambda>l.
       dec_return (p\<lparr>Secret := v, LocalID := l\<rparr>)))
     else
       dec_bind (if subVersion \<ge> 4 then dec_wrap ''read photo_size_type'' Buffer_Int else dec_return 0) (\<lambda>ty.
       if ty < 0 \<or> ty \<ge> lastPhotoSizeSourceType then dec_fail (Errorf ''unknown photo size source type %d'' [ty])
       else
         dec_bind (decode_by_type ty (p\<lparr>P_Type := ty\<rparr>)) (\<lambda>p.
         if subVersion < 32 \<and> subVersion \<ge> 22 then
           dec_bind (dec_wrap ''read local_id'' Buffer_Int) (\<lambda>l. dec_return (p\<lparr>LocalID := l\<rparr>))
         else dec_return p)))"

definition writeLocalIDVolumeID :: "PhotoSizeSource \<Rightarrow> buffer \<Rightarrow> buffer" where
  "writeLocalIDVolumeID p b = Buffer_PutInt (LocalID p) (Buffer_PutLong (VolumeID p) b)"

definition writeDialog :: "PhotoSizeSource \<Rightarrow> buffer \<Rightarrow> buffer" where
  "writeDialog p b = Buffer_PutLong (DialogAccessHash p) (Buffer_PutLong (DialogID p) b)"

definition writeStickerSet :: "PhotoSizeSource \<Rightarrow> buffer \<Rightarrow> buffer" where
  "writeStickerSet p b = Buffer_PutLong (StickerSetAccessHash p) (Buffer_PutLong (StickerSetID p) b)"

definition PhotoSizeSource_encode :: "PhotoSizeSource \<Rightarrow> buffer \<Rightarrow> buffer" where
  "PhotoSizeSource_encode p b =
     (let b = Buffer_PutInt (P_Type p) b in
      if P_Type p = PhotoSizeSourceLegacy then Buffer_PutLong (Secret p) b
      else if P_Type p = PhotoSizeSourceThumbnail then
        Buffer_PutInt32 (ThumbnailType p) (Buffer_PutUint32 (word_of_int (FileType p)) b)
      else if P_Type p = PhotoSizeSourceDialogPhotoBig \<or> P_Type p = PhotoSizeSourceDialogPhotoSmall then writeDialog p b
      else if P_Type p = PhotoSizeSourceStickerSetThumbnail then writeStickerSet p b
      else if P_Type p = PhotoSizeSourceFullLegacy then
        Buffer_PutInt (LocalID p) (Buffer_PutLong (Secret p) (Buffer_PutLong (VolumeID p) b))
      else if P_Type p = PhotoSizeSourceDialogPhotoBigLegacy \<or> P_Type p = PhotoSizeSourceDialogPhotoSmallLegacy then
        writeLocalIDVolumeID p (writeDialog p b)
      else if P_Type p = PhotoSizeSourceStickerSetThumbnailLegacy then writeLocalIDVolumeID p (writeStickerSet p b)
      else if P_Type p = PhotoSizeSourceStickerSetThumbnailVersion then
        Buffer_PutInt32 (StickerVersion p) (writeStickerSet p b)
      else b)"

section \<open>file\_id.go\<close>

record FileID =
  F_Type :: int
  DC :: int
  F_ID :: "64 word"
  AccessHash :: "64 word"
  FileReference :: bytes
  URL :: bytes
  F_PhotoSizeSource :: PhotoSizeSource

definition zero_file :: FileID where
  "zero_file = \<lparr>F_Type = 0, DC = 0, F_ID = 0, AccessHash = 0, FileReference = [], URL = [], F_PhotoSizeSource = zero_source\<rparr>"

definition webLocationFlag :: nat where "webLocationFlag = 24"
definition fileReferenceFlag :: nat where "fileReferenceFlag = 25"

definition has_source :: "int \<Rightarrow> bool" where
  "has_source ty \<longleftrightarrow> ty = Thumbnail \<or> ty = Photo \<or> ty = ProfilePhoto"

text \<open>What follows the type: \<open>ty\<close> is \<open>typeID\<close> without its flags.\<close>

definition decode_body :: "FileID \<Rightarrow> byte \<Rightarrow> bool \<Rightarrow> bool \<Rightarrow> int \<Rightarrow> FileID dec" where
  "decode_body f subVersion hasWebLocation hasReference ty =
     (if ty \<ge> lastType then dec_fail (Errorf ''unknown type %d'' [ty])
      else
        dec_bind (dec_wrap ''read dc_id'' Buffer_Uint32) (\<lambda>dcID.
        dec_bind (if hasReference then dec_wrap ''read file_reference'' Buffer_Bytes else dec_return (FileReference f)) (\<lambda>ref.
        let f = f\<lparr>F_Type := ty, DC := uint dcID, FileReference := ref\<rparr> in
        if hasWebLocation then
          dec_bind (dec_wrap ''read url'' Buffer_String) (\<lambda>url. dec_return (f\<lparr>URL := url\<rparr>))
        else
          dec_bind (dec_wrap ''read id'' Buffer_Long) (\<lambda>i.
          dec_bind (dec_wrap ''read access_hash'' Buffer_Long) (\<lambda>h.
          let f = f\<lparr>F_ID := i, AccessHash := h\<rparr> in
          if \<not> has_source ty then dec_return f
          else
            dec_bind (dec_wrap ''decode photo_size'' (PhotoSizeSource_decode (F_PhotoSizeSource f) subVersion)) (\<lambda>p.
            dec_return (f\<lparr>F_PhotoSizeSource := p\<rparr>)))))))"

definition decodeLatestFileID :: "FileID \<Rightarrow> FileID dec" where
  "decodeLatestFileID f = (\<lambda>b.
     if length b < 1 then (Inl ErrUnexpectedEOF, b)
     else
       dec_bind (dec_wrap ''read type_id'' Buffer_Uint32) (\<lambda>typeID.
         decode_body f (last b)
           (typeID AND push_bit webLocationFlag 1 \<noteq> 0) (typeID AND push_bit fileReferenceFlag 1 \<noteq> 0)
           (uint (typeID AND NOT (push_bit webLocationFlag 1) AND NOT (push_bit fileReferenceFlag 1)))) b)"

definition encodeLatestFileID :: "FileID \<Rightarrow> buffer \<Rightarrow> buffer" where
  "encodeLatestFileID f b =
     (let hasWebLocation = URL f \<noteq> []; hasReference = length (FileReference f) \<noteq> 0;
          typeID = F_Type f;
          typeID = (if hasWebLocation then typeID OR push_bit webLocationFlag 1 else typeID);
          typeID = (if hasReference then typeID OR push_bit fileReferenceFlag 1 else typeID);
          b = Buffer_PutUint32 (word_of_int typeID) b;
          b = Buffer_PutUint32 (word_of_int (DC f)) b;
          b = (if hasReference then Buffer_PutBytes (FileReference f) b else b) in
      if hasWebLocation then Buffer_PutString (URL f) b
      else
        (let b = Buffer_PutLong (AccessHash f) (Buffer_PutLong (F_ID f) b);
             b = (if has_source (F_Type f) then PhotoSizeSource_encode (F_PhotoSizeSource f) b else b) in
         b @ [latestSubVersion]))"

section \<open>encode.go, decode.go\<close>

definition persistentIDVersionOld :: byte where "persistentIDVersionOld = 2"
definition persistentIDVersionMap :: byte where "persistentIDVersionMap = 3"
definition persistentIDVersion :: byte where "persistentIDVersion = 4"

definition EncodeFileID :: "FileID \<Rightarrow> bytes" where
  "EncodeFileID f = base64Encode (rleEncode (encodeLatestFileID f [] @ [persistentIDVersion]))"

definition DecodeFileID :: "bytes \<Rightarrow> go_error + FileID" where
  "DecodeFileID s =
     (if s = [] then Inl (Errorf ''input is empty'' [])
      else
        (case base64Decode s of
           Inl e \<Rightarrow> Inl (Wrap ''base64'' e)
         | Inr raw \<Rightarrow>
             (let data = rleDecode raw in
              if length data < 2 then Inl (Errorf ''RLE-decoded data is too small'' [])
              else
                (let version = last data in
                 if version = persistentIDVersionOld \<or> version = persistentIDVersionMap then
                   Inl (Errorf ''%v is unsupported now'' [uint version])
                 else if version = persistentIDVersion then fst (decodeLatestFileID zero_file (butlast data))
                 else Inl (Errorf ''unknown file_id version %x'' [uint version])))))"

section \<open>Lemmas\<close>

subsection \<open>Runs of zeros\<close>

text \<open>No 256 zeros in a row; \<open>n\<close> zeros have just been seen.\<close>

primrec short_runs :: "nat \<Rightarrow> bytes \<Rightarrow> bool" where
  "short_runs n [] \<longleftrightarrow> n < 256"
| "short_runs n (x # xs) \<longleftrightarrow> n < 256 \<and> short_runs (if x = 0 then Suc n else 0) xs"

definition run_bytes :: "nat \<Rightarrow> bytes" where
  "run_bytes n = (if n = 0 then [] else [0, word_of_nat n])"

primrec rle_spec :: "nat \<Rightarrow> bytes \<Rightarrow> bytes" where
  "rle_spec n [] = run_bytes n"
| "rle_spec n (x # xs) = (if x = 0 then rle_spec (Suc n) xs else run_bytes n @ x # rle_spec 0 xs)"

lemma count_pos: "n < 256 \<Longrightarrow> (0 :: byte) < word_of_nat n \<longleftrightarrow> n \<noteq> 0"
  by (simp add: word_less_nat_alt unat_of_nat)

lemma rleEncode_loop_spec:
  "short_runs n s \<Longrightarrow> rleEncode_loop (word_of_nat n) r s = r @ rle_spec n s"
proof (induction s arbitrary: n r)
  case Nil
  then show ?case using count_pos[of n] by (auto simp: run_bytes_def)
next
  case (Cons x s)
  have "(word_of_nat n :: byte) + 1 = word_of_nat (Suc n)" by simp
  moreover have "rleEncode_loop (word_of_nat 0) r' s = r' @ rle_spec 0 s" if "x \<noteq> 0" for r'
    using Cons.IH[of 0 r'] Cons.prems that by simp
  ultimately show ?case
    using Cons.prems Cons.IH[of "Suc n"] count_pos[of n] by (auto simp: run_bytes_def add.commute)
qed

lemma rleDecode_step: "x \<noteq> 0 \<Longrightarrow> lst \<noteq> [0] \<Longrightarrow> rleDecode_loop lst r (x # s) = rleDecode_loop [x] (r @ lst) s"
  by simp

lemma rleDecode_run:
  assumes "n < 256" "lst \<noteq> [0]"
  shows "\<exists>lst'. lst' \<noteq> [0] \<and> (\<forall>s. rleDecode_loop lst r (run_bytes n @ s) = rleDecode_loop lst' (r @ take (length lst - length lst') lst @ replicate n 0) s)
     \<and> (n = 0 \<longrightarrow> lst' = lst) \<and> (n \<noteq> 0 \<longrightarrow> lst' = [])"
proof (cases "n = 0")
  case True
  then show ?thesis using assms by (simp add: run_bytes_def)
next
  case False
  have "concat (replicate k [0 :: byte]) = replicate k 0" for k by (induction k) auto
  then show ?thesis using False assms by (simp add: run_bytes_def unat_of_nat)
qed

lemma rleDecode_rle_spec:
  "short_runs n s \<Longrightarrow> lst \<noteq> [0] \<Longrightarrow> rleDecode_loop lst r (rle_spec n s) = r @ lst @ replicate n 0 @ s"
proof (induction s arbitrary: n lst r)
  case Nil
  then obtain lst' where "\<And>s. rleDecode_loop lst r (run_bytes n @ s) = rleDecode_loop lst' (r @ take (length lst - length lst') lst @ replicate n 0) s"
    "n = 0 \<longrightarrow> lst' = lst" "n \<noteq> 0 \<longrightarrow> lst' = []" using rleDecode_run[of n lst r] by auto
  from this(1)[of "[]"] this(2,3) show ?case by (cases "n = 0") auto
next
  case (Cons x s)
  show ?case
  proof (cases "x = 0")
    case True
    then show ?thesis using Cons.IH[of "Suc n" lst r] Cons.prems by (simp add: replicate_append_same)
  next
    case False
    obtain lst' where l: "lst' \<noteq> [0]" "\<And>s. rleDecode_loop lst r (run_bytes n @ s) = rleDecode_loop lst' (r @ take (length lst - length lst') lst @ replicate n 0) s"
      "n = 0 \<longrightarrow> lst' = lst" "n \<noteq> 0 \<longrightarrow> lst' = []" using rleDecode_run[of n lst r] Cons.prems by auto
    have "rleDecode_loop [x] r' (rle_spec 0 s) = r' @ [x] @ s" for r'
      using Cons.IH[of 0 "[x]" r'] Cons.prems False by simp
    then show ?thesis using False l by (cases "n = 0") simp_all
  qed
qed

lemma rle_roundtrip: "short_runs 0 s \<Longrightarrow> rleDecode (rleEncode s) = s"
  using rleEncode_loop_spec[of 0 s "[]"] rleDecode_rle_spec[of 0 s "[]" "[]"]
  by (simp add: rleEncode_def rleDecode_def)

subsection \<open>Base64\<close>

lemma b64_value_char: "v < 64 \<Longrightarrow> b64_value (b64_char v) = Some v \<and> b64_char v \<noteq> 10 \<and> b64_char v \<noteq> 13"
proof -
  have "list_all (\<lambda>v. b64_value (b64_char v) = Some v \<and> b64_char v \<noteq> 10 \<and> b64_char v \<noteq> 13) [0..<64]" by code_simp
  then show "v < 64 \<Longrightarrow> b64_value (b64_char v) = Some v \<and> b64_char v \<noteq> 10 \<and> b64_char v \<noteq> 13"
    by (simp add: list_all_iff)
qed

fun b64_values :: "bytes \<Rightarrow> nat list" where
  "b64_values [] = []"
| "b64_values [a] = (let n = unat a * 16 in [n div 64, n mod 64])"
| "b64_values [a, b] = (let n = (unat a * 256 + unat b) * 4 in [n div 4096, n div 64 mod 64, n mod 64])"
| "b64_values (a # b # c # s) = (let n = unat a * 65536 + unat b * 256 + unat c in
     n div 262144 # n div 4096 mod 64 # n div 64 mod 64 # n mod 64 # b64_values s)"

lemma base64Encode_values: "base64Encode s = map b64_char (b64_values s)"
  by (induction s rule: b64_values.induct) (simp_all add: Let_def)

lemma byte_lt: "unat (a :: byte) < 256"
  using unsigned_less[of a] by simp

lemma b64_values_lt: "\<forall>v\<in>set (b64_values s). v < 64"
proof (induction s rule: b64_values.induct)
  case (2 a)
  then show ?case using byte_lt[of a] by (simp add: Let_def)
next
  case (3 a b)
  then show ?case using byte_lt[of a] byte_lt[of b] by (simp add: Let_def)
next
  case (4 a b c s)
  then show ?case using byte_lt[of a] byte_lt[of b] byte_lt[of c] by (simp add: Let_def)
qed simp

lemma digits3: "n div 4096 * 4096 + n div 64 mod 64 * 64 + n mod 64 = (n :: nat)"
proof -
  have q: "n div 4096 * 64 + n div 64 mod 64 = n div 64"
    using div_mult_mod_eq[of "n div 64" 64] by (simp add: div_mult2_eq[symmetric])
  have "n div 4096 * 4096 + n div 64 mod 64 * 64 + n mod 64 = (n div 4096 * 64 + n div 64 mod 64) * 64 + n mod 64" by simp
  also have "\<dots> = n" unfolding q by (rule div_mult_mod_eq)
  finally show ?thesis .
qed

lemma digits4: "n div 262144 * 262144 + n div 4096 mod 64 * 4096 + n div 64 mod 64 * 64 + n mod 64 = (n :: nat)"
proof -
  have q: "n div 262144 * 64 + n div 4096 mod 64 = n div 4096"
    using div_mult_mod_eq[of "n div 4096" 64] by (simp add: div_mult2_eq[symmetric])
  have "n div 262144 * 262144 + n div 4096 mod 64 * 4096 + n div 64 mod 64 * 64 + n mod 64 =
    (n div 262144 * 64 + n div 4096 mod 64) * 4096 + n div 64 mod 64 * 64 + n mod 64" by simp
  also have "\<dots> = n" unfolding q by (rule digits3)
  finally show ?thesis .
qed

lemma bytes3:
  assumes "a < 256" "b < 256" "c < (256 :: nat)"
  shows "(a * 65536 + b * 256 + c) div 65536 = a" "(a * 65536 + b * 256 + c) div 256 mod 256 = b"
    "(a * 65536 + b * 256 + c) mod 256 = c"
proof -
  have "(a * 65536 + b * 256 + c) div 256 = a * 256 + b" using assms by simp
  then show "(a * 65536 + b * 256 + c) div 256 mod 256 = b" using assms by simp
  show "(a * 65536 + b * 256 + c) div 65536 = a" using assms by simp
  have "a * 65536 + b * 256 + c = c + 256 * (a * 256 + b)" by simp
  then show "(a * 65536 + b * 256 + c) mod 256 = c" using assms by (simp only: mod_mult_self2 mod_less)
qed

lemma b64_quanta_values: "b64_quanta (b64_values s) = Inr s"
proof (induction s rule: b64_values.induct)
  case (2 a)
  define n where "n = unat a * 16"
  have "b64_quanta [n div 64, n mod 64] = Inr [word_of_nat (n div 16)]" by simp
  then show ?case by (simp add: n_def)
next
  case (3 a b)
  then show ?case using digits3[of "(unat a * 256 + unat b) * 4"] byte_lt[of b] by (simp add: Let_def)
next
  case (4 a b c s)
  then show ?case
    using digits4[of "unat a * 65536 + unat b * 256 + unat c"] bytes3[OF byte_lt byte_lt byte_lt, of a b c]
    by (simp add: Let_def)
qed simp

lemma base64_roundtrip: "base64Decode (base64Encode s) = Inr s"
proof -
  have c: "filter (\<lambda>c. c \<noteq> 10 \<and> c \<noteq> 13) (map b64_char vs) = map b64_char vs"
    "map b64_value (map b64_char vs) = map Some vs" if "\<forall>v\<in>set vs. v < 64" for vs
    using that b64_value_char by (auto simp: filter_id_conv)
  have "map the (map Some vs) = vs" for vs :: "nat list" by (simp add: comp_def)
  then show ?thesis unfolding base64Decode_def base64Encode_values Let_def c[OF b64_values_lt]
    by (simp only: b64_quanta_values) auto
qed

subsection \<open>Photo size sources\<close>

text \<open>The fields that the type of a source uses; the others are not stored.\<close>

definition source_stored :: "PhotoSizeSource \<Rightarrow> PhotoSizeSource" where
  "source_stored p =
     (let z = zero_source\<lparr>P_Type := P_Type p\<rparr>;
          dialog = z\<lparr>DialogID := DialogID p, DialogAccessHash := DialogAccessHash p\<rparr>;
          sticker = z\<lparr>StickerSetID := StickerSetID p, StickerSetAccessHash := StickerSetAccessHash p\<rparr> in
      if P_Type p = 0 then z\<lparr>Secret := Secret p\<rparr>
      else if P_Type p = 1 then z\<lparr>FileType := FileType p, ThumbnailType := ThumbnailType p\<rparr>
      else if P_Type p = 2 \<or> P_Type p = 3 then dialog
      else if P_Type p = 4 then sticker
      else if P_Type p = 5 then z\<lparr>VolumeID := VolumeID p, Secret := Secret p, LocalID := LocalID p\<rparr>
      else if P_Type p = 6 \<or> P_Type p = 7 then dialog\<lparr>VolumeID := VolumeID p, LocalID := LocalID p\<rparr>
      else if P_Type p = 8 then sticker\<lparr>VolumeID := VolumeID p, LocalID := LocalID p\<rparr>
      else sticker\<lparr>StickerVersion := StickerVersion p\<rparr>)"

definition source_range :: "PhotoSizeSource \<Rightarrow> bool" where
  "source_range p \<longleftrightarrow> 0 \<le> P_Type p \<and> P_Type p < lastPhotoSizeSourceType \<and> is_int32 (LocalID p)
     \<and> 0 \<le> FileType p \<and> FileType p < 2 ^ 32"

lemma uint_word_of_int32: "0 \<le> v \<Longrightarrow> v < 2 ^ 32 \<Longrightarrow> uint (word_of_int v :: 32 word) = v"
  by (simp add: unsigned_of_int take_bit_int_eq_self)

lemmas write_defs = writeLocalIDVolumeID_def writeDialog_def writeStickerSet_def
lemmas read_defs = readLocalIDVolumeID_def readDialog_def readStickerSet_def

lemma decode_by_type_encode:
  assumes "source_range p"
  shows "\<exists>out. (\<forall>b. PhotoSizeSource_encode p b = b @ le_bytes Word (word_of_int (P_Type p) :: 32 word) @ out)
    \<and> (\<forall>rest. decode_by_type (P_Type p) (zero_source\<lparr>P_Type := P_Type p\<rparr>) (out @ rest) = (Inr (source_stored p), rest))"
proof -
  have r: "is_int32 (LocalID p)" "0 \<le> FileType p" "FileType p < 2 ^ 32" using assms by (auto simp: source_range_def)
  note gets = get_apps uint_word_of_int32[OF r(2,3)] Int_app[OF r(1)] dec_simps
  have "0 \<le> P_Type p" "P_Type p < 10" using assms by (auto simp: source_range_def lastPhotoSizeSourceType_def)
  then have "P_Type p \<in> {0, 1, 2, 3, 4, 5, 6, 7, 8, 9}" by (simp only: insert_iff empty_iff) presburger
  then show ?thesis
    unfolding PhotoSizeSource_encode_def decode_by_type_def source_stored_def source_types write_defs read_defs put_defs Let_def
    by (elim insertE emptyE) (simp_all add: gets zero_source_def; intro exI conjI allI; simp add: gets)+
qed

lemma PhotoSizeSource_roundtrip:
  assumes "source_range p"
  shows "\<exists>out. (\<forall>b. PhotoSizeSource_encode p b = b @ out)
    \<and> (\<forall>rest. PhotoSizeSource_decode zero_source latestSubVersion (out @ rest) = (Inr (source_stored p), rest))"
proof -
  obtain out where out: "\<And>b. PhotoSizeSource_encode p b = b @ le_bytes Word (word_of_int (P_Type p) :: 32 word) @ out"
    "\<And>rest. decode_by_type (P_Type p) (zero_source\<lparr>P_Type := P_Type p\<rparr>) (out @ rest) = (Inr (source_stored p), rest)"
    using decode_by_type_encode[OF assms] by blast
  have ty: "is_int32 (P_Type p)" "\<not> P_Type p < 0" "\<not> lastPhotoSizeSourceType \<le> P_Type p"
    using assms by (auto simp: source_range_def lastPhotoSizeSourceType_def is_int32_def)
  then show ?thesis
    by (intro exI[of _ "le_bytes Word (word_of_int (P_Type p) :: 32 word) @ out"])
      (simp add: out PhotoSizeSource_decode_def latestSubVersion_def Int_app dec_simps)
qed

subsection \<open>File identifiers\<close>

definition type_word :: "bool \<Rightarrow> bool \<Rightarrow> int \<Rightarrow> 32 word" where
  "type_word web ref ty =
     word_of_int (let t = (if web then ty OR push_bit webLocationFlag 1 else ty) in
                  if ref then t OR push_bit fileReferenceFlag 1 else t)"

lemma type_word_fields:
  assumes "0 \<le> ty" "ty < lastType"
  shows "(type_word web ref ty AND push_bit webLocationFlag 1 \<noteq> 0) = web"
    "(type_word web ref ty AND push_bit fileReferenceFlag 1 \<noteq> 0) = ref"
    "uint (type_word web ref ty AND NOT (push_bit webLocationFlag 1) AND NOT (push_bit fileReferenceFlag 1)) = ty"
proof -
  have "list_all (\<lambda>t. list_all (\<lambda>w. list_all (\<lambda>r.
      (type_word w r t AND push_bit webLocationFlag 1 \<noteq> 0) = w \<and> (type_word w r t AND push_bit fileReferenceFlag 1 \<noteq> 0) = r
      \<and> uint (type_word w r t AND NOT (push_bit webLocationFlag 1) AND NOT (push_bit fileReferenceFlag 1)) = t)
      [True, False]) [True, False]) [0..17]" by code_simp
  moreover have "ty \<in> set [0..17]" using assms by (simp add: lastType_def)
  ultimately show "(type_word web ref ty AND push_bit webLocationFlag 1 \<noteq> 0) = web"
    "(type_word web ref ty AND push_bit fileReferenceFlag 1 \<noteq> 0) = ref"
    "uint (type_word web ref ty AND NOT (push_bit webLocationFlag 1) AND NOT (push_bit fileReferenceFlag 1)) = ty"
    unfolding list_all_iff by (cases web; cases ref; fastforce)+
qed

text \<open>Identifiers that fit the format: every field that is not stored has its zero value.\<close>

definition valid_file :: "FileID \<Rightarrow> bool" where
  "valid_file f \<longleftrightarrow> 0 \<le> F_Type f \<and> F_Type f < lastType \<and> 0 \<le> DC f \<and> DC f < 2 ^ 32
     \<and> length (FileReference f) \<le> maxLongStringLength \<and> length (URL f) \<le> maxLongStringLength
     \<and> (URL f \<noteq> [] \<longrightarrow> F_ID f = 0 \<and> AccessHash f = 0 \<and> F_PhotoSizeSource f = zero_source)
     \<and> (URL f = [] \<longrightarrow> (if has_source (F_Type f)
          then source_range (F_PhotoSizeSource f) \<and> source_stored (F_PhotoSizeSource f) = F_PhotoSizeSource f
          else F_PhotoSizeSource f = zero_source))"

lemma put_bytes_app:
  "Buffer_PutBytes v (x @ y) = x @ y @ Buffer_PutBytes v []" "Buffer_PutString v (x @ y) = x @ y @ Buffer_PutString v []"
  using f_bytes.put_append[of v "x @ y"] f_string.put_append[of v "x @ y"] by simp_all

lemma source_encode_app: "PhotoSizeSource_encode p (x @ y) = x @ y @ PhotoSizeSource_encode p []"
  by (simp add: PhotoSizeSource_encode_def write_defs put_defs Let_def)

definition ref_bytes :: "FileID \<Rightarrow> bytes" where
  "ref_bytes f = (if length (FileReference f) \<noteq> 0 then Buffer_PutBytes (FileReference f) [] else [])"

lemma encodeLatestFileID_form:
  "encodeLatestFileID f [] =
     le_bytes Word (type_word (URL f \<noteq> []) (length (FileReference f) \<noteq> 0) (F_Type f)) @ le_bytes Word (word_of_int (DC f) :: 32 word)
     @ ref_bytes f
     @ (if URL f \<noteq> [] then Buffer_PutString (URL f) []
        else le_bytes (Word * 2) (F_ID f) @ le_bytes (Word * 2) (AccessHash f)
          @ (if has_source (F_Type f) then PhotoSizeSource_encode (F_PhotoSizeSource f) [] else []) @ [latestSubVersion])"
  by (auto simp: encodeLatestFileID_def Let_def type_word_def ref_bytes_def put_bytes_app source_encode_app
      Buffer_PutUint32_def Buffer_PutLong_def Buffer_PutUint64_def)

lemma decodeLatestFileID_encode:
  assumes "valid_file f"
  shows "fst (decodeLatestFileID zero_file (encodeLatestFileID f [])) = Inr f"
proof -
  have v: "0 \<le> F_Type f" "F_Type f < lastType" "uint (word_of_int (DC f) :: 32 word) = DC f"
    "length (FileReference f) \<le> maxLongStringLength" "length (URL f) \<le> maxLongStringLength"
    using assms uint_word_of_int32[of "DC f"] by (auto simp: valid_file_def)
  note ty = type_word_fields[OF v(1,2)]
  have lt: "\<not> lastType \<le> F_Type f" using v(2) by simp
  have ref: "(if length (FileReference f) \<noteq> 0 then dec_wrap ''read file_reference'' Buffer_Bytes else dec_return (FileReference zero_file))
      (ref_bytes f @ rest) = (Inr (FileReference f), rest)" for rest
    using f_bytes.get_put[OF v(4)] by (simp add: ref_bytes_def zero_file_def dec_simps)
  note gets = Uint32_app Long_app dec_simps
  let ?tail = "if URL f \<noteq> [] then Buffer_PutString (URL f) []
        else le_bytes (Word * 2) (F_ID f) @ le_bytes (Word * 2) (AccessHash f)
          @ (if has_source (F_Type f) then PhotoSizeSource_encode (F_PhotoSizeSource f) [] else []) @ [latestSubVersion]"
  have step: "decodeLatestFileID zero_file (encodeLatestFileID f []) =
      decode_body zero_file (last (encodeLatestFileID f [])) (URL f \<noteq> []) (length (FileReference f) \<noteq> 0) (F_Type f)
        (le_bytes Word (word_of_int (DC f) :: 32 word) @ ref_bytes f @ ?tail)"
    unfolding decodeLatestFileID_def encodeLatestFileID_form dec_bind_def dec_wrap_def Uint32_app
    by (simp add: ty Word_def numeral_eq_Suc del: push_bit_of_1 le_bytes.simps length_0_conv)
  have body: "decode_body zero_file sub web (length (FileReference f) \<noteq> 0) (F_Type f)
      (le_bytes Word (word_of_int (DC f) :: 32 word) @ ref_bytes f @ rest) =
    (let g = zero_file\<lparr>F_Type := F_Type f, DC := DC f, FileReference := FileReference f\<rparr> in
      if web then dec_bind (dec_wrap ''read url'' Buffer_String) (\<lambda>url. dec_return (g\<lparr>URL := url\<rparr>)) rest
      else dec_bind (dec_wrap ''read id'' Buffer_Long) (\<lambda>i.
        dec_bind (dec_wrap ''read access_hash'' Buffer_Long) (\<lambda>h.
          let g = g\<lparr>F_ID := i, AccessHash := h\<rparr> in
          if \<not> has_source (F_Type f) then dec_return g
          else dec_bind (dec_wrap ''decode photo_size'' (PhotoSizeSource_decode (F_PhotoSizeSource g) sub)) (\<lambda>p.
            dec_return (g\<lparr>F_PhotoSizeSource := p\<rparr>)))) rest)" for sub web rest
    using ref lt by (simp add: decode_body_def gets v(3) Let_def del: length_0_conv)
  show ?thesis
  proof (cases "URL f = []")
    case web: False
    then have z: "F_ID f = 0" "AccessHash f = 0" "F_PhotoSizeSource f = zero_source" using assms by (auto simp: valid_file_def)
    then show ?thesis
      unfolding step body using web f_string.get_put[OF v(5), of "[]"]
      by (cases f) (simp add: gets Let_def zero_file_def)
  next
    case plain: True
    have last: "last (encodeLatestFileID f []) = latestSubVersion" using plain by (simp add: encodeLatestFileID_form)
    show ?thesis
    proof (cases "has_source (F_Type f)")
      case True
      then have r: "source_range (F_PhotoSizeSource f)" "source_stored (F_PhotoSizeSource f) = F_PhotoSizeSource f"
        using assms plain by (auto simp: valid_file_def)
      obtain out where out: "\<And>b. PhotoSizeSource_encode (F_PhotoSizeSource f) b = b @ out"
        "\<And>rest. PhotoSizeSource_decode zero_source latestSubVersion (out @ rest) = (Inr (F_PhotoSizeSource f), rest)"
        using PhotoSizeSource_roundtrip[OF r(1)] r(2) by auto
      show ?thesis
        unfolding step body last using plain True out by (cases f) (simp add: gets Let_def zero_file_def)
    next
      case False
      then have z: "F_PhotoSizeSource f = zero_source" using assms plain by (auto simp: valid_file_def)
      then show ?thesis
        unfolding step body using plain False by (cases f) (simp add: gets Let_def zero_file_def)
    qed
  qed
qed

lemma base64Encode_Nil: "base64Encode s = [] \<longleftrightarrow> s = []"
  by (cases s rule: base64Encode.cases) (simp_all add: Let_def)

lemma rleEncode_loop_zeros: "rleEncode_loop c r (replicate n 0 @ s) = rleEncode_loop (c + word_of_nat n) r s"
  by (induction n arbitrary: c) (simp_all add: add_ac)

lemma encodeLatestFileID_length: "2 \<le> length (encodeLatestFileID f [])"
  by (simp add: encodeLatestFileID_form Word_def)

section \<open>Properties\<close>

text \<open>
  File identifiers round-trip: an identifier whose unused fields are zero and whose
  binary form has no 256 zero bytes in a row is read back by \<open>DecodeFileID\<close> exactly as it
  was given to \<open>EncodeFileID\<close>, for every type, with or without a file reference, for web
  locations and for every kind of photo size source.
\<close>

theorem FileID_roundtrip:
  assumes "valid_file f" and "short_runs 0 (encodeLatestFileID f [] @ [persistentIDVersion])"
  shows "DecodeFileID (EncodeFileID f) = Inr f"
proof -
  let ?data = "encodeLatestFileID f [] @ [persistentIDVersion]"
  have dec: "rleDecode (rleEncode ?data) = ?data" using assms(2) by (rule rle_roundtrip)
  then have "rleEncode ?data \<noteq> []" by (auto simp: rleDecode_def)
  moreover have "\<not> length ?data < 2" using encodeLatestFileID_length[of f] by (simp only: length_append)
  moreover have "persistentIDVersion \<noteq> persistentIDVersionOld" "persistentIDVersion \<noteq> persistentIDVersionMap"
    by (simp_all add: persistentIDVersion_def persistentIDVersionOld_def persistentIDVersionMap_def)
  ultimately show ?thesis
    using decodeLatestFileID_encode[OF assms(1)]
    by (simp add: DecodeFileID_def EncodeFileID_def base64_roundtrip base64Encode_Nil dec Let_def)
qed

theorem FileID_roundtrip_witness:
  "DecodeFileID (EncodeFileID (zero_file\<lparr>F_Type := 5, DC := 2, F_ID := 77, AccessHash := 5, FileReference := [1, 0, 2]\<rparr>))
     = Inr (zero_file\<lparr>F_Type := 5, DC := 2, F_ID := 77, AccessHash := 5, FileReference := [1, 0, 2]\<rparr>)"
proof (rule FileID_roundtrip)
  show "valid_file (zero_file\<lparr>F_Type := 5, DC := 2, F_ID := 77, AccessHash := 5, FileReference := [1, 0, 2]\<rparr>)"
    by (simp add: valid_file_def zero_file_def has_source_def Thumbnail_def Photo_def ProfilePhoto_def lastType_def
        maxLongStringLength_def)
  show "short_runs 0 (encodeLatestFileID (zero_file\<lparr>F_Type := 5, DC := 2, F_ID := 77, AccessHash := 5, FileReference := [1, 0, 2]\<rparr>) []
      @ [persistentIDVersion])" by code_simp
qed

text \<open>
  The run-length coding is lossless exactly below runs of 256 zero bytes: the counter is
  a byte, so a longer run is read back as its length modulo 256, and 256 zeros disappear.
\<close>

theorem rle_lossless_below_256:
  "(short_runs 0 s \<longrightarrow> rleDecode (rleEncode s) = s)
   \<and> (x \<noteq> 0 \<longrightarrow> rleDecode (rleEncode (replicate n 0 @ [x])) = replicate (n mod 256) 0 @ [x])"
proof (intro conjI impI)
  assume "x \<noteq> 0"
  have w: "(word_of_nat n :: byte) = word_of_nat (n mod 256)" by (simp add: word_of_nat_eq_iff take_bit_eq_mod)
  have eq: "rleEncode (replicate m 0 @ [x]) = rleEncode_loop (word_of_nat m) [] [x]" for m
    using rleEncode_loop_zeros[of 0 "[]" m "[x]"] by (simp add: rleEncode_def)
  have "short_runs k (replicate m 0 @ [x])" if "k + m < 256" for k m
    using that \<open>x \<noteq> 0\<close> by (induction m arbitrary: k) auto
  then have "rleDecode (rleEncode (replicate (n mod 256) 0 @ [x])) = replicate (n mod 256) 0 @ [x]"
    by (intro rle_roundtrip) simp
  then show "rleDecode (rleEncode (replicate n 0 @ [x])) = replicate (n mod 256) 0 @ [x]"
    by (simp only: eq w)
qed (rule rle_roundtrip)

theorem rle_lossless_below_256_witness:
  "rleDecode (rleEncode [5, 0, 0, 7]) = [5, 0, 0, 7] \<and> rleDecode (rleEncode (replicate 256 0 @ [1])) = [1]"
  using rle_lossless_below_256[of "[5, 0, 0, 7]" 1 256] by simp

end
