(* ===== verification/Conn.thy ===== *)
theory Conn
  imports Mt_Types Proto_Messages Message_ID
begin

text \<open>
  Package \<open>mtproto\<close>: what a connection does with the messages it receives and how it numbers
  the ones it sends (\<open>read.go\<close>, the files \<open>handle_*.go\<close>, \<open>salt.go\<close>, \<open>session.go\<close>, \<open>ping.go\<close>,
  \<open>ack.go\<close>, \<open>rpc.go\<close>, \<open>write.go\<close>). The record \<open>Conn\<close> holds the fields that these functions
  change; their calls into the RPC engine, to the user's handler and on channels are
  recorded in order in \<open>trace\<close>. What the connection is given from outside is the record
  \<open>env\<close>: the clock, the compression library, the order \<open>sort.Sort\<close> leaves, the errors the
  handler and the engine return. A message can contain messages (a container, a packed
  object), so \<open>handleMessage\<close> calls itself: its first argument bounds the depth, and the
  result is \<open>None\<close> when the recursion goes deeper.
\<close>

section \<open>State and environment\<close>

datatype effect =
    E_NotifyAcks "64 word list"
  | E_NotifyError "64 word" go_error
  | E_NotifyResult "64 word" bytes
  | E_OnMessage bytes
  | E_OnSession "64 word" "64 word"
  | E_Pong "64 word"
  | E_AckSend "64 word"

record Conn =
  c_salt :: "64 word"
  c_sessionID :: "64 word"
  c_salts :: Salts
  sentContentMessages :: "32 word"
  c_ping :: "64 word set"
  gotSession :: bool
  messageIDBuf :: MessageIDBuf
  c_messageID :: MessageIDGen
  trace :: "effect list"

text \<open>
  \<open>clock\<close> is \<open>c.clock.Now()\<close> in nanoseconds of Unix time. \<open>onMessage\<close>, \<open>onSession\<close> and
  \<open>notifyResult\<close> are the errors of \<open>handler.OnMessage\<close>, \<open>handler.OnSession\<close> and
  \<open>rpc.NotifyResult\<close>.
\<close>

record env =
  clock :: int
  gz :: gzip_lib
  salt_order :: "FutureSalt list \<Rightarrow> FutureSalt list"
  onMessage :: "bytes \<Rightarrow> go_error option"
  onSession :: "64 word \<Rightarrow> 64 word \<Rightarrow> go_error option"
  notifyResult :: "64 word \<Rightarrow> bytes \<Rightarrow> go_error option"

definition emit :: "effect \<Rightarrow> Conn \<Rightarrow> Conn" where
  "emit x c = c\<lparr>trace := trace c @ [x]\<rparr>"

section \<open>salt.go, session.go\<close>

definition storeSalt :: "64 word \<Rightarrow> Conn \<Rightarrow> Conn" where
  "storeSalt s c = c\<lparr>c_salt := s\<rparr>"

text \<open>\<open>c.clock.Now().Add(time.Minute * 5)\<close> in whole Unix seconds.\<close>

definition salt_deadline :: "env \<Rightarrow> int" where
  "salt_deadline ev = (clock ev + 300 * 1000000000) div 1000000000"

definition updateSalt :: "env \<Rightarrow> Conn \<Rightarrow> Conn" where
  "updateSalt ev c =
     (case Salts_Get (salt_deadline ev) (c_salts c) of
        (None, ss) \<Rightarrow> c\<lparr>c_salts := ss\<rparr>
      | (Some s, ss) \<Rightarrow> storeSalt s (c\<lparr>c_salts := ss\<rparr>))"

text \<open>\<open>session()\<close>: the identifier and the salt, and the connection afterwards.\<close>

definition session :: "env \<Rightarrow> Conn \<Rightarrow> (64 word \<times> 64 word) \<times> Conn" where
  "session ev c = (let c' = updateSalt ev c in ((c_sessionID c', c_salt c'), c'))"

section \<open>Handlers of service messages\<close>

text \<open>A handler: the error it returns and the connection.\<close>

type_synonym handled = "go_error option \<times> Conn"

definition handleSessionCreated :: "env \<Rightarrow> bytes \<Rightarrow> Conn \<Rightarrow> handled" where
  "handleSessionCreated ev b c =
     (case NewSessionCreated_Decode b of
        (Inl e, _) \<Rightarrow> (Some (Wrap ''decode'' e), c)
      | (Inr s, _) \<Rightarrow>
         (let c = storeSalt (ServerSalt s) (c\<lparr>gotSession := True\<rparr>);
              ((sid, salt), c) = session ev c;
              c = emit (E_OnSession sid salt) c in
          (map_option (Wrap ''handler.OnSession'') (onSession ev sid salt), c)))"

definition codeIncorrectServerSalt :: int where "codeIncorrectServerSalt = 48"

definition handleBadMsg :: "bytes \<Rightarrow> Conn \<Rightarrow> handled" where
  "handleBadMsg b c =
     (case Buffer_PeekID b of
        (Inl e, _) \<Rightarrow> (Some e, c)
      | (Inr i, _) \<Rightarrow>
         if i = BadMsgNotificationTypeID then
           (case BadMsgNotification_Decode b of
              (Inl e, _) \<Rightarrow> (Some e, c)
            | (Inr bad, _) \<Rightarrow> (None, emit (E_NotifyError (BadMsgID bad) (BadMessageError (ErrorCode bad) 0)) c))
         else if i = BadServerSaltTypeID then
           (case BadServerSalt_Decode b of
              (Inl e, _) \<Rightarrow> (Some e, c)
            | (Inr bad, _) \<Rightarrow> (None, emit (E_NotifyError (BadMsgID bad) (BadMessageError (ErrorCode bad) (NewServerSalt bad))) c))
         else (Some (Errorf ''unknown type id 0x%d'' [uint i]), c))"

definition handleFutureSalts :: "env \<Rightarrow> bytes \<Rightarrow> Conn \<Rightarrow> handled" where
  "handleFutureSalts ev b c =
     (case FutureSalts_Decode b of
        (Inl e, _) \<Rightarrow> (Some (Wrap ''error decode'' e), c)
      | (Inr res, _) \<Rightarrow> (None, c\<lparr>c_salts := Salts_Store (salt_order ev) (FS_Salts res) (c_salts c)\<rparr>))"

definition handleAck :: "bytes \<Rightarrow> Conn \<Rightarrow> handled" where
  "handleAck b c =
     (case MsgsAck_Decode b of
        (Inl e, _) \<Rightarrow> (Some (Wrap ''decode'' e), c)
      | (Inr ids, _) \<Rightarrow> (None, emit (E_NotifyAcks ids) c))"

text \<open>The error of \<open>handlePong\<close> formats the decoding error with \<open>%x\<close>.\<close>

definition handlePong :: "bytes \<Rightarrow> Conn \<Rightarrow> handled" where
  "handlePong b c =
     (case Pong_Decode b of
        (Inl e, _) \<Rightarrow> (Some (Errorf ''decode: %x'' []), c)
      | (Inr p, _) \<Rightarrow>
         if PingID p \<in> c_ping c then (None, emit (E_Pong (PingID p)) (c\<lparr>c_ping := c_ping c - {PingID p}\<rparr>))
         else (None, c))"

text \<open>The function \<open>gzip\<close> of \<open>handle_gzip.go\<close>.\<close>

definition gunzip :: "env \<Rightarrow> bytes \<Rightarrow> go_error + bytes" where
  "gunzip ev b =
     (case GZIP_Decode (gz ev) [] b of (Some e, _, _) \<Rightarrow> Inl (Wrap ''decode'' e) | (None, d, _) \<Rightarrow> Inr d)"

text \<open>The part of \<open>handleResult\<close> after the result was unpacked.\<close>

definition dispatchResult :: "env \<Rightarrow> 64 word \<Rightarrow> 32 word \<Rightarrow> bytes \<Rightarrow> Conn \<Rightarrow> handled" where
  "dispatchResult ev req i b c =
     (if i = RPCErrorTypeID then
        (case RPCError_Decode b of
           (Inl e, _) \<Rightarrow> (Some (Wrap ''error decode'' e), c)
         | (Inr r, _) \<Rightarrow> (None, emit (E_NotifyError req (TgErr (RE_ErrorCode r) (RE_ErrorMessage r))) c))
      else if i = PongTypeID then handlePong b c
      else (notifyResult ev req b, emit (E_NotifyResult req b) c))"

definition handleResult :: "env \<Rightarrow> bytes \<Rightarrow> Conn \<Rightarrow> handled" where
  "handleResult ev b c =
     (case Result_Decode b of
        (Inl e, _) \<Rightarrow> (Some (Wrap ''decode'' e), c)
      | (Inr res, _) \<Rightarrow>
         (let b = Result_Result res in
          case Buffer_PeekID b of
            (Inl e, _) \<Rightarrow> (Some e, c)
          | (Inr i, _) \<Rightarrow>
             if i = GZIPTypeID then
               (case gunzip ev b of
                  Inl e \<Rightarrow> (Some (Wrap ''decompress'' e), c)
                | Inr content \<Rightarrow>
                    (case Buffer_PeekID content of
                       (Inl e, _) \<Rightarrow> (Some (Wrap ''peek id'' e), c)
                     | (Inr j, _) \<Rightarrow> dispatchResult ev (RequestMessageID res) j content c))
             else dispatchResult ev (RequestMessageID res) i b c))"

section \<open>handleMessage\<close>

text \<open>The loop of \<open>handleContainer\<close> over the messages, with the handler of one message.\<close>

primrec processMessages :: "(bytes \<Rightarrow> Conn \<Rightarrow> handled option) \<Rightarrow> Message list \<Rightarrow> Conn \<Rightarrow> handled option" where
  "processMessages h [] c = Some (None, c)"
| "processMessages h (m # ms) c =
     (case h (Body m) c of
        None \<Rightarrow> None
      | Some (Some e, c') \<Rightarrow> Some (Some e, c')
      | Some (None, c') \<Rightarrow> processMessages h ms c')"

definition handleContainer :: "(bytes \<Rightarrow> Conn \<Rightarrow> handled option) \<Rightarrow> bytes \<Rightarrow> Conn \<Rightarrow> handled option" where
  "handleContainer h b c =
     (case MessageContainer_Decode [] b of
        (Some e, _, _) \<Rightarrow> Some (Some (Wrap ''container'' e), c)
      | (None, ms, _) \<Rightarrow> processMessages h ms c)"

definition handleGZIP :: "env \<Rightarrow> (bytes \<Rightarrow> Conn \<Rightarrow> handled option) \<Rightarrow> bytes \<Rightarrow> Conn \<Rightarrow> handled option" where
  "handleGZIP ev h b c =
     (case gunzip ev b of Inl e \<Rightarrow> Some (Some (Wrap ''unzip'' e), c) | Inr content \<Rightarrow> h content c)"

text \<open>
  The identifier of the enclosing message is passed down for logging only and is left out.
\<close>

primrec handleMessage :: "nat \<Rightarrow> env \<Rightarrow> bytes \<Rightarrow> Conn \<Rightarrow> handled option" where
  "handleMessage 0 ev b c = None"
| "handleMessage (Suc n) ev b c =
     (case Buffer_PeekID b of
        (Inl e, _) \<Rightarrow> Some (Some (Wrap ''peek message type'' e), c)
      | (Inr i, _) \<Rightarrow>
         if i = NewSessionCreatedTypeID then Some (handleSessionCreated ev b c)
         else if i = BadMsgNotificationTypeID \<or> i = BadServerSaltTypeID then Some (handleBadMsg b c)
         else if i = FutureSaltsTypeID then Some (handleFutureSalts ev b c)
         else if i = MessageContainerTypeID then handleContainer (handleMessage n ev) b c
         else if i = ResultTypeID then Some (handleResult ev b c)
         else if i = PongTypeID then Some (handlePong b c)
         else if i = MsgsAckTypeID then Some (handleAck b c)
         else if i = GZIPTypeID then handleGZIP ev (handleMessage n ev) b c
         else if i = MsgDetailedInfoTypeID \<or> i = MsgNewDetailedInfoTypeID then Some (None, c)
         else Some (onMessage ev b, emit (E_OnMessage b) c))"

section \<open>read.go\<close>

text \<open>What the cipher returns for a packet: the fields of \<open>crypto.EncryptedMessageData\<close> used here.\<close>

record decrypted =
  D_SessionID :: "64 word"
  D_MessageID :: "64 word"
  D_SeqNo :: "32 word"
  D_Data :: bytes

definition rejected :: "go_error \<Rightarrow> bool" where
  "rejected e \<longleftrightarrow> root_error e = Errorf ''message rejected'' []"

definition decryptMessage :: "env \<Rightarrow> (go_error + decrypted) \<Rightarrow> Conn \<Rightarrow> (go_error + decrypted) \<times> Conn" where
  "decryptMessage ev plain c =
     (let ((sid, _), c) = session ev c in
      case plain of
        Inl e \<Rightarrow> (Inl (Wrap ''decrypt'' e), c)
      | Inr msg \<Rightarrow>
          if D_SessionID msg \<noteq> sid then (Inl (Wrap ''invalid session'' (Errorf ''message rejected'' [])), c)
          else
            (case checkMessageID (clock ev) (D_MessageID msg) of
               Some e \<Rightarrow> (Inl (Wrap ''bad message id'' e), c)
             | None \<Rightarrow>
                 (case MessageIDBuf_Consume (sint (D_MessageID msg)) (messageIDBuf c) of
                    (Inl e, buf) \<Rightarrow> (Inl e, c\<lparr>messageIDBuf := buf\<rparr>)
                  | (Inr ok, buf) \<Rightarrow>
                      if \<not> ok then (Inl (Wrap ''duplicate or too low message id'' (Errorf ''message rejected'' [])), c\<lparr>messageIDBuf := buf\<rparr>)
                      else (Inr msg, c\<lparr>messageIDBuf := buf\<rparr>))))"

text \<open>
  \<open>consumeMessage\<close>; \<open>cancelled\<close> is the context's error if it is done before the ack loop
  takes the identifier.
\<close>

definition consumeMessage :: "nat \<Rightarrow> env \<Rightarrow> go_error option \<Rightarrow> (go_error + decrypted) \<Rightarrow> Conn \<Rightarrow> handled option" where
  "consumeMessage n ev cancelled plain c =
     (case decryptMessage ev plain c of
        (Inl e, c) \<Rightarrow> Some (if rejected e then None else Some (Wrap ''consume message'' e), c)
      | (Inr msg, c) \<Rightarrow>
         (case handleMessage n ev (D_Data msg) c of
            None \<Rightarrow> None
          | Some (_, c) \<Rightarrow>
             if D_SeqNo msg AND 1 \<noteq> 0 then
               (case cancelled of Some e \<Rightarrow> Some (Some e, c) | None \<Rightarrow> Some (None, emit (E_AckSend (D_MessageID msg)) c))
             else Some (None, c)))"

section \<open>write.go, ack.go, rpc.go\<close>

text \<open>\<open>now\<close> is the clock of the generator when the identifier is drawn.\<close>

definition nextMsgSeq :: "int \<Rightarrow> bool \<Rightarrow> Conn \<Rightarrow> (64 word \<times> 32 word) \<times> Conn" where
  "nextMsgSeq now content c =
     (let (msgID, g) = MessageIDGen_New MessageFromClient now (c_messageID c);
          seqNo = sentContentMessages c * 2;
          c = c\<lparr>c_messageID := g\<rparr> in
      if content then ((msgID, seqNo + 1), c\<lparr>sentContentMessages := sentContentMessages c + 1\<rparr>)
      else ((msgID, seqNo), c))"

text \<open>
  The loop of \<open>ack.go\<close>: its buffer and the batches it has tried to send, after the ticker
  fired or an identifier came from the channel. \<open>send\<close> empties the buffer whether or not the
  write succeeds.
\<close>

datatype ack_event = AckTick | AckID "64 word"

definition ack_step :: "nat \<Rightarrow> ack_event \<Rightarrow> 64 word list \<times> 64 word list list \<Rightarrow> 64 word list \<times> 64 word list list" where
  "ack_step batchSize ev st =
     (case st of (buf, sent) \<Rightarrow>
      (case ev of
         AckTick \<Rightarrow> if length buf > 0 then ([], sent @ [buf]) else (buf, sent)
       | AckID i \<Rightarrow>
           let buf = buf @ [i] in
           if length buf \<ge> batchSize then ([], sent @ [buf]) else (buf, sent)))"

text \<open>
  \<open>Invoke\<close>: \<open>do1\<close> and \<open>do2\<close> are the errors of the first and the second call of \<open>rpc.Do\<close>. The
  result lists the requests (identifier and sequence number) handed to \<open>Do\<close>.
\<close>

definition Invoke :: "int \<Rightarrow> go_error option \<Rightarrow> go_error option \<Rightarrow> Conn \<Rightarrow> go_error option \<times> (64 word \<times> 32 word) list \<times> Conn" where
  "Invoke now do1 do2 c =
     (let (req, c) = nextMsgSeq now True c in
      case do1 of
        None \<Rightarrow> (None, [req], c)
      | Some err \<Rightarrow>
         (case root_error err of
            BadMessageError code newSalt \<Rightarrow>
              if code = codeIncorrectServerSalt then
                (do2, [req, req], (storeSalt newSalt c)\<lparr>c_salts := Salts_Reset (c_salts c)\<rparr>)
              else (Some (Wrap ''rpcDoRequest'' err), [req], c)
          | _ \<Rightarrow> (Some (Wrap ''rpcDoRequest'' err), [req], c)))"

section \<open>Lemmas\<close>

subsection \<open>Peeking at encodings\<close>

lemma PeekID_put: "Buffer_PeekID (le_bytes Word i @ rest) = (Inr i, le_bytes Word i @ rest)"
  by (rule PeekID_app)

lemmas type_ids = NewSessionCreatedTypeID_def BadMsgNotificationTypeID_def BadServerSaltTypeID_def FutureSaltsTypeID_def
  MessageContainerTypeID_def ResultTypeID_def PongTypeID_def MsgsAckTypeID_def GZIPTypeID_def MsgDetailedInfoTypeID_def
  MsgNewDetailedInfoTypeID_def RPCErrorTypeID_def

text \<open>One message of each kind.\<close>

lemma handleMessage_first:
  assumes "b = le_bytes Word i @ rest"
  shows "handleMessage (Suc n) ev b c =
     (if i = NewSessionCreatedTypeID then Some (handleSessionCreated ev b c)
      else if i = BadMsgNotificationTypeID \<or> i = BadServerSaltTypeID then Some (handleBadMsg b c)
      else if i = FutureSaltsTypeID then Some (handleFutureSalts ev b c)
      else if i = MessageContainerTypeID then handleContainer (handleMessage n ev) b c
      else if i = ResultTypeID then Some (handleResult ev b c)
      else if i = PongTypeID then Some (handlePong b c)
      else if i = MsgsAckTypeID then Some (handleAck b c)
      else if i = GZIPTypeID then handleGZIP ev (handleMessage n ev) b c
      else if i = MsgDetailedInfoTypeID \<or> i = MsgNewDetailedInfoTypeID then Some (None, c)
      else Some (onMessage ev b, emit (E_OnMessage b) c))"
  unfolding assms by (simp add: PeekID_app)

subsection \<open>What no handler touches\<close>

text \<open>Everything a received message can change, besides the trace.\<close>

definition keeps :: "Conn \<Rightarrow> Conn \<Rightarrow> bool" where
  "keeps c c' \<longleftrightarrow> c_sessionID c' = c_sessionID c \<and> sentContentMessages c' = sentContentMessages c
     \<and> messageIDBuf c' = messageIDBuf c \<and> c_messageID c' = c_messageID c
     \<and> c_ping c' \<subseteq> c_ping c \<and> (gotSession c \<longrightarrow> gotSession c') \<and> prefix (trace c) (trace c')
     \<and> (salts_inv (c_salts c) \<longrightarrow> salts_inv (c_salts c'))"

lemma keeps_refl [simp]: "keeps c c"
  by (simp add: keeps_def)

lemma keeps_trans: "keeps c c' \<Longrightarrow> keeps c' c'' \<Longrightarrow> keeps c c''"
  by (auto simp: keeps_def intro: prefix_order.trans)

lemma keeps_emit [simp]: "keeps c c' \<Longrightarrow> keeps c (emit x c')"
  by (auto simp: keeps_def emit_def)

lemma updateSalt_keeps: "keeps c (updateSalt ev c)"
proof -
  obtain r ss where g: "Salts_Get (salt_deadline ev) (c_salts c) = (r, ss)" by fastforce
  have "salts_inv (c_salts c) \<Longrightarrow> salts_inv ss"
  proof -
    assume i: "salts_inv (c_salts c)"
    show "salts_inv ss" using g i salts_inv_filter[OF i]
      by (auto simp: Salts_Get_eq Let_def salts_inv_def salts_sorted_def split: if_splits)
  qed
  then show ?thesis using g by (auto simp: updateSalt_def keeps_def storeSalt_def split: option.splits)
qed

lemma updateSalt_frame [simp]:
  "trace (updateSalt ev c) = trace c" "messageIDBuf (updateSalt ev c) = messageIDBuf c"
  "c_sessionID (updateSalt ev c) = c_sessionID c" "c_ping (updateSalt ev c) = c_ping c"
  "gotSession (updateSalt ev c) = gotSession c"
  by (cases "Salts_Get (salt_deadline ev) (c_salts c)"; cases "fst (Salts_Get (salt_deadline ev) (c_salts c))";
      simp add: updateSalt_def storeSalt_def)+

lemma session_keeps: "session ev c = ((sid, salt), c') \<Longrightarrow> keeps c c' \<and> sid = c_sessionID c \<and> c' = updateSalt ev c"
  using updateSalt_keeps[of c ev] by (auto simp: session_def Let_def)

lemma handlers_keep:
  assumes "salt_sort (salt_order ev)"
  shows "keeps c (snd (handleSessionCreated ev b c))" "keeps c (snd (handleBadMsg b c))"
    "keeps c (snd (handleFutureSalts ev b c))" "keeps c (snd (handleResult ev b c))" "keeps c (snd (handlePong b c))"
    "keeps c (snd (handleAck b c))"
proof -
  have st: "keeps c (storeSalt s (c\<lparr>gotSession := True\<rparr>))" for s by (simp add: keeps_def storeSalt_def)
  show "keeps c (snd (handleSessionCreated ev b c))"
  proof (cases "NewSessionCreated_Decode b")
    case (Pair r b')
    show ?thesis
    proof (cases r)
      case (Inr s)
      obtain sid salt c' where ses: "session ev (storeSalt (ServerSalt s) (c\<lparr>gotSession := True\<rparr>)) = ((sid, salt), c')"
        by (metis surj_pair)
      then have "keeps c c'" using session_keeps[OF ses] st keeps_trans by blast
      then show ?thesis using Pair Inr ses by (simp add: handleSessionCreated_def)
    qed (use Pair in \<open>simp add: handleSessionCreated_def\<close>)
  qed
  show "keeps c (snd (handleBadMsg b c))"
    by (auto simp: handleBadMsg_def split: prod.splits sum.splits)
  show "keeps c (snd (handleFutureSalts ev b c))"
    using salt_sort.Store_inv[OF assms] by (auto simp: handleFutureSalts_def keeps_def split: prod.splits sum.splits)
  show pong: "keeps c (snd (handlePong b c))" for b
    by (auto simp: handlePong_def keeps_def emit_def split: prod.splits sum.splits)
  show "keeps c (snd (handleResult ev b c))"
    using pong by (auto simp: handleResult_def dispatchResult_def Let_def split: prod.splits sum.splits)
  show "keeps c (snd (handleAck b c))"
    by (auto simp: handleAck_def split: prod.splits sum.splits)
qed

lemma processMessages_keeps:
  assumes "\<And>b c r c'. h b c = Some (r, c') \<Longrightarrow> keeps c c'"
  shows "processMessages h ms c = Some (r, c') \<Longrightarrow> keeps c c'"
proof (induction ms arbitrary: c)
  case (Cons m ms)
  then obtain r1 c1 where h: "h (Body m) c = Some (r1, c1)" by (auto split: option.splits)
  then show ?case using assms[OF h] Cons by (cases r1) (auto intro: keeps_trans)
qed simp

lemma handleMessage_keeps:
  assumes "salt_sort (salt_order ev)"
  shows "handleMessage n ev b c = Some (r, c') \<Longrightarrow> keeps c c'"
proof (induction n arbitrary: b c r c')
  case (Suc n)
  note hk = handlers_keep[OF assms, of c b]
  have k: "keeps c (snd x) \<Longrightarrow> Some x = Some (r, c') \<Longrightarrow> keeps c c'" for x by auto
  have cont: "handleContainer (handleMessage n ev) b c = Some (r, c') \<Longrightarrow> keeps c c'"
    using processMessages_keeps[OF Suc.IH] by (auto simp: handleContainer_def split: prod.splits option.splits)
  have pack: "handleGZIP ev (handleMessage n ev) b c = Some (r, c') \<Longrightarrow> keeps c c'"
    using Suc.IH by (auto simp: handleGZIP_def split: sum.splits)
  from Suc.prems show ?case
    by (auto split: prod.splits sum.splits if_splits dest: cont pack intro: k hk)
qed simp

subsection \<open>Depth of the recursion\<close>

lemma container_bodies:
  assumes "MessageContainer_Decode [] b = (None, ms, rest)" "m \<in> set ms"
  shows "length (Body m) < length b"
proof -
  have "(\<Sum>m\<leftarrow>ms. 16 + length (Body m)) \<le> length b" using container_sum[OF assms(1)] by simp
  moreover have "16 + length (Body m) \<le> (\<Sum>m\<leftarrow>ms. 16 + length (Body m))"
    using assms(2) by (intro member_le_sum_list) auto
  ultimately show ?thesis by linarith
qed

lemma processMessages_returns:
  assumes "\<And>m c. m \<in> set ms \<Longrightarrow> h (Body m) c \<noteq> None"
  shows "processMessages h ms c \<noteq> None"
  using assms
proof (induction ms arbitrary: c)
  case (Cons m ms)
  then obtain r c' where "h (Body m) c = Some (r, c')" by fastforce
  then show ?case using Cons by (cases r) auto
qed simp

text \<open>
  How deep the packed objects of one message are nested: \<open>nests ev k b\<close> holds when every chain of
  containers and packed objects that starts at \<open>b\<close> opens at most \<open>k\<close> packed objects. Only what
  handling \<open>b\<close> can unpack is looked at.
\<close>

inductive nests :: "env \<Rightarrow> nat \<Rightarrow> bytes \<Rightarrow> bool" for ev where
  flat: "fst (Buffer_PeekID b) \<notin> {Inr GZIPTypeID, Inr MessageContainerTypeID} \<Longrightarrow> nests ev k b"
| container: "fst (Buffer_PeekID b) = Inr MessageContainerTypeID \<Longrightarrow>
     \<forall>ms rest. MessageContainer_Decode [] b = (None, ms, rest) \<longrightarrow> (\<forall>m\<in>set ms. nests ev k (Body m)) \<Longrightarrow> nests ev k b"
| unreadable: "fst (Buffer_PeekID b) = Inr GZIPTypeID \<Longrightarrow> gunzip ev b = Inl e \<Longrightarrow> nests ev k b"
| packed: "fst (Buffer_PeekID b) = Inr GZIPTypeID \<Longrightarrow> gunzip ev b = Inr d \<Longrightarrow> nests ev k d \<Longrightarrow> nests ev (Suc k) b"

lemma gunzip_bounded: "gunzip ev b = Inr d \<Longrightarrow> length d < maxUncompressedSize"
  by (auto simp: gunzip_def GZIP_Decode_def read_limited_def append_close_def Let_def split: prod.splits sum.splits option.splits if_splits)

lemma PeekID_snd: "fst (Buffer_PeekID b) = Inr i \<Longrightarrow> \<exists>r. Buffer_PeekID b = (Inr i, r)"
  by (cases "Buffer_PeekID b") simp

lemma handleMessage_flat:
  "fst (Buffer_PeekID d) \<notin> {Inr GZIPTypeID, Inr MessageContainerTypeID} \<Longrightarrow> handleMessage (Suc n) ev d c \<noteq> None"
  by (cases "Buffer_PeekID d") (auto split: sum.splits)

lemma handleMessage_packed:
  "fst (Buffer_PeekID b) = Inr GZIPTypeID \<Longrightarrow> handleMessage (Suc n) ev b c =
     (case gunzip ev b of Inl e \<Rightarrow> Some (Some (Wrap ''unzip'' e), c) | Inr d \<Rightarrow> handleMessage n ev d c)"
  by (drule PeekID_snd) (auto simp: handleGZIP_def type_ids)

lemma handleMessage_container:
  "fst (Buffer_PeekID b) = Inr MessageContainerTypeID \<Longrightarrow> handleMessage (Suc n) ev b c = handleContainer (handleMessage n ev) b c"
  by (drule PeekID_snd) (auto simp: type_ids)

lemma handleMessage_returns:
  "nests ev k b \<Longrightarrow> length b + k * maxUncompressedSize < n \<Longrightarrow> handleMessage n ev b c \<noteq> None"
proof (induction k b arbitrary: n c rule: nests.induct)
  case (flat b k)
  then show ?case using handleMessage_flat by (cases n) simp_all
next
  case (container b k)
  then obtain j where j: "n = Suc j" by (cases n) auto
  show ?case
  proof (cases "MessageContainer_Decode [] b")
    case (fields e ms rest)
    have "handleMessage j ev (Body m) c \<noteq> None" if "e = None" "m \<in> set ms" for m c
      using container_bodies[of b ms rest m] container.IH container.prems fields that j by fastforce
    then show ?thesis using fields processMessages_returns[of ms "handleMessage j ev"]
      unfolding j handleMessage_container[OF container.hyps(1)] by (cases e) (simp_all add: handleContainer_def)
  qed
next
  case (unreadable b e k)
  then show ?case using handleMessage_packed[OF unreadable.hyps(1)] by (cases n) simp_all
next
  case (packed b d k)
  then obtain j where j: "n = Suc j" by (cases n) auto
  have "length d + k * maxUncompressedSize < j" using packed.prems gunzip_bounded[OF packed.hyps(2)] j by simp
  then show ?case using packed.IH packed.hyps(2) unfolding j handleMessage_packed[OF packed.hyps(1)] by simp
qed

subsection \<open>Sequence numbers and acknowledgements\<close>

primrec draw_seqs :: "(int \<times> bool) list \<Rightarrow> Conn \<Rightarrow> 32 word list" where
  "draw_seqs [] c = []"
| "draw_seqs (x # xs) c = (case nextMsgSeq (fst x) (snd x) c of ((_, s), c') \<Rightarrow> s # draw_seqs xs c')"

lemma draw_seqs_nth:
  "k < length xs \<Longrightarrow> draw_seqs xs c ! k =
     (sentContentMessages c + word_of_nat (length (filter snd (take k xs)))) * 2 + (if snd (xs ! k) then 1 else 0)"
proof (induction xs arbitrary: c k)
  case (Cons x xs)
  obtain i s c' where n: "nextMsgSeq (fst x) (snd x) c = ((i, s), c')" by (metis surj_pair)
  have c': "sentContentMessages c' = sentContentMessages c + (if snd x then 1 else 0)"
    "s = sentContentMessages c * 2 + (if snd x then 1 else 0)"
    using n by (auto simp: nextMsgSeq_def Let_def split: prod.splits if_splits)
  show ?case using Cons n c' by (cases k) (simp_all add: add_ac)
qed simp

lemma length_draw_seqs [simp]: "length (draw_seqs xs c) = length xs"
  by (induction xs arbitrary: c) (simp_all split: prod.splits)

primrec ack_ids :: "ack_event list \<Rightarrow> 64 word list" where
  "ack_ids [] = []"
| "ack_ids (e # es) = (case e of AckTick \<Rightarrow> ack_ids es | AckID i \<Rightarrow> i # ack_ids es)"

lemma ack_steps:
  "fold (ack_step n) es (buf, sent) = (buf', sent') \<Longrightarrow> length buf < max 1 n \<Longrightarrow>
   \<forall>batch\<in>set sent. batch \<noteq> [] \<and> length batch \<le> max 1 n \<Longrightarrow>
   concat sent' @ buf' = concat sent @ buf @ ack_ids es \<and> length buf' < max 1 n
   \<and> (\<forall>batch\<in>set sent'. batch \<noteq> [] \<and> length batch \<le> max 1 n)"
proof (induction es arbitrary: buf sent)
  case (Cons e es)
  obtain b1 s1 where st: "ack_step n e (buf, sent) = (b1, s1)" by fastforce
  have "concat s1 @ b1 = concat sent @ buf @ ack_ids [e]" "length b1 < max 1 n"
    "\<forall>batch\<in>set s1. batch \<noteq> [] \<and> length batch \<le> max 1 n"
    using st Cons.prems(2,3) by (auto simp: ack_step_def Let_def split: ack_event.splits if_splits)
  then show ?case using Cons.IH[of b1 s1] Cons.prems(1) st by (cases e) auto
qed auto

section \<open>Properties\<close>

text \<open>What the connection accepts of a decrypted packet.\<close>

definition acceptable :: "env \<Rightarrow> Conn \<Rightarrow> decrypted \<Rightarrow> bool" where
  "acceptable ev c msg \<longleftrightarrow> D_SessionID msg = c_sessionID c \<and> checkMessageID (clock ev) (D_MessageID msg) = None
     \<and> fst (MessageIDBuf_Consume (sint (D_MessageID msg)) (messageIDBuf c)) = Inr True"

text \<open>
  What the checks mean, without the code that makes them: the packet is for this session, its
  identifier has a server's type and was created at most 300 seconds ago and at most 30
  ahead, it is none of the identifiers that the replay buffer holds, and it is not below
  both zero and all of them.
\<close>

definition passes_checks :: "env \<Rightarrow> Conn \<Rightarrow> decrypted \<Rightarrow> bool" where
  "passes_checks ev c msg \<longleftrightarrow> D_SessionID msg = c_sessionID c
     \<and> MessageID_Type (D_MessageID msg) \<in> {MessageFromServer, MessageServerResponse}
     \<and> clock ev - 300 * 1000000000 \<le> MessageID_Time (D_MessageID msg) \<and> MessageID_Time (D_MessageID msg) \<le> clock ev + 30 * 1000000000
     \<and> sint (D_MessageID msg) \<notin> set (messageIDBuf c)
     \<and> (\<exists>x\<in>insert 0 (set (messageIDBuf c)). x \<le> sint (D_MessageID msg))"

lemma acceptable_iff:
  assumes "messageIDBuf c \<noteq> []"
  shows "acceptable ev c msg \<longleftrightarrow> passes_checks ev c msg"
proof -
  have w: "checkMessageID now i = None \<longleftrightarrow> MessageID_Type i \<in> {MessageFromServer, MessageServerResponse}
      \<and> now - 300 * 1000000000 \<le> MessageID_Time i \<and> MessageID_Time i \<le> now + 30 * 1000000000" for now i
    by (auto simp: checkMessageID_def Let_def maxPast_def maxFuture_def)
  obtain k where "MessageIDBuf_Consume (sint (D_MessageID msg)) (messageIDBuf c) =
      (if sint (D_MessageID msg) \<in> set (messageIDBuf c) \<or> sint (D_MessageID msg) < Min (insert 0 (set (messageIDBuf c)))
       then (Inr False, messageIDBuf c) else (Inr True, (messageIDBuf c)[k := sint (D_MessageID msg)]))"
    using Consume_eq[OF assms] by blast
  then have "fst (MessageIDBuf_Consume (sint (D_MessageID msg)) (messageIDBuf c)) = Inr True \<longleftrightarrow>
      sint (D_MessageID msg) \<notin> set (messageIDBuf c) \<and> (\<exists>x\<in>insert 0 (set (messageIDBuf c)). x \<le> sint (D_MessageID msg))"
    using Min_le_iff[of "insert 0 (set (messageIDBuf c))" "sint (D_MessageID msg)"] by (auto simp: not_less)
  then show ?thesis by (simp add: acceptable_def passes_checks_def w)
qed

text \<open>The handlers leave the replay buffer alone.\<close>

lemma processMessages_buf:
  assumes "\<And>b c r c'. h b c = Some (r, c') \<Longrightarrow> messageIDBuf c' = messageIDBuf c"
  shows "processMessages h ms c = Some (r, c') \<Longrightarrow> messageIDBuf c' = messageIDBuf c"
proof (induction ms arbitrary: c)
  case (Cons m ms)
  then obtain r1 c1 where h: "h (Body m) c = Some (r1, c1)" by (auto split: option.splits)
  then show ?case using assms[OF h] Cons by (cases r1) auto
qed simp

lemma handlers_buf:
  "messageIDBuf (snd (handleSessionCreated ev b c)) = messageIDBuf c" "messageIDBuf (snd (handleBadMsg b c)) = messageIDBuf c"
  "messageIDBuf (snd (handleFutureSalts ev b c)) = messageIDBuf c" "messageIDBuf (snd (handlePong b c)) = messageIDBuf c"
  "messageIDBuf (snd (handleResult ev b c)) = messageIDBuf c" "messageIDBuf (snd (handleAck b c)) = messageIDBuf c"
proof -
  show "messageIDBuf (snd (handleSessionCreated ev b c)) = messageIDBuf c"
    by (auto simp: handleSessionCreated_def session_def storeSalt_def emit_def Let_def split: prod.splits sum.splits)
  show p: "messageIDBuf (snd (handlePong b c)) = messageIDBuf c" for b
    by (auto simp: handlePong_def emit_def split: prod.splits sum.splits)
  show "messageIDBuf (snd (handleResult ev b c)) = messageIDBuf c"
    using p by (auto simp: handleResult_def dispatchResult_def emit_def Let_def split: prod.splits sum.splits)
qed (auto simp: handleBadMsg_def handleFutureSalts_def handleAck_def emit_def split: prod.splits sum.splits)

lemma handleMessage_buf: "handleMessage n ev b c = Some (r, c') \<Longrightarrow> messageIDBuf c' = messageIDBuf c"
proof (induction n arbitrary: b c r c')
  case (Suc n)
  have k: "messageIDBuf (snd x) = messageIDBuf c \<Longrightarrow> Some x = Some (r, c') \<Longrightarrow> messageIDBuf c' = messageIDBuf c" for x by auto
  have cont: "handleContainer (handleMessage n ev) b c = Some (r, c') \<Longrightarrow> messageIDBuf c' = messageIDBuf c"
    using processMessages_buf[OF Suc.IH] by (auto simp: handleContainer_def split: prod.splits option.splits)
  have pack: "handleGZIP ev (handleMessage n ev) b c = Some (r, c') \<Longrightarrow> messageIDBuf c' = messageIDBuf c"
    using Suc.IH by (auto simp: handleGZIP_def split: sum.splits)
  from Suc.prems show ?case
    by (auto simp: emit_def split: prod.splits sum.splits if_splits dest: cont pack intro: k handlers_buf)
qed simp

text \<open>What \<open>decryptMessage\<close> does with a packet that passes the checks, and with any other.\<close>

lemma session_update: "session ev c = ((c_sessionID c, c_salt (updateSalt ev c)), updateSalt ev c)"
  by (simp add: session_def Let_def)

lemma decryptMessage_passes:
  assumes "messageIDBuf c \<noteq> []" "passes_checks ev c msg"
  shows "\<exists>k<length (messageIDBuf c). decryptMessage ev (Inr msg) c =
    (Inr msg, (updateSalt ev c)\<lparr>messageIDBuf := (messageIDBuf c)[k := sint (D_MessageID msg)]\<rparr>)"
proof -
  have a: "acceptable ev c msg" using assms acceptable_iff by blast
  obtain k where k: "k < length (messageIDBuf c)" "MessageIDBuf_Consume (sint (D_MessageID msg)) (messageIDBuf c) =
      (if sint (D_MessageID msg) \<in> set (messageIDBuf c) \<or> sint (D_MessageID msg) < Min (insert 0 (set (messageIDBuf c)))
       then (Inr False, messageIDBuf c) else (Inr True, (messageIDBuf c)[k := sint (D_MessageID msg)]))"
    using Consume_eq[OF assms(1)] by blast
  then have "MessageIDBuf_Consume (sint (D_MessageID msg)) (messageIDBuf c) = (Inr True, (messageIDBuf c)[k := sint (D_MessageID msg)])"
    using a unfolding acceptable_def by (metis fst_conv sum.inject(2))
  then show ?thesis using a k(1) by (auto simp: decryptMessage_def session_update acceptable_def)
qed

lemma decryptMessage_fails:
  assumes "messageIDBuf c \<noteq> []" "\<not> passes_checks ev c msg"
  shows "\<exists>e. decryptMessage ev (Inr msg) c = (Inl e, updateSalt ev c) \<and> rejected e"
proof -
  have a: "\<not> acceptable ev c msg" using assms acceptable_iff by blast
  have rej: "root_error e = Errorf ''message rejected'' []" if "checkMessageID now i = Some e" for now i e
    using that by (auto simp: checkMessageID_def Let_def split: if_splits)
  have buf: "(updateSalt ev c)\<lparr>messageIDBuf := messageIDBuf c\<rparr> = updateSalt ev c"
    using updateSalt_frame(2)[of ev c] by (cases "updateSalt ev c") simp
  obtain k where k: "MessageIDBuf_Consume (sint (D_MessageID msg)) (messageIDBuf c) =
      (if sint (D_MessageID msg) \<in> set (messageIDBuf c) \<or> sint (D_MessageID msg) < Min (insert 0 (set (messageIDBuf c)))
       then (Inr False, messageIDBuf c) else (Inr True, (messageIDBuf c)[k := sint (D_MessageID msg)]))"
    using Consume_eq[OF assms(1)] by blast
  consider "D_SessionID msg \<noteq> c_sessionID c" | e where "D_SessionID msg = c_sessionID c" "checkMessageID (clock ev) (D_MessageID msg) = Some e"
    | "D_SessionID msg = c_sessionID c" "checkMessageID (clock ev) (D_MessageID msg) = None"
      "MessageIDBuf_Consume (sint (D_MessageID msg)) (messageIDBuf c) = (Inr False, messageIDBuf c)"
    using a k unfolding acceptable_def by (cases "checkMessageID (clock ev) (D_MessageID msg)") (auto split: if_splits)
  then show ?thesis
    by cases (auto simp: decryptMessage_def session_update rejected_def buf dest: rej)
qed

text \<open>
  C6. Only packets that pass the checks have an effect. A packet that does not decrypt, or that fails
  one of the checks above, hands nothing to the engine, to the handler or to the ack loop,
  answers no ping and leaves the replay buffer as it was; it ends the read loop only when
  it does not decrypt. For a packet that passes them the handler of its content runs once
  and its identifier takes a slot of the buffer, so that the same packet right after it fails the
  checks; the identifier goes to the ack loop exactly when the sequence number is odd,
  whether or not the handler failed, and the read loop goes on unless the context is done.
  The checks refuse the repetition of what the buffer still holds and no more:
  \<open>MessageIDBuf_replay_accepted\<close> is what this leaves open.
\<close>

theorem consumeMessage_only_valid:
  assumes "messageIDBuf c \<noteq> []" and "\<forall>e. plain = Inl e \<longrightarrow> \<not> rejected e"
    and "consumeMessage n ev cancelled plain c = Some (r, c')"
  shows "if \<exists>msg. plain = Inr msg \<and> passes_checks ev c msg
    then \<exists>msg hr c0 c1. plain = Inr msg \<and> trace c0 = trace c \<and> handleMessage n ev (D_Data msg) c0 = Some (hr, c1)
      \<and> trace c' = trace c1 @ (if D_SeqNo msg AND 1 \<noteq> 0 \<and> cancelled = None then [E_AckSend (D_MessageID msg)] else [])
      \<and> (\<exists>k<length (messageIDBuf c). messageIDBuf c' = (messageIDBuf c)[k := sint (D_MessageID msg)])
      \<and> (\<forall>ev'. \<not> passes_checks ev' c' msg) \<and> r = (if D_SeqNo msg AND 1 \<noteq> 0 then cancelled else None)
    else trace c' = trace c \<and> gotSession c' = gotSession c \<and> c_ping c' = c_ping c \<and> messageIDBuf c' = messageIDBuf c
      \<and> (r = None \<longleftrightarrow> plain \<in> range Inr)"
proof (cases plain)
  case (Inl e)
  then have "decryptMessage ev plain c = (Inl (Wrap ''decrypt'' e), updateSalt ev c)" by (simp add: decryptMessage_def session_update)
  moreover have "\<not> rejected (Wrap ''decrypt'' e)" using assms(2) Inl by (simp add: rejected_def)
  ultimately show ?thesis using assms(3) Inl by (auto simp: consumeMessage_def)
next
  case (Inr msg)
  show ?thesis
  proof (cases "passes_checks ev c msg")
    case True
    obtain k c0 where k: "k < length (messageIDBuf c)" "decryptMessage ev plain c = (Inr msg, c0)"
      and c0: "c0 = (updateSalt ev c)\<lparr>messageIDBuf := (messageIDBuf c)[k := sint (D_MessageID msg)]\<rparr>"
      using decryptMessage_passes[OF assms(1) True] Inr by blast
    then obtain hr c1 where h: "handleMessage n ev (D_Data msg) c0 = Some (hr, c1)"
      using assms(3) by (auto simp: consumeMessage_def split: option.splits)
    have e: "trace c' = trace c1 @ (if D_SeqNo msg AND 1 \<noteq> 0 \<and> cancelled = None then [E_AckSend (D_MessageID msg)] else [])"
      "messageIDBuf c' = messageIDBuf c1" "r = (if D_SeqNo msg AND 1 \<noteq> 0 then cancelled else None)"
      using assms(3) k(2) h by (auto simp: consumeMessage_def emit_def split: if_splits option.splits)
    then have buf: "messageIDBuf c' = (messageIDBuf c)[k := sint (D_MessageID msg)]"
      using handleMessage_buf[OF h] c0 by simp
    then have "\<forall>ev'. \<not> passes_checks ev' c' msg" using k(1) by (simp add: passes_checks_def set_update_memI)
    moreover have "trace c0 = trace c" by (simp add: c0)
    ultimately have "\<exists>msg hr c0 c1. plain = Inr msg \<and> trace c0 = trace c \<and> handleMessage n ev (D_Data msg) c0 = Some (hr, c1)
      \<and> trace c' = trace c1 @ (if D_SeqNo msg AND 1 \<noteq> 0 \<and> cancelled = None then [E_AckSend (D_MessageID msg)] else [])
      \<and> (\<exists>k<length (messageIDBuf c). messageIDBuf c' = (messageIDBuf c)[k := sint (D_MessageID msg)])
      \<and> (\<forall>ev'. \<not> passes_checks ev' c' msg) \<and> r = (if D_SeqNo msg AND 1 \<noteq> 0 then cancelled else None)"
      using h e(1,3) buf k(1) Inr by blast
    moreover have "\<exists>msg. plain = Inr msg \<and> passes_checks ev c msg" using True Inr by blast
    ultimately show ?thesis by simp
  next
    case False
    obtain e where d: "decryptMessage ev plain c = (Inl e, updateSalt ev c)" "rejected e"
      using decryptMessage_fails[OF assms(1) False] Inr by blast
    then have "r = None" "c' = updateSalt ev c" using assms(3) by (simp_all add: consumeMessage_def)
    then show ?thesis using False Inr by simp
  qed
qed

definition example_env :: env where
  "example_env = \<lparr>clock = 1000 * 1000000000, gz = store_lib, salt_order = sort_descending, onMessage = (\<lambda>_. None),
     onSession = (\<lambda>_ _. None), notifyResult = (\<lambda>_ _. None)\<rparr>"

definition example_conn :: Conn where
  "example_conn = \<lparr>c_salt = 0, c_sessionID = 5, c_salts = [], sentContentMessages = 0, c_ping = {}, gotSession = False,
     messageIDBuf = [0], c_messageID = \<lparr>nano = 0\<rparr>, trace = []\<rparr>"

text \<open>
  A packet for session 5 that acknowledges message 7, a thousand seconds after the epoch: it is
  handled and acknowledged, and without effect when it comes again.
\<close>

definition example_packet :: decrypted where
  "example_packet = \<lparr>D_SessionID = 5, D_MessageID = word_of_int (1000 * 2 ^ 32 + 1), D_SeqNo = 1, D_Data = MsgsAck_Encode [7] []\<rparr>"

theorem consumeMessage_only_valid_witness:
  "\<exists>r c' r' c''. consumeMessage 3 example_env None (Inr example_packet) example_conn = Some (r, c')
    \<and> trace c' = [E_NotifyAcks [7], E_AckSend (word_of_int (1000 * 2 ^ 32 + 1))]
    \<and> consumeMessage 3 example_env None (Inr example_packet) c' = Some (r', c'') \<and> trace c'' = trace c'"
proof -
  let ?id = "word_of_int (1000 * 2 ^ 32 + 1) :: 64 word"
  have s: "sint ?id = 1000 * 2 ^ 32 + 1" by (rule sint64_of_int) simp_all
  have t: "MessageID_Type ?id = MessageServerResponse" "MessageID_Time ?id = 1000 * 1000000000 + 1" by code_simp+
  have p: "passes_checks example_env example_conn example_packet"
    by (simp only: passes_checks_def example_packet_def example_conn_def example_env_def Conn.simps decrypted.simps env.simps s t) simp
  have ne: "messageIDBuf example_conn \<noteq> []" "\<forall>e. Inr example_packet = Inl e \<longrightarrow> \<not> rejected e" by (simp_all add: example_conn_def)
  obtain c0 where c0: "decryptMessage example_env (Inr example_packet) example_conn = (Inr example_packet, c0)"
    using decryptMessage_passes[OF ne(1) p] by blast
  have ack: "handleMessage 3 ev (MsgsAck_Encode [7] []) c = Some (None, emit (E_NotifyAcks [7]) c)" for ev c
  proof -
    have "Buffer_PeekID (MsgsAck_Encode [7] []) = (Inr MsgsAckTypeID, MsgsAck_Encode [7] [])" by code_simp
    moreover have "MsgsAck_Decode (MsgsAck_Encode [7] []) = (Inr [7], [])" using MsgsAck_app[of "[7]" "[]"] by simp
    ultimately show ?thesis by (simp add: numeral_3_eq_3 handleAck_def type_ids)
  qed
  have pd: "D_Data example_packet = MsgsAck_Encode [7] []" "D_SeqNo example_packet AND 1 \<noteq> 0" "D_MessageID example_packet = ?id"
    by (simp_all add: example_packet_def)
  obtain r c' where r: "consumeMessage 3 example_env None (Inr example_packet) example_conn = Some (r, c')"
    using c0 pd ack by (simp add: consumeMessage_def)
  have "\<exists>msg. Inr example_packet = Inr msg \<and> passes_checks example_env example_conn msg" using p by blast
  then obtain c0 c1 hr where h: "trace c0 = trace example_conn" "handleMessage 3 example_env (D_Data example_packet) c0 = Some (hr, c1)"
      "trace c' = trace c1 @ [E_AckSend ?id]" "\<not> passes_checks example_env c' example_packet" "messageIDBuf c' \<noteq> []"
    using consumeMessage_only_valid[OF ne r] ne(1) pd by (auto split: if_splits)
  then have tr: "trace c' = [E_NotifyAcks [7], E_AckSend ?id]" using pd ack by (auto simp: emit_def example_conn_def)
  obtain r' c'' where r': "consumeMessage 3 example_env None (Inr example_packet) c' = Some (r', c'')"
    using decryptMessage_fails[OF h(5,4)] by (auto simp: consumeMessage_def)
  then have "trace c'' = trace c'" using consumeMessage_only_valid[OF h(5) ne(2) r'] h(4) by simp
  then show ?thesis using r r' tr by blast
qed

text \<open>
  C28. What a received packet can never do, however its content is nested: change the session
  identifier, the numbering of outgoing messages or their generator, add a ping, take back
  the session signal or an earlier effect, or leave the stored salts out of the order that
  \<open>Get\<close> relies on.
\<close>

theorem consumeMessage_keeps:
  assumes "salt_sort (salt_order ev)" and "consumeMessage n ev cancelled plain c = Some (r, c')" and "salts_inv (c_salts c)"
  shows "c_sessionID c' = c_sessionID c \<and> sentContentMessages c' = sentContentMessages c \<and> c_messageID c' = c_messageID c
    \<and> c_ping c' \<subseteq> c_ping c \<and> (gotSession c \<longrightarrow> gotSession c') \<and> prefix (trace c) (trace c') \<and> salts_inv (c_salts c')"
proof -
  obtain p c1 where d: "decryptMessage ev plain c = (p, c1)" by fastforce
  have "c1 = (updateSalt ev c)\<lparr>messageIDBuf := messageIDBuf c1\<rparr>"
    using d by (auto simp: decryptMessage_def session_def Let_def split: sum.splits if_splits option.splits prod.splits)
  then obtain buf where "c1 = (updateSalt ev c)\<lparr>messageIDBuf := buf\<rparr>" by blast
  then have k1: "keeps c (c1\<lparr>messageIDBuf := messageIDBuf c\<rparr>)" using updateSalt_keeps[of c ev] by (auto simp: keeps_def)
  show ?thesis
  proof (cases p)
    case (Inl e)
    then show ?thesis using d assms(2,3) k1 by (auto simp: consumeMessage_def keeps_def)
  next
    case (Inr msg)
    then obtain hr c2 where h: "handleMessage n ev (D_Data msg) c1 = Some (hr, c2)"
      using assms(2) d by (auto simp: consumeMessage_def split: option.splits)
    have "keeps c1 c2" using handleMessage_keeps[OF assms(1) h] .
    moreover have "keeps c2 c'" using assms(2) d Inr h
      by (auto simp: consumeMessage_def split: if_splits option.splits)
    ultimately have "keeps c1 c'" by (rule keeps_trans)
    then show ?thesis using k1 assms(3) by (auto simp: keeps_def intro: prefix_order.trans)
  qed
qed

theorem consumeMessage_keeps_witness:
  "\<exists>r c'. consumeMessage 3 example_env None (Inl EOF) example_conn = Some (r, c') \<and> c_sessionID c' = 5 \<and> salts_inv (c_salts c')"
proof -
  obtain r c' where r: "consumeMessage 3 example_env None (Inl EOF) example_conn = Some (r, c')"
    by (simp add: consumeMessage_def decryptMessage_def session_def example_conn_def updateSalt_def Salts_Get_eq Let_def)
  have "salt_sort (salt_order example_env)" "salts_inv (c_salts example_conn)"
    by (simp_all add: example_env_def stable.salt_sort_axioms example_conn_def salts_inv_def salts_sorted_def)
  from consumeMessage_keeps[OF this(1) r this(2)] r show ?thesis by (auto simp: example_conn_def)
qed

text \<open>A packed object that opens to itself is unpacked forever: no bound on the depth is enough.\<close>

theorem self_packed_never_returns:
  assumes "gunzip ev q = Inr q" and "fst (Buffer_PeekID q) = Inr GZIPTypeID"
  shows "handleMessage n ev q c = None"
  by (induction n) (use assms handleMessage_packed[of q _ ev c] in simp_all)

text \<open>
  C40. How deep the handling of a message goes. Every container is longer than the messages in it, and what
  a packed object opens to is below 10 MiB: for a message in which at most \<open>k\<close> packed
  objects are nested, its length plus 10 MiB for each of them bounds the recursion, so the
  handler returns. The code sets no bound for \<open>k\<close>: each packed object that opens to another takes one
  more call, and one that opens to itself is unpacked forever.
\<close>

theorem handleMessage_depth:
  "(nests ev k b \<longrightarrow> (\<exists>r c'. handleMessage (length b + k * maxUncompressedSize + 1) ev b c = Some (r, c')))
   \<and> (gunzip ev q = Inr d \<and> fst (Buffer_PeekID q) = Inr GZIPTypeID \<longrightarrow> handleMessage (Suc n) ev q c = handleMessage n ev d c)
   \<and> (gunzip ev q = Inr q \<and> fst (Buffer_PeekID q) = Inr GZIPTypeID \<longrightarrow> handleMessage n ev q c = None)"
proof (intro conjI impI)
  assume "nests ev k b"
  then have "handleMessage (length b + k * maxUncompressedSize + 1) ev b c \<noteq> None" by (rule handleMessage_returns) simp
  then show "\<exists>r c'. handleMessage (length b + k * maxUncompressedSize + 1) ev b c = Some (r, c')" by fastforce
next
  assume "gunzip ev q = Inr d \<and> fst (Buffer_PeekID q) = Inr GZIPTypeID"
  then show "handleMessage (Suc n) ev q c = handleMessage n ev d c" using handleMessage_packed[of q n ev c] by simp
next
  assume "gunzip ev q = Inr q \<and> fst (Buffer_PeekID q) = Inr GZIPTypeID"
  then show "handleMessage n ev q c = None" using self_packed_never_returns by blast
qed

text \<open>A library that inflates everything to one packed object.\<close>

definition quine :: bytes where
  "quine = Buffer_PutBytes [1] (Buffer_PutID GZIPTypeID [])"

definition quine_env :: env where
  "quine_env = example_env\<lparr>gz := store_lib\<lparr>gr_data := (\<lambda>_. quine)\<rparr>\<rparr>"

text \<open>A packed container with one acknowledgement in it.\<close>

definition ack_message :: Message where
  "ack_message = \<lparr>ID = 5, SeqNo = 1, Bytes = 20, Body = MsgsAck_Encode [7] []\<rparr>"

lemma ack_message_valid: "valid_message ack_message"
  by code_simp

lemma store_lib_opens: "length v < 2 ^ 20 \<Longrightarrow> gunzip example_env (gzip_bytes store_lib v @ rest) = Inr v"
  using GZIP_Decode_inflates[OF store_lib_inflates, of v rest]
  by (simp add: gunzip_def example_env_def store_lib_def maxLongStringLength_def maxUncompressedSize_def)

lemma gzip_bytes_id: "fst (Buffer_PeekID (gzip_bytes lib v @ rest)) = Inr GZIPTypeID"
  by (simp add: gzip_bytes_def Buffer_PutID_def Buffer_PutUint32_def PeekID_app)

theorem handleMessage_depth_witness:
  "(\<exists>r c'. handleMessage (length (gzip_bytes store_lib (container_bytes [ack_message])) + 1 * maxUncompressedSize + 1) example_env
       (gzip_bytes store_lib (container_bytes [ack_message])) example_conn = Some (r, c'))
   \<and> (\<forall>n. handleMessage n quine_env quine example_conn = None)"
proof
  let ?v = "container_bytes [ack_message]"
  have "fst (Buffer_PeekID (MsgsAck_Encode [7] [])) \<notin> {Inr GZIPTypeID, Inr MessageContainerTypeID}" by code_simp
  then have "nests example_env 0 (Body ack_message)" unfolding ack_message_def by (intro nests.flat) simp
  moreover have "MessageContainer_Decode [] ?v = (None, [ack_message], [])"
    using MessageContainer_Decode_app[of "[ack_message]" "[]" "[]"] ack_message_valid by simp
  moreover have "fst (Buffer_PeekID ?v) = Inr MessageContainerTypeID" and len: "length ?v < 100" by code_simp+
  ultimately have "nests example_env 0 ?v" by (intro nests.container) auto
  moreover have "gunzip example_env (gzip_bytes store_lib ?v) = Inr ?v"
    using store_lib_opens[of ?v "[]"] len by simp
  moreover have "fst (Buffer_PeekID (gzip_bytes store_lib ?v)) = Inr GZIPTypeID" using gzip_bytes_id[of store_lib ?v "[]"] by simp
  ultimately have "nests example_env 1 (gzip_bytes store_lib ?v)" unfolding One_nat_def by (intro nests.packed)
  then show "\<exists>r c'. handleMessage (length (gzip_bytes store_lib ?v) + 1 * maxUncompressedSize + 1) example_env (gzip_bytes store_lib ?v) example_conn = Some (r, c')"
    using handleMessage_depth[where k = 1] by blast
next
  have q: "quine = Buffer_PutID GZIPTypeID [] @ Buffer_PutBytes [1] []"
    using f_bytes.put_append[of "[1]" "Buffer_PutID GZIPTypeID []"] by (simp add: quine_def)
  have "Buffer_Bytes (Buffer_PutBytes [1] []) = (Inr [1], [])"
    using f_bytes.get_put[of "[1]" "[]"] by (simp add: maxLongStringLength_def)
  moreover have "length quine = 8" by code_simp
  then have "length quine < maxUncompressedSize" by (simp add: maxUncompressedSize_def)
  ultimately have "gunzip quine_env quine = Inr quine"
    unfolding gunzip_def GZIP_Decode_def by (subst (1) q) (simp add: quine_env_def store_lib_def read_limited_def append_close_def)
  moreover have "fst (Buffer_PeekID quine) = Inr GZIPTypeID"
    unfolding q Buffer_PutID_def Buffer_PutUint32_def by (simp add: PeekID_app)
  ultimately have "handleMessage n quine_env quine example_conn = None" for n
    by (intro handleMessage_depth[THEN conjunct2, THEN conjunct2, rule_format] conjI)
  then show "\<forall>n. handleMessage n quine_env quine example_conn = None" by (rule allI)
qed

subsection \<open>From the wire to the engine\<close>

lemma Result_first: "Result_Encode r [] = le_bytes Word ResultTypeID @ le_bytes (Word * 2) (RequestMessageID r) @ Result_Result r"
  by (simp add: Result_Encode_def put_defs)

text \<open>
  The body \<open>b\<close> of a result stands for the answer \<open>v\<close>: it is the answer itself, or the answer
  packed once by the library.
\<close>

definition answers_with :: "env \<Rightarrow> bytes \<Rightarrow> bytes \<Rightarrow> bool" where
  "answers_with ev b v \<longleftrightarrow> b = v \<and> fst (Buffer_PeekID v) \<noteq> Inr GZIPTypeID
     \<or> b = gzip_bytes (gz ev) v \<and> gzip_inflates (gz ev) v \<and> length (gw_out (gz ev) v) \<le> maxLongStringLength \<and> length v < maxUncompressedSize"

lemma gunzip_gzip_bytes:
  "gzip_inflates (gz ev) v \<Longrightarrow> length (gw_out (gz ev) v) \<le> maxLongStringLength \<Longrightarrow> length v < maxUncompressedSize \<Longrightarrow>
   gunzip ev (gzip_bytes (gz ev) v @ rest) = Inr v"
  using GZIP_Decode_inflates[of "gz ev" v rest] by (simp add: gunzip_def)

lemma handleMessage_answer:
  assumes "answers_with ev b v" "v = le_bytes Word i @ w"
  shows "handleMessage (Suc n) ev (Result_Encode \<lparr>RequestMessageID = req, Result_Result = b\<rparr> []) c = Some (dispatchResult ev req i v c)"
proof -
  let ?r = "\<lparr>RequestMessageID = req, Result_Result = b\<rparr>"
  have v: "Buffer_PeekID v = (Inr i, v)" unfolding assms(2) by (rule PeekID_app)
  have dec: "Result_Decode (Result_Encode ?r []) = (Inr ?r, [])" by (simp add: Result_Decode_iff)
  have "handleResult ev (Result_Encode ?r []) c = dispatchResult ev req i v c"
  proof (cases "b = v \<and> i \<noteq> GZIPTypeID")
    case True
    then show ?thesis using v dec by (simp add: handleResult_def)
  next
    case False
    then have b: "b = gzip_bytes (gz ev) v" "gunzip ev b = Inr v"
      using assms(1) v gunzip_gzip_bytes[of ev v "[]"] by (auto simp: answers_with_def)
    then obtain y where "Buffer_PeekID b = (Inr GZIPTypeID, y)" using PeekID_snd gzip_bytes_id[of "gz ev" v "[]"] by auto
    then show ?thesis using b(2) v dec by (simp add: handleResult_def)
  qed
  then show ?thesis by (subst handleMessage_first[OF Result_first]) (simp add: type_ids)
qed

text \<open>The signal of a ping that waits for its pong.\<close>

definition answer_ping :: "64 word \<Rightarrow> Conn \<Rightarrow> Conn" where
  "answer_ping p c = (if p \<in> c_ping c then emit (E_Pong p) (c\<lparr>c_ping := c_ping c - {p}\<rparr>) else c)"

lemma handlePong_app: "handlePong (Pong_Encode p [] @ rest) c = (None, answer_ping (PingID p) c)"
  by (simp add: handlePong_def Pong_app answer_ping_def)

lemma handleMessage_acks:
  assumes "length ids < 2 ^ 31"
  shows "handleMessage (Suc n) ev (MsgsAck_Encode ids [] @ rest) c = Some (None, emit (E_NotifyAcks ids) c)"
proof -
  obtain r where "MsgsAck_Encode ids [] @ rest = le_bytes Word MsgsAckTypeID @ r"
    using f_vector_header.put_append[of _ "Buffer_PutID MsgsAckTypeID []"]
    by (simp add: MsgsAck_Encode_def MsgsAck_EncodeBare_def f_long.fold_put Buffer_PutID_def Buffer_PutUint32_def)
  from handleMessage_first[OF this] show ?thesis using MsgsAck_app[OF assms] by (simp add: handleAck_def type_ids)
qed

lemma handleMessage_bad_msg:
  assumes "is_int32 (BadMsgSeqno m)" "is_int32 (ErrorCode m)"
  shows "handleMessage (Suc n) ev (BadMsgNotification_Encode m [] @ rest) c =
    Some (None, emit (E_NotifyError (BadMsgID m) (BadMessageError (ErrorCode m) 0)) c)"
proof -
  obtain r where r: "BadMsgNotification_Encode m [] @ rest = le_bytes Word BadMsgNotificationTypeID @ r"
    by (simp add: BadMsgNotification_Encode_def BadMsgNotification_EncodeBare_def put_defs)
  have "Buffer_PeekID (BadMsgNotification_Encode m [] @ rest) = (Inr BadMsgNotificationTypeID, BadMsgNotification_Encode m [] @ rest)"
    unfolding r by (rule PeekID_app)
  with handleMessage_first[OF r] show ?thesis
    using BadMsgNotification_app[OF assms] by (simp add: handleBadMsg_def type_ids)
qed

lemma handleMessage_bad_salt:
  assumes "is_int32 (BadMsgSeqno s)" "is_int32 (ErrorCode s)"
  shows "handleMessage (Suc n) ev (BadServerSalt_Encode s [] @ rest) c =
    Some (None, emit (E_NotifyError (BadMsgID s) (BadMessageError (ErrorCode s) (NewServerSalt s))) c)"
proof -
  obtain r where r: "BadServerSalt_Encode s [] @ rest = le_bytes Word BadServerSaltTypeID @ r"
    by (simp add: BadServerSalt_Encode_def BadServerSalt_EncodeBare_def put_defs)
  have "Buffer_PeekID (BadServerSalt_Encode s [] @ rest) = (Inr BadServerSaltTypeID, BadServerSalt_Encode s [] @ rest)"
    unfolding r by (rule PeekID_app)
  with handleMessage_first[OF r] show ?thesis
    using BadServerSalt_app[OF assms] by (simp add: handleBadMsg_def type_ids)
qed

lemma handleMessage_session:
  fixes ev :: env and s :: NewSessionCreated and c :: Conn
  defines "c1 \<equiv> updateSalt ev (c\<lparr>gotSession := True, c_salt := ServerSalt s\<rparr>)"
  shows "handleMessage (Suc n) ev (NewSessionCreated_Encode s [] @ rest) c =
    Some (map_option (Wrap ''handler.OnSession'') (onSession ev (c_sessionID c) (c_salt c1)), emit (E_OnSession (c_sessionID c) (c_salt c1)) c1)"
proof -
  obtain r where r: "NewSessionCreated_Encode s [] @ rest = le_bytes Word NewSessionCreatedTypeID @ r"
    by (simp add: NewSessionCreated_Encode_def NewSessionCreated_EncodeBare_def put_defs)
  from handleMessage_first[OF this] show ?thesis
    by (simp add: handleSessionCreated_def NewSessionCreated_app session_update storeSalt_def c1_def Let_def)
qed

lemma handleMessage_salts:
  assumes "\<forall>s\<in>set (FS_Salts f). salt_ok s" "is_int32 (FS_Now f)" "length (FS_Salts f) < 2 ^ 31"
  shows "handleMessage (Suc n) ev (FutureSalts_Encode f [] @ rest) c =
    Some (None, c\<lparr>c_salts := Salts_Store (salt_order ev) (FS_Salts f) (c_salts c)\<rparr>)"
proof -
  obtain r where r: "FutureSalts_Encode f [] @ rest = le_bytes Word FutureSaltsTypeID @ r"
    by (simp add: FutureSalts_Encode_def FutureSalts_EncodeBare_def fold_FutureSalt put_defs)
  from handleMessage_first[OF this] show ?thesis using FutureSalts_app[OF assms] by (simp add: handleFutureSalts_def type_ids)
qed

lemma Pong_first: "\<exists>r. Pong_Encode p [] @ rest = le_bytes Word PongTypeID @ r"
  by (simp add: Pong_Encode_def Pong_EncodeBare_def put_defs)

lemma handleMessage_pong: "handleMessage (Suc n) ev (Pong_Encode p [] @ rest) c = Some (None, answer_ping (PingID p) c)"
proof -
  obtain r where r: "Pong_Encode p [] @ rest = le_bytes Word PongTypeID @ r" using Pong_first by blast
  from handleMessage_first[OF this] show ?thesis by (simp add: handlePong_app type_ids)
qed

lemma handleMessage_rpc_error:
  assumes "answers_with ev b (RPCError_Encode e [])" "is_int32 (RE_ErrorCode e)" "length (RE_ErrorMessage e) \<le> maxLongStringLength"
  shows "handleMessage (Suc n) ev (Result_Encode \<lparr>RequestMessageID = req, Result_Result = b\<rparr> []) c =
    Some (None, emit (E_NotifyError req (TgErr (RE_ErrorCode e) (RE_ErrorMessage e))) c)"
proof -
  obtain r where r: "RPCError_Encode e [] = le_bytes Word RPCErrorTypeID @ r"
    using f_string.put_append[of "RE_ErrorMessage e" "Buffer_PutInt (RE_ErrorCode e) (Buffer_PutID RPCErrorTypeID [])"] assms(3)
    by (simp add: RPCError_Encode_def RPCError_EncodeBare_def put_defs)
  show ?thesis using handleMessage_answer[OF assms(1) r] RPCError_app[OF assms(2,3), of "[]"] by (simp add: dispatchResult_def)
qed

lemma handleMessage_pong_result:
  assumes "answers_with ev b (Pong_Encode p [])"
  shows "handleMessage (Suc n) ev (Result_Encode \<lparr>RequestMessageID = req, Result_Result = b\<rparr> []) c = Some (None, answer_ping (PingID p) c)"
proof -
  obtain r where r: "Pong_Encode p [] = le_bytes Word PongTypeID @ r" using Pong_first[of p "[]"] by auto
  show ?thesis using handleMessage_answer[OF assms r] handlePong_app[of p "[]"] by (simp add: dispatchResult_def type_ids)
qed

lemma handleMessage_other_result:
  assumes "answers_with ev b v" "v = le_bytes Word i @ w" "i \<noteq> RPCErrorTypeID" "i \<noteq> PongTypeID"
  shows "handleMessage (Suc n) ev (Result_Encode \<lparr>RequestMessageID = req, Result_Result = b\<rparr> []) c =
    Some (notifyResult ev req v, emit (E_NotifyResult req v) c)"
  using handleMessage_answer[OF assms(1,2)] assms(3,4) by (simp add: dispatchResult_def)

lemma handleMessage_messages:
  assumes "\<forall>m\<in>set ms. valid_message m" "length ms < 2 ^ 31"
  shows "handleMessage (Suc n) ev (container_bytes ms @ rest) c = processMessages (handleMessage n ev) ms c"
proof -
  obtain r where r: "container_bytes ms @ rest = le_bytes Word MessageContainerTypeID @ r"
    by (simp add: container_bytes_def put_defs)
  from handleMessage_first[OF this] show ?thesis
    using assms MessageContainer_Decode_app[of ms "[]" rest] by (simp add: handleContainer_def type_ids)
qed

lemma handleMessage_unpacks:
  assumes "gzip_inflates (gz ev) v" "length (gw_out (gz ev) v) \<le> maxLongStringLength" "length v < maxUncompressedSize"
  shows "handleMessage (Suc n) ev (gzip_bytes (gz ev) v @ rest) c = handleMessage n ev v c"
  using handleMessage_packed[OF gzip_bytes_id] gunzip_gzip_bytes[OF assms] by simp

text \<open>
  C11. Every message that the server encodes reaches its destination, whatever follows it in the buffer.
  Acknowledgements and both notifications of a bad message go to the engine under the
  identifiers they name, the second with the new salt; a new session stores its salt,
  sets the signal and is reported with the salt then in use; future salts are stored; a
  pong wakes the ping it names, if one waits. An answer, packed or not, is handed to the
  engine as it was before packing, as an error if it is one; a pong in an answer wakes its
  ping. The messages of a container are handled one after the other up to the first that
  fails, a packed message is handled as what was packed, details about messages are
  ignored, and everything else goes unchanged to the handler of updates.
\<close>

theorem handleMessage_delivers:
  "(length ids < 2 ^ 31 \<longrightarrow>
      handleMessage (Suc n) ev (MsgsAck_Encode ids [] @ rest) c = Some (None, emit (E_NotifyAcks ids) c))
   \<and> (is_int32 (BadMsgSeqno m) \<and> is_int32 (ErrorCode m) \<longrightarrow>
      handleMessage (Suc n) ev (BadMsgNotification_Encode m [] @ rest) c =
        Some (None, emit (E_NotifyError (BadMsgID m) (BadMessageError (ErrorCode m) 0)) c))
   \<and> (is_int32 (BadMsgSeqno s) \<and> is_int32 (ErrorCode s) \<longrightarrow>
      handleMessage (Suc n) ev (BadServerSalt_Encode s [] @ rest) c =
        Some (None, emit (E_NotifyError (BadMsgID s) (BadMessageError (ErrorCode s) (NewServerSalt s))) c))
   \<and> (let c1 = updateSalt ev (c\<lparr>gotSession := True, c_salt := ServerSalt ns\<rparr>) in
      handleMessage (Suc n) ev (NewSessionCreated_Encode ns [] @ rest) c =
        Some (map_option (Wrap ''handler.OnSession'') (onSession ev (c_sessionID c) (c_salt c1)), emit (E_OnSession (c_sessionID c) (c_salt c1)) c1))
   \<and> ((\<forall>x\<in>set (FS_Salts f). salt_ok x) \<and> is_int32 (FS_Now f) \<and> length (FS_Salts f) < 2 ^ 31 \<longrightarrow>
      handleMessage (Suc n) ev (FutureSalts_Encode f [] @ rest) c =
        Some (None, c\<lparr>c_salts := Salts_Store (salt_order ev) (FS_Salts f) (c_salts c)\<rparr>))
   \<and> handleMessage (Suc n) ev (Pong_Encode p [] @ rest) c = Some (None, answer_ping (PingID p) c)
   \<and> (answers_with ev b (RPCError_Encode e []) \<and> is_int32 (RE_ErrorCode e) \<and> length (RE_ErrorMessage e) \<le> maxLongStringLength \<longrightarrow>
      handleMessage (Suc n) ev (Result_Encode \<lparr>RequestMessageID = req, Result_Result = b\<rparr> []) c =
        Some (None, emit (E_NotifyError req (TgErr (RE_ErrorCode e) (RE_ErrorMessage e))) c))
   \<and> (answers_with ev b (Pong_Encode p []) \<longrightarrow>
      handleMessage (Suc n) ev (Result_Encode \<lparr>RequestMessageID = req, Result_Result = b\<rparr> []) c = Some (None, answer_ping (PingID p) c))
   \<and> (answers_with ev b (le_bytes Word i @ w) \<and> i \<noteq> RPCErrorTypeID \<and> i \<noteq> PongTypeID \<longrightarrow>
      handleMessage (Suc n) ev (Result_Encode \<lparr>RequestMessageID = req, Result_Result = b\<rparr> []) c =
        Some (notifyResult ev req (le_bytes Word i @ w), emit (E_NotifyResult req (le_bytes Word i @ w)) c))
   \<and> ((\<forall>x\<in>set ms. valid_message x) \<and> length ms < 2 ^ 31 \<longrightarrow>
      handleMessage (Suc n) ev (container_bytes ms @ rest) c = processMessages (handleMessage n ev) ms c)
   \<and> (gzip_inflates (gz ev) v \<and> length (gw_out (gz ev) v) \<le> maxLongStringLength \<and> length v < maxUncompressedSize \<longrightarrow>
      handleMessage (Suc n) ev (gzip_bytes (gz ev) v @ rest) c = handleMessage n ev v c)
   \<and> (j = MsgDetailedInfoTypeID \<or> j = MsgNewDetailedInfoTypeID \<longrightarrow> handleMessage (Suc n) ev (le_bytes Word j @ w) c = Some (None, c))
   \<and> (j \<notin> {NewSessionCreatedTypeID, BadMsgNotificationTypeID, BadServerSaltTypeID, FutureSaltsTypeID, MessageContainerTypeID, ResultTypeID,
          PongTypeID, MsgsAckTypeID, GZIPTypeID, MsgDetailedInfoTypeID, MsgNewDetailedInfoTypeID} \<longrightarrow>
      handleMessage (Suc n) ev (le_bytes Word j @ w) c = Some (onMessage ev (le_bytes Word j @ w), emit (E_OnMessage (le_bytes Word j @ w)) c))"
proof -
  have details: "j = MsgDetailedInfoTypeID \<or> j = MsgNewDetailedInfoTypeID \<longrightarrow> handleMessage (Suc n) ev (le_bytes Word j @ w) c = Some (None, c)"
    using handleMessage_first[OF refl, of n ev j w c] by (auto simp: type_ids)
  have other: "j \<notin> {NewSessionCreatedTypeID, BadMsgNotificationTypeID, BadServerSaltTypeID, FutureSaltsTypeID, MessageContainerTypeID, ResultTypeID,
          PongTypeID, MsgsAckTypeID, GZIPTypeID, MsgDetailedInfoTypeID, MsgNewDetailedInfoTypeID} \<longrightarrow>
      handleMessage (Suc n) ev (le_bytes Word j @ w) c = Some (onMessage ev (le_bytes Word j @ w), emit (E_OnMessage (le_bytes Word j @ w)) c)"
    using handleMessage_first[OF refl, of n ev j w c] by simp
  show ?thesis unfolding Let_def
    by (intro conjI; (rule details | rule other | rule handleMessage_session | rule handleMessage_pong |
      (intro impI, (elim conjE)?, (rule handleMessage_acks handleMessage_bad_msg handleMessage_bad_salt handleMessage_salts handleMessage_rpc_error
          handleMessage_pong_result handleMessage_other_result[OF _ refl] handleMessage_messages handleMessage_unpacks; assumption))))
qed

text \<open>A container with an acknowledgement, a notification of a bad message and a packed acknowledgement.\<close>

definition bad_message :: Message where
  "bad_message = \<lparr>ID = 9, SeqNo = 1, Bytes = 20, Body = BadMsgNotification_Encode \<lparr>BadMsgID = 3, BadMsgSeqno = 1, ErrorCode = 16\<rparr> []\<rparr>"

definition packed_message :: Message where
  "packed_message = \<lparr>ID = 13, SeqNo = 1, Bytes = int (length (gzip_bytes store_lib (MsgsAck_Encode [8] []))),
     Body = gzip_bytes store_lib (MsgsAck_Encode [8] [])\<rparr>"

theorem handleMessage_delivers_witness:
  "handleMessage 5 example_env (container_bytes [ack_message, bad_message, packed_message]) example_conn
     = Some (None, emit (E_NotifyAcks [8]) (emit (E_NotifyError 3 (BadMessageError 16 0)) (emit (E_NotifyAcks [7]) example_conn)))"
proof -
  let ?ms = "[ack_message, bad_message, packed_message]" and ?v = "MsgsAck_Encode [8] []" and ?m = "\<lparr>BadMsgID = 3, BadMsgSeqno = 1, ErrorCode = 16\<rparr> :: BadMsgNotification"
  have v: "\<forall>m\<in>set ?ms. valid_message m" by code_simp
  have ack: "handleMessage (Suc n) example_env (MsgsAck_Encode [x] []) c = Some (None, emit (E_NotifyAcks [x]) c)" for n x c
    using handleMessage_delivers[THEN conjunct1, of "[x]" n example_env "[]" c] by simp
  have "is_int32 (BadMsgSeqno ?m) \<and> is_int32 (ErrorCode ?m)" by (simp add: is_int32_def)
  then have bad: "handleMessage (Suc n) example_env (BadMsgNotification_Encode ?m []) c =
      Some (None, emit (E_NotifyError 3 (BadMessageError 16 0)) c)" for n c
    using handleMessage_delivers[THEN conjunct2, THEN conjunct1, of ?m n example_env "[]" c] by simp
  have "gz example_env = store_lib" by (simp add: example_env_def)
  moreover have "length (gw_out store_lib ?v) \<le> maxLongStringLength" "length ?v < maxUncompressedSize"
    by (simp_all add: store_lib_def maxLongStringLength_def maxUncompressedSize_def MsgsAck_Encode_def MsgsAck_EncodeBare_def put_defs
        Buffer_PutVectorHeader_def Word_def)
  ultimately have pack: "handleMessage (Suc n) example_env (gzip_bytes store_lib ?v) c = handleMessage n example_env ?v c" for n c
    using handleMessage_delivers[THEN conjunct2, THEN conjunct2, THEN conjunct2, THEN conjunct2, THEN conjunct2, THEN conjunct2, THEN conjunct2, THEN conjunct2, THEN conjunct2, THEN conjunct2, THEN conjunct1, of example_env ?v n "[]" c]
      store_lib_inflates by simp
  have "handleMessage (Suc 4) example_env (container_bytes ?ms @ []) example_conn = processMessages (handleMessage 4 example_env) ?ms example_conn"
    using handleMessage_delivers[THEN conjunct2, THEN conjunct2, THEN conjunct2, THEN conjunct2, THEN conjunct2, THEN conjunct2, THEN conjunct2, THEN conjunct2, THEN conjunct2, THEN conjunct1, of ?ms 4 example_env "[]" example_conn] v by simp
  then show ?thesis
    using ack[of 3 7] bad[of 3] pack[of 3] ack[of 2 8]
    by (simp del: handleMessage.simps add: ack_message_def bad_message_def packed_message_def)
qed

text \<open>
  The numbering of outgoing messages: on a new connection the sequence numbers are the ones the
  protocol asks for, twice the number of content messages sent before, plus one for a
  content message. They never decrease, and a content message has a number
  that no later message repeats, below the \<open>2\<^sup>3\<^sup>0\<close> messages after which the 32-bit counter would
  turn negative.
\<close>

theorem nextMsgSeq_numbers:
  assumes "sentContentMessages c = 0" and "length xs \<le> 2 ^ 30"
  shows "map sint (draw_seqs xs c) =
           map (\<lambda>k. 2 * int (length (filter snd (take k xs))) + of_bool (snd (xs ! k))) [0..<length xs]
         \<and> sorted (map sint (draw_seqs xs c))
         \<and> (\<forall>j k. j < k \<and> k < length xs \<and> snd (xs ! j) \<longrightarrow> sint (draw_seqs xs c ! j) < sint (draw_seqs xs c ! k))"
proof -
  define N where "N k = length (filter snd (take k xs))" for k
  have mono: "N j + of_bool (snd (xs ! j)) \<le> N k" if "j < k" "k < length xs" for j k
  proof -
    have "take (Suc j) xs = take (Suc j) (take k xs)" using that by (simp add: min_def)
    then have "filter snd (take k xs) = filter snd (take (Suc j) xs) @ filter snd (drop (Suc j) (take k xs))"
      by (metis append_take_drop_id filter_append)
    then show ?thesis using that by (simp add: N_def take_Suc_conv_app_nth)
  qed
  have bound: "N k \<le> k" for k unfolding N_def by (metis length_filter_le length_take min.bounded_iff)
  have val: "sint (draw_seqs xs c ! k) = 2 * int (N k) + of_bool (snd (xs ! k))" if "k < length xs" for k
  proof -
    have d: "draw_seqs xs c ! k = word_of_int (2 * int (N k) + of_bool (snd (xs ! k)))"
      using draw_seqs_nth[OF that, of c] assms(1) by (simp add: N_def algebra_simps)
    have "is_int32 (2 * int (N k) + of_bool (snd (xs ! k)))"
      using bound[of k] that assms(2) by (auto simp: is_int32_def)
    then show ?thesis unfolding d by (rule sint_word_of_int32)
  qed
  have lt: "sint (draw_seqs xs c ! j) + of_bool (snd (xs ! j)) \<le> sint (draw_seqs xs c ! k)" if "j < k" "k < length xs" for j k
    using mono[OF that] that by (cases "snd (xs ! j)") (simp_all add: val)
  have "map sint (draw_seqs xs c) = map (\<lambda>k. 2 * int (N k) + of_bool (snd (xs ! k))) [0..<length xs]"
    by (intro nth_equalityI) (simp_all add: val)
  moreover have "sorted (map sint (draw_seqs xs c))"
    unfolding sorted_wrt_iff_nth_less
  proof (intro allI impI)
    fix i j assume "i < j" "j < length (map sint (draw_seqs xs c))"
    then show "map sint (draw_seqs xs c) ! i \<le> map sint (draw_seqs xs c) ! j"
      using lt[of i j] by (cases "snd (xs ! i)") simp_all
  qed
  moreover have "sint (draw_seqs xs c ! j) < sint (draw_seqs xs c ! k)" if "j < k" "k < length xs" "snd (xs ! j)" for j k
    using lt[OF that(1,2)] that(3) by simp
  ultimately show ?thesis by (simp add: N_def)
qed

text \<open>Two requests with an acknowledgement between them.\<close>

theorem nextMsgSeq_numbers_witness: "map sint (draw_seqs [(1, True), (2, False), (3, True)] example_conn) = [1, 2, 3]"
  using nextMsgSeq_numbers[of example_conn "[(1, True), (2, False), (3, True)]"]
  by (simp add: example_conn_def upt_rec)

text \<open>
  Acknowledgements are neither lost nor repeated nor reordered on their way to the wire: what the
  loop has sent, followed by what it holds, are the identifiers it received. No batch is
  empty or above the batch size, and what it holds stays below it.
\<close>

theorem ackLoop_sends_all:
  assumes "fold (ack_step n) es ([], []) = (buf, sent)"
  shows "concat sent @ buf = ack_ids es \<and> length buf < max 1 n \<and> (\<forall>batch\<in>set sent. batch \<noteq> [] \<and> length batch \<le> max 1 n)"
  using ack_steps[OF assms] by simp

theorem ackLoop_sends_all_witness:
  "concat [[1, 2], [3 :: 64 word]] @ [] = ack_ids [AckTick, AckID 1, AckID 2, AckID 3, AckTick]"
  using ackLoop_sends_all[of 2 "[AckTick, AckID 1, AckID 2, AckID 3, AckTick]" "[]" "[[1, 2], [3]]"]
  by (simp add: ack_step_def)

text \<open>
  A request refused for its salt is repeated once, under the same identifier and sequence number, and
  what is written from then on carries the salt of the server and not a stored one. For
  every other error the request is not repeated and the salts are left alone.
\<close>

theorem Invoke_new_salt:
  assumes "first = Some err"
  shows "case Invoke now first second c of (r, reqs, c') \<Rightarrow>
      (case root_error err of
         BadMessageError code newSalt \<Rightarrow>
           if code = 48 then r = second \<and> reqs = [fst (nextMsgSeq now True c), fst (nextMsgSeq now True c)]
               \<and> fst (session ev c') = (c_sessionID c, newSalt)
           else r = Some (Wrap ''rpcDoRequest'' err) \<and> reqs = [fst (nextMsgSeq now True c)] \<and> c_salt c' = c_salt c \<and> c_salts c' = c_salts c
       | _ \<Rightarrow> r = Some (Wrap ''rpcDoRequest'' err) \<and> reqs = [fst (nextMsgSeq now True c)] \<and> c_salt c' = c_salt c \<and> c_salts c' = c_salts c)"
proof -
  obtain q c1 where n: "nextMsgSeq now True c = (q, c1)" by fastforce
  then have k: "c_salt c1 = c_salt c" "c_salts c1 = c_salts c" "c_sessionID c1 = c_sessionID c"
    by (auto simp: nextMsgSeq_def Let_def split: prod.splits)
  have s: "fst (session ev ((storeSalt x c1)\<lparr>c_salts := Salts_Reset y\<rparr>)) = (c_sessionID c, x)" for x y
    using k by (simp add: session_def updateSalt_def Salts_Reset_def Salts_Get_eq storeSalt_def Let_def)
  show ?thesis using n k s assms
    by (cases "root_error err") (simp_all add: Invoke_def codeIncorrectServerSalt_def)
qed

theorem Invoke_new_salt_witness:
  "fst (session example_env (snd (snd (Invoke 5 (Some (BadMessageError 48 77)) None example_conn)))) = (5, 77)"
  using Invoke_new_salt[where err = "BadMessageError 48 77" and now = 5 and second = None and c = example_conn and ev = example_env]
  by (simp add: example_conn_def split: prod.splits)

end
