(* ===== verification/Sha.thy ===== *)
theory Sha
  imports Go_Prelude
begin

text \<open>
  The hash functions of the standard library that the protocol uses, \<open>crypto/sha1\<close> and
  \<open>crypto/sha256\<close>, from their definition in FIPS 180-4: padding, message schedule and
  compression over 32-bit words. What the development uses of them is that they are
  functions of the bytes with results of 20 and 32 bytes.
\<close>

unbundle bit_operations_syntax

section \<open>Big-endian words and padding\<close>

definition be_word32 :: "bytes \<Rightarrow> 32 word" where
  "be_word32 bs = foldl (\<lambda>w b. push_bit 8 w OR ucast b) 0 bs"

definition be_bytes32 :: "32 word \<Rightarrow> bytes" where
  "be_bytes32 w = [ucast (drop_bit 24 w), ucast (drop_bit 16 w), ucast (drop_bit 8 w), ucast w]"

definition be_bytes64 :: "64 word \<Rightarrow> bytes" where
  "be_bytes64 w = be_bytes32 (ucast (drop_bit 32 w)) @ be_bytes32 (ucast w)"

text \<open>The one bit, zeros up to 8 bytes short of a block, and the length in bits.\<close>

definition sha_pad :: "bytes \<Rightarrow> bytes" where
  "sha_pad m = m @ 0x80 # replicate ((119 - length m mod 64) mod 64) 0 @ be_bytes64 (word_of_nat (8 * length m))"

primrec chunks :: "nat \<Rightarrow> nat \<Rightarrow> 'a list \<Rightarrow> 'a list list" where
  "chunks k 0 xs = []"
| "chunks k (Suc n) xs = take k xs # chunks k n (drop k xs)"

definition block_words :: "bytes \<Rightarrow> 32 word list" where
  "block_words block = map be_word32 (chunks 4 16 block)"

definition rotl :: "nat \<Rightarrow> 32 word \<Rightarrow> 32 word" where
  "rotl n w = push_bit n w OR drop_bit (32 - n) w"

definition rotr :: "nat \<Rightarrow> 32 word \<Rightarrow> 32 word" where
  "rotr n w = drop_bit n w OR push_bit (32 - n) w"

definition sha_ch :: "32 word \<Rightarrow> 32 word \<Rightarrow> 32 word \<Rightarrow> 32 word" where
  "sha_ch x y z = (x AND y) XOR (NOT x AND z)"

definition sha_maj :: "32 word \<Rightarrow> 32 word \<Rightarrow> 32 word \<Rightarrow> 32 word" where
  "sha_maj x y z = (x AND y) XOR (x AND z) XOR (y AND z)"

section \<open>SHA-1\<close>

primrec sha1_schedule :: "nat \<Rightarrow> 32 word list \<Rightarrow> 32 word list" where
  "sha1_schedule 0 ws = ws"
| "sha1_schedule (Suc n) ws =
     (let t = length ws in
      sha1_schedule n (ws @ [rotl 1 (ws ! (t - 3) XOR ws ! (t - 8) XOR ws ! (t - 14) XOR ws ! (t - 16))]))"

type_synonym sha1_state = "32 word \<times> 32 word \<times> 32 word \<times> 32 word \<times> 32 word"

definition sha1_round :: "nat \<times> 32 word \<Rightarrow> sha1_state \<Rightarrow> sha1_state" where
  "sha1_round tw s =
     (case (tw, s) of ((t, w), (a, b, c, d, e)) \<Rightarrow>
      let (f, k) = (if t < 20 then (sha_ch b c d, 0x5a827999)
                    else if t < 40 then (b XOR c XOR d, 0x6ed9eba1)
                    else if t < 60 then (sha_maj b c d, 0x8f1bbcdc)
                    else (b XOR c XOR d, 0xca62c1d6))
      in (rotl 5 a + f + e + k + w, a, rotl 30 b, c, d))"

definition sha1_block :: "sha1_state \<Rightarrow> bytes \<Rightarrow> sha1_state" where
  "sha1_block h block =
     (case h of (h0, h1, h2, h3, h4) \<Rightarrow>
      case fold sha1_round (zip [0..<80] (sha1_schedule 64 (block_words block))) h of
        (a, b, c, d, e) \<Rightarrow> (h0 + a, h1 + b, h2 + c, h3 + d, h4 + e))"

definition sha1 :: "bytes \<Rightarrow> bytes" where
  "sha1 m =
     (let p = sha_pad m in
      case foldl sha1_block (0x67452301, 0xefcdab89, 0x98badcfe, 0x10325476, 0xc3d2e1f0) (chunks 64 (length p div 64) p) of
        (a, b, c, d, e) \<Rightarrow> concat (map be_bytes32 [a, b, c, d, e]))"

section \<open>SHA-256\<close>

definition sha256_k :: "32 word list" where
  "sha256_k =
    [1116352408, 1899447441, 3049323471, 3921009573, 961987163, 1508970993, 2453635748, 2870763221,
     3624381080, 310598401, 607225278, 1426881987, 1925078388, 2162078206, 2614888103, 3248222580,
     3835390401, 4022224774, 264347078, 604807628, 770255983, 1249150122, 1555081692, 1996064986,
     2554220882, 2821834349, 2952996808, 3210313671, 3336571891, 3584528711, 113926993, 338241895,
     666307205, 773529912, 1294757372, 1396182291, 1695183700, 1986661051, 2177026350, 2456956037,
     2730485921, 2820302411, 3259730800, 3345764771, 3516065817, 3600352804, 4094571909, 275423344,
     430227734, 506948616, 659060556, 883997877, 958139571, 1322822218, 1537002063, 1747873779,
     1955562222, 2024104815, 2227730452, 2361852424, 2428436474, 2756734187, 3204031479, 3329325298]"

primrec sha256_schedule :: "nat \<Rightarrow> 32 word list \<Rightarrow> 32 word list" where
  "sha256_schedule 0 ws = ws"
| "sha256_schedule (Suc n) ws =
     (let t = length ws; x = ws ! (t - 2); y = ws ! (t - 15) in
      sha256_schedule n (ws @ [(rotr 17 x XOR rotr 19 x XOR drop_bit 10 x) + ws ! (t - 7)
        + (rotr 7 y XOR rotr 18 y XOR drop_bit 3 y) + ws ! (t - 16)]))"

type_synonym sha256_state =
  "32 word \<times> 32 word \<times> 32 word \<times> 32 word \<times> 32 word \<times> 32 word \<times> 32 word \<times> 32 word"

definition sha256_round :: "32 word \<times> 32 word \<Rightarrow> sha256_state \<Rightarrow> sha256_state" where
  "sha256_round kw s =
     (case (kw, s) of ((k, w), (a, b, c, d, e, f, g, h)) \<Rightarrow>
      let t1 = h + (rotr 6 e XOR rotr 11 e XOR rotr 25 e) + sha_ch e f g + k + w;
          t2 = (rotr 2 a XOR rotr 13 a XOR rotr 22 a) + sha_maj a b c
      in (t1 + t2, a, b, c, d + t1, e, f, g))"

definition sha256_block :: "sha256_state \<Rightarrow> bytes \<Rightarrow> sha256_state" where
  "sha256_block s block =
     (case s of (h0, h1, h2, h3, h4, h5, h6, h7) \<Rightarrow>
      case fold sha256_round (zip sha256_k (sha256_schedule 48 (block_words block))) s of
        (a, b, c, d, e, f, g, h) \<Rightarrow> (h0 + a, h1 + b, h2 + c, h3 + d, h4 + e, h5 + f, h6 + g, h7 + h))"

definition sha256 :: "bytes \<Rightarrow> bytes" where
  "sha256 m =
     (let p = sha_pad m in
      case foldl sha256_block (0x6a09e667, 0xbb67ae85, 0x3c6ef372, 0xa54ff53a, 0x510e527f, 0x9b05688c, 0x1f83d9ab, 0x5be0cd19)
             (chunks 64 (length p div 64) p) of
        (a, b, c, d, e, f, g, h) \<Rightarrow> concat (map be_bytes32 [a, b, c, d, e, f, g, h]))"

section \<open>Lemmas\<close>

lemma length_be_bytes32 [simp]: "length (be_bytes32 w) = 4"
  by (simp add: be_bytes32_def)

lemma length_be_bytes64 [simp]: "length (be_bytes64 w) = 8"
  by (simp add: be_bytes64_def)

lemma length_sha1 [simp]: "length (sha1 m) = 20"
  by (simp add: sha1_def Let_def split: prod.splits)

lemma length_sha256 [simp]: "length (sha256 m) = 32"
  by (simp add: sha256_def Let_def split: prod.splits)

lemma length_chunks [simp]: "length (chunks k n xs) = n"
  by (induction n arbitrary: xs) simp_all

lemma concat_chunks: "length xs = k * n \<Longrightarrow> concat (chunks k n xs) = xs"
  by (induction n arbitrary: xs) simp_all

text \<open>The padded message is whole blocks, so that the compression sees every byte of it.\<close>

lemma sha_pad_blocks: "64 dvd length (sha_pad m)"
proof -
  define r where "r = length m mod 64"
  have "r < 64" by (simp add: r_def)
  have z: "(119 - r) mod 64 = (if r \<le> 55 then 55 - r else 119 - r)"
  proof (cases "r \<le> 55")
    case True
    then have "119 - r = 64 + (55 - r)" by simp
    then show ?thesis using True by (simp only: mod_add_self1) simp
  qed simp
  have "length m = 64 * (length m div 64) + r" by (simp add: r_def)
  then have "length (sha_pad m) = 64 * (length m div 64 + (if r \<le> 55 then 1 else 2))"
    using z \<open>r < 64\<close> by (simp add: sha_pad_def r_def[symmetric]) arith
  then show ?thesis by (rule dvdI)
qed

lemma sha_pad_chunks: "concat (chunks 64 (length (sha_pad m) div 64) (sha_pad m)) = sha_pad m"
  using sha_pad_blocks[of m] by (intro concat_chunks) simp

end
