(* ===== verification/Cipher.thy ===== *)
theory Cipher
  imports Sha Bin
begin

text \<open>
  Package \<open>crypto\<close>, message encryption: authorization keys (\<open>key.go\<close>), the derivation of
  message keys and AES parameters (\<open>keys.go\<close>, \<open>keys_old.go\<close>, \<open>kdf_v1.go\<close>), the two layers of
  a message (\<open>encrypted_message.go\<close>, \<open>encrypted_message_data.go\<close>), \<open>Cipher\<close> itself
  (\<open>cipher.go\<close>, \<open>cipher_encrypt.go\<close>, \<open>cipher_decrypt.go\<close>), the binding message (\<open>bind.go\<close>) and
  the helpers over a random source (\<open>rand.go\<close>, \<open>session_id.go\<close>, \<open>salt.go\<close>). The module
  \<open>github.com/gotd/ige\<close> is not part of the repository: its encryption and decryption with
  AES under a key and an IV, and \<open>xor.Bytes\<close> of \<open>github.com/go-faster/xor\<close>, are the record
  \<open>cipher_lib\<close>. A random source is the list of bytes it gives.
\<close>

unbundle bit_operations_syntax

section \<open>The cipher library\<close>

record cipher_lib =
  ige_encrypt :: "bytes \<Rightarrow> bytes \<Rightarrow> bytes \<Rightarrow> bytes"
  ige_decrypt :: "bytes \<Rightarrow> bytes \<Rightarrow> bytes \<Rightarrow> bytes"
  xor_bytes :: "bytes \<Rightarrow> bytes \<Rightarrow> bytes"

text \<open>
  What is documented: on whole blocks, with a 32-byte key and a 32-byte IV, decryption
  inverts encryption and both keep the length; \<open>xor.Bytes\<close> is bytewise.
\<close>

definition ige_inverts :: "cipher_lib \<Rightarrow> bool" where
  "ige_inverts lib \<longleftrightarrow> (\<forall>key iv d. length key = 32 \<and> length iv = 32 \<and> 16 dvd length d \<longrightarrow>
     ige_decrypt lib key iv (ige_encrypt lib key iv d) = d
     \<and> length (ige_encrypt lib key iv d) = length d \<and> length (ige_decrypt lib key iv d) = length d)"

definition xor_bytewise :: "cipher_lib \<Rightarrow> bool" where
  "xor_bytewise lib \<longleftrightarrow> (\<forall>a b. length a = length b \<longrightarrow> xor_bytes lib a b = map2 (XOR) a b)"

section \<open>key.go\<close>

text \<open>A \<open>Key\<close> is 256 bytes; an \<open>AuthKey\<close> caches the identifier.\<close>

type_synonym Key = bytes

record AuthKey =
  AK_Value :: Key
  AK_ID :: bytes

definition Key_Zero :: "Key \<Rightarrow> bool" where
  "Key_Zero k \<longleftrightarrow> k = replicate 256 0"

definition Key_ID :: "Key \<Rightarrow> bytes" where
  "Key_ID k = take 8 (drop 12 (sha1 k))"

definition Key_AuxHash :: "Key \<Rightarrow> bytes" where
  "Key_AuxHash k = take 8 (sha1 k)"

definition Key_WithID :: "Key \<Rightarrow> AuthKey" where
  "Key_WithID k = \<lparr>AK_Value = k, AK_ID = Key_ID k\<rparr>"

definition AuthKey_Zero :: "AuthKey \<Rightarrow> bool" where
  "AuthKey_Zero a \<longleftrightarrow> a = \<lparr>AK_Value = replicate 256 0, AK_ID = replicate 8 0\<rparr>"

definition IntID :: "AuthKey \<Rightarrow> 64 word" where
  "IntID a = le_word (AK_ID a)"

definition SetIntID :: "64 word \<Rightarrow> AuthKey \<Rightarrow> AuthKey" where
  "SetIntID v a = a\<lparr>AK_ID := le_bytes 8 v\<rparr>"

section \<open>keys.go\<close>

type_synonym Side = "8 word"

definition Client :: Side where "Client = 0"
definition Server :: Side where "Server = 1"

definition DecryptSide :: "Side \<Rightarrow> Side" where
  "DecryptSide s = s XOR 1"

definition getX :: "Side \<Rightarrow> nat" where
  "getX mode = (if mode = Client then 0 else if mode = Server then 8 else 0)"

text \<open>The slice \<open>b[from:to]\<close>.\<close>

definition go_slice :: "nat \<Rightarrow> nat \<Rightarrow> bytes \<Rightarrow> bytes" where
  "go_slice from til b = take (til - from) (drop from b)"

definition msgKeyLarge :: "Key \<Rightarrow> bytes \<Rightarrow> Side \<Rightarrow> bytes" where
  "msgKeyLarge authKey plaintextPadded mode =
     (let x = getX mode in sha256 (go_slice (88 + x) (32 + 88 + x) authKey @ plaintextPadded))"

definition messageKey :: "bytes \<Rightarrow> bytes" where
  "messageKey messageKeyLarge = go_slice 8 (16 + 8) messageKeyLarge"

definition sha256a :: "Key \<Rightarrow> bytes \<Rightarrow> nat \<Rightarrow> bytes" where
  "sha256a authKey msgKey x = sha256 (msgKey @ go_slice x (x + 36) authKey)"

definition sha256b :: "Key \<Rightarrow> bytes \<Rightarrow> nat \<Rightarrow> bytes" where
  "sha256b authKey msgKey x = sha256 (go_slice (40 + x) (40 + x + 36) authKey @ msgKey)"

text \<open>\<open>copy(v[i:], src)\<close> into an array of 32 bytes.\<close>

definition copy_at :: "nat \<Rightarrow> bytes \<Rightarrow> bytes \<Rightarrow> bytes" where
  "copy_at i src v = take i v @ go_copy (drop i v) src"

definition aesKey :: "bytes \<Rightarrow> bytes \<Rightarrow> bytes" where
  "aesKey a b =
     copy_at 24 (go_slice 24 (24 + 8) a)
       (copy_at 8 (go_slice 8 (16 + 8) b)
         (go_copy (take 8 (replicate 32 0)) (go_slice 0 8 a) @ drop 8 (replicate 32 0)))"

definition aesIV :: "bytes \<Rightarrow> bytes \<Rightarrow> bytes" where
  "aesIV a b = aesKey b a"

definition Keys :: "Key \<Rightarrow> bytes \<Rightarrow> Side \<Rightarrow> bytes \<times> bytes" where
  "Keys authKey msgKey mode =
     (let x = getX mode; a = sha256a authKey msgKey x; b = sha256b authKey msgKey x in (aesKey a b, aesIV a b))"

definition MessageKey :: "Key \<Rightarrow> bytes \<Rightarrow> Side \<Rightarrow> bytes" where
  "MessageKey authKey plaintextPadded mode = messageKey (msgKeyLarge authKey plaintextPadded mode)"

section \<open>keys\_old.go, kdf\_v1.go\<close>

definition sha1a :: "Key \<Rightarrow> bytes \<Rightarrow> nat \<Rightarrow> bytes" where
  "sha1a authKey msgKey x = sha1 (msgKey @ go_slice x (x + 32) authKey)"

definition sha1b :: "Key \<Rightarrow> bytes \<Rightarrow> nat \<Rightarrow> bytes" where
  "sha1b authKey msgKey x =
     sha1 (go_slice (32 + x) (32 + x + 16) authKey @ msgKey @ go_slice (48 + x) (48 + x + 16) authKey)"

definition sha1c :: "Key \<Rightarrow> bytes \<Rightarrow> nat \<Rightarrow> bytes" where
  "sha1c authKey msgKey x = sha1 (go_slice (64 + x) (64 + x + 32) authKey @ msgKey)"

definition sha1d :: "Key \<Rightarrow> bytes \<Rightarrow> nat \<Rightarrow> bytes" where
  "sha1d authKey msgKey x = sha1 (msgKey @ go_slice (96 + x) (96 + x + 32) authKey)"

text \<open>The copies of \<open>OldKeys\<close> and \<open>KeysV1\<close> follow one another: \<open>n\<close> is where the next one starts.\<close>

definition OldKeys :: "Key \<Rightarrow> bytes \<Rightarrow> Side \<Rightarrow> bytes \<times> bytes" where
  "OldKeys authKey msgKey mode =
     (let x = getX mode;
          a = sha1a authKey msgKey x; b = sha1b authKey msgKey x;
          c = sha1c authKey msgKey x; d = sha1d authKey msgKey x in
      (go_copy (replicate 32 0) (go_slice 0 8 a @ go_slice 8 (8 + 12) b @ go_slice 4 (4 + 12) c),
       go_copy (replicate 32 0) (go_slice 8 (8 + 12) a @ go_slice 0 8 b @ go_slice 16 (16 + 4) c @ go_slice 0 8 d)))"

definition MessageKeyV1 :: "bytes \<Rightarrow> bytes" where
  "MessageKeyV1 plaintext = go_slice 4 20 (sha1 plaintext)"

definition KeysV1 :: "Key \<Rightarrow> bytes \<Rightarrow> bytes \<times> bytes" where
  "KeysV1 authKey msgKey =
     (let a = sha1a authKey msgKey 0; b = sha1b authKey msgKey 0;
          c = sha1c authKey msgKey 0; d = sha1d authKey msgKey 0 in
      (go_copy (replicate 32 0) (go_slice 0 8 a @ go_slice 8 20 b @ go_slice 4 16 c),
       go_copy (replicate 32 0) (go_slice 8 20 a @ go_slice 0 8 b @ go_slice 16 20 c @ go_slice 0 8 d)))"

section \<open>encrypted\_message.go\<close>

record EncryptedMessage =
  EM_AuthKeyID :: bytes
  EM_MsgKey :: bytes
  EncryptedData :: bytes

text \<open>
  \<open>Decode\<close> and \<open>DecodeWithoutCopy\<close> take the rest of the buffer as the data; the first also
  consumes it, the second leaves it in the buffer.
\<close>

definition EncryptedMessage_Decode :: "EncryptedMessage dec" where
  "EncryptedMessage_Decode =
     dec_bind (Buffer_ConsumeN (replicate 8 0) 8) (\<lambda>i.
     dec_bind Buffer_Int128 (\<lambda>v b.
     dec_bind (Buffer_ConsumeN (replicate (length b) 0) (int (length b)))
       (\<lambda>d. dec_return \<lparr>EM_AuthKeyID = i, EM_MsgKey = v, EncryptedData = d\<rparr>) b))"

definition EncryptedMessage_DecodeWithoutCopy :: "EncryptedMessage dec" where
  "EncryptedMessage_DecodeWithoutCopy =
     dec_bind (Buffer_ConsumeN (replicate 8 0) 8) (\<lambda>i.
     dec_bind Buffer_Int128 (\<lambda>v b. (Inr \<lparr>EM_AuthKeyID = i, EM_MsgKey = v, EncryptedData = b\<rparr>, b)))"

definition EncryptedMessage_Encode :: "EncryptedMessage \<Rightarrow> buffer \<Rightarrow> buffer" where
  "EncryptedMessage_Encode e b = Buffer_Put (EncryptedData e) (Buffer_PutInt128 (EM_MsgKey e) (Buffer_Put (EM_AuthKeyID e) b))"

section \<open>encrypted\_message\_data.go\<close>

text \<open>A \<open>bin.Encoder\<close> appends to the buffer or fails.\<close>

type_synonym encoder = "buffer \<Rightarrow> go_error option \<times> buffer"

record EncryptedMessageData =
  EMD_Salt :: "64 word"
  EMD_SessionID :: "64 word"
  EMD_MessageID :: "64 word"
  EMD_SeqNo :: "32 word"
  MessageDataLen :: "32 word"
  MessageDataWithPadding :: bytes
  EMD_Message :: "encoder option"

definition EncryptedMessageData_Encode :: "EncryptedMessageData \<Rightarrow> buffer \<Rightarrow> buffer" where
  "EncryptedMessageData_Encode e b =
     Buffer_Put (MessageDataWithPadding e) (Buffer_PutInt32 (MessageDataLen e) (Buffer_PutInt32 (EMD_SeqNo e)
       (Buffer_PutLong (EMD_MessageID e) (Buffer_PutLong (EMD_SessionID e) (Buffer_PutLong (EMD_Salt e) b)))))"

text \<open>
  \<open>EncodeWithoutCopy\<close> writes a zero length, the message, and then the length over the zero:
  the buffer built over \<open>b.Buf[lengthOffset:lengthOffset]\<close> shares the array.
\<close>

definition EncryptedMessageData_EncodeWithoutCopy :: "EncryptedMessageData \<Rightarrow> buffer \<Rightarrow> go_error option \<times> buffer" where
  "EncryptedMessageData_EncodeWithoutCopy e b =
     (case EMD_Message e of
        None \<Rightarrow> (None, EncryptedMessageData_Encode e b)
      | Some message \<Rightarrow>
         (let b = Buffer_PutInt32 (EMD_SeqNo e) (Buffer_PutLong (EMD_MessageID e) (Buffer_PutLong (EMD_SessionID e) (Buffer_PutLong (EMD_Salt e) b)));
              lengthOffset = length b;
              b = Buffer_PutInt32 0 b;
              originalLength = length b
          in case message b of
               (Some err, b) \<Rightarrow> (Some (Wrap ''encode inner message'' err), b)
             | (None, b) \<Rightarrow>
                let msgLen = int (length b) - int originalLength in
                (None, take lengthOffset b @ Buffer_PutInt msgLen [] @ drop (lengthOffset + Word) b)))"

definition EncryptedMessageData_Decode :: "EncryptedMessageData dec" where
  "EncryptedMessageData_Decode =
     dec_bind Buffer_Long (\<lambda>salt. dec_bind Buffer_Long (\<lambda>sid. dec_bind Buffer_Long (\<lambda>mid.
     dec_bind Buffer_Int32 (\<lambda>sq. dec_bind Buffer_Int32 (\<lambda>n b.
       if sint n > int (length b) then
         (Inl (Errorf ''MessageDataLen field is bigger then MessageDataWithPadding length (%d > %d)'' [sint n, int (length b)]), b)
       else (Inr \<lparr>EMD_Salt = salt, EMD_SessionID = sid, EMD_MessageID = mid, EMD_SeqNo = sq, MessageDataLen = n,
               MessageDataWithPadding = b, EMD_Message = None\<rparr>, b))))))"

text \<open>\<open>DecodeWithoutCopy\<close> shares the array of the buffer, which no caller writes to afterwards.\<close>

definition EncryptedMessageData_DecodeWithoutCopy :: "EncryptedMessageData dec" where
  "EncryptedMessageData_DecodeWithoutCopy =
     dec_bind Buffer_Long (\<lambda>salt. dec_bind Buffer_Long (\<lambda>sid. dec_bind Buffer_Long (\<lambda>mid.
     dec_bind Buffer_Int32 (\<lambda>sq. dec_bind Buffer_Int32 (\<lambda>n b.
       if sint n > int (length b) then
         (Inl (Errorf ''MessageDataLen field is bigger then MessageDataWithPadding length (%d > %d)'' [sint n, int (length b)]), b)
       else (Inr \<lparr>EMD_Salt = salt, EMD_SessionID = sid, EMD_MessageID = mid, EMD_SeqNo = sq, MessageDataLen = n,
               MessageDataWithPadding = b, EMD_Message = None\<rparr>, b))))))"

text \<open>\<open>Data()\<close> is a slice expression: it panics when the length is out of range.\<close>

definition EncryptedMessageData_Data :: "EncryptedMessageData \<Rightarrow> go_error + bytes" where
  "EncryptedMessageData_Data e =
     (let n = sint (MessageDataLen e) in
      if 0 \<le> n \<and> n \<le> int (length (MessageDataWithPadding e)) then Inr (take (nat n) (MessageDataWithPadding e))
      else Inl (GoPanic ''slice bounds out of range''))"

section \<open>cipher\_encrypt.go\<close>

definition countPadding :: "nat \<Rightarrow> 8 word \<Rightarrow> nat" where
  "countPadding l randByte =
     (let padding = (16 - (l mod 16)) mod 16;
          padding = (if padding < 12 then padding + 16 else padding)
      in padding + unat (randByte AND 0x0F) * 16)"

text \<open>
  \<open>aes.NewCipher\<close> accepts keys of 16, 24 and 32 bytes. The source of random bytes is
  returned as it is left.
\<close>

definition aes_NewCipher :: "bytes \<Rightarrow> go_error option" where
  "aes_NewCipher key =
     (if length key = 16 \<or> length key = 24 \<or> length key = 32 then None
      else Some (Errorf ''crypto/aes: invalid key size %d'' [int (length key)]))"

definition encryptMessage ::
  "cipher_lib \<Rightarrow> Side \<Rightarrow> AuthKey \<Rightarrow> bytes \<Rightarrow> buffer \<Rightarrow> (go_error + EncryptedMessage) \<times> bytes" where
  "encryptMessage lib side k rand plaintext =
     (let offset = length plaintext in
      case io_ReadFull 1 rand of
        (_, Some err, rand) \<Rightarrow> (Inl err, rand)
      | (randByte, None, rand) \<Rightarrow>
         (case io_ReadFull (countPadding offset (randByte ! 0)) rand of
            (_, Some err, rand) \<Rightarrow> (Inl err, rand)
          | (padding, None, rand) \<Rightarrow>
             let plaintext = plaintext @ padding;
                 msgKey = MessageKey (AK_Value k) plaintext side;
                 (key, iv) = Keys (AK_Value k) msgKey side
             in case aes_NewCipher key of
                  Some err \<Rightarrow> (Inl err, rand)
                | None \<Rightarrow> (Inr \<lparr>EM_AuthKeyID = AK_ID k, EM_MsgKey = msgKey, EncryptedData = ige_encrypt lib key iv plaintext\<rparr>, rand)))"

text \<open>
  \<open>Encrypt\<close>: the error or the contents of the buffer, and the random source afterwards. What
  the buffer holds after an error is not used by the callers.
\<close>

definition Cipher_Encrypt ::
  "cipher_lib \<Rightarrow> Side \<Rightarrow> AuthKey \<Rightarrow> EncryptedMessageData \<Rightarrow> bytes \<Rightarrow> (go_error + buffer) \<times> bytes" where
  "Cipher_Encrypt lib side k d rand =
     (case EncryptedMessageData_EncodeWithoutCopy d [] of
        (Some err, b) \<Rightarrow> (Inl err, rand)
      | (None, b) \<Rightarrow>
         (case encryptMessage lib side k rand b of
            (Inl err, rand) \<Rightarrow> (Inl err, rand)
          | (Inr msg, rand) \<Rightarrow> (Inr (EncryptedMessage_Encode msg []), rand)))"

section \<open>cipher\_decrypt.go\<close>

definition decryptMessage_ige :: "cipher_lib \<Rightarrow> Side \<Rightarrow> AuthKey \<Rightarrow> EncryptedMessage \<Rightarrow> go_error + bytes" where
  "decryptMessage_ige lib encryptSide k encrypted =
     (if AK_ID k \<noteq> EM_AuthKeyID encrypted then Inl (Errorf ''unknown auth key id'' [])
      else if length (EncryptedData encrypted) mod 16 \<noteq> 0 then Inl (Errorf ''invalid encrypted data padding'' [])
      else let (key, iv) = Keys (AK_Value k) (EM_MsgKey encrypted) (DecryptSide encryptSide) in
           Inr (ige_decrypt lib key iv (EncryptedData encrypted)))"

definition maxPadding :: int where "maxPadding = 1024"

definition Cipher_Decrypt :: "cipher_lib \<Rightarrow> Side \<Rightarrow> AuthKey \<Rightarrow> EncryptedMessage \<Rightarrow> go_error + EncryptedMessageData" where
  "Cipher_Decrypt lib encryptSide k encrypted =
     (case decryptMessage_ige lib encryptSide k encrypted of
        Inl err \<Rightarrow> Inl err
      | Inr plaintext \<Rightarrow>
         if MessageKey (AK_Value k) plaintext (DecryptSide encryptSide) \<noteq> EM_MsgKey encrypted then Inl (Errorf ''msg_key is invalid'' [])
         else
           (case EncryptedMessageData_DecodeWithoutCopy plaintext of
              (Inl err, _) \<Rightarrow> Inl err
            | (Inr msg, _) \<Rightarrow>
               let n = sint (MessageDataLen msg);
                   paddingLen = int (length (MessageDataWithPadding msg)) - n
               in if n < 0 then Inl (Errorf ''message length is invalid: %d less than zero'' [n])
                  else if n smod 4 \<noteq> 0 then Inl (Errorf ''message length is invalid: %d is not divisible by 4'' [n])
                  else if paddingLen > maxPadding then Inl (Errorf ''padding %d of message is too big'' [paddingLen])
                  else Inr msg))"

definition DecryptFromBuffer :: "cipher_lib \<Rightarrow> Side \<Rightarrow> AuthKey \<Rightarrow> buffer \<Rightarrow> go_error + EncryptedMessageData" where
  "DecryptFromBuffer lib encryptSide k buf =
     (case EncryptedMessage_DecodeWithoutCopy buf of
        (Inl err, _) \<Rightarrow> Inl err
      | (Inr msg, _) \<Rightarrow> Cipher_Decrypt lib encryptSide k msg)"

section \<open>rand.go, session\_id.go, salt.go\<close>

definition RandInt64 :: "bytes \<Rightarrow> (go_error + 64 word) \<times> bytes" where
  "RandInt64 rand =
     (case io_ReadFull (Word * 2) rand of
        (_, Some err, rand) \<Rightarrow> (Inl err, rand)
      | (buf, None, rand) \<Rightarrow> (fst (Buffer_Long buf), rand))"

text \<open>Both operations wrap and truncate as on \<open>int64\<close>.\<close>

definition RandInt64n :: "bytes \<Rightarrow> 64 word \<Rightarrow> (go_error + 64 word) \<times> bytes" where
  "RandInt64n rand n =
     (case RandInt64 rand of
        (Inl err, rand) \<Rightarrow> (Inl err, rand)
      | (Inr v, rand) \<Rightarrow>
         let v = (if sint v < 0 then v * (- 1) else v) in
         (if n = 0 then Inl (GoPanic ''integer divide by zero'') else Inr (word_of_int (sint v smod sint n)), rand))"

definition RandInt128 :: "bytes \<Rightarrow> (go_error + bytes) \<times> bytes" where
  "RandInt128 rand =
     (case io_ReadFull (Word * 4) rand of
        (_, Some err, rand) \<Rightarrow> (Inl err, rand)
      | (buf, None, rand) \<Rightarrow> (fst (Buffer_Int128 buf), rand))"

definition RandInt256 :: "bytes \<Rightarrow> (go_error + bytes) \<times> bytes" where
  "RandInt256 rand =
     (case io_ReadFull (Word * 8) rand of
        (_, Some err, rand) \<Rightarrow> (Inl err, rand)
      | (buf, None, rand) \<Rightarrow> (fst (Buffer_Int256 buf), rand))"

definition NewSessionID :: "bytes \<Rightarrow> (go_error + 64 word) \<times> bytes" where
  "NewSessionID reader =
     (case io_ReadFull 8 reader of
        (_, Some err, reader) \<Rightarrow> (Inl err, reader)
      | (b, None, reader) \<Rightarrow> (Inr (le_word b), reader))"

definition ServerSalt_of :: "cipher_lib \<Rightarrow> bytes \<Rightarrow> bytes \<Rightarrow> 64 word" where
  "ServerSalt_of lib newNonce serverNonce = le_word (xor_bytes lib (go_slice 0 8 newNonce) (go_slice 0 8 serverNonce))"

section \<open>bind.go\<close>

definition BindAuthKeyInnerTypeID :: "32 word" where "BindAuthKeyInnerTypeID = 0x75a3f765"

record BindAuthKeyInner =
  BK_Nonce :: "64 word"
  TempAuthKeyID :: "64 word"
  PermAuthKeyID :: "64 word"
  TempSessionID :: "64 word"
  ExpiresAt :: int

definition BindAuthKeyInner_Encode :: "BindAuthKeyInner \<Rightarrow> buffer \<Rightarrow> buffer" where
  "BindAuthKeyInner_Encode m b =
     Buffer_PutInt (ExpiresAt m) (Buffer_PutLong (TempSessionID m) (Buffer_PutLong (PermAuthKeyID m)
       (Buffer_PutLong (TempAuthKeyID m) (Buffer_PutLong (BK_Nonce m) (Buffer_PutID BindAuthKeyInnerTypeID b)))))"

definition BindAuthKeyInner_Decode :: "BindAuthKeyInner dec" where
  "BindAuthKeyInner_Decode =
     dec_bind (dec_wrap ''unable to decode bind_auth_key_inner#75a3f765'' (Buffer_ConsumeID BindAuthKeyInnerTypeID)) (\<lambda>_.
     dec_bind (dec_wrap ''unable to decode bind_auth_key_inner#75a3f765: field nonce'' Buffer_Long) (\<lambda>n.
     dec_bind (dec_wrap ''unable to decode bind_auth_key_inner#75a3f765: field temp_auth_key_id'' Buffer_Long) (\<lambda>t.
     dec_bind (dec_wrap ''unable to decode bind_auth_key_inner#75a3f765: field perm_auth_key_id'' Buffer_Long) (\<lambda>p.
     dec_bind (dec_wrap ''unable to decode bind_auth_key_inner#75a3f765: field temp_session_id'' Buffer_Long) (\<lambda>s.
     dec_bind (dec_wrap ''unable to decode bind_auth_key_inner#75a3f765: field expires_at'' Buffer_Int) (\<lambda>e.
     dec_return \<lparr>BK_Nonce = n, TempAuthKeyID = t, PermAuthKeyID = p, TempSessionID = s, ExpiresAt = e\<rparr>))))))"

text \<open>
  \<open>inner\<close> is not nil and \<open>rand\<close> is given. The last copy of the buffer is the result.
\<close>

definition EncryptBindMessage ::
  "cipher_lib \<Rightarrow> bytes \<Rightarrow> AuthKey \<Rightarrow> 64 word \<Rightarrow> BindAuthKeyInner \<Rightarrow> (go_error + bytes) \<times> bytes" where
  "EncryptBindMessage lib rand permKey msgID inner =
     (if AuthKey_Zero permKey then (Inl (Errorf ''permanent key is zero'' []), rand)
      else
        let payload = BindAuthKeyInner_Encode inner [] in
        case io_ReadFull 16 rand of
          (_, Some err, rand) \<Rightarrow> (Inl (Wrap ''generate random prefix'' err), rand)
        | (random, None, rand) \<Rightarrow>
           let plaintext = Buffer_Put payload (Buffer_PutInt32 (word_of_int (int (length payload)))
                 (Buffer_PutInt32 0 (Buffer_PutLong msgID (Buffer_Put random []))));
               msgKey = MessageKeyV1 plaintext;
               rem = length plaintext mod 16
           in case (if rem \<noteq> 0 then io_ReadFull (16 - rem) rand else ([], None, rand)) of
                (_, Some err, rand) \<Rightarrow> (Inl (Wrap ''generate random padding'' err), rand)
              | (padding, None, rand) \<Rightarrow>
                 let (key, iv) = KeysV1 (AK_Value permKey) msgKey in
                 (case aes_NewCipher key of
                    Some err \<Rightarrow> (Inl (Wrap ''create aes cipher'' err), rand)
                  | None \<Rightarrow>
                     (Inr (EncryptedMessage_Encode \<lparr>EM_AuthKeyID = AK_ID permKey, EM_MsgKey = msgKey,
                        EncryptedData = ige_encrypt lib key iv (plaintext @ padding)\<rparr> []), rand)))"

section \<open>Lemmas\<close>

lemma length_go_slice [simp]: "length (go_slice i j b) = min (j - i) (length b - i)"
  by (simp add: go_slice_def)

lemma length_go_copy [simp]: "length (go_copy dst src) = length dst"
  by (simp add: go_copy_def)

lemma length_copy_at [simp]: "i \<le> length v \<Longrightarrow> length (copy_at i src v) = length v"
  by (simp add: copy_at_def)

lemma length_aesKey [simp]: "length (aesKey a b) = 32"
  by (simp add: aesKey_def)

lemma length_aesIV [simp]: "length (aesIV a b) = 32"
  by (simp add: aesIV_def)

lemma length_MessageKey [simp]: "length (MessageKey k p s) = 16"
  by (simp add: MessageKey_def messageKey_def msgKeyLarge_def Let_def)

lemma DecryptSide_involutive [simp]: "DecryptSide (DecryptSide s) = s"
  by (simp add: DecryptSide_def xor.assoc)

text \<open>The formulas of the protocol description for AES key and IV.\<close>

lemma aesKey_formula:
  assumes "length a = 32" "length b = 32"
  shows "aesKey a b = go_slice 0 8 a @ go_slice 8 24 b @ go_slice 24 32 a"
  using assms by (simp add: aesKey_def copy_at_def go_copy_def go_slice_def)

lemma countPadding_eq:
  "countPadding l r = (if l mod 16 = 0 then 16 else if l mod 16 \<le> 4 then 16 - l mod 16 else 32 - l mod 16) + 16 * unat (r AND 0x0F)"
proof -
  have "l mod 16 < 16" by simp
  then have "(16 - l mod 16) mod 16 = (if l mod 16 = 0 then 0 else 16 - l mod 16)" by simp
  then show ?thesis by (simp add: countPadding_def Let_def) linarith
qed

lemma unat_low_nibble: "unat ((r :: 8 word) AND 0x0F) \<le> 15"
  using word_and_le1[of r 15] by (simp add: word_le_nat_alt)

lemma countPadding_bounds: "12 \<le> countPadding l r" "countPadding l r \<le> 267" "16 dvd l + countPadding l r"
proof -
  have "l mod 16 < 16" by simp
  then show "12 \<le> countPadding l r" "countPadding l r \<le> 267"
    using unat_low_nibble[of r] by (auto simp: countPadding_eq)
  have "16 dvd l + (if l mod 16 = 0 then 16 else if l mod 16 \<le> 4 then 16 - l mod 16 else 32 - l mod 16)"
    by presburger
  then show "16 dvd l + countPadding l r" by (simp add: countPadding_eq add.assoc[symmetric])
qed

lemma ConsumeN8: "Buffer_ConsumeN (replicate 8 0) 8 b = (if length b < 8 then (Inl ErrUnexpectedEOF, b) else (Inr (take 8 b), drop 8 b))"
  by (auto simp: Buffer_ConsumeN_def Buffer_PeekN_def go_copy_def dec_bind_def)

lemma EncryptedMessage_app:
  assumes "length i = 8" "length k = 16"
  shows "EncryptedMessage_DecodeWithoutCopy (EncryptedMessage_Encode \<lparr>EM_AuthKeyID = i, EM_MsgKey = k, EncryptedData = d\<rparr> []) =
    (Inr \<lparr>EM_AuthKeyID = i, EM_MsgKey = k, EncryptedData = d\<rparr>, d)"
  using assms
  by (simp add: EncryptedMessage_DecodeWithoutCopy_def EncryptedMessage_Encode_def put_defs ConsumeN8 Buffer_Int128_def dec_bind_def)

lemma EncryptedMessage_only:
  assumes "EncryptedMessage_DecodeWithoutCopy b = (Inr m, rest)"
  shows "b = EncryptedMessage_Encode m [] \<and> length (EM_AuthKeyID m) = 8 \<and> length (EM_MsgKey m) = 16"
proof -
  obtain i b1 k where "Buffer_ConsumeN (replicate 8 0) 8 b = (Inr i, b1)" "Buffer_Int128 b1 = (Inr k, rest)"
    "m = \<lparr>EM_AuthKeyID = i, EM_MsgKey = k, EncryptedData = rest\<rparr>"
    using assms by (auto simp: EncryptedMessage_DecodeWithoutCopy_def elim!: dec_bind_InrE)
  moreover from this(1) have "b = i @ b1" "length i = 8" by (auto simp: ConsumeN8 split: if_splits)
  ultimately show ?thesis using f_int128.get_only by (auto simp: EncryptedMessage_Encode_def put_defs)
qed

text \<open>The inner layer: what is decoded is what was encoded, whenever the length field is in range.\<close>

lemma DecodeWithoutCopy_eq [simp]: "EncryptedMessageData_DecodeWithoutCopy = EncryptedMessageData_Decode"
  by (simp add: EncryptedMessageData_DecodeWithoutCopy_def EncryptedMessageData_Decode_def)

lemma EncryptedMessageData_iff:
  "EncryptedMessageData_Decode b = (Inr m, rest) \<longleftrightarrow>
     b = EncryptedMessageData_Encode m [] \<and> rest = MessageDataWithPadding m \<and> EMD_Message m = None
     \<and> sint (MessageDataLen m) \<le> int (length (MessageDataWithPadding m))" (is "?l \<longleftrightarrow> ?r")
proof
  show "?l \<Longrightarrow> ?r"
    by (auto simp: EncryptedMessageData_Decode_def f_long.bind_get_iff f_int32.bind_get_iff
        EncryptedMessageData_Encode_def put_defs split: if_splits)
  show "?r \<Longrightarrow> ?l"
    by (cases m) (simp add: EncryptedMessageData_Decode_def EncryptedMessageData_Encode_def put_defs get_apps dec_simps)
qed

text \<open>An encoder that appends a fixed list of bytes, as every TL encoder does.\<close>

definition appends :: "encoder \<Rightarrow> bytes \<Rightarrow> bool" where
  "appends enc m \<longleftrightarrow> (\<forall>b. enc b = (None, b @ m))"

lemma EncodeWithoutCopy_eq:
  assumes "EMD_Message d = Some enc" "appends enc m"
  shows "EncryptedMessageData_EncodeWithoutCopy d b = (None, b @ EncryptedMessageData_Encode
     (d\<lparr>MessageDataLen := word_of_int (int (length m)), MessageDataWithPadding := m, EMD_Message := None\<rparr>) [])"
  using assms by (simp add: EncryptedMessageData_EncodeWithoutCopy_def EncryptedMessageData_Encode_def appends_def put_defs Let_def Word_def)

lemma Keys_lengths: "Keys k m s = (key, iv) \<Longrightarrow> length key = 32 \<and> length iv = 32"
  by (auto simp: Keys_def Let_def)

lemma encryptMessage_ok:
  assumes "length rand \<ge> 1 + countPadding (length p) (hd rand)"
  shows "\<exists>padding rand' key iv. encryptMessage lib side k rand p =
      (Inr \<lparr>EM_AuthKeyID = AK_ID k, EM_MsgKey = MessageKey (AK_Value k) (p @ padding) side,
            EncryptedData = ige_encrypt lib key iv (p @ padding)\<rparr>, rand')
    \<and> length padding = countPadding (length p) (hd rand) \<and> rand = hd rand # padding @ rand'
    \<and> Keys (AK_Value k) (MessageKey (AK_Value k) (p @ padding) side) side = (key, iv)"
proof -
  obtain r rand1 where r: "rand = [r] @ rand1" using assms by (cases rand) auto
  define padding where "padding = take (countPadding (length p) r) rand1"
  define rand' where "rand' = drop (countPadding (length p) r) rand1"
  have r1: "rand1 = padding @ rand'" by (simp add: padding_def rand'_def)
  have n: "length padding = countPadding (length p) r" using assms r by (simp add: padding_def)
  obtain key iv where ks: "Keys (AK_Value k) (MessageKey (AK_Value k) (p @ padding) side) side = (key, iv)" by fastforce
  then have "aes_NewCipher key = None" using Keys_lengths by (simp add: aes_NewCipher_def)
  moreover have "io_ReadFull 1 rand = ([r], None, rand1)" unfolding r by (rule io_ReadFull_app) simp
  moreover have "io_ReadFull (countPadding (length p) r) rand1 = (padding, None, rand')"
    unfolding r1 by (rule io_ReadFull_app) (simp add: n)
  ultimately show ?thesis using ks n r r1 by (auto simp: encryptMessage_def Let_def)
qed

text \<open>What the message data of \<open>d\<close> are: given directly, or by an encoder that appends them.\<close>

definition carries :: "EncryptedMessageData \<Rightarrow> bytes \<Rightarrow> bool" where
  "carries d m \<longleftrightarrow>
     (case EMD_Message d of
        None \<Rightarrow> MessageDataLen d = word_of_int (int (length m)) \<and> MessageDataWithPadding d = m
      | Some enc \<Rightarrow> appends enc m)"

lemma carries_encode:
  assumes "carries d m"
  shows "EncryptedMessageData_EncodeWithoutCopy d [] = (None, EncryptedMessageData_Encode
     (d\<lparr>MessageDataLen := word_of_int (int (length m)), MessageDataWithPadding := m, EMD_Message := None\<rparr>) [])"
proof (cases "EMD_Message d")
  case None
  then have "d\<lparr>MessageDataLen := word_of_int (int (length m)), MessageDataWithPadding := m, EMD_Message := None\<rparr> = d"
    using assms by (cases d) (simp add: carries_def)
  then show ?thesis using None by (simp add: EncryptedMessageData_EncodeWithoutCopy_def)
next
  case (Some enc)
  then show ?thesis using EncodeWithoutCopy_eq[OF Some, of m "[]"] assms by (simp add: carries_def)
qed

lemma Encrypt_Decrypt:
  assumes "ige_inverts lib" and "length (AK_ID k) = 8" and "length rand \<ge> 268"
    and "carries d m" and "4 dvd length m" and "length m < 2 ^ 31"
  shows "\<exists>out rand' msg. Cipher_Encrypt lib side k d rand = (Inr out, rand')
    \<and> DecryptFromBuffer lib (DecryptSide side) k out = Inr msg
    \<and> EMD_Salt msg = EMD_Salt d \<and> EMD_SessionID msg = EMD_SessionID d \<and> EMD_MessageID msg = EMD_MessageID d
    \<and> EMD_SeqNo msg = EMD_SeqNo d \<and> EncryptedMessageData_Data msg = Inr m"
proof -
  define e where "e = d\<lparr>MessageDataLen := word_of_int (int (length m)), MessageDataWithPadding := m, EMD_Message := None\<rparr>"
  define p where "p = EncryptedMessageData_Encode e []"
  have enc: "EncryptedMessageData_EncodeWithoutCopy d [] = (None, p)"
    using carries_encode[OF assms(4)] by (simp add: p_def e_def)
  have len: "sint (word_of_int (int (length m)) :: 32 word) = int (length m)"
    using assms(6) by (intro sint_word_of_int32) (simp add: is_int32_def)
  obtain padding rand' key iv where em: "encryptMessage lib side k rand p =
      (Inr \<lparr>EM_AuthKeyID = AK_ID k, EM_MsgKey = MessageKey (AK_Value k) (p @ padding) side,
            EncryptedData = ige_encrypt lib key iv (p @ padding)\<rparr>, rand')"
    and pad: "length padding = countPadding (length p) (hd rand)"
    and ks: "Keys (AK_Value k) (MessageKey (AK_Value k) (p @ padding) side) side = (key, iv)"
    using encryptMessage_ok[of p rand lib side k] countPadding_bounds(2)[of "length p" "hd rand"] assms(3) by auto
  have blocks: "16 dvd length (p @ padding)" using countPadding_bounds(3) pad by simp
  then have ige: "ige_decrypt lib key iv (ige_encrypt lib key iv (p @ padding)) = p @ padding"
    "length (ige_encrypt lib key iv (p @ padding)) mod 16 = 0"
    using assms(1) Keys_lengths[OF ks] unfolding ige_inverts_def by auto
  define msg where "msg = e\<lparr>MessageDataWithPadding := m @ padding\<rparr>"
  have "p @ padding = EncryptedMessageData_Encode msg []"
    by (simp add: p_def msg_def e_def EncryptedMessageData_Encode_def put_defs)
  then have dec: "EncryptedMessageData_Decode (p @ padding) = (Inr msg, m @ padding)"
    using EncryptedMessageData_iff[of "p @ padding" msg "m @ padding"] len by (simp add: msg_def e_def)
  have m4: "int (length m) mod 4 = 0" using assms(5) by presburger
  have n: "sint (MessageDataLen msg) = int (length m)" "MessageDataWithPadding msg = m @ padding"
    using len by (simp_all add: msg_def e_def)
  have "int (length padding) \<le> 267" using pad countPadding_bounds(2)[of "length p" "hd rand"] by simp
  then have "Cipher_Decrypt lib (DecryptSide side) k
      \<lparr>EM_AuthKeyID = AK_ID k, EM_MsgKey = MessageKey (AK_Value k) (p @ padding) side, EncryptedData = ige_encrypt lib key iv (p @ padding)\<rparr> = Inr msg"
    using ige ks dec n m4 by (simp add: Cipher_Decrypt_def decryptMessage_ige_def maxPadding_def Let_def)
  then have "DecryptFromBuffer lib (DecryptSide side) k (EncryptedMessage_Encode \<lparr>EM_AuthKeyID = AK_ID k,
      EM_MsgKey = MessageKey (AK_Value k) (p @ padding) side, EncryptedData = ige_encrypt lib key iv (p @ padding)\<rparr> []) = Inr msg"
    using assms(2) by (simp add: DecryptFromBuffer_def EncryptedMessage_app)
  moreover have "EncryptedMessageData_Data msg = Inr m" using n by (simp add: EncryptedMessageData_Data_def)
  ultimately show ?thesis using enc em by (simp add: Cipher_Encrypt_def msg_def e_def)
qed

section \<open>Properties\<close>

text \<open>
  C4. Encryption is inverted by the other side. For every message data, given directly or by an
  encoder, of a length that is a multiple of four and below \<open>2\<^sup>3\<^sup>1\<close>, \<open>Encrypt\<close> on one side succeeds as long as
  the random source lasts, and \<open>DecryptFromBuffer\<close> on the other side, with the same key,
  returns the header fields and exactly these bytes: the random padding is cut off.
\<close>

theorem Cipher_roundtrip:
  assumes "ige_inverts lib" and "length (AK_ID k) = 8" and "length rand \<ge> 268"
    and "carries d m" and "4 dvd length m" and "length m < 2 ^ 31"
  shows "\<exists>out rand' msg. Cipher_Encrypt lib side k d rand = (Inr out, rand')
    \<and> DecryptFromBuffer lib (DecryptSide side) k out = Inr msg
    \<and> EMD_Salt msg = EMD_Salt d \<and> EMD_SessionID msg = EMD_SessionID d \<and> EMD_MessageID msg = EMD_MessageID d
    \<and> EMD_SeqNo msg = EMD_SeqNo d \<and> EncryptedMessageData_Data msg = Inr m"
  using Encrypt_Decrypt[OF assms] .

text \<open>A cipher that copies, for the witnesses.\<close>

definition copy_cipher :: cipher_lib where
  "copy_cipher = \<lparr>ige_encrypt = (\<lambda>_ _ d. d), ige_decrypt = (\<lambda>_ _ d. d), xor_bytes = map2 (XOR)\<rparr>"

lemma copy_cipher_laws: "ige_inverts copy_cipher" "xor_bytewise copy_cipher"
  by (simp_all add: ige_inverts_def xor_bytewise_def copy_cipher_def)

definition example_data :: EncryptedMessageData where
  "example_data = \<lparr>EMD_Salt = 1, EMD_SessionID = 2, EMD_MessageID = 3, EMD_SeqNo = 4, MessageDataLen = 0,
     MessageDataWithPadding = [], EMD_Message = Some (\<lambda>b. (None, b @ [1, 2, 3, 4]))\<rparr>"

definition example_key :: AuthKey where
  "example_key = Key_WithID (replicate 256 7)"

lemma example_cipher: "length (AK_ID example_key) = 8" "268 \<le> length (replicate 268 9 :: bytes)"
    "carries example_data [1, 2, 3, 4]" "4 dvd length [1, 2, 3, 4 :: 8 word]" "length [1, 2, 3, 4 :: 8 word] < 2 ^ 31"
proof -
  show "4 dvd length [1, 2, 3, 4 :: 8 word]" by code_simp
qed (simp_all add: example_key_def Key_WithID_def Key_ID_def example_data_def carries_def appends_def)

lemma DecryptSide_Server: "DecryptSide Server = Client"
  by (simp add: DecryptSide_def Server_def Client_def)

theorem Cipher_roundtrip_witness:
  "\<exists>out rand' msg. Cipher_Encrypt copy_cipher Server example_key example_data (replicate 268 9) = (Inr out, rand')
     \<and> DecryptFromBuffer copy_cipher Client example_key out = Inr msg \<and> EncryptedMessageData_Data msg = Inr [1, 2, 3, 4]"
  using Cipher_roundtrip[OF copy_cipher_laws(1) example_cipher, of Server] unfolding DecryptSide_Server by blast

text \<open>
  C5. What \<open>DecryptFromBuffer\<close> accepts. The packet names the key and is whole blocks; its message key
  is the one of the decrypted bytes, so a packet altered on the way is accepted only with a
  collision of the hash; the decrypted bytes are exactly the encoding of what is returned.
  The declared length is a non-negative multiple of four within the data, at most 1024
  bytes of padding follow, and \<open>Data()\<close> does not panic.
\<close>

theorem Decrypt_accepts:
  assumes "DecryptFromBuffer lib encryptSide k buf = Inr msg"
  shows "\<exists>em key iv. buf = EncryptedMessage_Encode em [] \<and> EM_AuthKeyID em = AK_ID k \<and> 16 dvd length (EncryptedData em)
    \<and> Keys (AK_Value k) (EM_MsgKey em) (DecryptSide encryptSide) = (key, iv)
    \<and> ige_decrypt lib key iv (EncryptedData em) = EncryptedMessageData_Encode msg []
    \<and> EM_MsgKey em = MessageKey (AK_Value k) (EncryptedMessageData_Encode msg []) (DecryptSide encryptSide)
    \<and> 0 \<le> sint (MessageDataLen msg) \<and> sint (MessageDataLen msg) mod 4 = 0
    \<and> (\<exists>m padding. EncryptedMessageData_Data msg = Inr m \<and> MessageDataWithPadding msg = m @ padding \<and> length padding \<le> 1024)"
proof -
  obtain em rest where em: "EncryptedMessage_DecodeWithoutCopy buf = (Inr em, rest)"
    and d: "Cipher_Decrypt lib encryptSide k em = Inr msg"
    using assms by (auto simp: DecryptFromBuffer_def split: prod.splits sum.splits)
  obtain key iv where ks: "Keys (AK_Value k) (EM_MsgKey em) (DecryptSide encryptSide) = (key, iv)" by fastforce
  let ?p = "ige_decrypt lib key iv (EncryptedData em)"
  have 1: "EM_AuthKeyID em = AK_ID k" "length (EncryptedData em) mod 16 = 0"
    "MessageKey (AK_Value k) ?p (DecryptSide encryptSide) = EM_MsgKey em"
    using d ks by (auto simp: Cipher_Decrypt_def decryptMessage_ige_def split: if_splits)
  then obtain rest' where dec: "EncryptedMessageData_Decode ?p = (Inr msg, rest')"
    and n: "0 \<le> sint (MessageDataLen msg)" "sint (MessageDataLen msg) smod 4 = 0"
      "int (length (MessageDataWithPadding msg)) - sint (MessageDataLen msg) \<le> 1024"
    using d ks by (auto simp: Cipher_Decrypt_def decryptMessage_ige_def Let_def maxPadding_def split: if_splits prod.splits sum.splits)
  have 2: "?p = EncryptedMessageData_Encode msg []" "sint (MessageDataLen msg) \<le> int (length (MessageDataWithPadding msg))"
    using EncryptedMessageData_iff dec by auto
  have "EncryptedMessageData_Data msg = Inr (take (nat (sint (MessageDataLen msg))) (MessageDataWithPadding msg))"
    using 2 n by (simp add: EncryptedMessageData_Data_def)
  moreover have "length (drop (nat (sint (MessageDataLen msg))) (MessageDataWithPadding msg)) \<le> 1024" using n by simp
  ultimately have data: "\<exists>m padding. EncryptedMessageData_Data msg = Inr m \<and> MessageDataWithPadding msg = m @ padding \<and> length padding \<le> 1024"
    by (metis append_take_drop_id)
  have "16 dvd length (EncryptedData em)" using 1(2) by presburger
  moreover have "sint (MessageDataLen msg) mod 4 = 0" using n by simp
  ultimately show ?thesis using 1 2 n ks data EncryptedMessage_only[OF em] by metis
qed

theorem Decrypt_accepts_witness:
  "\<exists>out msg m. DecryptFromBuffer copy_cipher Client example_key out = Inr msg
     \<and> EncryptedMessageData_Data msg = Inr m \<and> sint (MessageDataLen msg) mod 4 = 0"
proof -
  obtain out msg where d: "DecryptFromBuffer copy_cipher Client example_key out = Inr msg"
    using Encrypt_Decrypt[OF copy_cipher_laws(1) example_cipher, of Server] unfolding DecryptSide_Server by blast
  from Decrypt_accepts[OF d] obtain m where "EncryptedMessageData_Data msg = Inr m" "sint (MessageDataLen msg) mod 4 = 0"
    by (elim exE conjE)
  with d show ?thesis by (intro exI conjI)
qed

text \<open>
  The padding of MTProto 2.0: at least 12 bytes, and the whole is whole blocks.
\<close>

theorem countPadding_spec: "12 \<le> countPadding l r \<and> countPadding l r \<le> 1024 \<and> 16 dvd l + countPadding l r"
  using countPadding_bounds[of l r] by simp

text \<open>
  \<open>RandInt64n\<close> is documented to stay in \<open>[0; n)\<close>. It does for every draw but one: the smallest
  \<open>int64\<close> is its own negation, and the result for it is negative unless \<open>n\<close> divides \<open>2\<^sup>6\<^sup>3\<close>.
\<close>

theorem RandInt64n_negative: "RandInt64n (le_bytes 8 (0x8000000000000000 :: 64 word)) 10 = (Inr (word_of_int (- 8)), [])"
proof -
  define w :: "64 word" where "w = 0x8000000000000000"
  have "io_ReadFull (Word * 2) (le_bytes 8 w @ []) = (le_bytes 8 w, None, [])"
    by (rule io_ReadFull_app) (simp add: Word_def)
  moreover have "Buffer_Long (le_bytes 8 w) = (Inr w, [])" using Long_app[of w "[]"] by (simp add: Word_def)
  ultimately have "RandInt64 (le_bytes 8 w) = (Inr w, [])" by (simp add: RandInt64_def)
  then show ?thesis by (simp add: RandInt64n_def w_def)
qed

end
