(* ===== verification/Kex.thy ===== *)
theory Kex
  imports Cipher
begin

text \<open>
  Package \<open>crypto\<close>, the building blocks of the key exchange: big integers and bytes
  (\<open>fill_bytes.go\<close>, \<open>math/big\<close>), RSA and its paddings (\<open>rsa.go\<close>, \<open>rsa_pad.go\<close>,
  \<open>rsa_hashed.go\<close>, \<open>rsa_fingerprint.go\<close>), data with a hash (\<open>data_with_hash.go\<close>,
  \<open>exchange.go\<close>, \<open>temp_keys.go\<close>), the factorization of \<open>pq\<close> (\<open>pq.go\<close>) and the checks of the
  Diffie-Hellman parameters with their cache (\<open>dh.go\<close>, \<open>check_gp.go\<close>, \<open>check_dh.go\<close>). A
  non-negative \<open>*big.Int\<close> is a natural number. The loops that draw random bytes until a
  condition holds end with the bytes: the source is a finite list, and its end is an error
  of \<open>io.ReadFull\<close>.
\<close>

unbundle bit_operations_syntax

section \<open>math/big\<close>

definition SetBytes :: "bytes \<Rightarrow> nat" where
  "SetBytes bs = foldl (\<lambda>n b. n * 256 + unat b) 0 bs"

fun big_Bytes :: "nat \<Rightarrow> bytes" where
  "big_Bytes n = (if n = 0 then [] else big_Bytes (n div 256) @ [word_of_nat (n mod 256)])"

declare big_Bytes.simps [simp del]

fun BitLen :: "nat \<Rightarrow> nat" where
  "BitLen n = (if n = 0 then 0 else Suc (BitLen (n div 2)))"

declare BitLen.simps [simp del]

text \<open>\<open>x.FillBytes(buf)\<close> with a buffer of \<open>k\<close> bytes panics when the value does not fit.\<close>

definition big_FillBytes :: "nat \<Rightarrow> nat \<Rightarrow> go_error + bytes" where
  "big_FillBytes k x =
     (if length (big_Bytes x) > k then Inl (GoPanic ''math/big: buffer too small to fit value'')
      else Inr (replicate (k - length (big_Bytes x)) 0 @ big_Bytes x))"

definition big_Exp :: "nat \<Rightarrow> nat \<Rightarrow> nat \<Rightarrow> nat" where
  "big_Exp x y m = x ^ y mod m"

lemma io_ReadFull_shorter: "io_ReadFull k r = (bs, None, r') \<Longrightarrow> 0 < k \<Longrightarrow> length r' < length r"
  by (auto simp: io_ReadFull_def split: if_splits)

text \<open>
  \<open>rand.Int(rand, max)\<close> draws as many bytes as \<open>max - 1\<close> needs, clears the bits above it and
  repeats until the value is below \<open>max\<close>.
\<close>

function rand_Int :: "bytes \<Rightarrow> nat \<Rightarrow> (go_error + nat) \<times> bytes" where
  "rand_Int rand mx =
     (let bitLen = BitLen (mx - 1); k = (bitLen + 7) div 8; b = (if bitLen mod 8 = 0 then 8 else bitLen mod 8) in
      if bitLen = 0 then (Inr 0, rand)
      else
        case io_ReadFull k rand of
          (_, Some err, rand') \<Rightarrow> (Inl err, rand')
        | (bs, None, rand') \<Rightarrow>
            let n = SetBytes ((hd bs AND (word_of_nat (2 ^ b - 1))) # tl bs) in
            if n < mx then (Inr n, rand') else rand_Int rand' mx)"
  by pat_completeness auto
termination
proof (relation "measure (\<lambda>(rand, _). length rand)", goal_cases)
  case (2 rand mx bitLen k b bs r e rand' n)
  have "0 < (l + 7) div 8" if "l \<noteq> 0" for l :: nat using that by presburger
  then have "0 < k" using 2(2,4) by blast
  moreover have "io_ReadFull k rand = (bs, None, rand')" using 2(5,6,7) by simp
  ultimately show ?case using io_ReadFull_shorter by simp
qed simp

declare rand_Int.simps [simp del]

section \<open>fill\_bytes.go\<close>

text \<open>\<open>None\<close> is the result \<open>false\<close>.\<close>

definition FillBytes :: "nat \<Rightarrow> nat \<Rightarrow> (go_error + bytes) option" where
  "FillBytes b k = (if (BitLen b + 7) div 8 > k then None else Some (big_FillBytes k b))"

section \<open>rsa.go, rsa\_fingerprint.go\<close>

definition RSAKeyBits :: nat where "RSAKeyBits = 2048"
definition rsaLen :: nat where "rsaLen = 256"
definition rsaWithHashLen :: nat where "rsaWithHashLen = 255"
definition rsaDataLen :: nat where "rsaDataLen = rsaWithHashLen - 20"

record PublicKey =
  pk_N :: nat
  pk_E :: nat

record PrivateKey =
  sk_Public :: PublicKey
  sk_D :: nat

definition RSAPublicDecrypt :: "PublicKey \<Rightarrow> bytes \<Rightarrow> go_error + bytes" where
  "RSAPublicDecrypt pub sig =
     (let k = (BitLen (pk_N pub) + 7) div 8 in
      if k < 11 \<or> k \<noteq> length sig then Inl (Errorf ''crypto/rsa: verification error'' [])
      else Inr (big_Bytes (big_Exp (SetBytes sig) (pk_E pub) (pk_N pub))))"

definition rsaEncrypt :: "bytes \<Rightarrow> PublicKey \<Rightarrow> go_error + bytes" where
  "rsaEncrypt data key = big_FillBytes rsaLen (big_Exp (SetBytes data) (pk_E key) (pk_N key))"

definition rsaDecrypt :: "bytes \<Rightarrow> PrivateKey \<Rightarrow> nat \<Rightarrow> (go_error + bytes) option" where
  "rsaDecrypt data key k = FillBytes (big_Exp (SetBytes data) (sk_D key) (pk_N (sk_Public key))) k"

definition RSAFingerprint :: "PublicKey \<Rightarrow> 64 word" where
  "RSAFingerprint key =
     le_word (go_slice 12 20 (sha1 (Buffer_PutBytes (big_Bytes (pk_E key)) (Buffer_PutBytes (big_Bytes (pk_N key)) []))))"

section \<open>rsa\_hashed.go\<close>

definition RSAEncryptHashed :: "bytes \<Rightarrow> PublicKey \<Rightarrow> bytes \<Rightarrow> (go_error + bytes) \<times> bytes" where
  "RSAEncryptHashed data key rand =
     (if length data > rsaDataLen then (Inl (Errorf ''data length %d is too big'' [int (length data)]), rand)
      else
        case io_ReadFull rsaWithHashLen rand of
          (_, Some err, rand) \<Rightarrow> (Inl err, rand)
        | (dataWithHash, None, rand) \<Rightarrow>
            let dataWithHash = go_copy (take 20 dataWithHash) (sha1 data) @ drop 20 dataWithHash;
                dataWithHash = copy_at 20 data dataWithHash
            in (rsaEncrypt dataWithHash key, rand))"

text \<open>The loop over the lengths of the data, longest first.\<close>

function find_hashed :: "bytes \<Rightarrow> bytes \<Rightarrow> nat \<Rightarrow> bytes option" where
  "find_hashed hash paddedData i =
     (if i > length paddedData then None
      else
        let data = take (length paddedData - i) paddedData in
        if sha1 data = hash then Some data else find_hashed hash paddedData (i + 1))"
  by pat_completeness auto
termination
  by (relation "measure (\<lambda>(_, p, i). Suc (length p) - i)") auto

declare find_hashed.simps [simp del]

definition RSADecryptHashed :: "bytes \<Rightarrow> PrivateKey \<Rightarrow> go_error + bytes" where
  "RSADecryptHashed data key =
     (case rsaDecrypt data key rsaWithHashLen of
        None \<Rightarrow> Inl (Errorf ''invalid data_with_hash'' [])
      | Some (Inl err) \<Rightarrow> Inl err
      | Some (Inr dataWithHash) \<Rightarrow>
         (case find_hashed (take 20 dataWithHash) (drop 20 dataWithHash) 0 of
            Some d \<Rightarrow> Inr d
          | None \<Rightarrow> Inl (Errorf ''hash mismatch'' [])))"

section \<open>rsa\_pad.go\<close>

text \<open>The loop of \<open>reverseBytes\<close>; \<open>j\<close> is \<open>-1\<close> for an empty slice.\<close>

function reverse_loop :: "int \<Rightarrow> int \<Rightarrow> bytes \<Rightarrow> bytes" where
  "reverse_loop i j s =
     (if i < j then reverse_loop (i + 1) (j - 1) (s[nat i := s ! nat j, nat j := s ! nat i]) else s)"
  by pat_completeness auto
termination
  by (relation "measure (\<lambda>(i, j, _). nat (j - i))") auto

declare reverse_loop.simps [simp del]

definition reverseBytes :: "bytes \<Rightarrow> bytes" where
  "reverseBytes s = reverse_loop 0 (int (length s) - 1) s"

definition rsaPadDataLimit :: nat where "rsaPadDataLimit = 144"
definition dataWithPaddingLength :: nat where "dataWithPaddingLength = 192"
definition dataWithHashLength :: nat where "dataWithHashLength = dataWithPaddingLength + 32"
definition tempKeySize :: nat where "tempKeySize = 32"

text \<open>Steps 4 to 7 for one \<open>temp_key\<close>.\<close>

definition key_aes_encrypted :: "cipher_lib \<Rightarrow> bytes \<Rightarrow> bytes \<Rightarrow> bytes" where
  "key_aes_encrypted lib dataWithPadding tempKey =
     (let dataPadReversed = reverseBytes dataWithPadding;
          dataWithHash = take dataWithHashLength (dataPadReversed @ sha256 (tempKey @ dataWithPadding));
          aesEncrypted = ige_encrypt lib tempKey (replicate 32 0) dataWithHash;
          tempKeyXor = xor_bytes lib tempKey (sha256 aesEncrypted)
      in tempKeyXor @ aesEncrypted)"

function rsa_pad_loop :: "cipher_lib \<Rightarrow> bytes \<Rightarrow> PublicKey \<Rightarrow> bytes \<Rightarrow> (go_error + bytes) \<times> bytes" where
  "rsa_pad_loop lib dataWithPadding key rand =
     (case io_ReadFull tempKeySize rand of
        (_, Some err, rand') \<Rightarrow> (Inl (Wrap ''generate temp_key'' err), rand')
      | (tempKey, None, rand') \<Rightarrow>
         (case aes_NewCipher tempKey of
            Some err \<Rightarrow> (Inl (Wrap ''create cipher'' err), rand')
          | None \<Rightarrow>
             let keyAESEncrypted = key_aes_encrypted lib dataWithPadding tempKey in
             if SetBytes keyAESEncrypted \<ge> pk_N key
             then rsa_pad_loop lib dataWithPadding key rand'
             else (rsaEncrypt keyAESEncrypted key, rand')))"
  by pat_completeness auto
termination
  by (relation "measure (\<lambda>(_, _, _, rand). length rand)") (auto simp: io_ReadFull_def tempKeySize_def split: if_splits)

declare rsa_pad_loop.simps [simp del]

definition RSAPad :: "cipher_lib \<Rightarrow> bytes \<Rightarrow> PublicKey \<Rightarrow> bytes \<Rightarrow> (go_error + bytes) \<times> bytes" where
  "RSAPad lib data key rand =
     (if length data > rsaPadDataLimit then (Inl (Errorf ''data length is bigger that 144 (%d)'' [int (length data)]), rand)
      else
        case io_ReadFull (dataWithPaddingLength - length data) rand of
          (_, Some err, rand) \<Rightarrow> (Inl (Wrap ''pad data with random'' err), rand)
        | (padding, None, rand) \<Rightarrow> rsa_pad_loop lib (data @ padding) key rand)"

definition DecodeRSAPad :: "cipher_lib \<Rightarrow> bytes \<Rightarrow> PrivateKey \<Rightarrow> go_error + bytes" where
  "DecodeRSAPad lib data key =
     (case rsaDecrypt data key 256 of
        None \<Rightarrow> Inl (Errorf ''invalid encrypted_data'' [])
      | Some (Inl err) \<Rightarrow> Inl err
      | Some (Inr encryptedData) \<Rightarrow>
         let tempKeyXor = take tempKeySize encryptedData;
             aesEncrypted = drop tempKeySize encryptedData;
             tempKey = xor_bytes lib tempKeyXor (sha256 aesEncrypted)
         in case aes_NewCipher tempKey of
              Some err \<Rightarrow> Inl (Wrap ''create cipher'' err)
            | None \<Rightarrow>
               let dataWithHash = ige_decrypt lib tempKey (replicate 32 0) aesEncrypted;
                   dataWithPadding = reverseBytes (take dataWithPaddingLength dataWithHash);
                   hash = drop dataWithPaddingLength dataWithHash
               in if hash \<noteq> sha256 (tempKey @ dataWithPadding) then Inl (Errorf ''hash mismatch'' [])
                  else Inr dataWithPadding)"

section \<open>data\_with\_hash.go\<close>

text \<open>The loop over the number of padding bytes; \<open>None\<close> is the nil slice.\<close>

primrec guess_loop :: "bytes \<Rightarrow> nat list \<Rightarrow> bytes option" where
  "guess_loop dataWithHash [] = None"
| "guess_loop dataWithHash (i # is) =
     (if length dataWithHash < 20 + i then None
      else
        let data = go_slice 20 (length dataWithHash - i) dataWithHash in
        if sha1 data = take 20 dataWithHash then Some data else guess_loop dataWithHash is)"

definition GuessDataWithHash :: "bytes \<Rightarrow> bytes option" where
  "GuessDataWithHash dataWithHash = (if length dataWithHash \<le> 20 then None else guess_loop dataWithHash [0..<16])"

definition paddedLen16 :: "nat \<Rightarrow> nat" where
  "paddedLen16 l = (let n = 16 * (l div 16) in if n < l then n + 16 else n)"

definition DataWithHash :: "bytes \<Rightarrow> bytes \<Rightarrow> (go_error + bytes) \<times> bytes" where
  "DataWithHash data randomSource =
     (case io_ReadFull (paddedLen16 (length data + 20) - (20 + length data)) randomSource of
        (_, Some err, rand) \<Rightarrow> (Inl err, rand)
      | (padding, None, rand) \<Rightarrow> (Inr (sha1 data @ data @ padding), rand))"

section \<open>exchange.go, temp\_keys.go\<close>

text \<open>
  The callers pass a decoded \<open>bytes\<close> field, which is nil exactly when it is empty. The test
  after the guess is on \<open>data\<close>, not on \<open>dst\<close>. The result \<open>Inr None\<close> is the nil slice without
  an error.
\<close>

definition DecryptExchangeAnswer :: "cipher_lib \<Rightarrow> bytes \<Rightarrow> bytes \<Rightarrow> bytes \<Rightarrow> go_error + bytes option" where
  "DecryptExchangeAnswer lib data key iv =
     (case aes_NewCipher key of
        Some err \<Rightarrow> Inl (Wrap ''create aes cipher'' err)
      | None \<Rightarrow>
         if length data mod 16 \<noteq> 0 then Inl (Errorf ''invalid len of data_with_hash (%d %% 16 != 0)'' [int (length data)])
         else
           let dst = GuessDataWithHash (ige_decrypt lib key iv data) in
           if data = [] then Inl (Errorf ''guess data from data_with_hash'' []) else Inr dst)"

definition EncryptExchangeAnswer :: "cipher_lib \<Rightarrow> bytes \<Rightarrow> bytes \<Rightarrow> bytes \<Rightarrow> bytes \<Rightarrow> (go_error + bytes) \<times> bytes" where
  "EncryptExchangeAnswer lib rand answer key iv =
     (case aes_NewCipher key of
        Some err \<Rightarrow> (Inl (Wrap ''create aes cipher'' err), rand)
      | None \<Rightarrow>
         (case DataWithHash answer rand of
            (Inl err, rand) \<Rightarrow> (Inl (Wrap ''get answer with hash'' err), rand)
          | (Inr answerWithHash, rand) \<Rightarrow> (Inr (ige_encrypt lib key iv answerWithHash), rand)))"

definition NonceHash1 :: "bytes \<Rightarrow> Key \<Rightarrow> bytes" where
  "NonceHash1 newNonce key = go_slice 4 20 (sha1 (newNonce @ [1] @ go_slice 0 8 (sha1 key)))"

text \<open>The two nonces come as big integers and are written back at their full length.\<close>

definition TempAESKeys :: "nat \<Rightarrow> nat \<Rightarrow> go_error + bytes \<times> bytes" where
  "TempAESKeys newNonce serverNonce =
     (case big_FillBytes 32 newNonce of
        Inl err \<Rightarrow> Inl err
      | Inr nn \<Rightarrow>
         (case big_FillBytes 16 serverNonce of
            Inl err \<Rightarrow> Inl err
          | Inr sn \<Rightarrow>
             Inr (sha1 (nn @ sn) @ go_slice 0 12 (sha1 (sn @ nn)),
                  go_slice 12 (12 + 8) (sha1 (sn @ nn)) @ sha1 (nn @ nn) @ go_slice 0 4 nn)))"

section \<open>pq.go\<close>

text \<open>
  The innermost loop: \<open>c + a * b\<close> modulo \<open>what\<close> by doubling. The numbers never become
  negative, since a subtraction follows a comparison.
\<close>

function mul_loop :: "nat \<Rightarrow> nat \<Rightarrow> nat \<Rightarrow> nat \<Rightarrow> nat" where
  "mul_loop what a b c =
     (if b > 0 then
        let c = (if b mod 2 > 0 then (let c = c + a in if c \<ge> what then c - what else c) else c);
            a = a + a;
            a = (if a \<ge> what then a - what else a)
        in mul_loop what a (b div 2) c
      else c)"
  by pat_completeness auto
termination
  by (relation "measure (\<lambda>(_, _, b, _). b)") auto

declare mul_loop.simps [simp del]

text \<open>
  The loop over \<open>j\<close>, with \<open>lim\<close> of type \<open>int\<close>. It is entered with \<open>flag\<close> set; the result is
  \<open>g\<close>. \<open>j AND (j - 1) = 0\<close> says that \<open>j\<close> is a power of two.
\<close>

function rho_loop :: "nat \<Rightarrow> nat \<Rightarrow> int \<Rightarrow> nat \<Rightarrow> int \<Rightarrow> nat \<Rightarrow> nat \<Rightarrow> nat" where
  "rho_loop what v lim g j x y =
     (if j < lim then
        let x = mul_loop what x x v;
            z = (if x < y then what + x - y else x - y);
            g = gcd z what;
            y = (if j AND (j - 1) = 0 then x else y)
        in if g \<noteq> 1 then g else rho_loop what v lim g (j + 1) x y
      else g)"
  by pat_completeness auto
termination
  by (relation "measure (\<lambda>(_, _, lim, _, j, _, _). nat (lim - j))") auto

declare rho_loop.simps [simp del]

text \<open>\<open>1 << (uint(i) + 18)\<close> on 64 bits.\<close>

definition pq_lim :: "nat \<Rightarrow> int" where
  "pq_lim i = sint (push_bit (i + 18) 1 :: 64 word)"

text \<open>The outer loop; each round draws two numbers of eight bytes.\<close>

function pq_loop :: "nat \<Rightarrow> nat \<Rightarrow> nat \<Rightarrow> bytes \<Rightarrow> (go_error + nat) \<times> bytes" where
  "pq_loop what g i rand =
     (if g > 1 \<and> g < what then (Inr g, rand)
      else
        case io_ReadFull 8 rand of
          (_, Some err, rand') \<Rightarrow> (Inl err, rand')
        | (vb, None, rand') \<Rightarrow>
           if what = 0 then (Inl (GoPanic ''division by zero''), rand')
           else
             let v = (SetBytes vb mod 16 + 17) mod what in
             case io_ReadFull 8 rand' of
               (_, Some err, rand'') \<Rightarrow> (Inl err, rand'')
             | (xb, None, rand'') \<Rightarrow>
                if what = 1 then (Inl (GoPanic ''division by zero''), rand'')
                else
                  let x = SetBytes xb mod (what - 1) + 1 in
                  pq_loop what (rho_loop what v (pq_lim i) g 1 x x) (i + 1) rand'')"
  by pat_completeness auto
termination
  by (relation "measure (\<lambda>(_, _, _, rand). length rand)") (auto simp: io_ReadFull_def split: if_splits)

declare pq_loop.simps [simp del]

definition DecomposePQ :: "nat \<Rightarrow> bytes \<Rightarrow> (go_error + nat \<times> nat) \<times> bytes" where
  "DecomposePQ pq randSource =
     (case pq_loop pq 0 0 randSource of
        (Inl err, rand) \<Rightarrow> (Inl err, rand)
      | (Inr g, rand) \<Rightarrow>
         let p = g; q = pq div g in
         (Inr (if p > q then (q, p) else (p, q)), rand))"

section \<open>dh.go, check\_gp.go\<close>

definition InRange :: "nat \<Rightarrow> nat \<Rightarrow> int \<Rightarrow> bool" where
  "InRange x lo hi \<longleftrightarrow> x > lo \<and> int x < hi"

definition CheckDHParams :: "nat \<Rightarrow> nat \<Rightarrow> nat \<Rightarrow> nat \<Rightarrow> go_error option" where
  "CheckDHParams dhPrime g gA gB =
     (let dhPrimeMinusOne = int dhPrime - 1;
          safetyRangeMin = 2 ^ (RSAKeyBits - 64);
          safetyRangeMax = int dhPrime - int safetyRangeMin in
      if \<not> InRange g 1 dhPrimeMinusOne then Some (Errorf ''kex: bad g, g must be 1 < g < dh_prime - 1'' [])
      else if \<not> InRange gA 1 dhPrimeMinusOne then Some (Errorf ''kex: bad g_a, g_a must be 1 < g_a < dh_prime - 1'' [])
      else if \<not> InRange gB 1 dhPrimeMinusOne then Some (Errorf ''kex: bad g_b, g_b must be 1 < g_b < dh_prime - 1'' [])
      else if \<not> InRange gA safetyRangeMin safetyRangeMax then Some (Errorf ''kex: bad g_a, g_a must be 2^{2048-64} < g_a < dh_prime - 2^{2048-64}'' [])
      else if \<not> InRange gB safetyRangeMin safetyRangeMax then Some (Errorf ''kex: bad g_b, g_b must be 2^{2048-64} < g_b < dh_prime - 2^{2048-64}'' [])
      else None)"

definition checkSubgroup :: "nat \<Rightarrow> nat \<Rightarrow> nat list \<Rightarrow> bool" where
  "checkSubgroup p divider expected \<longleftrightarrow> p mod divider \<in> set expected"

definition CheckGP :: "int \<Rightarrow> nat \<Rightarrow> go_error option" where
  "CheckGP g p =
     (if g \<notin> {2, 3, 4, 5, 6, 7} then Some (Errorf ''unexpected g = %d: g should be equal to 2, 3, 4, 5, 6 or 7'' [g])
      else
        let result =
          (if g = 2 then checkSubgroup p 8 [7]
           else if g = 3 then checkSubgroup p 3 [2]
           else if g = 4 then True
           else if g = 5 then checkSubgroup p 5 [1, 4]
           else if g = 6 then checkSubgroup p 24 [19, 23]
           else checkSubgroup p 7 [3, 5, 6])
        in if \<not> result then Some (Errorf ''g should be a quadratic residue mod p'' []) else None)"

section \<open>check\_dh.go\<close>

text \<open>
  \<open>Prime\<close> asks \<open>ProbablyPrime(64)\<close>, which is a parameter: it is documented to accept every
  prime, and a composite only with negligible probability. The key of the cache is \<open>g\<close> and
  the 256 bytes of \<open>p\<close>. The array of entries is the list of the used ones.
\<close>

definition checkPrime :: "(nat \<Rightarrow> bool) \<Rightarrow> nat \<Rightarrow> go_error option" where
  "checkPrime Prime p =
     (if \<not> Prime p then Some (Errorf ''p is not prime number'' [])
      else if \<not> Prime ((p - 1) div 2) then Some (Errorf ''(p-1)/2 is not prime number'' [])
      else None)"

definition validatedDHParameterCacheCapacity :: nat where "validatedDHParameterCacheCapacity = 16"

type_synonym dh_key = "int \<times> bytes"

record validatedDHParameterCache =
  cache_entries :: "dh_key list"
  cache_next :: nat

definition validatedDHKey :: "int \<Rightarrow> nat \<Rightarrow> (go_error + dh_key) option" where
  "validatedDHKey g p =
     (if p = 0 \<or> BitLen p \<noteq> RSAKeyBits then None
      else Some (case big_FillBytes (RSAKeyBits div 8) p of Inl err \<Rightarrow> Inl err | Inr bs \<Rightarrow> Inr (g, bs)))"

definition containsLocked :: "dh_key \<Rightarrow> validatedDHParameterCache \<Rightarrow> bool" where
  "containsLocked key c \<longleftrightarrow> key \<in> set (cache_entries c)"

definition cache_validate ::
  "validatedDHParameterCache \<Rightarrow> dh_key \<Rightarrow> go_error option \<Rightarrow> go_error option \<times> validatedDHParameterCache" where
  "cache_validate c key validate =
     (if containsLocked key c then (None, c)
      else
        case validate of
          Some err \<Rightarrow> (Some err, c)
        | None \<Rightarrow>
           if length (cache_entries c) < validatedDHParameterCacheCapacity then (None, c\<lparr>cache_entries := cache_entries c @ [key]\<rparr>)
           else (None, c\<lparr>cache_entries := (cache_entries c)[cache_next c := key],
                         cache_next := (cache_next c + 1) mod validatedDHParameterCacheCapacity\<rparr>))"

text \<open>The validation that the closure performs.\<close>

definition validate_dh :: "(nat \<Rightarrow> bool) \<Rightarrow> int \<Rightarrow> nat \<Rightarrow> go_error option" where
  "validate_dh Prime g p = (case CheckGP g p of Some err \<Rightarrow> Some err | None \<Rightarrow> checkPrime Prime p)"

definition checkDHWithCache ::
  "(nat \<Rightarrow> bool) \<Rightarrow> validatedDHParameterCache \<Rightarrow> int \<Rightarrow> nat \<Rightarrow> go_error option \<times> validatedDHParameterCache" where
  "checkDHWithCache Prime cache g p =
     (case validatedDHKey g p of
        None \<Rightarrow> (Some (Errorf ''p should be 2^2047 < p < 2^2048'' []), cache)
      | Some (Inl err) \<Rightarrow> (Some err, cache)
      | Some (Inr key) \<Rightarrow> cache_validate cache key (validate_dh Prime g p))"

section \<open>Lemmas\<close>

subsection \<open>Numbers and bytes\<close>

lemma SetBytes_snoc [simp]: "SetBytes (bs @ [b]) = SetBytes bs * 256 + unat b"
  by (simp add: SetBytes_def)

lemma SetBytes_Nil [simp]: "SetBytes [] = 0"
  by (simp add: SetBytes_def)

lemma SetBytes_append: "SetBytes (as @ bs) = SetBytes as * 256 ^ length bs + SetBytes bs"
  by (induction bs rule: rev_induct) (simp_all add: append_assoc[symmetric] algebra_simps del: append_assoc)

lemma SetBytes_replicate [simp]: "SetBytes (replicate k 0) = 0"
  by (induction k) (simp_all add: replicate_append_same[symmetric] del: replicate_append_same)

lemma SetBytes_zeros [simp]: "SetBytes (replicate k 0 @ bs) = SetBytes bs"
  by (simp add: SetBytes_append)

lemma SetBytes_less: "SetBytes bs < 256 ^ length bs"
proof (induction bs rule: rev_induct)
  case (snoc b bs)
  have "unat b < 256" using unsigned_less[of b] by simp
  then show ?case using snoc by simp
qed simp

lemma SetBytes_inject: "length as = length bs \<Longrightarrow> SetBytes as = SetBytes bs \<Longrightarrow> as = bs"
proof (induction bs arbitrary: as rule: rev_induct)
  case (snoc b bs)
  then obtain a as' where as: "as = as' @ [a]" by (cases as rule: rev_cases) auto
  have u: "unat a < 256" "unat b < 256" using unsigned_less[of a] unsigned_less[of b] by simp_all
  have "(SetBytes as' * 256 + unat a) div 256 = (SetBytes bs * 256 + unat b) div 256"
    "(SetBytes as' * 256 + unat a) mod 256 = (SetBytes bs * 256 + unat b) mod 256"
    using snoc.prems(2) as by simp_all
  then have "SetBytes as' = SetBytes bs" "unat a = unat b" using u by simp_all
  moreover from this(2) have "a = b" by (simp add: word_unat_eq_iff)
  ultimately show ?case using snoc as by simp
qed simp

lemma SetBytes_big_Bytes [simp]: "SetBytes (big_Bytes n) = n"
proof (induction n rule: big_Bytes.induct)
  case (1 n)
  have "unat (word_of_nat (n mod 256) :: 8 word) = n mod 256" by (simp add: unat_of_nat)
  then show ?case using 1 by (simp add: big_Bytes.simps[of n])
qed

lemma length_big_Bytes: "length (big_Bytes n) \<le> k \<longleftrightarrow> n < 256 ^ k"
proof (induction n arbitrary: k rule: big_Bytes.induct)
  case (1 n)
  show ?case
  proof (cases "n = 0")
    case False
    then have l: "length (big_Bytes n) = Suc (length (big_Bytes (n div 256)))" by (simp add: big_Bytes.simps[of n])
    show ?thesis
    proof (cases k)
      case (Suc k')
      have "n div 256 < 256 ^ k' \<longleftrightarrow> n < 256 ^ k" by (simp add: Suc div_less_iff_less_mult mult.commute)
      then show ?thesis using 1[OF False, of k'] l Suc by simp
    qed (use l False in simp)
  qed (simp add: big_Bytes.simps)
qed

lemma BitLen_le: "BitLen n \<le> k \<longleftrightarrow> n < 2 ^ k"
proof (induction n arbitrary: k rule: BitLen.induct)
  case (1 n)
  show ?case
  proof (cases "n = 0")
    case False
    then have l: "BitLen n = Suc (BitLen (n div 2))" by (simp add: BitLen.simps[of n])
    show ?thesis
    proof (cases k)
      case (Suc k')
      have "n div 2 < 2 ^ k' \<longleftrightarrow> n < 2 ^ k" by (simp add: Suc div_less_iff_less_mult mult.commute)
      then show ?thesis using 1[OF False, of k'] l Suc by simp
    qed (use l False in simp)
  qed (simp add: BitLen.simps)
qed

lemma big_FillBytes_fits: "x < 256 ^ k \<Longrightarrow> \<exists>bs. big_FillBytes k x = Inr bs \<and> length bs = k \<and> SetBytes bs = x"
  using length_big_Bytes[of x k] by (simp add: big_FillBytes_def)

lemma big_FillBytes_SetBytes: "length bs = k \<Longrightarrow> big_FillBytes k (SetBytes bs) = Inr bs"
  using big_FillBytes_fits[of "SetBytes bs" k] SetBytes_less[of bs] SetBytes_inject by fastforce

text \<open>\<open>FillBytes\<close> answers \<open>false\<close> exactly where the method would panic.\<close>

lemma FillBytes_eq: "FillBytes x k = (if x < 256 ^ k then Some (big_FillBytes k x) else None)"
proof -
  have "(l + 7) div 8 \<le> k \<longleftrightarrow> l \<le> 8 * k" for l
    using div_less_iff_less_mult[of 8 "l + 7" "Suc k"] by (simp add: less_Suc_eq_le) linarith
  then have "(BitLen x + 7) div 8 \<le> k \<longleftrightarrow> x < 2 ^ (8 * k)" by (simp only: BitLen_le)
  moreover have "(2 :: nat) ^ (8 * k) = 256 ^ k" by (simp add: power_mult)
  ultimately show ?thesis unfolding FillBytes_def by (simp only: not_le[symmetric] if_not_P split: if_splits) simp
qed

lemma FillBytes_SetBytes: "length bs = k \<Longrightarrow> FillBytes (SetBytes bs) k = Some (Inr bs)"
  using SetBytes_less[of bs] by (simp add: FillBytes_eq big_FillBytes_SetBytes)

subsection \<open>reverseBytes\<close>

lemma reverse_loop_nth:
  "0 \<le> i \<Longrightarrow> j < int (length s) \<Longrightarrow> length (reverse_loop i j s) = length s
   \<and> (\<forall>k < length s. reverse_loop i j s ! k = (if i \<le> int k \<and> int k \<le> j then s ! nat (i + j - int k) else s ! k))"
proof (induction i j s rule: reverse_loop.induct)
  case (1 i j s)
  have i: "0 \<le> i" and j: "j < int (length s)" using 1 by simp_all
  show ?case
  proof (cases "i < j")
    case True
    let ?s = "s[nat i := s ! nat j, nat j := s ! nat i]"
    have IH: "length (reverse_loop (i + 1) (j - 1) ?s) = length s" "\<forall>k < length s. reverse_loop (i + 1) (j - 1) ?s ! k =
        (if i + 1 \<le> int k \<and> int k \<le> j - 1 then ?s ! nat (i + j - int k) else ?s ! k)"
      using 1(1)[OF True] i j True by simp_all
    have "reverse_loop i j s ! k = (if i \<le> int k \<and> int k \<le> j then s ! nat (i + j - int k) else s ! k)" if k: "k < length s" for k
    proof -
      consider "int k = i" | "int k = j" | "i < int k" "int k < j" | "int k < i \<or> j < int k" by linarith
      then show ?thesis
      proof cases
        case 3
        then have "nat (i + j - int k) \<noteq> nat i" "nat (i + j - int k) \<noteq> nat j" using i by linarith+
        then show ?thesis using IH(2) k 3 True by (simp add: reverse_loop.simps[of i j s])
      next
        case 4
        then have "k \<noteq> nat i" "k \<noteq> nat j" using True i by linarith+
        then show ?thesis using IH(2) k 4 True by (auto simp: reverse_loop.simps[of i j s])
      qed (use IH(2) k True i j in \<open>auto simp: reverse_loop.simps[of i j s] nth_list_update\<close>)
    qed
    then show ?thesis using IH(1) True by (simp add: reverse_loop.simps[of i j s])
  next
    case False
    then have r: "reverse_loop i j s = s" by (simp add: reverse_loop.simps[of i j s])
    moreover have "k = nat (i + j - int k)" if "i \<le> int k" "int k \<le> j" for k using that False by simp
    ultimately show ?thesis by (metis (full_types))
  qed
qed

lemma reverseBytes_rev: "reverseBytes s = rev s"
proof (rule nth_equalityI)
  have n: "length (reverseBytes s) = length s" "\<forall>k < length s. reverseBytes s ! k =
      (if 0 \<le> int k \<and> int k \<le> int (length s) - 1 then s ! nat (0 + (int (length s) - 1) - int k) else s ! k)"
    using reverse_loop_nth[of 0 "int (length s) - 1" s] by (simp_all add: reverseBytes_def)
  then show "length (reverseBytes s) = length (rev s)" by simp
  fix k assume "k < length (reverseBytes s)"
  moreover have "nat (int (length s) - 1 - int k) = length s - Suc k" by simp
  ultimately show "reverseBytes s ! k = rev s ! k" using n by (simp add: rev_nth)
qed

subsection \<open>RSA padding\<close>

text \<open>
  A key pair as \<open>crypto/rsa\<close> generates it: decryption inverts encryption below the modulus,
  which has at most 2048 bits.
\<close>

definition rsa_pair :: "PrivateKey \<Rightarrow> bool" where
  "rsa_pair sk \<longleftrightarrow> pk_N (sk_Public sk) \<le> 256 ^ rsaLen \<and>
     (\<forall>m < pk_N (sk_Public sk). big_Exp (big_Exp m (pk_E (sk_Public sk)) (pk_N (sk_Public sk))) (sk_D sk) (pk_N (sk_Public sk)) = m)"

lemma rsa_Decrypt_Encrypt:
  assumes "rsa_pair sk" "SetBytes data < pk_N (sk_Public sk)" "length data = k"
  shows "\<exists>out. rsaEncrypt data (sk_Public sk) = Inr out \<and> rsaDecrypt out sk k = Some (Inr data)"
proof -
  let ?N = "pk_N (sk_Public sk)"
  let ?c = "big_Exp (SetBytes data) (pk_E (sk_Public sk)) ?N"
  have "0 < ?N" using assms(2) by simp
  then have "?c < ?N" by (simp add: big_Exp_def)
  also have "?N \<le> 256 ^ rsaLen" using assms(1) by (simp add: rsa_pair_def)
  finally obtain out where "big_FillBytes rsaLen ?c = Inr out" "SetBytes out = ?c" using big_FillBytes_fits by blast
  moreover have "big_Exp ?c (sk_D sk) ?N = SetBytes data" using assms(1,2) by (simp add: rsa_pair_def)
  ultimately show ?thesis using FillBytes_SetBytes[OF assms(3)] by (simp add: rsaEncrypt_def rsaDecrypt_def)
qed

lemma xor_cancel: "length a = length b \<Longrightarrow> map2 (XOR) (map2 (XOR) a b) b = (a :: bytes)"
  by (induction a b rule: list_induct2) (simp_all add: xor.assoc)

lemmas pad_lengths = dataWithPaddingLength_def dataWithHashLength_def tempKeySize_def rsaPadDataLimit_def

lemma key_aes_encrypted_decodes:
  assumes "ige_inverts lib" "xor_bytewise lib" "rsa_pair sk" "length p = 192" "length tk = 32"
    "SetBytes (key_aes_encrypted lib p tk) < pk_N (sk_Public sk)"
  shows "\<exists>out. rsaEncrypt (key_aes_encrypted lib p tk) (sk_Public sk) = Inr out \<and> DecodeRSAPad lib out sk = Inr p"
proof -
  define d where "d = rev p @ sha256 (tk @ p)"
  define e where "e = ige_encrypt lib tk (replicate 32 0) d"
  have ld: "length d = 224" using assms(4) by (simp add: d_def)
  have ig: "ige_decrypt lib tk (replicate 32 0) e = d" "length e = 224"
    using assms(1,5) ld unfolding ige_inverts_def e_def by (auto simp: dvd_def)
  have kae: "key_aes_encrypted lib p tk = xor_bytes lib tk (sha256 e) @ e"
    using ld assms(4) by (simp add: key_aes_encrypted_def Let_def reverseBytes_rev e_def d_def pad_lengths)
  have x: "xor_bytes lib tk (sha256 e) = map2 (XOR) tk (sha256 e)" using assms(2,5) by (simp add: xor_bytewise_def)
  then have x32: "length (xor_bytes lib tk (sha256 e)) = 32" using assms(5) by simp
  have undo: "xor_bytes lib (xor_bytes lib tk (sha256 e)) (sha256 e) = tk"
    using assms(2,5) x xor_cancel[of tk "sha256 e"] by (simp add: xor_bytewise_def)
  obtain out where out: "rsaEncrypt (key_aes_encrypted lib p tk) (sk_Public sk) = Inr out"
    "rsaDecrypt out sk 256 = Some (Inr (key_aes_encrypted lib p tk))"
    using rsa_Decrypt_Encrypt[OF assms(3,6)] kae x32 ig(2) by auto
  have "DecodeRSAPad lib out sk = Inr p"
    using out(2) kae x32 undo ig assms(4,5)
    by (simp add: DecodeRSAPad_def Let_def tempKeySize_def dataWithPaddingLength_def aes_NewCipher_def reverseBytes_rev d_def)
  with out(1) show ?thesis by blast
qed

lemma rsa_pad_loop_decodes:
  assumes "ige_inverts lib" "xor_bytewise lib" "rsa_pair sk" "length p = 192"
  shows "rsa_pad_loop lib p (sk_Public sk) rand = (Inr out, rand') \<Longrightarrow> DecodeRSAPad lib out sk = Inr p"
proof (induction rand rule: length_induct)
  case (1 rand)
  obtain tk e r where io: "io_ReadFull tempKeySize rand = (tk, e, r)" by (metis surj_pair)
  have e: "e = None" using 1(2) io by (cases e) (simp_all add: rsa_pad_loop.simps[of _ _ _ rand])
  then have tk: "length tk = 32" "length r < length rand" using io by (auto simp: io_ReadFull_def tempKeySize_def split: if_splits)
  let ?k = "key_aes_encrypted lib p tk"
  have step: "rsa_pad_loop lib p (sk_Public sk) rand =
      (if SetBytes ?k \<ge> pk_N (sk_Public sk) then rsa_pad_loop lib p (sk_Public sk) r else (rsaEncrypt ?k (sk_Public sk), r))"
    using io e tk by (simp add: rsa_pad_loop.simps[of _ _ _ rand] aes_NewCipher_def)
  show ?case
  proof (cases "SetBytes ?k \<ge> pk_N (sk_Public sk)")
    case True
    then show ?thesis using 1 step tk(2) by simp
  next
    case False
    then show ?thesis using key_aes_encrypted_decodes[OF assms tk(1)] 1(2) step by force
  qed
qed

subsection \<open>Data with a hash\<close>

lemma paddedLen16_bounds: "l \<le> paddedLen16 l" "paddedLen16 l < l + 16" "16 dvd paddedLen16 l"
  by (auto simp: paddedLen16_def Let_def)

lemma guess_loop_sound:
  "guess_loop d is = Some x \<Longrightarrow> sha1 x = take 20 d"
  by (induction "is") (auto simp: Let_def split: if_splits)

lemma guess_loop_finds:
  assumes "\<forall>k. 0 < k \<and> k \<le> length padding \<longrightarrow> sha1 (data @ take k padding) \<noteq> sha1 data"
  shows "i \<le> length padding \<Longrightarrow> guess_loop (sha1 data @ data @ padding) ([i..<length padding] @ length padding # js) = Some data"
proof (induction "length padding - i" arbitrary: i)
  case (Suc n)
  let ?d = "sha1 data @ data @ padding"
  have i: "i < length padding" using Suc by simp
  have sl: "go_slice 20 (length ?d - i) ?d = data @ take (length padding - i) padding" using i by (simp add: go_slice_def)
  have "sha1 (data @ take (length padding - i) padding) \<noteq> sha1 data" using assms i by simp
  moreover have "[i..<length padding] = i # [Suc i..<length padding]" using i by (simp add: upt_rec)
  moreover have "guess_loop ?d ([Suc i..<length padding] @ length padding # js) = Some data"
    using Suc.hyps(1)[of "Suc i"] Suc.hyps(2) i by simp
  ultimately show ?case using sl i by (simp add: Let_def)
qed (simp add: go_slice_def Let_def)

lemma GuessDataWithHash_finds:
  assumes "\<forall>k. 0 < k \<and> k \<le> length padding \<longrightarrow> sha1 (data @ take k padding) \<noteq> sha1 data"
    and "length padding < 16" and "0 < length data + length padding"
  shows "GuessDataWithHash (sha1 data @ data @ padding) = Some data"
proof -
  have "[0..<16] = [0..<length padding] @ [length padding..<16]" using assms(2) upt_add_eq_append[of 0 "length padding" "16 - length padding"] by simp
  also have "[length padding..<16] = length padding # [Suc (length padding)..<16]" using assms(2) by (simp add: upt_rec)
  finally show ?thesis using guess_loop_finds[OF assms(1), of 0] assms(3) by (simp add: GuessDataWithHash_def)
qed

lemma EncryptExchangeAnswer_form:
  assumes "EncryptExchangeAnswer lib rand answer key iv = (Inr out, rand')"
  shows "\<exists>n. n < 16 \<and> n \<le> length rand \<and> n = paddedLen16 (length answer + 20) - (20 + length answer) \<and> rand' = drop n rand
    \<and> out = ige_encrypt lib key iv (sha1 answer @ answer @ take n rand) \<and> 16 dvd length (sha1 answer @ answer @ take n rand)
    \<and> aes_NewCipher key = None"
proof -
  define n where "n = paddedLen16 (length answer + 20) - (20 + length answer)"
  have aes: "aes_NewCipher key = None" using assms by (cases "aes_NewCipher key") (simp_all add: EncryptExchangeAnswer_def)
  have n: "n < 16" "length answer + 20 + n = paddedLen16 (length answer + 20)"
    using paddedLen16_bounds[of "length answer + 20"] by (simp_all add: n_def)
  have len: "n \<le> length rand" and out: "out = ige_encrypt lib key iv (sha1 answer @ answer @ take n rand)" "rand' = drop n rand"
    using aes assms by (auto simp: EncryptExchangeAnswer_def DataWithHash_def n_def io_ReadFull_def split: if_splits)
  have "16 dvd length (sha1 answer @ answer @ take n rand)"
    using n(2) len paddedLen16_bounds(3)[of "length answer + 20"] by (simp add: ac_simps)
  with n(1) len out aes show ?thesis unfolding n_def by blast
qed

text \<open>The guess may take some of the padding for data, but nothing else.\<close>

lemma guess_loop_extends:
  "i \<le> length padding \<Longrightarrow> length padding < 16 \<Longrightarrow> \<exists>k. guess_loop (sha1 data @ data @ padding) [i..<16] = Some (data @ take k padding)"
proof (induction "length padding - i" arbitrary: i)
  case 0
  then have "[i..<16] = i # [Suc i..<16]" "i = length padding" by (simp_all add: upt_rec)
  then have "guess_loop (sha1 data @ data @ padding) [i..<16] = Some (data @ take 0 padding)" by (simp add: go_slice_def Let_def)
  then show ?case by blast
next
  case (Suc n)
  let ?d = "sha1 data @ data @ padding"
  have "[i..<16] = i # [Suc i..<16]" using Suc by (simp add: upt_rec)
  moreover have "go_slice 20 (length ?d - i) ?d = data @ take (length padding - i) padding" using Suc by (simp add: go_slice_def)
  moreover have "\<exists>k. guess_loop ?d [Suc i..<16] = Some (data @ take k padding)" using Suc.hyps(1)[of "Suc i"] Suc.hyps(2) Suc.prems by simp
  ultimately show ?case using Suc.prems by (auto simp: Let_def)
qed

lemma ExchangeAnswer_extends:
  assumes "ige_inverts lib" "length key = 32" "length iv = 32" "EncryptExchangeAnswer lib rand answer key iv = (Inr out, rand')"
  shows "\<exists>padding. DecryptExchangeAnswer lib out key iv = Inr (Some (answer @ padding)) \<and> length out < length answer + 36"
proof -
  obtain n where n: "n < 16" "n \<le> length rand" "out = ige_encrypt lib key iv (sha1 answer @ answer @ take n rand)"
    "16 dvd length (sha1 answer @ answer @ take n rand)" "aes_NewCipher key = None"
    using EncryptExchangeAnswer_form[OF assms(4)] by blast
  have dec: "ige_decrypt lib key iv out = sha1 answer @ answer @ take n rand" "length out = length (sha1 answer @ answer @ take n rand)"
    using assms(1-3) n(3,4) unfolding ige_inverts_def by auto
  have "\<not> 16 dvd (20 :: nat)" by simp
  then have "answer \<noteq> [] \<or> n \<noteq> 0" using n(2,4) by (cases "n = 0") auto
  moreover obtain k where "guess_loop (sha1 answer @ answer @ take n rand) [0..<16] = Some (answer @ take k (take n rand))"
    using guess_loop_extends[of 0 "take n rand" answer] n(1,2) by auto
  moreover have "length out mod 16 = 0" "out \<noteq> []" using dec(2) n(4) by auto
  ultimately show ?thesis using dec n by (auto simp: DecryptExchangeAnswer_def GuessDataWithHash_def)
qed

subsection \<open>Factorization\<close>

lemma mul_loop_eq:
  "a < what \<Longrightarrow> c < what \<Longrightarrow> mul_loop what a b c = (c + a * b) mod what"
proof (induction what a b c rule: mul_loop.induct)
  case (1 what a b c)
  define c' where "c' = (if b mod 2 > 0 then (if c + a \<ge> what then c + a - what else c + a) else c)"
  define a' where "a' = (if a + a \<ge> what then a + a - what else a + a)"
  have lt: "a' < what" "c' < what" using 1(2,3) by (auto simp: a'_def c'_def)
  have a': "a' mod what = (2 * a) mod what" by (simp add: a'_def le_mod_geq mult_2)
  have c': "c' mod what = (c + a * (b mod 2)) mod what"
    by (cases "b mod 2 = 0") (auto simp: c'_def le_mod_geq)
  show ?case
  proof (cases "b > 0")
    case True
    have e: "(if b mod 2 > 0 then (let c = c + a in if c \<ge> what then c - what else c) else c) = c'"
      "(if a + a \<ge> what then a + a - what else a + a) = a'" by (simp_all add: c'_def a'_def Let_def)
    have "mul_loop what a b c = mul_loop what a' (b div 2) c'"
      using True by (subst mul_loop.simps) (simp only: Let_def[where s = "a + a"] e if_True Let_def[where s = c'] Let_def[where s = a'])
    also have "\<dots> = (c' + a' * (b div 2)) mod what" using 1(1)[OF True refl refl refl] lt unfolding e by blast
    also have "\<dots> = (c + a * (b mod 2) + 2 * a * (b div 2)) mod what"
      by (intro mod_add_cong mod_mult_cong a' c' refl)
    also have "c + a * (b mod 2) + 2 * a * (b div 2) = c + a * (b mod 2 + 2 * (b div 2))"
      by (simp only: distrib_left mult.assoc mult.left_commute[of 2 a] add.assoc)
    also have "b mod 2 + 2 * (b div 2) = b" by presburger
    finally show ?thesis .
  qed (use 1(3) in \<open>simp add: mul_loop.simps\<close>)
qed

lemma rho_loop_dvd: "g = 0 \<or> g dvd what \<Longrightarrow> rho_loop what v lim g j x y = 0 \<or> rho_loop what v lim g j x y dvd what"
proof (induction what v lim g j x y rule: rho_loop.induct)
  case (1 what v lim g j x y)
  show ?case
  proof (cases "j < lim")
    case True
    let ?x = "mul_loop what x x v"
    let ?g = "gcd (if ?x < y then what + ?x - y else ?x - y) what"
    show ?thesis
    proof (cases "?g = 1")
      case False
      then have "rho_loop what v lim g j x y = ?g" using True by (subst rho_loop.simps) (simp add: Let_def)
      then show ?thesis by simp
    next
      case g1: True
      then have "rho_loop what v lim g j x y = rho_loop what v lim ?g (j + 1) ?x (if j AND (j - 1) = 0 then ?x else y)"
        using True by (subst rho_loop.simps) (simp add: Let_def)
      then show ?thesis using 1(1)[OF True refl refl refl refl] g1 by simp
    qed
  qed (use 1(2) in \<open>simp add: rho_loop.simps\<close>)
qed

lemma pq_loop_factor:
  "pq_loop what g i rand = (Inr f, rand') \<Longrightarrow> g = 0 \<or> g dvd what \<Longrightarrow> 1 < f \<and> f < what \<and> f dvd what"
proof (induction rand arbitrary: g i rule: length_induct)
  case (1 rand)
  show ?case
  proof (cases "g > 1 \<and> g < what")
    case True
    then show ?thesis using 1(2,3) by (subst (asm) pq_loop.simps) auto
  next
    case False
    obtain vb e1 r1 where io1: "io_ReadFull 8 rand = (vb, e1, r1)" by (metis surj_pair)
    obtain xb e2 r2 where io2: "io_ReadFull 8 r1 = (xb, e2, r2)" by (metis surj_pair)
    note u = pq_loop.simps[of what g i rand]
    have e1: "e1 = None" "what \<noteq> 0" using 1(2) False io1 u by (auto split: option.splits if_splits)
    then have e2: "e2 = None" "what \<noteq> 1" using 1(2) False io1 io2 u by (auto split: option.splits if_splits simp: Let_def)
    define h where "h = rho_loop what ((SetBytes vb mod 16 + 17) mod what) (pq_lim i) g 1 (SetBytes xb mod (what - 1) + 1) (SetBytes xb mod (what - 1) + 1)"
    have "pq_loop what g i rand = pq_loop what h (i + 1) r2"
      using io1 io2 e1 e2 by (subst u, subst if_not_P[OF False]) (simp add: Let_def h_def)
    then have "pq_loop what h (i + 1) r2 = (Inr f, rand')" using 1(2) by simp
    moreover have "length r2 < length rand" using io1 io2 e1 e2 io_ReadFull_shorter[of 8 rand] io_ReadFull_shorter[of 8 r1] by fastforce
    moreover have "h = 0 \<or> h dvd what" unfolding h_def by (rule rho_loop_dvd) (rule 1(3))
    ultimately show ?thesis using 1(1) by blast
  qed
qed

subsection \<open>The cache of validated parameters\<close>

text \<open>Every entry was validated, and the array has 16 slots.\<close>

definition cache_ok :: "(nat \<Rightarrow> bool) \<Rightarrow> validatedDHParameterCache \<Rightarrow> bool" where
  "cache_ok Prime c \<longleftrightarrow> length (cache_entries c) \<le> validatedDHParameterCacheCapacity \<and> cache_next c < validatedDHParameterCacheCapacity
     \<and> (\<forall>key\<in>set (cache_entries c). \<exists>g p. validatedDHKey g p = Some (Inr key) \<and> validate_dh Prime g p = None)"

lemma validatedDHKey_inj:
  "validatedDHKey g p = Some (Inr key) \<Longrightarrow> validatedDHKey g' p' = Some (Inr key) \<Longrightarrow> g = g' \<and> p = p'"
  by (auto simp: validatedDHKey_def big_FillBytes_def split: if_splits) (metis SetBytes_big_Bytes SetBytes_zeros)

lemma validatedDHKey_no_panic: "validatedDHKey g p \<noteq> Some (Inl err)"
proof
  assume a: "validatedDHKey g p = Some (Inl err)"
  then have "BitLen p \<le> RSAKeyBits" by (simp add: validatedDHKey_def split: if_splits)
  then have "p < 2 ^ (8 * (RSAKeyBits div 8))" unfolding BitLen_le by (simp add: RSAKeyBits_def)
  also have "(2 :: nat) ^ (8 * (RSAKeyBits div 8)) = 256 ^ (RSAKeyBits div 8)" by (simp only: power_mult) simp
  finally obtain bs where "big_FillBytes (RSAKeyBits div 8) p = Inr bs" using big_FillBytes_fits by blast
  with a show False by (simp add: validatedDHKey_def split: if_splits)
qed

definition is_prime :: "nat \<Rightarrow> bool" where
  "is_prime n \<longleftrightarrow> 1 < n \<and> (\<forall>d. d dvd n \<longrightarrow> d = 1 \<or> d = n)"

section \<open>Properties\<close>

text \<open>
  C32. The factors that the client proves its work with. Whenever \<open>DecomposePQ\<close> returns, the two numbers are
  proper factors of \<open>pq\<close>, in order; so for the product of two primes they are these
  primes.
\<close>

theorem DecomposePQ_factors:
  assumes "DecomposePQ pq rand = (Inr (p, q), rand')"
  shows "p * q = pq \<and> 1 < p \<and> p \<le> q \<and> q < pq
    \<and> (\<forall>a b. is_prime a \<and> is_prime b \<and> a \<le> b \<and> pq = a * b \<longrightarrow> p = a \<and> q = b)"
proof -
  obtain g r where g: "pq_loop pq 0 0 rand = (Inr g, r)" "(p, q) = (if g > pq div g then (pq div g, g) else (g, pq div g))"
    using assms by (auto simp: DecomposePQ_def Let_def split: prod.splits sum.splits)
  have f: "1 < g" "g < pq" "g dvd pq" using pq_loop_factor[OF g(1)] by auto
  then obtain h where h: "pq = g * h" by blast
  have "h \<noteq> 0" "h \<noteq> 1" using f h by auto
  then have "pq div g = h" "1 < h" "h < pq" using f h by simp_all
  then have pq: "p * q = pq" "1 < p" "p \<le> q" "q < pq" using g(2) f h by (auto split: if_splits)
  moreover have "p = a \<and> q = b" if "is_prime a" "is_prime b" "a \<le> b" "pq = a * b" for a b
  proof (cases "a dvd p")
    case True
    then obtain k where k: "p = a * k" by blast
    then have "b = k * q" using that(1,4) pq(1) by (auto simp: is_prime_def)
    then have "q = b" using that(2) pq(2,3) unfolding is_prime_def by (metis dvd_triv_right less_le_trans less_irrefl)
    then show ?thesis using k \<open>b = k * q\<close> pq(2,3) by simp
  next
    case False
    then have "coprime p a" using that(1) unfolding is_prime_def coprime_iff_gcd_eq_1 by (metis gcd_dvd1 gcd_dvd2)
    then have "p dvd b" using that(4) pq(1) by (metis coprime_dvd_mult_right_iff dvd_triv_left)
    then have "p = b" using that(2) pq(2) by (auto simp: is_prime_def)
    then show ?thesis using pq that(3,4) by simp
  qed
  ultimately show ?thesis by blast
qed

text \<open>The draws 1 and 0 give the factors of 15 in the first step.\<close>

theorem DecomposePQ_factors_witness: "fst (DecomposePQ 15 (replicate 7 0 @ [1] @ replicate 8 0)) = Inr (3, 5)"
proof -
  let ?r = "replicate 7 0 @ [1] @ replicate 8 0 :: bytes"
  have io: "io_ReadFull 8 ?r = (replicate 7 0 @ [1], None, replicate 8 0)"
    "io_ReadFull 8 (replicate 8 0 :: bytes) = (replicate 8 0, None, [])" by (simp_all add: io_ReadFull_def)
  have v: "SetBytes (replicate 7 0 @ [1]) = 1" "SetBytes (replicate 8 0) = 0" by simp_all
  have "pq_lim 0 > 1" by (simp add: pq_lim_def)
  then have "rho_loop 15 3 (pq_lim 0) 0 1 1 1 = 3"
    by (subst rho_loop.simps) (simp add: mul_loop_eq Let_def gcd_non_0_nat)
  then have "pq_loop 15 0 0 ?r = pq_loop 15 3 1 []" using io v by (subst pq_loop.simps) simp
  also have "\<dots> = (Inr 3, [])" by (subst pq_loop.simps) simp
  finally obtain p q r where d: "DecomposePQ 15 ?r = (Inr (p, q), r)" by (simp add: DecomposePQ_def)
  have "n = 1 \<or> n = 3" if "n dvd 3" for n :: nat
  proof -
    have "n = 0 \<or> n = 1 \<or> n = 2 \<or> n = 3" using dvd_imp_le[OF that] by linarith
    then show ?thesis using that by auto
  qed
  then have "is_prime 3" by (simp add: is_prime_def)
  moreover have "n = 1 \<or> n = 5" if "n dvd 5" for n :: nat
  proof -
    have "n = 0 \<or> n = 1 \<or> n = 2 \<or> n = 3 \<or> n = 4 \<or> n = 5" using dvd_imp_le[OF that] by linarith
    then show ?thesis using that by auto
  qed
  then have "is_prime 5" by (simp add: is_prime_def)
  moreover have "is_prime 3 \<and> is_prime 5 \<and> 3 \<le> (5 :: nat) \<and> 15 = 3 * (5 :: nat) \<longrightarrow> p = 3 \<and> q = 5"
    using DecomposePQ_factors[OF d] by blast
  ultimately have "p = 3 \<and> q = 5" by simp
  then show ?thesis using d by simp
qed

lemma RSAPad_decodes:
  assumes "ige_inverts lib" and "xor_bytewise lib" and "rsa_pair sk" and a: "RSAPad lib data (sk_Public sk) rand = (Inr out, rand')"
  shows "\<exists>padding. DecodeRSAPad lib out sk = Inr (data @ padding) \<and> length (data @ padding) = 192"
proof -
  have len: "length data \<le> 144" using a by (simp add: RSAPad_def rsaPadDataLimit_def split: if_splits)
  obtain padding e r where io: "io_ReadFull (192 - length data) rand = (padding, e, r)" by (metis surj_pair)
  have "e = None" using a io by (cases e) (simp_all add: RSAPad_def dataWithPaddingLength_def split: if_splits)
  then have "length (data @ padding) = 192" "rsa_pad_loop lib (data @ padding) (sk_Public sk) r = (Inr out, rand')"
    using a io len by (auto simp: RSAPad_def dataWithPaddingLength_def io_ReadFull_def split: if_splits)
  then show ?thesis using rsa_pad_loop_decodes[OF assms(1,2,3)] by blast
qed

lemma RSAPad_returns:
  assumes "ige_inverts lib" and "xor_bytewise lib" and "rsa_pair sk" and "length data \<le> 144"
    and a: "length (data @ padding) = 192" "length tk = 32" "SetBytes (key_aes_encrypted lib (data @ padding) tk) < pk_N (sk_Public sk)"
  shows "\<exists>out. RSAPad lib data (sk_Public sk) (padding @ tk @ rest) = (Inr out, rest)"
proof -
  have "io_ReadFull (192 - length data) (padding @ tk @ rest) = (padding, None, tk @ rest)" using a(1) by auto
  moreover have "io_ReadFull tempKeySize (tk @ rest) = (tk, None, rest)" using a(2) by (simp add: tempKeySize_def)
  moreover obtain out where "rsaEncrypt (key_aes_encrypted lib (data @ padding) tk) (sk_Public sk) = Inr out"
    using key_aes_encrypted_decodes[OF assms(1,2,3) a] by blast
  ultimately have "RSAPad lib data (sk_Public sk) (padding @ tk @ rest) = (Inr out, rest)"
    using a assms(4) by (simp add: RSAPad_def rsaPadDataLimit_def dataWithPaddingLength_def rsa_pad_loop.simps[of _ _ _ "tk @ rest"] aes_NewCipher_def)
  then show ?thesis ..
qed

text \<open>
  C29. RSA with padding is inverted by the holder of the private key: whatever \<open>RSAPad\<close> returns, \<open>DecodeRSAPad\<close>
  recovers the data, followed by the random bytes that fill them up to 192. \<open>RSAPad\<close>
  returns as soon as it draws a \<open>temp_key\<close> for which the padded value is below the modulus.
\<close>

theorem RSAPad_roundtrip:
  assumes "ige_inverts lib" and "xor_bytewise lib" and "rsa_pair sk" and "length data \<le> 144"
  shows "(RSAPad lib data (sk_Public sk) rand = (Inr out, rand') \<longrightarrow>
            (\<exists>padding. DecodeRSAPad lib out sk = Inr (data @ padding) \<and> length (data @ padding) = 192))
    \<and> (length (data @ padding) = 192 \<and> length tk = 32 \<and> SetBytes (key_aes_encrypted lib (data @ padding) tk) < pk_N (sk_Public sk) \<longrightarrow>
        (\<exists>out. RSAPad lib data (sk_Public sk) (padding @ tk @ rest) = (Inr out, rest)))"
  using RSAPad_decodes[OF assms(1-3)] RSAPad_returns[OF assms] by blast

text \<open>The pair with exponents 1 and the largest modulus.\<close>

definition example_rsa :: PrivateKey where
  "example_rsa = \<lparr>sk_Public = \<lparr>pk_N = 256 ^ rsaLen, pk_E = 1\<rparr>, sk_D = 1\<rparr>"

lemma example_rsa_pair: "rsa_pair example_rsa"
  by (simp add: rsa_pair_def example_rsa_def big_Exp_def)

lemma length_key_aes_encrypted:
  assumes "ige_inverts lib" "xor_bytewise lib" "length p = 192" "length tk = 32"
  shows "length (key_aes_encrypted lib p tk) = rsaLen"
proof -
  have "length (ige_encrypt lib tk (replicate 32 0) (take dataWithHashLength (rev p @ sha256 (tk @ p)))) = 224"
    using assms unfolding ige_inverts_def by (auto simp: pad_lengths dvd_def)
  then show ?thesis using assms by (simp add: key_aes_encrypted_def Let_def reverseBytes_rev xor_bytewise_def rsaLen_def)
qed

lemma example_rsa_accepts:
  "length p = 192 \<Longrightarrow> length tk = 32 \<Longrightarrow> SetBytes (key_aes_encrypted copy_cipher p tk) < pk_N (sk_Public example_rsa)"
  using SetBytes_less[of "key_aes_encrypted copy_cipher p tk"] length_key_aes_encrypted[OF copy_cipher_laws, of p tk]
  by (simp add: example_rsa_def)

theorem RSAPad_roundtrip_witness:
  "\<exists>out padding. RSAPad copy_cipher [1, 2, 3] (sk_Public example_rsa) (replicate 189 5 @ replicate 32 6 @ []) = (Inr out, [])
     \<and> DecodeRSAPad copy_cipher out example_rsa = Inr ([1, 2, 3] @ padding)"
proof -
  have l: "length [1, 2, 3 :: 8 word] \<le> 144" "length ([1, 2, 3] @ replicate 189 5 :: bytes) = 192" "length (replicate 32 6 :: bytes) = 32" by simp_all
  note rt = RSAPad_roundtrip[OF copy_cipher_laws example_rsa_pair l(1)]
  obtain out where o: "RSAPad copy_cipher [1, 2, 3] (sk_Public example_rsa) (replicate 189 5 @ replicate 32 6 @ []) = (Inr out, [])"
    using rt[THEN conjunct2, THEN mp, OF conjI[OF l(2) conjI[OF l(3) example_rsa_accepts[OF l(2,3)]]]] by blast
  then show ?thesis using rt[THEN conjunct1, THEN mp, OF o] by blast
qed

text \<open>
  The encrypted answers of the exchange. What \<open>EncryptExchangeAnswer\<close> makes of an answer, \<open>DecryptExchangeAnswer\<close>
  returns, provided that no longer prefix of the padding has the same hash. Whatever it
  returns from any input has the hash it came with.
\<close>

theorem ExchangeAnswer_roundtrip:
  assumes "ige_inverts lib" and "length key = 32" and "length iv = 32"
  shows "(EncryptExchangeAnswer lib rand answer key iv = (Inr out, rand') \<and>
            (\<forall>k. 0 < k \<and> k \<le> paddedLen16 (length answer + 20) - (20 + length answer) \<longrightarrow> sha1 (answer @ take k rand) \<noteq> sha1 answer) \<longrightarrow>
            DecryptExchangeAnswer lib out key iv = Inr (Some answer))
    \<and> (DecryptExchangeAnswer lib data key iv = Inr (Some d) \<longrightarrow> sha1 d = take 20 (ige_decrypt lib key iv data))
    \<and> (paddedLen16 (length answer + 20) - (20 + length answer) \<le> length rand \<longrightarrow>
         (\<exists>out rand'. EncryptExchangeAnswer lib rand answer key iv = (Inr out, rand')))"
proof (intro conjI impI)
  assume a: "EncryptExchangeAnswer lib rand answer key iv = (Inr out, rand') \<and>
      (\<forall>k. 0 < k \<and> k \<le> paddedLen16 (length answer + 20) - (20 + length answer) \<longrightarrow> sha1 (answer @ take k rand) \<noteq> sha1 answer)"
  then obtain n where n: "n < 16" "n = paddedLen16 (length answer + 20) - (20 + length answer)" and len: "n \<le> length rand"
    and out: "out = ige_encrypt lib key iv (sha1 answer @ answer @ take n rand)"
    and p16: "16 dvd length (sha1 answer @ answer @ take n rand)" and aes: "aes_NewCipher key = None"
    using EncryptExchangeAnswer_form by blast
  have "ige_decrypt lib key iv out = sha1 answer @ answer @ take n rand" "length out = length (sha1 answer @ answer @ take n rand)"
    using assms p16 unfolding ige_inverts_def out by auto
  moreover have "GuessDataWithHash (sha1 answer @ answer @ take n rand) = Some answer"
  proof (rule GuessDataWithHash_finds)
    show "\<forall>k. 0 < k \<and> k \<le> length (take n rand) \<longrightarrow> sha1 (answer @ take k (take n rand)) \<noteq> sha1 answer"
      using a n(2) by (simp add: min_def)
    have "\<not> 16 dvd (20 :: nat)" by simp
    then show "0 < length answer + length (take n rand)" using p16 len by (cases "answer = [] \<and> n = 0") auto
  qed (use n(1) in simp)
  moreover have "length out mod 16 = 0" using calculation(2) p16 by auto
  moreover have "out \<noteq> []" using calculation(2) by auto
  ultimately show "DecryptExchangeAnswer lib out key iv = Inr (Some answer)" using aes by (simp add: DecryptExchangeAnswer_def)
next
  assume "DecryptExchangeAnswer lib data key iv = Inr (Some d)"
  then show "sha1 d = take 20 (ige_decrypt lib key iv data)"
    using guess_loop_sound by (auto simp: DecryptExchangeAnswer_def Let_def GuessDataWithHash_def split: option.splits if_splits)
next
  assume "paddedLen16 (length answer + 20) - (20 + length answer) \<le> length rand"
  then show "\<exists>out rand'. EncryptExchangeAnswer lib rand answer key iv = (Inr out, rand')"
    using assms(2) by (simp add: EncryptExchangeAnswer_def DataWithHash_def io_ReadFull_def aes_NewCipher_def)
qed

text \<open>Twelve bytes need no padding.\<close>

theorem ExchangeAnswer_roundtrip_witness:
  "\<exists>out. EncryptExchangeAnswer copy_cipher [] (replicate 12 4) (replicate 32 1) (replicate 32 2) = (Inr out, [])
     \<and> DecryptExchangeAnswer copy_cipher out (replicate 32 1) (replicate 32 2) = Inr (Some (replicate 12 4))"
proof -
  have z: "paddedLen16 (length (replicate 12 4 :: bytes) + 20) - (20 + length (replicate 12 4 :: bytes)) = 0" by (simp add: paddedLen16_def)
  then obtain out where o: "EncryptExchangeAnswer copy_cipher [] (replicate 12 4) (replicate 32 1) (replicate 32 2) = (Inr out, [])"
    by (simp add: EncryptExchangeAnswer_def DataWithHash_def io_ReadFull_def aes_NewCipher_def)
  have "length (replicate 32 1 :: bytes) = 32" "length (replicate 32 2 :: bytes) = 32" by simp_all
  from ExchangeAnswer_roundtrip[OF copy_cipher_laws(1) this, of "[]" "replicate 12 4" out "[]", THEN conjunct1] o z
  show ?thesis by auto
qed

text \<open>
  The test that should report a failed guess looks at the input instead of the result, so
  input that hashes to nothing is returned as a nil slice without an error.
\<close>

theorem DecryptExchangeAnswer_unverified:
  assumes "GuessDataWithHash (ige_decrypt lib key iv data) = None" "length key = 32" "data \<noteq> []" "length data mod 16 = 0"
  shows "DecryptExchangeAnswer lib data key iv = Inr None"
  using assms by (simp add: DecryptExchangeAnswer_def aes_NewCipher_def)

lemma checkDHWithCache_spec:
  assumes "cache_ok Prime c"
  shows "case checkDHWithCache Prime c g p of (err, c') \<Rightarrow>
      err = (if BitLen p \<noteq> 2048 then Some (Errorf ''p should be 2^2047 < p < 2^2048'' []) else validate_dh Prime g p) \<and> cache_ok Prime c'"
proof (cases "validatedDHKey g p")
  case None
  moreover have "BitLen 0 = 0" by (simp add: BitLen.simps)
  ultimately have "BitLen p \<noteq> 2048" by (cases "p = 0") (simp_all add: validatedDHKey_def RSAKeyBits_def split: if_splits)
  then show ?thesis using None assms by (simp add: checkDHWithCache_def)
next
  case (Some r)
  then obtain key where key: "validatedDHKey g p = Some (Inr key)" using validatedDHKey_no_panic by (cases r) auto
  then have b: "BitLen p = 2048" by (simp add: validatedDHKey_def RSAKeyBits_def split: if_splits)
  show ?thesis
  proof (cases "containsLocked key c")
    case True
    then have "validate_dh Prime g p = None"
      using assms key validatedDHKey_inj unfolding cache_ok_def containsLocked_def by blast
    then show ?thesis using True key b assms by (simp add: checkDHWithCache_def cache_validate_def)
  next
    case False
    show ?thesis
    proof (cases "validate_dh Prime g p")
      case v: None
      have "cache_ok Prime (c\<lparr>cache_entries := cache_entries c @ [key]\<rparr>)" if "length (cache_entries c) < validatedDHParameterCacheCapacity"
        using assms that key v by (auto simp: cache_ok_def)
      moreover have "cache_ok Prime (c\<lparr>cache_entries := (cache_entries c)[cache_next c := key], cache_next := (cache_next c + 1) mod validatedDHParameterCacheCapacity\<rparr>)"
        using assms key v set_update_subset_insert[of "cache_entries c" "cache_next c" key]
        unfolding cache_ok_def by (auto simp: validatedDHParameterCacheCapacity_def)
      ultimately show ?thesis using False key b v by (simp add: checkDHWithCache_def cache_validate_def)
    qed (use False key b assms in \<open>simp add: checkDHWithCache_def cache_validate_def\<close>)
  qed
qed

text \<open>
  C33. The cache of validated Diffie-Hellman parameters is transparent: from a cache whose entries were
  validated, the verdict is the one of the full check of the size, the generator and both
  primes, and every entry of the cache afterwards was validated too, in at most 16 slots.
\<close>

theorem checkDH_cache_transparent:
  assumes "cache_ok Prime c"
  shows "case checkDHWithCache Prime c g p of (err, c') \<Rightarrow>
      err = (if BitLen p \<noteq> 2048 then Some (Errorf ''p should be 2^2047 < p < 2^2048'' []) else validate_dh Prime g p) \<and> cache_ok Prime c'"
  using assms by (rule checkDHWithCache_spec)

theorem checkDH_cache_transparent_witness:
  "fst (checkDHWithCache (\<lambda>_. True) \<lparr>cache_entries = [], cache_next = 0\<rparr> 4 (2 ^ 2047)) = None"
proof -
  have "(2 :: nat) ^ 2047 < 2 ^ 2048" by (rule power_strict_increasing) simp_all
  then have "BitLen (2 ^ 2047) \<le> 2048" "\<not> BitLen (2 ^ 2047) \<le> 2047" unfolding BitLen_le by simp_all
  then have "BitLen (2 ^ 2047) = 2048" by linarith
  moreover have "cache_ok (\<lambda>_. True) \<lparr>cache_entries = [], cache_next = 0\<rparr>"
    by (simp add: cache_ok_def validatedDHParameterCacheCapacity_def)
  moreover have "validate_dh (\<lambda>_. True) 4 (2 ^ 2047) = None" by (simp add: validate_dh_def CheckGP_def checkPrime_def Let_def)
  ultimately show ?thesis
    using checkDH_cache_transparent[of "\<lambda>_. True" "\<lparr>cache_entries = [], cache_next = 0\<rparr>" "2 ^ 2047" 4]
    by (cases "checkDHWithCache (\<lambda>_. True) \<lparr>cache_entries = [], cache_next = 0\<rparr> 4 (2 ^ 2047)") (simp only: split_conv fst_conv if_not_P simp_thms)
qed

end
