(* ===== verification/Exchange.thy ===== *)
theory Exchange
  imports Kex Mt_Exchange Message_ID Proto_Messages Codec
begin

text \<open>
  Package \<open>exchange\<close>: the two sides of the key exchange, \<open>ClientExchange.Run\<close>
  (\<open>client_flow.go\<close>) and \<open>ServerExchange.Run\<close> (\<open>server_flow.go\<close>), over the plain messages of
  \<open>proto.go\<close>. A run is a computation on what the exchanger owns: the answers of \<open>conn.Recv\<close> still to
  come, the frames given to \<open>conn.Send\<close> with the answers of \<open>Send\<close>, the source of random
  bytes, the readings of the clock and the process-wide cache of validated Diffie-Hellman
  parameters. When the frames have run out the peer has closed the connection. Timeouts of
  the context are errors of \<open>Recv\<close> and \<open>Send\<close>; logging is left out. The buffer \<open>b\<close> is reset
  before each use and is not part of the state.
\<close>

section \<open>Computations\<close>

record xio =
  x_in :: "(go_error + bytes) list"
  x_out :: "bytes list"
  x_send :: "nat \<Rightarrow> go_error option"
  x_rand :: bytes
  x_clock :: "nat \<Rightarrow> int"
  x_ticks :: nat
  x_cache :: validatedDHParameterCache

type_synonym 'a xm = "xio \<Rightarrow> (go_error + 'a) \<times> xio"

definition x_return :: "'a \<Rightarrow> 'a xm" where
  "x_return v s = (Inr v, s)"

definition x_fail :: "go_error \<Rightarrow> 'a xm" where
  "x_fail e s = (Inl e, s)"

definition x_bind :: "'a xm \<Rightarrow> ('a \<Rightarrow> 'b xm) \<Rightarrow> 'b xm" where
  "x_bind m f s = (case m s of (Inl e, s) \<Rightarrow> (Inl e, s) | (Inr v, s) \<Rightarrow> f v s)"

text \<open>\<open>if err != nil { return ..., g(err) }\<close>.\<close>

definition x_map_err :: "(go_error \<Rightarrow> go_error) \<Rightarrow> 'a xm \<Rightarrow> 'a xm" where
  "x_map_err g m s = (case m s of (Inl e, s) \<Rightarrow> (Inl (g e), s) | (Inr v, s) \<Rightarrow> (Inr v, s))"

definition x_lift :: "go_error + 'a \<Rightarrow> 'a xm" where
  "x_lift r s = (r, s)"

definition x_draw :: "(bytes \<Rightarrow> (go_error + 'a) \<times> bytes) \<Rightarrow> 'a xm" where
  "x_draw f s = (case f (x_rand s) of (r, rand) \<Rightarrow> (r, s\<lparr>x_rand := rand\<rparr>))"

definition x_now :: "int xm" where
  "x_now s = (Inr (x_clock s (x_ticks s)), s\<lparr>x_ticks := Suc (x_ticks s)\<rparr>)"

definition conn_Send :: "bytes \<Rightarrow> unit xm" where
  "conn_Send b s = (case x_send s (length (x_out s)) of Some err \<Rightarrow> (Inl err, s) | None \<Rightarrow> (Inr (), s\<lparr>x_out := x_out s @ [b]\<rparr>))"

definition conn_Recv :: "bytes xm" where
  "conn_Recv s = (case x_in s of [] \<Rightarrow> (Inl EOF, s) | r # rs \<Rightarrow> (r, s\<lparr>x_in := rs\<rparr>))"

text \<open>Decoding a buffer that the exchanger holds; what is left in it is not used.\<close>

definition x_decode :: "'a dec \<Rightarrow> bytes \<Rightarrow> 'a xm" where
  "x_decode d b = x_lift (fst (d b))"

text \<open>\<open>crypto.CheckDH\<close> with the cache of the process.\<close>

definition CheckDH :: "(nat \<Rightarrow> bool) \<Rightarrow> int \<Rightarrow> nat \<Rightarrow> unit xm" where
  "CheckDH Prime g p s =
     (case checkDHWithCache Prime (x_cache s) g p of
        (Some err, c) \<Rightarrow> (Inl err, s\<lparr>x_cache := c\<rparr>)
      | (None, c) \<Rightarrow> (Inr (), s\<lparr>x_cache := c\<rparr>))"

section \<open>proto.go\<close>

record unencryptedWriter =
  w_input :: MessageType
  w_output :: MessageType

definition isClient :: "unencryptedWriter \<Rightarrow> bool" where
  "isClient w \<longleftrightarrow> w_output w = MessageFromClient"

definition checkMsgID :: "unencryptedWriter \<Rightarrow> 64 word \<Rightarrow> go_error option" where
  "checkMsgID w i = (if MessageID_Type i \<noteq> w_input w then Some (Errorf ''bad msg type'' []) else None)"

definition writeUnencrypted :: "unencryptedWriter \<Rightarrow> (buffer \<Rightarrow> buffer) \<Rightarrow> unit xm" where
  "writeUnencrypted w encode =
     x_bind x_now (\<lambda>now.
     conn_Send (UnencryptedMessage_Encode \<lparr>MessageID = NewMessageID now (w_output w), MessageData = encode []\<rparr> []))"

text \<open>The loop around \<open>tryRead\<close>: a client waits through \<open>-404\<close>.\<close>

fun tryRead_loop :: "bool \<Rightarrow> (go_error + bytes) list \<Rightarrow> (go_error + bytes) \<times> (go_error + bytes) list" where
  "tryRead_loop client [] = (Inl EOF, [])"
| "tryRead_loop client (Inr b # rs) = (Inr b, rs)"
| "tryRead_loop client (Inl err # rs) =
     (if client \<and> root_error err = ProtocolErr CodeAuthKeyNotFound then tryRead_loop client rs else (Inl err, rs))"

definition readUnencrypted :: "unencryptedWriter \<Rightarrow> 'a dec \<Rightarrow> 'a xm" where
  "readUnencrypted w decode s =
     (case tryRead_loop (isClient w) (x_in s) of
        (Inl err, rs) \<Rightarrow> (Inl err, s\<lparr>x_in := rs\<rparr>)
      | (Inr b, rs) \<Rightarrow>
         let s = s\<lparr>x_in := rs\<rparr> in
         if \<not> isClient w \<and> 8 \<le> length b \<and> take 8 b \<noteq> replicate 8 0 then (Inl (UnexpectedEncryptedError (take 8 b) b), s)
         else
           (case UnencryptedMessage_Decode b of
              (Inl err, _) \<Rightarrow> (Inl err, s)
            | (Inr msg, _) \<Rightarrow>
               (case checkMsgID w (MessageID msg) of
                  Some err \<Rightarrow> (Inl err, s)
                | None \<Rightarrow> (fst (decode (MessageData msg)), s))))"

section \<open>flow.go, client.go, key.go\<close>

datatype ExchangeMode = ExchangeModePermanent | ExchangeModeTemporary

text \<open>\<open>Exchanger.Client\<close> and \<open>Exchanger.Server\<close> fix the types of the messages.\<close>

definition client_writer :: unencryptedWriter where
  "client_writer = \<lparr>w_input = MessageServerResponse, w_output = MessageFromClient\<rparr>"

definition server_writer :: unencryptedWriter where
  "server_writer = \<lparr>w_input = MessageFromClient, w_output = MessageServerResponse\<rparr>"

record ClientExchange =
  ce_keys :: "PublicKey list"
  ce_dc :: int
  ce_mode :: ExchangeMode
  ce_expiresIn :: int

record ClientExchangeResult =
  cr_AuthKey :: AuthKey
  cr_SessionID :: "64 word"
  cr_ServerSalt :: "64 word"
  cr_ExpiresAt :: int

section \<open>client\_flow.go\<close>

text \<open>The loop labelled \<open>Loop\<close>: the first key one of whose fingerprints the server named.\<close>

fun select_key :: "PublicKey list \<Rightarrow> 64 word list \<Rightarrow> PublicKey option" where
  "select_key [] fingerprints = None"
| "select_key (key # keys) fingerprints =
     (if RSAFingerprint key \<in> set fingerprints then Some key else select_key keys fingerprints)"

text \<open>
  The case \<open>*mt.DhGenOk\<close>: the answer is checked against the key that the client computed.
\<close>

definition client_DhGenOk ::
  "cipher_lib \<Rightarrow> ClientExchange \<Rightarrow> bytes \<Rightarrow> bytes \<Rightarrow> bytes \<Rightarrow> nat \<Rightarrow> DhGenOk \<Rightarrow> ClientExchangeResult xm" where
  "client_DhGenOk lib c nonce serverNonce newNonce authKey v =
     (if DhGenOk_Nonce v \<noteq> nonce then x_fail (Errorf ''DhGenOk nonce mismatch'' [])
      else if DhGenOk_ServerNonce v \<noteq> serverNonce then x_fail (Errorf ''DhGenOk server nonce mismatch'' [])
      else
        x_bind (x_lift (big_FillBytes 256 authKey)) (\<lambda>key.
        if NonceHash1 newNonce key \<noteq> DhGenOk_NewNonceHash1 v then x_fail (Errorf ''key exchange verification failed: hash mismatch'' [])
        else
          x_bind (x_draw NewSessionID) (\<lambda>sessionID.
          let result = \<lparr>cr_AuthKey = \<lparr>AK_Value = key, AK_ID = Key_ID key\<rparr>, cr_SessionID = sessionID,
                        cr_ServerSalt = ServerSalt_of lib newNonce (DhGenOk_ServerNonce v), cr_ExpiresAt = 0\<rparr> in
          if ce_mode c = ExchangeModeTemporary then
            x_bind x_now (\<lambda>now. x_return (result\<lparr>cr_ExpiresAt := sint (word_of_int (now div 1000000000 + ce_expiresIn c) :: 64 word)\<rparr>))
          else x_return result)))"

text \<open>The last part of the flow. The bytes in the two error texts are left out.\<close>

definition client_gen ::
  "cipher_lib \<Rightarrow> ClientExchange \<Rightarrow> bytes \<Rightarrow> bytes \<Rightarrow> bytes \<Rightarrow> nat \<Rightarrow> ClientExchangeResult xm" where
  "client_gen lib c nonce serverNonce newNonce authKey =
     x_bind (x_map_err (Wrap ''read DhGen message'') conn_Recv) (\<lambda>b.
     x_bind (x_map_err (Wrap ''decode DhGen message'') (x_decode UnencryptedMessage_Decode b)) (\<lambda>plaintextMsg.
     x_bind (x_map_err (Wrap ''decode DhGen answer'') (x_decode DecodeSetClientDHParamsAnswer (MessageData plaintextMsg))) (\<lambda>dhSetRes.
     case dhSetRes of
       SCA_DhGenOk v \<Rightarrow> client_DhGenOk lib c nonce serverNonce newNonce authKey v
     | SCA_DhGenRetry v \<Rightarrow> x_fail (Errorf ''retry required: %x'' [])
     | SCA_DhGenFail v \<Rightarrow> x_fail (Errorf ''dh_hen_fail: %x'' []))))"

text \<open>The case \<open>*mt.ServerDHParamsOk\<close> (step 6). A nil slice is decoded like an empty one.\<close>

definition client_dh_ok ::
  "cipher_lib \<Rightarrow> (nat \<Rightarrow> bool) \<Rightarrow> ClientExchange \<Rightarrow> bytes \<Rightarrow> bytes \<Rightarrow> bytes \<Rightarrow> ServerDHParamsOk \<Rightarrow> ClientExchangeResult xm" where
  "client_dh_ok lib Prime c nonce serverNonce newNonce p =
     (if ServerDHParamsOk_Nonce p \<noteq> nonce then x_fail (Errorf ''ServerDHParamsOk nonce mismatch'' [])
      else if ServerDHParamsOk_ServerNonce p \<noteq> serverNonce then x_fail (Errorf ''ServerDHParamsOk server nonce mismatch'' [])
      else
        x_bind (x_lift (TempAESKeys (SetBytes newNonce) (SetBytes serverNonce))) (\<lambda>(key, iv).
        x_bind (x_map_err (Wrap ''exchange answer decrypt'') (x_lift (DecryptExchangeAnswer lib (ServerDHParamsOk_EncryptedAnswer p) key iv))) (\<lambda>data.
        x_bind (x_decode ServerDHInnerData_Decode (case data of None \<Rightarrow> [] | Some d \<Rightarrow> d)) (\<lambda>innerData.
        if ServerDHInnerData_Nonce innerData \<noteq> nonce then x_fail (Errorf ''ServerDHInnerData nonce mismatch'' [])
        else if ServerDHInnerData_ServerNonce innerData \<noteq> serverNonce then x_fail (Errorf ''ServerDHInnerData server nonce mismatch'' [])
        else
          let dhPrime = SetBytes (ServerDHInnerData_DhPrime innerData) in
          x_bind (x_map_err (Wrap ''check DH params'') (CheckDH Prime (ServerDHInnerData_G innerData) dhPrime)) (\<lambda>_.
          let g = nat (ServerDHInnerData_G innerData); gA = SetBytes (ServerDHInnerData_GA innerData); randMax = 2 ^ RSAKeyBits in
          x_bind (x_map_err (Wrap ''number b generation'') (x_draw (\<lambda>r. rand_Int r randMax))) (\<lambda>bParam.
          let gB = big_Exp g bParam dhPrime in
          x_bind (x_map_err (Wrap ''key exchange failed: invalid params'')
                   (case CheckDHParams dhPrime g gA gB of Some err \<Rightarrow> x_fail err | None \<Rightarrow> x_return ())) (\<lambda>_.
          x_bind (x_map_err (Wrap ''exchange answer encrypt'') (x_draw (\<lambda>r. EncryptExchangeAnswer lib r
                   (ClientDHInnerData_Encode \<lparr>ClientDHInnerData_Nonce = ServerDHInnerData_Nonce innerData,
                      ClientDHInnerData_ServerNonce = ServerDHInnerData_ServerNonce innerData,
                      ClientDHInnerData_RetryID = 0, ClientDHInnerData_GB = big_Bytes gB\<rparr> []) key iv))) (\<lambda>clientEncrypted.
          x_bind (x_map_err (Wrap ''write SetClientDHParamsRequest'') (writeUnencrypted client_writer (SetClientDHParamsRequest_Encode
                   \<lparr>SetClientDHParamsRequest_Nonce = nonce, SetClientDHParamsRequest_ServerNonce = serverNonce,
                     SetClientDHParamsRequest_EncryptedData = clientEncrypted\<rparr>))) (\<lambda>_.
          client_gen lib c nonce serverNonce newNonce (big_Exp gA bParam dhPrime))))))))))"

text \<open>The payload of the request, by mode.\<close>

definition pq_inner_data :: "ClientExchange \<Rightarrow> ResPQ \<Rightarrow> bytes \<Rightarrow> bytes \<Rightarrow> nat \<Rightarrow> nat \<Rightarrow> buffer \<Rightarrow> buffer" where
  "pq_inner_data c res nonce newNonce p q =
     (case ce_mode c of
        ExchangeModeTemporary \<Rightarrow> PQInnerDataTempDC_Encode
          \<lparr>PQInnerDataTempDC_Pq = ResPQ_Pq res, PQInnerDataTempDC_P = big_Bytes p, PQInnerDataTempDC_Q = big_Bytes q,
           PQInnerDataTempDC_Nonce = nonce, PQInnerDataTempDC_ServerNonce = ResPQ_ServerNonce res, PQInnerDataTempDC_NewNonce = newNonce,
           PQInnerDataTempDC_DC = ce_dc c, PQInnerDataTempDC_ExpiresIn = ce_expiresIn c\<rparr>
      | ExchangeModePermanent \<Rightarrow> PQInnerDataDC_Encode
          \<lparr>PQInnerDataDC_Pq = ResPQ_Pq res, PQInnerDataDC_P = big_Bytes p, PQInnerDataDC_Q = big_Bytes q,
           PQInnerDataDC_Nonce = nonce, PQInnerDataDC_ServerNonce = ResPQ_ServerNonce res, PQInnerDataDC_NewNonce = newNonce,
           PQInnerDataDC_DC = ce_dc c\<rparr>)"

text \<open>Steps 3 to 5: the factors, the request and the answer to it.\<close>

definition client_dh ::
  "cipher_lib \<Rightarrow> (nat \<Rightarrow> bool) \<Rightarrow> ClientExchange \<Rightarrow> bytes \<Rightarrow> ResPQ \<Rightarrow> PublicKey \<Rightarrow> nat \<Rightarrow> ClientExchangeResult xm" where
  "client_dh lib Prime c nonce res selectedPubKey pq =
     x_bind x_now (\<lambda>start.
     x_bind (x_map_err (Wrap ''decompose pq'') (x_draw (DecomposePQ pq))) (\<lambda>(p, q).
     x_bind x_now (\<lambda>_.
     x_bind (x_map_err (Wrap ''generate new nonce'') (x_draw RandInt256)) (\<lambda>newNonce.
     x_bind (x_map_err (Wrap ''encrypted_data generation'')
              (x_draw (RSAPad lib (pq_inner_data c res nonce newNonce p q []) selectedPubKey))) (\<lambda>encryptedData.
     x_bind (x_map_err (Wrap ''write ReqDHParamsRequest'') (writeUnencrypted client_writer (ReqDHParamsRequest_Encode
              \<lparr>ReqDHParamsRequest_Nonce = nonce, ReqDHParamsRequest_ServerNonce = ResPQ_ServerNonce res,
                ReqDHParamsRequest_P = big_Bytes p, ReqDHParamsRequest_Q = big_Bytes q,
                ReqDHParamsRequest_PublicKeyFingerprint = RSAFingerprint selectedPubKey,
                ReqDHParamsRequest_EncryptedData = encryptedData\<rparr>))) (\<lambda>_.
     x_bind (x_map_err (Wrap ''read ServerDHParams message'') conn_Recv) (\<lambda>b.
     x_bind (x_map_err (Wrap ''decode ServerDHParams message'') (x_decode UnencryptedMessage_Decode b)) (\<lambda>plaintextMsg.
     x_bind (x_decode DecodeServerDHParams (MessageData plaintextMsg)) (\<lambda>dhParams.
     case dhParams of
       SDH_ServerDHParamsOk p \<Rightarrow> client_dh_ok lib Prime c nonce (ResPQ_ServerNonce res) newNonce p
     | SDH_ServerDHParamsFail _ \<Rightarrow> x_fail (Errorf ''server respond with server_DH_params_fail'' []))))))))))"

definition client_Run :: "cipher_lib \<Rightarrow> (nat \<Rightarrow> bool) \<Rightarrow> ClientExchange \<Rightarrow> ClientExchangeResult xm" where
  "client_Run lib Prime c =
     x_bind (x_map_err (Wrap ''client nonce generation'') (x_draw RandInt128)) (\<lambda>nonce.
     x_bind (x_map_err (Wrap ''write ReqPqMultiRequest'') (writeUnencrypted client_writer
              (ReqPqMultiRequest_Encode \<lparr>ReqPqMultiRequest_Nonce = nonce\<rparr>))) (\<lambda>_.
     x_bind (x_map_err (Wrap ''read ResPQ response'') (readUnencrypted client_writer ResPQ_Decode)) (\<lambda>res.
     if ResPQ_Nonce res \<noteq> nonce then x_fail (Errorf ''ResPQ nonce mismatch'' [])
     else
       case select_key (ce_keys c) (ResPQ_ServerPublicKeyFingerprints res) of
         None \<Rightarrow> x_fail ErrKeyFingerprintNotFound
       | Some selectedPubKey \<Rightarrow>
          let pq = SetBytes (ResPQ_Pq res) in
          if pq > 2 ^ 63 then x_fail (Errorf ''server provided bad pq'' [])
          else client_dh lib Prime c nonce res selectedPubKey pq)))"

section \<open>generator.go\<close>

record ServerRNG =
  rng_PQ :: "nat xm"
  rng_GA :: "int \<Rightarrow> nat \<Rightarrow> (nat \<times> nat) xm"
  rng_DhPrime :: "nat xm"

lemma rand_Int_shorter: "rand_Int rand mx = (Inr n, rand') \<Longrightarrow> BitLen (mx - 1) \<noteq> 0 \<Longrightarrow> length rand' < length rand"
proof (induction rand rule: length_induct)
  case (1 rand)
  define k where "k = (BitLen (mx - 1) + 7) div 8"
  have "0 < (l + 7) div 8" if "l \<noteq> 0" for l :: nat using that by presburger
  then have k: "0 < k" using 1(3) unfolding k_def by blast
  obtain bs e r where io: "io_ReadFull k rand = (bs, e, r)" by (metis surj_pair)
  have e: "e = None" using 1(2,3) io by (cases e) (simp_all add: rand_Int.simps[of rand] k_def Let_def)
  then have "length r < length rand" using io k io_ReadFull_shorter by blast
  moreover have "rand' = r \<or> rand_Int r mx = (Inr n, rand')"
    using 1(2,3) io e by (auto simp: rand_Int.simps[of rand] k_def Let_def split: if_splits)
  ultimately show ?case using 1(1,3) by (meson order.strict_trans)
qed

text \<open>The loop of \<open>GA\<close> draws until \<open>g_a\<close> is in both ranges; it ends with the random bytes at the latest.\<close>

function ga_loop :: "nat \<Rightarrow> nat \<Rightarrow> bytes \<Rightarrow> (go_error + nat \<times> nat) \<times> bytes" where
  "ga_loop g dhPrime rand =
     (case rand_Int rand (2 ^ RSAKeyBits) of
        (Inl err, rand) \<Rightarrow> (Inl err, rand)
      | (Inr a, rand') \<Rightarrow>
         let ga = big_Exp g a dhPrime in
         if InRange ga 1 (int dhPrime - 1) \<and> InRange ga (2 ^ (RSAKeyBits - 64)) (int dhPrime - 2 ^ (RSAKeyBits - 64)) then (Inr (a, ga), rand')
         else ga_loop g dhPrime rand')"
  by pat_completeness auto
termination
proof (relation "measure (\<lambda>(_, _, rand). length rand)", goal_cases)
  case (2 g dhPrime rand r rand' a ga)
  have "\<not> BitLen (2 ^ RSAKeyBits - 1) \<le> 0" unfolding BitLen_le by (simp add: RSAKeyBits_def)
  then show ?case using 2(1,2) rand_Int_shorter[of rand "2 ^ RSAKeyBits" a rand'] by simp
qed simp

declare ga_loop.simps [simp del]

definition test_dh_prime :: nat where
  "test_dh_prime = 0xC71CAEB9C6B1C9048E6C522F70F13F73980D40238E3E21C14934D037563D930F48198A0AA7C14058229493D22530F4DBFA336F6E0AC925139543AED44CCE7C3720FD51F69458705AC68CD4FE6B6B13ABDC9746512969328454F18FAF8C595F642477FE96BB2A941D5BCD1D4AC8CC49880708FA9B378E3C4F3A9060BEE67CF9A4A4A695811051907E162753B56B0F6B410DBA74D8A84B2A14B3144E0EF1284754FD17ED950D5965B4B9DD46582DB1178D169C6BC465B0D6FF9CA3928FEF5B9AE4E418FC15E83EBEA0F87FA9FF5EED70050DED2849F47BF959D956850CE929851F0D8115F635B105EE2E4E15D04B2454BF6F4FADF034B10403119CD8E3B92FCC5B"

definition TestServerRNG :: ServerRNG where
  "TestServerRNG =
     \<lparr>rng_PQ = x_return 0x17ED48941A08F981,
      rng_GA = (\<lambda>g dhPrime. case CheckGP g dhPrime of Some err \<Rightarrow> x_fail err | None \<Rightarrow> x_draw (ga_loop (nat g) dhPrime)),
      rng_DhPrime = x_return test_dh_prime\<rparr>"

section \<open>server.go, server\_flow.go\<close>

record ServerExchange =
  se_rng :: ServerRNG
  se_key :: PrivateKey
  se_dc :: int

record ServerExchangeResult =
  sr_Key :: AuthKey
  sr_ServerSalt :: "64 word"

definition serverError :: "32 word \<Rightarrow> go_error \<Rightarrow> go_error" where
  "serverError code err = ServerExchangeError code err"

record reqPQ =
  reqPQ_Type :: "32 word"
  reqPQ_Nonce :: bytes

definition reqPQ_Decode :: "reqPQ dec" where
  "reqPQ_Decode = dec_bind Buffer_PeekID (\<lambda>i.
     if i = ReqPqRequestTypeID then dec_bind ReqPqRequest_Decode (\<lambda>v. dec_return \<lparr>reqPQ_Type = i, reqPQ_Nonce = ReqPqRequest_Nonce v\<rparr>)
     else if i = ReqPqMultiRequestTypeID then dec_bind ReqPqMultiRequest_Decode (\<lambda>v. dec_return \<lparr>reqPQ_Type = i, reqPQ_Nonce = ReqPqMultiRequest_Nonce v\<rparr>)
     else dec_fail (UnexpectedIDErr i))"

text \<open>The struct with its \<open>Type\<close> is a sum: the switch on \<open>Type\<close> after a successful \<open>Decode\<close> tells the two apart.\<close>

datatype reqOrDH = R_DH ReqDHParamsRequest | R_Req reqPQ

definition reqOrDH_Decode :: "reqOrDH dec" where
  "reqOrDH_Decode = dec_bind Buffer_PeekID (\<lambda>i.
     if i = ReqDHParamsRequestTypeID then dec_bind ReqDHParamsRequest_Decode (\<lambda>v. dec_return (R_DH v))
     else dec_bind reqPQ_Decode (\<lambda>v. dec_return (R_Req v)))"

text \<open>
  From the label \<open>SendResPQ\<close> to the jump back to it. The nonce is the one of the last
  \<open>req_pq\<close>. A server reads at most one frame for each round.
\<close>

lemma readUnencrypted_server_shorter:
  "readUnencrypted server_writer d s = (Inr v, s') \<Longrightarrow> length (x_in s') < length (x_in s)"
proof -
  assume a: "readUnencrypted server_writer d s = (Inr v, s')"
  obtain r rs where t: "tryRead_loop False (x_in s) = (r, rs)" by fastforce
  have "x_in s' = rs" "\<exists>b. r = Inr b"
    using a t by (auto simp: readUnencrypted_def isClient_def server_writer_def Let_def split: sum.splits prod.splits option.splits if_splits)
  then show ?thesis using t by (cases "(False, x_in s)" rule: tryRead_loop.cases) auto
qed

lemma writeUnencrypted_in: "writeUnencrypted w e s = (r, s') \<Longrightarrow> x_in s' = x_in s"
  by (auto simp: writeUnencrypted_def x_bind_def x_now_def conn_Send_def split: option.splits)

function send_ResPQ :: "ServerExchange \<Rightarrow> nat \<Rightarrow> bytes \<Rightarrow> bytes \<Rightarrow> (bytes \<times> ReqDHParamsRequest) xm" where
  "send_ResPQ srv pq serverNonce nonce s =
     (case writeUnencrypted server_writer (ResPQ_Encode
             \<lparr>ResPQ_Nonce = nonce, ResPQ_ServerNonce = serverNonce, ResPQ_Pq = big_Bytes pq,
               ResPQ_ServerPublicKeyFingerprints = [RSAFingerprint (sk_Public (se_key srv))]\<rparr>) s of
        (Inl err, s) \<Rightarrow> (Inl err, s)
      | (Inr _, s1) \<Rightarrow>
         (case readUnencrypted server_writer reqOrDH_Decode s1 of
            (Inl err, s) \<Rightarrow> (Inl err, s)
          | (Inr (R_Req req), s2) \<Rightarrow> send_ResPQ srv pq serverNonce (reqPQ_Nonce req) s2
          | (Inr (R_DH dh), s2) \<Rightarrow> (Inr (nonce, dh), s2)))"
  by pat_completeness auto
termination
  by (relation "measure (\<lambda>(_, _, _, _, s). length (x_in s))")
    (auto dest!: readUnencrypted_server_shorter[OF sym] writeUnencrypted_in[OF sym])

declare send_ResPQ.simps [simp del]

text \<open>The two variants with a data center check it; the getters give the common fields.\<close>

definition check_dc :: "int \<Rightarrow> PQInnerDataClass \<Rightarrow> go_error option" where
  "check_dc dc d =
     (case d of
        PQ_PQInnerDataDC v \<Rightarrow>
          if PQInnerDataDC_DC v \<noteq> dc then Some (serverError CodeWrongDC (Errorf ''wrong DC ID, want %d, got %d'' [dc, PQInnerDataDC_DC v])) else None
      | PQ_PQInnerDataTempDC v \<Rightarrow>
          if PQInnerDataTempDC_DC v \<noteq> dc then Some (serverError CodeWrongDC (Errorf ''wrong DC ID, want %d, got %d'' [dc, PQInnerDataTempDC_DC v])) else None
      | PQ_PQInnerData v \<Rightarrow> None)"

definition GetNewNonce :: "PQInnerDataClass \<Rightarrow> bytes" where
  "GetNewNonce d =
     (case d of
        PQ_PQInnerDataDC v \<Rightarrow> PQInnerDataDC_NewNonce v
      | PQ_PQInnerDataTempDC v \<Rightarrow> PQInnerDataTempDC_NewNonce v
      | PQ_PQInnerData v \<Rightarrow> PQInnerData_NewNonce v)"

text \<open>The second half of the flow, from the answer of the client to the key.\<close>

definition server_gen ::
  "cipher_lib \<Rightarrow> bytes \<Rightarrow> bytes \<Rightarrow> bytes \<Rightarrow> bytes \<times> bytes \<Rightarrow> nat \<Rightarrow> nat \<Rightarrow> ServerExchangeResult xm" where
  "server_gen lib nonce serverNonce newNonce key_iv a dhPrime =
     (let wrapKeyNotFound = serverError CodeAuthKeyNotFound; (key, iv) = key_iv in
      x_bind (readUnencrypted server_writer SetClientDHParamsRequest_Decode) (\<lambda>clientDhParams.
      x_bind (x_map_err (\<lambda>err. wrapKeyNotFound (Wrap ''decrypt exchange answer'' err))
               (x_lift (DecryptExchangeAnswer lib (SetClientDHParamsRequest_EncryptedData clientDhParams) key iv))) (\<lambda>decrypted.
      x_bind (x_map_err wrapKeyNotFound (x_decode ClientDHInnerData_Decode (case decrypted of None \<Rightarrow> [] | Some d \<Rightarrow> d))) (\<lambda>clientInnerData.
      case FillBytes (big_Exp (SetBytes (ClientDHInnerData_GB clientInnerData)) a dhPrime) 256 of
        None \<Rightarrow> x_fail (wrapKeyNotFound (Errorf ''auth_key is too big'' []))
      | Some filled \<Rightarrow>
         x_bind (x_lift filled) (\<lambda>authKey.
         x_bind (writeUnencrypted server_writer (DhGenOk_Encode
                  \<lparr>DhGenOk_Nonce = nonce, DhGenOk_ServerNonce = serverNonce, DhGenOk_NewNonceHash1 = NonceHash1 newNonce authKey\<rparr>)) (\<lambda>_.
         x_return \<lparr>sr_Key = Key_WithID authKey, sr_ServerSalt = ServerSalt_of lib newNonce serverNonce\<rparr>))))))"

definition server_dh :: "cipher_lib \<Rightarrow> ServerExchange \<Rightarrow> bytes \<Rightarrow> bytes \<Rightarrow> ReqDHParamsRequest \<Rightarrow> ServerExchangeResult xm" where
  "server_dh lib srv serverNonce nonce dh =
     x_bind (x_map_err (serverError CodeAuthKeyNotFound) (x_lift (DecodeRSAPad lib (ReqDHParamsRequest_EncryptedData dh) (se_key srv)))) (\<lambda>r.
     x_bind (x_decode DecodePQInnerData r) (\<lambda>d.
     x_bind (case check_dc (se_dc srv) d of Some err \<Rightarrow> x_fail err | None \<Rightarrow> x_return ()) (\<lambda>_.
     let newNonce = GetNewNonce d in
     x_bind (x_map_err (Wrap ''generate dh_prime'') (rng_DhPrime (se_rng srv))) (\<lambda>dhPrime.
     let g = 3 in
     x_bind (x_map_err (Wrap ''generate g_a'') (rng_GA (se_rng srv) g dhPrime)) (\<lambda>(a, ga).
     x_bind x_now (\<lambda>now.
     x_bind (x_lift (TempAESKeys (SetBytes newNonce) (SetBytes serverNonce))) (\<lambda>(key, iv).
     x_bind (x_draw (\<lambda>r. EncryptExchangeAnswer lib r (ServerDHInnerData_Encode
              \<lparr>ServerDHInnerData_Nonce = nonce, ServerDHInnerData_ServerNonce = serverNonce, ServerDHInnerData_G = g,
               ServerDHInnerData_DhPrime = big_Bytes dhPrime, ServerDHInnerData_GA = big_Bytes ga,
               ServerDHInnerData_ServerTime = now div 1000000000\<rparr> []) key iv)) (\<lambda>answer.
     x_bind (writeUnencrypted server_writer (ServerDHParamsOk_Encode
              \<lparr>ServerDHParamsOk_Nonce = nonce, ServerDHParamsOk_ServerNonce = serverNonce, ServerDHParamsOk_EncryptedAnswer = answer\<rparr>)) (\<lambda>_.
     server_gen lib nonce serverNonce newNonce (key, iv) a dhPrime)))))))))"

definition server_Run :: "cipher_lib \<Rightarrow> ServerExchange \<Rightarrow> ServerExchangeResult xm" where
  "server_Run lib srv =
     x_bind (readUnencrypted server_writer reqPQ_Decode) (\<lambda>req.
     x_bind (x_map_err (Wrap ''generate server nonce'') (x_draw RandInt128)) (\<lambda>serverNonce.
     x_bind (x_map_err (Wrap ''generate pq'') (rng_PQ (se_rng srv))) (\<lambda>pq.
     x_bind (send_ResPQ srv pq serverNonce (reqPQ_Nonce req)) (\<lambda>(nonce, dh).
     server_dh lib srv serverNonce nonce dh))))"

end
