(* ===== verification/Exchange_Agreement.thy ===== *)
theory Exchange_Agreement
  imports Exchange
begin

text \<open>
  What the key exchange achieves. A client returns a key only after the checks that the
  protocol asks for, whoever sent it the frames; and a client and a server that receive
  each other's frames finish with the same key and salt.
\<close>

section \<open>Successful steps\<close>

lemma x_bind_Inr: "m s = (Inr v, s1) \<Longrightarrow> x_bind m f s = f v s1"
  by (simp add: x_bind_def)

lemma x_bind_iff: "x_bind m f s = (Inr v, s') \<longleftrightarrow> (\<exists>u s1. m s = (Inr u, s1) \<and> f u s1 = (Inr v, s'))"
  by (auto simp: x_bind_def split: prod.splits sum.splits)

lemma x_map_err_iff: "x_map_err g m s = (Inr v, s') \<longleftrightarrow> m s = (Inr v, s')"
  by (auto simp: x_map_err_def split: prod.splits sum.splits)

lemma x_fail_iff: "x_fail e s \<noteq> (Inr v, s')"
  by (simp add: x_fail_def)

lemma x_return_iff: "x_return u s = (Inr v, s') \<longleftrightarrow> v = u \<and> s' = s"
  by (auto simp: x_return_def)

lemma x_lift_iff: "x_lift r s = (Inr v, s') \<longleftrightarrow> r = Inr v \<and> s' = s"
  by (auto simp: x_lift_def)

lemma x_now_iff: "x_now s = (Inr v, s') \<longleftrightarrow> v = x_clock s (x_ticks s) \<and> s' = s\<lparr>x_ticks := Suc (x_ticks s)\<rparr>"
  by (auto simp: x_now_def)

lemma x_draw_iff: "x_draw f s = (Inr v, s') \<longleftrightarrow> (\<exists>r. f (x_rand s) = (Inr v, r) \<and> s' = s\<lparr>x_rand := r\<rparr>)"
  by (auto simp: x_draw_def split: prod.splits)

lemma x_decode_iff: "x_decode d b s = (Inr v, s') \<longleftrightarrow> (\<exists>rest. d b = (Inr v, rest)) \<and> s' = s"
  by (cases "d b") (auto simp: x_decode_def x_lift_def)

lemma conn_Recv_iff: "conn_Recv s = (Inr b, s') \<longleftrightarrow> (\<exists>rs. x_in s = Inr b # rs \<and> s' = s\<lparr>x_in := rs\<rparr>)"
  by (auto simp: conn_Recv_def split: list.splits)

lemmas x_iffs = x_bind_iff x_map_err_iff x_fail_iff x_return_iff x_lift_iff x_now_iff x_draw_iff x_decode_iff conn_Recv_iff

text \<open>The frame in which one side sends a message.\<close>

definition frame :: "MessageType \<Rightarrow> int \<Rightarrow> bytes \<Rightarrow> bytes" where
  "frame t now data = UnencryptedMessage_Encode \<lparr>MessageID = NewMessageID now t, MessageData = data\<rparr> []"

lemma writeUnencrypted_ok:
  "x_send s = (\<lambda>_. None) \<Longrightarrow> writeUnencrypted w e s =
     (Inr (), s\<lparr>x_ticks := Suc (x_ticks s), x_out := x_out s @ [frame (w_output w) (x_clock s (x_ticks s)) (e [])]\<rparr>)"
  by (simp add: writeUnencrypted_def x_bind_def x_now_def conn_Send_def frame_def)

lemma frame_decodes: "length data < 2 ^ 31 \<Longrightarrow> UnencryptedMessage_Decode (frame t now data) = (Inr \<lparr>MessageID = NewMessageID now t, MessageData = data\<rparr>, [])"
  unfolding UnencryptedMessage_Decode_iff by (simp add: frame_def)

lemma frame_plain: "take 8 (frame t now data) = replicate 8 0"
  by (simp add: frame_def UnencryptedMessage_Encode_def put_defs eval_nat_numeral Word_def)

lemma readUnencrypted_frame:
  assumes "x_in s = Inr (frame t now data) # rs" "w_input w = t" "t \<noteq> MessageUnknown" "in_epoch now" "length data < 2 ^ 31"
    "decode data = (Inr v, rest)"
  shows "readUnencrypted w decode s = (Inr v, s\<lparr>x_in := rs\<rparr>)"
  using assms frame_decodes[OF assms(5)] MessageID_Type_New[OF assms(4,3)]
  by (simp add: readUnencrypted_def frame_plain checkMsgID_def Let_def)

lemma conn_Recv_frame: "x_in s = Inr b # rs \<Longrightarrow> conn_Recv s = (Inr b, s\<lparr>x_in := rs\<rparr>)"
  by (simp add: conn_Recv_def)

section \<open>The checks of the client\<close>

lemma writeUnencrypted_D:
  "writeUnencrypted w e s = (Inr u, s') \<Longrightarrow> x_in s' = x_in s \<and> x_rand s' = x_rand s \<and> x_cache s' = x_cache s"
  by (auto simp: writeUnencrypted_def x_bind_def x_now_def conn_Send_def split: option.splits)

lemma tryRead_loop_subset: "set (snd (tryRead_loop client rs)) \<subseteq> set rs"
  by (induction client rs rule: tryRead_loop.induct) auto

lemma tryRead_loop_Inr: "tryRead_loop client rs = (Inr b, rs') \<Longrightarrow> Inr b \<in> set rs"
  by (induction client rs rule: tryRead_loop.induct) (auto split: if_splits)

lemma readUnencrypted_D:
  assumes "readUnencrypted w d s = (Inr v, s')"
  shows "set (x_in s') \<subseteq> set (x_in s) \<and> x_rand s' = x_rand s \<and> x_cache s' = x_cache s
    \<and> (\<exists>f msg rest rest'. Inr f \<in> set (x_in s) \<and> UnencryptedMessage_Decode f = (Inr msg, rest) \<and> d (MessageData msg) = (Inr v, rest'))"
proof -
  obtain b rs where t: "tryRead_loop (isClient w) (x_in s) = (Inr b, rs)"
    using assms by (cases "tryRead_loop (isClient w) (x_in s)") (auto simp: readUnencrypted_def split: sum.splits)
  then have "set rs \<subseteq> set (x_in s)" using tryRead_loop_subset[of "isClient w" "x_in s"] by simp
  moreover obtain msg rest where "UnencryptedMessage_Decode b = (Inr msg, rest)" "fst (d (MessageData msg)) = Inr v" "s' = s\<lparr>x_in := rs\<rparr>"
    using assms t by (auto simp: readUnencrypted_def Let_def split: sum.splits prod.splits option.splits if_splits)
  moreover have "d (MessageData msg) = (Inr v, snd (d (MessageData msg)))" using calculation(3) by (metis prod.collapse)
  ultimately show ?thesis using tryRead_loop_Inr[OF t] by auto
qed

lemma CheckDH_D:
  assumes "CheckDH Prime g p s = (Inr u, s')" "cache_ok Prime (x_cache s)"
  shows "BitLen p = 2048 \<and> validate_dh Prime g p = None \<and> cache_ok Prime (x_cache s') \<and> x_in s' = x_in s \<and> x_rand s' = x_rand s"
proof -
  obtain e cc where c: "checkDHWithCache Prime (x_cache s) g p = (e, cc)" by fastforce
  then have "e = None" "s' = s\<lparr>x_cache := cc\<rparr>" using assms(1) by (auto simp: CheckDH_def split: option.splits)
  then show ?thesis using checkDHWithCache_spec[OF assms(2), where g = g and p = p] c by (auto split: if_splits)
qed

text \<open>What the result of the last part says about the last frame.\<close>

definition confirmed :: "cipher_lib \<Rightarrow> (go_error + bytes) list \<Rightarrow> bytes \<Rightarrow> bytes \<Rightarrow> bytes \<Rightarrow> Key \<Rightarrow> ClientExchangeResult \<Rightarrow> bool" where
  "confirmed lib frames nonce serverNonce newNonce key r \<longleftrightarrow>
     cr_AuthKey r = Key_WithID key \<and> cr_ServerSalt r = ServerSalt_of lib newNonce serverNonce \<and>
     (\<exists>f msg v rest rest'. Inr f \<in> set frames \<and> UnencryptedMessage_Decode f = (Inr msg, rest)
        \<and> DecodeSetClientDHParamsAnswer (MessageData msg) = (Inr (SCA_DhGenOk v), rest')
        \<and> DhGenOk_Nonce v = nonce \<and> DhGenOk_ServerNonce v = serverNonce \<and> DhGenOk_NewNonceHash1 v = NonceHash1 newNonce key)"

text \<open>The parameters that an encrypted answer holds.\<close>

definition opens_to :: "cipher_lib \<Rightarrow> ServerDHParamsOk \<Rightarrow> bytes \<Rightarrow> bytes \<Rightarrow> bytes \<Rightarrow> ServerDHInnerData \<Rightarrow> bool" where
  "opens_to lib sp nonce serverNonce newNonce inner \<longleftrightarrow>
     ServerDHParamsOk_Nonce sp = nonce \<and> ServerDHParamsOk_ServerNonce sp = serverNonce \<and>
     (\<exists>key iv data rest. TempAESKeys (SetBytes newNonce) (SetBytes serverNonce) = Inr (key, iv)
        \<and> DecryptExchangeAnswer lib (ServerDHParamsOk_EncryptedAnswer sp) key iv = Inr data
        \<and> ServerDHInnerData_Decode (case data of None \<Rightarrow> [] | Some d \<Rightarrow> d) = (Inr inner, rest))
     \<and> ServerDHInnerData_Nonce inner = nonce \<and> ServerDHInnerData_ServerNonce inner = serverNonce"

text \<open>
  A frame that offers the Diffie-Hellman parameters \<open>inner\<close>: they are what its encrypted answer opens to
  under the keys made of the new nonce and the server's, and both layers repeat the nonces.
\<close>

definition offered_dh :: "cipher_lib \<Rightarrow> (go_error + bytes) list \<Rightarrow> bytes \<Rightarrow> bytes \<Rightarrow> bytes \<Rightarrow> ServerDHInnerData \<Rightarrow> bool" where
  "offered_dh lib frames nonce serverNonce newNonce inner \<longleftrightarrow>
     (\<exists>f msg sp rest rest'. Inr f \<in> set frames \<and> UnencryptedMessage_Decode f = (Inr msg, rest)
        \<and> DecodeServerDHParams (MessageData msg) = (Inr (SDH_ServerDHParamsOk sp), rest')
        \<and> opens_to lib sp nonce serverNonce newNonce inner)"

text \<open>A frame in which the server names its nonce, its product and its keys.\<close>

definition offered_pq :: "(go_error + bytes) list \<Rightarrow> bytes \<Rightarrow> ResPQ \<Rightarrow> bool" where
  "offered_pq frames nonce res \<longleftrightarrow>
     (\<exists>f msg rest rest'. Inr f \<in> set frames \<and> UnencryptedMessage_Decode f = (Inr msg, rest)
        \<and> ResPQ_Decode (MessageData msg) = (Inr res, rest') \<and> ResPQ_Nonce res = nonce)"

text \<open>The key of the client: the checks of the parameters and of both public values, and the power that is the key.\<close>

definition checked_key :: "(nat \<Rightarrow> bool) \<Rightarrow> ServerDHInnerData \<Rightarrow> nat \<Rightarrow> Key \<Rightarrow> bool" where
  "checked_key Prime inner b key \<longleftrightarrow>
     (let p = SetBytes (ServerDHInnerData_DhPrime inner); g = ServerDHInnerData_G inner; gA = SetBytes (ServerDHInnerData_GA inner) in
      BitLen p = 2048 \<and> validate_dh Prime g p = None \<and> CheckDHParams p (nat g) gA (big_Exp (nat g) b p) = None
      \<and> big_FillBytes 256 (big_Exp gA b p) = Inr key)"

lemma client_gen_D:
  assumes "client_gen lib c nonce serverNonce newNonce authKey s = (Inr r, s')"
  shows "\<exists>key. big_FillBytes 256 authKey = Inr key \<and> confirmed lib (x_in s) nonce serverNonce newNonce key r \<and> x_cache s' = x_cache s"
proof -
  obtain f rs msg rest res rest' where f: "x_in s = Inr f # rs" "UnencryptedMessage_Decode f = (Inr msg, rest)"
    "DecodeSetClientDHParamsAnswer (MessageData msg) = (Inr res, rest')"
    and sw: "(case res of SCA_DhGenOk v \<Rightarrow> client_DhGenOk lib c nonce serverNonce newNonce authKey v
       | SCA_DhGenRetry v \<Rightarrow> x_fail (Errorf ''retry required: %x'' []) | SCA_DhGenFail v \<Rightarrow> x_fail (Errorf ''dh_hen_fail: %x'' []))
      (s\<lparr>x_in := rs\<rparr>) = (Inr r, s')"
    using assms unfolding client_gen_def by (auto simp: x_iffs)
  then obtain v where res: "res = SCA_DhGenOk v" by (cases res) (simp_all add: x_fail_iff)
  then have go: "client_DhGenOk lib c nonce serverNonce newNonce authKey v (s\<lparr>x_in := rs\<rparr>) = (Inr r, s')" using sw by simp
  have n: "DhGenOk_Nonce v = nonce" "DhGenOk_ServerNonce v = serverNonce"
    using go by (auto simp: client_DhGenOk_def x_fail_iff split: if_splits)
  obtain key where "big_FillBytes 256 authKey = Inr key" "NonceHash1 newNonce key = DhGenOk_NewNonceHash1 v"
    "cr_AuthKey r = Key_WithID key" "cr_ServerSalt r = ServerSalt_of lib newNonce serverNonce" "x_cache s' = x_cache s"
    using go n
    by (cases "ce_mode c") (clarsimp simp: client_DhGenOk_def x_iffs Let_def Key_WithID_def split: if_split_asm)+
  then show ?thesis using f n res unfolding confirmed_def by auto
qed

lemma client_dh_ok_D:
  assumes "client_dh_ok lib Prime c nonce serverNonce newNonce sp s = (Inr r, s')" "cache_ok Prime (x_cache s)"
  shows "\<exists>inner b r3 key. opens_to lib sp nonce serverNonce newNonce inner \<and> rand_Int (x_rand s) (2 ^ RSAKeyBits) = (Inr b, r3)
    \<and> checked_key Prime inner b key \<and> confirmed lib (x_in s) nonce serverNonce newNonce key r \<and> cache_ok Prime (x_cache s')"
proof -
  obtain key iv data rest and inner :: ServerDHInnerData and s1 b r3 rnd enc s3 where
    op: "ServerDHParamsOk_Nonce sp = nonce" "ServerDHParamsOk_ServerNonce sp = serverNonce"
      "TempAESKeys (SetBytes newNonce) (SetBytes serverNonce) = Inr (key, iv)"
      "DecryptExchangeAnswer lib (ServerDHParamsOk_EncryptedAnswer sp) key iv = Inr data"
      "ServerDHInnerData_Decode (case data of None \<Rightarrow> [] | Some d \<Rightarrow> d) = (Inr inner, rest)"
      "ServerDHInnerData_Nonce inner = nonce" "ServerDHInnerData_ServerNonce inner = serverNonce"
    and chk: "CheckDH Prime (ServerDHInnerData_G inner) (SetBytes (ServerDHInnerData_DhPrime inner)) s = (Inr (), s1)"
    and b: "rand_Int (x_rand s1) (2 ^ RSAKeyBits) = (Inr b, r3)"
      "CheckDHParams (SetBytes (ServerDHInnerData_DhPrime inner)) (nat (ServerDHInnerData_G inner)) (SetBytes (ServerDHInnerData_GA inner))
         (big_Exp (nat (ServerDHInnerData_G inner)) b (SetBytes (ServerDHInnerData_DhPrime inner))) = None"
    and w: "writeUnencrypted client_writer (SetClientDHParamsRequest_Encode
           \<lparr>SetClientDHParamsRequest_Nonce = nonce, SetClientDHParamsRequest_ServerNonce = serverNonce,
             SetClientDHParamsRequest_EncryptedData = enc\<rparr>) (s1\<lparr>x_rand := rnd\<rparr>) = (Inr (), s3)"
    and gen: "client_gen lib c nonce serverNonce newNonce
       (big_Exp (SetBytes (ServerDHInnerData_GA inner)) b (SetBytes (ServerDHInnerData_DhPrime inner))) s3 = (Inr r, s')"
    using assms(1) by (auto simp: client_dh_ok_def x_iffs Let_def split: if_split_asm option.split_asm prod.split_asm)
  have d: "BitLen (SetBytes (ServerDHInnerData_DhPrime inner)) = 2048" "x_in s1 = x_in s" "cache_ok Prime (x_cache s1)" "x_rand s1 = x_rand s"
    "validate_dh Prime (ServerDHInnerData_G inner) (SetBytes (ServerDHInnerData_DhPrime inner)) = None"
    using CheckDH_D[OF chk assms(2)] by auto
  have e: "x_in s3 = x_in s" "x_cache s3 = x_cache s1" using writeUnencrypted_D[OF w] d(2) by simp_all
  obtain k where k: "big_FillBytes 256 (big_Exp (SetBytes (ServerDHInnerData_GA inner)) b (SetBytes (ServerDHInnerData_DhPrime inner))) = Inr k"
    "confirmed lib (x_in s) nonce serverNonce newNonce k r" "cache_ok Prime (x_cache s')"
    using client_gen_D[OF gen] e d(3) by auto
  have "opens_to lib sp nonce serverNonce newNonce inner" unfolding opens_to_def using op by blast
  moreover have "checked_key Prime inner b k" using d b k(1) by (simp add: checked_key_def)
  ultimately show ?thesis using b(1) d(4) k by metis
qed

lemma confirmed_mono:
  "confirmed lib frames nonce serverNonce newNonce key r \<Longrightarrow> set frames \<subseteq> set frames' \<Longrightarrow>
   confirmed lib frames' nonce serverNonce newNonce key r"
  unfolding confirmed_def by blast

lemma offered_dh_mono:
  "offered_dh lib frames nonce serverNonce newNonce inner \<Longrightarrow> set frames \<subseteq> set frames' \<Longrightarrow>
   offered_dh lib frames' nonce serverNonce newNonce inner"
  unfolding offered_dh_def by blast

lemma RandInt_D:
  "RandInt128 r = (Inr v, r') \<Longrightarrow> 16 \<le> length r \<and> v = take 16 r \<and> r' = drop 16 r"
  "RandInt256 r = (Inr v, r') \<Longrightarrow> 32 \<le> length r \<and> v = take 32 r \<and> r' = drop 32 r"
  by (auto simp: RandInt128_def RandInt256_def io_ReadFull_def Word_def Buffer_Int128_def Buffer_Int256_def Let_def split: if_splits)

text \<open>
  The draws of the client, in their order: the nonce, what the factorization takes, the new nonce, what
  the padding for the selected key takes, and the exponent.
\<close>

definition client_draws :: "cipher_lib \<Rightarrow> ClientExchange \<Rightarrow> ResPQ \<Rightarrow> PublicKey \<Rightarrow> bytes \<Rightarrow> bytes \<Rightarrow> bytes \<Rightarrow> nat \<Rightarrow> bool" where
  "client_draws lib c res pk nonce rnd newNonce b \<longleftrightarrow>
     (\<exists>p q r1 enc r2 r3. DecomposePQ (SetBytes (ResPQ_Pq res)) rnd = (Inr (p, q), r1) \<and> 32 \<le> length r1 \<and> newNonce = take 32 r1
        \<and> RSAPad lib (pq_inner_data c res nonce newNonce p q []) pk (drop 32 r1) = (Inr enc, r2)
        \<and> rand_Int r2 (2 ^ RSAKeyBits) = (Inr b, r3))"

lemma client_dh_D:
  assumes "client_dh lib Prime c nonce res pk (SetBytes (ResPQ_Pq res)) s = (Inr r, s')" "cache_ok Prime (x_cache s)"
  shows "\<exists>newNonce inner b key. client_draws lib c res pk nonce (x_rand s) newNonce b
    \<and> offered_dh lib (x_in s) nonce (ResPQ_ServerNonce res) newNonce inner \<and> checked_key Prime inner b key
    \<and> confirmed lib (x_in s) nonce (ResPQ_ServerNonce res) newNonce key r \<and> cache_ok Prime (x_cache s')"
proof -
  obtain p q r1 r1' newNonce enc r2 s0 s1 f rs msg rest ans rest' where
    dr: "DecomposePQ (SetBytes (ResPQ_Pq res)) (x_rand s) = (Inr (p, q), r1)" "RandInt256 r1 = (Inr newNonce, r1')"
      "RSAPad lib (pq_inner_data c res nonce newNonce p q []) pk r1' = (Inr enc, r2)"
    and w: "writeUnencrypted client_writer (ReqDHParamsRequest_Encode
              \<lparr>ReqDHParamsRequest_Nonce = nonce, ReqDHParamsRequest_ServerNonce = ResPQ_ServerNonce res,
                ReqDHParamsRequest_P = big_Bytes p, ReqDHParamsRequest_Q = big_Bytes q,
                ReqDHParamsRequest_PublicKeyFingerprint = RSAFingerprint pk,
                ReqDHParamsRequest_EncryptedData = enc\<rparr>) s0 = (Inr (), s1)"
    and s0: "x_in s0 = x_in s" "x_cache s0 = x_cache s" "x_rand s0 = r2" and rs: "x_in s1 = Inr f # rs"
    and dec: "UnencryptedMessage_Decode f = (Inr msg, rest)" "DecodeServerDHParams (MessageData msg) = (Inr ans, rest')"
    and sw: "(case ans of
        SDH_ServerDHParamsOk p \<Rightarrow> client_dh_ok lib Prime c nonce (ResPQ_ServerNonce res) newNonce p
      | SDH_ServerDHParamsFail _ \<Rightarrow> x_fail (Errorf ''server respond with server_DH_params_fail'' [])) (s1\<lparr>x_in := rs\<rparr>) = (Inr r, s')"
    using assms(1) by (auto simp: client_dh_def x_iffs split: prod.split_asm)
  obtain sp where sp: "ans = SDH_ServerDHParamsOk sp" using sw by (cases ans) (simp_all add: x_fail_iff)
  have fr: "Inr f \<in> set (x_in s)" "set rs \<subseteq> set (x_in s)" and st: "x_cache s1 = x_cache s" "x_rand s1 = r2"
    using writeUnencrypted_D[OF w] s0 rs by (metis list.set_intros(1), metis set_subset_Cons, metis, metis)
  have go: "client_dh_ok lib Prime c nonce (ResPQ_ServerNonce res) newNonce sp (s1\<lparr>x_in := rs\<rparr>) = (Inr r, s')" using sw sp by simp
  obtain inner b r3 key where o: "opens_to lib sp nonce (ResPQ_ServerNonce res) newNonce inner" "rand_Int r2 (2 ^ RSAKeyBits) = (Inr b, r3)"
    "checked_key Prime inner b key" "confirmed lib rs nonce (ResPQ_ServerNonce res) newNonce key r" "cache_ok Prime (x_cache s')"
    using client_dh_ok_D[OF go] assms(2) st by auto
  have "client_draws lib c res pk nonce (x_rand s) newNonce b"
    unfolding client_draws_def using dr RandInt_D(2)[OF dr(2)] o(2) by blast
  moreover have "offered_dh lib (x_in s) nonce (ResPQ_ServerNonce res) newNonce inner"
    unfolding offered_dh_def using fr(1) dec sp o(1) by blast
  ultimately show ?thesis using o confirmed_mono[OF o(4) fr(2)] by blast
qed

section \<open>The honest run\<close>

lemma length_tl_bytes: "length (tl_bytes v) \<le> length v + 7"
  unfolding tl_bytes_def Buffer_PutBytes_def
  using nearestPaddedValueLength_less[of "length v + 1"] nearestPaddedValueLength_less[of "length v + 4"]
  by (simp add: length_encodeBytes)

lemma TempAESKeys_ok:
  assumes "length nn = 32" "length sn = 16"
  obtains key iv where "TempAESKeys (SetBytes nn) (SetBytes sn) = Inr (key, iv)" "length key = 32" "length iv = 32"
  using assms by (simp add: TempAESKeys_def big_FillBytes_SetBytes go_slice_def)

lemma RandInt128_ok: "16 \<le> length r \<Longrightarrow> RandInt128 r = (Inr (take 16 r), drop 16 r)"
  by (simp add: RandInt128_def io_ReadFull_def Word_def Buffer_Int128_def Let_def)

lemma RandInt256_ok: "32 \<le> length r \<Longrightarrow> RandInt256 r = (Inr (take 32 r), drop 32 r)"
  by (simp add: RandInt256_def io_ReadFull_def Word_def Buffer_Int256_def Let_def)

lemma big_Exp_commute: "big_Exp (big_Exp g a p) b p = big_Exp (big_Exp g b p) a p"
  by (simp add: big_Exp_def power_mod power_mult[symmetric] mult.commute)

lemma DecomposePQ_le:
  assumes "DecomposePQ pq rand = (Inr (p, q), rand')"
  shows "p \<le> pq \<and> q \<le> pq"
proof -
  obtain g r where g: "pq_loop pq 0 0 rand = (Inr g, r)" "(p, q) = (if g > pq div g then (pq div g, g) else (g, pq div g))"
    using assms by (auto simp: DecomposePQ_def Let_def split: prod.splits sum.splits)
  have "g < pq" using pq_loop_factor[OF g(1)] by simp
  moreover have "pq div g \<le> pq" by simp
  ultimately show ?thesis using g(2) by (auto split: if_splits)
qed

lemma big_Bytes_short: "n \<le> 2 ^ 63 \<Longrightarrow> length (big_Bytes n) \<le> 8"
  unfolding length_big_Bytes by simp

lemma CheckDH_ok:
  assumes "cache_ok Prime (x_cache s)" "BitLen p = 2048" "validate_dh Prime g p = None"
  shows "\<exists>c'. CheckDH Prime g p s = (Inr (), s\<lparr>x_cache := c'\<rparr>)"
  using checkDHWithCache_spec[OF assms(1), where g = g and p = p] assms(2,3)
  by (cases "checkDHWithCache Prime (x_cache s) g p") (auto simp: CheckDH_def)

lemma EncryptExchangeAnswer_ok:
  assumes "length key = 32" "15 \<le> length rand"
  shows "\<exists>out n. EncryptExchangeAnswer lib rand answer key iv = (Inr out, drop n rand) \<and> n < 16"
proof -
  let ?n = "paddedLen16 (length answer + 20) - (20 + length answer)"
  have "?n < 16" using paddedLen16_bounds[of "length answer + 20"] by simp
  then show ?thesis using assms by (auto simp: EncryptExchangeAnswer_def DataWithHash_def io_ReadFull_def aes_NewCipher_def)
qed

text \<open>The state in which an exchanger starts: the sends succeed.\<close>

definition start :: "bytes list \<Rightarrow> bytes \<Rightarrow> (nat \<Rightarrow> int) \<Rightarrow> validatedDHParameterCache \<Rightarrow> xio" where
  "start frames rand clk cache =
     \<lparr>x_in = map Inr frames, x_out = [], x_send = (\<lambda>_. None), x_rand = rand, x_clock = clk, x_ticks = 0, x_cache = cache\<rparr>"

definition honest_ResPQ :: "ServerExchange \<Rightarrow> nat \<Rightarrow> bytes \<Rightarrow> bytes \<Rightarrow> ResPQ" where
  "honest_ResPQ srv pq nonce serverNonce =
     \<lparr>ResPQ_Nonce = nonce, ResPQ_ServerNonce = serverNonce, ResPQ_Pq = big_Bytes pq,
      ResPQ_ServerPublicKeyFingerprints = [RSAFingerprint (sk_Public (se_key srv))]\<rparr>"

subsection \<open>The client\<close>

lemma length_NonceHash1 [simp]: "length (NonceHash1 nn key) = 16"
  by (simp add: NonceHash1_def go_slice_def)

lemma client_gen_run:
  assumes "x_in s = [Inr (frame t now (DhGenOk_Encode \<lparr>DhGenOk_Nonce = nonce, DhGenOk_ServerNonce = sn,
      DhGenOk_NewNonceHash1 = NonceHash1 nn key\<rparr> []))]"
    and "big_FillBytes 256 K = Inr key" "length nonce = 16" "length sn = 16" "8 \<le> length (x_rand s)"
  shows "\<exists>r s'. client_gen lib c nonce sn nn K s = (Inr r, s') \<and> cr_AuthKey r = Key_WithID key
    \<and> cr_ServerSalt r = ServerSalt_of lib nn sn \<and> x_out s' = x_out s \<and> x_in s' = []"
proof -
  define v where "v = \<lparr>DhGenOk_Nonce = nonce, DhGenOk_ServerNonce = sn, DhGenOk_NewNonceHash1 = NonceHash1 nn key\<rparr>"
  have "length (DhGenOk_Encode v []) < 2 ^ 31"
    using assms(3,4) by (simp add: v_def DhGenOk_Encode_def DhGenOk_EncodeBare_def tl_simps Word_def)
  note fr = frame_decodes[OF this]
  have "DecodeSetClientDHParamsAnswer (DhGenOk_Encode v []) = (Inr (SCA_DhGenOk v), [])"
    using DecodeSetClientDHParamsAnswer_app(1)[of v "[]"] assms(3,4) by (simp add: v_def DhGenOk_ok_def)
  then have "client_gen lib c nonce sn nn K s = client_DhGenOk lib c nonce sn nn K v (s\<lparr>x_in := []\<rparr>)"
    using assms(1) fr[of t now, folded v_def] unfolding v_def[symmetric]
    by (simp add: client_gen_def x_bind_def x_map_err_def conn_Recv_def x_decode_def x_lift_def)
  moreover have "NewSessionID (x_rand s) = (Inr (le_word (take 8 (x_rand s))), drop 8 (x_rand s))"
    using assms(5) by (simp add: NewSessionID_def io_ReadFull_def)
  ultimately show ?thesis using assms(2)
    by (cases "ce_mode c")
      (simp_all add: client_DhGenOk_def v_def x_bind_def x_lift_def x_draw_def x_now_def x_return_def Let_def Key_WithID_def)
qed

lemma client_dh_ok_run:
  assumes "x_send s = (\<lambda>_. None)" "cache_ok Prime (x_cache s)"
    and keys: "TempAESKeys (SetBytes nn) (SetBytes sn) = Inr (key, iv)"
    and dec: "DecryptExchangeAnswer lib ans key iv = Inr (Some (ServerDHInnerData_Encode inner [] @ ext))"
    and inner: "inner = \<lparr>ServerDHInnerData_Nonce = nonce, ServerDHInnerData_ServerNonce = sn, ServerDHInnerData_G = 3,
               ServerDHInnerData_DhPrime = big_Bytes dhPrime, ServerDHInnerData_GA = big_Bytes gA, ServerDHInnerData_ServerTime = tm\<rparr>"
      "ServerDHInnerData_ok inner"
    and prime: "BitLen dhPrime = 2048" "validate_dh Prime 3 dhPrime = None"
    and b: "rand_Int (x_rand s) (2 ^ RSAKeyBits) = (Inr b, r3)" "CheckDHParams dhPrime 3 gA (big_Exp 3 b dhPrime) = None"
    and enc: "EncryptExchangeAnswer lib r3 (ClientDHInnerData_Encode \<lparr>ClientDHInnerData_Nonce = nonce, ClientDHInnerData_ServerNonce = sn,
        ClientDHInnerData_RetryID = 0, ClientDHInnerData_GB = big_Bytes (big_Exp 3 b dhPrime)\<rparr> []) key iv = (Inr cenc, r4)"
  shows "\<exists>c'. client_dh_ok lib Prime c nonce sn nn
      \<lparr>ServerDHParamsOk_Nonce = nonce, ServerDHParamsOk_ServerNonce = sn, ServerDHParamsOk_EncryptedAnswer = ans\<rparr> s
    = client_gen lib c nonce sn nn (big_Exp gA b dhPrime) (s\<lparr>x_cache := c', x_rand := r4, x_ticks := Suc (x_ticks s),
        x_out := x_out s @ [frame MessageFromClient (x_clock s (x_ticks s)) (SetClientDHParamsRequest_Encode
          \<lparr>SetClientDHParamsRequest_Nonce = nonce, SetClientDHParamsRequest_ServerNonce = sn, SetClientDHParamsRequest_EncryptedData = cenc\<rparr> [])]\<rparr>)"
proof -
  obtain c' where c': "CheckDH Prime 3 dhPrime s = (Inr (), s\<lparr>x_cache := c'\<rparr>)"
    using CheckDH_ok[OF assms(2) prime] by blast
  have "ServerDHInnerData_Decode (ServerDHInnerData_Encode inner [] @ ext) = (Inr inner, ext)"
    using t_ServerDHInnerData.get_put[OF inner(2)] by blast
  then have "client_dh_ok lib Prime c nonce sn nn
      \<lparr>ServerDHParamsOk_Nonce = nonce, ServerDHParamsOk_ServerNonce = sn, ServerDHParamsOk_EncryptedAnswer = ans\<rparr> s
    = client_gen lib c nonce sn nn (big_Exp gA b dhPrime) (s\<lparr>x_cache := c', x_rand := r4, x_ticks := Suc (x_ticks s),
        x_out := x_out s @ [frame MessageFromClient (x_clock s (x_ticks s)) (SetClientDHParamsRequest_Encode
          \<lparr>SetClientDHParamsRequest_Nonce = nonce, SetClientDHParamsRequest_ServerNonce = sn, SetClientDHParamsRequest_EncryptedData = cenc\<rparr> [])]\<rparr>)"
    using assms(1) c' b keys dec inner(1) enc
    by (simp add: client_dh_ok_def x_bind_def x_map_err_def x_lift_def x_decode_def x_draw_def x_return_def Let_def
        writeUnencrypted_ok client_writer_def)
  then show ?thesis ..
qed

text \<open>From the start to the answer \<open>server_DH_params_ok\<close>, which is the second frame.\<close>

lemma client_Run_dh:
  assumes "res = honest_ResPQ srv pq nonce sn" "length nonce = 16" "length sn = 16" "pq \<le> 2 ^ 63"
    and known: "select_key (ce_keys c) [RSAFingerprint (sk_Public (se_key srv))] = Some (sk_Public (se_key srv))"
    and clk: "in_epoch now1" and ans: "length ans \<le> 2 ^ 20"
    and rand: "nonce = take 16 cr" "16 \<le> length cr" "DecomposePQ pq (drop 16 cr) = (Inr (p, q), r1)" "32 \<le> length r1" "nn = take 32 r1"
    and enc: "RSAPad lib (pq_inner_data c res nonce nn p q []) (sk_Public (se_key srv)) (drop 32 r1) = (Inr enc, r2)"
  shows "client_Run lib Prime c (start [frame MessageServerResponse now1 (ResPQ_Encode res []),
      frame MessageServerResponse now2 (ServerDHParamsOk_Encode \<lparr>ServerDHParamsOk_Nonce = nonce, ServerDHParamsOk_ServerNonce = sn,
        ServerDHParamsOk_EncryptedAnswer = ans\<rparr> []), f3] cr clk cache)
    = client_dh_ok lib Prime c nonce sn nn
        \<lparr>ServerDHParamsOk_Nonce = nonce, ServerDHParamsOk_ServerNonce = sn, ServerDHParamsOk_EncryptedAnswer = ans\<rparr>
        \<lparr>x_in = [Inr f3], x_out = [frame MessageFromClient (clk 0) (ReqPqMultiRequest_Encode \<lparr>ReqPqMultiRequest_Nonce = nonce\<rparr> []),
           frame MessageFromClient (clk 3) (ReqDHParamsRequest_Encode \<lparr>ReqDHParamsRequest_Nonce = nonce, ReqDHParamsRequest_ServerNonce = sn,
             ReqDHParamsRequest_P = big_Bytes p, ReqDHParamsRequest_Q = big_Bytes q,
             ReqDHParamsRequest_PublicKeyFingerprint = RSAFingerprint (sk_Public (se_key srv)), ReqDHParamsRequest_EncryptedData = enc\<rparr> [])],
         x_send = (\<lambda>_. None), x_rand = r2, x_clock = clk, x_ticks = 4, x_cache = cache\<rparr>"
proof -
  let ?f1 = "frame MessageServerResponse now1 (ResPQ_Encode res [])"
  define ok where "ok = \<lparr>ServerDHParamsOk_Nonce = nonce, ServerDHParamsOk_ServerNonce = sn, ServerDHParamsOk_EncryptedAnswer = ans\<rparr>"
  have pql: "length (big_Bytes pq) \<le> 8" using big_Bytes_short[OF assms(4)] .
  have "ResPQ_ok res" using assms(1-3) pql by (simp add: ResPQ_ok_def honest_ResPQ_def maxLongStringLength_def)
  then have res: "ResPQ_Decode (ResPQ_Encode res []) = (Inr res, [])" by (rule t_ResPQ.get_put_Nil)
  have "length (ResPQ_Encode res []) < 2 ^ 31"
    using assms(1-3) pql length_tl_bytes[of "big_Bytes pq"]
    by (simp add: ResPQ_Encode_def ResPQ_EncodeBare_def honest_ResPQ_def tl_simps tl_longs_parts put_defs Word_def)
  note rd = readUnencrypted_frame[where w = client_writer and t = MessageServerResponse and decode = ResPQ_Decode, OF _ _ _ clk this res]
  have "ServerDHParamsOk_ok ok" using assms(2,3) ans by (simp add: ok_def ServerDHParamsOk_ok_def maxLongStringLength_def)
  then have dok: "DecodeServerDHParams (ServerDHParamsOk_Encode ok []) = (Inr (SDH_ServerDHParamsOk ok), [])"
    using DecodeServerDHParams_app(2)[of ok "[]"] by simp
  have "length (ServerDHParamsOk_Encode ok []) < 2 ^ 31"
    using assms(2,3) ans length_tl_bytes[of ans]
    by (simp add: ok_def ServerDHParamsOk_Encode_def ServerDHParamsOk_EncodeBare_def tl_simps Word_def)
  note fr = frame_decodes[OF this]
  have w: "w_input client_writer = MessageServerResponse" "w_output client_writer = MessageFromClient" by (simp_all add: client_writer_def)
  have flds: "ResPQ_Nonce res = nonce" "ResPQ_ServerNonce res = sn" "ResPQ_ServerPublicKeyFingerprints res = [RSAFingerprint (sk_Public (se_key srv))]"
    "SetBytes (ResPQ_Pq res) = pq" by (simp_all add: assms(1) honest_ResPQ_def)
  have n: "RandInt128 cr = (Inr nonce, drop 16 cr)" "RandInt256 r1 = (Inr nn, drop 32 r1)"
    using RandInt128_ok RandInt256_ok rand by simp_all
  have "client_Run lib Prime c (start [?f1, frame MessageServerResponse now2 (ServerDHParamsOk_Encode ok []), f3] cr clk cache)
    = client_dh lib Prime c nonce res (sk_Public (se_key srv)) pq
        \<lparr>x_in = [Inr (frame MessageServerResponse now2 (ServerDHParamsOk_Encode ok [])), Inr f3],
         x_out = [frame MessageFromClient (clk 0) (ReqPqMultiRequest_Encode \<lparr>ReqPqMultiRequest_Nonce = nonce\<rparr> [])],
         x_send = (\<lambda>_. None), x_rand = drop 16 cr, x_clock = clk, x_ticks = 1, x_cache = cache\<rparr>"
    using assms(4) n known w
    by (simp add: client_Run_def start_def x_bind_def x_map_err_def x_draw_def writeUnencrypted_ok rd flds)
  also have "\<dots> = client_dh_ok lib Prime c nonce sn nn ok
        \<lparr>x_in = [Inr f3], x_out = [frame MessageFromClient (clk 0) (ReqPqMultiRequest_Encode \<lparr>ReqPqMultiRequest_Nonce = nonce\<rparr> []),
           frame MessageFromClient (clk 3) (ReqDHParamsRequest_Encode \<lparr>ReqDHParamsRequest_Nonce = nonce, ReqDHParamsRequest_ServerNonce = sn,
             ReqDHParamsRequest_P = big_Bytes p, ReqDHParamsRequest_Q = big_Bytes q,
             ReqDHParamsRequest_PublicKeyFingerprint = RSAFingerprint (sk_Public (se_key srv)), ReqDHParamsRequest_EncryptedData = enc\<rparr> [])],
         x_send = (\<lambda>_. None), x_rand = r2, x_clock = clk, x_ticks = 4, x_cache = cache\<rparr>"
    using n rand(3) enc w
    by (simp add: client_dh_def x_bind_def x_map_err_def x_draw_def x_now_def x_decode_def x_lift_def writeUnencrypted_ok conn_Recv_def
        fr dok flds eval_nat_numeral)
  finally show ?thesis by (simp add: ok_def)
qed

subsection \<open>The server\<close>

lemma server_writer_types: "w_input server_writer = MessageFromClient" "w_output server_writer = MessageServerResponse"
  by (simp_all add: server_writer_def)

lemma server_gen_run:
  assumes "x_send s = (\<lambda>_. None)"
    and "x_in s = [Inr (frame MessageFromClient now (SetClientDHParamsRequest_Encode \<lparr>SetClientDHParamsRequest_Nonce = nonce,
       SetClientDHParamsRequest_ServerNonce = sn, SetClientDHParamsRequest_EncryptedData = cenc\<rparr> []))]"
    and "in_epoch now" "length nonce = 16" "length sn = 16" "length cenc \<le> 2 ^ 20"
    and dec: "DecryptExchangeAnswer lib cenc key iv = Inr (Some (ClientDHInnerData_Encode inner [] @ ext))" "ClientDHInnerData_ok inner"
    and auth: "big_Exp (SetBytes (ClientDHInnerData_GB inner)) a dhPrime < 256 ^ 256"
      "big_FillBytes 256 (big_Exp (SetBytes (ClientDHInnerData_GB inner)) a dhPrime) = Inr authKey"
  shows "server_gen lib nonce sn nn (key, iv) a dhPrime s =
    (Inr \<lparr>sr_Key = Key_WithID authKey, sr_ServerSalt = ServerSalt_of lib nn sn\<rparr>,
     s\<lparr>x_in := [], x_ticks := Suc (x_ticks s), x_out := x_out s @ [frame MessageServerResponse (x_clock s (x_ticks s)) (DhGenOk_Encode
        \<lparr>DhGenOk_Nonce = nonce, DhGenOk_ServerNonce = sn, DhGenOk_NewNonceHash1 = NonceHash1 nn authKey\<rparr> [])]\<rparr>)"
proof -
  define v where "v = \<lparr>SetClientDHParamsRequest_Nonce = nonce, SetClientDHParamsRequest_ServerNonce = sn, SetClientDHParamsRequest_EncryptedData = cenc\<rparr>"
  have "SetClientDHParamsRequest_ok v" using assms(4-6) by (simp add: v_def SetClientDHParamsRequest_ok_def maxLongStringLength_def)
  then have d: "SetClientDHParamsRequest_Decode (SetClientDHParamsRequest_Encode v []) = (Inr v, [])" by (rule t_SetClientDHParamsRequest.get_put_Nil)
  have "length (SetClientDHParamsRequest_Encode v []) < 2 ^ 31"
    using assms(4-6) length_tl_bytes[of cenc]
    by (simp add: v_def SetClientDHParamsRequest_Encode_def SetClientDHParamsRequest_EncodeBare_def tl_simps Word_def)
  note rd = readUnencrypted_frame[where w = server_writer and t = MessageFromClient and decode = SetClientDHParamsRequest_Decode, OF _ _ _ assms(3) this d]
  have "readUnencrypted server_writer SetClientDHParamsRequest_Decode s = (Inr v, s\<lparr>x_in := []\<rparr>)"
    using assms(2) by (intro rd) (simp_all add: v_def server_writer_types)
  moreover have "FillBytes (big_Exp (SetBytes (ClientDHInnerData_GB inner)) a dhPrime) 256 = Some (Inr authKey)" using auth by (simp add: FillBytes_eq)
  moreover have "SetClientDHParamsRequest_EncryptedData v = cenc" by (simp add: v_def)
  ultimately show ?thesis using assms(1) dec t_ClientDHInnerData.get_put[OF dec(2), of ext]
    by (simp add: server_gen_def Let_def x_bind_def x_map_err_def x_lift_def x_decode_def x_return_def writeUnencrypted_ok server_writer_types)
qed

lemma pq_inner_data_decodes:
  assumes "length (ResPQ_Pq res) \<le> 8" "length (big_Bytes p) \<le> 8" "length (big_Bytes q) \<le> 8" "length nonce = 16"
    "length (ResPQ_ServerNonce res) = 16" "length nn = 32" "is_int32 (ce_dc c)" "is_int32 (ce_expiresIn c)"
  shows "\<exists>d. DecodePQInnerData (pq_inner_data c res nonce nn p q [] @ pad) = (Inr d, pad) \<and> GetNewNonce d = nn \<and> check_dc (ce_dc c) d = None"
  using assms
  by (cases "ce_mode c")
    (simp_all add: pq_inner_data_def DecodePQInnerData_app PQInnerDataDC_ok_def PQInnerDataTempDC_ok_def GetNewNonce_def check_dc_def
      maxLongStringLength_def)

lemma reqPQ_app: "length nonce = 16 \<Longrightarrow> reqPQ_Decode (ReqPqMultiRequest_Encode \<lparr>ReqPqMultiRequest_Nonce = nonce\<rparr> []) =
    (Inr \<lparr>reqPQ_Type = ReqPqMultiRequestTypeID, reqPQ_Nonce = nonce\<rparr>, [])"
  using t_ReqPqMultiRequest.get_put_Nil[of "\<lparr>ReqPqMultiRequest_Nonce = nonce\<rparr>"]
  by (simp add: reqPQ_Decode_def ReqPqMultiRequest_Encode_def ReqPqMultiRequest_EncodeBare_def ReqPqMultiRequest_ok_def tl_simps PeekID_app
      ReqPqMultiRequestTypeID_def ReqPqRequestTypeID_def)

lemma reqOrDH_app: "ReqDHParamsRequest_ok v \<Longrightarrow> reqOrDH_Decode (ReqDHParamsRequest_Encode v []) = (Inr (R_DH v), [])"
  using t_ReqDHParamsRequest.get_put_Nil[of v]
  by (simp add: reqOrDH_Decode_def ReqDHParamsRequest_Encode_def ReqDHParamsRequest_EncodeBare_def tl_simps PeekID_app)

lemma server_dh_run:
  assumes dh: "ReqDHParamsRequest_EncryptedData dh = enc" "DecodeRSAPad lib enc (se_key srv) = Inr r"
    and inner: "DecodePQInnerData r = (Inr d, pad)" "GetNewNonce d = nn" "check_dc (se_dc srv) d = None"
    and rng: "rng_DhPrime (se_rng srv) = x_return dhPrime" "rng_GA (se_rng srv) 3 dhPrime = x_draw ga"
    and ga: "ga (x_rand s) = (Inr (a, gA), r6)"
    and keys: "TempAESKeys (SetBytes nn) (SetBytes sn) = Inr (key, iv)"
    and ans: "EncryptExchangeAnswer lib r6 (ServerDHInnerData_Encode \<lparr>ServerDHInnerData_Nonce = nonce, ServerDHInnerData_ServerNonce = sn,
        ServerDHInnerData_G = 3, ServerDHInnerData_DhPrime = big_Bytes dhPrime, ServerDHInnerData_GA = big_Bytes gA,
        ServerDHInnerData_ServerTime = x_clock s (x_ticks s) div 1000000000\<rparr> []) key iv = (Inr ans, r7)"
    and send: "x_send s = (\<lambda>_. None)"
  shows "server_dh lib srv sn nonce dh s = server_gen lib nonce sn nn (key, iv) a dhPrime
    (s\<lparr>x_rand := r7, x_ticks := Suc (Suc (x_ticks s)), x_out := x_out s @ [frame MessageServerResponse (x_clock s (Suc (x_ticks s)))
       (ServerDHParamsOk_Encode \<lparr>ServerDHParamsOk_Nonce = nonce, ServerDHParamsOk_ServerNonce = sn, ServerDHParamsOk_EncryptedAnswer = ans\<rparr> [])]\<rparr>)"
  using assms
  by (simp add: server_dh_def x_bind_def x_map_err_def x_lift_def x_decode_def x_return_def x_draw_def x_now_def Let_def
      writeUnencrypted_ok server_writer_types)

lemma server_Run_dh:
  assumes "length nonce = 16" "16 \<le> length sr" "sn = take 16 sr" "rng_PQ (se_rng srv) = x_return pq"
    and "in_epoch t1" "in_epoch t2" "ReqDHParamsRequest_ok dh" "length (ReqDHParamsRequest_Encode dh []) < 2 ^ 31"
  shows "server_Run lib srv (start [frame MessageFromClient t1 (ReqPqMultiRequest_Encode \<lparr>ReqPqMultiRequest_Nonce = nonce\<rparr> []),
      frame MessageFromClient t2 (ReqDHParamsRequest_Encode dh []), f3] sr clk cache)
    = server_dh lib srv sn nonce dh
        \<lparr>x_in = [Inr f3], x_out = [frame MessageServerResponse (clk 0) (ResPQ_Encode (honest_ResPQ srv pq nonce sn) [])], x_send = (\<lambda>_. None),
         x_rand = drop 16 sr, x_clock = clk, x_ticks = 1, x_cache = cache\<rparr>"
proof -
  have l: "length (ReqPqMultiRequest_Encode \<lparr>ReqPqMultiRequest_Nonce = nonce\<rparr> []) < 2 ^ 31"
    using assms(1) by (simp add: ReqPqMultiRequest_Encode_def ReqPqMultiRequest_EncodeBare_def tl_simps Word_def)
  note rd1 = readUnencrypted_frame[where w = server_writer and t = MessageFromClient and decode = reqPQ_Decode, OF _ _ _ assms(5) l reqPQ_app[OF assms(1)]]
  note rd2 = readUnencrypted_frame[where w = server_writer and t = MessageFromClient and decode = reqOrDH_Decode, OF _ _ _ assms(6,8) reqOrDH_app[OF assms(7)]]
  show ?thesis
    using RandInt128_ok[OF assms(2)] assms(3,4)
    by (simp add: server_Run_def start_def x_bind_def x_map_err_def x_draw_def x_return_def rd1 rd2 send_ResPQ.simps writeUnencrypted_ok
        server_writer_types honest_ResPQ_def)
qed

subsection \<open>Sizes\<close>

lemma rsa_pad_loop_length: "rsa_pad_loop lib p pk rand = (Inr out, rand') \<Longrightarrow> length out = rsaLen"
proof (induction rand rule: length_induct)
  case (1 rand)
  obtain tk e r where io: "io_ReadFull tempKeySize rand = (tk, e, r)" by (metis surj_pair)
  have e: "e = None" using 1(2) io by (cases e) (simp_all add: rsa_pad_loop.simps[of _ _ _ rand])
  then have len: "length tk = 32" "length r < length rand" using io by (auto simp: io_ReadFull_def tempKeySize_def split: if_splits)
  then have "rsa_pad_loop lib p pk r = (Inr out, rand') \<or> rsaEncrypt (key_aes_encrypted lib p tk) pk = Inr out"
    using 1(2) io e by (auto simp: rsa_pad_loop.simps[of _ _ _ rand] aes_NewCipher_def Let_def split: if_splits)
  then show ?case using 1(1) len(2) by (auto simp: rsaEncrypt_def big_FillBytes_def split: if_splits)
qed

lemma RSAPad_length: "RSAPad lib data pk rand = (Inr out, rand') \<Longrightarrow> length out = 256"
  by (auto simp: RSAPad_def rsaLen_def[symmetric] split: if_splits prod.splits option.splits dest!: rsa_pad_loop_length)

lemma dh_size: "BitLen p = 2048 \<Longrightarrow> x \<le> p \<Longrightarrow> x < 256 ^ 256"
proof -
  assume "BitLen p = 2048" "x \<le> p"
  then have "x < 2 ^ (8 * 256)" using BitLen_le[of p 2048] by simp
  also have "(2 :: nat) ^ (8 * 256) = 256 ^ 256" by (simp only: power_mult) simp
  finally show ?thesis .
qed

lemma dh_Bytes: "BitLen p = 2048 \<Longrightarrow> x \<le> p \<Longrightarrow> length (big_Bytes x) \<le> 256"
  unfolding length_big_Bytes by (rule dh_size)

lemma BitLen_pos: "BitLen p = 2048 \<Longrightarrow> 0 < p"
  by (cases "p = 0") (simp_all add: BitLen.simps)

section \<open>A client and a server that fit together\<close>

text \<open>
  The two sides are configured for each other and their random draws succeed: \<open>p\<close> and \<open>q\<close> are the
  client's factors, \<open>enc\<close> its padded request, \<open>b\<close> and \<open>a\<close> the exponents; \<open>r1\<close>, \<open>r2\<close>, \<open>r3\<close> and \<open>r6\<close>
  are what the draws leave of the random bytes.
\<close>

locale honest_exchange =
  fixes lib :: cipher_lib and Prime :: "nat \<Rightarrow> bool" and c :: ClientExchange and srv :: ServerExchange
    and cclk sclk :: "nat \<Rightarrow> int" and cache :: validatedDHParameterCache
    and pq dhPrime :: nat and ga :: "bytes \<Rightarrow> (go_error + nat \<times> nat) \<times> bytes"
    and cr sr r1 r2 r3 r6 enc :: bytes and p q a b :: nat
  assumes lib: "ige_inverts lib" "xor_bytewise lib"
    and conf: "rsa_pair (se_key srv)" "select_key (ce_keys c) [RSAFingerprint (sk_Public (se_key srv))] = Some (sk_Public (se_key srv))"
      "ce_dc c = se_dc srv" "is_int32 (ce_dc c)" "is_int32 (ce_expiresIn c)"
    and clk: "\<forall>i. in_epoch (cclk i) \<and> in_epoch (sclk i)"
    and rng: "rng_PQ (se_rng srv) = x_return pq" "rng_DhPrime (se_rng srv) = x_return dhPrime" "rng_GA (se_rng srv) 3 dhPrime = x_draw ga"
    and par: "pq \<le> 2 ^ 63" "BitLen dhPrime = 2048" "validate_dh Prime 3 dhPrime = None" "cache_ok Prime cache"
    and cdraw: "16 \<le> length cr" "DecomposePQ pq (drop 16 cr) = (Inr (p, q), r1)" "32 \<le> length r1"
      "RSAPad lib (pq_inner_data c (honest_ResPQ srv pq (take 16 cr) (take 16 sr)) (take 16 cr) (take 32 r1) p q [])
         (sk_Public (se_key srv)) (drop 32 r1) = (Inr enc, r2)"
      "rand_Int r2 (2 ^ RSAKeyBits) = (Inr b, r3)" "23 \<le> length r3"
    and sdraw: "16 \<le> length sr" "ga (drop 16 sr) = (Inr (a, big_Exp 3 a dhPrime), r6)" "15 \<le> length r6"
    and range: "CheckDHParams dhPrime 3 (big_Exp 3 a dhPrime) (big_Exp 3 b dhPrime) = None"
begin

definition nonce where "nonce = take 16 cr"
definition sn where "sn = take 16 sr"
definition nn where "nn = take 32 r1"
definition res where "res = honest_ResPQ srv pq nonce sn"

definition dh where
  "dh = \<lparr>ReqDHParamsRequest_Nonce = nonce, ReqDHParamsRequest_ServerNonce = sn, ReqDHParamsRequest_P = big_Bytes p,
      ReqDHParamsRequest_Q = big_Bytes q, ReqDHParamsRequest_PublicKeyFingerprint = RSAFingerprint (sk_Public (se_key srv)),
      ReqDHParamsRequest_EncryptedData = enc\<rparr>"

definition inner where
  "inner = \<lparr>ServerDHInnerData_Nonce = nonce, ServerDHInnerData_ServerNonce = sn, ServerDHInnerData_G = 3,
      ServerDHInnerData_DhPrime = big_Bytes dhPrime, ServerDHInnerData_GA = big_Bytes (big_Exp 3 a dhPrime),
      ServerDHInnerData_ServerTime = sclk 1 div 1000000000\<rparr>"

definition cinner where
  "cinner = \<lparr>ClientDHInnerData_Nonce = nonce, ClientDHInnerData_ServerNonce = sn, ClientDHInnerData_RetryID = 0,
      ClientDHInnerData_GB = big_Bytes (big_Exp 3 b dhPrime)\<rparr>"

lemma len: "length nonce = 16" "length sn = 16" "length nn = 32"
  using cdraw(1,3) sdraw(1) by (simp_all add: nonce_def sn_def nn_def)

lemma exp_le: "big_Exp x y dhPrime \<le> dhPrime"
  using BitLen_pos[OF par(2)] by (simp add: big_Exp_def less_imp_le)

lemma pq_sizes: "length (big_Bytes pq) \<le> 8" "length (big_Bytes p) \<le> 8" "length (big_Bytes q) \<le> 8"
  using DecomposePQ_le[OF cdraw(2)] par(1) by (auto intro: big_Bytes_short)

lemma enc_eq: "RSAPad lib (pq_inner_data c res nonce nn p q []) (sk_Public (se_key srv)) (drop 32 r1) = (Inr enc, r2)"
  using cdraw(4) by (simp add: res_def nonce_def sn_def nn_def)

lemma request:
  "\<exists>r d pad. DecodeRSAPad lib enc (se_key srv) = Inr r \<and> DecodePQInnerData r = (Inr d, pad) \<and> GetNewNonce d = nn \<and> check_dc (se_dc srv) d = None"
proof -
  obtain pad where "DecodeRSAPad lib enc (se_key srv) = Inr (pq_inner_data c res nonce nn p q [] @ pad)"
    using RSAPad_decodes[OF lib conf(1) enc_eq] by blast
  then show ?thesis
    using pq_inner_data_decodes[of res p q nonce nn c pad] pq_sizes len conf(3-5) by (auto simp: res_def honest_ResPQ_def)
qed

lemma dh_fits: "ReqDHParamsRequest_ok dh" "length (ReqDHParamsRequest_Encode dh []) < 2 ^ 31" "ReqDHParamsRequest_EncryptedData dh = enc"
  using len pq_sizes RSAPad_length[OF enc_eq] length_tl_bytes[of "big_Bytes p"] length_tl_bytes[of "big_Bytes q"] length_tl_bytes[of enc]
  by (simp_all add: dh_def ReqDHParamsRequest_ok_def maxLongStringLength_def ReqDHParamsRequest_Encode_def ReqDHParamsRequest_EncodeBare_def
      tl_simps Word_def)

lemma inner_fits: "ServerDHInnerData_ok inner" "length (ServerDHInnerData_Encode inner []) \<le> 600"
proof -
  have "in_epoch (sclk 1)" using clk by blast
  then have "is_int32 (sclk 1 div 1000000000)" by (auto simp: in_epoch_def is_int32_def div_less_iff_less_mult intro: order_trans[OF _ pos_imp_zdiv_nonneg_iff[THEN iffD2]])
  then show "ServerDHInnerData_ok inner" "length (ServerDHInnerData_Encode inner []) \<le> 600"
    using len dh_Bytes[OF par(2) exp_le, of 3 a] dh_Bytes[OF par(2) order_refl]
      length_tl_bytes[of "big_Bytes dhPrime"] length_tl_bytes[of "big_Bytes (big_Exp 3 a dhPrime)"]
    by (simp_all add: inner_def ServerDHInnerData_ok_def maxLongStringLength_def is_int32_def ServerDHInnerData_Encode_def
        ServerDHInnerData_EncodeBare_def tl_simps Word_def)
qed

lemma cinner_fits: "ClientDHInnerData_ok cinner" "length (ClientDHInnerData_Encode cinner []) \<le> 600"
  using len dh_Bytes[OF par(2) exp_le, of 3 b] length_tl_bytes[of "big_Bytes (big_Exp 3 b dhPrime)"]
  by (simp_all add: cinner_def ClientDHInnerData_ok_def maxLongStringLength_def ClientDHInnerData_Encode_def ClientDHInnerData_EncodeBare_def
      tl_simps Word_def)

lemma answers:
  assumes "length key = 32" "length iv = 32"
  obtains ans n ext cenc m cext where
    "EncryptExchangeAnswer lib r6 (ServerDHInnerData_Encode inner []) key iv = (Inr ans, drop n r6)"
    "DecryptExchangeAnswer lib ans key iv = Inr (Some (ServerDHInnerData_Encode inner [] @ ext))" "length ans \<le> 2 ^ 20"
    "EncryptExchangeAnswer lib r3 (ClientDHInnerData_Encode cinner []) key iv = (Inr cenc, drop m r3)" "m < 16"
    "DecryptExchangeAnswer lib cenc key iv = Inr (Some (ClientDHInnerData_Encode cinner [] @ cext))" "length cenc \<le> 2 ^ 20"
proof -
  obtain ans n where ans: "EncryptExchangeAnswer lib r6 (ServerDHInnerData_Encode inner []) key iv = (Inr ans, drop n r6)"
    using EncryptExchangeAnswer_ok[OF assms(1) sdraw(3)] by blast
  obtain cenc m where cenc: "EncryptExchangeAnswer lib r3 (ClientDHInnerData_Encode cinner []) key iv = (Inr cenc, drop m r3)" "m < 16"
    using EncryptExchangeAnswer_ok[OF assms(1), of r3] cdraw(6) by force
  obtain ext cext where d: "DecryptExchangeAnswer lib ans key iv = Inr (Some (ServerDHInnerData_Encode inner [] @ ext))" "length ans \<le> 2 ^ 20"
    "DecryptExchangeAnswer lib cenc key iv = Inr (Some (ClientDHInnerData_Encode cinner [] @ cext))" "length cenc \<le> 2 ^ 20"
    using ExchangeAnswer_extends[OF lib(1) assms ans] inner_fits(2) ExchangeAnswer_extends[OF lib(1) assms cenc(1)] cinner_fits(2) by auto
  show thesis by (rule that[OF ans d(1,2) cenc d(3,4)])
qed

text \<open>The key, computed from either side.\<close>

lemma auth_key:
  obtains authKey where "big_FillBytes 256 (big_Exp (big_Exp 3 a dhPrime) b dhPrime) = Inr authKey"
    "big_Exp (SetBytes (ClientDHInnerData_GB cinner)) a dhPrime = big_Exp (big_Exp 3 a dhPrime) b dhPrime"
    "big_Exp (big_Exp 3 a dhPrime) b dhPrime < 256 ^ 256"
  using big_FillBytes_fits[OF dh_size[OF par(2) exp_le]] dh_size[OF par(2) exp_le] big_Exp_commute[of 3 b dhPrime a] that
  by (force simp: cinner_def)

text \<open>The frames of the run.\<close>

definition client_frames where
  "client_frames cenc =
     [frame MessageFromClient (cclk 0) (ReqPqMultiRequest_Encode \<lparr>ReqPqMultiRequest_Nonce = nonce\<rparr> []),
      frame MessageFromClient (cclk 3) (ReqDHParamsRequest_Encode dh []),
      frame MessageFromClient (cclk 4) (SetClientDHParamsRequest_Encode \<lparr>SetClientDHParamsRequest_Nonce = nonce,
        SetClientDHParamsRequest_ServerNonce = sn, SetClientDHParamsRequest_EncryptedData = cenc\<rparr> [])]"

definition server_frames where
  "server_frames ans authKey =
     [frame MessageServerResponse (sclk 0) (ResPQ_Encode res []),
      frame MessageServerResponse (sclk 2) (ServerDHParamsOk_Encode \<lparr>ServerDHParamsOk_Nonce = nonce, ServerDHParamsOk_ServerNonce = sn,
        ServerDHParamsOk_EncryptedAnswer = ans\<rparr> []),
      frame MessageServerResponse (sclk 3) (DhGenOk_Encode \<lparr>DhGenOk_Nonce = nonce, DhGenOk_ServerNonce = sn,
        DhGenOk_NewNonceHash1 = NonceHash1 nn authKey\<rparr> [])]"

lemma client_side:
  assumes keys: "TempAESKeys (SetBytes nn) (SetBytes sn) = Inr (key, iv)"
    and ans: "DecryptExchangeAnswer lib ans key iv = Inr (Some (ServerDHInnerData_Encode inner [] @ ext))" "length ans \<le> 2 ^ 20"
    and cenc: "EncryptExchangeAnswer lib r3 (ClientDHInnerData_Encode cinner []) key iv = (Inr cenc, drop m r3)" "m < 16"
    and auth: "big_FillBytes 256 (big_Exp (big_Exp 3 a dhPrime) b dhPrime) = Inr authKey"
  shows "\<exists>rc cs. client_Run lib Prime c (start (server_frames ans authKey) cr cclk cache) = (Inr rc, cs) \<and> x_out cs = client_frames cenc
    \<and> x_in cs = [] \<and> cr_AuthKey rc = Key_WithID authKey \<and> cr_ServerSalt rc = ServerSalt_of lib nn sn"
proof -
  define f3 where "f3 = server_frames ans authKey ! 2"
  let ?s = "\<lparr>x_in = [Inr f3], x_out = take 2 (client_frames cenc), x_send = (\<lambda>_. None), x_rand = r2, x_clock = cclk, x_ticks = 4, x_cache = cache\<rparr>"
  have "in_epoch (sclk 0)" using clk by blast
  note dh_part = client_Run_dh[OF res_def len(1,2) par(1) conf(2) this ans(2) nonce_def cdraw(1-3) nn_def enc_eq, of Prime "sclk 2" f3 cclk cache]
  obtain c' where run: "client_Run lib Prime c (start (server_frames ans authKey) cr cclk cache) =
      client_gen lib c nonce sn nn (big_Exp (big_Exp 3 a dhPrime) b dhPrime)
        (?s\<lparr>x_cache := c', x_rand := drop m r3, x_ticks := 5, x_out := client_frames cenc\<rparr>)"
    using dh_part client_dh_ok_run[of ?s Prime nn sn key iv lib ans inner ext nonce dhPrime "big_Exp 3 a dhPrime" "sclk 1 div 1000000000" b r3 cenc "drop m r3" c]
      keys ans(1) inner_fits(1) par(2-4) cdraw(5) range cenc(1)
    by (auto simp: server_frames_def client_frames_def f3_def dh_def inner_def cinner_def)
  have "8 \<le> length r3 - m" using cenc(2) cdraw(6) by simp
  then show ?thesis unfolding run
    using client_gen_run[of "?s\<lparr>x_cache := c', x_rand := drop m r3, x_ticks := 5, x_out := client_frames cenc\<rparr>" MessageServerResponse "sclk 3" nonce sn nn authKey
        "big_Exp (big_Exp 3 a dhPrime) b dhPrime" lib c] auth len
    by (auto simp: f3_def server_frames_def)
qed

lemma server_side:
  assumes keys: "TempAESKeys (SetBytes nn) (SetBytes sn) = Inr (key, iv)"
    and ans: "EncryptExchangeAnswer lib r6 (ServerDHInnerData_Encode inner []) key iv = (Inr ans, r7)"
    and cenc: "DecryptExchangeAnswer lib cenc key iv = Inr (Some (ClientDHInnerData_Encode cinner [] @ cext))" "length cenc \<le> 2 ^ 20"
    and auth: "big_FillBytes 256 (big_Exp (SetBytes (ClientDHInnerData_GB cinner)) a dhPrime) = Inr authKey"
      "big_Exp (SetBytes (ClientDHInnerData_GB cinner)) a dhPrime < 256 ^ 256"
  shows "\<exists>ss. server_Run lib srv (start (client_frames cenc) sr sclk cache') =
      (Inr \<lparr>sr_Key = Key_WithID authKey, sr_ServerSalt = ServerSalt_of lib nn sn\<rparr>, ss) \<and> x_out ss = server_frames ans authKey \<and> x_in ss = []"
proof -
  define g3 where "g3 = client_frames cenc ! 2"
  let ?s = "\<lparr>x_in = [Inr g3], x_out = [frame MessageServerResponse (sclk 0) (ResPQ_Encode res [])], x_send = (\<lambda>_. None),
         x_rand = drop 16 sr, x_clock = sclk, x_ticks = 1, x_cache = cache'\<rparr>"
  have e: "in_epoch (cclk 0)" "in_epoch (cclk 3)" "in_epoch (cclk 4)" using clk by blast+
  obtain r d pad where rq: "DecodeRSAPad lib enc (se_key srv) = Inr r" "DecodePQInnerData r = (Inr d, pad)" "GetNewNonce d = nn"
    "check_dc (se_dc srv) d = None" using request by blast
  have "server_Run lib srv (start (client_frames cenc) sr sclk cache') = server_dh lib srv sn nonce dh ?s"
    using server_Run_dh[OF len(1) sdraw(1) sn_def rng(1) e(1,2) dh_fits(1,2), of lib g3 sclk cache']
    by (simp add: client_frames_def g3_def res_def)
  also have "\<dots> = server_gen lib nonce sn nn (key, iv) a dhPrime
      (?s\<lparr>x_rand := r7, x_ticks := 3, x_out := take 2 (server_frames ans authKey)\<rparr>)"
    using server_dh_run[OF dh_fits(3) rq rng(2,3), of ?s a "big_Exp 3 a dhPrime" r6 sn key iv nonce ans r7] keys ans sdraw(2)
    by (simp add: server_frames_def inner_def numeral_3_eq_3 numeral_2_eq_2)
  also have "\<dots> = (Inr \<lparr>sr_Key = Key_WithID authKey, sr_ServerSalt = ServerSalt_of lib nn sn\<rparr>,
      ?s\<lparr>x_rand := r7, x_in := [], x_ticks := 4, x_out := server_frames ans authKey\<rparr>)"
    using server_gen_run[of "?s\<lparr>x_rand := r7, x_ticks := 3, x_out := take 2 (server_frames ans authKey)\<rparr>" "cclk 4" nonce sn cenc lib key iv
        cinner cext a dhPrime authKey nn] e(3) len cenc cinner_fits(1) auth
    by (simp add: g3_def client_frames_def server_frames_def)
  finally show ?thesis by simp
qed

lemma agreement:
  "\<exists>rc rs cs ss. client_Run lib Prime c (start (x_out ss) cr cclk cache) = (Inr rc, cs)
    \<and> server_Run lib srv (start (x_out cs) sr sclk cache') = (Inr rs, ss)
    \<and> x_in cs = [] \<and> x_in ss = [] \<and> cr_AuthKey rc = sr_Key rs \<and> cr_ServerSalt rc = sr_ServerSalt rs"
proof -
  obtain key iv where keys: "TempAESKeys (SetBytes nn) (SetBytes sn) = Inr (key, iv)" "length key = 32" "length iv = 32"
    using TempAESKeys_ok[OF len(3,2)] .
  obtain ans n ext cenc m cext where ans:
    "EncryptExchangeAnswer lib r6 (ServerDHInnerData_Encode inner []) key iv = (Inr ans, drop n r6)"
    "DecryptExchangeAnswer lib ans key iv = Inr (Some (ServerDHInnerData_Encode inner [] @ ext))" "length ans \<le> 2 ^ 20"
    "EncryptExchangeAnswer lib r3 (ClientDHInnerData_Encode cinner []) key iv = (Inr cenc, drop m r3)" "m < 16"
    "DecryptExchangeAnswer lib cenc key iv = Inr (Some (ClientDHInnerData_Encode cinner [] @ cext))" "length cenc \<le> 2 ^ 20"
    by (rule answers[OF keys(2,3)])
  obtain authKey where auth: "big_FillBytes 256 (big_Exp (big_Exp 3 a dhPrime) b dhPrime) = Inr authKey"
    "big_Exp (SetBytes (ClientDHInnerData_GB cinner)) a dhPrime = big_Exp (big_Exp 3 a dhPrime) b dhPrime"
    "big_Exp (big_Exp 3 a dhPrime) b dhPrime < 256 ^ 256" by (rule auth_key)
  obtain rc cs where c1: "client_Run lib Prime c (start (server_frames ans authKey) cr cclk cache) = (Inr rc, cs)"
    "x_out cs = client_frames cenc" "x_in cs = []" "cr_AuthKey rc = Key_WithID authKey" "cr_ServerSalt rc = ServerSalt_of lib nn sn"
    using client_side[OF keys(1) ans(2-5) auth(1)] by blast
  obtain ss where s1: "server_Run lib srv (start (client_frames cenc) sr sclk cache') =
      (Inr \<lparr>sr_Key = Key_WithID authKey, sr_ServerSalt = ServerSalt_of lib nn sn\<rparr>, ss)" "x_out ss = server_frames ans authKey" "x_in ss = []"
    using server_side[OF keys(1) ans(1,6,7)] auth by (auto simp del: One_nat_def)
  show ?thesis
    by (rule exI[of _ rc], rule exI[of _ "\<lparr>sr_Key = Key_WithID authKey, sr_ServerSalt = ServerSalt_of lib nn sn\<rparr>"],
        rule exI[of _ cs], rule exI[of _ ss]) (simp add: c1 s1)
qed

end

section \<open>An example\<close>

text \<open>
  A run of the parties with the server's own prime: the exponents are 1260, so that both public
  values are \<open>3 ^ 1260\<close>, and \<open>pq\<close> is 15.
\<close>

lemma BitLen_pow: "BitLen (2 ^ n - 1) = n"
proof (cases n)
  case (Suc m)
  have "BitLen (2 ^ n - 1) \<le> n" "\<not> BitLen (2 ^ n - 1) \<le> m" unfolding BitLen_le using Suc by (simp_all add: Suc_leI)
  then show ?thesis using Suc by simp
qed (simp add: BitLen.simps)

lemma byte_mask: "(w :: 8 word) AND 255 = w"
proof -
  have "(255 :: 8 word) = - 1" by code_simp
  then show ?thesis by (simp only: and.right_neutral)
qed

lemma rand_Int_key:
  assumes "256 \<le> length r"
  shows "rand_Int r (2 ^ RSAKeyBits) = (Inr (SetBytes (take 256 r)), drop 256 r)"
proof -
  have l: "BitLen (2 ^ RSAKeyBits - 1) = 2048" using BitLen_pow[of RSAKeyBits] by (simp add: RSAKeyBits_def)
  have hd: "(hd r AND 255) # tl (take 256 r) = take 256 r"
    using assms by (cases r) (simp_all add: byte_mask take_Cons')
  have lt: "SetBytes (take 256 r) < 2 ^ RSAKeyBits"
  proof -
    have "SetBytes (take 256 r) < 256 ^ 256" using SetBytes_less[of "take 256 r"] assms by simp
    also have "(256 :: nat) ^ 256 = 2 ^ (8 * 256)" by (simp only: power_mult) simp
    finally show ?thesis by (simp add: RSAKeyBits_def)
  qed
  have io: "io_ReadFull 256 r = (take 256 r, None, drop 256 r)" using assms by (simp add: io_ReadFull_def)
  show ?thesis by (subst rand_Int.simps) (simp only: l Let_def, simp add: io hd lt)
qed

lemma mod3: "(n :: nat) = k * 3 + 2 \<Longrightarrow> n mod 3 = 2"
  by presburger

lemma test_prime_mod: "test_dh_prime mod 3 = 2"
proof -
  have "test_dh_prime = 0x425EE4E897909856DA241B6525A5BFD132AF15612F6A0B406DBC4567C769DBAFC2B32E038D406AC80B86DBF0B710519EA8BBCFCF58EDB70687168F9C199A2967B5A9C5FCDC1D7AC8ECD99C54CE79068E9EDD1770632310D6C6FB2FE52EC87521617D54DCE90E315F1E99B46E42EEC32D57ADA8DE67DA141A68DACAEA4CD45336E18CDC805AC5DAD4B20D1BE723AFCE6B04937C4838190E06E65C1A04FB0D6D1C545D4F31AF1DCC919349C21D64905D2F07897941773AF2553436862FFA73DE4C4C0854074D6A3F8AFD7FE3551FA47AAC59F9B818A6D3FDC89DC781AEF8632C5FAF2B075211E5ACA4BA1A07456E617195251A8F50119056ABB0899DA13DBA9973 * 3 + 2" by (simp add: test_dh_prime_def)
  then show ?thesis by (rule mod3)
qed

lemma test_prime_upper: "test_dh_prime < 2 ^ 2048"
  by (simp add: test_dh_prime_def)

lemma test_prime_lower: "2 ^ 2047 \<le> test_dh_prime"
  by (simp add: test_dh_prime_def)

lemmas test_prime_facts = test_prime_mod test_prime_upper test_prime_lower

lemma test_prime_BitLen: "BitLen test_dh_prime = 2048"
proof -
  have "BitLen test_dh_prime \<le> 2048" "\<not> BitLen test_dh_prime \<le> 2047" unfolding BitLen_le using test_prime_facts by simp_all
  then show ?thesis by simp
qed

lemma exp_range: "(2 :: nat) ^ 1984 < 3 ^ 1260" "3 ^ 1260 < test_dh_prime - 2 ^ 1984"
proof -
  have "(2 :: nat) ^ 1984 < 2 ^ (19 * 105)" by (rule power_strict_increasing) simp_all
  also have "(2 :: nat) ^ (19 * 105) \<le> (3 ^ 12) ^ 105" unfolding power_mult by (rule power_mono) simp_all
  also have "(3 ^ 12) ^ 105 = (3 :: nat) ^ 1260" unfolding power_mult[symmetric] by (rule arg_cong[where f = "(^) 3"]) simp
  finally show "(2 :: nat) ^ 1984 < 3 ^ 1260" .
  have "(3 :: nat) ^ 1260 = (3 ^ 5) ^ 252" unfolding power_mult[symmetric] by (rule arg_cong[where f = "(^) 3"]) simp
  also have "\<dots> \<le> (2 ^ 8) ^ 252" by (rule power_mono) simp_all
  also have "\<dots> = (2 :: nat) ^ 2016" unfolding power_mult[symmetric] by (rule arg_cong[where f = "(^) 2"]) simp
  also have "\<dots> < 2 ^ 2046" by (rule power_strict_increasing) simp_all
  finally have x: "(3 :: nat) ^ 1260 < 2 ^ 2046" .
  have m: "(2 :: nat) ^ 1984 \<le> 2 ^ 2046" by (rule power_increasing) simp_all
  have "Suc 2046 = 2047" by simp
  with test_prime_lower have p: "(2 :: nat) ^ 2046 + 2 ^ 2046 \<le> test_dh_prime"
    using power_Suc[of "2 :: nat" 2046] by (simp only: mult_2)
  obtain y n k :: nat where d: "y = 3 ^ 1260" "n = 2 ^ 2046" "k = 2 ^ 1984" by blast
  show "3 ^ 1260 < test_dh_prime - 2 ^ 1984" using x m p unfolding d[symmetric] by simp
qed

definition ex_srv :: ServerExchange where
  "ex_srv = \<lparr>se_rng = TestServerRNG\<lparr>rng_PQ := x_return 15\<rparr>, se_key = example_rsa, se_dc = 2\<rparr>"

definition ex_client :: ClientExchange where
  "ex_client = \<lparr>ce_keys = [sk_Public example_rsa], ce_dc = 2, ce_mode = ExchangeModePermanent, ce_expiresIn = 0\<rparr>"

text \<open>A primality test that knows this prime.\<close>

definition ex_prime :: "nat \<Rightarrow> bool" where
  "ex_prime n \<longleftrightarrow> n = test_dh_prime \<or> n = (test_dh_prime - 1) div 2"

definition ex_cache :: validatedDHParameterCache where
  "ex_cache = \<lparr>cache_entries = [], cache_next = 0\<rparr>"

text \<open>The exponent 1260 as 256 random bytes, and the draws of the two sides.\<close>

definition ex_exp :: bytes where
  "ex_exp = replicate 254 0 @ [4, 236]"

definition ex_r3 :: bytes where "ex_r3 = replicate 23 9"
definition ex_r2 :: bytes where "ex_r2 = ex_exp @ ex_r3"
definition ex_r1 :: bytes where "ex_r1 = replicate 32 3 @ replicate 108 5 @ replicate 32 6 @ ex_r2"
definition ex_cr :: bytes where "ex_cr = replicate 16 1 @ (replicate 7 0 @ [1] @ replicate 8 0) @ ex_r1"
definition ex_r6 :: bytes where "ex_r6 = replicate 15 8"
definition ex_sr :: bytes where "ex_sr = replicate 16 2 @ ex_exp @ ex_r6"

definition ex_inner :: bytes where
  "ex_inner = pq_inner_data ex_client (honest_ResPQ ex_srv 15 (take 16 ex_cr) (take 16 ex_sr)) (take 16 ex_cr) (take 32 ex_r1) 3 5 []"

definition ex_enc :: bytes where
  "ex_enc = (case fst (RSAPad copy_cipher ex_inner (sk_Public (se_key ex_srv)) (drop 32 ex_r1)) of Inl _ \<Rightarrow> [] | Inr e \<Rightarrow> e)"

lemma length_ex_exp [simp]: "length ex_exp = 256" by (simp add: ex_exp_def)

lemma SetBytes_ex_exp: "SetBytes ex_exp = 1260"
proof -
  have "SetBytes [4, 236] = 1260" by (simp add: SetBytes_def)
  then show ?thesis by (simp add: ex_exp_def)
qed

lemma CheckDHParams_accepts:
  assumes "2 ^ (RSAKeyBits - 64) < x" "x < p - 2 ^ (RSAKeyBits - 64)" "3 < x"
  shows "CheckDHParams p 3 x x = None"
proof -
  obtain m :: nat where m: "m = 2 ^ (RSAKeyBits - 64)" by blast
  have "1 \<le> m" by (simp add: m)
  then show "CheckDHParams p 3 x x = None"
    using assms unfolding CheckDHParams_def InRange_def Let_def m[symmetric] by simp
qed

lemma ex_Exp: "big_Exp 3 1260 test_dh_prime = 3 ^ 1260"
proof -
  obtain x m :: nat where x: "x = 3 ^ 1260" "m = 2 ^ 1984" by blast
  have "x < test_dh_prime - m" using exp_range(2) unfolding x .
  then have "x mod test_dh_prime = x" by simp
  then show ?thesis unfolding x big_Exp_def .
qed

lemma ex_range: "CheckDHParams test_dh_prime 3 (big_Exp 3 1260 test_dh_prime) (big_Exp 3 1260 test_dh_prime) = None"
proof -
  have m: "(2 :: nat) ^ (RSAKeyBits - 64) = 2 ^ 1984" by (simp add: RSAKeyBits_def)
  have "(3 :: nat) ^ 1 < 3 ^ 1260" by (rule power_strict_increasing) simp_all
  then have "(3 :: nat) < 3 ^ 1260" unfolding power_one_right .
  then show ?thesis unfolding ex_Exp by (rule CheckDHParams_accepts[OF exp_range[folded m]])
qed

lemma ex_factor: "DecomposePQ 15 ((replicate 7 0 @ [1] @ replicate 8 0) @ rest) = (Inr (3, 5), rest)"
proof -
  let ?r = "(replicate 7 0 @ [1] @ replicate 8 0) @ rest :: bytes"
  have io: "io_ReadFull 8 ?r = (replicate 7 0 @ [1], None, replicate 8 0 @ rest)"
    "io_ReadFull 8 (replicate 8 0 @ rest :: bytes) = (replicate 8 0, None, rest)" by (simp_all add: io_ReadFull_def)
  have v: "SetBytes (replicate 7 0 @ [1]) = 1" "SetBytes (replicate 8 0) = 0" by simp_all
  have "pq_lim 0 > 1" by (simp add: pq_lim_def)
  then have "rho_loop 15 3 (pq_lim 0) 0 1 1 1 = 3"
    by (subst rho_loop.simps) (simp add: mul_loop_eq Let_def gcd_non_0_nat)
  then have "pq_loop 15 0 0 ?r = pq_loop 15 3 1 rest" using io v by (subst pq_loop.simps) simp
  also have "\<dots> = (Inr 3, rest)" by (subst pq_loop.simps) simp
  finally show ?thesis by (simp add: DecomposePQ_def)
qed

lemma ex_pad: "RSAPad copy_cipher ex_inner (sk_Public (se_key ex_srv)) (drop 32 ex_r1) = (Inr ex_enc, ex_r2)"
proof -
  have "length (tl_bytes [x]) = 4" for x
    by (simp add: tl_bytes_def Buffer_PutBytes_def length_encodeBytes nearestPaddedValueLength_def maxSmallStringLength_def Word_def Let_def)
  then have l: "length ex_inner = 84"
    by (simp add: ex_inner_def pq_inner_data_def ex_client_def honest_ResPQ_def PQInnerDataDC_Encode_def PQInnerDataDC_EncodeBare_def tl_simps
        Word_def big_Bytes.simps ex_cr_def ex_sr_def ex_r1_def)
  have "drop 32 ex_r1 = replicate 108 5 @ replicate 32 6 @ ex_r2" by (simp add: ex_r1_def)
  moreover obtain out where "RSAPad copy_cipher ex_inner (sk_Public example_rsa) (replicate 108 5 @ replicate 32 6 @ ex_r2) = (Inr out, ex_r2)"
    using RSAPad_returns[OF copy_cipher_laws example_rsa_pair, of ex_inner "replicate 108 5" "replicate 32 6" ex_r2] example_rsa_accepts l by auto
  ultimately show ?thesis by (simp add: ex_enc_def ex_srv_def)
qed

lemma ex_ga: "ga_loop 3 test_dh_prime (ex_exp @ rest) = (Inr (1260, big_Exp 3 1260 test_dh_prime), rest)"
proof -
  have r: "rand_Int (ex_exp @ rest) (2 ^ RSAKeyBits) = (Inr 1260, rest)" using rand_Int_key[of "ex_exp @ rest"] SetBytes_ex_exp by simp
  have "InRange (big_Exp 3 1260 test_dh_prime) 1 (int test_dh_prime - 1)"
    "InRange (big_Exp 3 1260 test_dh_prime) (2 ^ (RSAKeyBits - 64)) (int test_dh_prime - 2 ^ (RSAKeyBits - 64))"
    using ex_range by (simp_all add: CheckDHParams_def Let_def split: if_splits)
  then show ?thesis by (subst ga_loop.simps) (simp only: r Let_def prod.case sum.case if_True simp_thms)
qed

lemma ex_validate: "validate_dh ex_prime 3 test_dh_prime = None"
  using test_prime_mod by (simp add: validate_dh_def CheckGP_def checkPrime_def checkSubgroup_def ex_prime_def Let_def)

lemma ex_conf: "rsa_pair (se_key ex_srv)"
  "select_key (ce_keys ex_client) [RSAFingerprint (sk_Public (se_key ex_srv))] = Some (sk_Public (se_key ex_srv))"
  "ce_dc ex_client = se_dc ex_srv" "is_int32 (ce_dc ex_client)" "is_int32 (ce_expiresIn ex_client)"
  using example_rsa_pair by (simp_all add: ex_srv_def ex_client_def is_int32_def)

lemma ex_rng: "rng_PQ (se_rng ex_srv) = x_return 15" "rng_DhPrime (se_rng ex_srv) = x_return test_dh_prime"
  "rng_GA (se_rng ex_srv) 3 test_dh_prime = x_draw (ga_loop 3 test_dh_prime)"
  using test_prime_mod by (simp_all add: ex_srv_def TestServerRNG_def CheckGP_def checkSubgroup_def Let_def)

lemma ex_clock: "\<forall>i :: nat. in_epoch ((\<lambda>_. 1700000000000000000) i) \<and> in_epoch ((\<lambda>_. 1700000000000000001) i)"
  by (simp add: in_epoch_def)

lemma ex_par: "(15 :: nat) \<le> 2 ^ 63" "BitLen test_dh_prime = 2048" "validate_dh ex_prime 3 test_dh_prime = None" "cache_ok ex_prime ex_cache"
  using test_prime_BitLen ex_validate by (simp_all add: cache_ok_def ex_cache_def validatedDHParameterCacheCapacity_def)

lemma ex_cdraw: "16 \<le> length ex_cr" "DecomposePQ 15 (drop 16 ex_cr) = (Inr (3, 5), ex_r1)" "32 \<le> length ex_r1"
  "RSAPad copy_cipher (pq_inner_data ex_client (honest_ResPQ ex_srv 15 (take 16 ex_cr) (take 16 ex_sr)) (take 16 ex_cr) (take 32 ex_r1) 3 5 [])
     (sk_Public (se_key ex_srv)) (drop 32 ex_r1) = (Inr ex_enc, ex_r2)"
  "rand_Int ex_r2 (2 ^ RSAKeyBits) = (Inr 1260, ex_r3)" "23 \<le> length ex_r3"
proof -
  show "DecomposePQ 15 (drop 16 ex_cr) = (Inr (3, 5), ex_r1)" using ex_factor[of ex_r1] by (simp add: ex_cr_def)
  show "rand_Int ex_r2 (2 ^ RSAKeyBits) = (Inr 1260, ex_r3)" using rand_Int_key[of ex_r2] SetBytes_ex_exp by (simp add: ex_r2_def)
qed (use ex_pad in \<open>simp_all add: ex_cr_def ex_r1_def ex_r3_def ex_inner_def\<close>)

lemma ex_sdraw: "16 \<le> length ex_sr" "ga_loop 3 test_dh_prime (drop 16 ex_sr) = (Inr (1260, big_Exp 3 1260 test_dh_prime), ex_r6)" "15 \<le> length ex_r6"
  using ex_ga[of ex_r6] by (simp_all add: ex_sr_def ex_r6_def)

interpretation ex: honest_exchange copy_cipher ex_prime ex_client ex_srv "\<lambda>_. 1700000000000000000" "\<lambda>_. 1700000000000000001" ex_cache 15 test_dh_prime
    "ga_loop 3 test_dh_prime" ex_cr ex_sr ex_r1 ex_r2 ex_r3 ex_r6 ex_enc 3 5 1260 1260
  by (rule honest_exchange.intro[OF copy_cipher_laws ex_conf ex_clock ex_rng ex_par ex_cdraw ex_sdraw ex_range])

section \<open>Properties\<close>

lemma client_Run_confirmed:
  assumes "client_Run lib Prime c s = (Inr r, s')" and "cache_ok Prime (x_cache s)"
  shows "\<exists>nonce res pk newNonce inner b key. 16 \<le> length (x_rand s) \<and> nonce = take 16 (x_rand s)
    \<and> offered_pq (x_in s) nonce res \<and> select_key (ce_keys c) (ResPQ_ServerPublicKeyFingerprints res) = Some pk
    \<and> client_draws lib c res pk nonce (drop 16 (x_rand s)) newNonce b
    \<and> offered_dh lib (x_in s) nonce (ResPQ_ServerNonce res) newNonce inner \<and> checked_key Prime inner b key
    \<and> confirmed lib (x_in s) nonce (ResPQ_ServerNonce res) newNonce key r \<and> cache_ok Prime (x_cache s')"
proof -
  obtain nonce rnd s1 res s2 pk where
    n: "RandInt128 (x_rand s) = (Inr nonce, rnd)"
    and w: "writeUnencrypted client_writer (ReqPqMultiRequest_Encode \<lparr>ReqPqMultiRequest_Nonce = nonce\<rparr>) (s\<lparr>x_rand := rnd\<rparr>) = (Inr (), s1)"
    and rd: "readUnencrypted client_writer ResPQ_Decode s1 = (Inr res, s2)"
    and sel: "ResPQ_Nonce res = nonce" "select_key (ce_keys c) (ResPQ_ServerPublicKeyFingerprints res) = Some pk"
    and go: "client_dh lib Prime c nonce res pk (SetBytes (ResPQ_Pq res)) s2 = (Inr r, s')"
    using assms(1) by (auto simp: client_Run_def x_iffs Let_def split: if_split_asm option.split_asm)
  have w1: "x_in s1 = x_in s" "x_rand s1 = rnd" "x_cache s1 = x_cache s" using writeUnencrypted_D[OF w] by simp_all
  have s2: "set (x_in s2) \<subseteq> set (x_in s)" "x_cache s2 = x_cache s" "x_rand s2 = drop 16 (x_rand s)"
    using readUnencrypted_D[OF rd] w1 RandInt_D(1)[OF n] by auto
  have pq: "offered_pq (x_in s) nonce res"
    unfolding offered_pq_def using readUnencrypted_D[OF rd] w1(1) sel(1) by metis
  have "cache_ok Prime (x_cache s2)" using s2(2) assms(2) by simp
  then obtain newNonce inner b key where d: "client_draws lib c res pk nonce (drop 16 (x_rand s)) newNonce b"
    "offered_dh lib (x_in s2) nonce (ResPQ_ServerNonce res) newNonce inner" "checked_key Prime inner b key"
    "confirmed lib (x_in s2) nonce (ResPQ_ServerNonce res) newNonce key r" "cache_ok Prime (x_cache s')"
    using client_dh_D[OF go] s2(3) by auto
  have n': "16 \<le> length (x_rand s)" "nonce = take 16 (x_rand s)" using RandInt_D(1)[OF n] by simp_all
  show ?thesis
    by (rule exI[of _ nonce], rule exI[of _ res], rule exI[of _ pk], rule exI[of _ newNonce], rule exI[of _ inner], rule exI[of _ b],
        rule exI[of _ key]) (intro conjI n' pq sel(2) d(1,3,5) offered_dh_mono[OF d(2) s2(1)] confirmed_mono[OF d(4) s2(1)])
qed

lemma client_Run_key_id:
  assumes "client_Run lib Prime c s = (Inr r, s')" and "cache_ok Prime (x_cache s)"
  shows "length (AK_ID (cr_AuthKey r)) = 8"
  using client_Run_confirmed[OF assms] by (auto simp: confirmed_def Key_WithID_def Key_ID_def)

text \<open>
  C3. A client that returns a key has checked it, whoever sent the frames. Its nonce is its first 16 random
  bytes; a frame repeats it and names the product, the server's nonce and a key the client
  trusts; the new nonce is the 32 random bytes after what the factorization took, and
  the exponent is drawn after the padding of the request. The parameters are those of a
  frame whose answer opens under the keys made of that new nonce and repeats both nonces:
  the prime has 2048 bits and passed the checks of the generator and of primality,
  \<open>g_a\<close> and \<open>g_b\<close> are in their ranges, the key is \<open>g_a ^ b mod p\<close>, and one of the
  frames confirmed it with both nonces and the hash of the key under the new nonce. The
  cache keeps only validated parameters.
\<close>

theorem client_Run_checks:
  assumes "client_Run lib Prime c s = (Inr r, s')" and "cache_ok Prime (x_cache s)"
  shows "\<exists>nonce res pk newNonce inner b key. 16 \<le> length (x_rand s) \<and> nonce = take 16 (x_rand s)
    \<and> offered_pq (x_in s) nonce res \<and> select_key (ce_keys c) (ResPQ_ServerPublicKeyFingerprints res) = Some pk
    \<and> client_draws lib c res pk nonce (drop 16 (x_rand s)) newNonce b
    \<and> offered_dh lib (x_in s) nonce (ResPQ_ServerNonce res) newNonce inner \<and> checked_key Prime inner b key
    \<and> confirmed lib (x_in s) nonce (ResPQ_ServerNonce res) newNonce key r \<and> cache_ok Prime (x_cache s')"
  using assms by (rule client_Run_confirmed)

theorem client_Run_checks_witness:
  "\<exists>s r s'. client_Run copy_cipher ex_prime ex_client s = (Inr r, s') \<and> x_rand s = ex_cr \<and>
    (\<exists>nonce res pk newNonce inner b key. 16 \<le> length (x_rand s) \<and> nonce = take 16 (x_rand s)
    \<and> offered_pq (x_in s) nonce res \<and> select_key (ce_keys ex_client) (ResPQ_ServerPublicKeyFingerprints res) = Some pk
    \<and> client_draws copy_cipher ex_client res pk nonce (drop 16 (x_rand s)) newNonce b
    \<and> offered_dh copy_cipher (x_in s) nonce (ResPQ_ServerNonce res) newNonce inner \<and> checked_key ex_prime inner b key
    \<and> confirmed copy_cipher (x_in s) nonce (ResPQ_ServerNonce res) newNonce key r \<and> cache_ok ex_prime (x_cache s'))"
proof -
  obtain r s' and ss :: xio where run: "client_Run copy_cipher ex_prime ex_client (start (x_out ss) ex_cr (\<lambda>_. 1700000000000000000) ex_cache) = (Inr r, s')"
    using ex.agreement[of ex_cache] by blast
  obtain s where s: "s = start (x_out ss) ex_cr (\<lambda>_. 1700000000000000000) ex_cache" by blast
  have c: "cache_ok ex_prime (x_cache s)" and x: "x_rand s = ex_cr" using ex_par(4) by (simp_all add: s start_def)
  show ?thesis
    by (rule exI[of _ s], rule exI[of _ r], rule exI[of _ s'], intro conjI, rule run[folded s], rule x,
        rule client_Run_checks[OF run[folded s] c])
qed

text \<open>
  C2. The two sides agree. A client and a server are configured for each other: the client knows the
  public key of the server, both name the same data center, the clocks read 31-bit times, the
  server's \<open>pq\<close> fits and its prime passes the client's checks. Let their random draws
  succeed: the client factors \<open>pq\<close>, pads its request, and both exponents give values in the safe
  range. Then there is a run in which each receives exactly what the other sent, both
  return, and they hold the same authorization key and the same salt.
\<close>

theorem exchange_agreement:
  assumes lib: "ige_inverts lib" "xor_bytewise lib"
    and conf: "rsa_pair (se_key srv)" "select_key (ce_keys c) [RSAFingerprint (sk_Public (se_key srv))] = Some (sk_Public (se_key srv))"
      "ce_dc c = se_dc srv" "is_int32 (ce_dc c)" "is_int32 (ce_expiresIn c)"
    and clk: "\<forall>i. in_epoch (cclk i) \<and> in_epoch (sclk i)"
    and rng: "rng_PQ (se_rng srv) = x_return pq" "rng_DhPrime (se_rng srv) = x_return dhPrime" "rng_GA (se_rng srv) 3 dhPrime = x_draw ga"
    and par: "pq \<le> 2 ^ 63" "BitLen dhPrime = 2048" "validate_dh Prime 3 dhPrime = None" "cache_ok Prime cache"
    and cdraw: "16 \<le> length cr" "DecomposePQ pq (drop 16 cr) = (Inr (p, q), r1)" "32 \<le> length r1"
      "RSAPad lib (pq_inner_data c (honest_ResPQ srv pq (take 16 cr) (take 16 sr)) (take 16 cr) (take 32 r1) p q [])
         (sk_Public (se_key srv)) (drop 32 r1) = (Inr enc, r2)"
      "rand_Int r2 (2 ^ RSAKeyBits) = (Inr b, r3)" "23 \<le> length r3"
    and sdraw: "16 \<le> length sr" "ga (drop 16 sr) = (Inr (a, big_Exp 3 a dhPrime), r6)" "15 \<le> length r6"
    and range: "CheckDHParams dhPrime 3 (big_Exp 3 a dhPrime) (big_Exp 3 b dhPrime) = None"
  shows "\<exists>rc rs cs ss. client_Run lib Prime c (start (x_out ss) cr cclk cache) = (Inr rc, cs)
    \<and> server_Run lib srv (start (x_out cs) sr sclk cache') = (Inr rs, ss)
    \<and> x_in cs = [] \<and> x_in ss = [] \<and> cr_AuthKey rc = sr_Key rs \<and> cr_ServerSalt rc = sr_ServerSalt rs"
proof -
  have "honest_exchange lib Prime c srv cclk sclk cache pq dhPrime ga cr sr r1 r2 r3 r6 enc p q a b"
    by (rule honest_exchange.intro) fact+
  then show ?thesis by (rule honest_exchange.agreement)
qed

theorem exchange_agreement_witness:
  "\<exists>rc rs cs ss. client_Run copy_cipher ex_prime ex_client (start (x_out ss) ex_cr (\<lambda>_. 1700000000000000000) ex_cache) = (Inr rc, cs)
    \<and> server_Run copy_cipher ex_srv (start (x_out cs) ex_sr (\<lambda>_. 1700000000000000001) ex_cache) = (Inr rs, ss)
    \<and> x_in cs = [] \<and> x_in ss = [] \<and> cr_AuthKey rc = sr_Key rs \<and> cr_ServerSalt rc = sr_ServerSalt rs"
  by (rule exchange_agreement[OF copy_cipher_laws ex_conf ex_clock ex_rng ex_par ex_cdraw ex_sdraw ex_range])

end
