(* ===== verification/Aes.thy ===== *)
theory Aes
  imports Sha
begin

text \<open>
  What \<open>mtproxy\<close> uses of \<open>crypto/aes\<close>, \<open>crypto/cipher\<close> and \<open>crypto/hmac\<close>: the AES block
  function of FIPS 197 for 32-byte keys, the stream of \<open>cipher.NewCTR\<close> with its position, and
  HMAC-SHA-256. The S-box is computed from its definition, inversion in the field of 256
  elements followed by an affine map.
\<close>

unbundle bit_operations_syntax

section \<open>The field and the S-box\<close>

definition xtime :: "byte \<Rightarrow> byte" where
  "xtime b = (if bit b 7 then push_bit 1 b XOR 0x1b else push_bit 1 b)"

primrec gf_mul_bits :: "nat \<Rightarrow> byte \<Rightarrow> byte \<Rightarrow> byte" where
  "gf_mul_bits 0 a b = 0"
| "gf_mul_bits (Suc n) a b = (if bit b 0 then a else 0) XOR gf_mul_bits n (xtime a) (drop_bit 1 b)"

definition gf_mul :: "byte \<Rightarrow> byte \<Rightarrow> byte" where
  "gf_mul = gf_mul_bits 8"

text \<open>The inverse of a byte is its 254th power: squares of the powers 2, 4, .., 128.\<close>

primrec gf_inv_loop :: "nat \<Rightarrow> byte \<Rightarrow> byte \<Rightarrow> byte" where
  "gf_inv_loop 0 a r = r"
| "gf_inv_loop (Suc n) a r = (let s = gf_mul a a in gf_inv_loop n s (gf_mul r s))"

definition gf_inv :: "byte \<Rightarrow> byte" where
  "gf_inv a = gf_inv_loop 7 a 1"

definition rot8 :: "nat \<Rightarrow> byte \<Rightarrow> byte" where
  "rot8 n b = push_bit n b OR drop_bit (8 - n) b"

definition sbox :: "byte \<Rightarrow> byte" where
  "sbox a = (let b = gf_inv a in b XOR rot8 1 b XOR rot8 2 b XOR rot8 3 b XOR rot8 4 b XOR 0x63)"

section \<open>Key expansion and rounds\<close>

text \<open>Words of four bytes; the expansion of eight words to sixty.\<close>

primrec expand_loop :: "nat \<Rightarrow> byte \<Rightarrow> bytes list \<Rightarrow> bytes list" where
  "expand_loop 0 rcon ws = ws"
| "expand_loop (Suc n) rcon ws =
     (let i = length ws; t = last ws;
          u = (if i mod 8 = 0 then map2 (XOR) (map sbox (rotate 1 t)) [rcon, 0, 0, 0]
               else if i mod 8 = 4 then map sbox t else t)
      in expand_loop n (if i mod 8 = 0 then xtime rcon else rcon) (ws @ [map2 (XOR) (ws ! (i - 8)) u]))"

definition round_keys :: "bytes \<Rightarrow> bytes list" where
  "round_keys key = map concat (chunks 4 15 (expand_loop 52 1 (chunks 4 8 key)))"

text \<open>The state column by column, as the bytes come.\<close>

definition shift_rows :: "bytes \<Rightarrow> bytes" where
  "shift_rows s = map (\<lambda>i. s ! ((i + 4 * (i mod 4)) mod 16)) [0..<16]"

definition mix_column :: "bytes \<Rightarrow> bytes" where
  "mix_column c = map (\<lambda>i. xtime (c ! i) XOR (xtime (c ! ((i + 1) mod 4)) XOR c ! ((i + 1) mod 4))
     XOR c ! ((i + 2) mod 4) XOR c ! ((i + 3) mod 4)) [0..<4]"

definition aes_round :: "bytes \<Rightarrow> bytes \<Rightarrow> bytes" where
  "aes_round k s = map2 (XOR) (concat (map mix_column (chunks 4 4 (shift_rows (map sbox s))))) k"

definition aes_encrypt_block :: "bytes \<Rightarrow> bytes \<Rightarrow> bytes" where
  "aes_encrypt_block key block =
     (let ks = round_keys key in
      map2 (XOR) (shift_rows (map sbox (fold aes_round (take 13 (tl ks)) (map2 (XOR) block (hd ks))))) (ks ! 14))"

section \<open>cipher.NewCTR\<close>

definition be_nat :: "bytes \<Rightarrow> nat" where
  "be_nat bs = foldl (\<lambda>n b. n * 256 + unat b) 0 bs"

primrec be_bytes_nat :: "nat \<Rightarrow> nat \<Rightarrow> bytes" where
  "be_bytes_nat 0 n = []"
| "be_bytes_nat (Suc k) n = be_bytes_nat k (n div 256) @ [word_of_nat (n mod 256)]"

text \<open>The counter block is the IV plus the number of the block, modulo \<open>2 ^ 128\<close>.\<close>

definition ctr_block :: "bytes \<Rightarrow> bytes \<Rightarrow> nat \<Rightarrow> bytes" where
  "ctr_block key iv i = aes_encrypt_block key (be_bytes_nat 16 (be_nat iv + i))"

definition keystream :: "bytes \<Rightarrow> bytes \<Rightarrow> nat \<Rightarrow> byte" where
  "keystream key iv i = ctr_block key iv (i div 16) ! (i mod 16)"

text \<open>\<open>ctr_pos\<close> is the number of bytes of the stream already used.\<close>

record ctr =
  ctr_key :: bytes
  ctr_iv :: bytes
  ctr_pos :: nat

definition XORKeyStream :: "ctr \<Rightarrow> bytes \<Rightarrow> bytes \<times> ctr" where
  "XORKeyStream s src =
     (map2 (XOR) src (map (keystream (ctr_key s) (ctr_iv s)) [ctr_pos s ..< ctr_pos s + length src]),
      s\<lparr>ctr_pos := ctr_pos s + length src\<rparr>)"

section \<open>crypto/hmac\<close>

definition hmac_sha256 :: "bytes \<Rightarrow> bytes \<Rightarrow> bytes" where
  "hmac_sha256 key msg =
     (let k = (if length key > 64 then sha256 key else key); k = k @ replicate (64 - length k) 0 in
      sha256 (map ((XOR) 0x5c) k @ sha256 (map ((XOR) 0x36) k @ msg)))"

section \<open>Lemmas\<close>

lemma length_hmac [simp]: "length (hmac_sha256 k m) = 32"
  by (simp add: hmac_sha256_def Let_def)

lemma length_XORKeyStream [simp]: "length (fst (XORKeyStream s src)) = length src"
  by (simp add: XORKeyStream_def)

lemma XORKeyStream_nth:
  "i < length src \<Longrightarrow> fst (XORKeyStream s src) ! i = src ! i XOR keystream (ctr_key s) (ctr_iv s) (ctr_pos s + i)"
  by (simp add: XORKeyStream_def)

lemma XORKeyStream_state: "snd (XORKeyStream s src) = s\<lparr>ctr_pos := ctr_pos s + length src\<rparr>"
  by (simp add: XORKeyStream_def)

text \<open>Two streams in the same state: the second undoes the first.\<close>

lemma XORKeyStream_twice: "fst (XORKeyStream s (fst (XORKeyStream s src))) = src"
  by (rule nth_equalityI) (simp_all add: XORKeyStream_nth xor.assoc)

text \<open>A stream may be used piece by piece.\<close>

lemma XORKeyStream_append:
  "XORKeyStream s (a @ b) = (let (a', s') = XORKeyStream s a; (b', s'') = XORKeyStream s' b in (a' @ b', s''))"
proof -
  have "[ctr_pos s ..< ctr_pos s + (length a + length b)] =
      [ctr_pos s ..< ctr_pos s + length a] @ [ctr_pos s + length a ..< ctr_pos s + length a + length b]"
    by (metis add.assoc upt_add_eq_append le_add1)
  then show ?thesis by (simp add: XORKeyStream_def add.assoc)
qed

end
