(* ===== verification/Mtproxy.thy ===== *)
theory Mtproxy
  imports Aes Kex Codec
begin

text \<open>
  Package \<open>mtproxy\<close> and its subpackages: proxy secrets (\<open>secret.go\<close>), the obfuscated2 stream
  (\<open>obfuscated2/keys.go\<close>, \<open>keys_util.go\<close>, \<open>obfuscated2.go\<close>, \<open>server.go\<close>), the TLS camouflage
  (\<open>faketls/record.go\<close>, \<open>client_hello.go\<close>, \<open>server_hello.go\<close>, \<open>faketls.go\<close>) and their
  composition (\<open>obfuscator\<close>). An \<open>io.ReadWriter\<close> below a layer is its two methods over a state
  of any type, as in the code, where obfuscated2 runs over a plain connection and over
  \<open>FakeTLS\<close>. The locale \<open>byte_channel\<close> is what such a pair promises: the bytes written are a
  queue, from which every \<open>Read\<close> takes a piece. The first hello of TLS is made by the module
  \<open>utls\<close>, which is not part of the repository and is an argument.
\<close>

unbundle bit_operations_syntax

section \<open>secret.go\<close>

datatype SecretType = Simple | Secured | TLS

record Secret =
  S_Secret :: bytes
  S_Tag :: byte
  CloakHost :: bytes
  S_Type :: SecretType

datatype codec_kind = CAbridged | CIntermediate | CPaddedIntermediate | CFull

definition ExpectedCodec :: "Secret \<Rightarrow> codec_kind option" where
  "ExpectedCodec s =
     (if S_Tag s = AbridgedClientStart ! 0 then Some CAbridged
      else if S_Tag s = IntermediateClientStart ! 0 then Some CIntermediate
      else if S_Tag s = PaddedIntermediateClientStart ! 0 then Some CPaddedIntermediate
      else None)"

definition simpleLength :: nat where "simpleLength = 16"

text \<open>A \<open>Secret\<close> with the fields that Go leaves zero.\<close>

definition ParseSecret :: "bytes \<Rightarrow> go_error + Secret" where
  "ParseSecret secret =
     (let r = \<lparr>S_Secret = secret, S_Tag = 0, CloakHost = [], S_Type = Simple\<rparr> in
      case (if length secret = 1 + simpleLength then
              (let r = r\<lparr>S_Type := Secured, S_Tag := secret ! 0\<rparr>; secret = drop 1 secret in
               Inr (r\<lparr>S_Secret := take simpleLength secret\<rparr>))
            else if length secret > simpleLength then
              (let r = r\<lparr>S_Type := TLS, S_Tag := secret ! 0\<rparr>; secret = drop 1 secret in
               Inr (r\<lparr>S_Secret := take simpleLength secret, CloakHost := drop simpleLength secret\<rparr>))
            else if length secret = simpleLength then Inr (r\<lparr>S_Type := Simple\<rparr>)
            else Inl (Errorf ''invalid secret %q'' (map uint secret)))
      of Inl err \<Rightarrow> Inl err
       | Inr r \<Rightarrow>
          if S_Type r \<noteq> Simple \<and> \<not> (S_Tag r = AbridgedClientStart ! 0 \<or> S_Tag r = IntermediateClientStart ! 0
               \<or> S_Tag r = PaddedIntermediateClientStart ! 0)
          then Inl (Errorf ''unknown tag %+x'' [uint (S_Tag r)])
          else Inr r)"

section \<open>obfuscated2/keys.go, keys\_util.go\<close>

record keys =
  k_header :: bytes
  k_encrypt :: ctr
  k_decrypt :: ctr

text \<open>Every key that reaches \<open>createCTR\<close> has 32 bytes and every IV 16.\<close>

definition createCTR :: "bytes \<Rightarrow> bytes \<Rightarrow> go_error + ctr" where
  "createCTR key iv =
     (case aes_NewCipher key of
        Some err \<Rightarrow> Inl err
      | None \<Rightarrow> if length iv \<noteq> 16 then Inl (GoPanic ''cipher.NewCTR: IV length must equal block size'')
                else Inr \<lparr>ctr_key = key, ctr_iv = iv, ctr_pos = 0\<rparr>)"

definition getDecryptInit :: "bytes \<Rightarrow> bytes" where
  "getDecryptInit init =
     (let initRev = go_copy (replicate 48 0) (go_slice 8 56 init) in
      reverse_loop 0 (int (length initRev) - 1) initRev)"

text \<open>The random source is the list of bytes it gives; its end is an error of \<open>io.ReadFull\<close>.\<close>

function generateInit :: "bytes \<Rightarrow> (go_error + bytes) \<times> bytes" where
  "generateInit randSource =
     (case io_ReadFull 64 randSource of
        (_, Some err, rand) \<Rightarrow> (Inl err, rand)
      | (init, None, rand) \<Rightarrow>
          if init ! 0 = 0xef then generateInit rand
          else
            let firstInt = (le_word (go_slice 0 4 init) :: 32 word) in
            if firstInt = 0x44414548 \<or> firstInt = 0x54534f50 \<or> firstInt = 0x20544547 \<or> firstInt = 0x4954504f
               \<or> firstInt = 0x02010316 \<or> firstInt = 0xdddddddd \<or> firstInt = 0xeeeeeeee
            then generateInit rand
            else if (le_word (go_slice 4 8 init) :: 32 word) = 0 then generateInit rand
            else (Inr init, rand))"
  by pat_completeness auto
termination
  by (relation "measure length") (auto dest: io_ReadFull_shorter[OF sym])

declare generateInit.simps [simp del]

definition createStreams :: "bytes \<Rightarrow> bytes \<Rightarrow> go_error + (ctr \<times> ctr)" where
  "createStreams init secret =
     (let encryptKey = go_slice 8 40 init;
          encryptIV = go_slice 40 56 init;
          initRev = getDecryptInit init;
          decryptKey = take 32 initRev;
          decryptIV = go_slice 32 48 initRev
      in case (if length secret > 0 then
                 (if length secret < 16 then Inl (Errorf ''invalid secret size %d'' [int (length secret)])
                  else (let secret = take 16 secret in Inr (sha256 (encryptKey @ secret), sha256 (decryptKey @ secret))))
               else Inr (encryptKey, decryptKey))
         of Inl err \<Rightarrow> Inl err
          | Inr (encryptKey, decryptKey) \<Rightarrow>
             (case createCTR encryptKey encryptIV of
                Inl err \<Rightarrow> Inl err
              | Inr e \<Rightarrow> (case createCTR decryptKey decryptIV of Inl err \<Rightarrow> Inl err | Inr d \<Rightarrow> Inr (e, d))))"

definition generateKeys :: "bytes \<Rightarrow> bytes \<Rightarrow> bytes \<Rightarrow> int \<Rightarrow> (go_error + keys) \<times> bytes" where
  "generateKeys randSource protocol secret dc =
     (case generateInit randSource of
        (Inl err, rand) \<Rightarrow> (Inl err, rand)
      | (Inr init, rand) \<Rightarrow>
         (case createStreams init secret of
            Inl err \<Rightarrow> (Inl err, rand)
          | Inr (e, d) \<Rightarrow>
             let init = take 56 init @ protocol @ drop 60 init;
                 init = take 60 init @ le_bytes 2 (word_of_int dc :: 16 word) @ drop 62 init;
                 (encryptedInit, e) = XORKeyStream e init;
                 header = go_copy (replicate 64 0) (go_slice 0 56 init);
                 header = copy_at 56 (go_slice 56 (56 + 8) encryptedInit) header
             in (Inr \<lparr>k_header = header, k_encrypt = e, k_decrypt = d\<rparr>, rand)))"

section \<open>obfuscated2/obfuscated2.go, server.go\<close>

text \<open>
  The methods of the connection below: \<open>Write\<close> returns the number of bytes written, \<open>Read\<close>
  with a buffer of a given size the bytes that were read.
\<close>

type_synonym 'c conn_write = "bytes \<Rightarrow> 'c \<Rightarrow> (nat \<times> go_error option) \<times> 'c"
type_synonym 'c conn_read = "nat \<Rightarrow> 'c \<Rightarrow> (bytes \<times> go_error option) \<times> 'c"

definition Obfuscated2_Handshake ::
  "'c conn_write \<Rightarrow> bytes \<Rightarrow> bytes \<Rightarrow> int \<Rightarrow> Secret \<Rightarrow> keys \<Rightarrow> 'c \<Rightarrow> go_error option \<times> keys \<times> 'c" where
  "Obfuscated2_Handshake wr rand protocol dc s o' c =
     (case generateKeys rand protocol (S_Secret s) dc of
        (Inl err, _) \<Rightarrow> (Some (Wrap ''generate keys'' err), o', c)
      | (Inr k, _) \<Rightarrow>
         (case wr (k_header k) c of
            ((_, Some err), c) \<Rightarrow> (Some (Wrap ''write obfuscated header'' err), k, c)
          | ((_, None), c) \<Rightarrow> (None, k, c)))"

definition Obfuscated2_Write :: "'c conn_write \<Rightarrow> bytes \<Rightarrow> keys \<Rightarrow> 'c \<Rightarrow> (nat \<times> go_error option) \<times> keys \<times> 'c" where
  "Obfuscated2_Write wr b k c =
     (let (cpyB, e) = XORKeyStream (k_encrypt k) b in
      case wr cpyB c of (r, c) \<Rightarrow> (r, k\<lparr>k_encrypt := e\<rparr>, c))"

definition Obfuscated2_Read :: "'c conn_read \<Rightarrow> nat \<Rightarrow> keys \<Rightarrow> 'c \<Rightarrow> (bytes \<times> go_error option) \<times> keys \<times> 'c" where
  "Obfuscated2_Read rd n k c =
     (case rd n c of
        ((b, Some err), c) \<Rightarrow> ((b, Some err), k, c)
      | ((b, None), c) \<Rightarrow>
         if length b > 0 then
           (let (b', d) = XORKeyStream (k_decrypt k) b in ((b', None), k\<lparr>k_decrypt := d\<rparr>, c))
         else ((b, None), k, c))"

record Metadata =
  Protocol :: bytes
  DC :: "16 word"

definition Accept :: "bytes \<Rightarrow> bytes \<Rightarrow> (go_error + (keys \<times> Metadata)) \<times> bytes" where
  "Accept conn secret =
     (case io_ReadFull 64 conn of
        (_, Some err, conn) \<Rightarrow> (Inl err, conn)
      | (buf, None, conn) \<Rightarrow>
         (case createStreams buf secret of
            Inl err \<Rightarrow> (Inl err, conn)
          | Inr (e, d) \<Rightarrow>
             let k = \<lparr>k_header = [], k_encrypt = d, k_decrypt = e\<rparr>;
                 (decrypted, d) = XORKeyStream (k_decrypt k) buf;
                 meta = \<lparr>Protocol = go_slice 56 60 decrypted, DC = le_word (go_slice 60 62 decrypted)\<rparr>
             in (Inr (k\<lparr>k_decrypt := d\<rparr>, meta), conn)))"

section \<open>faketls/tls.go, record.go\<close>

definition RecordTypeChangeCipherSpec :: byte where "RecordTypeChangeCipherSpec = 0x14"
definition RecordTypeHandshake :: byte where "RecordTypeHandshake = 0x16"
definition RecordTypeApplication :: byte where "RecordTypeApplication = 0x17"

definition Version10Bytes :: bytes where "Version10Bytes = [0x03, 0x01]"
definition Version11Bytes :: bytes where "Version11Bytes = [0x03, 0x02]"
definition Version12Bytes :: bytes where "Version12Bytes = [0x03, 0x03]"
definition Version13Bytes :: bytes where "Version13Bytes = [0x03, 0x04]"

record tls_record =
  rec_Type :: byte
  rec_Version :: bytes
  rec_Data :: bytes

text \<open>\<open>binary.BigEndian\<close> on 16 bits.\<close>

definition be_put16 :: "16 word \<Rightarrow> bytes" where
  "be_put16 w = [ucast (drop_bit 8 w), ucast w]"

definition be_get16 :: "bytes \<Rightarrow> 16 word" where
  "be_get16 b = ucast (b ! 1) OR push_bit 8 (ucast (b ! 0))"

definition readRecord :: "bytes \<Rightarrow> (go_error + tls_record) \<times> bytes" where
  "readRecord r =
     (case io_ReadFull 5 r of
        (_, Some err, r) \<Rightarrow> (Inl err, r)
      | (buf, None, r) \<Rightarrow>
         let versionRaw = go_slice 1 3 buf in
         if versionRaw = Version13Bytes \<or> versionRaw = Version12Bytes \<or> versionRaw = Version11Bytes \<or> versionRaw = Version10Bytes then
           (case io_ReadFull (unat (be_get16 (drop 3 buf))) r of
              (_, Some err, r) \<Rightarrow> (Inl err, r)
            | (data, None, r) \<Rightarrow> (Inr \<lparr>rec_Type = buf ! 0, rec_Version = versionRaw, rec_Data = data\<rparr>, r))
         else (Inl (Errorf ''unknown protocol version %v'' (map uint versionRaw)), r))"

text \<open>\<open>io.ReadFull\<close> of zero bytes does not read and does not fail.\<close>

definition writeRecord :: "tls_record \<Rightarrow> writer \<Rightarrow> (nat \<times> go_error option) \<times> writer" where
  "writeRecord r w =
     (case io_Write [rec_Type r, rec_Version r ! 0, rec_Version r ! 1] w of
        (Some err, w) \<Rightarrow> ((0, Some (Wrap ''type and version'' err)), w)
      | (None, w) \<Rightarrow>
         (case io_Write (be_put16 (word_of_nat (length (rec_Data r)))) w of
            (Some err, w) \<Rightarrow> ((0, Some (Wrap ''data length'' err)), w)
          | (None, w) \<Rightarrow>
             (case io_Write (rec_Data r) w of
                (Some err, w) \<Rightarrow> ((0, Some (Wrap ''data'' err)), w)
              | (None, w) \<Rightarrow> ((length (rec_Data r), None), w))))"

section \<open>faketls/client\_hello.go, server\_hello.go\<close>

definition clientRandomOffset :: nat where "clientRandomOffset = 11"
definition clientRandomLength :: nat where "clientRandomLength = 32"

text \<open>
  \<open>hello rand domain\<close> is the handshake message that \<open>utls\<close> builds from the random source for
  the domain.
\<close>

type_synonym utls = "bytes \<Rightarrow> bytes \<Rightarrow> go_error + bytes"

definition generateClientHello :: "utls \<Rightarrow> bytes \<Rightarrow> bytes \<Rightarrow> go_error + bytes" where
  "generateClientHello utls rand domain =
     (case utls rand domain of
        Inl err \<Rightarrow> Inl (Wrap ''build handshake state'' err)
      | Inr hello \<Rightarrow> Inr ([RecordTypeHandshake, Version10Bytes ! 0, Version10Bytes ! 1]
                        @ be_put16 (word_of_nat (length hello)) @ hello))"

text \<open>\<open>now\<close> is the Unix time.\<close>

definition writeClientHello ::
  "utls \<Rightarrow> bytes \<Rightarrow> int \<Rightarrow> bytes \<Rightarrow> bytes \<Rightarrow> writer \<Rightarrow> (go_error + bytes) \<times> writer" where
  "writeClientHello utls rand now domain secret w =
     (case generateClientHello utls rand domain of
        Inl err \<Rightarrow> (Inl (Wrap ''generate ClientHello'' err), w)
      | Inr rec \<Rightarrow>
         if length rec < clientRandomOffset + clientRandomLength
         then (Inl (Errorf ''ClientHello is too short: %d bytes'' [int (length rec)]), w)
         else
           let front = take clientRandomOffset rec;
               back = drop (clientRandomOffset + clientRandomLength) rec;
               random = hmac_sha256 secret (front @ replicate clientRandomLength 0 @ back);
               old = (le_word (drop (clientRandomLength - 4) random) :: 32 word) XOR word_of_int now;
               random = take (clientRandomLength - 4) random @ le_bytes 4 old
           in case io_Write (front @ random @ back) w of
                (Some err, w) \<Rightarrow> (Inl err, w)
              | (None, w) \<Rightarrow> (Inr random, w))"

definition maxHandshakeRecords :: nat where "maxHandshakeRecords = 16"
definition serverRandomOffset :: nat where "serverRandomOffset = 11"
definition serverRandomEnd :: nat where "serverRandomEnd = serverRandomOffset + 32"

text \<open>The loop up to the record of the cipher change; \<open>False\<close> when the count is exhausted.\<close>

primrec handshake_loop :: "nat \<Rightarrow> bytes \<Rightarrow> (go_error + bool) \<times> bytes" where
  "handshake_loop 0 r = (Inr False, r)"
| "handshake_loop (Suc n) r =
     (case readRecord r of
        (Inl err, r) \<Rightarrow> (Inl (Wrap ''change cipher record'' err), r)
      | (Inr rec, r) \<Rightarrow>
         if rec_Type rec = RecordTypeHandshake then handshake_loop n r
         else if rec_Type rec = RecordTypeChangeCipherSpec then (Inr True, r)
         else (Inl (Errorf ''unexpected record type'' []), r))"

text \<open>\<open>packetBuf\<close> holds what the \<open>TeeReader\<close> has read so far: the reader's bytes before the rest.\<close>

definition tee :: "bytes \<Rightarrow> bytes \<Rightarrow> bytes" where
  "tee r rest = take (length r - length rest) r"

definition readServerHello :: "bytes \<Rightarrow> bytes \<Rightarrow> bytes \<Rightarrow> go_error option \<times> bytes" where
  "readServerHello r clientRandom secret =
     (case readRecord r of
        (Inl err, r1) \<Rightarrow> (Some (Wrap ''handshake record'' err), r1)
      | (Inr handshake, r1) \<Rightarrow>
         if rec_Type handshake \<noteq> RecordTypeHandshake then (Some (Errorf ''unexpected record type'' []), r1)
         else if length (tee r r1) < serverRandomEnd then (Some (Errorf ''handshake record is too short'' []), r1)
         else
           (case handshake_loop maxHandshakeRecords r1 of
              (Inl err, r2) \<Rightarrow> (Some err, r2)
            | (Inr False, r2) \<Rightarrow> (Some (Errorf ''unexpected record type'' []), r2)
            | (Inr True, r2) \<Rightarrow>
               (case readRecord r2 of
                  (Inl err, r3) \<Rightarrow> (Some (Wrap ''cert record'' err), r3)
                | (Inr cert, r3) \<Rightarrow>
                   if rec_Type cert \<noteq> RecordTypeApplication then (Some (Errorf ''unexpected record type'' []), r3)
                   else
                     let packet = tee r r3;
                         originalDigest = go_slice serverRandomOffset serverRandomEnd packet;
                         packet = take serverRandomOffset packet @ replicate 32 0 @ drop serverRandomEnd packet
                     in if hmac_sha256 secret (clientRandom @ packet) \<noteq> originalDigest
                        then (Some (Errorf ''hmac digest mismatch'' []), r3)
                        else (None, r3))))"

section \<open>faketls/faketls.go\<close>

record FakeTLS =
  f_version :: bytes
  f_firstPacket :: bool
  f_readBuf :: bytes

definition NewFakeTLS :: FakeTLS where
  "NewFakeTLS = \<lparr>f_version = Version12Bytes, f_firstPacket = False, f_readBuf = []\<rparr>"

definition FakeTLS_Handshake ::
  "utls \<Rightarrow> bytes \<Rightarrow> int \<Rightarrow> Secret \<Rightarrow> FakeTLS \<Rightarrow> writer \<Rightarrow> bytes \<Rightarrow> go_error option \<times> FakeTLS \<times> writer \<times> bytes" where
  "FakeTLS_Handshake utls rand now s f w r =
     (let f = f\<lparr>f_readBuf := []\<rparr> in
      case writeClientHello utls rand now (CloakHost s) (S_Secret s) w of
        (Inl err, w) \<Rightarrow> (Some (Wrap ''send ClientHello'' err), f, w, r)
      | (Inr clientDigest, w) \<Rightarrow>
         (case readServerHello r clientDigest (S_Secret s) of
            (Some err, r) \<Rightarrow> (Some (Wrap ''receive ServerHello'' err), f, w, r)
          | (None, r) \<Rightarrow> (None, f, w, r)))"

definition FakeTLS_Write :: "bytes \<Rightarrow> FakeTLS \<Rightarrow> writer \<Rightarrow> (nat \<times> go_error option) \<times> FakeTLS \<times> writer" where
  "FakeTLS_Write b f w =
     (case (if \<not> f_firstPacket f then
              (case writeRecord \<lparr>rec_Type = RecordTypeChangeCipherSpec, rec_Version = f_version f, rec_Data = [1]\<rparr> w of
                 ((_, Some err), w) \<Rightarrow> (Some (Wrap ''write first TLS packet'' err), f, w)
               | ((_, None), w) \<Rightarrow> (None, f\<lparr>f_firstPacket := True\<rparr>, w))
            else (None, f, w))
      of (Some err, f, w) \<Rightarrow> ((0, Some err), f, w)
       | (None, f, w) \<Rightarrow>
          (case writeRecord \<lparr>rec_Type = RecordTypeApplication, rec_Version = f_version f, rec_Data = b\<rparr> w of
             ((_, Some err), w) \<Rightarrow> ((0, Some (Wrap ''write TLS record'' err)), f, w)
           | ((n, None), w) \<Rightarrow> ((n, None), f, w)))"

lemma readRecord_shorter: "readRecord r = (Inr rec, r') \<Longrightarrow> length r' < length r"
  by (auto simp: readRecord_def io_ReadFull_def Let_def split: if_splits)

text \<open>\<open>bytes.Buffer.Read\<close> takes as many bytes as fit.\<close>

function FakeTLS_Read :: "nat \<Rightarrow> FakeTLS \<Rightarrow> bytes \<Rightarrow> (bytes \<times> go_error option) \<times> FakeTLS \<times> bytes" where
  "FakeTLS_Read n f r =
     (if length (f_readBuf f) > 0 then ((take n (f_readBuf f), None), f\<lparr>f_readBuf := drop n (f_readBuf f)\<rparr>, r)
      else
        case readRecord r of
          (Inl err, r') \<Rightarrow> (([], Some (Wrap ''read TLS record'' err)), f, r')
        | (Inr rec, r') \<Rightarrow>
            if rec_Type rec = RecordTypeChangeCipherSpec then FakeTLS_Read n f r'
            else if rec_Type rec = RecordTypeApplication then FakeTLS_Read n (f\<lparr>f_readBuf := f_readBuf f @ rec_Data rec\<rparr>) r'
            else if rec_Type rec = RecordTypeHandshake then (([], Some (Errorf ''unexpected record type handshake'' [])), f, r')
            else (([], Some (Errorf ''unsupported record type %v'' [uint (rec_Type rec)])), f, r'))"
  by pat_completeness auto
termination
  by (relation "measure (\<lambda>(n, f, r). length r)") (auto dest: readRecord_shorter[OF sym])

declare FakeTLS_Read.simps [simp del]

section \<open>obfuscator/obfuscator.go\<close>

text \<open>The connection of \<open>newTLS\<close>: obfuscated2 over \<open>FakeTLS\<close>, which is over the connection.\<close>

definition tls_Write :: "bytes \<Rightarrow> keys \<Rightarrow> FakeTLS \<times> writer \<Rightarrow> (nat \<times> go_error option) \<times> keys \<times> FakeTLS \<times> writer" where
  "tls_Write = Obfuscated2_Write (\<lambda>b (f, w). FakeTLS_Write b f w)"

definition tls_Read :: "nat \<Rightarrow> keys \<Rightarrow> FakeTLS \<times> bytes \<Rightarrow> (bytes \<times> go_error option) \<times> keys \<times> FakeTLS \<times> bytes" where
  "tls_Read = Obfuscated2_Read (\<lambda>n (f, r). FakeTLS_Read n f r)"

text \<open>\<open>rand\<close> is read by the TLS hello first; what it leaves is \<open>rand'\<close>.\<close>

definition tls_Handshake ::
  "utls \<Rightarrow> bytes \<Rightarrow> bytes \<Rightarrow> int \<Rightarrow> bytes \<Rightarrow> int \<Rightarrow> Secret \<Rightarrow> FakeTLS \<Rightarrow> keys \<Rightarrow> writer \<Rightarrow> bytes \<Rightarrow>
   go_error option \<times> keys \<times> FakeTLS \<times> writer \<times> bytes" where
  "tls_Handshake utls rand rand' now protocol dc s f o' w r =
     (case FakeTLS_Handshake utls rand now s f w r of
        (Some err, f, w, r) \<Rightarrow> (Some (Wrap ''faketls handshake'' err), o', f, w, r)
      | (None, f, w, r) \<Rightarrow>
         (case Obfuscated2_Handshake (\<lambda>b (f, w). FakeTLS_Write b f w) rand' protocol dc s o' (f, w) of
            (Some err, k, f, w) \<Rightarrow> (Some (Wrap ''obfs2 handshake'' err), k, f, w, r)
          | (None, k, f, w) \<Rightarrow> (None, k, f, w, r)))"

end
