(* ===== verification/Mtproxy_Channel.thy ===== *)
theory Mtproxy_Channel
  imports Mtproxy
begin

text \<open>
  Obfuscated connections as byte streams. The locale \<open>byte_channel\<close> is the contract of one
  direction of a connection: it refines a queue of bytes, a successful \<open>Write\<close> appends to the
  queue and a \<open>Read\<close> takes a non-empty piece from its front. It is interpreted on a plain
  connection that delivers in pieces of any size and on \<open>FakeTLS\<close>; obfuscated2 keeps the
  contract over any channel that has it, and so has it over both. The handshake leaves the
  two ends with matching streams.
\<close>

unbundle bit_operations_syntax

section \<open>Channels\<close>

text \<open>\<open>io.ReadFull\<close> over a connection, with fuel for the calls of \<open>Read\<close>.\<close>

primrec conn_ReadFull :: "nat \<Rightarrow> 'c conn_read \<Rightarrow> nat \<Rightarrow> bytes \<Rightarrow> 'c \<Rightarrow> ((bytes \<times> go_error option) \<times> 'c) option" where
  "conn_ReadFull 0 rd n got c = (if n \<le> length got then Some ((got, None), c) else None)"
| "conn_ReadFull (Suc k) rd n got c =
     (if n \<le> length got then Some ((got, None), c)
      else
        case rd (n - length got) c of
          ((b, Some err), c) \<Rightarrow>
            let got = got @ b in
            Some ((got, if n \<le> length got then None else if got \<noteq> [] \<and> err = EOF then Some ErrUnexpectedEOF else Some err), c)
        | ((b, None), c) \<Rightarrow> conn_ReadFull k rd n (got @ b) c)"

primrec conn_writes :: "'c conn_write \<Rightarrow> bytes list \<Rightarrow> 'c \<Rightarrow> go_error option \<times> 'c" where
  "conn_writes wr [] c = (None, c)"
| "conn_writes wr (p # ps) c =
     (case wr p c of ((_, Some err), c) \<Rightarrow> (Some err, c) | ((_, None), c) \<Rightarrow> conn_writes wr ps c)"

locale byte_channel =
  fixes wr :: "'c conn_write" and rd :: "'c conn_read"
    and holds :: "'c \<Rightarrow> bytes \<Rightarrow> bool" and fits :: "bytes \<Rightarrow> bool"
  assumes wr_ok: "holds c q \<Longrightarrow> fits p \<Longrightarrow> \<exists>c'. wr p c = ((length p, None), c') \<and> holds c' (q @ p)"
    and rd_ok: "holds c q \<Longrightarrow> q \<noteq> [] \<Longrightarrow> 0 < n \<Longrightarrow>
      \<exists>got q' c'. rd n c = ((got, None), c') \<and> q = got @ q' \<and> got \<noteq> [] \<and> length got \<le> n \<and> holds c' q'"
begin

lemma writes_ok: "holds c q \<Longrightarrow> \<forall>p\<in>set ps. fits p \<Longrightarrow> \<exists>c'. conn_writes wr ps c = (None, c') \<and> holds c' (q @ concat ps)"
proof (induction ps arbitrary: c q)
  case (Cons p ps)
  obtain c1 where "wr p c = ((length p, None), c1)" "holds c1 (q @ p)" using wr_ok[OF Cons.prems(1), of p] Cons.prems(2) by auto
  with Cons.IH[of c1 "q @ p"] Cons.prems(2) show ?case by auto
qed simp

lemma ReadFull_ok:
  "holds c q \<Longrightarrow> n \<le> length got + length q \<Longrightarrow> n - length got \<le> k \<Longrightarrow> length got \<le> n \<Longrightarrow>
   \<exists>c'. conn_ReadFull k rd n got c = Some ((got @ take (n - length got) q, None), c') \<and> holds c' (drop (n - length got) q)"
proof (induction k arbitrary: c q got)
  case (Suc k)
  show ?case
  proof (cases "n \<le> length got")
    case False
    then have "q \<noteq> []" "0 < n - length got" using Suc.prems(2) by auto
    from rd_ok[OF Suc.prems(1) this] obtain b q' c' where
      b: "rd (n - length got) c = ((b, None), c')" "q = b @ q'" "b \<noteq> []" "length b \<le> n - length got" "holds c' q'" by blast
    from b(3) obtain m where "length b = Suc m" by (cases b) auto
    then have "n - length (got @ b) \<le> k" "n \<le> length (got @ b) + length q'" "length (got @ b) \<le> n"
      using Suc.prems b(2,4) False by auto
    from Suc.IH[OF b(5) this(2,1,3)] b False show ?thesis by auto
  qed (use Suc.prems in simp)
qed auto

text \<open>What is written is read: the first \<open>n\<close> bytes, whatever pieces they were written in.\<close>

lemma stream_ok:
  assumes "holds c []" "\<forall>p\<in>set ps. fits p" "n \<le> length (concat ps)"
  shows "\<exists>c1 c2. conn_writes wr ps c = (None, c1) \<and> conn_ReadFull n rd n [] c1 = Some ((take n (concat ps), None), c2)
    \<and> holds c2 (drop n (concat ps))"
proof -
  obtain c1 where c1: "conn_writes wr ps c = (None, c1)" "holds c1 (concat ps)" using writes_ok[OF assms(1,2)] by auto
  from ReadFull_ok[OF c1(2), of n "[]" n] assms(3) c1(1) show ?thesis by auto
qed

end

section \<open>A plain connection\<close>

text \<open>
  The bytes on the way and the sizes of the pieces in which they will be delivered: a \<open>Read\<close>
  returns at most one more byte than the next size, and all there is when no size is given.
\<close>

record link =
  l_wire :: bytes
  l_sizes :: "nat list"

definition link_Write :: "link conn_write" where
  "link_Write p l = ((length p, None), l\<lparr>l_wire := l_wire l @ p\<rparr>)"

definition link_Read :: "link conn_read" where
  "link_Read n l =
     (if l_wire l = [] then (([], Some EOF), l)
      else let m = (case l_sizes l of [] \<Rightarrow> n | s # _ \<Rightarrow> min n (Suc s)) in
           ((take m (l_wire l), None), l\<lparr>l_wire := drop m (l_wire l), l_sizes := tl (l_sizes l)\<rparr>))"

definition link_holds :: "link \<Rightarrow> bytes \<Rightarrow> bool" where
  "link_holds l q \<longleftrightarrow> l_wire l = q"

interpretation tcp: byte_channel link_Write link_Read link_holds "\<lambda>_. True"
proof
  fix c :: link and q and n :: nat
  assume "link_holds c q" "q \<noteq> []" "0 < n"
  then show "\<exists>got q' c'. link_Read n c = ((got, None), c') \<and> q = got @ q' \<and> got \<noteq> [] \<and> length got \<le> n \<and> link_holds c' q'"
    by (cases "l_sizes c") (auto simp: link_Read_def link_holds_def Let_def)
qed (simp add: link_Write_def link_holds_def)

section \<open>FakeTLS as a channel\<close>

definition frame_record :: "tls_record \<Rightarrow> bytes" where
  "frame_record r = [rec_Type r, rec_Version r ! 0, rec_Version r ! 1] @ be_put16 (word_of_nat (length (rec_Data r))) @ rec_Data r"

lemma be16_roundtrip: "be_get16 (be_put16 w) = w"
  by (rule bit_word_eqI) (auto simp: be_get16_def be_put16_def bit_simps dest: bit_imp_le_length)

lemma length_be_put16 [simp]: "length (be_put16 w) = 2"
  by (simp add: be_put16_def)

definition good_version :: "bytes \<Rightarrow> bool" where
  "good_version v \<longleftrightarrow> v = Version13Bytes \<or> v = Version12Bytes \<or> v = Version11Bytes \<or> v = Version10Bytes"

lemma good_version_pair: "good_version v \<Longrightarrow> [v ! 0, v ! 1] = v"
  by (auto simp: good_version_def Version13Bytes_def Version12Bytes_def Version11Bytes_def Version10Bytes_def)

lemma writeRecord_ok:
  "wbudget w = None \<Longrightarrow> writeRecord r w = ((length (rec_Data r), None), w\<lparr>written := written w @ frame_record r\<rparr>)"
  by (simp add: writeRecord_def frame_record_def)

lemma readRecord_frame:
  assumes "good_version (rec_Version r)" "length (rec_Data r) < 2 ^ 16"
  shows "readRecord (frame_record r @ rest) = (Inr (r :: tls_record), rest)"
proof -
  let ?len = "be_put16 (word_of_nat (length (rec_Data r)))"
  let ?hd = "[rec_Type r, rec_Version r ! 0, rec_Version r ! 1] @ ?len"
  have l: "unat (be_get16 ?len) = length (rec_Data r)"
    using assms(2) by (simp add: be16_roundtrip unsigned_of_nat take_bit_nat_eq_self)
  have rd: "io_ReadFull 5 (frame_record r @ rest) = (?hd, None, rec_Data r @ rest)"
    by (simp add: frame_record_def io_ReadFull_def)
  have "go_slice 1 3 ?hd = [rec_Version r ! 0, rec_Version r ! 1]" by (simp add: go_slice_def)
  then have v: "go_slice 1 3 ?hd = rec_Version r" unfolding good_version_pair[OF assms(1)] .
  have d: "drop 3 ?hd = ?len" by simp
  show ?thesis
    unfolding readRecord_def rd using v l assms(1) by (auto simp: Let_def good_version_def d)
qed

text \<open>
  Both ends and the connection between them; \<open>written\<close> is what was written and not yet read.
  The bytes on the way are the receiver's buffer and the application data of the records.
\<close>

type_synonym ftls_link = "FakeTLS \<times> FakeTLS \<times> writer"

definition ftls_put :: "ftls_link conn_write" where
  "ftls_put p = (\<lambda>(f, g, w). case FakeTLS_Write p f w of (res, f, w) \<Rightarrow> (res, (f, g, w)))"

definition ftls_get :: "ftls_link conn_read" where
  "ftls_get n = (\<lambda>(f, g, w). case FakeTLS_Read n g (written w) of (res, g, r) \<Rightarrow> (res, (f, g, w\<lparr>written := r\<rparr>)))"

definition stream_record :: "tls_record \<Rightarrow> bool" where
  "stream_record r \<longleftrightarrow> good_version (rec_Version r) \<and> length (rec_Data r) < 2 ^ 16
     \<and> (rec_Type r = RecordTypeChangeCipherSpec \<or> rec_Type r = RecordTypeApplication)"

definition app_data :: "tls_record list \<Rightarrow> bytes" where
  "app_data rs = concat (map rec_Data (filter (\<lambda>r. rec_Type r = RecordTypeApplication) rs))"

definition ftls_holds :: "ftls_link \<Rightarrow> bytes \<Rightarrow> bool" where
  "ftls_holds = (\<lambda>(f, g, w) q. good_version (f_version f) \<and> wbudget w = None \<and>
     (\<exists>rs. (\<forall>r\<in>set rs. stream_record r) \<and> written w = concat (map frame_record rs) \<and> q = f_readBuf g @ app_data rs))"

lemmas record_types = RecordTypeChangeCipherSpec_def RecordTypeApplication_def RecordTypeHandshake_def

lemma FakeTLS_Write_ok:
  assumes "wbudget w = None"
  shows "\<exists>f' rs. FakeTLS_Write p f w = ((length p, None), f', w\<lparr>written := written w @ concat (map frame_record rs)\<rparr>)
    \<and> f_version f' = f_version f \<and> app_data rs = p
    \<and> (good_version (f_version f) \<longrightarrow> length p < 2 ^ 16 \<longrightarrow> (\<forall>r\<in>set rs. stream_record r))"
proof -
  let ?ccs = "\<lparr>rec_Type = RecordTypeChangeCipherSpec, rec_Version = f_version f, rec_Data = [1]\<rparr>"
  let ?app = "\<lparr>rec_Type = RecordTypeApplication, rec_Version = f_version f, rec_Data = p\<rparr>"
  show ?thesis
  proof (cases "f_firstPacket f")
    case True
    then show ?thesis using assms
      by (intro exI[of _ f] exI[of _ "[?app]"]) (simp add: FakeTLS_Write_def writeRecord_ok app_data_def stream_record_def)
  next
    case False
    then show ?thesis using assms
      by (intro exI[of _ "f\<lparr>f_firstPacket := True\<rparr>"] exI[of _ "[?ccs, ?app]"])
        (simp add: FakeTLS_Write_def writeRecord_ok app_data_def stream_record_def record_types)
  qed
qed

lemma FakeTLS_Read_ok:
  assumes "\<forall>r\<in>set rs. stream_record r" "f_readBuf g @ app_data rs \<noteq> []"
  shows "\<exists>got g' rs'. FakeTLS_Read n g (concat (map frame_record rs)) = ((got, None), g', concat (map frame_record rs'))
    \<and> f_readBuf g @ app_data rs = got @ f_readBuf g' @ app_data rs' \<and> (0 < n \<longrightarrow> got \<noteq> []) \<and> length got \<le> n
    \<and> (\<forall>r\<in>set rs'. stream_record r)"
  using assms
proof (induction rs arbitrary: g)
  case Nil
  then show ?case
    by (subst FakeTLS_Read.simps) (auto simp: app_data_def intro!: exI[of _ "g\<lparr>f_readBuf := drop n (f_readBuf g)\<rparr>"] exI[of _ "[]"])
next
  case (Cons r rs)
  show ?case
  proof (cases "f_readBuf g = []")
    case False
    then show ?thesis using Cons.prems
      by (subst FakeTLS_Read.simps) (auto intro!: exI[of _ "g\<lparr>f_readBuf := drop n (f_readBuf g)\<rparr>"] exI[of _ "r # rs"])
  next
    case True
    have ok: "good_version (rec_Version r)" "length (rec_Data r) < 2 ^ 16" and rest: "\<forall>r\<in>set rs. stream_record r"
      using Cons.prems(1) by (simp_all add: stream_record_def)
    have rd: "readRecord (concat (map frame_record (r # rs))) = (Inr r, concat (map frame_record rs))"
      using readRecord_frame[OF ok] by simp
    consider "rec_Type r = RecordTypeChangeCipherSpec" | "rec_Type r = RecordTypeApplication"
      using Cons.prems(1) by (auto simp: stream_record_def)
    then show ?thesis
    proof cases
      case 1
      then have "FakeTLS_Read n g (concat (map frame_record (r # rs))) = FakeTLS_Read n g (concat (map frame_record rs))"
        by (subst FakeTLS_Read.simps) (simp only: True rd, simp)
      moreover have "app_data (r # rs) = app_data rs" using 1 by (simp add: app_data_def record_types)
      ultimately show ?thesis using Cons.IH[OF rest, of g] Cons.prems(2) by simp
    next
      case 2
      let ?g = "g\<lparr>f_readBuf := f_readBuf g @ rec_Data r\<rparr>"
      have "FakeTLS_Read n g (concat (map frame_record (r # rs))) = FakeTLS_Read n ?g (concat (map frame_record rs))"
        using 2 by (subst FakeTLS_Read.simps) (simp only: True rd, simp add: record_types)
      moreover have "f_readBuf ?g @ app_data rs = f_readBuf g @ app_data (r # rs)" using 2 by (simp add: app_data_def)
      ultimately show ?thesis using Cons.IH[OF rest, of ?g] Cons.prems(2) by metis
    qed
  qed
qed

interpretation ftls: byte_channel ftls_put ftls_get ftls_holds "\<lambda>p. length p < 2 ^ 16"
proof
  fix c q p
  assume h: "ftls_holds c q" and p: "length (p :: bytes) < 2 ^ 16"
  obtain f g w where c: "c = (f, g, w)" by (cases c)
  from h obtain rs where rs: "good_version (f_version f)" "wbudget w = None" "\<forall>r\<in>set rs. stream_record r"
    "written w = concat (map frame_record rs)" "q = f_readBuf g @ app_data rs" by (auto simp: ftls_holds_def c)
  from FakeTLS_Write_ok[OF rs(2), of p f] obtain f' rs' where
    "FakeTLS_Write p f w = ((length p, None), f', w\<lparr>written := written w @ concat (map frame_record rs')\<rparr>)"
    "f_version f' = f_version f" "app_data rs' = p" "\<forall>r\<in>set rs'. stream_record r" using rs(1) p by blast
  then show "\<exists>c'. ftls_put p c = ((length p, None), c') \<and> ftls_holds c' (q @ p)"
    using rs by (auto simp: ftls_put_def ftls_holds_def c app_data_def intro!: exI[of _ "rs @ rs'"])
next
  fix c q and n :: nat
  assume h: "ftls_holds c q" and q: "q \<noteq> []" and n: "0 < n"
  obtain f g w where c: "c = (f, g, w)" by (cases c)
  from h obtain rs where rs: "good_version (f_version f)" "wbudget w = None" "\<forall>r\<in>set rs. stream_record r"
    "written w = concat (map frame_record rs)" "q = f_readBuf g @ app_data rs" by (auto simp: ftls_holds_def c)
  from FakeTLS_Read_ok[OF rs(3), of g n] obtain got g' rs' where
    "FakeTLS_Read n g (written w) = ((got, None), g', concat (map frame_record rs'))"
    "q = got @ f_readBuf g' @ app_data rs'" "got \<noteq> []" "length got \<le> n" "\<forall>r\<in>set rs'. stream_record r"
    using rs q n by auto
  then show "\<exists>got q' c'. ftls_get n c = ((got, None), c') \<and> q = got @ q' \<and> got \<noteq> [] \<and> length got \<le> n \<and> ftls_holds c' q'"
    using rs by (auto simp: ftls_get_def ftls_holds_def c)
qed

section \<open>Obfuscated2 over a channel\<close>

text \<open>The two ends of one direction: the keys of the writer, those of the reader, the channel.\<close>

definition o2_put :: "'c conn_write \<Rightarrow> (keys \<times> keys \<times> 'c) conn_write" where
  "o2_put wr p = (\<lambda>(k, k', c). case Obfuscated2_Write wr p k c of (res, k, c) \<Rightarrow> (res, (k, k', c)))"

definition o2_get :: "'c conn_read \<Rightarrow> (keys \<times> keys \<times> 'c) conn_read" where
  "o2_get rd n = (\<lambda>(k, k', c). case Obfuscated2_Read rd n k' c of (res, k', c) \<Rightarrow> (res, (k, k', c)))"

text \<open>
  The cipher text on the way decrypts with the reader's stream to the queue, and the writer's
  stream is where the reader's will be then.
\<close>

definition o2_holds :: "('c \<Rightarrow> bytes \<Rightarrow> bool) \<Rightarrow> keys \<times> keys \<times> 'c \<Rightarrow> bytes \<Rightarrow> bool" where
  "o2_holds holds = (\<lambda>(k, k', c) q. \<exists>e. holds c e \<and> XORKeyStream (k_decrypt k') e = (q, k_encrypt k))"

locale obfuscated_channel = byte_channel
begin

lemma o2_byte_channel:
  assumes len: "\<And>p p'. length p = length p' \<Longrightarrow> fits p = fits p'"
  shows "byte_channel (o2_put wr) (o2_get rd) (o2_holds holds) fits"
proof
  fix cc q p
  assume h: "o2_holds holds cc q" and p: "fits p"
  obtain k k' c where cc: "cc = (k, k', c)" by (cases cc)
  from h obtain e where e: "holds c e" "XORKeyStream (k_decrypt k') e = (q, k_encrypt k)" by (auto simp: o2_holds_def cc)
  let ?p = "fst (XORKeyStream (k_encrypt k) p)"
  have "fits ?p" using p len[of ?p p] by simp
  from wr_ok[OF e(1) this] obtain c' where w: "wr ?p c = ((length p, None), c')" "holds c' (e @ ?p)" by auto
  have "XORKeyStream (k_decrypt k') (e @ ?p) = (q @ p, snd (XORKeyStream (k_encrypt k) p))"
    using e(2) XORKeyStream_twice[of "k_encrypt k" p]
    by (simp add: XORKeyStream_append split_beta XORKeyStream_state)
  then show "\<exists>c'. o2_put wr p cc = ((length p, None), c') \<and> o2_holds holds c' (q @ p)"
    using w by (auto simp: o2_put_def Obfuscated2_Write_def cc o2_holds_def split_beta Let_def)
next
  fix cc q and n :: nat
  assume h: "o2_holds holds cc q" and q: "q \<noteq> []" and n: "0 < n"
  obtain k k' c where cc: "cc = (k, k', c)" by (cases cc)
  from h obtain e where e: "holds c e" "XORKeyStream (k_decrypt k') e = (q, k_encrypt k)" by (auto simp: o2_holds_def cc)
  have "length e = length q" using e(2) length_XORKeyStream[of "k_decrypt k'" e] by simp
  then have "e \<noteq> []" using q by auto
  from rd_ok[OF e(1) this n] obtain got e' c' where g: "rd n c = ((got, None), c')" "e = got @ e'" "got \<noteq> []"
    "length got \<le> n" "holds c' e'" by blast
  let ?d = "XORKeyStream (k_decrypt k') got"
  have s: "q = fst ?d @ fst (XORKeyStream (snd ?d) e')" "k_encrypt k = snd (XORKeyStream (snd ?d) e')"
    using e(2) by (auto simp: g(2) XORKeyStream_append split_beta Let_def)
  have "fst ?d \<noteq> []" using g(3) length_XORKeyStream[of "k_decrypt k'" got] by fastforce
  moreover have "o2_get rd n cc = ((fst ?d, None), (k, k'\<lparr>k_decrypt := snd ?d\<rparr>, c'))"
    using g by (simp add: o2_get_def Obfuscated2_Read_def cc split_beta Let_def)
  moreover have "o2_holds holds (k, k'\<lparr>k_decrypt := snd ?d\<rparr>, c') (fst (XORKeyStream (snd ?d) e'))"
    using g(5) s(2) by (auto simp: o2_holds_def intro!: exI[of _ e'] prod_eqI)
  ultimately show "\<exists>got q' c'. o2_get rd n cc = ((got, None), c') \<and> q = got @ q' \<and> got \<noteq> [] \<and> length got \<le> n
      \<and> o2_holds holds c' q'"
    using s(1) g(4) by fastforce
qed

end

interpretation tcp_o2: obfuscated_channel link_Write link_Read link_holds "\<lambda>_. True" ..

interpretation ftls_o2: obfuscated_channel ftls_put ftls_get ftls_holds "\<lambda>p. length p < 2 ^ 16" ..

interpretation obfs: byte_channel "o2_put link_Write" "o2_get link_Read" "o2_holds link_holds" "\<lambda>_. True"
  by (rule tcp_o2.o2_byte_channel) simp

interpretation obfs_tls: byte_channel "o2_put ftls_put" "o2_get ftls_get" "o2_holds ftls_holds" "\<lambda>p. length p < 2 ^ 16"
  by (rule ftls_o2.o2_byte_channel) simp

section \<open>The handshake\<close>

lemma createStreams_prefix: "take 56 a = take 56 b \<Longrightarrow> createStreams a secret = createStreams b secret"
proof -
  assume eq: "take 56 a = take 56 b"
  have sl: "go_slice i j a = go_slice i j b" if "j \<le> 56" for i j
  proof -
    have "take j a = take j b" using that arg_cong[OF eq, of "take j"] by (simp add: min_def)
    then show ?thesis by (simp add: go_slice_def flip: drop_take)
  qed
  then have "getDecryptInit a = getDecryptInit b" by (simp add: getDecryptInit_def)
  then show ?thesis using sl by (simp add: createStreams_def Let_def)
qed

lemma generateInit_length: "generateInit r = (Inr init, r') \<Longrightarrow> length init = 64"
proof (induction "length r" arbitrary: r rule: less_induct)
  case less
  obtain i0 err r1 where rd: "io_ReadFull 64 r = (i0, err, r1)" by (metis prod_cases3)
  show ?case
  proof (cases err)
    case None
    then have "length r1 < length r" "length i0 = 64" using rd by (auto simp: io_ReadFull_def split: if_splits)
    moreover have "generateInit r = generateInit r1 \<or> generateInit r = (Inr i0, r1)"
      using rd None by (subst (1 3) generateInit.simps) (simp add: Let_def)
    ultimately show ?thesis using less by auto
  next
    case (Some e)
    then show ?thesis using less.prems rd by (subst (asm) generateInit.simps) simp
  qed
qed

text \<open>The server reads out of the header what the client put in, and swaps the streams.\<close>

lemma generateKeys_Accept:
  assumes "generateKeys rand protocol secret dc = (Inr k, r')" "length protocol = 4"
  shows "length (k_header k) = 64 \<and> Accept (k_header k @ rest) secret =
    (Inr (\<lparr>k_header = [], k_encrypt = k_decrypt k, k_decrypt = k_encrypt k\<rparr>, \<lparr>Protocol = protocol, DC = word_of_int dc\<rparr>), rest)"
proof -
  obtain init rand' where gi: "generateInit rand = (Inr init, rand')"
    using assms(1) by (cases "fst (generateInit rand)") (auto simp: generateKeys_def split: prod.splits)
  obtain e d where cs: "createStreams init secret = Inr (e, d)"
    using assms(1) gi by (cases "createStreams init secret") (auto simp: generateKeys_def)
  have li: "length init = 64" by (rule generateInit_length[OF gi])
  define init' where "init' = take 56 init @ protocol @ le_bytes 2 (word_of_int dc :: 16 word) @ drop 62 init"
  define x where "x = fst (XORKeyStream e init')"
  have li': "length init' = 64" and lx: "length x = 64" using li assms(2) by (simp_all add: init'_def x_def)
  have eq: "take 60 (take 56 init @ protocol @ drop 60 init) @ le_bytes 2 (word_of_int dc :: 16 word)
      @ drop 62 (take 56 init @ protocol @ drop 60 init) = init'"
    using li assms(2) by (simp add: init'_def)
  have k: "k_header k = take 56 init @ drop 56 x" "k_encrypt k = snd (XORKeyStream e init')" "k_decrypt k = d"
    using assms(1) gi cs li li' lx eq
    by (auto simp: generateKeys_def Let_def split_beta copy_at_def go_copy_def go_slice_def x_def init'_def)
  have lk: "length (k_header k) = 64" using li lx k(1) by simp
  have rd: "io_ReadFull 64 (k_header k @ rest) = (k_header k, None, rest)" using lk by simp
  have cs': "createStreams (k_header k) secret = Inr (e, d)"
    using createStreams_prefix[of "k_header k" init secret] cs li k(1) by simp
  have dec: "drop 56 (fst (XORKeyStream e (k_header k))) = drop 56 init'"
  proof (rule nth_equalityI)
    fix i assume "i < length (drop 56 (fst (XORKeyStream e (k_header k))))"
    then have i: "i < 8" using lk by simp
    have "k_header k ! (56 + i) = x ! (56 + i)" using i li lx by (simp add: k(1) nth_append)
    then show "drop 56 (fst (XORKeyStream e (k_header k))) ! i = drop 56 init' ! i"
      using i lk li' by (simp add: XORKeyStream_nth x_def xor.assoc)
  qed (simp add: lk li')
  have proto: "go_slice 56 60 (fst (XORKeyStream e (k_header k))) = protocol"
    using dec li assms(2) by (simp add: go_slice_def init'_def)
  have "go_slice 60 62 (fst (XORKeyStream e (k_header k))) = take 2 (drop 4 (drop 56 init'))"
    unfolding dec[symmetric] by (simp add: go_slice_def)
  then have dcb: "go_slice 60 62 (fst (XORKeyStream e (k_header k))) = le_bytes 2 (word_of_int dc :: 16 word)"
    using li assms(2) by (simp add: init'_def)
  show ?thesis
    using lk rd cs' proto dcb le_word_le_bytes[of 2 "word_of_int dc :: 16 word"] k(2,3) li'
    by (simp add: Accept_def Let_def split_beta XORKeyStream_state)
qed

lemma fresh_holds: "k_decrypt k' = k_encrypt k \<Longrightarrow> holds c [] \<Longrightarrow> o2_holds holds (k, k', c) []"
  by (auto simp: o2_holds_def XORKeyStream_def intro!: exI[of _ "[]"])

section \<open>Properties\<close>

text \<open>
  C15. Obfuscated connections carry bytes faithfully in both directions. After a handshake over a
  connection the accepting side finds the transport tag and the data centre that the client
  put into the encrypted header. From then on whatever either side writes, in any pieces, the
  other side reads, although the connection delivers in pieces of any size: the first \<open>n\<close>
  bytes that \<open>io.ReadFull\<close> returns are the first \<open>n\<close> bytes written.
\<close>

theorem obfuscated2_connection:
  assumes "Obfuscated2_Handshake link_Write rand protocol dc s k0 \<lparr>l_wire = [], l_sizes = ss\<rparr> = (None, k, l)"
    and "length protocol = 4"
  shows "\<exists>k'. Accept (l_wire l) (S_Secret s) = (Inr (k', \<lparr>Protocol = protocol, DC = word_of_int dc\<rparr>), [])
    \<and> (\<forall>ps n sizes. n \<le> length (concat ps) \<longrightarrow>
        (\<exists>c1 c2. conn_writes (o2_put link_Write) ps (k, k', \<lparr>l_wire = [], l_sizes = sizes\<rparr>) = (None, c1)
          \<and> conn_ReadFull n (o2_get link_Read) n [] c1 = Some ((take n (concat ps), None), c2)))
    \<and> (\<forall>ps n sizes. n \<le> length (concat ps) \<longrightarrow>
        (\<exists>c1 c2. conn_writes (o2_put link_Write) ps (k', k, \<lparr>l_wire = [], l_sizes = sizes\<rparr>) = (None, c1)
          \<and> conn_ReadFull n (o2_get link_Read) n [] c1 = Some ((take n (concat ps), None), c2)))"
proof -
  obtain r' where gk: "generateKeys rand protocol (S_Secret s) dc = (Inr k, r')" and l: "l_wire l = k_header k"
    using assms(1) by (auto simp: Obfuscated2_Handshake_def link_Write_def split: prod.splits sum.splits)
  let ?k = "\<lparr>k_header = [], k_encrypt = k_decrypt k, k_decrypt = k_encrypt k\<rparr>"
  have e: "link_holds \<lparr>l_wire = [], l_sizes = sizes\<rparr> []" for sizes by (simp add: link_holds_def)
  have st: "\<exists>c1 c2. conn_writes (o2_put link_Write) ps (a, b, \<lparr>l_wire = [], l_sizes = sizes\<rparr>) = (None, c1)
      \<and> conn_ReadFull n (o2_get link_Read) n [] c1 = Some ((take n (concat ps), None), c2)"
    if "k_decrypt b = k_encrypt a" "n \<le> length (concat ps)" for a b n ps sizes
    using obfs.stream_ok[OF fresh_holds[where holds = link_holds, OF that(1) e[of sizes]] _ that(2)] by blast
  show ?thesis
    using generateKeys_Accept[OF gk assms(2), of "[]"] l by (intro exI[of _ ?k] conjI allI impI st) simp_all
qed

definition open_secret :: Secret where
  "open_secret = \<lparr>S_Secret = [], S_Tag = 0, CloakHost = [], S_Type = Simple\<rparr>"

lemma example_keys: "\<exists>k. generateKeys (replicate 64 97) tag [] dc = (Inr k, [])"
proof -
  have w: "le_word (replicate 4 97) = (0x61616161 :: 32 word)" by code_simp
  have gi: "generateInit (replicate 64 97) = (Inr (replicate 64 97), [])"
    using w by (subst generateInit.simps) (simp add: io_ReadFull_def go_slice_def)
  have "length (getDecryptInit (replicate 64 97)) = 48"
    by (simp add: getDecryptInit_def Let_def reverseBytes_def[symmetric] reverseBytes_rev)
  then have "\<exists>e d. createStreams (replicate 64 97) [] = Inr (e, d)"
    by (simp add: createStreams_def createCTR_def aes_NewCipher_def Let_def)
  then show ?thesis by (auto simp: generateKeys_def gi Let_def split_beta)
qed

lemma example_handshake:
  "\<exists>k l. Obfuscated2_Handshake link_Write (replicate 64 97) [0xdd, 0xdd, 0xdd, 0xdd] 2 open_secret k0 \<lparr>l_wire = [], l_sizes = [5]\<rparr> = (None, k, l)"
  using example_keys[of "[0xdd, 0xdd, 0xdd, 0xdd]" 2] by (auto simp: Obfuscated2_Handshake_def open_secret_def link_Write_def)

theorem obfuscated2_connection_witness:
  "\<exists>k l k' c1 c2. Obfuscated2_Handshake link_Write (replicate 64 97) [0xdd, 0xdd, 0xdd, 0xdd] 2 open_secret
       \<lparr>k_header = [], k_encrypt = \<lparr>ctr_key = [], ctr_iv = [], ctr_pos = 0\<rparr>, k_decrypt = \<lparr>ctr_key = [], ctr_iv = [], ctr_pos = 0\<rparr>\<rparr>
       \<lparr>l_wire = [], l_sizes = [5]\<rparr> = (None, k, l)
     \<and> Accept (l_wire l) (S_Secret open_secret) = (Inr (k', \<lparr>Protocol = [0xdd, 0xdd, 0xdd, 0xdd], DC = 2\<rparr>), [])
     \<and> conn_writes (o2_put link_Write) [[1, 2, 3], [4, 5]] (k, k', \<lparr>l_wire = [], l_sizes = [0, 1]\<rparr>) = (None, c1)
     \<and> conn_ReadFull 4 (o2_get link_Read) 4 [] c1 = Some (([1, 2, 3, 4], None), c2)"
proof -
  let ?k0 = "\<lparr>k_header = [], k_encrypt = \<lparr>ctr_key = [], ctr_iv = [], ctr_pos = 0\<rparr>, k_decrypt = \<lparr>ctr_key = [], ctr_iv = [], ctr_pos = 0\<rparr>\<rparr>"
  obtain k l where h: "Obfuscated2_Handshake link_Write (replicate 64 97) [0xdd, 0xdd, 0xdd, 0xdd] 2 open_secret ?k0
      \<lparr>l_wire = [], l_sizes = [5]\<rparr> = (None, k, l)"
    using example_handshake by blast
  from obfuscated2_connection[OF h] obtain k' where
    a: "Accept (l_wire l) (S_Secret open_secret) = (Inr (k', \<lparr>Protocol = [0xdd, 0xdd, 0xdd, 0xdd], DC = 2\<rparr>), [])"
    and s: "\<forall>ps n sizes. n \<le> length (concat ps) \<longrightarrow>
        (\<exists>c1 c2. conn_writes (o2_put link_Write) ps (k, k', \<lparr>l_wire = [], l_sizes = sizes\<rparr>) = (None, c1)
          \<and> conn_ReadFull n (o2_get link_Read) n [] c1 = Some ((take n (concat ps), None), c2))" by auto
  from s[rule_format, of 4 "[[1, 2, 3], [4, 5]]" "[0, 1]"] h a show ?thesis by auto
qed

text \<open>
  The same under the TLS camouflage, for writes of less than 65536 bytes: the records that
  start the stream and those that carry no data are skipped, the application data is put
  together again and decrypted at the right position of the stream.
\<close>

theorem FakeTLS_stream:
  assumes "k_decrypt k' = k_encrypt k" and "f_readBuf g = []" and "wbudget w = None" and "written w = []"
    and "\<forall>p\<in>set ps. length p < 2 ^ 16" and "n \<le> length (concat ps)"
  shows "\<exists>c1 c2. conn_writes (o2_put ftls_put) ps (k, k', NewFakeTLS, g, w) = (None, c1)
    \<and> conn_ReadFull n (o2_get ftls_get) n [] c1 = Some ((take n (concat ps), None), c2)"
proof -
  have "ftls_holds (NewFakeTLS, g, w) []"
    using assms(2-4) by (auto simp: ftls_holds_def NewFakeTLS_def good_version_def app_data_def intro!: exI[of _ "[]"])
  from obfs_tls.stream_ok[OF fresh_holds[where holds = ftls_holds, OF assms(1) this] assms(5,6)] show ?thesis by blast
qed

theorem FakeTLS_stream_witness:
  "\<exists>c1 c2. conn_writes (o2_put ftls_put) [[1, 2], replicate 300 7]
      (\<lparr>k_header = [], k_encrypt = \<lparr>ctr_key = [], ctr_iv = [], ctr_pos = 64\<rparr>, k_decrypt = \<lparr>ctr_key = [], ctr_iv = [], ctr_pos = 0\<rparr>\<rparr>,
       \<lparr>k_header = [], k_encrypt = \<lparr>ctr_key = [], ctr_iv = [], ctr_pos = 0\<rparr>, k_decrypt = \<lparr>ctr_key = [], ctr_iv = [], ctr_pos = 64\<rparr>\<rparr>,
       NewFakeTLS, NewFakeTLS, \<lparr>written = [], wbudget = None\<rparr>) = (None, c1)
    \<and> conn_ReadFull 5 (o2_get ftls_get) 5 [] c1 = Some ((take 5 (concat [[1, 2], replicate 300 7]), None), c2)"
  by (rule FakeTLS_stream) (simp_all add: NewFakeTLS_def)

text \<open>
  A write of 65536 bytes or more is not carried: the length field keeps its low 16 bits only.
  The call reports success, the reader takes the first bytes of the data for the whole record
  and goes on parsing the rest of the data as records.
\<close>

theorem FakeTLS_Write_oversized:
  assumes "f_firstPacket f" and "good_version (f_version f)" and "wbudget w = None" and "length p = 2 ^ 16 + m" and "m < 2 ^ 16"
  shows "\<exists>frame. FakeTLS_Write p f w = ((length p, None), f, w\<lparr>written := written w @ frame\<rparr>)
    \<and> readRecord (frame @ rest) =
        (Inr \<lparr>rec_Type = RecordTypeApplication, rec_Version = f_version f, rec_Data = take m p\<rparr>, drop m p @ rest)"
proof -
  let ?r = "\<lparr>rec_Type = RecordTypeApplication, rec_Version = f_version f, rec_Data = take m p\<rparr>"
  have "(word_of_nat (length p) :: 16 word) = word_of_nat m" unfolding assms(4) by (simp add: word_of_nat_eq_iff take_bit_eq_mod)
  moreover have "m \<le> length p" using assms(4) by simp
  ultimately have fr: "frame_record \<lparr>rec_Type = RecordTypeApplication, rec_Version = f_version f, rec_Data = p\<rparr> = frame_record ?r @ drop m p"
    by (simp add: frame_record_def min_absorb2)
  have "readRecord (frame_record ?r @ drop m p @ rest) = (Inr ?r, drop m p @ rest)"
    using assms by (intro readRecord_frame) simp_all
  then show ?thesis using assms(1,3) fr
    by (intro exI[of _ "frame_record ?r @ drop m p"]) (simp add: FakeTLS_Write_def writeRecord_ok)
qed

lemma readRecord_suffix: "readRecord r = (res, r') \<Longrightarrow> suffix r' r"
  by (auto simp: readRecord_def io_ReadFull_def Let_def suffix_drop split: if_splits)

lemma handshake_loop_suffix: "handshake_loop n r = (res, r') \<Longrightarrow> suffix r' r"
proof (induction n arbitrary: r)
  case (Suc n)
  obtain x r1 where x: "readRecord r = (x, r1)" by fastforce
  with Suc.prems Suc.IH[of r1] readRecord_suffix[OF x] show ?case
    by (auto split: sum.splits if_splits intro: suffix_order.trans)
qed simp

text \<open>
  C26. The answer to the hello is authenticated. When \<open>readServerHello\<close> accepts, the bytes it read
  contain, in the place of the server's random, the HMAC under the proxy's secret of the
  client's random followed by these bytes with that place zeroed.
\<close>

theorem readServerHello_authentic:
  assumes "readServerHello r clientRandom secret = (None, rest)"
  shows "\<exists>packet. r = packet @ rest \<and> serverRandomEnd \<le> length packet
    \<and> go_slice serverRandomOffset serverRandomEnd packet =
        hmac_sha256 secret (clientRandom @ take serverRandomOffset packet @ replicate 32 0 @ drop serverRandomEnd packet)"
proof -
  obtain h r1 where 1: "readRecord r = (Inr h, r1)" "\<not> length (tee r r1) < serverRandomEnd"
    using assms by (auto simp: readServerHello_def split: prod.splits sum.splits if_splits)
  obtain r2 where 2: "handshake_loop maxHandshakeRecords r1 = (Inr True, r2)"
    using assms 1 by (auto simp: readServerHello_def split: prod.splits sum.splits if_splits bool.splits)
  obtain cert where 3: "readRecord r2 = (Inr cert, rest)"
    and mac: "hmac_sha256 secret (clientRandom @ take serverRandomOffset (tee r rest) @ replicate 32 0 @ drop serverRandomEnd (tee r rest))
      = go_slice serverRandomOffset serverRandomEnd (tee r rest)"
    using assms 1 2 by (auto simp: readServerHello_def Let_def split: prod.splits sum.splits if_splits)
  have s: "suffix r1 r" "suffix r2 r1" "suffix rest r2"
    using readRecord_suffix[OF 1(1)] handshake_loop_suffix[OF 2] readRecord_suffix[OF 3] .
  then have "suffix rest r" by (blast intro: suffix_order.trans)
  then have "r = tee r rest @ rest" by (auto simp: suffix_def tee_def)
  moreover have "length (tee r r1) \<le> length (tee r rest)"
    using s by (auto simp: suffix_def tee_def)
  ultimately show ?thesis using 1(2) mac by (intro exI[of _ "tee r rest"]) simp
qed

text \<open>An answer that a proxy makes this way is accepted.\<close>

definition server_packet :: "bytes \<Rightarrow> bytes \<Rightarrow> bytes" where
  "server_packet d cert =
     frame_record \<lparr>rec_Type = RecordTypeHandshake, rec_Version = Version12Bytes, rec_Data = replicate 6 0 @ d\<rparr>
     @ frame_record \<lparr>rec_Type = RecordTypeChangeCipherSpec, rec_Version = Version12Bytes, rec_Data = [1]\<rparr>
     @ frame_record \<lparr>rec_Type = RecordTypeApplication, rec_Version = Version12Bytes, rec_Data = cert\<rparr>"

lemma server_packet_parts:
  assumes "length d = 32"
  shows "take 11 (server_packet d cert) @ d' @ drop 43 (server_packet d cert) = server_packet (d' :: bytes) cert \<or> length d' \<noteq> 32"
    and "go_slice 11 43 (server_packet d cert) = d"
  using assms by (auto simp: server_packet_def frame_record_def go_slice_def be_put16_def)

lemma readServerHello_honest:
  fixes secret clientRandom cert :: bytes
  assumes "length cert < 2 ^ 16"
  defines "d \<equiv> hmac_sha256 secret (clientRandom @ server_packet (replicate 32 0) cert)"
  shows "readServerHello (server_packet d cert @ rest) clientRandom secret = (None, rest)"
proof -
  let ?hs = "\<lparr>rec_Type = RecordTypeHandshake, rec_Version = Version12Bytes, rec_Data = replicate 6 0 @ d\<rparr>"
  let ?ccs = "\<lparr>rec_Type = RecordTypeChangeCipherSpec, rec_Version = Version12Bytes, rec_Data = [1]\<rparr>"
  let ?cert = "\<lparr>rec_Type = RecordTypeApplication, rec_Version = Version12Bytes, rec_Data = cert\<rparr>"
  have types: "RecordTypeChangeCipherSpec \<noteq> RecordTypeHandshake" by (simp add: record_types)
  have ld: "length d = 32" by (simp add: d_def)
  have v: "good_version Version12Bytes" by (simp add: good_version_def)
  have p: "server_packet d cert @ rest = frame_record ?hs @ frame_record ?ccs @ frame_record ?cert @ rest"
    by (simp add: server_packet_def)
  have 1: "readRecord (server_packet d cert @ rest) = (Inr ?hs, frame_record ?ccs @ frame_record ?cert @ rest)"
    unfolding p using v ld by (intro readRecord_frame) simp_all
  have c: "readRecord (frame_record ?ccs @ frame_record ?cert @ rest) = (Inr ?ccs, frame_record ?cert @ rest)"
    using v by (intro readRecord_frame) simp_all
  have 2: "handshake_loop maxHandshakeRecords (frame_record ?ccs @ frame_record ?cert @ rest) = (Inr True, frame_record ?cert @ rest)"
    by (simp add: maxHandshakeRecords_def numeral_eq_Suc c types)
  have 3: "readRecord (frame_record ?cert @ rest) = (Inr ?cert, rest)"
    using v assms(1) by (intro readRecord_frame) simp_all
  have t1: "\<not> length (tee (server_packet d cert @ rest) (frame_record ?ccs @ frame_record ?cert @ rest)) < serverRandomEnd"
    using ld by (simp add: tee_def server_packet_def frame_record_def serverRandomEnd_def serverRandomOffset_def)
  have t2: "tee (server_packet d cert @ rest) rest = server_packet d cert" by (simp add: tee_def)
  have z: "take 11 (server_packet d cert) @ replicate 32 0 @ drop 43 (server_packet d cert) = server_packet (replicate 32 0) cert"
    using server_packet_parts(1)[OF ld, of cert "replicate 32 0"] by simp
  show ?thesis
    using 2 3 t1 t2 z server_packet_parts(2)[OF ld, of cert]
    by (simp add: readServerHello_def 1 d_def[symmetric] serverRandomEnd_def serverRandomOffset_def Let_def)
qed

theorem readServerHello_authentic_witness:
  "\<exists>packet. server_packet (hmac_sha256 [9] (replicate 32 5 @ server_packet (replicate 32 0) [7, 7])) [7, 7] @ [1, 2] = packet @ [1, 2]
    \<and> serverRandomEnd \<le> length packet
    \<and> go_slice serverRandomOffset serverRandomEnd packet =
        hmac_sha256 [9] (replicate 32 5 @ take serverRandomOffset packet @ replicate 32 0 @ drop serverRandomEnd packet)"
  by (rule readServerHello_authentic[OF readServerHello_honest]) simp

text \<open>
  The proxy can check the hello and read the client's clock out of it: the record that is
  written, with its random zeroed, has an HMAC under the secret whose first 28 bytes are those
  of the random and whose last four differ from it by the time in seconds modulo \<open>2 ^ 32\<close>.
\<close>

theorem writeClientHello_verifiable:
  assumes "writeClientHello utls rand now domain secret w = (Inr random, w')" and "wbudget w = None"
  shows "\<exists>front post mac. length front = clientRandomOffset \<and> written w' = written w @ front @ random @ post
    \<and> mac = hmac_sha256 secret (front @ replicate clientRandomLength 0 @ post)
    \<and> length random = clientRandomLength \<and> take 28 random = take 28 mac
    \<and> le_word (drop 28 mac) XOR le_word (drop 28 random) = (word_of_int now :: 32 word)"
proof -
  obtain hello where h: "generateClientHello utls rand domain = Inr hello"
    and len: "\<not> length hello < clientRandomOffset + clientRandomLength"
    using assms(1) by (cases "generateClientHello utls rand domain") (auto simp: writeClientHello_def split: if_splits)
  let ?front = "take clientRandomOffset hello" and ?post = "drop (clientRandomOffset + clientRandomLength) hello"
  let ?mac = "hmac_sha256 secret (?front @ replicate clientRandomLength 0 @ ?post)"
  let ?old = "(le_word (drop 28 ?mac) :: 32 word) XOR word_of_int now"
  have r: "random = take 28 ?mac @ le_bytes 4 ?old" and w: "written w' = written w @ ?front @ random @ ?post"
    using assms h len by (auto simp: writeClientHello_def clientRandomLength_def Let_def)
  have "le_word (drop 28 random) = ?old" using r by (simp add: le_word_le_bytes)
  then have "le_word (drop 28 ?mac) XOR le_word (drop 28 random) = (word_of_int now :: 32 word)"
    by (simp add: xor.assoc[symmetric])
  moreover have "length ?front = clientRandomOffset" using len by simp
  ultimately show ?thesis using w r
    by (intro exI[of _ ?front] exI[of _ ?post] exI[of _ ?mac]) (simp add: clientRandomLength_def)
qed

theorem writeClientHello_verifiable_witness:
  "\<exists>random w' front post mac. writeClientHello (\<lambda>_ _. Inr (replicate 60 3)) [] 1700000000 [] [9] \<lparr>written = [], wbudget = None\<rparr> = (Inr random, w')
    \<and> written w' = written \<lparr>written = [], wbudget = None\<rparr> @ front @ random @ post
    \<and> mac = hmac_sha256 [9] (front @ replicate clientRandomLength 0 @ post)
    \<and> le_word (drop 28 mac) XOR le_word (drop 28 random) = (1700000000 :: 32 word)"
proof -
  have "\<exists>random w'. writeClientHello (\<lambda>_ _. Inr (replicate 60 3)) [] 1700000000 [] [9] \<lparr>written = [], wbudget = None\<rparr> = (Inr random, w')"
    by (simp add: writeClientHello_def generateClientHello_def clientRandomOffset_def clientRandomLength_def Let_def)
  then obtain random w' where
    w: "writeClientHello (\<lambda>_ _. Inr (replicate 60 3)) [] 1700000000 [] [9] \<lparr>written = [], wbudget = None\<rparr> = (Inr random, w')" by blast
  from writeClientHello_verifiable[OF w] obtain front rear mac where
    "written w' = written \<lparr>written = [], wbudget = None\<rparr> @ front @ random @ rear"
    "mac = hmac_sha256 [9] (front @ replicate clientRandomLength 0 @ rear)"
    "le_word (drop 28 mac) XOR le_word (drop 28 random) = (word_of_int 1700000000 :: 32 word)" by auto
  with w show ?thesis by (intro exI conjI) auto
qed

end
