(* ===== verification/Transport.thy ===== *)
theory Transport
  imports Mtproxy_Channel "HOL-Library.Multiset"
begin

text \<open>
  Package \<open>transport\<close>: the codec interface, connections (\<open>connection.go\<close>), protocols
  (\<open>protocol.go\<close>), listeners with the detection of the client's framing (\<open>detect_codec.go\<close>,
  \<open>listener.go\<close>, \<open>obfuscated.go\<close>, \<open>once_close.go\<close>), and the resolvers of \<open>telegram/dcs\<close> that
  choose a data centre and set up the connection (\<open>find.go\<close>, \<open>plain.go\<close>, \<open>mtproxy.go\<close>). The
  framings are one type with the operations of the interface dispatched on it, and the locale
  \<open>transport_codec\<close> is interpreted on the operations of a connection. What the operating
  system reports (dialling, deadlines, closing) is an argument.
\<close>

section \<open>codec.go\<close>

datatype codec = Abridged | Intermediate | PaddedIntermediate | FullCodec Full | NoHeader codec

primrec codec_WriteHeader :: "codec \<Rightarrow> writer \<Rightarrow> go_error option \<times> writer" where
  "codec_WriteHeader Abridged w = Abridged_WriteHeader w"
| "codec_WriteHeader Intermediate w = Intermediate_WriteHeader w"
| "codec_WriteHeader PaddedIntermediate w = PaddedIntermediate_WriteHeader w"
| "codec_WriteHeader (FullCodec i) w = (None, w)"
| "codec_WriteHeader (NoHeader c) w = NoHeader_WriteHeader w"

primrec codec_ReadHeader :: "codec \<Rightarrow> bytes \<Rightarrow> go_error option \<times> bytes" where
  "codec_ReadHeader Abridged r = Abridged_ReadHeader r"
| "codec_ReadHeader Intermediate r = Intermediate_ReadHeader r"
| "codec_ReadHeader PaddedIntermediate r = PaddedIntermediate_ReadHeader r"
| "codec_ReadHeader (FullCodec i) r = (None, r)"
| "codec_ReadHeader (NoHeader c) r = NoHeader_ReadHeader r"

primrec codec_Write :: "bytes \<Rightarrow> codec \<Rightarrow> writer \<Rightarrow> buffer \<Rightarrow> go_error option \<times> codec \<times> writer \<times> buffer" where
  "codec_Write rnd Abridged w b = (case Abridged_Write w b of (e, w, b) \<Rightarrow> (e, Abridged, w, b))"
| "codec_Write rnd Intermediate w b = (case Intermediate_Write w b of (e, w, b) \<Rightarrow> (e, Intermediate, w, b))"
| "codec_Write rnd PaddedIntermediate w b = (case PaddedIntermediate_Write rnd w b of (e, w, b) \<Rightarrow> (e, PaddedIntermediate, w, b))"
| "codec_Write rnd (FullCodec i) w b = (case Full_Write i w b of (e, i, w, b) \<Rightarrow> (e, FullCodec i, w, b))"
| "codec_Write rnd (NoHeader c) w b = (case codec_Write rnd c w b of (e, c, w, b) \<Rightarrow> (e, NoHeader c, w, b))"

primrec codec_Read :: "nat \<Rightarrow> codec \<Rightarrow> bytes \<Rightarrow> buffer \<Rightarrow> go_error option \<times> codec \<times> bytes \<times> buffer" where
  "codec_Read cp Abridged r b = (case Abridged_Read cp r b of (e, r, b) \<Rightarrow> (e, Abridged, r, b))"
| "codec_Read cp Intermediate r b = (case Intermediate_Read cp r b of (e, r, b) \<Rightarrow> (e, Intermediate, r, b))"
| "codec_Read cp PaddedIntermediate r b = (case PaddedIntermediate_Read cp r b of (e, r, b) \<Rightarrow> (e, PaddedIntermediate, r, b))"
| "codec_Read cp (FullCodec i) r b = (case Full_Read cp i r b of (e, i, r, b) \<Rightarrow> (e, FullCodec i, r, b))"
| "codec_Read cp (NoHeader c) r b = (case codec_Read cp c r b of (e, c, r, b) \<Rightarrow> (e, NoHeader c, r, b))"

text \<open>\<open>codec.TaggedCodec\<close>: the framings with a tag; \<open>NoHeader\<close> does not have the method.\<close>

primrec ObfuscatedTag :: "codec \<Rightarrow> bytes option" where
  "ObfuscatedTag Abridged = Some Abridged_ObfuscatedTag"
| "ObfuscatedTag Intermediate = Some Intermediate_ObfuscatedTag"
| "ObfuscatedTag PaddedIntermediate = Some PaddedIntermediate_ObfuscatedTag"
| "ObfuscatedTag (FullCodec i) = None"
| "ObfuscatedTag (NoHeader c) = None"

definition newFull :: codec where
  "newFull = FullCodec \<lparr>wSeqNo = 0, rSeqNo = 0\<rparr>"

section \<open>connection.go\<close>

text \<open>
  \<open>reset\<close> is the error of resetting the deadline, \<open>deadline\<close> that of setting the one of the
  context, if it has one.
\<close>

definition Send ::
  "go_error option \<Rightarrow> go_error option option \<Rightarrow> bytes \<Rightarrow> codec \<Rightarrow> writer \<Rightarrow> buffer \<Rightarrow> go_error option \<times> codec \<times> writer \<times> buffer" where
  "Send reset deadline rnd c w b =
     (case reset of Some err \<Rightarrow> (Some (Wrap ''reset write deadline'' err), c, w, b) | None \<Rightarrow>
      case deadline of Some (Some err) \<Rightarrow> (Some (Wrap ''set write deadline'' err), c, w, b) | _ \<Rightarrow>
      case codec_Write rnd c w b of (err, c, w, b) \<Rightarrow> (wrap_opt ''write'' err, c, w, b))"

definition Recv ::
  "go_error option \<Rightarrow> go_error option option \<Rightarrow> nat \<Rightarrow> codec \<Rightarrow> bytes \<Rightarrow> buffer \<Rightarrow> go_error option \<times> codec \<times> bytes \<times> buffer" where
  "Recv reset deadline cp c r b =
     (case reset of Some err \<Rightarrow> (Some (Wrap ''reset read deadline'' err), c, r, b) | None \<Rightarrow>
      case deadline of Some (Some err) \<Rightarrow> (Some (Wrap ''set read deadline'' err), c, r, b) | _ \<Rightarrow>
      case codec_Read cp c r b of (err, c, r, b) \<Rightarrow> (wrap_opt ''read'' err, c, r, b))"

section \<open>protocol.go, detect\_codec.go, listener.go, obfuscated.go, once\_close.go\<close>

text \<open>A protocol is the codec its constructor makes; \<open>Handshake\<close> makes a connection with it.\<close>

definition Protocol_Handshake :: "codec \<Rightarrow> writer \<Rightarrow> (go_error + codec) \<times> writer" where
  "Protocol_Handshake connCodec w =
     (case codec_WriteHeader connCodec w of
        (Some err, w) \<Rightarrow> (Inl (Wrap ''write header'' err), w)
      | (None, w) \<Rightarrow> (Inr connCodec, w))"

definition detectCodec :: "bytes \<Rightarrow> (go_error + codec) \<times> bytes" where
  "detectCodec c =
     (case io_ReadFull 1 c of
        (_, Some err, c) \<Rightarrow> (Inl (Wrap ''read first byte'' err), c)
      | (b0, None, c) \<Rightarrow>
         if b0 ! 0 = AbridgedClientStart ! 0 then (Inr Abridged, c)
         else
           (case io_ReadFull 3 c of
              (_, Some err, c) \<Rightarrow> (Inl (Wrap ''read header'' err), c)
            | (b1, None, c) \<Rightarrow>
               let buf = b0 @ b1 in
               if buf = IntermediateClientStart then (Inr Intermediate, c)
               else if buf = PaddedIntermediateClientStart then (Inr PaddedIntermediate, c)
               else (Inr newFull, buf @ c)))"

text \<open>\<open>multierr.AppendInto\<close> of the error of closing the connection.\<close>

definition close_into :: "go_error option \<Rightarrow> go_error \<Rightarrow> go_error" where
  "close_into closeErr err = (case closeErr of None \<Rightarrow> err | Some e \<Rightarrow> Multi err e)"

text \<open>
  \<open>accepted\<close> is what the listener below returns, the bytes the peer sends; \<open>codec\<close> the one
  given to \<open>ListenCodec\<close>. The result is the codec of the connection and what it reads.
\<close>

definition Listener_Accept :: "codec option \<Rightarrow> go_error option \<Rightarrow> go_error + bytes \<Rightarrow> go_error + (codec \<times> bytes)" where
  "Listener_Accept given closeErr accepted =
     (case accepted of
        Inl err \<Rightarrow> Inl err
      | Inr conn \<Rightarrow>
         (case given of
            Some cdc \<Rightarrow>
             (case codec_ReadHeader cdc conn of
                (Some err, _) \<Rightarrow> Inl (close_into closeErr (Wrap ''read header'' err))
              | (None, conn) \<Rightarrow> Inr (cdc, conn))
          | None \<Rightarrow>
             (case detectCodec conn of
                (Inl err, _) \<Rightarrow> Inl (close_into closeErr (Wrap ''detect codec'' err))
              | (Inr cdc, r) \<Rightarrow> Inr (cdc, r))))"

text \<open>
  The connection of the obfuscated listener reads the tag first and then what obfuscated2
  decrypts; its \<open>Read\<close>s, one by one, are the ones of the channel over a connection.
\<close>

definition obfListener_Accept :: "go_error option \<Rightarrow> go_error + bytes \<Rightarrow> go_error + (keys \<times> bytes)" where
  "obfListener_Accept closeErr accepted =
     (case accepted of
        Inl err \<Rightarrow> Inl err
      | Inr conn \<Rightarrow>
         (case Accept conn [] of
            (Inl err, _) \<Rightarrow> Inl (close_into closeErr (Wrap ''accept'' err))
          | (Inr (k, md), rest) \<Rightarrow>
             let tag = (if Protocol md ! 0 = AbridgedClientStart ! 0 then take 1 (Protocol md) else Protocol md)
             in Inr (k, tag @ fst (XORKeyStream (k_decrypt k) rest))))"

text \<open>\<open>onceCloseListener\<close>: done, and the error of the first call.\<close>

record onceClose =
  oc_done :: bool
  oc_err :: "go_error option"

definition onceClose_Close :: "go_error option \<Rightarrow> onceClose \<Rightarrow> go_error option \<times> onceClose \<times> bool" where
  "onceClose_Close inner o' =
     (if oc_done o' then (oc_err o', o', False) else (inner, \<lparr>oc_done = True, oc_err = inner\<rparr>, True))"

section \<open>telegram/dcs: find.go\<close>

record DCOption =
  Ipv6 :: bool
  MediaOnly :: bool
  TCPObfuscatedOnly :: bool
  CDN :: bool
  Static :: bool
  DO_ID :: int
  IPAddress :: bytes
  DO_Port :: int
  DO_Secret :: bytes

definition dc_less :: "bool \<Rightarrow> DCOption \<Rightarrow> DCOption \<Rightarrow> bool" where
  "dc_less preferIPv6 l r =
     (if preferIPv6 \<and> Ipv6 l \<and> \<not> Ipv6 r then True
      else if preferIPv6 \<and> \<not> Ipv6 l \<and> Ipv6 r then False
      else Static l \<and> \<not> Static r)"

text \<open>\<open>sort.Slice\<close> sorts by the given order and does not say how it arranges equal elements.\<close>

type_synonym sort_fn = "(DCOption \<Rightarrow> DCOption \<Rightarrow> bool) \<Rightarrow> DCOption list \<Rightarrow> DCOption list"

definition FindDCs :: "sort_fn \<Rightarrow> DCOption list \<Rightarrow> int \<Rightarrow> bool \<Rightarrow> DCOption list" where
  "FindDCs sort_Slice opts dcID preferIPv6 =
     (let candidates = filter (\<lambda>c. DO_ID c = dcID) opts in
      if length candidates < 1 then [] else sort_Slice (dc_less preferIPv6) candidates)"

definition FindPrimaryDCs :: "sort_fn \<Rightarrow> DCOption list \<Rightarrow> int \<Rightarrow> bool \<Rightarrow> DCOption list" where
  "FindPrimaryDCs sort_Slice opts dcID preferIPv6 =
     filter (\<lambda>opt. \<not> MediaOnly opt \<and> \<not> CDN opt) (FindDCs sort_Slice opts dcID preferIPv6)"

section \<open>telegram/dcs: plain.go\<close>

record plain =
  p_protocol :: codec
  p_noObfuscated :: bool
  p_obfuscated :: bool
  p_preferIPv6 :: bool

definition Primary_candidates :: "sort_fn \<Rightarrow> plain \<Rightarrow> DCOption list \<Rightarrow> int \<Rightarrow> DCOption list" where
  "Primary_candidates sort_Slice p opts dc =
     (let candidates = FindPrimaryDCs sort_Slice opts dc (p_preferIPv6 p) in
      if p_noObfuscated p then filter (\<lambda>x. \<not> TCPObfuscatedOnly x) candidates else candidates)"

definition MediaOnly_candidates :: "sort_fn \<Rightarrow> plain \<Rightarrow> DCOption list \<Rightarrow> int \<Rightarrow> DCOption list" where
  "MediaOnly_candidates sort_Slice p opts dc = filter MediaOnly (FindDCs sort_Slice opts dc (p_preferIPv6 p))"

definition CDN_candidates :: "sort_fn \<Rightarrow> plain \<Rightarrow> DCOption list \<Rightarrow> int \<Rightarrow> DCOption list" where
  "CDN_candidates sort_Slice p opts dc = filter CDN (FindDCs sort_Slice opts dc (p_preferIPv6 p))"

text \<open>The codec that a secret's tag stands for.\<close>

primrec kind_codec :: "codec_kind \<Rightarrow> codec" where
  "kind_codec CAbridged = Abridged"
| "kind_codec CIntermediate = Intermediate"
| "kind_codec CPaddedIntermediate = PaddedIntermediate"
| "kind_codec CFull = newFull"

record obfuscation =
  ob_codec :: codec
  ob_tag :: bytes
  ob_dc :: int
  ob_secret :: Secret
  ob_tls :: bool

definition zero_secret :: Secret where
  "zero_secret = \<lparr>S_Secret = [], S_Tag = 0, CloakHost = [], S_Type = Simple\<rparr>"

text \<open>
  The choices of \<open>dialTransport\<close> for an obfuscated connection. The zero \<open>Secret\<close> of Go has the
  type 0, which none of the constants has; the handshake reads the bytes of the secret only.
\<close>

definition dial_obfuscation :: "plain \<Rightarrow> bool \<Rightarrow> DCOption \<Rightarrow> go_error + obfuscation" where
  "dial_obfuscation p test dc =
     (let dcID = (if test then (if DO_ID dc < 0 then DO_ID dc - 10000 else DO_ID dc + 10000) else DO_ID dc);
          plan = \<lparr>ob_codec = Intermediate, ob_tag = IntermediateClientStart, ob_dc = dcID, ob_secret = zero_secret, ob_tls = False\<rparr>
      in if TCPObfuscatedOnly dc then
           (case ParseSecret (DO_Secret dc) of
              Inl err \<Rightarrow> Inl (Wrap ''check DC secret'' err)
            | Inr secret \<Rightarrow>
               let plan = plan\<lparr>ob_secret := secret\<rparr> in
               if S_Type secret = TLS then Inr (plan\<lparr>ob_tls := True\<rparr>)
               else (case ExpectedCodec secret of
                       Some c \<Rightarrow> Inr (plan\<lparr>ob_tag := replicate 4 (S_Tag secret), ob_codec := kind_codec c\<rparr>)
                     | None \<Rightarrow> Inr plan))
         else
           (case ObfuscatedTag (p_protocol p) of
              Some tag \<Rightarrow> Inr (plan\<lparr>ob_codec := p_protocol p, ob_tag := tag\<rparr>)
            | None \<Rightarrow> Inr (plan\<lparr>ob_codec := p_protocol p\<rparr>)))"

datatype dialed = DPlain codec | DObfuscated keys codec | DObfuscatedTLS keys FakeTLS codec

definition conn_Write :: "writer conn_write" where
  "conn_Write p w = (case io_Write p w of (None, w) \<Rightarrow> ((length p, None), w) | (Some e, w) \<Rightarrow> ((0, Some e), w))"

definition zero_keys :: keys where
  "zero_keys = \<lparr>k_header = [], k_encrypt = \<lparr>ctr_key = [], ctr_iv = [], ctr_pos = 0\<rparr>, k_decrypt = \<lparr>ctr_key = [], ctr_iv = [], ctr_pos = 0\<rparr>\<rparr>"

text \<open>
  \<open>dialErr\<close> is the error of dialling. \<open>NoHeader\<close> writes no header, so the handshake of the
  protocol over the obfuscated connection writes nothing.
\<close>

definition dialTransport ::
  "utls \<Rightarrow> plain \<Rightarrow> go_error option \<Rightarrow> go_error option \<Rightarrow> bytes \<Rightarrow> bytes \<Rightarrow> int \<Rightarrow> bool \<Rightarrow> DCOption \<Rightarrow> writer \<Rightarrow> bytes \<Rightarrow>
   (go_error + dialed) \<times> writer \<times> bytes" where
  "dialTransport utls p dialErr closeErr rand rand' now test dc w r =
     (case dialErr of Some err \<Rightarrow> (Inl err, w, r) | None \<Rightarrow>
      if TCPObfuscatedOnly dc \<or> p_obfuscated p then
        (case dial_obfuscation p test dc of
           Inl err \<Rightarrow> (Inl (close_into closeErr err), w, r)
         | Inr ob \<Rightarrow>
            if ob_tls ob then
              (case tls_Handshake utls rand rand' now (ob_tag ob) (ob_dc ob) (ob_secret ob) NewFakeTLS zero_keys w r of
                 (Some err, _, _, w, r) \<Rightarrow> (Inl (close_into closeErr err), w, r)
               | (None, k, f, w, r) \<Rightarrow> (Inr (DObfuscatedTLS k f (NoHeader (ob_codec ob))), w, r))
            else
              (case Obfuscated2_Handshake conn_Write rand (ob_tag ob) (ob_dc ob) (ob_secret ob) zero_keys w of
                 (Some err, _, w) \<Rightarrow> (Inl (close_into closeErr err), w, r)
               | (None, k, w) \<Rightarrow> (Inr (DObfuscated k (NoHeader (ob_codec ob))), w, r)))
      else
        (case Protocol_Handshake (p_protocol p) w of
           (Inl err, w) \<Rightarrow> (Inl (close_into closeErr (Wrap ''transport handshake'' err)), w, r)
         | (Inr c, w) \<Rightarrow> (Inr (DPlain c), w, r)))"

text \<open>
  The race of \<open>connect\<close>: the results of the dials in the order of their arrival, and the error
  of the context if it is done when no result is there.
\<close>

primrec race :: "nat \<Rightarrow> go_error option \<Rightarrow> go_error \<Rightarrow> (go_error + 'c) list \<Rightarrow> go_error + 'c" where
  "race remain rErr ctxErr [] = Inl ctxErr"
| "race remain rErr ctxErr (result # results) =
     (case result of
        Inl err \<Rightarrow>
          let rErr = (case rErr of None \<Rightarrow> err | Some e \<Rightarrow> Multi e err) in
          if remain - 1 = 0 then Inl rErr else race (remain - 1) (Some rErr) ctxErr results
      | Inr c \<Rightarrow> Inr c)"

text \<open>\<open>order\<close> are the options whose dials report before the context is done, in that order.\<close>

definition connect ::
  "int \<Rightarrow> (DCOption \<Rightarrow> go_error + 'c) \<Rightarrow> DCOption list \<Rightarrow> DCOption list \<Rightarrow> go_error \<Rightarrow> go_error + 'c" where
  "connect dc dial dcOptions order ctxErr =
     (case dcOptions of
        [] \<Rightarrow> Inl (Errorf ''no addresses for DC %d'' [dc])
      | [opt] \<Rightarrow> dial opt
      | _ \<Rightarrow> race (length dcOptions) None ctxErr (map dial order))"

definition plain_Primary ::
  "sort_fn \<Rightarrow> plain \<Rightarrow> (DCOption \<Rightarrow> go_error + 'c) \<Rightarrow> DCOption list \<Rightarrow> int \<Rightarrow> DCOption list \<Rightarrow> go_error \<Rightarrow> go_error + 'c" where
  "plain_Primary sort_Slice p dial opts dc order ctxErr =
     connect dc dial (Primary_candidates sort_Slice p opts dc) order ctxErr"

section \<open>telegram/dcs: mtproxy.go\<close>

record mtProxy =
  mp_codec :: codec
  mp_secret :: Secret
  mp_tag :: bytes

definition MTProxy :: "bytes \<Rightarrow> go_error + mtProxy" where
  "MTProxy secret =
     (case ParseSecret secret of
        Inl err \<Rightarrow> Inl err
      | Inr s \<Rightarrow>
         (case (if S_Type s \<noteq> TLS then ExpectedCodec s else None) of
            Some c \<Rightarrow> Inr \<lparr>mp_codec = NoHeader (kind_codec c), mp_secret = s, mp_tag = replicate 4 (S_Tag s)\<rparr>
          | None \<Rightarrow> Inr \<lparr>mp_codec = NoHeader PaddedIntermediate, mp_secret = s, mp_tag = PaddedIntermediateClientStart\<rparr>))"

definition handshakeConn ::
  "utls \<Rightarrow> mtProxy \<Rightarrow> bytes \<Rightarrow> bytes \<Rightarrow> int \<Rightarrow> int \<Rightarrow> writer \<Rightarrow> bytes \<Rightarrow> (go_error + dialed) \<times> writer \<times> bytes" where
  "handshakeConn utls m rand rand' now dc w r =
     (case S_Type (mp_secret m) of
        TLS \<Rightarrow>
          (case tls_Handshake utls rand rand' now (mp_tag m) dc (mp_secret m) NewFakeTLS zero_keys w r of
             (Some err, _, _, w, r) \<Rightarrow> (Inl (Wrap ''MTProxy handshake'' err), w, r)
           | (None, k, f, w, r) \<Rightarrow> (Inr (DObfuscatedTLS k f (mp_codec m)), w, r))
      | _ \<Rightarrow>
          (case Obfuscated2_Handshake conn_Write rand (mp_tag m) dc (mp_secret m) zero_keys w of
             (Some err, _, w) \<Rightarrow> (Inl (Wrap ''MTProxy handshake'' err), w, r)
           | (None, k, w) \<Rightarrow> (Inr (DObfuscated k (mp_codec m)), w, r)))"

definition mtProxy_MediaOnly_dc :: "int \<Rightarrow> int" where
  "mtProxy_MediaOnly_dc dc = (if dc > 0 then dc * (- 1) else dc)"

section \<open>Lemmas\<close>

subsection \<open>A connection is a codec\<close>

text \<open>Payloads that every framing can carry, and ends of a connection that agree.\<close>

definition transportable :: "bytes \<Rightarrow> buffer \<Rightarrow> bool" where
  "transportable rnd p \<longleftrightarrow> 4 \<le> length rnd \<and> aligned_payload p \<and> length p + 12 \<le> MaxMessageSize"

fun codec_insync :: "nat \<Rightarrow> codec \<Rightarrow> codec \<Rightarrow> bool" where
  "codec_insync k Abridged Abridged = True"
| "codec_insync k Intermediate Intermediate = True"
| "codec_insync k PaddedIntermediate PaddedIntermediate = True"
| "codec_insync k (FullCodec i) (FullCodec j) = full_insync k i j"
| "codec_insync k (NoHeader c) d = codec_insync k c d"
| "codec_insync k c (NoHeader d) = codec_insync k c d"
| "codec_insync k _ _ = False"

lemma transportableD:
  assumes "transportable rnd p"
  shows "aligned_payload p" "paddable rnd p" "full_payload p"
proof -
  have "unat (last p) mod 4 < 4" by simp
  then show "aligned_payload p" "paddable rnd p" "full_payload p"
    using assms unfolding transportable_def paddable_def full_payload_def aligned_payload_def by linarith+
qed

text \<open>What one codec writes for a payload the other reads back.\<close>

definition carries_over :: "nat \<Rightarrow> nat \<Rightarrow> bytes \<Rightarrow> buffer \<Rightarrow> codec \<Rightarrow> codec \<Rightarrow> bool" where
  "carries_over cp k rnd p sw sr \<longleftrightarrow> (\<exists>sw' sr' f. (\<forall>w. wbudget w = None \<longrightarrow> codec_Write rnd sw w p = (None, sw', w\<lparr>written := written w @ f\<rparr>, p)) \<and>
      (\<forall>rest b. codec_Read cp sr (f @ rest) b = (None, sr', rest, p)) \<and> codec_insync k sw' sr')"

lemma stateless_iff:
  "stateless_Write Wr e s w b = (err, s', w', b') \<longleftrightarrow> Wr e w b = (err, w', b')"
  "stateless_Read Rd s r b = (err, s', r', b') \<longleftrightarrow> Rd r b = (err, r', b')"
  by (auto simp: stateless_Write_def stateless_Read_def split: prod.splits)

lemma stateless_frame:
  assumes "\<exists>sw' sr' f. (\<forall>w. wbudget w = None \<longrightarrow> stateless_Write Wr e () w p = (None, sw', w\<lparr>written := written w @ f\<rparr>, p)) \<and>
    (\<forall>rest b. stateless_Read Rd () (f @ rest) b = (None, sr', rest, p)) \<and> True"
  obtains f where "\<And>w. wbudget w = None \<Longrightarrow> Wr e w p = (None, w\<lparr>written := written w @ f\<rparr>, p)" "\<And>rest b. Rd (f @ rest) b = (None, rest, p)"
  using assms by (auto simp: stateless_iff)

lemma codec_insync_right: "codec_insync k c (NoHeader d) = codec_insync k c d"
  by (induction c) (cases d; simp)+

lemma carries_over_NoHeader:
  assumes "carries_over cp k rnd p c d"
  shows "carries_over cp k rnd p (NoHeader c) d" "carries_over cp k rnd p c (NoHeader d)"
proof -
  obtain c' d' f where "\<forall>w. wbudget w = None \<longrightarrow> codec_Write rnd c w p = (None, c', w\<lparr>written := written w @ f\<rparr>, p)"
    "\<forall>rest b. codec_Read cp d (f @ rest) b = (None, d', rest, p)" "codec_insync k c' d'"
    using assms unfolding carries_over_def by blast
  then show "carries_over cp k rnd p (NoHeader c) d" "carries_over cp k rnd p c (NoHeader d)"
    unfolding carries_over_def
    by - (rule exI[of _ "NoHeader c'"], rule exI[of _ d'], rule exI[of _ f], simp,
      rule exI[of _ c'], rule exI[of _ "NoHeader d'"], rule exI[of _ f], simp add: codec_insync_right)
qed

lemma carries_over_codec:
  assumes "transportable rnd p"
  shows "codec_insync (Suc k) sw sr \<Longrightarrow> carries_over cp k rnd p sw sr"
proof (induction "Suc k" sw sr rule: codec_insync.induct)
  case 1
  obtain f where "\<And>w. wbudget w = None \<Longrightarrow> Abridged_Write w p = (None, w\<lparr>written := written w @ f\<rparr>, p)"
    "\<And>rest b. Abridged_Read cp (f @ rest) b = (None, rest, p)"
    using stateless_frame[OF abridged.Write_Read[OF TrueI transportableD(1)[OF assms], where cp = cp and e = "()" and sw = "()" and sr = "()"]] by metis
  then show ?case by (auto simp: carries_over_def intro!: exI[of _ Abridged] exI[of _ f])
next
  case 2
  obtain f where "\<And>w. wbudget w = None \<Longrightarrow> Intermediate_Write w p = (None, w\<lparr>written := written w @ f\<rparr>, p)"
    "\<And>rest b. Intermediate_Read cp (f @ rest) b = (None, rest, p)"
    using stateless_frame[OF intermediate.Write_Read[OF TrueI transportableD(1)[OF assms], where cp = cp and e = "()" and sw = "()" and sr = "()"]] by metis
  then show ?case by (auto simp: carries_over_def intro!: exI[of _ Intermediate] exI[of _ f])
next
  case 3
  obtain f where "\<And>w. wbudget w = None \<Longrightarrow> PaddedIntermediate_Write rnd w p = (None, w\<lparr>written := written w @ f\<rparr>, p)"
    "\<And>rest b. PaddedIntermediate_Read cp (f @ rest) b = (None, rest, p)"
    using stateless_frame[OF padded.Write_Read[OF TrueI transportableD(2)[OF assms], where cp = cp and sw = "()" and sr = "()"]] by metis
  then show ?case by (auto simp: carries_over_def intro!: exI[of _ PaddedIntermediate] exI[of _ f])
next
  case (4 i j)
  then have "full_insync (Suc k) i j" by simp
  from full.Write_Read[OF this transportableD(3)[OF assms], of cp] obtain i' j' f where
    "\<forall>w. wbudget w = None \<longrightarrow> Full_Write i w p = (None, i', w\<lparr>written := written w @ f\<rparr>, p)"
    "\<forall>rest b. Full_Read cp j (f @ rest) b = (None, j', rest, p)" "full_insync k i' j'" by blast
  then show ?case unfolding carries_over_def
    by - (rule exI[of _ "FullCodec i'"], rule exI[of _ "FullCodec j'"], rule exI[of _ f], simp)
qed (simp_all add: carries_over_NoHeader)

interpretation any_conn: transport_codec "Send None None" "Recv None None cp" codec_insync transportable
proof
  fix k sw sr rnd p
  assume "codec_insync (Suc k) sw sr" "transportable rnd p"
  from carries_over_codec[OF this(2,1), of cp]
  show "\<exists>sw' sr' f. (\<forall>w. wbudget w = None \<longrightarrow> Send None None rnd sw w p = (None, sw', w\<lparr>written := written w @ f\<rparr>, p)) \<and>
      (\<forall>rest b. Recv None None cp sr (f @ rest) b = (None, sr', rest, p)) \<and> codec_insync k sw' sr'"
    by (fastforce simp: carries_over_def Send_def Recv_def)
qed

subsection \<open>Detection\<close>

definition client_start :: "codec \<Rightarrow> bytes" where
  "client_start c = (case c of Abridged \<Rightarrow> AbridgedClientStart | Intermediate \<Rightarrow> IntermediateClientStart
     | PaddedIntermediate \<Rightarrow> PaddedIntermediateClientStart | _ \<Rightarrow> [])"

lemmas start_defs = AbridgedClientStart_def IntermediateClientStart_def PaddedIntermediateClientStart_def

lemma detectCodec_start: "ObfuscatedTag c = Some tag \<Longrightarrow> detectCodec (client_start c @ rest) = (Inr c, rest)"
  by (cases c) (simp_all add: detectCodec_def client_start_def start_defs io_ReadFull_def)

text \<open>
  The first byte of a full frame is the low byte of a length divisible by 4, which none of the
  three tags starts with unless it repeats, and then the length would be above the limit.
\<close>

lemma detectCodec_full:
  assumes "transportable rnd p"
  shows "detectCodec (full_frame s p @ rest) = (Inr newFull, full_frame s p @ rest)"
proof -
  let ?n = "length p + 12" and ?l = "word_of_int (int (length p) + 12) :: 32 word"
  obtain fr where fr: "full_frame s p = le_bytes 4 ?l @ fr"
    by (simp add: full_frame_def full_body_def Word_def)
  have n: "4 dvd ?n" "?n \<le> MaxMessageSize" using assms by (auto simp: transportable_def aligned_payload_def)
  have "uint (word_of_nat ?n :: 32 word) = int ?n" using n(2) by (intro uint_word_of_nat32) simp
  then have "uint ?l = int ?n" by simp
  then have u: "unat ?l = ?n" by (metis nat_int unat_eq_nat_uint)
  have b0: "le_bytes 4 ?l ! 0 \<noteq> 0xef"
  proof
    assume "le_bytes 4 ?l ! 0 = 0xef"
    then have "(ucast ?l :: byte) = 0xef" by (simp add: numeral_eq_Suc)
    then have "unat (ucast ?l :: byte) = 0xef" by simp
    then have "?n mod 256 = 239" using u by (simp add: unsigned_ucast_eq take_bit_eq_mod)
    then have "?n mod 4 = 239 mod 4" using mod_mod_cancel[of 4 256 ?n] by simp
    then show False using n(1) by simp
  qed
  have eq: "le_bytes 4 ?l = x \<Longrightarrow> ?n = unat (le_word x :: 32 word)" for x
    using u le_word_le_bytes[of 4 ?l] by auto
  have "le_bytes 4 ?l \<noteq> IntermediateClientStart" "le_bytes 4 ?l \<noteq> PaddedIntermediateClientStart"
    using eq[of IntermediateClientStart] eq[of PaddedIntermediateClientStart] n(2)
    by (auto simp: start_defs MaxMessageSize_def)
  moreover obtain a b c d where l4: "le_bytes 4 ?l = [a, b, c, d]" by (simp add: numeral_eq_Suc)
  ultimately show ?thesis
    using b0 by (simp add: fr detectCodec_def io_ReadFull_def AbridgedClientStart_def Let_def)
qed

subsection \<open>Connecting\<close>

text \<open>What \<open>sort.Slice\<close> promises for a strict weak order.\<close>

definition sorts :: "sort_fn \<Rightarrow> bool" where
  "sorts srt \<longleftrightarrow> (\<forall>less xs. mset (srt less xs) = mset xs \<and>
     ((\<forall>x y z. less x y \<longrightarrow> \<not> less y x \<and> (less x z \<or> less z y)) \<longrightarrow> sorted_wrt (\<lambda>x y. \<not> less y x) (srt less xs)))"

lemma dc_less_weak_order: "dc_less v x y \<longrightarrow> \<not> dc_less v y x \<and> (dc_less v x z \<or> dc_less v z y)"
  by (cases v; cases "Ipv6 x"; cases "Ipv6 y"; cases "Ipv6 z"; simp add: dc_less_def; blast?)

lemma FindDCs_spec:
  assumes "sorts srt"
  shows "mset (FindDCs srt opts dc v) = filter_mset (\<lambda>c. DO_ID c = dc) (mset opts) \<and> sorted_wrt (\<lambda>x y. \<not> dc_less v y x) (FindDCs srt opts dc v)"
  using assms dc_less_weak_order[of v] by (auto simp: FindDCs_def sorts_def Let_def mset_filter[symmetric] simp del: mset_filter)

lemma race_result:
  "results \<noteq> [] \<Longrightarrow> length results = remain \<Longrightarrow>
   (\<exists>c. Inr c \<in> set results \<and> race remain rErr ctxErr results = Inr c) \<or>
   ((\<forall>r\<in>set results. isl r) \<and> isl (race remain rErr ctxErr results))"
proof (induction results arbitrary: remain rErr)
  case (Cons r results)
  show ?case
  proof (cases r)
    case (Inl err)
    show ?thesis
    proof (cases "results = []")
      case True
      then show ?thesis using Inl Cons.prems by (simp add: Let_def)
    next
      case False
      then have "remain - 1 \<noteq> 0" "length results = remain - 1" using Cons.prems by auto
      with Cons.IH[OF False this(2)] show ?thesis by (auto simp: Inl Let_def)
    qed
  qed auto
qed simp

section \<open>Properties\<close>

text \<open>
  C16. A client and a listener that detects the framing understand each other, whichever of the
  four framings the client uses: after the client's handshake the messages it sends are the
  messages that the accepted connection receives, in order, and nothing of what follows is
  lost. For the full framing, which has no tag, this needs a first message.
\<close>

theorem listener_end_to_end:
  assumes c: "c \<in> {Abridged, Intermediate, PaddedIntermediate, newFull}"
    and ms: "\<And>rnd p. (rnd, p) \<in> set ms \<Longrightarrow> transportable rnd p" "ms \<noteq> []" "length ms \<le> 2 ^ 31"
  shows "\<exists>c' w1 w2. Protocol_Handshake c \<lparr>written = [], wbudget = None\<rparr> = (Inr c, w1)
    \<and> write_msgs (Send None None) c w1 ms = (None, c', w2)
    \<and> (\<forall>rest. \<exists>d r. Listener_Accept None closeErr (Inr (written w2 @ rest)) = Inr (d, r)
        \<and> (\<forall>b. read_msgs (Recv None None cp) (length ms) d r b = (None, map snd ms, rest)))"
proof -
  let ?w0 = "\<lparr>written = [], wbudget = None\<rparr>" and ?w1 = "\<lparr>written = client_start c, wbudget = None\<rparr>"
  have hs: "Protocol_Handshake c ?w0 = (Inr c, ?w1)"
    using c by (auto simp: Protocol_Handshake_def client_start_def newFull_def Abridged_WriteHeader_def
        Intermediate_WriteHeader_def PaddedIntermediate_WriteHeader_def)
  have sync: "codec_insync k c c" if "int k \<le> 2 ^ 31" for k
    using c that by (auto simp: newFull_def full_insync_def)
  have len: "int (length ms) \<le> 2 ^ 31" using ms(3) by simp
  obtain c' bs where wr: "write_msgs (Send None None) c ?w1 ms = (None, c', ?w1\<lparr>written := client_start c @ bs\<rparr>)"
    and rd: "\<And>rest b. read_msgs (Recv None None cp) (length ms) c (bs @ rest) b = (None, map snd ms, rest)"
    using any_conn.stream_roundtrip[OF sync[OF len], where w = ?w1 and cp = cp] ms(1) by auto
  have det: "detectCodec (client_start c @ bs @ rest) = (Inr c, bs @ rest)" for rest
  proof (cases "c = newFull")
    case False
    then show ?thesis using c by (intro detectCodec_start[of _ "the (ObfuscatedTag c)"]) auto
  next
    case True
    obtain rnd p ms' where m: "ms = (rnd, p) # ms'" using ms(2) by (cases ms) auto
    have tp: "transportable rnd p" using ms(1) m by simp
    let ?i = "\<lparr>wSeqNo = 0, rSeqNo = 0\<rparr> :: Full"
    let ?c1 = "FullCodec (?i\<lparr>wSeqNo := 1\<rparr>)" and ?d1 = "FullCodec (?i\<lparr>rSeqNo := 1\<rparr>)"
    have s1: "Send None None rnd c \<lparr>written = [], wbudget = None\<rparr> p = (None, ?c1, \<lparr>written = full_frame 0 p, wbudget = None\<rparr>, p)"
      using transportableD(3)[OF tp]
      by (simp add: Send_def True newFull_def Full_Write_def checkOutgoingMessage_def full_payload_def writeFull_frame Let_def)
    have "codec_insync (length ms') ?c1 ?d1" using len m by (simp add: full_insync_def)
    from any_conn.stream_roundtrip[OF this, of "\<lparr>written = full_frame 0 p, wbudget = None\<rparr>" cp] ms(1) m obtain c2 bs' where
      "write_msgs (Send None None) ?c1 \<lparr>written = full_frame 0 p, wbudget = None\<rparr> ms' = (None, c2, \<lparr>written = full_frame 0 p @ bs', wbudget = None\<rparr>)"
      by auto
    with wr m s1 True have "bs = full_frame 0 p @ bs'" by (simp add: client_start_def newFull_def)
    with detectCodec_full[OF tp, of 0 "bs' @ rest"] True show ?thesis by (simp add: client_start_def newFull_def)
  qed
  show ?thesis
    using hs wr rd det by (intro exI[of _ c'] exI[of _ ?w1] exI[of _ "?w1\<lparr>written := client_start c @ bs\<rparr>"])
      (simp add: Listener_Accept_def)
qed

theorem listener_end_to_end_witness:
  "\<exists>c' w1 w2. Protocol_Handshake newFull \<lparr>written = [], wbudget = None\<rparr> = (Inr newFull, w1)
    \<and> write_msgs (Send None None) newFull w1 [([1, 2, 3, 4], replicate 8 1), ([1, 2, 3, 4], replicate 12 2)] = (None, c', w2)
    \<and> (\<forall>rest. \<exists>d r. Listener_Accept None None (Inr (written w2 @ rest)) = Inr (d, r)
        \<and> (\<forall>b. read_msgs (Recv None None 0) (length [([1, 2, 3, 4] :: bytes, replicate 8 1 :: bytes), ([1, 2, 3, 4], replicate 12 2)]) d r b
             = (None, map snd [([1, 2, 3, 4] :: bytes, replicate 8 1), ([1, 2, 3, 4], replicate 12 2)], rest)))"
  by (rule listener_end_to_end) (auto simp: transportable_def aligned_payload_def MaxMessageSize_def)

text \<open>
  The same over a connection obfuscated without a secret, as \<open>plain\<close> makes it for every
  framing with a tag: the tag travels inside the encrypted header, the listener puts it in
  front of the decrypted stream, detects the framing from it and receives the messages.
\<close>

theorem obfuscated_end_to_end:
  assumes dial: "dialTransport utls p None closeErr rand rand' now test dc \<lparr>written = [], wbudget = None\<rparr> r = (Inr (DObfuscated k d), w1, r')"
    and p: "ObfuscatedTag (p_protocol p) = Some tag" "\<not> TCPObfuscatedOnly dc"
    and ms: "\<And>rnd m. (rnd, m) \<in> set ms \<Longrightarrow> transportable rnd m"
  shows "\<exists>d' bs. write_msgs (Send None None) d \<lparr>written = [], wbudget = None\<rparr> ms = (None, d', \<lparr>written = bs, wbudget = None\<rparr>)
    \<and> (\<exists>k' stream r1. obfListener_Accept closeErr' (Inr (written w1 @ fst (XORKeyStream (k_encrypt k) bs))) = Inr (k', stream)
        \<and> Listener_Accept None closeErr' (Inr stream) = Inr (p_protocol p, r1)
        \<and> (\<forall>b. read_msgs (Recv None None cp) (length ms) (p_protocol p) r1 b = (None, map snd ms, [])))"
proof -
  let ?w0 = "\<lparr>written = [], wbudget = None\<rparr>"
  let ?c = "p_protocol p"
  have ob: "p_obfuscated p" "d = NoHeader ?c" and hs: "\<exists>dcID. Obfuscated2_Handshake conn_Write rand tag dcID zero_secret zero_keys ?w0 = (None, k, w1)"
    using dial p
    by (auto simp: dialTransport_def dial_obfuscation_def Let_def split: if_splits prod.splits option.splits sum.splits)
  then obtain dcID where h: "Obfuscated2_Handshake conn_Write rand tag dcID zero_secret zero_keys ?w0 = (None, k, w1)" by blast
  obtain x r2 where g: "generateKeys rand tag [] dcID = (x, r2)" by fastforce
  with h have gk: "generateKeys rand tag [] dcID = (Inr k, r2)" and w1: "written w1 = k_header k"
    by (cases x; auto simp: Obfuscated2_Handshake_def conn_Write_def zero_secret_def)+
  have tag: "length tag = 4" "(if tag ! 0 = AbridgedClientStart ! 0 then take 1 tag else tag) = client_start ?c"
    using p(1) by (cases ?c; auto simp: client_start_def start_defs Abridged_ObfuscatedTag_def Intermediate_ObfuscatedTag_def
        PaddedIntermediate_ObfuscatedTag_def Let_def)+
  have "codec_insync (length ms) d ?c" using p(1) ob(2) by (cases ?c) auto
  from any_conn.stream_roundtrip[OF this, of ?w0 cp] ms obtain d' bs where
    wr: "write_msgs (Send None None) d ?w0 ms = (None, d', \<lparr>written = bs, wbudget = None\<rparr>)"
    and rd: "\<And>rest b. read_msgs (Recv None None cp) (length ms) ?c (bs @ rest) b = (None, map snd ms, rest)" by auto
  let ?k = "\<lparr>k_header = [], k_encrypt = k_decrypt k, k_decrypt = k_encrypt k\<rparr>"
  have acc: "obfListener_Accept closeErr' (Inr (written w1 @ fst (XORKeyStream (k_encrypt k) bs))) = Inr (?k, client_start ?c @ bs)"
    using generateKeys_Accept[OF gk tag(1), of "fst (XORKeyStream (k_encrypt k) bs)"] tag(2)
    by (auto simp: obfListener_Accept_def w1 XORKeyStream_twice Let_def split: if_splits)
  have "Listener_Accept None closeErr' (Inr (client_start ?c @ bs)) = Inr (?c, bs)"
    using detectCodec_start[OF p(1), of bs] by (simp add: Listener_Accept_def)
  with wr acc rd[of "[]"] show ?thesis by auto
qed

definition example_plain :: plain where
  "example_plain = \<lparr>p_protocol = Abridged, p_noObfuscated = False, p_obfuscated = True, p_preferIPv6 = False\<rparr>"

definition example_dc :: DCOption where
  "example_dc = \<lparr>Ipv6 = False, MediaOnly = False, TCPObfuscatedOnly = False, CDN = False, Static = True, DO_ID = 2,
     IPAddress = [], DO_Port = 443, DO_Secret = []\<rparr>"

lemma example_dial:
  "\<exists>k d w1. dialTransport (\<lambda>_ _. Inl EOF) example_plain None None (replicate 64 97) [] 0 False example_dc \<lparr>written = [], wbudget = None\<rparr> []
     = (Inr (DObfuscated k d), w1, [])"
  using example_keys[of Abridged_ObfuscatedTag 2]
  by (auto simp: dialTransport_def example_plain_def example_dc_def dial_obfuscation_def Obfuscated2_Handshake_def conn_Write_def zero_secret_def)

theorem obfuscated_end_to_end_witness:
  "\<exists>k d w1 d' bs k' stream r1.
     dialTransport (\<lambda>_ _. Inl EOF) example_plain None None (replicate 64 97) [] 0 False example_dc \<lparr>written = [], wbudget = None\<rparr> []
       = (Inr (DObfuscated k d), w1, [])
     \<and> write_msgs (Send None None) d \<lparr>written = [], wbudget = None\<rparr> [([1, 2, 3, 4], replicate 8 1)] = (None, d', \<lparr>written = bs, wbudget = None\<rparr>)
     \<and> obfListener_Accept None (Inr (written w1 @ fst (XORKeyStream (k_encrypt k) bs))) = Inr (k', stream)
     \<and> Listener_Accept None None (Inr stream) = Inr (Abridged, r1)
     \<and> read_msgs (Recv None None 0) 1 Abridged r1 [] = (None, [replicate 8 1], [])"
proof -
  obtain k d w1 where dt: "dialTransport (\<lambda>_ _. Inl EOF) example_plain None None (replicate 64 97) [] 0 False example_dc
      \<lparr>written = [], wbudget = None\<rparr> [] = (Inr (DObfuscated k d), w1, [])" using example_dial by blast
  have "\<exists>d' bs. write_msgs (Send None None) d \<lparr>written = [], wbudget = None\<rparr> [([1, 2, 3, 4], replicate 8 1)] = (None, d', \<lparr>written = bs, wbudget = None\<rparr>)
    \<and> (\<exists>k' stream r1. obfListener_Accept None (Inr (written w1 @ fst (XORKeyStream (k_encrypt k) bs))) = Inr (k', stream)
        \<and> Listener_Accept None None (Inr stream) = Inr (p_protocol example_plain, r1)
        \<and> (\<forall>b. read_msgs (Recv None None 0) (length [([1, 2, 3, 4] :: bytes, replicate 8 1 :: bytes)]) (p_protocol example_plain) r1 b
             = (None, map snd [([1, 2, 3, 4] :: bytes, replicate 8 1)], [])))"
    by (rule obfuscated_end_to_end[OF dt, of Abridged_ObfuscatedTag])
      (auto simp: example_plain_def example_dc_def transportable_def aligned_payload_def MaxMessageSize_def)
  moreover have "p_protocol example_plain = Abridged" by (simp add: example_plain_def)
  ultimately show ?thesis using dt by (auto simp del: read_msgs.simps)
qed

text \<open>
  A full framing cannot be combined with this obfuscation: it has no tag, so the header
  announces the intermediate framing while the messages are written in the full one.
\<close>

theorem obfuscated_full_mismatch:
  assumes "p_protocol p = newFull" and "p_obfuscated p" and "\<not> TCPObfuscatedOnly dc"
  shows "\<exists>ob. dial_obfuscation p test dc = Inr ob \<and> ob_codec ob = newFull \<and> detectCodec (ob_tag ob @ stream) = (Inr Intermediate, stream)"
  using assms detectCodec_start[of Intermediate Intermediate_ObfuscatedTag stream]
  by (simp add: dial_obfuscation_def newFull_def client_start_def)

text \<open>
  The data centre that \<open>Primary\<close> connects to is one with the requested number that is neither
  for media only nor a CDN, nor one that needs obfuscation when that is excluded. When every
  dial reports, there is a connection unless there is no such address or all dials failed.
\<close>

theorem plain_Primary_connects:
  assumes srt: "sorts srt" and ord: "mset order = mset (Primary_candidates srt p opts dc)"
  defines "usable \<equiv> {opt \<in> set opts. DO_ID opt = dc \<and> \<not> MediaOnly opt \<and> \<not> CDN opt \<and> \<not> (p_noObfuscated p \<and> TCPObfuscatedOnly opt)}"
  shows "case plain_Primary srt p dial opts dc order ctxErr of
      Inr c \<Rightarrow> (\<exists>opt\<in>usable. dial opt = Inr c)
    | Inl err \<Rightarrow> (\<forall>opt\<in>usable. isl (dial opt))"
proof -
  let ?cs = "Primary_candidates srt p opts dc"
  have "set (FindDCs srt opts dc v) = {opt \<in> set opts. DO_ID opt = dc}" for v
    using FindDCs_spec[OF srt, of opts dc v] by (metis set_mset_mset set_mset_filter)
  then have cs: "set ?cs = usable" by (auto simp: Primary_candidates_def FindPrimaryDCs_def usable_def Let_def)
  have oc: "set order = usable" "length order = length ?cs" using ord cs by (metis set_mset_mset, metis size_mset)
  consider "?cs = []" | x where "?cs = [x]" | x y zs where "?cs = x # y # zs" by (metis neq_Nil_conv)
  then show ?thesis
  proof cases
    case 1
    then show ?thesis using cs by (simp add: plain_Primary_def connect_def)
  next
    case 2
    then have "usable = {x}" using cs by simp
    then show ?thesis using 2 by (cases "dial x") (simp_all add: plain_Primary_def connect_def)
  next
    case 3
    then have "map dial order \<noteq> []" "length (map dial order) = length ?cs" using oc by auto
    moreover have pr: "plain_Primary srt p dial opts dc order ctxErr = race (length ?cs) None ctxErr (map dial order)"
      using 3 by (simp add: plain_Primary_def connect_def)
    ultimately consider c x where "x \<in> set order" "dial x = Inr c" "plain_Primary srt p dial opts dc order ctxErr = Inr c"
      | "\<forall>x\<in>set order. isl (dial x)" "isl (plain_Primary srt p dial opts dc order ctxErr)"
      using race_result[of "map dial order" "length ?cs" None ctxErr] by force
    then show ?thesis
    proof cases
      case 1
      then show ?thesis using oc by auto
    next
      case 2
      then show ?thesis using oc by (auto split: sum.splits)
    qed
  qed
qed

text \<open>An order-preserving insertion sort is one that \<open>sort.Slice\<close> may be.\<close>

primrec ins :: "('a \<Rightarrow> 'a \<Rightarrow> bool) \<Rightarrow> 'a \<Rightarrow> 'a list \<Rightarrow> 'a list" where
  "ins lt x [] = [x]"
| "ins lt x (y # ys) = (if lt y x then y # ins lt x ys else x # y # ys)"

lemma mset_ins [simp]: "mset (ins lt x ys) = add_mset x (mset ys)"
  by (induction ys) auto

lemma sorted_ins:
  assumes "\<forall>x y z. lt x y \<longrightarrow> \<not> lt y x \<and> (lt x z \<or> lt z y)"
  shows "sorted_wrt (\<lambda>x y. \<not> lt y x) ys \<Longrightarrow> sorted_wrt (\<lambda>x y. \<not> lt y x) (ins lt x ys)"
proof (induction ys)
  case (Cons y ys)
  have "set (ins lt x ys) = insert x (set ys)" by (metis mset_ins set_mset_add_mset_insert set_mset_mset)
  then show ?case using Cons assms by (cases "lt y x") (auto, blast+)
qed simp

lemma insertion_sort_sorts: "sorts (\<lambda>lt xs. foldr (ins lt) xs [])"
proof -
  have "mset (foldr (ins lt) xs []) = mset xs" for lt :: "DCOption \<Rightarrow> DCOption \<Rightarrow> bool" and xs by (induction xs) auto
  moreover have "sorted_wrt (\<lambda>x y. \<not> lt y x) (foldr (ins lt) xs [])"
    if "\<forall>x y z. lt x y \<longrightarrow> \<not> lt y x \<and> (lt x z \<or> lt z y)" for lt :: "DCOption \<Rightarrow> DCOption \<Rightarrow> bool" and xs
    by (induction xs) (simp_all add: sorted_ins[OF that])
  ultimately show ?thesis by (simp add: sorts_def)
qed

theorem plain_Primary_connects_witness:
  "case plain_Primary (\<lambda>lt xs. foldr (ins lt) xs []) example_plain (\<lambda>x. Inr (DO_Port x)) [example_dc] 2 [example_dc] ContextCanceled of
      Inr c \<Rightarrow> (\<exists>opt\<in>{opt \<in> set [example_dc]. DO_ID opt = 2 \<and> \<not> MediaOnly opt \<and> \<not> CDN opt
        \<and> \<not> (p_noObfuscated example_plain \<and> TCPObfuscatedOnly opt)}. Inr (DO_Port opt) = (Inr c :: go_error + int))
    | Inl err \<Rightarrow> (\<forall>opt\<in>{opt \<in> set [example_dc]. DO_ID opt = 2 \<and> \<not> MediaOnly opt \<and> \<not> CDN opt
        \<and> \<not> (p_noObfuscated example_plain \<and> TCPObfuscatedOnly opt)}. isl (Inr (DO_Port opt) :: go_error + int))"
  by (rule plain_Primary_connects[OF insertion_sort_sorts])
    (simp add: Primary_candidates_def FindPrimaryDCs_def FindDCs_def example_plain_def example_dc_def)

end
