(* ===== verification/Srp.thy ===== *)
theory Srp
  imports Kex
begin

text \<open>
  Package \<open>crypto/srp\<close>: the client's side of the Secure Remote Password protocol, by which a
  user proves knowledge of the account's second password (\<open>srp.go\<close>, \<open>pad.go\<close>, \<open>hash.go\<close>) and
  sets a new one (\<open>new_hash.go\<close>). PBKDF2 comes from \<open>golang.org/x/crypto\<close>, which is not part
  of the repository: \<open>kdf password salt n\<close> with 64 bytes of SHA-512 output is an argument.
  The validation of the group is the one of \<open>check_dh.go\<close>, with its cache.
\<close>

unbundle bit_operations_syntax

section \<open>srp.go, pad.go\<close>

record Input =
  Salt1 :: bytes
  Salt2 :: bytes
  I_G :: int
  I_P :: bytes

record Answer =
  ans_A :: bytes
  ans_M1 :: bytes

type_synonym pbkdf2 = "bytes \<Rightarrow> bytes \<Rightarrow> nat \<Rightarrow> bytes"

definition xor32 :: "cipher_lib \<Rightarrow> bytes \<Rightarrow> bytes \<Rightarrow> bytes" where
  "xor32 lib a b = xor_bytes lib a b"

definition checkInput ::
  "(nat \<Rightarrow> bool) \<Rightarrow> validatedDHParameterCache \<Rightarrow> int \<Rightarrow> nat \<Rightarrow> go_error option \<times> validatedDHParameterCache" where
  "checkInput Prime cache g p = checkDHWithCache Prime cache g p"

definition pad256FromBig :: "nat \<Rightarrow> (go_error + bytes) option" where
  "pad256FromBig i = FillBytes i 256"

definition pad256 :: "bytes \<Rightarrow> bytes" where
  "pad256 b =
     (if length b \<ge> 256 then drop (length b - 256) b
      else let tmp = replicate 256 0 in take (256 - length b) tmp @ go_copy (drop (256 - length b) tmp) b)"

section \<open>hash.go\<close>

definition srp_hash :: "bytes list \<Rightarrow> bytes" where
  "srp_hash data = sha256 (concat data)"

definition saltHash :: "bytes \<Rightarrow> bytes \<Rightarrow> bytes" where
  "saltHash data salt = srp_hash [salt, data, salt]"

definition primary :: "bytes \<Rightarrow> bytes \<Rightarrow> bytes \<Rightarrow> bytes" where
  "primary password salt1 salt2 = saltHash (saltHash password salt1) salt2"

definition secondary :: "pbkdf2 \<Rightarrow> bytes \<Rightarrow> bytes \<Rightarrow> bytes \<Rightarrow> bytes" where
  "secondary kdf password salt1 salt2 = saltHash (kdf (primary password salt1 salt2) salt1 100000) salt2"

definition computeXV :: "pbkdf2 \<Rightarrow> bytes \<Rightarrow> bytes \<Rightarrow> bytes \<Rightarrow> nat \<Rightarrow> nat \<Rightarrow> nat \<times> nat" where
  "computeXV kdf password clientSalt serverSalt g p =
     (let x = SetBytes (secondary kdf password clientSalt serverSalt) in (x, big_Exp g x p))"

text \<open>
  \<open>g.FillBytes\<close> panics when the number does not fit; the base that passed the check is small.
  \<open>t\<close> is the only number that may become negative.
\<close>

definition srp_Hash ::
  "cipher_lib \<Rightarrow> (nat \<Rightarrow> bool) \<Rightarrow> pbkdf2 \<Rightarrow> validatedDHParameterCache \<Rightarrow> bytes \<Rightarrow> bytes \<Rightarrow> bytes \<Rightarrow> Input \<Rightarrow>
   (go_error + Answer) \<times> validatedDHParameterCache" where
  "srp_Hash lib Prime kdf cache password srpB random i =
     (let p = SetBytes (I_P i) in
      case checkInput Prime cache (I_G i) p of
        (Some err, cache) \<Rightarrow> (Inl (Wrap ''validate algo'' err), cache)
      | (None, cache) \<Rightarrow>
         let g = nat (I_G i) in
         (case big_FillBytes 256 g of Inl err \<Rightarrow> (Inl err, cache) | Inr gBytes \<Rightarrow>
          let a = SetBytes random in
          case pad256FromBig (big_Exp g a p) of
            None \<Rightarrow> (Inl (Errorf ''g_a is too big'' []), cache)
          | Some (Inl err) \<Rightarrow> (Inl err, cache)
          | Some (Inr ga) \<Rightarrow>
             let gb = pad256 srpB;
                 u = SetBytes (srp_hash [ga, gb]);
                 (x, v) = computeXV kdf password (Salt1 i) (Salt2 i) g p;
                 k = SetBytes (srp_hash [I_P i, gBytes]);
                 kv = k * v mod p;
                 t = int (SetBytes srpB) - int kv;
                 t = (if t < 0 then t + int p else t)
             in case pad256FromBig (big_Exp (nat t) (u * x + a) p) of
                  None \<Rightarrow> (Inl (Errorf ''s_a is too big'' []), cache)
                | Some (Inl err) \<Rightarrow> (Inl err, cache)
                | Some (Inr sa) \<Rightarrow>
                   let ka = sha256 sa;
                       xorHpHg = xor32 lib (sha256 (I_P i)) (sha256 gBytes);
                       M1 = srp_hash [xorHpHg, srp_hash [Salt1 i], srp_hash [Salt2 i], ga, gb, ka]
                   in (Inr \<lparr>ans_A = ga, ans_M1 = M1\<rparr>, cache)))"

section \<open>new\_hash.go\<close>

text \<open>The verifier is below the modulus and fits, so the padding succeeds.\<close>

definition NewHash ::
  "(nat \<Rightarrow> bool) \<Rightarrow> pbkdf2 \<Rightarrow> validatedDHParameterCache \<Rightarrow> bytes \<Rightarrow> bytes \<Rightarrow> Input \<Rightarrow>
   (go_error + (bytes \<times> bytes)) \<times> bytes \<times> validatedDHParameterCache" where
  "NewHash Prime kdf cache rand password i =
     (let p = SetBytes (I_P i) in
      case checkInput Prime cache (I_G i) p of
        (Some err, cache) \<Rightarrow> (Inl (Wrap ''validate algo'' err), rand, cache)
      | (None, cache) \<Rightarrow>
         (case io_ReadFull 32 rand of
            (_, Some err, rand) \<Rightarrow> (Inl err, rand, cache)
          | (bs, None, rand) \<Rightarrow>
             let newClientSalt = Salt1 i @ bs;
                 v = snd (computeXV kdf password newClientSalt (Salt2 i) (nat (I_G i)) p)
             in (case pad256FromBig v of
                   Some (Inl err) \<Rightarrow> (Inl err, rand, cache)
                 | Some (Inr padded) \<Rightarrow> (Inr (padded, newClientSalt), rand, cache)
                 | None \<Rightarrow> (Inr (replicate 256 0, newClientSalt), rand, cache))))"

section \<open>The server's side\<close>

text \<open>
  The protocol as its documentation describes it for the server, which keeps the verifier
  \<open>v\<close>: its public number, and the value it expects for \<open>M1\<close>.
\<close>

definition server_k :: "Input \<Rightarrow> nat" where
  "server_k i = SetBytes (sha256 (I_P i @ replicate 255 0 @ [word_of_int (I_G i)]))"

definition server_B :: "Input \<Rightarrow> nat \<Rightarrow> nat \<Rightarrow> nat" where
  "server_B i v b = (server_k i * v + nat (I_G i) ^ b) mod SetBytes (I_P i)"

definition server_M1 :: "Input \<Rightarrow> nat \<Rightarrow> nat \<Rightarrow> bytes \<Rightarrow> bytes \<Rightarrow> bytes" where
  "server_M1 i v b A B =
     (let p = SetBytes (I_P i);
          u = SetBytes (sha256 (A @ B));
          S = (SetBytes A * v ^ u) ^ b mod p;
          gBytes = replicate 255 0 @ [word_of_int (I_G i)];
          sBytes = replicate (256 - length (big_Bytes S)) 0 @ big_Bytes S
      in sha256 (map2 (XOR) (sha256 (I_P i)) (sha256 gBytes) @ sha256 (Salt1 i) @ sha256 (Salt2 i) @ A @ B @ sha256 sBytes))"

section \<open>Lemmas\<close>

lemma length_pad256 [simp]: "length (pad256 b) = 256"
  by (simp add: pad256_def Let_def go_copy_def)

lemma pad256_full: "length b = 256 \<Longrightarrow> pad256 b = b"
  by (simp add: pad256_def)

lemma SetBytes_pad256: "length b \<le> 256 \<Longrightarrow> SetBytes (pad256 b) = SetBytes b"
  by (cases "length b = 256") (simp_all add: pad256_full pad256_def Let_def go_copy_def min_def)

lemma big_FillBytes_small: "n < 256 \<Longrightarrow> 0 < n \<Longrightarrow> big_FillBytes 256 n = Inr (replicate 255 0 @ [word_of_nat n])"
  by (simp add: big_FillBytes_def big_Bytes.simps[of n] big_Bytes.simps[of 0])

lemma below_256_bytes: "(n :: nat) < 2 ^ 2048 \<Longrightarrow> n < 256 ^ 256"
proof -
  assume n: "n < 2 ^ 2048"
  have "(2 :: nat) ^ 2048 = (2 ^ 8) ^ 256" unfolding power_mult[symmetric] by (rule arg_cong[where f = "(^) 2"]) simp
  also have "(2 :: nat) ^ 8 = 256" by simp
  finally show "n < 256 ^ 256" using n by (simp only:)
qed

lemma pad256FromBig_fits:
  assumes "n < 2 ^ 2048"
  shows "pad256FromBig n = Some (Inr (replicate (256 - length (big_Bytes n)) 0 @ big_Bytes n))" "length (big_Bytes n) \<le> 256"
proof -
  note b = below_256_bytes[OF assms]
  show l: "length (big_Bytes n) \<le> 256" unfolding length_big_Bytes by (rule b)
  show "pad256FromBig n = Some (Inr (replicate (256 - length (big_Bytes n)) 0 @ big_Bytes n))"
    unfolding pad256FromBig_def FillBytes_eq if_P[OF b] using l by (simp add: big_FillBytes_def)
qed

text \<open>The client's \<open>t\<close> is \<open>g ^ b\<close> modulo \<open>p\<close>.\<close>

definition adjusted :: "int \<Rightarrow> nat \<Rightarrow> nat" where
  "adjusted t p = nat (if t < 0 then t + int p else t)"

lemma server_k_Salt1 [simp]: "server_k (i\<lparr>Salt1 := s\<rparr>) = server_k i"
  by (simp add: server_k_def)

lemma client_t:
  fixes B kv gb p k :: nat
  assumes "0 < p" "B = (k + gb) mod p" "kv = k mod p"
  defines "t \<equiv> int B - int kv"
  shows "adjusted t p mod p = gb mod p"
proof -
  let ?t = "if t < 0 then t + int p else t"
  have "kv < p" using assms(1,3) by simp
  then have "0 \<le> ?t" by (auto simp: t_def)
  have "?t mod int p = t mod int p" by simp
  also have "\<dots> = (int ((k + gb) mod p) - int (k mod p)) mod int p" using assms by (simp add: t_def)
  also have "\<dots> = (int (k + gb) - int k) mod int p" by (simp add: zmod_int mod_diff_eq)
  also have "\<dots> = int (gb mod p)" by (simp add: zmod_int)
  finally have "nat (?t mod int p) = gb mod p" by simp
  then show ?thesis using \<open>0 \<le> ?t\<close> by (simp add: adjusted_def nat_mod_distrib)
qed

text \<open>Both sides compute the same secret.\<close>

lemma srp_secret:
  fixes g p a b x u t A v :: nat
  assumes t: "t mod p = g ^ b mod p" and A: "A = g ^ a mod p" and v: "v = g ^ x mod p"
  shows "t ^ (u * x + a) mod p = (A * v ^ u) ^ b mod p"
proof -
  have "(A * v ^ u) ^ b mod p = ((A * v ^ u) mod p) ^ b mod p" by (simp add: power_mod)
  also have "(A * v ^ u) mod p = (g ^ a * (g ^ x) ^ u) mod p"
    unfolding A v by (intro mod_mult_cong power_mod) simp
  also have "((g ^ a * (g ^ x) ^ u) mod p) ^ b mod p = (g ^ a * (g ^ x) ^ u) ^ b mod p" by (simp add: power_mod)
  also have "(g ^ a * (g ^ x) ^ u) ^ b = (g ^ b) ^ (u * x + a)"
    by (simp add: power_add power_mult_distrib power_mult[symmetric] mult.commute mult.left_commute)
  also have "(g ^ b) ^ (u * x + a) mod p = t ^ (u * x + a) mod p" using t by (metis power_mod)
  finally show ?thesis by simp
qed

lemma CheckGP_range: "CheckGP g p = None \<Longrightarrow> 2 \<le> g \<and> g \<le> 7"
  by (auto simp: CheckGP_def Let_def split: if_splits)

lemma checkInput_ok:
  assumes "cache_ok Prime cache" "checkInput Prime cache g p = (None, cache')"
  shows "BitLen p = 2048" "2 \<le> g" "g \<le> 7" "validate_dh Prime g p = None"
proof -
  have v: "BitLen p = 2048 \<and> validate_dh Prime g p = None"
    using checkDHWithCache_spec[OF assms(1), where g = g and p = p] assms(2) by (simp add: checkInput_def split: if_splits)
  then show "BitLen p = 2048" "validate_dh Prime g p = None" by simp_all
  then show "2 \<le> g" "g \<le> 7" using CheckGP_range by (auto simp: validate_dh_def split: option.splits)
qed

lemma checkInput_again:
  assumes "cache_ok Prime cache" "BitLen p = 2048" "validate_dh Prime g p = None"
  shows "\<exists>cache'. checkInput Prime cache g p = (None, cache')"
  using checkDHWithCache_spec[OF assms(1), where g = g and p = p] assms(2,3) by (auto simp: checkInput_def split: prod.splits)

text \<open>The answer for a group that passed the check, in closed form.\<close>

lemma srp_Hash_form:
  fixes random password srpB :: bytes and kdf :: pbkdf2 and i :: Input
  assumes chk: "checkInput Prime cache (I_G i) p = (None, cache')" and g: "2 \<le> I_G i" "I_G i \<le> 7"
    and p: "p = SetBytes (I_P i)" "0 < p" "p < 2 ^ 2048" and b: "length srpB = 256"
  defines "ga \<equiv> replicate (256 - length (big_Bytes (big_Exp (nat (I_G i)) (SetBytes random) p))) 0
      @ big_Bytes (big_Exp (nat (I_G i)) (SetBytes random) p)"
    and "x \<equiv> SetBytes (secondary kdf password (Salt1 i) (Salt2 i))"
  defines "S \<equiv> adjusted (int (SetBytes srpB) - int (server_k i * (nat (I_G i) ^ x mod p) mod p)) p ^ (SetBytes (sha256 (ga @ srpB)) * x + SetBytes random) mod p"
  shows "srp_Hash lib Prime kdf cache password srpB random i = (Inr \<lparr>ans_A = ga, ans_M1 =
     sha256 (xor_bytes lib (sha256 (I_P i)) (sha256 (replicate 255 0 @ [word_of_int (I_G i)])) @ sha256 (Salt1 i) @ sha256 (Salt2 i)
       @ ga @ srpB @ sha256 (replicate (256 - length (big_Bytes S)) 0 @ big_Bytes S))\<rparr>, cache')"
proof -
  have "word_of_nat (nat (I_G i)) = (word_of_int (I_G i) :: byte)" using g by (metis of_int_of_nat_eq int_nat_eq order_trans zero_le_numeral)
  then have gb: "big_FillBytes 256 (nat (I_G i)) = Inr (replicate 255 0 @ [word_of_int (I_G i)])"
    using big_FillBytes_small[of "nat (I_G i)"] g by simp
  have fits: "pad256FromBig (n mod p) = Some (Inr (replicate (256 - length (big_Bytes (n mod p))) 0 @ big_Bytes (n mod p)))" for n
    using p(2,3) by (intro pad256FromBig_fits(1)) (meson less_trans mod_less_divisor)
  show ?thesis
    unfolding srp_Hash_def p(1)[symmetric] Let_def
    by (simp add: chk gb fits big_Exp_def computeXV_def pad256_full[OF b] srp_hash_def xor32_def Let_def
        ga_def x_def S_def server_k_def adjusted_def)
qed

section \<open>Properties\<close>

text \<open>
  C17. A password that was set with \<open>NewHash\<close> opens the account with \<open>Hash\<close>. The server keeps the
  verifier and the salt that \<open>NewHash\<close> returned; later it draws a secret number \<open>b\<close> and sends
  its public number as 256 bytes. Then \<open>Hash\<close> with the same password succeeds for every choice
  of the client's secret number, its answer carries \<open>g ^ a mod p\<close> and the \<open>M1\<close> that the server
  computes from the verifier.
\<close>

theorem srp_login:
  assumes xor: "xor_bytewise lib" and cache: "cache_ok Prime cache" "cache_ok Prime cache2"
    and new: "NewHash Prime kdf cache rand password i = (Inr (verifier, newSalt), rest, cache1)"
    and B: "length srpB = 256" "SetBytes srpB = server_B i (SetBytes verifier) b"
  shows "\<exists>ans cache3. srp_Hash lib Prime kdf cache2 password srpB random (i\<lparr>Salt1 := newSalt\<rparr>) = (Inr ans, cache3)
    \<and> length (ans_A ans) = 256 \<and> SetBytes (ans_A ans) = nat (I_G i) ^ SetBytes random mod SetBytes (I_P i)
    \<and> ans_M1 ans = server_M1 (i\<lparr>Salt1 := newSalt\<rparr>) (SetBytes verifier) b (ans_A ans) srpB"
proof -
  let ?i = "i\<lparr>Salt1 := newSalt\<rparr>" and ?p = "SetBytes (I_P i)" and ?g = "nat (I_G i)"
  let ?x = "SetBytes (secondary kdf password newSalt (Salt2 i))"
  obtain c1 where chk: "checkInput Prime cache (I_G i) ?p = (None, c1)"
    using new by (cases "checkInput Prime cache (I_G i) ?p") (auto simp: NewHash_def split: option.splits)
  note ok = checkInput_ok[OF cache(1) chk]
  have p: "?p < 2 ^ 2048" "0 < ?p"
  proof -
    show "?p < 2 ^ 2048" using ok(1) BitLen_le[of ?p 2048] by simp
    show "0 < ?p" using ok(1) by (cases "?p = 0") (simp_all add: BitLen.simps)
  qed
  have fits: "pad256FromBig (n mod ?p) = Some (Inr (replicate (256 - length (big_Bytes (n mod ?p))) 0 @ big_Bytes (n mod ?p)))"
    and len: "length (big_Bytes (n mod ?p)) \<le> 256" for n
  proof -
    have "n mod ?p < 2 ^ 2048" using p by (meson less_trans mod_less_divisor)
    from pad256FromBig_fits[OF this] show "pad256FromBig (n mod ?p) = Some (Inr (replicate (256 - length (big_Bytes (n mod ?p))) 0 @ big_Bytes (n mod ?p)))"
      "length (big_Bytes (n mod ?p)) \<le> 256" .
  qed
  have v: "SetBytes verifier = ?g ^ ?x mod ?p"
    using new chk fits by (auto simp: NewHash_def computeXV_def big_Exp_def Let_def split: option.splits prod.splits)
  obtain c3 where chk2: "checkInput Prime cache2 (I_G ?i) ?p = (None, c3)" using checkInput_again[OF cache(2) ok(1,4)] by auto
  define ga where "ga = replicate (256 - length (big_Bytes (?g ^ SetBytes random mod ?p))) 0 @ big_Bytes (?g ^ SetBytes random mod ?p)"
  have A: "SetBytes ga = ?g ^ SetBytes random mod ?p" "length ga = 256" using len by (simp_all add: ga_def)
  let ?t = "adjusted (int (SetBytes srpB) - int (server_k i * (?g ^ ?x mod ?p) mod ?p)) ?p"
  have "?t mod ?p = ?g ^ b mod ?p"
    using p(2) B(2) v by (intro client_t[where k = "server_k i * (?g ^ ?x mod ?p)"]) (simp_all add: server_B_def)
  from srp_secret[OF this A(1) v] have S: "?t ^ (SetBytes (sha256 (ga @ srpB)) * ?x + SetBytes random) mod ?p
      = (SetBytes ga * SetBytes verifier ^ SetBytes (sha256 (ga @ srpB))) ^ b mod ?p" .
  have xs: "xor_bytes lib (sha256 m) (sha256 m') = map2 (XOR) (sha256 m) (sha256 m')" for m m'
    using xor by (simp add: xor_bytewise_def)
  from srp_Hash_form[OF chk2 _ _ _ p(2,1) B(1), where random = random and lib = lib and kdf = kdf and password = password] ok(2,3)
  have "srp_Hash lib Prime kdf cache2 password srpB random ?i = (Inr \<lparr>ans_A = ga, ans_M1 = server_M1 ?i (SetBytes verifier) b ga srpB\<rparr>, c3)"
    by (simp add: ga_def[symmetric] big_Exp_def S xs server_M1_def Let_def)
  with A show ?thesis by simp
qed

definition example_input :: Input where
  "example_input = \<lparr>Salt1 = [1], Salt2 = [2], I_G = 4, I_P = [0x80] @ replicate 255 0\<rparr>"

definition no_cache :: validatedDHParameterCache where
  "no_cache = \<lparr>cache_entries = [], cache_next = 0\<rparr>"

lemma example_input_P: "SetBytes (I_P example_input) = 2 ^ 2047"
proof -
  have "SetBytes [0x80] = 2 ^ 7" by (simp add: SetBytes_def)
  then have "SetBytes (I_P example_input) = 2 ^ 7 * 256 ^ 255" by (simp add: example_input_def SetBytes_append del: append_Cons)
  also have "(256 :: nat) = 2 ^ 8" by simp
  also have "(2 :: nat) ^ 7 * (2 ^ 8) ^ 255 = 2 ^ (7 + 8 * 255)" by (simp only: power_add power_mult)
  also have "7 + 8 * 255 = (2047 :: nat)" by simp
  finally show ?thesis .
qed

lemma example_checked: "cache_ok (\<lambda>_. True) no_cache" "BitLen (2 ^ 2047) = 2048" "validate_dh (\<lambda>_. True) 4 (2 ^ 2047) = None"
proof -
  have "(2 :: nat) ^ 2047 < 2 ^ 2048" by (rule power_strict_increasing) simp_all
  then have "BitLen (2 ^ 2047) \<le> 2048" "\<not> BitLen (2 ^ 2047) \<le> 2047" unfolding BitLen_le by simp_all
  then show "BitLen (2 ^ 2047) = 2048" by linarith
qed (simp_all add: cache_ok_def no_cache_def validatedDHParameterCacheCapacity_def validate_dh_def CheckGP_def checkPrime_def Let_def)

lemma example_NewHash:
  "\<exists>verifier newSalt rest cache1. NewHash (\<lambda>_. True) (\<lambda>_ _ _. []) no_cache (replicate 32 9) [5] example_input = (Inr (verifier, newSalt), rest, cache1)"
proof -
  obtain p where p: "p = (2 :: nat) ^ 2047" by blast
  have lt: "(2 :: nat) ^ 2047 < 2 ^ 2048" by (rule power_strict_increasing) simp_all
  have g: "I_G example_input = 4" and P: "SetBytes (I_P example_input) = p" using example_input_P p by (simp_all add: example_input_def)
  obtain c where "checkInput (\<lambda>_. True) no_cache 4 p = (None, c)"
    using checkInput_again[OF example_checked[folded p]] by blast
  moreover have "\<exists>bs. pad256FromBig (big_Exp m n p) = Some (Inr bs)" for m n
    using lt p pad256FromBig_fits[of "m ^ n mod p"] by (simp add: big_Exp_def)
  ultimately show ?thesis
    by (auto simp: NewHash_def g P computeXV_def io_ReadFull_def Let_def split: option.splits sum.splits)
      (metis option.inject sum.distinct(1))
qed

theorem srp_login_witness:
  "\<exists>verifier newSalt rest cache1 srpB ans cache3.
     NewHash (\<lambda>_. True) (\<lambda>_ _ _. []) no_cache (replicate 32 9) [5] example_input = (Inr (verifier, newSalt), rest, cache1)
     \<and> SetBytes srpB = server_B example_input (SetBytes verifier) 11
     \<and> srp_Hash copy_cipher (\<lambda>_. True) (\<lambda>_ _ _. []) no_cache [5] srpB [3] (example_input\<lparr>Salt1 := newSalt\<rparr>) = (Inr ans, cache3)
     \<and> ans_M1 ans = server_M1 (example_input\<lparr>Salt1 := newSalt\<rparr>) (SetBytes verifier) 11 (ans_A ans) srpB"
proof -
  obtain verifier newSalt rest cache1 where
    n: "NewHash (\<lambda>_. True) (\<lambda>_ _ _. []) no_cache (replicate 32 9) [5] example_input = (Inr (verifier, newSalt), rest, cache1)"
    using example_NewHash by blast
  let ?B = "server_B example_input (SetBytes verifier) 11"
  have "?B < 2 ^ 2047" by (simp add: server_B_def example_input_P del: numeral_power_eq_of_nat_cancel_iff)
  moreover have "(2 :: nat) ^ 2047 < 2 ^ 2048" by (rule power_strict_increasing) simp_all
  ultimately have "?B < 2 ^ 2048" by (rule less_trans)
  from pad256FromBig_fits(2)[OF this] obtain srpB where "length srpB = 256" "SetBytes srpB = ?B"
    by (intro that[of "replicate (256 - length (big_Bytes ?B)) 0 @ big_Bytes ?B"]) simp_all
  from srp_login[OF copy_cipher_laws(2) example_checked(1) example_checked(1) n this, of "[3]"] this n show ?thesis by blast
qed

end
