(* ===== verification/Tgerr.thy ===== *)
theory Tgerr
  imports Go_Prelude
begin

text \<open>
  Package \<open>tgerr\<close>: RPC errors split into a type and a numeric argument (\<open>error.go\<close>), and the
  handling of the errors that ask the client to wait (\<open>flood_wait.go\<close>). An \<open>*Error\<close> inside a
  chain of errors is the value \<open>TgErr\<close> of its code and message, from which \<open>New\<close> computes the
  rest. A string is its bytes; a rune is a digit exactly when it is one of the bytes
  \<open>0\<close> to \<open>9\<close>.
\<close>

section \<open>error.go\<close>

record tg_error =
  e_Code :: int
  e_Message :: bytes
  e_Type :: bytes
  e_Argument :: int

definition IsDigit :: "byte \<Rightarrow> bool" where
  "IsDigit r \<longleftrightarrow> 48 \<le> r \<and> r \<le> 57"

text \<open>\<open>strings.Split\<close> and \<open>strings.Join\<close> with a separator of one byte, and \<open>strconv.Atoi\<close> on digits.\<close>

fun strings_Split :: "bytes \<Rightarrow> byte \<Rightarrow> bytes list" where
  "strings_Split [] sep = [[]]"
| "strings_Split (b # s) sep =
     (if b = sep then [] # strings_Split s sep
      else case strings_Split s sep of [] \<Rightarrow> [[b]] | p # ps \<Rightarrow> (b # p) # ps)"

fun strings_Join :: "bytes list \<Rightarrow> byte \<Rightarrow> bytes" where
  "strings_Join [] sep = []"
| "strings_Join [p] sep = p"
| "strings_Join (p # q # ps) sep = p @ [sep] @ strings_Join (q # ps) sep"

definition digits_value :: "bytes \<Rightarrow> nat" where
  "digits_value s = foldl (\<lambda>n d. n * 10 + (unat d - 48)) 0 s"

definition Atoi :: "bytes \<Rightarrow> int option" where
  "Atoi s = (if s = [] then None else if digits_value s \<ge> 2 ^ 63 then None else Some (int (digits_value s)))"

definition underscore :: byte where "underscore = 95"

text \<open>The loop over the parts; \<open>None\<close> for the list of parts is the early return.\<close>

primrec parts_loop :: "bytes list \<Rightarrow> bytes list \<Rightarrow> int \<Rightarrow> bytes list option \<times> int" where
  "parts_loop [] nonDigit arg = (Some nonDigit, arg)"
| "parts_loop (part # parts) nonDigit arg =
     (if \<exists>r\<in>set part. \<not> IsDigit r then parts_loop parts (nonDigit @ [part]) arg
      else case Atoi part of None \<Rightarrow> (None, arg) | Some argument \<Rightarrow> parts_loop parts nonDigit argument)"

definition extractArgument :: "tg_error \<Rightarrow> tg_error" where
  "extractArgument e =
     (if e_Message e = [] then e
      else
        let e = e\<lparr>e_Type := e_Message e\<rparr>;
            parts = strings_Split (e_Message e) underscore
        in if length parts < 2 then e
           else case parts_loop parts [] (e_Argument e) of
                  (None, arg) \<Rightarrow> e\<lparr>e_Argument := arg\<rparr>
                | (Some nonDigit, arg) \<Rightarrow> e\<lparr>e_Argument := arg, e_Type := strings_Join nonDigit underscore\<rparr>)"

definition New :: "int \<Rightarrow> bytes \<Rightarrow> tg_error" where
  "New code msg = extractArgument \<lparr>e_Code = code, e_Message = msg, e_Type = [], e_Argument = 0\<rparr>"

text \<open>A nil \<open>*Error\<close> is \<open>None\<close>.\<close>

definition IsType :: "tg_error option \<Rightarrow> bytes \<Rightarrow> bool" where
  "IsType e t = (case e of None \<Rightarrow> False | Some e \<Rightarrow> e_Type e = t)"

definition Error_IsCode :: "tg_error option \<Rightarrow> int \<Rightarrow> bool" where
  "Error_IsCode e code = (case e of None \<Rightarrow> False | Some e \<Rightarrow> e_Code e = code)"

definition IsOneOf :: "tg_error option \<Rightarrow> bytes list \<Rightarrow> bool" where
  "IsOneOf e tt = (case e of None \<Rightarrow> False | Some _ \<Rightarrow> \<exists>t\<in>set tt. IsType e t)"

definition IsCodeOneOf :: "tg_error option \<Rightarrow> int list \<Rightarrow> bool" where
  "IsCodeOneOf e codes = (case e of None \<Rightarrow> False | Some _ \<Rightarrow> \<exists>c\<in>set codes. Error_IsCode e c)"

text \<open>\<open>errors.As\<close>: the first \<open>*Error\<close> on the way to the cause; of joined errors the first that has one.\<close>

fun As :: "go_error \<Rightarrow> tg_error option" where
  "As (TgErr c m) = Some (New c m)"
| "As (Wrap s e) = As e"
| "As (ServerExchangeError c e) = As e"
| "As (Multi e f) = (case As e of Some x \<Rightarrow> Some x | None \<Rightarrow> As f)"
| "As _ = None"

definition AsType :: "go_error \<Rightarrow> bytes \<Rightarrow> tg_error option" where
  "AsType err t = (case As err of Some e \<Rightarrow> if e_Type e = t then Some e else None | None \<Rightarrow> None)"

definition Is :: "go_error \<Rightarrow> bytes list \<Rightarrow> bool" where
  "Is err tt = (case As err of Some e \<Rightarrow> IsOneOf (Some e) tt | None \<Rightarrow> False)"

definition IsCode :: "go_error \<Rightarrow> int list \<Rightarrow> bool" where
  "IsCode err codes = (case As err of Some e \<Rightarrow> IsCodeOneOf (Some e) codes | None \<Rightarrow> False)"

section \<open>flood\_wait.go\<close>

definition ascii :: "string \<Rightarrow> bytes" where
  "ascii s = map of_char s"

definition ErrPremiumFloodWait :: bytes where "ErrPremiumFloodWait = ascii ''FLOOD_PREMIUM_WAIT''"
definition ErrFloodWait :: bytes where "ErrFloodWait = ascii ''FLOOD_WAIT''"
definition FloodWaitErrors :: "bytes list" where "FloodWaitErrors = [ErrFloodWait, ErrPremiumFloodWait]"

text \<open>A \<open>time.Duration\<close> counts nanoseconds in 64 bits.\<close>

definition Second :: "64 word" where "Second = 1000000000"

primrec flood_loop :: "go_error \<Rightarrow> bytes list \<Rightarrow> 64 word option" where
  "flood_loop err [] = None"
| "flood_loop err (e # es) =
     (case AsType err e of Some rpcErr \<Rightarrow> Some (Second * word_of_int (e_Argument rpcErr)) | None \<Rightarrow> flood_loop err es)"

definition AsFloodWait :: "go_error \<Rightarrow> 64 word option" where
  "AsFloodWait err = flood_loop err FloodWaitErrors"

text \<open>
  The timer that \<open>FloodWait\<close> starts, and what it returns: \<open>ctxErr\<close> is the error of the context
  when it is done before the timer.
\<close>

definition FloodWait :: "go_error option \<Rightarrow> go_error option \<Rightarrow> (bool \<times> go_error option) \<times> 64 word option" where
  "FloodWait ctxErr err =
     (case err of
        None \<Rightarrow> ((False, None), None)
      | Some e \<Rightarrow>
         (case AsFloodWait e of
            None \<Rightarrow> ((False, Some e), None)
          | Some d \<Rightarrow>
             let timer = d + Second in
             (case ctxErr of Some c \<Rightarrow> ((False, Some c), Some timer) | None \<Rightarrow> ((True, Some e), Some timer))))"

section \<open>Lemmas\<close>

lemma Split_nonempty [simp]: "strings_Split s sep \<noteq> []"
  by (induction s) (auto split: list.splits)

lemma Split_part: "sep \<notin> set p \<Longrightarrow> strings_Split p sep = [p]"
  by (induction p) (auto split: list.splits)

lemma Split_append: "sep \<notin> set p \<Longrightarrow> strings_Split (p @ sep # s) sep = p # strings_Split s sep"
  by (induction p) (auto split: list.splits)

lemma Split_Join: "ps \<noteq> [] \<Longrightarrow> \<forall>p\<in>set ps. sep \<notin> set p \<Longrightarrow> strings_Split (strings_Join ps sep) sep = ps"
  by (induction ps sep rule: strings_Join.induct) (auto simp: Split_part Split_append)

lemma Join_Nil: "strings_Join ps sep = [] \<Longrightarrow> ps = [] \<or> ps = [[]]"
  by (induction ps sep rule: strings_Join.induct) auto

text \<open>The decimal digits of a number.\<close>

fun decimal :: "nat \<Rightarrow> bytes" where
  "decimal n = (if n < 10 then [word_of_nat (n + 48)] else decimal (n div 10) @ [word_of_nat (n mod 10 + 48)])"

declare decimal.simps [simp del]

lemma digit_byte: "d < 10 \<Longrightarrow> unat (word_of_nat (d + 48) :: byte) = d + 48"
  by (simp add: unsigned_of_nat take_bit_nat_eq_self del: of_nat_add)

lemma decimal_digits: "\<forall>r\<in>set (decimal n). IsDigit r"
proof (induction n rule: decimal.induct)
  case (1 n)
  have "IsDigit (word_of_nat (d + 48))" if "d < 10" for d
    using digit_byte[OF that] that unfolding IsDigit_def word_le_nat_alt by simp
  then show ?case using 1 by (subst decimal.simps) (auto simp del: of_nat_add)
qed

lemma decimal_nonempty [simp]: "decimal n \<noteq> []"
  by (subst decimal.simps) simp

lemma decimal_value: "digits_value (decimal n) = n"
proof (induction n rule: decimal.induct)
  case (1 n)
  show ?case
  proof (cases "n < 10")
    case True
    then show ?thesis using digit_byte[OF True] by (subst decimal.simps) (simp add: digits_value_def del: of_nat_add)
  next
    case False
    then show ?thesis using 1 digit_byte[of "n mod 10"]
      by (subst decimal.simps) (simp add: digits_value_def del: of_nat_add)
  qed
qed

lemma Atoi_decimal: "n < 2 ^ 63 \<Longrightarrow> Atoi (decimal n) = Some (int n)"
  by (simp add: Atoi_def decimal_value)

text \<open>A word is a part with a byte that is not a digit, and without a separator.\<close>

definition is_word :: "bytes \<Rightarrow> bool" where
  "is_word p \<longleftrightarrow> underscore \<notin> set p \<and> (\<exists>r\<in>set p. \<not> IsDigit r)"

lemma parts_loop_words: "\<forall>p\<in>set ps. is_word p \<Longrightarrow> parts_loop (ps @ rest) acc arg = parts_loop rest (acc @ ps) arg"
  by (induction ps arbitrary: acc) (auto simp: is_word_def)

lemma underscore_not_digit: "underscore \<notin> set (decimal n)"
  using decimal_digits[of n] by (auto simp: underscore_def IsDigit_def)

lemma New_form:
  assumes "\<forall>p\<in>set (as @ bs). is_word p" "as @ bs \<noteq> []" "n < 2 ^ 63"
  shows "New code (strings_Join (as @ decimal n # bs) underscore) =
    \<lparr>e_Code = code, e_Message = strings_Join (as @ decimal n # bs) underscore, e_Type = strings_Join (as @ bs) underscore, e_Argument = int n\<rparr>"
proof -
  let ?m = "strings_Join (as @ decimal n # bs) underscore"
  have sp: "strings_Split ?m underscore = as @ decimal n # bs"
    using assms(1) underscore_not_digit by (intro Split_Join) (auto simp: is_word_def)
  have "?m \<noteq> []"
  proof
    assume "?m = []"
    from Join_Nil[OF this] show False by (cases as) auto
  qed
  moreover have "\<not> length (as @ decimal n # bs) < 2" using assms(2) by (cases as) auto
  moreover have "parts_loop (as @ decimal n # bs) [] 0 = (Some (as @ bs), int n)"
    using assms parts_loop_words[of as "decimal n # bs"] parts_loop_words[of bs "[]"] decimal_digits[of n] by (auto simp: Atoi_decimal)
  ultimately show ?thesis by (simp add: New_def extractArgument_def sp Let_def)
qed

section \<open>Properties\<close>

text \<open>
  The argument of an error is found wherever it stands in the message. For words with at
  least one character that is not a digit, and a number below \<open>2 ^ 63\<close> in decimal between
  them or at either end, \<open>New\<close> returns the words as the type and the number as the argument.
\<close>

theorem New_extracts:
  assumes "\<forall>p\<in>set (as @ bs). is_word p" and "as @ bs \<noteq> []" and "n < 2 ^ 63"
  shows "New code (strings_Join (as @ decimal n # bs) underscore) =
    \<lparr>e_Code = code, e_Message = strings_Join (as @ decimal n # bs) underscore, e_Type = strings_Join (as @ bs) underscore, e_Argument = int n\<rparr>"
  using assms by (rule New_form)

theorem New_extracts_witness:
  "New 400 (strings_Join ([ascii ''FILE'', ascii ''PART''] @ decimal 37 # [ascii ''MISSING'']) underscore) =
    \<lparr>e_Code = 400, e_Message = strings_Join ([ascii ''FILE'', ascii ''PART''] @ decimal 37 # [ascii ''MISSING'']) underscore,
     e_Type = strings_Join ([ascii ''FILE'', ascii ''PART''] @ [ascii ''MISSING'']) underscore, e_Argument = int 37\<rparr>"
  by (rule New_extracts) (simp_all add: is_word_def ascii_def underscore_def IsDigit_def)

text \<open>
  A flood wait is recognised through any wrapping, and the wait is at least what the server
  asked for: the timer runs one second longer than the argument in seconds, as long as that
  fits the 64 bits of a duration.
\<close>

theorem FloodWait_waits:
  assumes "As err = Some (New 420 (strings_Join ([ascii ''FLOOD'', ascii ''WAIT''] @ decimal n # []) underscore))"
    and "n < 9223372036"
  shows "FloodWait ctxErr (Some err) =
    ((case ctxErr of Some c \<Rightarrow> (False, Some c) | None \<Rightarrow> (True, Some err)), Some (word_of_int ((int n + 1) * 1000000000)))
    \<and> sint (word_of_int ((int n + 1) * 1000000000) :: 64 word) = (int n + 1) * 1000000000"
proof
  have w: "\<forall>p\<in>set ([ascii ''FLOOD'', ascii ''WAIT''] @ []). is_word p"
    by (simp add: is_word_def ascii_def underscore_def IsDigit_def)
  have t: "strings_Join ([ascii ''FLOOD'', ascii ''WAIT''] @ []) underscore = ErrFloodWait"
    by (simp add: ErrFloodWait_def ascii_def underscore_def)
  have "AsType err ErrFloodWait = Some (New 420 (strings_Join ([ascii ''FLOOD'', ascii ''WAIT''] @ decimal n # []) underscore))"
    using assms New_form[OF w, of n 420] t by (simp add: AsType_def)
  then have "AsFloodWait err = Some (Second * word_of_int (int n))"
    using assms(2) New_form[OF w, of n 420] by (simp add: AsFloodWait_def FloodWaitErrors_def)
  moreover have "Second * word_of_int (int n) + Second = (word_of_int ((int n + 1) * 1000000000) :: 64 word)"
    by (simp add: Second_def algebra_simps)
  ultimately show "FloodWait ctxErr (Some err) =
    ((case ctxErr of Some c \<Rightarrow> (False, Some c) | None \<Rightarrow> (True, Some err)), Some (word_of_int ((int n + 1) * 1000000000)))"
    by (simp add: FloodWait_def Let_def split: option.splits)
  have "(int n + 1) * 1000000000 < 2 ^ 63" using assms(2) by simp
  moreover have "- (2 ^ 63) \<le> (int n + 1) * 1000000000" by simp
  ultimately show "sint (word_of_int ((int n + 1) * 1000000000) :: 64 word) = (int n + 1) * 1000000000"
    by (intro sint64_of_int)
qed

theorem FloodWait_waits_witness:
  "FloodWait None (Some (Wrap ''invoke'' (TgErr 420 (strings_Join ([ascii ''FLOOD'', ascii ''WAIT''] @ decimal 3 # []) underscore)))) =
    ((True, Some (Wrap ''invoke'' (TgErr 420 (strings_Join ([ascii ''FLOOD'', ascii ''WAIT''] @ decimal 3 # []) underscore)))),
     Some 4000000000)"
  using FloodWait_waits[of "Wrap ''invoke'' (TgErr 420 (strings_Join ([ascii ''FLOOD'', ascii ''WAIT''] @ decimal 3 # []) underscore))" 3 None]
  by simp

text \<open>
  The branch for a digit-only part that is no number is reached: an empty part counts as
  digits only, and so does a number beyond 64 bits. The error then keeps the whole message as
  its type.
\<close>

theorem extractArgument_empty_part:
  "e_Type (New 400 (ascii ''PHONE__1'')) = ascii ''PHONE__1'' \<and> e_Type (New 400 (ascii ''WAIT_9223372036854775808'')) = ascii ''WAIT_9223372036854775808''"
  by (simp add: New_def extractArgument_def ascii_def underscore_def IsDigit_def Atoi_def digits_value_def)

end
