(* ===== verification/Conn_Keys.thy ===== *)
theory Conn_Keys
  imports Conn Exchange Tgerr
begin

text \<open>
  Package \<open>mtproto\<close>, the keys of a connection: \<open>connect\<close> obtains them by the key exchange
  (\<open>connect.go\<close>, \<open>session.go\<close>), with perfect forward secrecy the temporary key is bound to the
  permanent one by a request that is repeated under a policy (\<open>bind.go\<close>) and renewed in time
  (\<open>pfs.go\<close>). The record \<open>KConn\<close> adds the keys to the state of \<open>Conn\<close>; the exchange
  runs on the frames of the transport connection as in \<open>Exchange\<close>. Times in seconds are
  unbounded integers: they stay far below the range of an \<open>int64\<close>.
\<close>

section \<open>State\<close>

record KConn =
  k_conn :: Conn
  k_authKey :: AuthKey
  k_permKey :: AuthKey
  k_permKeyCreatedAt :: int
  k_tempKeyExpiry :: int

record key_opts =
  o_dcID :: int
  o_rsaPublicKeys :: "PublicKey list"
  o_pfs :: bool
  o_tempKeyTTL :: int

definition zero_key :: AuthKey where
  "zero_key = \<lparr>AK_Value = replicate 256 0, AK_ID = replicate 8 0\<rparr>"

text \<open>\<open>Time.Unix\<close> of a time in nanoseconds.\<close>

definition time_Unix :: "int \<Rightarrow> int" where
  "time_Unix now = now div 1000000000"

text \<open>The keys in \<open>New\<close>: those of the options, arranged for the mode.\<close>

definition conn_New :: "key_opts \<Rightarrow> AuthKey \<Rightarrow> AuthKey \<Rightarrow> Conn \<Rightarrow> KConn" where
  "conn_New opt key permKey c =
     (let conn = \<lparr>k_conn = c, k_authKey = key, k_permKey = permKey, k_permKeyCreatedAt = 0, k_tempKeyExpiry = 0\<rparr> in
      if o_pfs opt then
        (let conn = conn\<lparr>k_authKey := zero_key\<rparr> in
         if AuthKey_Zero (k_permKey conn) \<and> \<not> AuthKey_Zero key then conn\<lparr>k_permKey := key\<rparr> else conn)
      else conn)"

section \<open>session.go\<close>

record Session =
  S_ID :: "64 word"
  S_Key :: AuthKey
  S_Salt :: "64 word"
  S_PermKey :: AuthKey

definition conn_session :: "env \<Rightarrow> KConn \<Rightarrow> Session \<times> KConn" where
  "conn_session ev k =
     (let ((sid, salt), c) = session ev (k_conn k) in
      (\<lparr>S_ID = sid, S_Key = k_authKey k, S_Salt = salt, S_PermKey = k_permKey k\<rparr>, k\<lparr>k_conn := c\<rparr>))"

definition newSessionID :: "bytes \<Rightarrow> KConn \<Rightarrow> go_error option \<times> bytes \<times> KConn" where
  "newSessionID rand k =
     (case RandInt64 rand of
        (Inl err, rand) \<Rightarrow> (Some err, rand, k)
      | (Inr i, rand) \<Rightarrow> (None, rand, k\<lparr>k_conn := (k_conn k)\<lparr>c_sessionID := i\<rparr>\<rparr>))"

section \<open>connect.go\<close>

definition ErrTransportNotReady :: go_error where
  "ErrTransportNotReady = Errorf ''mtproto transport not ready'' []"

text \<open>\<open>ready\<close>: there is a transport connection, whose frames are those of the exchange.\<close>

definition runExchange ::
  "cipher_lib \<Rightarrow> (nat \<Rightarrow> bool) \<Rightarrow> key_opts \<Rightarrow> bool \<Rightarrow> ExchangeMode \<Rightarrow> int \<Rightarrow> ClientExchangeResult xm" where
  "runExchange lib Prime opt ready mode expiresIn =
     (if \<not> ready then x_fail ErrTransportNotReady
      else
        let ex = \<lparr>ce_keys = o_rsaPublicKeys opt, ce_dc = o_dcID opt, ce_mode = ExchangeModePermanent, ce_expiresIn = 0\<rparr>;
            ex = (if mode = ExchangeModeTemporary then ex\<lparr>ce_mode := ExchangeModeTemporary, ce_expiresIn := expiresIn\<rparr> else ex)
        in client_Run lib Prime ex)"

type_synonym key_step = "KConn \<Rightarrow> xio \<Rightarrow> go_error option \<times> KConn \<times> xio"

definition createAuthKey :: "cipher_lib \<Rightarrow> (nat \<Rightarrow> bool) \<Rightarrow> key_opts \<Rightarrow> bool \<Rightarrow> key_step" where
  "createAuthKey lib Prime opt ready k s =
     (case runExchange lib Prime opt ready ExchangeModePermanent 0 s of
        (Inl err, s) \<Rightarrow> (Some err, k, s)
      | (Inr r, s) \<Rightarrow>
         (None, k\<lparr>k_authKey := cr_AuthKey r, k_conn := (k_conn k)\<lparr>c_sessionID := cr_SessionID r, c_salt := cr_ServerSalt r\<rparr>\<rparr>, s))"

definition createPermAuthKey :: "cipher_lib \<Rightarrow> (nat \<Rightarrow> bool) \<Rightarrow> key_opts \<Rightarrow> bool \<Rightarrow> key_step" where
  "createPermAuthKey lib Prime opt ready k s =
     (case runExchange lib Prime opt ready ExchangeModePermanent 0 s of
        (Inl err, s) \<Rightarrow> (Some err, k, s)
      | (Inr r, s) \<Rightarrow>
         (case x_now s of (now, s) \<Rightarrow>
          (None, k\<lparr>k_permKey := cr_AuthKey r, k_permKeyCreatedAt := (case now of Inl _ \<Rightarrow> 0 | Inr t \<Rightarrow> time_Unix t)\<rparr>, s)))"

definition createTempAuthKey :: "cipher_lib \<Rightarrow> (nat \<Rightarrow> bool) \<Rightarrow> key_opts \<Rightarrow> bool \<Rightarrow> key_step" where
  "createTempAuthKey lib Prime opt ready k s =
     (case runExchange lib Prime opt ready ExchangeModeTemporary (o_tempKeyTTL opt) s of
        (Inl err, s) \<Rightarrow> (Some err, k, s)
      | (Inr r, s) \<Rightarrow>
         (let (expiresAt, s) =
                (if cr_ExpiresAt r = 0
                 then (case x_now s of (now, s) \<Rightarrow> ((case now of Inl _ \<Rightarrow> 0 | Inr t \<Rightarrow> time_Unix t + o_tempKeyTTL opt), s))
                 else (cr_ExpiresAt r, s))
          in (None, k\<lparr>k_authKey := cr_AuthKey r, k_conn := (k_conn k)\<lparr>c_sessionID := cr_SessionID r, c_salt := cr_ServerSalt r\<rparr>,
                k_tempKeyExpiry := expiresAt\<rparr>, s)))"

definition connectPFS :: "cipher_lib \<Rightarrow> (nat \<Rightarrow> bool) \<Rightarrow> key_opts \<Rightarrow> bool \<Rightarrow> key_step" where
  "connectPFS lib Prime opt ready k s =
     (case (if AuthKey_Zero (k_permKey k) then createPermAuthKey lib Prime opt ready k s else (None, k, s)) of
        (Some err, k, s) \<Rightarrow> (Some (Wrap ''create permanent auth key'' err), k, s)
      | (None, k, s) \<Rightarrow>
         (case createTempAuthKey lib Prime opt ready k s of
            (Some err, k, s) \<Rightarrow> (Some (Wrap ''create temporary auth key'' err), k, s)
          | (None, k, s) \<Rightarrow> (None, k, s)))"

text \<open>
  \<open>connect\<close>: \<open>dialErr\<close> is the error of the dialer, \<open>closeErr\<close> that of closing the
  connection, which happens when connecting fails. The exchanges run on \<open>s\<close>, whose random
  source is the connection's.
\<close>

definition conn_connect ::
  "cipher_lib \<Rightarrow> (nat \<Rightarrow> bool) \<Rightarrow> key_opts \<Rightarrow> env \<Rightarrow> go_error option \<Rightarrow> go_error option \<Rightarrow> key_step" where
  "conn_connect lib Prime opt ev dialErr closeErr k s =
     (case dialErr of
        Some err \<Rightarrow> (Some (Wrap ''dial failed'' err), k, s)
      | None \<Rightarrow>
         (case (if o_pfs opt then connectPFS lib Prime opt True k s
                else case conn_session ev k of (ses, k) \<Rightarrow>
                  if AuthKey_Zero (S_Key ses) then
                    (case createAuthKey lib Prime opt True k s of
                       (Some err, k, s) \<Rightarrow> (Some (Wrap ''create auth key'' err), k, s)
                     | (None, k, s) \<Rightarrow> (None, k, s))
                  else if S_ID ses = 0 then
                    (case newSessionID (x_rand s) k of (err, rand, k) \<Rightarrow> (err, k, s\<lparr>x_rand := rand\<rparr>))
                  else (None, k, s))
          of (None, k, s) \<Rightarrow> (None, k, s)
           | (Some err, k, s) \<Rightarrow>
              (Some (case closeErr of None \<Rightarrow> err | Some e \<Rightarrow> Multi err e), k, s)))"

section \<open>pfs.go\<close>

definition ErrPFSReconnectRequired :: go_error where
  "ErrPFSReconnectRequired = Errorf ''pfs reconnect required'' []"

definition ErrPFSDropKeysRequired :: go_error where
  "ErrPFSDropKeysRequired = Errorf ''pfs drop keys required'' []"

text \<open>
  How long \<open>tempKeyRenewalLoop\<close> waits, in nanoseconds, with the clock read at \<open>now1\<close> and
  \<open>now2\<close>: a quarter of the lifetime before the key expires. \<open>Time.Sub\<close> saturates, which
  these times do not reach.
\<close>

definition renewal_wait :: "key_opts \<Rightarrow> int \<Rightarrow> int \<Rightarrow> KConn \<Rightarrow> int" where
  "renewal_wait opt now1 now2 k =
     (let expiresAt = k_tempKeyExpiry k;
          expiresAt = (if expiresAt = 0 then time_Unix now1 + o_tempKeyTTL opt else expiresAt);
          renewAt = expiresAt - o_tempKeyTTL opt sdiv 4;
          wait = renewAt * 1000000000 - now2
      in if wait < 0 then 0 else wait)"

text \<open>
  The loop up to the time \<open>now3\<close>: nothing while it waits, and what it returns once the timer
  fires or the context is done (with \<open>ctxErr\<close>).
\<close>

definition tempKeyRenewalLoop :: "key_opts \<Rightarrow> int \<Rightarrow> int \<Rightarrow> int \<Rightarrow> KConn \<Rightarrow> go_error option \<Rightarrow> go_error option" where
  "tempKeyRenewalLoop opt now1 now2 now3 k ctxErr =
     (if \<not> o_pfs opt then ctxErr
      else case ctxErr of
             Some e \<Rightarrow> Some e
           | None \<Rightarrow>
              if now3 - now2 \<ge> renewal_wait opt now1 now2 k
              then Some (Wrap ''temporary auth key renewal required'' ErrPFSReconnectRequired) else None)"

section \<open>bind.go\<close>

definition maxBindTempAuthKeyAttempts :: nat where "maxBindTempAuthKeyAttempts = 3"

definition ErrEncryptedMessageInvalid :: bytes where
  "ErrEncryptedMessageInvalid = ascii ''ENCRYPTED_MESSAGE_INVALID''"

text \<open>The request \<open>auth.bindTempAuthKey\<close> with its message identifier and sequence number.\<close>

record bind_call =
  bc_MsgID :: "64 word"
  bc_SeqNo :: "32 word"
  bc_PermAuthKeyID :: "64 word"
  bc_Nonce :: "64 word"
  bc_ExpiresAt :: int
  bc_EncryptedMessage :: bytes

text \<open>
  The environment of one attempt: the clock, and what the first and the second call of
  \<open>rpc.Do\<close> return, the error or whether the decoded answer is \<open>boolTrue\<close>.
\<close>

record bind_env =
  be_env :: env
  be_do1 :: "go_error + bool"
  be_do2 :: "go_error + bool"

text \<open>\<open>errors.As\<close> for a bad message error with the code of a wrong salt: the salt to use.\<close>

definition incorrect_salt :: "go_error \<Rightarrow> 64 word option" where
  "incorrect_salt err =
     (case root_error err of
        BadMessageError code newSalt \<Rightarrow> if code = codeIncorrectServerSalt then Some newSalt else None
      | _ \<Rightarrow> None)"

definition bind_answer :: "go_error + bool \<Rightarrow> go_error option" where
  "bind_answer r =
     (case r of
        Inl err \<Rightarrow> Some (Wrap ''invoke auth.bindTempAuthKey'' err)
      | Inr ok \<Rightarrow> if ok then None else Some (Errorf ''temp auth key bind rejected'' []))"

definition bindTempAuthKeyAttempt ::
  "cipher_lib \<Rightarrow> key_opts \<Rightarrow> bind_env \<Rightarrow> bytes \<Rightarrow> KConn \<Rightarrow> go_error option \<times> bind_call list \<times> bytes \<times> KConn" where
  "bindTempAuthKeyAttempt lib opt be rand k =
     (case conn_session (be_env be) k of (s, k) \<Rightarrow>
      if AuthKey_Zero (S_Key s) then (Some (Errorf ''temporary key is zero'' []), [], rand, k)
      else if AuthKey_Zero (S_PermKey s) then (Some (Errorf ''permanent key is zero'' []), [], rand, k)
      else if S_ID s = 0 then (Some (Errorf ''temporary session id is zero'' []), [], rand, k)
      else
        let expiresAt = k_tempKeyExpiry k;
            expiresAt = (if expiresAt = 0 then time_Unix (clock (be_env be)) + o_tempKeyTTL opt else expiresAt)
        in case RandInt64 rand of
             (Inl err, rand) \<Rightarrow> (Some (Wrap ''generate nonce'' err), [], rand, k)
           | (Inr nonce, rand) \<Rightarrow>
              let inner = \<lparr>BK_Nonce = nonce, TempAuthKeyID = IntID (S_Key s), PermAuthKeyID = IntID (S_PermKey s),
                           TempSessionID = S_ID s, ExpiresAt = expiresAt\<rparr>;
                  ((msgID, seqNo), c) = nextMsgSeq (clock (be_env be)) True (k_conn k);
                  k = k\<lparr>k_conn := c\<rparr>
              in case EncryptBindMessage lib rand (S_PermKey s) msgID inner of
                   (Inl err, rand) \<Rightarrow> (Some (Wrap ''encrypt bind message'' err), [], rand, k)
                 | (Inr encryptedMessage, rand) \<Rightarrow>
                    let call = \<lparr>bc_MsgID = msgID, bc_SeqNo = seqNo, bc_PermAuthKeyID = IntID (S_PermKey s), bc_Nonce = nonce,
                                bc_ExpiresAt = expiresAt, bc_EncryptedMessage = encryptedMessage\<rparr>
                    in case be_do1 be of
                         Inr ok \<Rightarrow> (bind_answer (Inr ok), [call], rand, k)
                       | Inl err \<Rightarrow>
                          (case incorrect_salt err of
                             Some newSalt \<Rightarrow>
                               (bind_answer (be_do2 be), [call, call], rand,
                                k\<lparr>k_conn := (storeSalt newSalt (k_conn k))\<lparr>c_salts := Salts_Reset (c_salts (k_conn k))\<rparr>\<rparr>)
                           | None \<Rightarrow> (bind_answer (Inl err), [call], rand, k)))"

definition permKeyAgeKnown :: "KConn \<Rightarrow> bool" where
  "permKeyAgeKnown k \<longleftrightarrow> k_permKeyCreatedAt k \<noteq> 0"

definition permKeyOlderThan60s :: "int \<Rightarrow> KConn \<Rightarrow> bool" where
  "permKeyOlderThan60s now k \<longleftrightarrow> k_permKeyCreatedAt k \<noteq> 0 \<and> time_Unix now - k_permKeyCreatedAt k > 60"

definition dropPFSKeys :: "KConn \<Rightarrow> KConn" where
  "dropPFSKeys k =
     k\<lparr>k_authKey := zero_key, k_permKey := zero_key, k_permKeyCreatedAt := 0,
       k_conn := (k_conn k)\<lparr>c_salt := 0, c_sessionID := 0\<rparr>, k_tempKeyExpiry := 0\<rparr>"

definition handleBindEncryptedMessageInvalid :: "int \<Rightarrow> nat \<Rightarrow> KConn \<Rightarrow> go_error option \<times> KConn" where
  "handleBindEncryptedMessageInvalid now attempt k =
     (if permKeyOlderThan60s now k then
        (Some (Wrap ''pfs keys dropped after ENCRYPTED_MESSAGE_INVALID'' ErrPFSDropKeysRequired), dropPFSKeys k)
      else if \<not> permKeyAgeKnown k then
        (if attempt \<ge> maxBindTempAuthKeyAttempts then
           (Some (Wrap ''pfs keys dropped after repeated ENCRYPTED_MESSAGE_INVALID with unknown key age'' ErrPFSDropKeysRequired), dropPFSKeys k)
         else (None, k))
      else (None, k))"

definition handleBindConnectionNotInited :: "nat \<Rightarrow> go_error option" where
  "handleBindConnectionNotInited attempt =
     (if attempt < maxBindTempAuthKeyAttempts then None
      else Some (Errorf ''auth.bindTempAuthKey failed with CONNECTION_NOT_INITED after retries'' []))"

text \<open>
  The loop of \<open>bindTempAuthKey\<close> with \<open>left\<close> rounds to go, where the attempt is number
  \<open>maxBindTempAuthKeyAttempts + 1 - left\<close>.
\<close>

primrec bind_loop ::
  "nat \<Rightarrow> cipher_lib \<Rightarrow> key_opts \<Rightarrow> (nat \<Rightarrow> bind_env) \<Rightarrow> go_error option \<Rightarrow> bind_call list \<Rightarrow> bytes \<Rightarrow> KConn \<Rightarrow>
   go_error option \<times> bind_call list \<times> bytes \<times> KConn" where
  "bind_loop 0 lib opt be lastErr calls rand k =
     (map_option (Wrap ''temporary auth key bind retry limit reached'') lastErr, calls, rand, k)"
| "bind_loop (Suc left) lib opt be lastErr calls rand k =
     (let attempt = maxBindTempAuthKeyAttempts - left in
      case bindTempAuthKeyAttempt lib opt (be attempt) rand k of
        (None, cs, rand, k) \<Rightarrow> (None, calls @ cs, rand, k)
      | (Some err, cs, rand, k) \<Rightarrow>
         if Is err [ErrEncryptedMessageInvalid] then
           (case handleBindEncryptedMessageInvalid (clock (be_env (be attempt))) attempt k of
              (Some e, k) \<Rightarrow> (Some e, calls @ cs, rand, k)
            | (None, k) \<Rightarrow> bind_loop left lib opt be (Some err) (calls @ cs) rand k)
         else if Is err [ascii ''CONNECTION_NOT_INITED''] then
           (case handleBindConnectionNotInited attempt of
              Some e \<Rightarrow> (Some e, calls @ cs, rand, k)
            | None \<Rightarrow> bind_loop left lib opt be (Some err) (calls @ cs) rand k)
         else (Some err, calls @ cs, rand, k))"

definition bindTempAuthKey ::
  "cipher_lib \<Rightarrow> key_opts \<Rightarrow> (nat \<Rightarrow> bind_env) \<Rightarrow> bytes \<Rightarrow> KConn \<Rightarrow> go_error option \<times> bind_call list \<times> bytes \<times> KConn" where
  "bindTempAuthKey lib opt be rand k = bind_loop maxBindTempAuthKeyAttempts lib opt be None [] rand k"

section \<open>Lemmas\<close>

lemma conn_session_eq:
  "conn_session ev k = (\<lparr>S_ID = c_sessionID (k_conn k), S_Key = k_authKey k, S_Salt = c_salt (updateSalt ev (k_conn k)), S_PermKey = k_permKey k\<rparr>,
     k\<lparr>k_conn := updateSalt ev (k_conn k)\<rparr>)"
  by (simp add: conn_session_def session_def Let_def)

text \<open>What an attempt leaves of the keys.\<close>

definition same_keys :: "KConn \<Rightarrow> KConn \<Rightarrow> bool" where
  "same_keys k k' \<longleftrightarrow> k_authKey k' = k_authKey k \<and> k_permKey k' = k_permKey k \<and> k_permKeyCreatedAt k' = k_permKeyCreatedAt k
     \<and> k_tempKeyExpiry k' = k_tempKeyExpiry k \<and> c_sessionID (k_conn k') = c_sessionID (k_conn k)"

lemma same_keys_refl [simp]: "same_keys k k"
  by (simp add: same_keys_def)

lemma same_keys_trans: "same_keys k k1 \<Longrightarrow> same_keys k1 k2 \<Longrightarrow> same_keys k k2"
  by (simp add: same_keys_def)

lemma nextMsgSeq_sessionID: "nextMsgSeq now content c = (r, c') \<Longrightarrow> c_sessionID c' = c_sessionID c"
  by (auto simp: nextMsgSeq_def Let_def split: prod.splits if_splits)

text \<open>The requests of an attempt: the same one, at most twice, about the keys of the connection.\<close>

definition binds :: "cipher_lib \<Rightarrow> AuthKey \<Rightarrow> 64 word \<Rightarrow> BindAuthKeyInner \<Rightarrow> bytes \<Rightarrow> bool" where
  "binds lib permKey msgID inner m \<longleftrightarrow> (\<exists>rand rand'. EncryptBindMessage lib rand permKey msgID inner = (Inr m, rand'))"

lemma bindsI: "EncryptBindMessage lib rand permKey msgID inner = (Inr m, rand') \<Longrightarrow> binds lib permKey msgID inner m"
  by (auto simp: binds_def)

definition call_for :: "cipher_lib \<Rightarrow> KConn \<Rightarrow> bind_call \<Rightarrow> bool" where
  "call_for lib k call \<longleftrightarrow> bc_PermAuthKeyID call = IntID (k_permKey k)
     \<and> binds lib (k_permKey k) (bc_MsgID call)
          \<lparr>BK_Nonce = bc_Nonce call, TempAuthKeyID = IntID (k_authKey k), PermAuthKeyID = IntID (k_permKey k),
           TempSessionID = c_sessionID (k_conn k), ExpiresAt = bc_ExpiresAt call\<rparr> (bc_EncryptedMessage call)"

lemma call_for_same: "same_keys k k' \<Longrightarrow> call_for lib k' c = call_for lib k c"
  by (simp add: same_keys_def call_for_def)

lemma bindTempAuthKeyAttempt_result:
  assumes "bindTempAuthKeyAttempt lib opt be rand k = (err, calls, rand', k')"
  shows "same_keys k k'" "length calls \<le> 2" "\<forall>call\<in>set calls. call_for lib k call"
    "err = None \<Longrightarrow> be_do1 be = Inr True \<or> be_do2 be = Inr True"
  using assms
  by (auto simp: bindTempAuthKeyAttempt_def conn_session_eq Let_def same_keys_def storeSalt_def call_for_def nextMsgSeq_sessionID bind_answer_def
      intro: bindsI split: if_splits sum.splits prod.splits option.splits)

lemma Is_Wrap [simp]: "Is (Wrap s e) tt = Is e tt"
  by (simp add: Is_def)

lemma Is_Errorf [simp]: "\<not> Is (Errorf s xs) tt"
  by (simp add: Is_def)

lemma RandInt64_error: "RandInt64 rand = (Inl err, rand') \<Longrightarrow> \<not> Is err tt"
  by (auto simp: RandInt64_def io_ReadFull_def Is_def Buffer_Long_def Buffer_Uint64_def dec_bind_def split: prod.splits option.splits if_splits)

lemma EncryptBindMessage_error: "EncryptBindMessage lib rand permKey msgID inner = (Inl err, rand') \<Longrightarrow> \<not> Is err tt"
  by (auto simp: EncryptBindMessage_def io_ReadFull_def Is_def aes_NewCipher_def Let_def split: prod.splits option.splits if_splits)

text \<open>An error of the API that an attempt reports is one of its requests'.\<close>

definition answered :: "bind_env \<Rightarrow> bytes list \<Rightarrow> bool" where
  "answered be tt \<longleftrightarrow> (\<exists>e. (be_do1 be = Inl e \<or> be_do2 be = Inl e) \<and> Is e tt)"

lemma bindTempAuthKeyAttempt_answered:
  assumes "bindTempAuthKeyAttempt lib opt be rand k = (Some err, calls, rand', k')" "Is err tt"
  shows "answered be tt"
  using assms
  by (auto simp: bindTempAuthKeyAttempt_def conn_session_eq Let_def bind_answer_def answered_def
      dest: RandInt64_error EncryptBindMessage_error split: if_splits sum.splits prod.splits option.splits)

text \<open>The keys are dropped, or they are kept.\<close>

definition drops :: "(nat \<Rightarrow> bind_env) \<Rightarrow> KConn \<Rightarrow> go_error option \<Rightarrow> KConn \<Rightarrow> bool" where
  "drops be k err k' \<longleftrightarrow> (\<exists>e k1 i. err = Some e \<and> root_error e = ErrPFSDropKeysRequired \<and> same_keys k k1 \<and> k' = dropPFSKeys k1
     \<and> i \<le> maxBindTempAuthKeyAttempts \<and> answered (be i) [ErrEncryptedMessageInvalid]
     \<and> (permKeyOlderThan60s (clock (be_env (be i))) k \<or> k_permKeyCreatedAt k = 0 \<and> i = maxBindTempAuthKeyAttempts))"

lemma same_keys_age:
  "same_keys k k1 \<Longrightarrow> permKeyOlderThan60s now k1 = permKeyOlderThan60s now k"
  "same_keys k k1 \<Longrightarrow> k_permKeyCreatedAt k1 = k_permKeyCreatedAt k"
  by (simp_all add: same_keys_def permKeyOlderThan60s_def)

lemma dropsI:
  assumes "answered (be i) [ErrEncryptedMessageInvalid]" "i \<le> maxBindTempAuthKeyAttempts" "same_keys k k1"
    "handleBindEncryptedMessageInvalid (clock (be_env (be i))) i k1 = (Some e, k')"
  shows "drops be k (Some e) k'"
  using assms(1-4) same_keys_age[OF assms(3)] unfolding drops_def
  by (intro exI[of _ e] exI[of _ k1] exI[of _ i])
    (auto simp: handleBindEncryptedMessageInvalid_def permKeyAgeKnown_def ErrPFSDropKeysRequired_def split: if_splits)

lemma drops_same: "same_keys k k1 \<Longrightarrow> drops be k1 err k' \<Longrightarrow> drops be k err k'"
  unfolding drops_def using same_keys_trans[of k k1] by (fastforce simp: same_keys_age)

lemma handleInvalid_keeps: "handleBindEncryptedMessageInvalid now i k = (None, k') \<Longrightarrow> k' = k"
  by (auto simp: handleBindEncryptedMessageInvalid_def split: if_splits)

lemma bind_loop_result:
  assumes "bind_loop n lib opt be lastErr calls rand k = (err, calls', rand', k')" "n \<le> maxBindTempAuthKeyAttempts" "n = 0 \<longrightarrow> lastErr \<noteq> None"
  shows "(\<exists>cs. calls' = calls @ cs \<and> length cs \<le> 2 * n \<and> (\<forall>call\<in>set cs. call_for lib k call))
    \<and> (same_keys k k' \<or> drops be k err k')
    \<and> (err = None \<longrightarrow> (\<exists>i. be_do1 (be i) = Inr True \<or> be_do2 (be i) = Inr True))"
  using assms
proof (induction n arbitrary: lastErr calls rand k)
  case 0
  then show ?case by auto
next
  case (Suc n)
  let ?i = "maxBindTempAuthKeyAttempts - n"
  obtain e cs r1 k1 where at: "bindTempAuthKeyAttempt lib opt (be ?i) rand k = (e, cs, r1, k1)" by (metis prod_cases4)
  note a = bindTempAuthKeyAttempt_result[OF at]
  have stop: ?case if "err = e'" "calls' = calls @ cs" "same_keys k k' \<or> drops be k err k'"
      "err = None \<longrightarrow> (\<exists>i. be_do1 (be i) = Inr True \<or> be_do2 (be i) = Inr True)" for e'
    using that a(2,3) by (auto intro: exI[of _ cs])
  have go: ?case if b: "bind_loop n lib opt be (Some e') (calls @ cs) r1 k1 = (err, calls', rand', k')" for e'
  proof -
    from Suc.IH[OF b] Suc.prems(2) obtain cs' where cs': "calls' = (calls @ cs) @ cs'" "length cs' \<le> 2 * n" "\<forall>call\<in>set cs'. call_for lib k1 call"
      and r: "same_keys k1 k' \<or> drops be k1 err k'" "err = None \<longrightarrow> (\<exists>i. be_do1 (be i) = Inr True \<or> be_do2 (be i) = Inr True)" by auto
    have "same_keys k k' \<or> drops be k err k'" using r(1) a(1) same_keys_trans drops_same by blast
    moreover have "\<exists>cs. calls' = calls @ cs \<and> length cs \<le> 2 * Suc n \<and> (\<forall>call\<in>set cs. call_for lib k call)"
      using cs' a(2,3) call_for_same[OF a(1), of lib] by (intro exI[of _ "cs @ cs'"]) auto
    ultimately show ?thesis using r(2) by blast
  qed
  show ?case
  proof (cases e)
    case None
    with Suc.prems(1) at have "err = None" "calls' = calls @ cs" "k' = k1" by (simp_all add: Let_def)
    then show ?thesis using a(1) a(4)[OF None] by (intro stop[of None]) auto
  next
    case (Some er)
    note at' = at[unfolded Some]
    show ?thesis
    proof (cases "Is er [ErrEncryptedMessageInvalid]")
      case True
      obtain x k2 where h: "handleBindEncryptedMessageInvalid (clock (be_env (be ?i))) ?i k1 = (x, k2)" by fastforce
      show ?thesis
      proof (cases x)
        case None
        then show ?thesis using Suc.prems(1) at' True h handleInvalid_keeps[OF h[unfolded None]] by (intro go[of er]) (simp add: Let_def)
      next
        case (Some y)
        then have "err = Some y" "calls' = calls @ cs" "k' = k2" using Suc.prems(1) at' True h by (simp_all add: Let_def)
        then show ?thesis
          using dropsI[where be = be and i = ?i, OF bindTempAuthKeyAttempt_answered[OF at' True] _ a(1), of y k2] h Some
          by (intro stop[of "Some y"]) auto
      qed
    next
      case False
      obtain h where h: "handleBindConnectionNotInited ?i = h" by simp
      have "bind_loop n lib opt be (Some er) (calls @ cs) r1 k1 = (err, calls', rand', k') \<or> err \<noteq> None \<and> calls' = calls @ cs \<and> k' = k1"
        using Suc.prems(1) at' False h by (cases h; cases "Is er [ascii ''CONNECTION_NOT_INITED'']") (auto simp: Let_def)
      then show ?thesis using go[of er] stop[of err] a(1) by blast
    qed
  qed
qed

section \<open>The theorems\<close>

text \<open>
  C25. The binding of the temporary key. Whatever the server answers and however often, at most six
  requests are sent, each carries a message encrypted under the permanent key that names the
  identifiers of both keys and of the session. Success is reported only if the server answered
  true. The keys stay as they are, or all of them are dropped; they are dropped only after
  the server refused the message, and then only if the permanent key is known to be older than
  a minute or, when its age is unknown, with the last attempt.
\<close>

theorem bindTempAuthKey_policy:
  assumes "bindTempAuthKey lib opt be rand k = (err, calls, rand', k')"
  shows "length calls \<le> 2 * maxBindTempAuthKeyAttempts \<and> (\<forall>call\<in>set calls. call_for lib k call)
    \<and> (err = None \<longrightarrow> (\<exists>i. be_do1 (be i) = Inr True \<or> be_do2 (be i) = Inr True))
    \<and> (same_keys k k' \<or> drops be k err k')"
  using bind_loop_result[OF assms[unfolded bindTempAuthKey_def]] by (auto simp: maxBindTempAuthKeyAttempts_def)

text \<open>A permanent key made at 1000, a server that answers true.\<close>

definition example_kconn :: KConn where
  "example_kconn = \<lparr>k_conn = example_conn, k_authKey = example_key, k_permKey = example_key, k_permKeyCreatedAt = 1000, k_tempKeyExpiry = 2000\<rparr>"

definition example_bind :: "go_error + bool \<Rightarrow> bind_env" where
  "example_bind r = \<lparr>be_env = example_env, be_do1 = r, be_do2 = r\<rparr>"

definition example_key_opts :: key_opts where
  "example_key_opts = \<lparr>o_dcID = 2, o_rsaPublicKeys = [], o_pfs = True, o_tempKeyTTL = 86400\<rparr>"

theorem bindTempAuthKey_policy_witness:
  "\<exists>err calls rand' k'. bindTempAuthKey copy_cipher example_key_opts (\<lambda>_. example_bind (Inr False)) [] example_kconn = (err, calls, rand', k')
     \<and> err \<noteq> None \<and> same_keys example_kconn k'"
proof -
  let ?be = "\<lambda>_ :: nat. example_bind (Inr False)"
  obtain err calls rand' k' where r: "bindTempAuthKey copy_cipher example_key_opts ?be [] example_kconn = (err, calls, rand', k')"
    by (metis prod_cases4)
  have "\<not> drops ?be example_kconn err k'" by (simp add: drops_def answered_def example_bind_def)
  with bindTempAuthKey_policy[OF r] have "err \<noteq> None" "same_keys example_kconn k'" by (auto simp: example_bind_def)
  with r show ?thesis by blast
qed

text \<open>
  A new key keeps the old salts. The exchange yields the salt of the new key, but the salts
  fetched for the old key stay in the list, and the next use of the session takes one of them
  if it is still valid.
\<close>

theorem createAuthKey_stale_salt:
  assumes "createAuthKey lib Prime opt ready k s = (None, k', s')"
    and "Salts_Get (salt_deadline ev) (c_salts (k_conn k)) = (Some old, ss)"
  shows "S_Salt (fst (conn_session ev k')) = old"
  using assms
  by (auto simp: createAuthKey_def conn_session_eq updateSalt_def storeSalt_def split: prod.splits sum.splits)

text \<open>
  The renewal comes in time: while a temporary key with at least four seconds of life is in use,
  the loop asks for a new connection a quarter of the lifetime before the key expires, and at
  once when that time has passed.
\<close>

theorem tempKeyRenewal_before_expiry:
  assumes "o_pfs opt" "k_tempKeyExpiry k \<noteq> 0" "4 \<le> o_tempKeyTTL opt" "now2 \<le> now3"
    and "tempKeyRenewalLoop opt now1 now2 now3 k None = None"
  shows "now3 + 1000000000 \<le> k_tempKeyExpiry k * 1000000000"
proof -
  have "1 \<le> o_tempKeyTTL opt sdiv 4" using assms(3) by (simp add: signed_divide_int_def)
  moreover have "now3 < (k_tempKeyExpiry k - o_tempKeyTTL opt sdiv 4) * 1000000000"
    using assms by (auto simp: tempKeyRenewalLoop_def renewal_wait_def Let_def split: if_splits)
  moreover obtain d where "d = o_tempKeyTTL opt sdiv 4" by simp
  ultimately show ?thesis by (simp add: left_diff_distrib)
qed

theorem tempKeyRenewal_before_expiry_witness:
  "tempKeyRenewalLoop example_key_opts 0 0 0 (example_kconn\<lparr>k_tempKeyExpiry := 90000\<rparr>) None = None
     \<and> 1000000000 \<le> (90000 :: int) * 1000000000"
  using tempKeyRenewal_before_expiry[of example_key_opts "example_kconn\<lparr>k_tempKeyExpiry := 90000\<rparr>" 0 0 0]
  by (simp add: example_key_opts_def tempKeyRenewalLoop_def renewal_wait_def Let_def signed_divide_int_def)

end
