(* ===== verification/Conn_Wire.thy ===== *)
theory Conn_Wire
  imports Conn_Keys Transport
begin

text \<open>
  Package \<open>mtproto\<close>, the connection on the wire: outgoing messages are put together with the
  session's data, encrypted and sent (\<open>new_encrypted_msg.go\<close>, \<open>write.go\<close>), incoming packets
  are received, decrypted and consumed by the read loop (\<open>read.go\<close>). Here the connection meets
  the cipher of package \<open>crypto\<close> and the framings of package \<open>transport\<close>. The read loop starts
  a goroutine for every packet; the model runs each to its end before the next packet is
  received, one of the schedules of the code.
\<close>

section \<open>new\_encrypted\_msg.go, write.go\<close>

text \<open>\<open>key\<close> is the session's key, \<open>rand\<close> the random source of the cipher; the size in the last branch fits an \<open>int32\<close>.\<close>

definition newEncryptedMessage ::
  "env \<Rightarrow> cipher_lib \<Rightarrow> int \<Rightarrow> AuthKey \<Rightarrow> 64 word \<Rightarrow> 32 word \<Rightarrow> encoder \<Rightarrow> bytes \<Rightarrow> Conn \<Rightarrow> ((go_error + buffer) \<times> bytes) \<times> Conn" where
  "newEncryptedMessage ev lib compressThreshold key id' seq payload rand c =
     (let ((sid, salt), c) = session ev c;
          d = \<lparr>EMD_Salt = salt, EMD_SessionID = sid, EMD_MessageID = id', EMD_SeqNo = seq, MessageDataLen = 0,
               MessageDataWithPadding = [], EMD_Message = None\<rparr>
      in case (if compressThreshold \<le> 0 then Inr (d\<lparr>EMD_Message := Some payload\<rparr>)
               else case payload [] of
                      (Some err, _) \<Rightarrow> Inl (Wrap ''encode payload'' err)
                    | (None, payloadBuf) \<Rightarrow>
                       if int (length payloadBuf) > compressThreshold
                       then Inr (d\<lparr>EMD_Message := Some (GZIP_Encode (gz ev) payloadBuf)\<rparr>)
                       else Inr (d\<lparr>MessageDataLen := word_of_int (int (length payloadBuf)), MessageDataWithPadding := payloadBuf\<rparr>))
         of Inl err \<Rightarrow> ((Inl err, rand), c)
          | Inr d \<Rightarrow>
             (case Cipher_Encrypt lib Client key d rand of
                (Inl err, rand) \<Rightarrow> ((Inl (Wrap ''encrypt'' err), rand), c)
              | (Inr b, rand) \<Rightarrow> ((Inr b, rand), c)))"

text \<open>\<open>tconn\<close> is the codec of the transport connection, if there is one, \<open>rnd\<close> its random bytes.\<close>

definition conn_write ::
  "env \<Rightarrow> cipher_lib \<Rightarrow> int \<Rightarrow> AuthKey \<Rightarrow> codec option \<Rightarrow> bytes \<Rightarrow> 64 word \<Rightarrow> 32 word \<Rightarrow> encoder \<Rightarrow> bytes \<Rightarrow> writer \<Rightarrow> Conn \<Rightarrow>
   go_error option \<times> codec option \<times> writer \<times> bytes \<times> Conn" where
  "conn_write ev lib compressThreshold key tconn rnd msgID seqNo message rand w c =
     (case newEncryptedMessage ev lib compressThreshold key msgID seqNo message rand c of
        ((Inl err, rand), c) \<Rightarrow> (Some err, tconn, w, rand, c)
      | ((Inr b, rand), c) \<Rightarrow>
         (case tconn of
            None \<Rightarrow> (Some ErrTransportNotReady, None, w, rand, c)
          | Some cdc \<Rightarrow> (case Send None None rnd cdc w b of (err, cdc, w, _) \<Rightarrow> (err, Some cdc, w, rand, c))))"

definition writeServiceMessage ::
  "env \<Rightarrow> cipher_lib \<Rightarrow> int \<Rightarrow> AuthKey \<Rightarrow> codec option \<Rightarrow> bytes \<Rightarrow> int \<Rightarrow> encoder \<Rightarrow> bytes \<Rightarrow> writer \<Rightarrow> Conn \<Rightarrow>
   go_error option \<times> codec option \<times> writer \<times> bytes \<times> Conn" where
  "writeServiceMessage ev lib compressThreshold key tconn rnd now message rand w c =
     (case nextMsgSeq now False c of ((msgID, seqNo), c) \<Rightarrow>
      conn_write ev lib compressThreshold key tconn rnd msgID seqNo message rand w c)"

section \<open>read.go\<close>

text \<open>What the connection's cipher makes of a packet; \<open>Data\<close> cuts the padding off.\<close>

definition packet_plain :: "cipher_lib \<Rightarrow> AuthKey \<Rightarrow> buffer \<Rightarrow> go_error + decrypted" where
  "packet_plain lib key buf =
     (case DecryptFromBuffer lib Client key buf of
        Inl err \<Rightarrow> Inl err
      | Inr msg \<Rightarrow>
         (case EncryptedMessageData_Data msg of
            Inl err \<Rightarrow> Inl err
          | Inr data \<Rightarrow> Inr \<lparr>D_SessionID = EMD_SessionID msg, D_MessageID = EMD_MessageID msg, D_SeqNo = EMD_SeqNo msg, D_Data = data\<rparr>))"

text \<open>The key exchange that replaces a lost key runs on the same connection, on \<open>s\<close>.\<close>

definition handleAuthKeyNotFound :: "cipher_lib \<Rightarrow> (nat \<Rightarrow> bool) \<Rightarrow> key_opts \<Rightarrow> env \<Rightarrow> key_step" where
  "handleAuthKeyNotFound lib Prime opt ev k s =
     (case conn_session ev k of (_, k) \<Rightarrow>
      if o_pfs opt then (Some (Wrap ''temporary auth key not found in pfs mode'' ErrPFSReconnectRequired), k, s)
      else case createAuthKey lib Prime opt True k s of
             (Some err, k, s) \<Rightarrow> (Some (Wrap ''unable to create auth key'' err), k, s)
           | (None, k, s) \<Rightarrow> (None, k, s))"

text \<open>
  One round of the loop: a packet, with the error of the context if it ends before the ack
  loop takes the identifier; or an error of \<open>Recv\<close>, with whether it is a timeout of the
  network, the error of the context if it is done at the first and at the second look, and
  what a key exchange in this round runs on.
\<close>

datatype recv_event = Received buffer "go_error option" | Failed go_error bool "go_error option" "go_error option" xio

text \<open>
  The loop over the rounds that happen. The result is the error the loop ends with, if it
  ends; \<open>None\<close> as a whole when the nesting of a message exceeds the bound of \<open>handleMessage\<close>.
\<close>

primrec read_rounds ::
  "nat \<Rightarrow> env \<Rightarrow> cipher_lib \<Rightarrow> (nat \<Rightarrow> bool) \<Rightarrow> key_opts \<Rightarrow> recv_event list \<Rightarrow> go_error option \<Rightarrow> KConn \<Rightarrow>
   (go_error option \<times> KConn) option" where
  "read_rounds n ev lib Prime opt [] lastErr k = Some (map_option (Wrap ''halting'') lastErr, k)"
| "read_rounds n ev lib Prime opt (x # xs) lastErr k =
     (case lastErr of
        Some err \<Rightarrow> Some (Some (Wrap ''halting'' err), k)
      | None \<Rightarrow>
         (case x of
            Failed err timeout ctxErr ctxErr2 s \<Rightarrow>
              (case ctxErr of
                 Some e \<Rightarrow> Some (Some e, k)
               | None \<Rightarrow>
                  if timeout then read_rounds n ev lib Prime opt xs None k
                  else if root_error err = ProtocolErr CodeAuthKeyNotFound then
                    (case handleAuthKeyNotFound lib Prime opt ev k s of
                       (Some e, k, _) \<Rightarrow> Some (Some (Wrap ''auth key not found'' e), k)
                     | (None, k, _) \<Rightarrow> read_rounds n ev lib Prime opt xs None k)
                  else Some (Some (case ctxErr2 of Some e \<Rightarrow> Wrap ''read loop'' e | None \<Rightarrow> Wrap ''read'' err), k))
          | Received buf cancelled \<Rightarrow>
              (case consumeMessage n ev cancelled (packet_plain lib (k_authKey k) buf) (k_conn k) of
                 None \<Rightarrow> None
               | Some (err, c) \<Rightarrow> read_rounds n ev lib Prime opt xs (map_option (Wrap ''consume'') err) (k\<lparr>k_conn := c\<rparr>))))"

definition readLoop ::
  "nat \<Rightarrow> env \<Rightarrow> cipher_lib \<Rightarrow> (nat \<Rightarrow> bool) \<Rightarrow> key_opts \<Rightarrow> bool \<Rightarrow> recv_event list \<Rightarrow> KConn \<Rightarrow> (go_error option \<times> KConn) option" where
  "readLoop n ev lib Prime opt ready xs k =
     (if \<not> ready then Some (Some ErrTransportNotReady, k) else read_rounds n ev lib Prime opt xs None k)"

section \<open>Lemmas\<close>

text \<open>The size of an encrypted packet.\<close>

lemma Cipher_Encrypt_size:
  assumes "ige_inverts lib" "length rand \<ge> 268" "carries d m" "Cipher_Encrypt lib side k d rand = (Inr out, rand')" "length (AK_ID k) = 8"
  shows "4 dvd length out" "length m < length out" "length out \<le> length m + 323"
proof -
  define e where "e = d\<lparr>MessageDataLen := word_of_int (int (length m)), MessageDataWithPadding := m, EMD_Message := None\<rparr>"
  define p where "p = EncryptedMessageData_Encode e []"
  have lp: "length p = 32 + length m" by (simp add: p_def e_def EncryptedMessageData_Encode_def put_defs Word_def)
  have enc: "EncryptedMessageData_EncodeWithoutCopy d [] = (None, p)"
    using carries_encode[OF assms(3)] by (simp add: p_def e_def)
  obtain padding r' key iv where em: "encryptMessage lib side k rand p =
      (Inr \<lparr>EM_AuthKeyID = AK_ID k, EM_MsgKey = MessageKey (AK_Value k) (p @ padding) side,
            EncryptedData = ige_encrypt lib key iv (p @ padding)\<rparr>, r')"
    and pad: "length padding = countPadding (length p) (hd rand)"
    and ks: "Keys (AK_Value k) (MessageKey (AK_Value k) (p @ padding) side) side = (key, iv)"
    using encryptMessage_ok[of p rand lib side k] countPadding_bounds(2)[of "length p" "hd rand"] assms(2) by auto
  have blocks: "16 dvd length (p @ padding)" using countPadding_bounds(3) pad by simp
  then have "length (ige_encrypt lib key iv (p @ padding)) = length (p @ padding)"
    using assms(1) Keys_lengths[OF ks] unfolding ige_inverts_def by auto
  then have out: "length out = 24 + length (p @ padding)"
    using assms(4,5) enc em by (auto simp: Cipher_Encrypt_def EncryptedMessage_Encode_def put_defs)
  have "(4::nat) dvd 16" by simp
  then have "4 dvd length (p @ padding)" using blocks by (rule dvd_trans)
  then show "4 dvd length out" using out by simp
  show "length m < length out" "length out \<le> length m + 323"
    using out lp pad countPadding_bounds(1,2)[of "length p" "hd rand"] by simp_all
qed

lemma session_eq: "session ev c = ((c_sessionID c, c_salt (updateSalt ev c)), updateSalt ev c)"
  by (simp add: session_def Let_def)

text \<open>What a payload becomes on the wire: compressed above the threshold.\<close>

definition wire_body :: "env \<Rightarrow> int \<Rightarrow> bytes \<Rightarrow> bytes" where
  "wire_body ev thr m = (if 0 < thr \<and> thr < int (length m) then gzip_bytes (gz ev) m else m)"

lemma newEncryptedMessage_encrypts:
  assumes "appends payload m" "gzip_inflates (gz ev) m"
  shows "\<exists>d. carries d (wire_body ev thr m) \<and> EMD_Salt d = c_salt (updateSalt ev c) \<and> EMD_SessionID d = c_sessionID c
    \<and> EMD_MessageID d = id' \<and> EMD_SeqNo d = seq
    \<and> newEncryptedMessage ev lib thr key id' seq payload rand c =
       (case Cipher_Encrypt lib Client key d rand of
          (Inl err, rand) \<Rightarrow> ((Inl (Wrap ''encrypt'' err), rand), updateSalt ev c)
        | (Inr b, rand) \<Rightarrow> ((Inr b, rand), updateSalt ev c))"
proof -
  let ?d = "\<lparr>EMD_Salt = c_salt (updateSalt ev c), EMD_SessionID = c_sessionID c, EMD_MessageID = id', EMD_SeqNo = seq,
    MessageDataLen = 0, MessageDataWithPadding = [], EMD_Message = None\<rparr>"
  have pay: "payload [] = (None, m)" using assms(1) by (simp add: appends_def)
  have gz: "appends (GZIP_Encode (gz ev) m) (gzip_bytes (gz ev) m)" using GZIP_Encode_inflates[OF assms(2)] by (simp add: appends_def)
  consider "thr \<le> 0" | "0 < thr" "thr < int (length m)" | "0 < thr" "int (length m) \<le> thr" by linarith
  then show ?thesis
  proof cases
    case 1
    then show ?thesis using assms(1)
      by (intro exI[of _ "?d\<lparr>EMD_Message := Some payload\<rparr>"])
        (simp add: newEncryptedMessage_def session_eq carries_def wire_body_def Let_def)
  next
    case 2
    then show ?thesis using gz pay
      by (intro exI[of _ "?d\<lparr>EMD_Message := Some (GZIP_Encode (gz ev) m)\<rparr>"])
        (simp add: newEncryptedMessage_def session_eq carries_def wire_body_def Let_def)
  next
    case 3
    then show ?thesis using pay
      by (intro exI[of _ "?d\<lparr>MessageDataLen := word_of_int (int (length m)), MessageDataWithPadding := m\<rparr>"])
        (simp add: newEncryptedMessage_def session_eq carries_def wire_body_def Let_def)
  qed
qed

lemma packet_transportable:
  assumes "ige_inverts lib" "length rand \<ge> 268" "carries d m" "Cipher_Encrypt lib side k d rand = (Inr out, rand')" "length (AK_ID k) = 8"
    "length m \<le> 2 ^ 23" "4 \<le> length rnd" "0 < length m" "4 dvd length m"
  shows "transportable rnd out"
  using Cipher_Encrypt_size[OF assms(1-5)] assms(6-9) dvd_imp_le[OF assms(9,8)]
  by (auto simp: transportable_def aligned_payload_def MaxMessageSize_def)

text \<open>An acceptable packet is handed to the handler of its content.\<close>

lemma consumeMessage_acceptable:
  assumes "acceptable ev c msg"
  defines "c0 \<equiv> (updateSalt ev c)\<lparr>messageIDBuf := snd (MessageIDBuf_Consume (sint (D_MessageID msg)) (messageIDBuf c))\<rparr>"
  shows "consumeMessage n ev None (Inr msg) c =
    (case handleMessage n ev (D_Data msg) c0 of
       None \<Rightarrow> None
     | Some (_, c1) \<Rightarrow> Some (None, if D_SeqNo msg AND 1 \<noteq> 0 then emit (E_AckSend (D_MessageID msg)) c1 else c1))"
proof -
  have "decryptMessage ev (Inr msg) c = (Inr msg, c0)"
    using assms unfolding acceptable_def
    by (cases "MessageIDBuf_Consume (sint (D_MessageID msg)) (messageIDBuf c)") (simp add: decryptMessage_def session_eq)
  then show ?thesis by (auto simp: consumeMessage_def split: option.splits prod.splits)
qed

lemma handleMessage_result:
  assumes "b = le_bytes Word i @ w" "i \<noteq> RPCErrorTypeID" "i \<noteq> PongTypeID" "i \<noteq> GZIPTypeID"
  shows "handleMessage (Suc n) ev (Result_Encode \<lparr>RequestMessageID = req, Result_Result = b\<rparr> []) c
    = Some (notifyResult ev req b, emit (E_NotifyResult req b) c)"
proof (rule handleMessage_other_result[OF _ assms(1-3)])
  show "answers_with ev b b" using assms(1,4) by (simp add: answers_with_def PeekID_app)
qed

section \<open>A message on the wire\<close>

text \<open>Encrypting, framing, receiving and decrypting: the fields and the body arrive.\<close>

lemma packet_travels:
  assumes "ige_inverts lib" "length (AK_ID key) = 8" "length rand \<ge> 268"
    and "carries d m" "4 dvd length m" "0 < length m" "length m \<le> 2 ^ 23" and "4 \<le> length rnd" "codec_insync (Suc k) cdc cdc'"
  shows "\<exists>packet rand' msg cdc1 cdc1' frame. Cipher_Encrypt lib side key d rand = (Inr packet, rand')
    \<and> (\<forall>w. wbudget w = None \<longrightarrow> Send None None rnd cdc w packet = (None, cdc1, w\<lparr>written := written w @ frame\<rparr>, packet))
    \<and> (\<forall>rest b. Recv None None cp cdc' (frame @ rest) b = (None, cdc1', rest, packet)) \<and> codec_insync k cdc1 cdc1'
    \<and> DecryptFromBuffer lib (DecryptSide side) key packet = Inr msg
    \<and> EMD_Salt msg = EMD_Salt d \<and> EMD_SessionID msg = EMD_SessionID d \<and> EMD_MessageID msg = EMD_MessageID d
    \<and> EMD_SeqNo msg = EMD_SeqNo d \<and> EncryptedMessageData_Data msg = Inr m"
proof -
  have "length m < 2 ^ 31" using assms(7) by simp
  from Encrypt_Decrypt[OF assms(1-5) this, of side] obtain packet rand' msg where
    enc: "Cipher_Encrypt lib side key d rand = (Inr packet, rand')"
    and dec: "DecryptFromBuffer lib (DecryptSide side) key packet = Inr msg"
      "EMD_Salt msg = EMD_Salt d \<and> EMD_SessionID msg = EMD_SessionID d \<and> EMD_MessageID msg = EMD_MessageID d
       \<and> EMD_SeqNo msg = EMD_SeqNo d \<and> EncryptedMessageData_Data msg = Inr m" by blast
  have "transportable rnd packet" by (rule packet_transportable[OF assms(1,3,4) enc assms(2,7,8,6,5)])
  from any_conn.Write_Read[OF assms(9) this, where cp = cp] obtain cdc1 cdc1' frame where
    "\<forall>w. wbudget w = None \<longrightarrow> Send None None rnd cdc w packet = (None, cdc1, w\<lparr>written := written w @ frame\<rparr>, packet)"
    "\<forall>rest b. Recv None None cp cdc' (frame @ rest) b = (None, cdc1', rest, packet)" "codec_insync k cdc1 cdc1'" by blast
  with enc dec show ?thesis by blast
qed

lemma DecryptSide_Client: "DecryptSide Client = Server"
  by (simp add: DecryptSide_def Server_def Client_def)

lemma gzip_bytes_size: "4 dvd length (gzip_bytes lib m)" "0 < length (gzip_bytes lib m)" "length (gzip_bytes lib m) \<le> length (gw_out lib m) + 12"
proof -
  have l: "length (gzip_bytes lib m) =
      4 + nearestPaddedValueLength (length (gw_out lib m) + (if length (gw_out lib m) \<le> maxSmallStringLength then 1 else 4))"
    by (simp add: gzip_bytes_def Buffer_PutBytes_def length_encodeBytes put_defs Word_def)
  show "4 dvd length (gzip_bytes lib m)" "0 < length (gzip_bytes lib m)" "length (gzip_bytes lib m) \<le> length (gw_out lib m) + 12"
    unfolding l using nearestPaddedValueLength_less[of "length (gw_out lib m) + 1"] nearestPaddedValueLength_less[of "length (gw_out lib m) + 4"]
    by (auto simp: nearestPaddedValueLength_dvd)
qed

lemma wire_body_ok:
  fixes thr :: int
  assumes "gzip_inflates (gz ev) m" "4 dvd length m" "0 < length m" "length m \<le> 2 ^ 22" "length (gw_out (gz ev) m) \<le> 2 ^ 22"
  defines "body \<equiv> wire_body ev thr m"
  shows "4 dvd length body" "0 < length body" "length body \<le> 2 ^ 23"
    "if 0 < thr \<and> thr < int (length m) then GZIP_Decode (gz ev) [] body = (None, m, []) else body = m"
  using assms(2-5) gzip_bytes_size[where lib = "gz ev" and m = m] GZIP_Decode_inflates[OF assms(1), of "[]"]
  by (auto simp: body_def wire_body_def maxLongStringLength_def maxUncompressedSize_def)

text \<open>
  A request reaches the server. Whatever the framing of the connection, when the two ends are
  in step, \<open>write\<close> sends one frame from which the other end receives one packet; the server
  decrypts it with the same key and finds the session's identifier and current salt, the
  message identifier and sequence number, and the encoded request, compressed if and only if
  it is longer than the threshold.
\<close>

lemma conn_write_travels:
  assumes lib: "ige_inverts lib" "length (AK_ID key) = 8" "length rand \<ge> 268"
    and m: "appends payload m" "gzip_inflates (gz ev) m" "4 dvd length m" "0 < length m" "length m \<le> 2 ^ 22" "length (gw_out (gz ev) m) \<le> 2 ^ 22"
    and tr: "4 \<le> length rnd" "codec_insync (Suc k) cdc cdc'" "wbudget w = None"
  shows "\<exists>cdc1 cdc1' frame rand' packet msg body.
      conn_write ev lib thr key (Some cdc) rnd id' seq payload rand w c
        = (None, Some cdc1, w\<lparr>written := written w @ frame\<rparr>, rand', updateSalt ev c)
    \<and> (\<forall>rest b. Recv None None cp cdc' (frame @ rest) b = (None, cdc1', rest, packet)) \<and> codec_insync k cdc1 cdc1'
    \<and> DecryptFromBuffer lib Server key packet = Inr msg
    \<and> EMD_SessionID msg = c_sessionID c \<and> EMD_Salt msg = c_salt (updateSalt ev c) \<and> EMD_MessageID msg = id' \<and> EMD_SeqNo msg = seq
    \<and> EncryptedMessageData_Data msg = Inr body
    \<and> (if 0 < thr \<and> thr < int (length m) then GZIP_Decode (gz ev) [] body = (None, m, []) else body = m)"
proof -
  note wb = wire_body_ok[OF m(2-6), where thr = thr]
  obtain d where d: "carries d (wire_body ev thr m)" "EMD_Salt d = c_salt (updateSalt ev c)" "EMD_SessionID d = c_sessionID c"
      "EMD_MessageID d = id'" "EMD_SeqNo d = seq"
    and nem: "newEncryptedMessage ev lib thr key id' seq payload rand c =
       (case Cipher_Encrypt lib Client key d rand of
          (Inl err, rand) \<Rightarrow> ((Inl (Wrap ''encrypt'' err), rand), updateSalt ev c)
        | (Inr b, rand) \<Rightarrow> ((Inr b, rand), updateSalt ev c))"
    using newEncryptedMessage_encrypts[OF m(1,2), where thr = thr and c = c and id' = id' and seq = seq and lib = lib and key = key and rand = rand]
    by blast
  from packet_travels[OF lib d(1) wb(1-3) tr(1,2), of Client cp] obtain packet rand' msg cdc1 cdc1' frame where
    t: "Cipher_Encrypt lib Client key d rand = (Inr packet, rand')"
      "\<And>w. wbudget w = None \<Longrightarrow> Send None None rnd cdc w packet = (None, cdc1, w\<lparr>written := written w @ frame\<rparr>, packet)"
    and r: "\<forall>rest b. Recv None None cp cdc' (frame @ rest) b = (None, cdc1', rest, packet)" "codec_insync k cdc1 cdc1'"
      "DecryptFromBuffer lib Server key packet = Inr msg" "EMD_Salt msg = EMD_Salt d" "EMD_SessionID msg = EMD_SessionID d"
      "EMD_MessageID msg = EMD_MessageID d" "EMD_SeqNo msg = EMD_SeqNo d" "EncryptedMessageData_Data msg = Inr (wire_body ev thr m)"
    unfolding DecryptSide_Client by blast
  have "conn_write ev lib thr key (Some cdc) rnd id' seq payload rand w c
      = (None, Some cdc1, w\<lparr>written := written w @ frame\<rparr>, rand', updateSalt ev c)"
    using t(2)[OF tr(3)] by (simp add: conn_write_def nem t(1))
  with r d wb(4) show ?thesis
    by - (rule exI[of _ cdc1], rule exI[of _ cdc1'], rule exI[of _ frame], rule exI[of _ rand'], rule exI[of _ packet],
      rule exI[of _ msg], rule exI[of _ "wire_body ev thr m"], simp)
qed

section \<open>The theorems\<close>

text \<open>
  C13. An answer reaches the engine. The server encrypts a result for the client's session under an
  identifier the client accepts; over any framing, the read loop decrypts the packet it
  receives and hands the result, unchanged, to the engine exactly once, under the identifier
  of the request, and acknowledges it if and only if its sequence number is odd. The loop
  goes on, with the same key.
\<close>

theorem result_reaches_engine:
  assumes lib: "ige_inverts lib" "length (AK_ID (k_authKey k)) = 8" "length rand \<ge> 268"
    and b: "b = le_bytes Word i @ body" "i \<noteq> RPCErrorTypeID" "i \<noteq> PongTypeID" "i \<noteq> GZIPTypeID" "4 dvd length b" "length b \<le> 2 ^ 22"
    and d: "carries d (Result_Encode \<lparr>RequestMessageID = req, Result_Result = b\<rparr> [])" "EMD_SessionID d = c_sessionID (k_conn k)"
    and acc: "checkMessageID (clock ev) (EMD_MessageID d) = None"
      "fst (MessageIDBuf_Consume (sint (EMD_MessageID d)) (messageIDBuf (k_conn k))) = Inr True"
    and tr: "4 \<le> length rnd" "codec_insync (Suc j) cdc cdc'" "wbudget w = None"
  shows "\<exists>packet rand' cdc1 cdc1' frame k'. Cipher_Encrypt lib Server (k_authKey k) d rand = (Inr packet, rand')
    \<and> Send None None rnd cdc w packet = (None, cdc1, w\<lparr>written := written w @ frame\<rparr>, packet)
    \<and> (\<forall>rest b. Recv None None cp cdc' (frame @ rest) b = (None, cdc1', rest, packet)) \<and> codec_insync j cdc1 cdc1'
    \<and> readLoop (Suc n) ev lib Prime opt True [Received packet None] k = Some (None, k') \<and> k_authKey k' = k_authKey k
    \<and> trace (k_conn k') = trace (k_conn k) @ [E_NotifyResult req b] @ (if EMD_SeqNo d AND 1 \<noteq> 0 then [E_AckSend (EMD_MessageID d)] else [])"
proof -
  let ?m = "Result_Encode \<lparr>RequestMessageID = req, Result_Result = b\<rparr> []"
  have m: "4 dvd length ?m" "0 < length ?m" "length ?m \<le> 2 ^ 23" using b(5,6) by (simp_all add: Result_Encode_def put_defs Word_def)
  from packet_travels[OF lib d(1) m tr(1,2), of Server cp] obtain packet rand' msg cdc1 cdc1' frame where
    t: "Cipher_Encrypt lib Server (k_authKey k) d rand = (Inr packet, rand')"
      "\<And>w. wbudget w = None \<Longrightarrow> Send None None rnd cdc w packet = (None, cdc1, w\<lparr>written := written w @ frame\<rparr>, packet)"
    and r: "\<forall>rest b. Recv None None cp cdc' (frame @ rest) b = (None, cdc1', rest, packet)" "codec_insync j cdc1 cdc1'"
      "DecryptFromBuffer lib Client (k_authKey k) packet = Inr msg" "EMD_SessionID msg = EMD_SessionID d"
      "EMD_MessageID msg = EMD_MessageID d" "EMD_SeqNo msg = EMD_SeqNo d" "EncryptedMessageData_Data msg = Inr ?m"
    unfolding DecryptSide_Server by blast
  let ?p = "\<lparr>D_SessionID = EMD_SessionID d, D_MessageID = EMD_MessageID d, D_SeqNo = EMD_SeqNo d, D_Data = ?m\<rparr>"
  have plain: "packet_plain lib (k_authKey k) packet = Inr ?p" using r(3-7) by (simp add: packet_plain_def)
  have "acceptable ev (k_conn k) ?p" using d(2) acc by (simp add: acceptable_def)
  from consumeMessage_acceptable[OF this, of "Suc n"] obtain c' where
    "consumeMessage (Suc n) ev None (Inr ?p) (k_conn k) = Some (None, c')"
    "trace c' = trace (k_conn k) @ [E_NotifyResult req b] @ (if EMD_SeqNo d AND 1 \<noteq> 0 then [E_AckSend (EMD_MessageID d)] else [])"
    using handleMessage_result[OF b(1-4), of n ev req] by (auto simp: emit_def split: if_splits)
  with plain t(1) t(2)[OF tr(3)] r(1,2) show ?thesis
    by - (rule exI[of _ packet], rule exI[of _ rand'], rule exI[of _ cdc1], rule exI[of _ cdc1'], rule exI[of _ frame],
      rule exI[of _ "k\<lparr>k_conn := c'\<rparr>"], simp add: readLoop_def)
qed

text \<open>A result for request 7, sent to session 5 a thousand seconds after the epoch.\<close>

definition result_example :: EncryptedMessageData where
  "result_example = \<lparr>EMD_Salt = 0, EMD_SessionID = 5, EMD_MessageID = word_of_int (1000 * 2 ^ 32 + 1), EMD_SeqNo = 1, MessageDataLen = 0,
     MessageDataWithPadding = [], EMD_Message = Some (\<lambda>b. (None, b @ Result_Encode \<lparr>RequestMessageID = 7, Result_Result = le_bytes Word (3 :: 32 word)\<rparr> []))\<rparr>"

theorem result_reaches_engine_witness:
  "\<exists>packet rand' cdc1 frame cdc1' k'. Cipher_Encrypt copy_cipher Server example_key result_example (replicate 268 9) = (Inr packet, rand')
    \<and> Send None None [0, 0, 0, 0] Abridged \<lparr>written = [], wbudget = None\<rparr> packet = (None, cdc1, \<lparr>written = frame, wbudget = None\<rparr>, packet)
    \<and> Recv None None 0 Abridged frame [] = (None, cdc1', [], packet)
    \<and> readLoop 1 example_env copy_cipher (\<lambda>_. True) example_key_opts True [Received packet None] example_kconn = Some (None, k')
    \<and> trace (k_conn k') = [E_NotifyResult 7 (le_bytes Word (3 :: 32 word)), E_AckSend (word_of_int (1000 * 2 ^ 32 + 1))]"
proof -
  let ?id = "word_of_int (1000 * 2 ^ 32 + 1) :: 64 word"
  let ?w = "\<lparr>written = [], wbudget = None\<rparr>"
  have s: "sint ?id = 1000 * 2 ^ 32 + 1" by (rule sint64_of_int) simp_all
  have c: "carries result_example (Result_Encode \<lparr>RequestMessageID = 7, Result_Result = le_bytes Word (3 :: 32 word)\<rparr> [])"
      "EMD_SessionID result_example = c_sessionID (k_conn example_kconn)" "EMD_MessageID result_example = ?id" "EMD_SeqNo result_example = 1"
    by (simp_all add: carries_def appends_def Result_Encode_def put_defs result_example_def example_kconn_def example_conn_def)
  have clock: "clock example_env = 1000 * 1000000000" by (simp add: example_env_def)
  have window: "checkMessageID (clock example_env) (EMD_MessageID result_example) = None" unfolding c(3) clock by code_simp
  have new: "fst (MessageIDBuf_Consume (sint (EMD_MessageID result_example)) (messageIDBuf (k_conn example_kconn))) = Inr True"
    unfolding c(3) s by (simp add: example_kconn_def example_conn_def MessageIDBuf_Consume_def)
  have b: "le_bytes Word (3 :: 32 word) = le_bytes Word (3 :: 32 word) @ []" "3 \<noteq> RPCErrorTypeID" "3 \<noteq> PongTypeID" "3 \<noteq> GZIPTypeID"
      "4 dvd length (le_bytes Word (3 :: 32 word))" "length (le_bytes Word (3 :: 32 word)) \<le> 2 ^ 22"
    by (simp_all add: type_ids Word_def)
  have tr: "4 \<le> length [0, 0, 0, 0 :: 8 word]" "codec_insync (Suc 0) Abridged Abridged" "wbudget ?w = None" by simp_all
  have key: "k_authKey example_kconn = example_key" by (simp add: example_kconn_def)
  from result_reaches_engine[OF copy_cipher_laws(1) _ example_cipher(2) b c(1,2) window new tr, unfolded key, OF example_cipher(1), where n = 0
      and Prime = "\<lambda>_. True" and opt = example_key_opts and cp = 0] obtain packet rand' cdc1 cdc1' frame k' where
    "Cipher_Encrypt copy_cipher Server example_key result_example (replicate 268 9) = (Inr packet, rand')"
    "Send None None [0, 0, 0, 0] Abridged ?w packet = (None, cdc1, ?w\<lparr>written := written ?w @ frame\<rparr>, packet)"
    "\<forall>rest b. Recv None None 0 Abridged (frame @ rest) b = (None, cdc1', rest, packet)"
    "readLoop (Suc 0) example_env copy_cipher (\<lambda>_. True) example_key_opts True [Received packet None] example_kconn = Some (None, k')"
    "trace (k_conn k') = trace (k_conn example_kconn) @ [E_NotifyResult 7 (le_bytes Word (3 :: 32 word))] @
       (if EMD_SeqNo result_example AND 1 \<noteq> 0 then [E_AckSend (EMD_MessageID result_example)] else [])" by blast
  moreover from this(3) have "Recv None None 0 Abridged frame [] = (None, cdc1', [], packet)" by (metis append_Nil2)
  moreover have "trace (k_conn example_kconn) = []" by (simp add: example_kconn_def example_conn_def)
  ultimately show ?thesis unfolding c(3,4) One_nat_def
    by - (rule exI[of _ packet], rule exI[of _ rand'], rule exI[of _ cdc1], rule exI[of _ frame], rule exI[of _ cdc1'], rule exI[of _ k'], simp)
qed

end
