(* ===== verification/Pool.thy ===== *)
theory Pool
  imports Go_Prelude "HOL-Library.Multiset"
begin

text \<open>
  Package \<open>pool\<close>: the pool of connections to one data centre (\<open>pool.go\<close>, \<open>pool_conn.go\<close>,
  \<open>req_map.go\<close>, with \<open>tdsync.ResetReady\<close>). The pool is shared by the goroutines that run
  \<open>Invoke\<close> and by the supervisor's goroutines that run the connections. A step is one atomic
  action: what is done under the mutex \<open>mu\<close>, one operation of the request map under its own mutex,
  one channel operation or one \<open>select\<close>. The mutex matters in one place: \<open>release\<close> holds it while it
  sends a connection to a waiting request, after that request left the map. The counter of
  connections and their creation are one step, as no other goroutine sees the difference.
  Connections and requests are numbered from zero, where the counters of the code start at
  one.
\<close>

section \<open>State\<close>

text \<open>
  \<open>Dying\<close>: \<open>deleted\<close> was set by the supervisor's goroutine (\<open>None\<close>) or by call \<open>t\<close>, whose
  section of \<open>dead\<close> is still to run; \<open>Dead\<close>: it has run and \<open>dead\<close> is signalled.
\<close>

datatype conn_status = Live | Dying "nat option" | Dead

text \<open>A channel of capacity one; \<open>Drained\<close>: it was closed and its connection was received.\<close>

datatype conn_chan = Empty | Full nat | Drained

definition ErrConnDead :: go_error where
  "ErrConnDead = Errorf ''connection dead'' []"

definition errDCIsClosed :: go_error where
  "errDCIsClosed = Errorf ''DC is closed'' []"

definition errRetryableOnNewConn :: "go_error \<Rightarrow> bool" where
  "errRetryableOnNewConn err \<longleftrightarrow> root_error err = ErrConnDead \<or> root_error err = ErrEngineClosed"

text \<open>
  Where a call of \<open>Invoke\<close> is. \<open>Acquire\<close>: at the label \<open>retry\<close>; \<open>Popped\<close>: a free connection was
  taken and is to be checked; \<open>Counted\<close>: the new connection is counted but not made;
  \<open>Connecting\<close>: waiting for it; \<open>Requested\<close>: the request is in the map; \<open>Waiting k g\<close>: in the
  \<open>select\<close>, with the channel of \<open>stuck\<close> from before its reset number \<open>g + 1\<close>; \<open>Unstuck\<close> and
  \<open>Cancelled\<close>: woken without a connection, the request to be deleted; \<open>Recheck\<close>: the channel to
  be looked at once more; \<open>Holding\<close>: using a connection; \<open>Burying\<close>: in \<open>dead\<close>; \<open>Releasing\<close> and
  \<open>Sending\<close>: in \<open>release\<close>, with where to go on.
\<close>

datatype resume = Retry | Return "go_error option"

datatype pool_pc =
    Acquire | Popped nat | Counted | Connecting nat | Requested nat | Waiting nat nat
  | Unstuck nat | Cancelled nat go_error | Recheck nat "go_error option" | Holding nat | Burying nat
  | Releasing nat resume | Sending nat nat resume | Returned "go_error option"

primrec resume_pc :: "resume \<Rightarrow> pool_pc" where
  "resume_pc Retry = Acquire"
| "resume_pc (Return err) = Returned err"

record DC =
  dc_free :: "nat list"
  dc_total :: int
  dc_max :: int
  dc_conns :: "conn_status list"
  dc_reqs :: "nat set"
  dc_chans :: "conn_chan list"
  dc_stuck :: nat
  dc_mu :: "nat option"
  dc_closed :: bool
  dc_calls :: "pool_pc list"
  dc_panic :: bool

definition NewDC :: "int \<Rightarrow> DC" where
  "NewDC mx = \<lparr>dc_free = [], dc_total = 0, dc_max = mx, dc_conns = [], dc_reqs = {}, dc_chans = [], dc_stuck = 0, dc_mu = None,
     dc_closed = False, dc_calls = [], dc_panic = False\<rparr>"

definition goto :: "nat \<Rightarrow> pool_pc \<Rightarrow> DC \<Rightarrow> DC" where
  "goto t p s = s\<lparr>dc_calls := (dc_calls s)[t := p]\<rparr>"

section \<open>pool.go\<close>

text \<open>The section of \<open>dead\<close>: the last match of the loop over the free connections is removed.\<close>

definition delete_free :: "nat \<Rightarrow> nat list \<Rightarrow> nat list" where
  "delete_free r free =
     (case filter (\<lambda>i. free ! i = r) [0..<length free] of
        [] \<Rightarrow> free
      | is \<Rightarrow> take (last is) free @ drop (Suc (last is)) free)"

definition dead_section :: "nat \<Rightarrow> DC \<Rightarrow> DC" where
  "dead_section r s =
     (let s = s\<lparr>dc_total := dc_total s - 1\<rparr> in
      if dc_total s < 0 then s\<lparr>dc_panic := True\<rparr>
      else s\<lparr>dc_free := delete_free r (dc_free s), dc_conns := (dc_conns s)[r := Dead], dc_stuck := Suc (dc_stuck s)\<rparr>)"

text \<open>A call of \<open>dead\<close> by call \<open>t\<close>, which goes on at \<open>retry\<close>: nothing if \<open>deleted\<close> was set before.\<close>

definition call_dead :: "nat \<Rightarrow> nat \<Rightarrow> DC \<Rightarrow> DC" where
  "call_dead t r s =
     (if dc_conns s ! r = Live then goto t (Burying r) (s\<lparr>dc_conns := (dc_conns s)[r := Dying (Some t)]\<rparr>)
      else goto t Acquire s)"

definition acquire_section :: "nat \<Rightarrow> DC \<Rightarrow> DC" where
  "acquire_section t s =
     (if dc_free s \<noteq> [] then goto t (Popped (last (dc_free s))) (s\<lparr>dc_free := butlast (dc_free s)\<rparr>)
      else if dc_max s < 1 \<or> dc_total s < dc_max s then goto t Counted (s\<lparr>dc_total := dc_total s + 1\<rparr>)
      else goto t (Requested (length (dc_chans s)))
             (s\<lparr>dc_reqs := insert (length (dc_chans s)) (dc_reqs s), dc_chans := dc_chans s @ [Empty]\<rparr>))"

text \<open>An error of \<open>acquire\<close> in \<open>Invoke\<close>.\<close>

definition acquire_failed :: "go_error \<Rightarrow> resume" where
  "acquire_failed err = (if root_error err = ErrConnDead then Retry else Return (Some (Wrap ''acquire connection'' err)))"

text \<open>What the environment decides: which case of a \<open>select\<close> is taken, what the connection answers.\<close>

datatype choice =
    Go | ConnReady | ConnDead | Done go_error | Receive | Woken
  | Answer "go_error option" bool | Transfer nat

definition call_step :: "nat \<Rightarrow> choice \<Rightarrow> DC \<Rightarrow> DC option" where
  "call_step t ch s =
     (case dc_calls s ! t of
        Acquire \<Rightarrow> if ch = Go \<and> dc_mu s = None then Some (acquire_section t s) else None
      | Popped r \<Rightarrow>
          if ch \<noteq> Go then None
          else if dc_conns s ! r = Dead then Some (call_dead t r s)
          else Some (goto t (Holding r) s)
      | Counted \<Rightarrow>
          if ch = Go then Some (goto t (Connecting (length (dc_conns s))) (s\<lparr>dc_conns := dc_conns s @ [Live]\<rparr>)) else None
      | Connecting r \<Rightarrow>
          (case ch of
             Done err \<Rightarrow> Some (goto t (resume_pc (acquire_failed err)) s)
           | ConnReady \<Rightarrow> Some (goto t (Holding r) s)
           | ConnDead \<Rightarrow> if dc_conns s ! r = Dead then Some (call_dead t r s) else None
           | _ \<Rightarrow> None)
      | Requested k \<Rightarrow> if ch = Go then Some (goto t (Waiting k (dc_stuck s)) s) else None
      | Waiting k g \<Rightarrow>
          (case ch of
             Receive \<Rightarrow>
               (case dc_chans s ! k of
                  Full r \<Rightarrow> Some (goto t (Holding r) (s\<lparr>dc_chans := (dc_chans s)[k := Drained]\<rparr>))
                | Drained \<Rightarrow> Some (s\<lparr>dc_panic := True\<rparr>)
                | Empty \<Rightarrow> None)
           | Woken \<Rightarrow> if dc_stuck s > g then Some (goto t (Unstuck k) s) else None
           | Done err \<Rightarrow> Some (goto t (Cancelled k err) s)
           | _ \<Rightarrow> None)
      | Unstuck k \<Rightarrow> if ch = Go then Some (goto t (Recheck k None) (s\<lparr>dc_reqs := dc_reqs s - {k}\<rparr>)) else None
      | Cancelled k err \<Rightarrow> if ch = Go then Some (goto t (Recheck k (Some err)) (s\<lparr>dc_reqs := dc_reqs s - {k}\<rparr>)) else None
      | Recheck k err \<Rightarrow>
          if ch \<noteq> Go then None
          else
            (case dc_chans s ! k of
               Full r \<Rightarrow>
                 Some (goto t (case err of None \<Rightarrow> Holding r | Some e \<Rightarrow> Releasing r (acquire_failed e)) (s\<lparr>dc_chans := (dc_chans s)[k := Drained]\<rparr>))
             | _ \<Rightarrow> Some (goto t (case err of None \<Rightarrow> Acquire | Some e \<Rightarrow> resume_pc (acquire_failed e)) s))
      | Holding r \<Rightarrow>
          (case ch of
             Answer err ctxDone \<Rightarrow>
               (case err of
                  Some e \<Rightarrow>
                    if errRetryableOnNewConn e \<and> \<not> ctxDone then Some (call_dead t r s)
                    else Some (goto t (Releasing r (Return (Some (Wrap ''invoke pool'' e)))) s)
                | None \<Rightarrow> Some (goto t (Releasing r (Return None)) s))
           | _ \<Rightarrow> None)
      | Burying r \<Rightarrow> if ch = Go \<and> dc_mu s = None then Some (goto t Acquire (dead_section r s)) else None
      | Releasing r p \<Rightarrow>
          if dc_mu s \<noteq> None then None
          else
            (case ch of
               Go \<Rightarrow> if dc_reqs s = {} then Some (goto t (resume_pc p) (s\<lparr>dc_free := dc_free s @ [r]\<rparr>)) else None
             | Transfer k \<Rightarrow>
                 if k \<in> dc_reqs s then Some (goto t (Sending r k p) (s\<lparr>dc_reqs := dc_reqs s - {k}, dc_mu := Some t\<rparr>)) else None
             | _ \<Rightarrow> None)
      | Sending r k p \<Rightarrow>
          if ch \<noteq> Go then None
          else
            (case dc_chans s ! k of
               Empty \<Rightarrow> Some (goto t (resume_pc p) (s\<lparr>dc_chans := (dc_chans s)[k := Full r], dc_mu := None\<rparr>))
             | _ \<Rightarrow> Some (s\<lparr>dc_panic := True\<rparr>))
      | Returned _ \<Rightarrow> None)"

text \<open>
  The steps of the whole pool: a new call of \<open>Invoke\<close>, a step of a call, the end of a connection's
  \<open>Run\<close> with the two parts of its \<open>dead\<close>, and \<open>Close\<close>.
\<close>

datatype pool_event = Invoke | Call nat choice | ConnExit nat | ConnBury nat | CloseDC

primrec pool_step :: "pool_event \<Rightarrow> DC \<Rightarrow> DC option" where
  "pool_step Invoke s =
     Some (s\<lparr>dc_calls := dc_calls s @ [if dc_closed s then Returned (Some errDCIsClosed) else Acquire]\<rparr>)"
| "pool_step (Call t ch) s = (if t < length (dc_calls s) then call_step t ch s else None)"
| "pool_step (ConnExit r) s =
     (if r < length (dc_conns s) \<and> dc_conns s ! r = Live then Some (s\<lparr>dc_conns := (dc_conns s)[r := Dying None]\<rparr>) else None)"
| "pool_step (ConnBury r) s =
     (if r < length (dc_conns s) \<and> dc_conns s ! r = Dying None \<and> dc_mu s = None then Some (dead_section r s) else None)"
| "pool_step CloseDC s = Some (s\<lparr>dc_closed := True\<rparr>)"

inductive pool_reachable :: "int \<Rightarrow> DC \<Rightarrow> bool" for mx where
  init: "pool_reachable mx (NewDC mx)"
| step: "pool_reachable mx s \<Longrightarrow> pool_step ev s = Some s' \<Longrightarrow> pool_reachable mx s'"

primrec pool_run :: "pool_event list \<Rightarrow> DC \<Rightarrow> DC option" where
  "pool_run [] s = Some s"
| "pool_run (ev # evs) s = (case pool_step ev s of None \<Rightarrow> None | Some s' \<Rightarrow> pool_run evs s')"

section \<open>Lemmas\<close>

lemma sum_list_update_add:
  "t < length xs \<Longrightarrow> sum_list (map f (xs[t := q])) + f (xs ! t) = sum_list (map f xs) + (f q :: nat)"
  by (induction xs arbitrary: t) (auto simp: nth_Cons split: nat.splits)

lemma goto_simps [simp]:
  "dc_free (goto t p s) = dc_free s" "dc_total (goto t p s) = dc_total s" "dc_max (goto t p s) = dc_max s"
  "dc_conns (goto t p s) = dc_conns s" "dc_reqs (goto t p s) = dc_reqs s" "dc_chans (goto t p s) = dc_chans s"
  "dc_stuck (goto t p s) = dc_stuck s" "dc_mu (goto t p s) = dc_mu s" "dc_panic (goto t p s) = dc_panic s"
  "dc_calls (goto t p s) = (dc_calls s)[t := p]"
  by (simp_all add: goto_def)

lemma dead_section_simps [simp]:
  "dc_calls (dead_section r s) = dc_calls s" "dc_reqs (dead_section r s) = dc_reqs s" "dc_chans (dead_section r s) = dc_chans s"
  "dc_mu (dead_section r s) = dc_mu s" "dc_max (dead_section r s) = dc_max s" "length (dc_conns (dead_section r s)) = length (dc_conns s)"
  "dc_total (dead_section r s) = dc_total s - 1"
  by (simp_all add: dead_section_def Let_def)

text \<open>
  The invariants count. A request has at most one call that waits for it, and none once its
  channel is drained; a request in the map or being served has an empty channel; a connection is in
  at most one place: free, in a channel or with a call.
\<close>

fun pc_key :: "pool_pc \<Rightarrow> nat option" where
  "pc_key (Requested k) = Some k"
| "pc_key (Waiting k g) = Some k"
| "pc_key (Unstuck k) = Some k"
| "pc_key (Cancelled k err) = Some k"
| "pc_key (Recheck k err) = Some k"
| "pc_key _ = None"

fun pc_sends :: "pool_pc \<Rightarrow> nat option" where
  "pc_sends (Sending r k p) = Some k"
| "pc_sends _ = None"

fun pc_conn :: "pool_pc \<Rightarrow> nat option" where
  "pc_conn (Popped r) = Some r"
| "pc_conn (Connecting r) = Some r"
| "pc_conn (Holding r) = Some r"
| "pc_conn (Burying r) = Some r"
| "pc_conn (Releasing r p) = Some r"
| "pc_conn (Sending r k p) = Some r"
| "pc_conn _ = None"

fun chan_conn :: "conn_chan \<Rightarrow> nat option" where
  "chan_conn (Full r) = Some r"
| "chan_conn _ = None"

definition at :: "('a \<Rightarrow> nat option) \<Rightarrow> nat \<Rightarrow> 'a list \<Rightarrow> nat" where
  "at f k xs = sum_list (map (\<lambda>x. if f x = Some k then 1 else 0) xs)"

lemma at_append [simp]: "at f k (xs @ ys) = at f k xs + at f k ys" "at f k [] = 0" "at f k [x] = (if f x = Some k then 1 else 0)"
  by (simp_all add: at_def)

lemma at_update:
  "t < length xs \<Longrightarrow> at f k (xs[t := q]) + (if f (xs ! t) = Some k then 1 else 0) = at f k xs + (if f q = Some k then 1 else 0)"
  unfolding at_def by (rule sum_list_update_add)

lemma resume_pc_simps [simp]:
  "pc_key (resume_pc p) = None" "pc_sends (resume_pc p) = None" "pc_conn (resume_pc p) = None"
  by (cases p; simp)+

definition key_at :: "nat \<Rightarrow> pool_pc list \<Rightarrow> conn_chan list \<Rightarrow> nat set \<Rightarrow> bool" where
  "key_at k cs chs rq \<longleftrightarrow>
     at pc_key k cs \<le> (if k < length chs \<and> chs ! k \<noteq> Drained then 1 else 0)
   \<and> at pc_sends k cs + (if k \<in> rq then 1 else 0) \<le> (if k < length chs \<and> chs ! k = Empty then 1 else 0)"

definition key_inv :: "DC \<Rightarrow> bool" where
  "key_inv s \<longleftrightarrow> (\<forall>k. key_at k (dc_calls s) (dc_chans s) (dc_reqs s))"

lemma at_nth: "t < length xs \<Longrightarrow> f (xs ! t) = Some k \<Longrightarrow> 0 < at f k xs"
  by (induction xs arbitrary: t) (auto simp: at_def nth_Cons split: nat.splits)

lemma key_at_goto:
  assumes "key_at k cs chs rq" "t < length cs" "pc_key q = None \<or> pc_key q = pc_key (cs ! t)" "pc_sends q = None" "rq' \<subseteq> rq"
  shows "key_at k (cs[t := q]) chs rq'"
  using assms(1,3-5) at_update[OF assms(2), of pc_key k q] at_update[OF assms(2), of pc_sends k q]
  unfolding key_at_def by (auto split: if_splits)

lemma key_at_drain:
  assumes "key_at k cs chs rq" "t < length cs" "pc_key (cs ! t) = Some j" "chs ! j = Full r" "pc_key q = None" "pc_sends q = None"
  shows "key_at k (cs[t := q]) (chs[j := Drained]) rq"
  using assms(1,3-6) at_update[OF assms(2), of pc_key k q] at_update[OF assms(2), of pc_sends k q]
  unfolding key_at_def by (cases "j = k") (auto simp: nth_list_update split: if_splits)

lemma key_at_new:
  assumes "key_at k cs chs rq" "t < length cs" "pc_key (cs ! t) = None" "pc_sends (cs ! t) = None"
  shows "key_at k (cs[t := Requested (length chs)]) (chs @ [Empty]) (insert (length chs) rq)"
  using assms(1,3,4) at_update[OF assms(2), of pc_key k "Requested (length chs)"] at_update[OF assms(2), of pc_sends k "Requested (length chs)"]
  unfolding key_at_def by (cases "k = length chs") (auto simp: nth_append split: if_splits)

lemma key_at_transfer:
  assumes "key_at k cs chs rq" "t < length cs" "pc_key (cs ! t) = None" "pc_sends (cs ! t) = None" "j \<in> rq"
  shows "key_at k (cs[t := Sending r j p]) chs (rq - {j})"
  using assms(1,3-5) at_update[OF assms(2), of pc_key k "Sending r j p"] at_update[OF assms(2), of pc_sends k "Sending r j p"]
  unfolding key_at_def by (cases "k = j") (auto split: if_splits)

lemma key_at_send:
  assumes "key_at k cs chs rq" "t < length cs" "pc_key (cs ! t) = None" "pc_sends (cs ! t) = Some j" "pc_key q = None" "pc_sends q = None"
    "chs ! j = Empty"
  shows "key_at k (cs[t := q]) (chs[j := Full r]) rq"
  using assms(1,3-7) at_update[OF assms(2), of pc_key k q] at_update[OF assms(2), of pc_sends k q]
  unfolding key_at_def by (cases "k = j") (auto simp: nth_list_update split: if_splits)

lemmas key_at_steps = key_at_goto key_at_drain key_at_new key_at_transfer key_at_send

lemma key_inv_chan:
  assumes "key_inv s" "t < length (dc_calls s)"
  shows "pc_key (dc_calls s ! t) = Some k \<Longrightarrow> k < length (dc_chans s) \<and> dc_chans s ! k \<noteq> Drained"
    "pc_sends (dc_calls s ! t) = Some k \<Longrightarrow> k < length (dc_chans s) \<and> dc_chans s ! k = Empty"
proof -
  have k: "key_at k (dc_calls s) (dc_chans s) (dc_reqs s)" using assms(1) by (simp add: key_inv_def)
  show "pc_key (dc_calls s ! t) = Some k \<Longrightarrow> k < length (dc_chans s) \<and> dc_chans s ! k \<noteq> Drained"
    using k at_nth[OF assms(2), of pc_key k] by (auto simp: key_at_def split: if_splits)
  show "pc_sends (dc_calls s ! t) = Some k \<Longrightarrow> k < length (dc_chans s) \<and> dc_chans s ! k = Empty"
    using k at_nth[OF assms(2), of pc_sends k] by (auto simp: key_at_def split: if_splits)
qed

lemma call_dead_simps [simp]:
  "dc_calls (call_dead t r s) = (dc_calls s)[t := if dc_conns s ! r = Live then Burying r else Acquire]"
  "dc_chans (call_dead t r s) = dc_chans s" "dc_reqs (call_dead t r s) = dc_reqs s" "dc_free (call_dead t r s) = dc_free s"
  "length (dc_conns (call_dead t r s)) = length (dc_conns s)" "dc_panic (call_dead t r s) = dc_panic s"
  "dc_total (call_dead t r s) = dc_total s" "dc_max (call_dead t r s) = dc_max s"
  by (simp_all add: call_dead_def)

definition owners :: "nat \<Rightarrow> nat list \<Rightarrow> pool_pc list \<Rightarrow> conn_chan list \<Rightarrow> nat" where
  "owners r free cs chs = count_list free r + at pc_conn r cs + at chan_conn r chs"

text \<open>The steps of a call, as what they do to the calls, the channels and the requests.\<close>

lemma key_inv_call_step:
  assumes "key_inv s" "t < length (dc_calls s)" "call_step t ch s = Some s'"
  shows "key_inv s'"
  unfolding key_inv_def
proof
  fix k
  have k: "key_at k (dc_calls s) (dc_chans s) (dc_reqs s)" using assms(1) by (simp add: key_inv_def)
  show "key_at k (dc_calls s') (dc_chans s') (dc_reqs s')"
  proof (cases "dc_calls s ! t")
    case (Releasing r p)
    then show ?thesis using k assms(2,3)
      by (auto simp: call_step_def split: if_splits choice.splits intro!: key_at_goto key_at_transfer)
  next
    case (Sending r j p)
    then show ?thesis using k assms(2,3) by (auto simp: call_step_def split: if_splits conn_chan.splits intro!: key_at_send)
  next
    case (Recheck j err)
    show ?thesis
    proof (cases "dc_chans s ! j")
      case (Full r)
      then show ?thesis using Recheck k assms(2,3)
        by (auto simp: call_step_def split: if_splits option.splits intro!: key_at_drain)
    qed (use Recheck k assms(2,3) in \<open>auto simp: call_step_def split: if_splits option.splits intro!: key_at_goto\<close>)
  next
    case (Waiting j g)
    show ?thesis
    proof (cases ch)
      case Receive
      then show ?thesis using Waiting k assms(2,3)
        by (auto simp: call_step_def split: conn_chan.splits intro!: key_at_drain)
    qed (use Waiting k assms(2,3) in \<open>auto simp: call_step_def split: if_splits intro!: key_at_goto\<close>)
  next
    case Acquire
    then show ?thesis using k assms(2,3)
      by (auto simp: call_step_def acquire_section_def split: if_splits intro!: key_at_goto key_at_new)
  next
    case (Holding r)
    then show ?thesis using k assms(2,3)
      by (auto simp: call_step_def split: if_splits choice.splits option.splits intro!: key_at_goto)
  qed (use k assms(2,3) in \<open>auto simp: call_step_def split: if_splits choice.splits intro!: key_at_goto\<close>)
qed

definition own_inv :: "DC \<Rightarrow> bool" where
  "own_inv s \<longleftrightarrow> (\<forall>r. owners r (dc_free s) (dc_calls s) (dc_chans s) \<le> (if r < length (dc_conns s) then 1 else 0))"

lemma count_remove_nth: "i < length xs \<Longrightarrow> count_list (take i xs @ drop (Suc i) xs) x \<le> count_list xs x"
  by (induction xs arbitrary: i) (auto simp: take_Cons drop_Cons split: nat.splits)

lemma count_delete_free: "count_list (delete_free r xs) x \<le> count_list xs x"
proof (cases "filter (\<lambda>i. xs ! i = r) [0..<length xs]")
  case (Cons y ys)
  then have "last (y # ys) \<in> set (filter (\<lambda>i. xs ! i = r) [0..<length xs])" by (metis last_in_set list.distinct(1))
  then have "last (y # ys) < length xs" by simp
  from count_remove_nth[OF this, of x] show ?thesis unfolding delete_free_def Cons by (simp del: last.simps)
qed (simp add: delete_free_def)

lemma count_butlast: "xs \<noteq> [] \<Longrightarrow> count_list (butlast xs) x + (if last xs = x then 1 else 0) = count_list xs x"
  by (induction xs) auto

lemma owners_goto:
  assumes "t < length cs" "pc_conn q = None \<or> pc_conn q = pc_conn (cs ! t)" "count_list free' x \<le> count_list free x"
  shows "owners x free' (cs[t := q]) chs \<le> owners x free cs chs"
  using assms(2,3) at_update[OF assms(1), of pc_conn x q] by (auto simp: owners_def split: if_splits)

lemma owners_pop:
  assumes "t < length cs" "pc_conn (cs ! t) = None" "free \<noteq> []"
  shows "owners x (butlast free) (cs[t := Popped (last free)]) chs = owners x free cs chs"
  using assms(2) at_update[OF assms(1), of pc_conn x "Popped (last free)"] count_butlast[OF assms(3), of x]
  by (auto simp: owners_def split: if_splits)

lemma owners_receive:
  assumes "t < length cs" "pc_conn (cs ! t) = None" "j < length chs" "chs ! j = Full r" "pc_conn q = Some r"
  shows "owners x free (cs[t := q]) (chs[j := Drained]) = owners x free cs chs"
  using assms(2,4,5) at_update[OF assms(1), of pc_conn x q] at_update[OF assms(3), of chan_conn x Drained]
  by (auto simp: owners_def split: if_splits)

lemma owners_send:
  assumes "t < length cs" "pc_conn (cs ! t) = Some r" "j < length chs" "chs ! j = Empty" "pc_conn q = None"
  shows "owners x free (cs[t := q]) (chs[j := Full r]) = owners x free cs chs"
  using assms(2,4,5) at_update[OF assms(1), of pc_conn x q] at_update[OF assms(3), of chan_conn x "Full r"]
  by (auto simp: owners_def split: if_splits)

lemma owners_put:
  assumes "t < length cs" "pc_conn (cs ! t) = Some r" "pc_conn q = None"
  shows "owners x (free @ [r]) (cs[t := q]) chs = owners x free cs chs"
  using assms(2,3) at_update[OF assms(1), of pc_conn x q] by (auto simp: owners_def split: if_splits)

lemma owners_new:
  assumes "t < length cs" "pc_conn (cs ! t) = None"
  shows "owners x free (cs[t := Connecting r]) chs = owners x free cs chs + (if x = r then 1 else 0)"
  using assms(2) at_update[OF assms(1), of pc_conn x "Connecting r"] by (auto simp: owners_def split: if_splits)

lemma owners_chan [simp]: "owners x free cs (chs @ [Empty]) = owners x free cs chs"
  by (simp add: owners_def)

lemma dead_section_free: "count_list (dc_free (dead_section r s)) x \<le> count_list (dc_free s) x"
  by (simp add: dead_section_def Let_def count_delete_free)

lemma own_inv_call_step:
  assumes inv: "key_inv s" "own_inv s" and t: "t < length (dc_calls s)" and st: "call_step t ch s = Some s'"
  shows "own_inv s'"
  unfolding own_inv_def
proof
  fix x
  have o: "owners x (dc_free s) (dc_calls s) (dc_chans s) \<le> (if x < length (dc_conns s) then 1 else 0)" using inv(2) by (simp add: own_inv_def)
  have mono: "owners x (dc_free s') (dc_calls s') (dc_chans s') \<le> (if x < length (dc_conns s') then 1 else 0)"
    if "owners x (dc_free s') (dc_calls s') (dc_chans s') \<le> owners x (dc_free s) (dc_calls s) (dc_chans s)"
      "length (dc_conns s') = length (dc_conns s)"
    using that o by simp
  note ch = key_inv_chan[OF inv(1) t]
  show "owners x (dc_free s') (dc_calls s') (dc_chans s') \<le> (if x < length (dc_conns s') then 1 else 0)"
  proof (cases "dc_calls s ! t")
    case Acquire
    then show ?thesis using st t
      by (intro mono) (auto simp: call_step_def acquire_section_def owners_pop split: if_splits intro!: owners_goto)
  next
    case Counted
    then show ?thesis using st t o by (auto simp: call_step_def owners_new split: if_splits)
  next
    case (Waiting j g)
    then show ?thesis using st t ch(1)[of j]
      by (intro mono) (auto simp: call_step_def owners_receive split: if_splits choice.splits conn_chan.splits intro!: owners_goto)
  next
    case (Recheck j err)
    then show ?thesis using st t ch(1)[of j]
      by (intro mono) (auto simp: call_step_def owners_receive split: if_splits conn_chan.splits option.splits intro!: owners_goto)
  next
    case (Holding r)
    then show ?thesis using st t
      by (intro mono) (auto simp: call_step_def split: if_splits choice.splits option.splits intro!: owners_goto)
  next
    case (Burying r)
    then show ?thesis using st t
      by (intro mono) (auto simp: call_step_def dead_section_free split: if_splits intro!: owners_goto)
  next
    case (Releasing r p)
    then show ?thesis using st t
      by (intro mono) (auto simp: call_step_def owners_put split: if_splits choice.splits intro!: owners_goto)
  next
    case (Sending r j p)
    then show ?thesis using st t ch(2)[of j]
      by (intro mono) (auto simp: call_step_def owners_send split: if_splits conn_chan.splits)
  next
    case (Popped r)
    then show ?thesis using st t
      by (intro mono) (auto simp: call_step_def split: if_splits choice.splits intro!: owners_goto)
  next
    case (Connecting r)
    then show ?thesis using st t
      by (intro mono) (auto simp: call_step_def split: if_splits choice.splits intro!: owners_goto)
  next
    case (Requested j)
    then show ?thesis using st t
      by (intro mono) (auto simp: call_step_def split: if_splits choice.splits intro!: owners_goto)
  next
    case (Unstuck j)
    then show ?thesis using st t
      by (intro mono) (auto simp: call_step_def split: if_splits choice.splits intro!: owners_goto)
  next
    case (Cancelled j err)
    then show ?thesis using st t
      by (intro mono) (auto simp: call_step_def split: if_splits choice.splits intro!: owners_goto)
  next
    case (Returned e)
    then show ?thesis using st by (simp add: call_step_def)
  qed
qed

subsection \<open>The limit\<close>

definition alive :: "conn_status \<Rightarrow> nat" where
  "alive c = (if c = Dead then 0 else 1)"

definition counted :: "pool_pc \<Rightarrow> nat" where
  "counted p = (if p = Counted then 1 else 0)"

definition conns_alive :: "DC \<Rightarrow> nat" where
  "conns_alive s = sum_list (map alive (dc_conns s))"

definition calls_counted :: "DC \<Rightarrow> nat" where
  "calls_counted s = sum_list (map counted (dc_calls s))"

definition bury_inv :: "DC \<Rightarrow> bool" where
  "bury_inv s \<longleftrightarrow> (\<forall>t<length (dc_calls s). \<forall>r. dc_calls s ! t = Burying r \<longrightarrow> dc_conns s ! r = Dying (Some t))"

definition count_inv :: "DC \<Rightarrow> bool" where
  "count_inv s \<longleftrightarrow> dc_total s = int (conns_alive s + calls_counted s) \<and> (1 \<le> dc_max s \<longrightarrow> dc_total s \<le> dc_max s) \<and> \<not> dc_panic s"

lemma own_inv_conn:
  assumes "own_inv s" "t < length (dc_calls s)" "pc_conn (dc_calls s ! t) = Some r"
  shows "r < length (dc_conns s)"
proof -
  have "owners r (dc_free s) (dc_calls s) (dc_chans s) \<le> (if r < length (dc_conns s) then 1 else 0)" using assms(1) by (simp add: own_inv_def)
  then show ?thesis using at_nth[OF assms(2), of pc_conn r] assms(3) by (simp add: owners_def split: if_splits)
qed

lemma calls_counted_goto:
  "t < length (dc_calls s) \<Longrightarrow> calls_counted (goto t q s) + counted (dc_calls s ! t) = calls_counted s + counted q"
  unfolding calls_counted_def goto_simps by (rule sum_list_update_add)

lemma count_congs [simp]:
  "conns_alive (goto t q s) = conns_alive s" "calls_counted (dead_section r s) = calls_counted s"
  "conns_alive (s\<lparr>dc_free := f\<rparr>) = conns_alive s" "conns_alive (s\<lparr>dc_chans := c\<rparr>) = conns_alive s"
  "conns_alive (s\<lparr>dc_reqs := R\<rparr>) = conns_alive s" "conns_alive (s\<lparr>dc_mu := m\<rparr>) = conns_alive s" "conns_alive (s\<lparr>dc_total := n\<rparr>) = conns_alive s"
  "calls_counted (s\<lparr>dc_free := f\<rparr>) = calls_counted s" "calls_counted (s\<lparr>dc_chans := c\<rparr>) = calls_counted s"
  "calls_counted (s\<lparr>dc_reqs := R\<rparr>) = calls_counted s" "calls_counted (s\<lparr>dc_mu := m\<rparr>) = calls_counted s"
  "calls_counted (s\<lparr>dc_total := n\<rparr>) = calls_counted s" "calls_counted (s\<lparr>dc_conns := cs\<rparr>) = calls_counted s"
  by (simp_all add: conns_alive_def calls_counted_def)

lemma alive_update:
  "r < length (dc_conns s) \<Longrightarrow> conns_alive (s\<lparr>dc_conns := (dc_conns s)[r := c]\<rparr>) + alive (dc_conns s ! r) = conns_alive s + alive c"
  unfolding conns_alive_def by (simp add: sum_list_update_add)

lemma dead_section_counts:
  assumes "count_inv s" "r < length (dc_conns s)" "dc_conns s ! r \<noteq> Dead"
  shows "count_inv (dead_section r s)" "dc_conns (dead_section r s) = (dc_conns s)[r := Dead]"
proof -
  have a: "conns_alive (s\<lparr>dc_conns := (dc_conns s)[r := Dead]\<rparr>) + 1 = conns_alive s"
    using alive_update[OF assms(2), of Dead] assms(3) by (simp add: alive_def)
  then have "dc_total s \<ge> 1" using assms(1) by (simp add: count_inv_def)
  then have d: "dead_section r s = s\<lparr>dc_total := dc_total s - 1, dc_free := delete_free r (dc_free s), dc_conns := (dc_conns s)[r := Dead],
      dc_stuck := Suc (dc_stuck s)\<rparr>"
    by (simp add: dead_section_def Let_def)
  show "dc_conns (dead_section r s) = (dc_conns s)[r := Dead]" by (simp add: d)
  have "conns_alive (dead_section r s) + 1 = conns_alive s" using a by (simp add: d conns_alive_def)
  then show "count_inv (dead_section r s)" using assms(1) by (auto simp: count_inv_def d calls_counted_def)
qed

lemma call_dead_counts:
  assumes "count_inv s" "t < length (dc_calls s)" "r < length (dc_conns s)" "counted (dc_calls s ! t) = 0"
  shows "count_inv (call_dead t r s)"
  using assms(1,4) alive_update[OF assms(3), of "Dying (Some t)"] calls_counted_goto[OF assms(2), of Acquire]
    calls_counted_goto[of t "s\<lparr>dc_conns := (dc_conns s)[r := Dying (Some t)]\<rparr>" "Burying r"] assms(2)
  by (auto simp: count_inv_def call_dead_def alive_def counted_def split: if_splits)

lemma count_inv_goto:
  assumes "count_inv s" "t < length (dc_calls s)" "counted q = counted (dc_calls s ! t)"
  shows "count_inv (goto t q s)"
  using assms(1,3) calls_counted_goto[OF assms(2), of q] by (auto simp: count_inv_def)

lemma count_inv_frame [simp]:
  "count_inv (s\<lparr>dc_free := f\<rparr>) = count_inv s" "count_inv (s\<lparr>dc_chans := c\<rparr>) = count_inv s" "count_inv (s\<lparr>dc_reqs := R\<rparr>) = count_inv s"
  "count_inv (s\<lparr>dc_mu := m\<rparr>) = count_inv s" "count_inv (s\<lparr>dc_closed := b\<rparr>) = count_inv s"
  by (simp_all add: count_inv_def conns_alive_def calls_counted_def)

lemma counted_resume [simp]: "resume_pc p \<noteq> Counted" "resume_pc p \<noteq> Burying r"
  by (cases p; simp)+

lemma count_inv_acquire:
  assumes "count_inv s" "t < length (dc_calls s)" "dc_calls s ! t = Acquire"
  shows "count_inv (acquire_section t s)"
proof (cases "dc_free s = [] \<and> (dc_max s < 1 \<or> dc_total s < dc_max s)")
  case True
  then show ?thesis using assms(1,3) calls_counted_goto[of t "s\<lparr>dc_total := dc_total s + 1\<rparr>" Counted] assms(2)
    by (auto simp: acquire_section_def count_inv_def counted_def)
next
  case False
  then show ?thesis using assms by (auto simp: acquire_section_def counted_def intro!: count_inv_goto)
qed

lemma count_inv_call_step:
  assumes inv: "key_inv s" "own_inv s" "bury_inv s" "count_inv s" and t: "t < length (dc_calls s)" and st: "call_step t ch s = Some s'"
  shows "count_inv s'"
proof -
  note own = own_inv_conn[OF inv(2) t] and chan = key_inv_chan[OF inv(1) t]
  show ?thesis
  proof (cases "dc_calls s ! t")
    case Acquire
    then show ?thesis using st count_inv_acquire[OF inv(4) t] by (auto simp: call_step_def split: if_splits)
  next
    case Counted
    let ?s = "s\<lparr>dc_conns := dc_conns s @ [Live]\<rparr>"
    have "conns_alive ?s = conns_alive s + 1" by (simp add: conns_alive_def alive_def)
    then show ?thesis using Counted st t inv(4) calls_counted_goto[of t ?s "Connecting (length (dc_conns s))"]
      by (auto simp: call_step_def count_inv_def counted_def split: if_splits)
  next
    case (Waiting j g)
    then show ?thesis using st t inv(4) chan(1)[of j]
      by (auto simp: call_step_def counted_def split: if_splits choice.splits conn_chan.splits intro!: count_inv_goto)
  next
    case (Recheck j err)
    then show ?thesis using st t inv(4)
      by (auto simp: call_step_def counted_def split: if_splits conn_chan.splits option.splits intro!: count_inv_goto)
  next
    case (Holding r)
    then show ?thesis using st t inv(4) own[of r]
      by (auto simp: call_step_def counted_def split: if_splits choice.splits option.splits intro!: count_inv_goto call_dead_counts)
  next
    case (Burying r)
    then have "dc_conns s ! r \<noteq> Dead" using inv(3) t by (auto simp: bury_inv_def)
    then show ?thesis using Burying st t dead_section_counts(1)[OF inv(4), of r] own[of r]
      by (auto simp: call_step_def counted_def split: if_splits intro!: count_inv_goto)
  next
    case (Sending r j p)
    then show ?thesis using st t inv(4) chan(2)[of j]
      by (auto simp: call_step_def split: if_splits conn_chan.splits intro!: count_inv_goto simp: counted_def)
  next
    case (Releasing r p)
    then show ?thesis using st t inv(4)
      by (auto simp: call_step_def split: if_splits choice.splits intro!: count_inv_goto simp: counted_def)
  qed (use st t inv(4) own in \<open>auto simp: call_step_def counted_def split: if_splits choice.splits intro!: count_inv_goto call_dead_counts\<close>)
qed

lemma nth_update: "u < length xs \<Longrightarrow> xs[t := q] ! u = (if t = u then q else xs ! u)"
  by (simp add: nth_list_update)

lemma bury_invD: "bury_inv s \<Longrightarrow> t < length (dc_calls s) \<Longrightarrow> dc_calls s ! t = Burying r \<Longrightarrow> dc_conns s ! r = Dying (Some t)"
  by (simp add: bury_inv_def)

lemma bury_inv_goto: "bury_inv s \<Longrightarrow> (\<And>r. q \<noteq> Burying r) \<Longrightarrow> bury_inv (goto t q s)"
  by (auto simp: bury_inv_def nth_update split: if_splits)

lemma bury_inv_frame [simp]:
  "bury_inv (s\<lparr>dc_free := f\<rparr>) = bury_inv s" "bury_inv (s\<lparr>dc_chans := c\<rparr>) = bury_inv s" "bury_inv (s\<lparr>dc_reqs := R\<rparr>) = bury_inv s"
  "bury_inv (s\<lparr>dc_mu := m\<rparr>) = bury_inv s" "bury_inv (s\<lparr>dc_total := n\<rparr>) = bury_inv s" "bury_inv (s\<lparr>dc_panic := b\<rparr>) = bury_inv s"
  by (simp_all add: bury_inv_def)

text \<open>The status of a connection changes from alive, or by the call that buries it.\<close>

lemma bury_inv_status:
  assumes "bury_inv s" "dc_conns s ! r = Live \<or> dc_conns s ! r = Dying None"
  shows "bury_inv (s\<lparr>dc_conns := (dc_conns s)[r := c]\<rparr>)"
proof -
  have "(dc_conns s)[r := c] ! ra = dc_conns s ! ra" if "t < length (dc_calls s)" "dc_calls s ! t = Burying ra" for t ra
    using bury_invD[OF assms(1) that] assms(2) by (cases "ra = r") auto
  then show ?thesis using assms(1) by (auto simp: bury_inv_def)
qed

lemma bury_inv_call_dead:
  assumes "bury_inv s" "r < length (dc_conns s)"
  shows "bury_inv (call_dead t r s)"
proof (cases "dc_conns s ! r = Live")
  case True
  then have "bury_inv (s\<lparr>dc_conns := (dc_conns s)[r := Dying (Some t)]\<rparr>)" using bury_inv_status[OF assms(1)] by simp
  then show ?thesis using True assms(2) by (auto simp: call_dead_def bury_inv_def nth_update split: if_splits)
qed (use assms in \<open>simp add: call_dead_def bury_inv_goto\<close>)

lemma bury_inv_bury:
  assumes "bury_inv s" "dc_calls s ! t = Burying r" "t < length (dc_calls s)" "dc_conns s' = (dc_conns s)[r := Dead]" "dc_calls s' = dc_calls s"
  shows "bury_inv (goto t Acquire s')"
proof -
  have "(dc_conns s)[r := Dead] ! ra = dc_conns s ! ra" if "u < length (dc_calls s)" "dc_calls s ! u = Burying ra" "u \<noteq> t" for u ra
    using bury_invD[OF assms(1) that(1,2)] bury_invD[OF assms(1,3,2)] that(3) by (cases "ra = r") auto
  then show ?thesis using assms(1,4,5) by (auto simp: bury_inv_def nth_update split: if_splits)
qed

lemma bury_inv_call_step:
  assumes inv: "own_inv s" "bury_inv s" "count_inv s" and t: "t < length (dc_calls s)" and st: "call_step t ch s = Some s'"
  shows "bury_inv s'"
proof -
  note own = own_inv_conn[OF inv(1)]
  show ?thesis
  proof (cases "dc_calls s ! t")
    case Acquire
    then show ?thesis using st inv(2) by (auto simp: call_step_def acquire_section_def split: if_splits intro!: bury_inv_goto)
  next
    case Counted
    have "bury_inv (s\<lparr>dc_conns := dc_conns s @ [Live]\<rparr>)"
      using inv(2) own by (auto simp: bury_inv_def nth_append)
    then show ?thesis using Counted st by (auto simp: call_step_def split: if_splits intro!: bury_inv_goto)
  next
    case (Burying r)
    then have r: "r < length (dc_conns s)" "dc_conns s ! r \<noteq> Dead" using own[OF t] inv(2) t by (auto simp: bury_inv_def)
    show ?thesis using Burying st bury_inv_bury[OF inv(2) Burying t dead_section_counts(2)[OF inv(3) r]]
      by (auto simp: call_step_def split: if_splits)
  next
    case (Waiting j g)
    then show ?thesis using st inv(2) by (auto simp: call_step_def split: if_splits choice.splits conn_chan.splits intro!: bury_inv_goto)
  next
    case (Recheck j err)
    then show ?thesis using st inv(2) by (auto simp: call_step_def split: if_splits conn_chan.splits option.splits intro!: bury_inv_goto)
  next
    case (Holding r)
    then show ?thesis using st inv(2) own[OF t, of r]
      by (auto simp: call_step_def split: if_splits choice.splits option.splits intro!: bury_inv_goto bury_inv_call_dead)
  next
    case (Sending r j p)
    then show ?thesis using st inv(2) by (auto simp: call_step_def split: if_splits conn_chan.splits intro!: bury_inv_goto)
  next
    case (Releasing r p)
    then show ?thesis using st inv(2) by (auto simp: call_step_def split: if_splits choice.splits intro!: bury_inv_goto)
  qed (use st inv(2) own[OF t] in \<open>auto simp: call_step_def split: if_splits choice.splits intro!: bury_inv_goto bury_inv_call_dead\<close>)
qed

subsection \<open>Reachable states\<close>

definition pool_inv :: "DC \<Rightarrow> bool" where
  "pool_inv s \<longleftrightarrow> key_inv s \<and> own_inv s \<and> bury_inv s \<and> count_inv s"

lemma pool_inv_step:
  assumes inv: "pool_inv s" and st: "pool_step ev s = Some s'"
  shows "pool_inv s' \<and> dc_max s' = dc_max s"
proof (cases ev)
  case Invoke
  let ?p = "if dc_closed s then Returned (Some errDCIsClosed) else Acquire"
  have "s' = s\<lparr>dc_calls := dc_calls s @ [?p]\<rparr>" using Invoke st by simp
  then show ?thesis using inv
    by (auto simp: pool_inv_def key_inv_def key_at_def own_inv_def owners_def bury_inv_def count_inv_def conns_alive_def calls_counted_def counted_def
        nth_append less_Suc_eq)
next
  case (Call t ch)
  then have t: "t < length (dc_calls s)" "call_step t ch s = Some s'" using st by (auto split: if_splits)
  have "dc_max s' = dc_max s" using t(2)
    by (auto simp: call_step_def acquire_section_def split: pool_pc.splits if_splits choice.splits conn_chan.splits option.splits)
  then show ?thesis
    using inv key_inv_call_step[OF _ t] own_inv_call_step[OF _ _ t] bury_inv_call_step[OF _ _ _ t] count_inv_call_step[OF _ _ _ _ t]
    by (simp add: pool_inv_def)
next
  case (ConnExit r)
  then have r: "r < length (dc_conns s)" "dc_conns s ! r = Live" "s' = s\<lparr>dc_conns := (dc_conns s)[r := Dying None]\<rparr>"
    using st by (auto split: if_splits)
  then show ?thesis using inv bury_inv_status[of s r "Dying None"] alive_update[OF r(1), of "Dying None"]
    by (auto simp: pool_inv_def key_inv_def own_inv_def count_inv_def alive_def)
next
  case (ConnBury r)
  then have r: "r < length (dc_conns s)" "dc_conns s ! r \<noteq> Dead" "dc_conns s ! r = Dying None" "s' = dead_section r s"
    using st by (auto split: if_splits)
  have "count_inv s" "bury_inv s" using inv by (simp_all add: pool_inv_def)
  note d = dead_section_counts[OF this(1) r(1,2)]
  have "owners x (dc_free s') (dc_calls s') (dc_chans s') \<le> owners x (dc_free s) (dc_calls s) (dc_chans s)" for x
    using dead_section_free[of r s x] by (simp add: r(4) owners_def)
  moreover have "bury_inv s'" using bury_inv_status[OF \<open>bury_inv s\<close>, of r Dead] r(3) d(2) by (simp add: r(4) bury_inv_def)
  moreover have "own_inv s" using inv by (simp add: pool_inv_def)
  ultimately have "own_inv s'" unfolding own_inv_def by (metis r(4) dead_section_simps(6) order_trans)
  then show ?thesis using inv d(1) \<open>bury_inv s'\<close> r(4) by (simp add: pool_inv_def key_inv_def)
next
  case CloseDC
  then have "s' = s\<lparr>dc_closed := True\<rparr>" using st by simp
  then show ?thesis using inv by (simp add: pool_inv_def key_inv_def own_inv_def bury_inv_def)
qed

lemma pool_inv_reachable: "pool_reachable mx s \<Longrightarrow> pool_inv s \<and> dc_max s = mx"
proof (induction rule: pool_reachable.induct)
  case init
  then show ?case
    by (simp add: pool_inv_def NewDC_def key_inv_def key_at_def own_inv_def owners_def bury_inv_def count_inv_def conns_alive_def calls_counted_def)
next
  case (step s ev s')
  then show ?case using pool_inv_step[of s ev s'] by simp
qed

lemma pool_run_reachable: "pool_reachable mx s \<Longrightarrow> pool_run evs s = Some s' \<Longrightarrow> pool_reachable mx s'"
  by (induction evs arbitrary: s) (auto split: option.splits intro: pool_reachable.step)

section \<open>The theorems\<close>

text \<open>
  C21. The pool keeps its limit. However calls, connections and the closing of the pool interleave, the
  counter of connections is never negative, so the panic in \<open>dead\<close> is unreachable like those of
  sending on a closed channel; it covers every connection that has not been buried, and with
  a limit it never exceeds it.
\<close>

theorem pool_within_limit:
  assumes "pool_reachable mx s"
  shows "\<not> dc_panic s \<and> 0 \<le> dc_total s \<and> int (length (filter (\<lambda>c. c \<noteq> Dead) (dc_conns s))) \<le> dc_total s \<and> (1 \<le> mx \<longrightarrow> dc_total s \<le> mx)"
proof -
  have "sum_list (map alive cs) = length (filter (\<lambda>c. c \<noteq> Dead) cs)" for cs by (induction cs) (simp_all add: alive_def)
  then have "conns_alive s = length (filter (\<lambda>c. c \<noteq> Dead) (dc_conns s))" by (simp add: conns_alive_def)
  then show ?thesis using pool_inv_reachable[OF assms] by (auto simp: pool_inv_def count_inv_def)
qed

text \<open>
  C18. A connection serves one call at a time: no two calls use the same connection, and a
  connection in use is neither free nor on its way to a waiting call.
\<close>

theorem pool_exclusive:
  assumes "pool_reachable mx s" "t < length (dc_calls s)" "dc_calls s ! t = Holding r"
  shows "r < length (dc_conns s) \<and> r \<notin> set (dc_free s) \<and> Full r \<notin> set (dc_chans s)
    \<and> (\<forall>u<length (dc_calls s). u \<noteq> t \<longrightarrow> pc_conn (dc_calls s ! u) \<noteq> Some r)"
proof -
  have inv: "own_inv s" using pool_inv_reachable[OF assms(1)] by (simp add: pool_inv_def)
  have r: "r < length (dc_conns s)" using own_inv_conn[OF inv assms(2)] assms(3) by simp
  then have o: "owners r (dc_free s) (dc_calls s) (dc_chans s) \<le> 1" using inv by (auto simp: own_inv_def dest: spec[of _ r])
  have "0 < at pc_conn r (dc_calls s)" using at_nth[OF assms(2), of pc_conn r] assms(3) by simp
  then have z: "count_list (dc_free s) r = 0" "at chan_conn r (dc_chans s) = 0" "at pc_conn r (dc_calls s) \<le> 1" using o by (auto simp: owners_def)
  have "Full r \<notin> set (dc_chans s)" using z(2) at_nth[of _ "dc_chans s" chan_conn r] by (metis chan_conn.simps(1) in_set_conv_nth less_irrefl)
  moreover have "pc_conn (dc_calls s ! u) \<noteq> Some r" if "u < length (dc_calls s)" "u \<noteq> t" for u
  proof
    assume u: "pc_conn (dc_calls s ! u) = Some r"
    have "at pc_conn r ((dc_calls s)[t := Acquire]) + 1 = at pc_conn r (dc_calls s)" using at_update[OF assms(2), of pc_conn r Acquire] assms(3) by simp
    moreover have "0 < at pc_conn r ((dc_calls s)[t := Acquire])"
      using that u by (intro at_nth[of u]) simp_all
    ultimately show False using z(3) by simp
  qed
  ultimately show ?thesis using r z(1) by (auto simp: count_list_0_iff)
qed

text \<open>Two calls on a pool of one connection: the first uses it, the second waits.\<close>

definition busy_pool :: "pool_event list" where
  "busy_pool = [Invoke, Invoke, Call 0 Go, Call 0 Go, Call 0 ConnReady, Call 1 Go, Call 1 Go]"

lemma busy_pool_state:
  "pool_run busy_pool (NewDC 1) = Some (NewDC 1\<lparr>dc_total := 1, dc_conns := [Live], dc_reqs := {0}, dc_chans := [Empty],
     dc_calls := [Holding 0, Waiting 0 0]\<rparr>)"
  by (simp add: busy_pool_def NewDC_def call_step_def acquire_section_def goto_def)

lemma busy_pool_reachable:
  "pool_reachable 1 (NewDC 1\<lparr>dc_total := 1, dc_conns := [Live], dc_reqs := {0}, dc_chans := [Empty], dc_calls := [Holding 0, Waiting 0 0]\<rparr>)"
  using pool_run_reachable[OF pool_reachable.init busy_pool_state] .

theorem pool_within_limit_witness:
  "\<exists>s. pool_reachable 1 s \<and> dc_calls s = [Holding 0, Waiting 0 0] \<and> dc_total s \<le> 1"
  using pool_within_limit[OF busy_pool_reachable] busy_pool_reachable
  by (intro exI[of _ "NewDC 1\<lparr>dc_total := 1, dc_conns := [Live], dc_reqs := {0}, dc_chans := [Empty], dc_calls := [Holding 0, Waiting 0 0]\<rparr>"]) simp

theorem pool_exclusive_witness:
  "\<exists>s. pool_reachable 1 s \<and> dc_calls s ! 0 = Holding 0 \<and> 0 \<notin> set (dc_free s) \<and> Full 0 \<notin> set (dc_chans s)"
  using pool_exclusive[OF busy_pool_reachable, of 0 0] busy_pool_reachable
  by (intro exI[of _ "NewDC 1\<lparr>dc_total := 1, dc_conns := [Live], dc_reqs := {0}, dc_chans := [Empty], dc_calls := [Holding 0, Waiting 0 0]\<rparr>"]) simp

text \<open>
  A connection is lost when the context of a call ends while its new connection comes up:
  \<open>acquire\<close> returns, and the connection stays counted and running although nobody will ever
  release it. With a limit of one the next call waits without end.
\<close>

theorem cancelled_connect_leaks:
  "\<exists>s. pool_run [Invoke, Call 0 Go, Call 0 Go, Call 0 (Done ContextCanceled), Invoke, Call 1 Go, Call 1 Go] (NewDC 1) = Some s
     \<and> dc_calls s ! 1 = Waiting 0 0 \<and> dc_total s = 1 \<and> dc_conns s = [Live] \<and> owners 0 (dc_free s) (dc_calls s) (dc_chans s) = 0
     \<and> (\<forall>ch. (\<forall>err. ch \<noteq> Done err) \<longrightarrow> pool_step (Call 1 ch) s = None)"
  by (rule exI[of _ "NewDC 1\<lparr>dc_total := 1, dc_conns := [Live], dc_reqs := {0}, dc_chans := [Empty],
        dc_calls := [Returned (Some (Wrap ''acquire connection'' ContextCanceled)), Waiting 0 0]\<rparr>"])
    (auto simp: NewDC_def call_step_def acquire_section_def goto_def acquire_failed_def owners_def at_def ErrConnDead_def split: choice.splits)

text \<open>
  A connection is lost when a waiting call is cancelled between the two halves of \<open>transfer\<close>: its
  request has left the map, the connection is not yet in the channel, so the call finds
  neither and returns, and the connection is sent to a channel that nobody reads.
\<close>

theorem cancelled_transfer_leaks:
  "\<exists>s. pool_run (busy_pool @ [Call 0 (Answer None False), Call 0 (Transfer 0), Call 1 (Done ContextCanceled), Call 1 Go, Call 1 Go, Call 0 Go]) (NewDC 1)
       = Some s
     \<and> dc_calls s = [Returned None, Returned (Some (Wrap ''acquire connection'' ContextCanceled))]
     \<and> dc_free s = [] \<and> dc_total s = 1 \<and> dc_chans s = [Full 0]"
  by (simp add: busy_pool_def NewDC_def call_step_def acquire_section_def goto_def acquire_failed_def ErrConnDead_def)

end
