(* ===== verification/Uploader.thy ===== *)
theory Uploader
  imports Sha Tgerr "HOL-Library.Multiset" "HOL-Library.Signed_Division"
begin

text \<open>
  Package \<open>telegram/uploader\<close>: files are split into parts and saved on the server, small ones
  one part after the other with a checksum (\<open>small.go\<close>), big ones and streams by several
  goroutines that take the parts from a channel (\<open>big.go\<close>); \<open>part.go\<close>, \<open>upload.go\<close> and
  \<open>uploader.go\<close> choose the size of the parts and keep the progress. The source is the bytes it
  delivers and the error it ends with, if that is not the end of the file. The answers of the
  server to successive requests are a list, each with the error of the context during a wait;
  a loop whose answers have run out has not returned yet, which is \<open>None\<close>. Sizes are Go's
  \<open>int\<close> and \<open>int64\<close>; those that occur are far from the ends of their range.
\<close>

unbundle bit_operations_syntax

section \<open>crypto/md5\<close>

text \<open>RFC 1321: the constants are the integer parts of \<open>2 ^ 32\<close> times the sines of 1 to 64.\<close>

definition md5_sines :: "32 word list" where
  "md5_sines =
   [3614090360, 3905402710, 606105819, 3250441966, 4118548399, 1200080426, 2821735955, 4249261313,
    1770035416, 2336552879, 4294925233, 2304563134, 1804603682, 4254626195, 2792965006, 1236535329,
    4129170786, 3225465664, 643717713, 3921069994, 3593408605, 38016083, 3634488961, 3889429448,
    568446438, 3275163606, 4107603335, 1163531501, 2850285829, 4243563512, 1735328473, 2368359562,
    4294588738, 2272392833, 1839030562, 4259657740, 2763975236, 1272893353, 4139469664, 3200236656,
    681279174, 3936430074, 3572445317, 76029189, 3654602809, 3873151461, 530742520, 3299628645,
    4096336452, 1126891415, 2878612391, 4237533241, 1700485571, 2399980690, 4293915773, 2240044497,
    1873313359, 4264355552, 2734768916, 1309151649, 4149444226, 3174756917, 718787259, 3951481745]"

definition md5_shifts :: "nat list" where
  "md5_shifts = concat (map (\<lambda>r. concat (replicate 4 r)) [[7, 12, 17, 22], [5, 9, 14, 20], [4, 11, 16, 23], [6, 10, 15, 21]])"

definition md5_pad :: "bytes \<Rightarrow> bytes" where
  "md5_pad m = m @ 128 # replicate ((119 - length m mod 64) mod 64) 0 @ le_bytes 8 (word_of_nat (8 * length m) :: 64 word)"

type_synonym md5_state = "32 word \<times> 32 word \<times> 32 word \<times> 32 word"

definition md5_round :: "32 word list \<Rightarrow> nat \<Rightarrow> md5_state \<Rightarrow> md5_state" where
  "md5_round ws i s =
     (case s of (a, b, c, d) \<Rightarrow>
      let (f, g) =
        (if i < 16 then ((b AND c) OR (NOT b AND d), i)
         else if i < 32 then ((d AND b) OR (NOT d AND c), (5 * i + 1) mod 16)
         else if i < 48 then (b XOR c XOR d, (3 * i + 5) mod 16)
         else (c XOR (b OR NOT d), (7 * i) mod 16))
      in (d, b + rotl (md5_shifts ! i) (f + a + md5_sines ! i + ws ! g), b, c))"

definition md5_block :: "bytes \<Rightarrow> md5_state \<Rightarrow> md5_state" where
  "md5_block block s =
     (case s of (a, b, c, d) \<Rightarrow>
      case fold (md5_round (map le_word (chunks 4 16 block))) [0..<64] s of (a', b', c', d') \<Rightarrow> (a + a', b + b', c + c', d + d'))"

definition md5_Sum :: "bytes \<Rightarrow> bytes" where
  "md5_Sum m =
     (let p = md5_pad m in
      case fold md5_block (chunks 64 (length p div 64) p) (1732584193, 4023233417, 2562383102, 271733878) of
        (a, b, c, d) \<Rightarrow> concat (map (le_bytes 4) [a, b, c, d]))"

definition hex_digit :: "nat \<Rightarrow> byte" where
  "hex_digit n = word_of_nat (if n < 10 then 48 + n else 87 + n)"

definition hex_EncodeToString :: "bytes \<Rightarrow> bytes" where
  "hex_EncodeToString bs = concat (map (\<lambda>b. [hex_digit (unat b div 16), hex_digit (unat b mod 16)]) bs)"

section \<open>part.go\<close>

definition bigFileLimit :: int where "bigFileLimit = 10 * 1024 * 1024"
definition partsLimit :: int where "partsLimit = 3999"
definition defaultPartSize :: int where "defaultPartSize = 128 * 1024"
definition paddingPartSize :: int where "paddingPartSize = 1024"
definition MaximumPartSize :: int where "MaximumPartSize = 524288"

definition checkPartSize :: "int \<Rightarrow> go_error option" where
  "checkPartSize partSize =
     (if partSize = 0 then Some (Errorf ''is equal to zero'' [])
      else if partSize smod paddingPartSize \<noteq> 0 then Some (Errorf ''%d is not divisible by %d'' [partSize, paddingPartSize])
      else if MaximumPartSize smod partSize \<noteq> 0 then Some (Errorf ''%d is not divisible by %d'' [MaximumPartSize, partSize])
      else None)"

definition computeParts :: "int \<Rightarrow> int \<Rightarrow> int" where
  "computeParts partSize totalSize =
     (if totalSize \<le> 0 then 0
      else let parts = totalSize sdiv partSize in if totalSize smod partSize \<noteq> 0 then parts + 1 else parts)"

function part_size_loop :: "int \<Rightarrow> int \<Rightarrow> int" where
  "part_size_loop partSize totalSize =
     (if 0 < partSize \<and> partSize < MaximumPartSize \<and> computeParts partSize totalSize > partsLimit
      then part_size_loop (partSize * 2) totalSize else partSize)"
  by pat_completeness auto
termination by (relation "measure (\<lambda>(p, _). nat (MaximumPartSize - p))") auto

declare part_size_loop.simps [simp del]

text \<open>The loop starts at a positive size, so the test for it never ends the loop.\<close>

definition computePartSize :: "int \<Rightarrow> int" where
  "computePartSize totalSize = part_size_loop defaultPartSize totalSize"

section \<open>upload.go, progress.go\<close>

record ProgressState =
  PS_ID :: "64 word"
  PS_Name :: bytes
  PS_Part :: int
  PS_PartSize :: int
  PS_Uploaded :: int
  PS_Total :: int

record Upload =
  u_id :: "64 word"
  u_sentParts :: int
  u_confirmedParts :: int
  u_confirmedBytes :: int
  u_totalParts :: int
  u_partSize :: int
  u_big :: bool
  u_totalBytes :: int
  u_name :: bytes

definition NewUpload :: "bytes \<Rightarrow> int \<Rightarrow> Upload" where
  "NewUpload name totalSize = \<lparr>u_id = 0, u_sentParts = 0, u_confirmedParts = 0, u_confirmedBytes = 0, u_totalParts = 0, u_partSize = -1,
     u_big = False, u_totalBytes = totalSize, u_name = name\<rparr>"

definition confirmLocked :: "int \<Rightarrow> int \<Rightarrow> Upload \<Rightarrow> ProgressState \<times> Upload" where
  "confirmLocked part n u =
     (let u = u\<lparr>u_confirmedBytes := u_confirmedBytes u + n\<rparr> in
      (\<lparr>PS_ID = u_id u, PS_Name = u_name u, PS_Part = part, PS_PartSize = u_partSize u, PS_Uploaded = u_confirmedBytes u, PS_Total = u_totalBytes u\<rparr>, u))"

definition confirmSmall :: "int \<Rightarrow> Upload \<Rightarrow> ProgressState \<times> Upload" where
  "confirmSmall n u =
     (let u = u\<lparr>u_confirmedParts := u_confirmedParts u + 1\<rparr> in confirmLocked (u_confirmedParts u) n u)"

definition confirm :: "int \<Rightarrow> int \<Rightarrow> Upload \<Rightarrow> ProgressState \<times> Upload" where
  "confirm part n u = confirmLocked part n u"

text \<open>\<open>initUpload\<close>, with the identifier that the generator returns.\<close>

definition initUpload :: "go_error + 64 word \<Rightarrow> int \<Rightarrow> Upload \<Rightarrow> go_error option \<times> Upload" where
  "initUpload newID partSize upload =
     (let big = u_totalBytes upload > bigFileLimit; totalParts = computeParts partSize (u_totalBytes upload) in
      if \<not> big \<and> totalParts > partsLimit then (Some (Errorf ''part size is too small'' [u_totalBytes upload, partSize]), upload)
      else
        case (if u_id upload = 0 then
                (case newID of Inl err \<Rightarrow> Inl (Wrap ''id generation'' err) | Inr i \<Rightarrow> Inr (upload\<lparr>u_id := i, u_partSize := partSize\<rparr>))
              else if u_partSize upload \<noteq> partSize then
                Inl (Errorf ''previous upload has part size %d, but uploader size is %d'' [u_partSize upload, partSize])
              else Inr upload)
        of Inl err \<Rightarrow> (Some err, upload)
         | Inr upload \<Rightarrow> (None, upload\<lparr>u_big := big, u_totalParts := totalParts\<rparr>))"

section \<open>small.go\<close>

text \<open>\<open>io.ReadFull\<close> on a source with its bytes to come and the error it ends with.\<close>

type_synonym source = "bytes \<times> go_error option"

definition source_ReadFull :: "nat \<Rightarrow> source \<Rightarrow> bytes \<times> go_error option \<times> source" where
  "source_ReadFull n src =
     (case src of (r, fail) \<Rightarrow>
      (take n r,
       if n \<le> length r then None
       else
         let err = (case fail of None \<Rightarrow> EOF | Some err \<Rightarrow> err) in
         if r \<noteq> [] \<and> err = EOF then Some ErrUnexpectedEOF else Some err,
       (drop n r, fail)))"

text \<open>\<open>errors.Is\<close> on an error that may be absent.\<close>

definition is_error :: "go_error \<Rightarrow> go_error option \<Rightarrow> bool" where
  "is_error target err = (case err of None \<Rightarrow> False | Some e \<Rightarrow> root_error e = target)"

text \<open>An answer: the context's error during a flood wait, and what the request returned.\<close>

record rpc_answer =
  an_ctx :: "go_error option"
  an_err :: "go_error option"
  an_ok :: bool

text \<open>
  The loop that sends one part until it is saved: the error it returns, if any, and the
  answers left.
\<close>

primrec save_loop :: "rpc_answer list \<Rightarrow> (go_error option \<times> rpc_answer list) option" where
  "save_loop [] = None"
| "save_loop (a # as) =
     (case FloodWait (an_ctx a) (an_err a) of
        ((flood, Some err), _) \<Rightarrow> if flood then save_loop as else Some (Some err, as)
      | ((_, None), _) \<Rightarrow> if an_ok a then Some (None, as) else save_loop as)"

lemma save_loop_shorter: "save_loop as = Some (r, as') \<Longrightarrow> length as' < length as"
  by (induction as) (auto split: prod.splits option.splits if_splits)

text \<open>A part that the server has saved.\<close>

record saved_part =
  sp_FilePart :: int
  sp_Bytes :: bytes

type_synonym progress = "ProgressState \<Rightarrow> go_error option"

text \<open>
  \<open>smallLoop\<close>: the result is its error, the parts saved, the bytes hashed and the upload
  afterwards. With parts of size zero the loop does not end.
\<close>

function smallLoop ::
  "progress \<Rightarrow> source \<Rightarrow> rpc_answer list \<Rightarrow> saved_part list \<Rightarrow> bytes \<Rightarrow> Upload \<Rightarrow>
   (go_error option \<times> saved_part list \<times> bytes \<times> Upload) option" where
  "smallLoop cb src as saved h upload =
     (if nat (u_partSize upload) = 0 then None
      else
        case source_ReadFull (nat (u_partSize upload)) src of (read, err, src') \<Rightarrow>
        let h = h @ read; isLast = is_error ErrUnexpectedEOF err in
        if err \<noteq> None \<and> \<not> isLast then
          (if root_error (the err) = EOF then Some (None, saved, h, upload)
           else Some (Some (Wrap ''read source'' (the err)), saved, h, upload))
        else
          case save_loop as of
            None \<Rightarrow> None
          | Some (Some e, as) \<Rightarrow> Some (Some (Wrap ''send upload RPC'' e), saved, h, upload)
          | Some (None, as) \<Rightarrow>
             let saved = saved @ [\<lparr>sp_FilePart = u_sentParts upload smod partsLimit, sp_Bytes = read\<rparr>];
                 upload = upload\<lparr>u_sentParts := u_sentParts upload + 1\<rparr>;
                 (ps, upload) = confirmSmall (int (length read)) upload
             in case cb ps of
                  Some e \<Rightarrow> Some (Some (Wrap ''progress callback'' e), saved, h, upload)
                | None \<Rightarrow> if isLast then Some (None, saved, h, upload) else smallLoop cb src' as saved h upload)"
  by pat_completeness auto
termination
  by (relation "measure (\<lambda>(cb, src, as, saved, h, upload). length as)") (auto dest: save_loop_shorter[OF sym] save_loop_shorter)

declare smallLoop.simps [simp del]

section \<open>big.go\<close>

record part =
  p_id :: int
  p_buf :: bytes

record saved_big =
  sb_FilePart :: int
  sb_FileTotalParts :: int
  sb_Bytes :: bytes

text \<open>
  A worker: waiting for a part, about to send one, waiting for the answer to a request (made
  with the total of that moment), or returned.
\<close>

datatype worker = Idle | HasPart part | Requested part int | Exited

text \<open>
  The goroutines of \<open>bigLoop\<close>: the reader with the part it wants to hand over and whether that
  is the last, the channel, the workers. \<open>bl_err\<close> is the first error, which ends the group; the
  model stops there.
\<close>

record BigLoop =
  bl_src :: source
  bl_reading :: bool
  bl_next :: "(part \<times> bool) option"
  bl_stream :: int
  bl_upload :: Upload
  bl_queue :: "part list"
  bl_closed :: bool
  bl_workers :: "worker list"
  bl_saved :: "saved_big list"
  bl_err :: "go_error option"

definition bigLoop_start :: "nat \<Rightarrow> source \<Rightarrow> Upload \<Rightarrow> BigLoop" where
  "bigLoop_start threads src upload =
     \<lparr>bl_src = src, bl_reading = True, bl_next = None, bl_stream = 0, bl_upload = upload, bl_queue = [], bl_closed = False,
      bl_workers = replicate threads Idle, bl_saved = [], bl_err = None\<rparr>"

text \<open>The reader: one round up to the \<open>select\<close>.\<close>

definition read_step :: "BigLoop \<Rightarrow> BigLoop" where
  "read_step b =
     (let u = bl_upload b in
      case source_ReadFull (nat (u_partSize u)) (bl_src b) of (read, err, src) \<Rightarrow>
      let b = b\<lparr>bl_src := src, bl_stream := bl_stream b + int (length read)\<rparr>;
          next = \<lparr>p_id = u_sentParts u, p_buf = read\<rparr>
      in case err of
           None \<Rightarrow> b\<lparr>bl_next := Some (next, False)\<rparr>
         | Some e \<Rightarrow>
            if root_error e = ErrUnexpectedEOF then
              b\<lparr>bl_next := Some (next, True),
                bl_upload := (if u_totalParts u = -1 then u\<lparr>u_totalParts := (bl_stream b + u_partSize u - 1) sdiv u_partSize u\<rparr> else u)\<rparr>
            else if root_error e = EOF then b\<lparr>bl_closed := True, bl_reading := False\<rparr>
            else b\<lparr>bl_err := Some (Wrap ''read source'' e)\<rparr>)"

definition push_step :: "part \<Rightarrow> bool \<Rightarrow> BigLoop \<Rightarrow> BigLoop" where
  "push_step p isLast b =
     (let b = b\<lparr>bl_queue := bl_queue b @ [p], bl_next := None, bl_upload := (bl_upload b)\<lparr>u_sentParts := u_sentParts (bl_upload b) + 1\<rparr>\<rparr> in
      if isLast then b\<lparr>bl_closed := True, bl_reading := False\<rparr> else b)"

text \<open>A worker on the answer to its request.\<close>

definition answer_step :: "progress \<Rightarrow> nat \<Rightarrow> part \<Rightarrow> int \<Rightarrow> rpc_answer \<Rightarrow> BigLoop \<Rightarrow> BigLoop" where
  "answer_step cb w p tot a b =
     (case FloodWait (an_ctx a) (an_err a) of
        ((flood, Some err), _) \<Rightarrow>
          if flood then b\<lparr>bl_workers := (bl_workers b)[w := HasPart p]\<rparr>
          else b\<lparr>bl_err := Some (Wrap ''upload part'' (Wrap ''send upload part RPC'' err))\<rparr>
      | ((_, None), _) \<Rightarrow>
          if \<not> an_ok a then b\<lparr>bl_workers := (bl_workers b)[w := HasPart p]\<rparr>
          else
            let (ps, u) = confirm (p_id p) (int (length (p_buf p))) (bl_upload b);
                b = b\<lparr>bl_saved := bl_saved b @ [\<lparr>sb_FilePart = p_id p, sb_FileTotalParts = tot, sb_Bytes = p_buf p\<rparr>],
                      bl_upload := u, bl_workers := (bl_workers b)[w := Idle]\<rparr>
            in case cb ps of Some e \<Rightarrow> b\<lparr>bl_err := Some (Wrap ''progress callback'' e)\<rparr> | None \<Rightarrow> b)"

datatype big_event = ReadPart | PushPart | TakePart nat | SendPart nat | Answered nat rpc_answer | ExitWorker nat

text \<open>The channel holds as many parts as there are workers.\<close>

definition big_step :: "progress \<Rightarrow> big_event \<Rightarrow> BigLoop \<Rightarrow> BigLoop option" where
  "big_step cb ev b =
     (if bl_err b \<noteq> None then None
      else
        case ev of
          ReadPart \<Rightarrow> if bl_reading b \<and> bl_next b = None then Some (read_step b) else None
        | PushPart \<Rightarrow>
            (case bl_next b of
               Some (p, isLast) \<Rightarrow> if length (bl_queue b) < length (bl_workers b) then Some (push_step p isLast b) else None
             | None \<Rightarrow> None)
        | TakePart w \<Rightarrow>
            if w < length (bl_workers b) \<and> bl_workers b ! w = Idle then
              (case bl_queue b of
                 p # q \<Rightarrow> Some (b\<lparr>bl_queue := q, bl_workers := (bl_workers b)[w := HasPart p]\<rparr>)
               | [] \<Rightarrow> None)
            else None
        | ExitWorker w \<Rightarrow>
            if w < length (bl_workers b) \<and> bl_workers b ! w = Idle \<and> bl_queue b = [] \<and> bl_closed b
            then Some (b\<lparr>bl_workers := (bl_workers b)[w := Exited]\<rparr>) else None
        | SendPart w \<Rightarrow>
            if w < length (bl_workers b) then
              (case bl_workers b ! w of
                 HasPart p \<Rightarrow> Some (b\<lparr>bl_workers := (bl_workers b)[w := Requested p (u_totalParts (bl_upload b))]\<rparr>)
               | _ \<Rightarrow> None)
            else None
        | Answered w a \<Rightarrow>
            if w < length (bl_workers b) then
              (case bl_workers b ! w of Requested p tot \<Rightarrow> Some (answer_step cb w p tot a b) | _ \<Rightarrow> None)
            else None)"

inductive big_reachable :: "progress \<Rightarrow> nat \<Rightarrow> source \<Rightarrow> Upload \<Rightarrow> BigLoop \<Rightarrow> bool" for cb threads src upload where
  start: "big_reachable cb threads src upload (bigLoop_start threads src upload)"
| step: "big_reachable cb threads src upload b \<Longrightarrow> big_step cb ev b = Some b' \<Longrightarrow> big_reachable cb threads src upload b'"

text \<open>\<open>g.Wait()\<close> returns without an error.\<close>

definition big_done :: "BigLoop \<Rightarrow> bool" where
  "big_done b \<longleftrightarrow> bl_err b = None \<and> \<not> bl_reading b \<and> (\<forall>w\<in>set (bl_workers b). w = Exited)"

section \<open>uploader.go\<close>

record Uploader =
  up_partSize :: int
  up_autoPartSize :: bool
  up_threads :: nat

definition NewUploader :: Uploader where
  "NewUploader = \<lparr>up_partSize = defaultPartSize, up_autoPartSize = True, up_threads = 1\<rparr>"

definition WithThreads :: "int \<Rightarrow> Uploader \<Rightarrow> Uploader" where
  "WithThreads threads u = (if threads > 0 then u\<lparr>up_threads := nat threads\<rparr> else u)"

definition WithPartSize :: "int \<Rightarrow> Uploader \<Rightarrow> Uploader" where
  "WithPartSize partSize u = u\<lparr>up_autoPartSize := False, up_partSize := partSize\<rparr>"

text \<open>\<open>Upload\<close> up to the choice of the loop.\<close>

definition prepare_upload :: "Uploader \<Rightarrow> go_error + 64 word \<Rightarrow> Upload \<Rightarrow> go_error + Upload" where
  "prepare_upload u newID upload =
     (let partSize = (if up_autoPartSize u \<and> u_totalBytes upload > 0 then computePartSize (u_totalBytes upload) else up_partSize u) in
      case checkPartSize partSize of
        Some err \<Rightarrow> Inl (Wrap ''invalid part size'' err)
      | None \<Rightarrow>
         (case initUpload newID partSize upload of
            (Some err, _) \<Rightarrow> Inl err
          | (None, upload) \<Rightarrow> Inr (if u_totalBytes upload = -1 then upload\<lparr>u_big := True, u_totalParts := -1\<rparr> else upload)))"

datatype input_file = InputFile "64 word" int bytes bytes | InputFileBig "64 word" int bytes

definition uploadSmall ::
  "progress \<Rightarrow> source \<Rightarrow> rpc_answer list \<Rightarrow> Upload \<Rightarrow> ((go_error + input_file) \<times> saved_part list) option" where
  "uploadSmall cb src as upload =
     (case smallLoop cb src as [] [] upload of
        None \<Rightarrow> None
      | Some (Some err, saved, _) \<Rightarrow> Some (Inl err, saved)
      | Some (None, saved, h, upload) \<Rightarrow>
         Some (Inr (InputFile (u_id upload) (u_sentParts upload) (u_name upload) (hex_EncodeToString (md5_Sum h))), saved))"

text \<open>What \<open>uploadBig\<close> returns for a run of the group that has ended.\<close>

definition uploadBig :: "BigLoop \<Rightarrow> (go_error + input_file) option" where
  "uploadBig b =
     (case bl_err b of
        Some err \<Rightarrow> Some (Inl err)
      | None \<Rightarrow> if big_done b then Some (Inr (InputFileBig (u_id (bl_upload b)) (u_sentParts (bl_upload b)) (u_name (bl_upload b)))) else None)"

section \<open>Lemmas\<close>

text \<open>The parts of a file.\<close>

function parts_of :: "nat \<Rightarrow> bytes \<Rightarrow> bytes list" where
  "parts_of n bs = (if n = 0 \<or> bs = [] then [] else take n bs # parts_of n (drop n bs))"
  by pat_completeness auto
termination by (relation "measure (\<lambda>(n, bs). length bs)") auto

declare parts_of.simps [simp del]

lemma parts_of_Nil [simp]: "parts_of n [] = []"
  by (simp add: parts_of.simps)

lemma parts_of_step: "0 < n \<Longrightarrow> bs \<noteq> [] \<Longrightarrow> parts_of n bs = take n bs # parts_of n (drop n bs)"
  by (simp add: parts_of.simps[of n bs])

lemma concat_parts_of: "0 < n \<Longrightarrow> concat (parts_of n bs) = bs"
  by (induction n bs rule: parts_of.induct) (subst parts_of.simps, auto)

lemma computeParts_nat:
  "computeParts (int n) (int l) = int (l div n + (if l mod n = 0 then 0 else 1))"
proof -
  have "int l sdiv int n = int (l div n)" "int l smod int n = int (l mod n)"
    by (simp_all add: signed_divide_int_def signed_modulo_int_def zdiv_int zmod_int sgn_if)
  then show ?thesis by (auto simp: computeParts_def Let_def)
qed

lemma length_parts_of: "0 < n \<Longrightarrow> length (parts_of n bs) = length bs div n + (if length bs mod n = 0 then 0 else 1)"
proof (induction n bs rule: parts_of.induct)
  case (1 n bs)
  show ?case
  proof (cases "length bs \<le> n")
    case True
    then consider "bs = []" | "bs \<noteq> []" "length bs = n" | "bs \<noteq> []" "length bs < n" by fastforce
    then show ?thesis using 1(2) by cases (auto simp: parts_of_step)
  next
    case False
    then have "bs \<noteq> []" by auto
    then show ?thesis using 1 False by (simp add: parts_of_step le_div_geq le_mod_geq)
  qed
qed

section \<open>Small files\<close>

text \<open>The requests that save the parts of a file, numbered from \<open>k\<close>.\<close>

definition small_parts :: "int \<Rightarrow> bytes list \<Rightarrow> saved_part list" where
  "small_parts k ps = map (\<lambda>(i, p). \<lparr>sp_FilePart = (k + int i) smod partsLimit, sp_Bytes = p\<rparr>) (enumerate 0 ps)"

lemma small_parts_Nil [simp]: "small_parts k [] = []"
  by (simp add: small_parts_def)

lemma small_parts_Cons [simp]:
  "small_parts k (p # ps) = \<lparr>sp_FilePart = k smod partsLimit, sp_Bytes = p\<rparr> # small_parts (k + 1) ps"
proof -
  have "enumerate (Suc 0) ps = map (\<lambda>(i, p). (Suc i, p)) (enumerate 0 ps)"
    by (rule nth_equalityI) (auto simp: nth_enumerate_eq)
  then show ?thesis by (simp add: small_parts_def case_prod_unfold algebra_simps)
qed

text \<open>One round of \<open>smallLoop\<close>, by what the read returned.\<close>

lemma source_ReadFull_None:
  "source_ReadFull n (r, None) =
     (take n r, if n \<le> length r then None else if r = [] then Some EOF else Some ErrUnexpectedEOF, (drop n r, None))"
  by (simp add: source_ReadFull_def)

lemma is_error_simps [simp]:
  "\<not> is_error t None" "is_error t (Some e) \<longleftrightarrow> root_error e = t"
  by (simp_all add: is_error_def)

definition confirmed :: "bytes \<Rightarrow> Upload \<Rightarrow> ProgressState \<times> Upload" where
  "confirmed read u = confirmSmall (int (length read)) (u\<lparr>u_sentParts := u_sentParts u + 1\<rparr>)"

lemma confirmed_simps [simp]:
  "u_sentParts (snd (confirmed read u)) = u_sentParts u + 1"
  "u_confirmedParts (snd (confirmed read u)) = u_confirmedParts u + 1"
  "u_confirmedBytes (snd (confirmed read u)) = u_confirmedBytes u + int (length read)"
  "u_partSize (snd (confirmed read u)) = u_partSize u"
  "u_id (snd (confirmed read u)) = u_id u"
  "u_name (snd (confirmed read u)) = u_name u"
  by (simp_all add: confirmed_def confirmSmall_def confirmLocked_def Let_def)

lemma smallLoop_eof: "0 < u_partSize u \<Longrightarrow> smallLoop cb ([], None) as saved h u = Some (None, saved, h, u)"
  by (subst smallLoop.simps) (simp add: source_ReadFull_None)

lemma smallLoop_part:
  assumes "0 < u_partSize u" "r \<noteq> []"
  shows "smallLoop cb (r, None) as saved h u =
    (let read = take (nat (u_partSize u)) r; saved' = saved @ small_parts (u_sentParts u) [read]; u' = snd (confirmed read u) in
     case save_loop as of
       None \<Rightarrow> None
     | Some (Some e, as') \<Rightarrow> Some (Some (Wrap ''send upload RPC'' e), saved, h @ read, u)
     | Some (None, as') \<Rightarrow>
        (case cb (fst (confirmed read u)) of
           Some e \<Rightarrow> Some (Some (Wrap ''progress callback'' e), saved', h @ read, u')
         | None \<Rightarrow> smallLoop cb (drop (nat (u_partSize u)) r, None) as' saved' (h @ read) u'))"
proof (cases "nat (u_partSize u) \<le> length r")
  case True
  then show ?thesis using assms
    by (subst smallLoop.simps) (auto simp: source_ReadFull_None confirmed_def case_prod_unfold Let_def split: option.split)
next
  case False
  have "smallLoop cb ([], None) as' s h' (snd (confirmed x u)) = Some (None, s, h', snd (confirmed x u))" for as' s h' x
    using assms(1) by (simp add: smallLoop_eof)
  then show ?thesis using assms False
    by (subst smallLoop.simps) (auto simp: source_ReadFull_None confirmed_def case_prod_unfold Let_def split: option.split)
qed

text \<open>What the loop has saved, hashed and counted when it has gone through the rest of a file.\<close>

definition small_result :: "bytes \<Rightarrow> saved_part list \<Rightarrow> bytes \<Rightarrow> Upload \<Rightarrow> saved_part list \<times> bytes \<times> Upload \<Rightarrow> bool" where
  "small_result r saved h u out =
     (case out of (saved', h', u') \<Rightarrow>
      let ps = parts_of (nat (u_partSize u)) r in
      saved' = saved @ small_parts (u_sentParts u) ps \<and> h' = h @ r \<and> u_sentParts u' = u_sentParts u + int (length ps) \<and>
      u_confirmedBytes u' = u_confirmedBytes u + int (length r) \<and> u_id u' = u_id u \<and> u_name u' = u_name u)"

lemma small_result_step:
  assumes "0 < u_partSize u" "r \<noteq> []"
      and "small_result (drop (nat (u_partSize u)) r) (saved @ small_parts (u_sentParts u) [take (nat (u_partSize u)) r])
             (h @ take (nat (u_partSize u)) r) (snd (confirmed (take (nat (u_partSize u)) r) u)) out"
  shows "small_result r saved h u out"
proof -
  have "int (length (take (nat (u_partSize u)) r)) + int (length (drop (nat (u_partSize u)) r)) = int (length r)" by simp
  then show ?thesis using assms by (auto simp: small_result_def Let_def parts_of_step split: prod.splits)
qed

lemma smallLoop_complete:
  assumes "0 < u_partSize u" "smallLoop cb (r, None) as saved h u = Some (None, out)"
  shows "small_result r saved h u out"
  using assms
proof (induction "length r" arbitrary: r as saved h u rule: less_induct)
  case less
  show ?case
  proof (cases "r = []")
    case True
    then show ?thesis using less.prems by (auto simp: smallLoop_eof small_result_def Let_def)
  next
    case False
    then show ?thesis using less.prems(2) unfolding smallLoop_part[OF less.prems(1) False]
      by (auto simp: Let_def less.prems(1) split: option.splits prod.splits
            intro!: small_result_step[OF less.prems(1) False] less.hyps)
  qed
qed

text \<open>Answers that let the loop go on: the part is saved, refused, or to be sent again after a flood wait.\<close>

definition harmless :: "rpc_answer \<Rightarrow> bool" where
  "harmless a \<longleftrightarrow> (case fst (FloodWait (an_ctx a) (an_err a)) of (flood, err) \<Rightarrow> err = None \<or> flood)"

definition saves :: "rpc_answer \<Rightarrow> bool" where
  "saves a \<longleftrightarrow> snd (fst (FloodWait (an_ctx a) (an_err a))) = None \<and> an_ok a"

lemma save_loop_returns:
  assumes "\<forall>a\<in>set as. harmless a" "k < length (filter saves as)"
  shows "\<exists>as'. save_loop as = Some (None, as') \<and> (\<forall>a\<in>set as'. harmless a) \<and> k \<le> length (filter saves as')"
  using assms
  by (induction as) (auto simp: harmless_def saves_def case_prod_unfold split: option.splits)

lemma smallLoop_returns:
  assumes "0 < u_partSize u" "\<And>ps. cb ps = None" "\<forall>a\<in>set as. harmless a"
      and "length (parts_of (nat (u_partSize u)) r) \<le> length (filter saves as)"
  shows "\<exists>out. smallLoop cb (r, None) as saved h u = Some (None, out)"
  using assms(1,3,4)
proof (induction "length r" arbitrary: r as saved h u rule: less_induct)
  case less
  show ?case
  proof (cases "r = []")
    case False
    have "length (parts_of (nat (u_partSize u)) (drop (nat (u_partSize u)) r)) < length (filter saves as)"
      using less.prems False by (simp add: parts_of_step)
    then obtain as' where "save_loop as = Some (None, as')" "\<forall>a\<in>set as'. harmless a"
        "length (parts_of (nat (u_partSize u)) (drop (nat (u_partSize u)) r)) \<le> length (filter saves as')"
      using save_loop_returns less.prems(2) by blast
    then show ?thesis using less.prems(1) False less.hyps[of "drop (nat (u_partSize u)) r"]
      by (simp add: smallLoop_part Let_def assms(2))
  qed (use less.prems in \<open>simp add: smallLoop_eof\<close>)
qed

lemma small_parts_numbered:
  assumes "0 \<le> k" "k + int (length ps) \<le> partsLimit"
  shows "small_parts k ps = map (\<lambda>(i, p). \<lparr>sp_FilePart = k + int i, sp_Bytes = p\<rparr>) (enumerate 0 ps)"
proof -
  have "(k + int i) smod partsLimit = k + int i" if "i < length ps" for i
    using that assms by (simp add: signed_modulo_int_def partsLimit_def sgn_if)
  then show ?thesis by (auto simp: small_parts_def enumerate_eq_zip)
      (auto dest!: set_zip_leftD)
qed

text \<open>
  C20. Uploading a small file of up to \<open>partsLimit\<close> parts: whatever the server answers, an upload
  that reports success has saved every part of the file once, numbered from 0 and in order, so
  that they make up the file; the description it returns has their number, which is what
  \<open>computeParts\<close> foresaw, and the checksum of the file. And it does report success once
  the server has saved as many parts as there are, if there is no error but flood waits.
\<close>

theorem uploadSmall_complete:
  assumes "0 < u_partSize u" "u_sentParts u = 0" "computeParts (u_partSize u) (int (length r)) \<le> partsLimit"
  shows "(\<forall>out saved. uploadSmall cb (r, None) as u = Some (Inr out, saved) \<longrightarrow>
           map sp_FilePart saved = map int [0..<length saved] \<and> concat (map sp_Bytes saved) = r \<and>
           int (length saved) = computeParts (u_partSize u) (int (length r)) \<and>
           out = InputFile (u_id u) (int (length saved)) (u_name u) (hex_EncodeToString (md5_Sum r))) \<and>
         ((\<forall>ps. cb ps = None) \<and> (\<forall>a\<in>set as. harmless a) \<and>
           computeParts (u_partSize u) (int (length r)) \<le> int (length (filter saves as)) \<longrightarrow>
           (\<exists>out saved. uploadSmall cb (r, None) as u = Some (Inr out, saved)))"
proof -
  let ?ps = "parts_of (nat (u_partSize u)) r"
  have parts: "int (length ?ps) = computeParts (u_partSize u) (int (length r))"
    using assms(1) computeParts_nat[of "nat (u_partSize u)" "length r"] length_parts_of[of "nat (u_partSize u)" r] by simp
  have numbered: "small_parts 0 ?ps = map (\<lambda>(i, p). \<lparr>sp_FilePart = int i, sp_Bytes = p\<rparr>) (enumerate 0 ?ps)"
    using small_parts_numbered[of 0 ?ps] parts assms(3) by simp
  have fields: "map sp_FilePart (small_parts 0 ?ps) = map int [0..<length ?ps]" "map sp_Bytes (small_parts 0 ?ps) = ?ps"
    "length (small_parts 0 ?ps) = length ?ps"
    unfolding numbered by (auto simp: enumerate_eq_zip intro: nth_equalityI)
  show ?thesis
  proof (rule conjI; intro allI impI)
    fix out saved
    assume up: "uploadSmall cb (r, None) as u = Some (Inr out, saved)"
    obtain h u' where "smallLoop cb (r, None) as [] [] u = Some (None, saved, h, u')"
        "out = InputFile (u_id u') (u_sentParts u') (u_name u') (hex_EncodeToString (md5_Sum h))"
      using up by (auto simp: uploadSmall_def split: option.splits prod.splits)
    then show "map sp_FilePart saved = map int [0..<length saved] \<and> concat (map sp_Bytes saved) = r \<and>
        int (length saved) = computeParts (u_partSize u) (int (length r)) \<and>
        out = InputFile (u_id u) (int (length saved)) (u_name u) (hex_EncodeToString (md5_Sum r))"
      using smallLoop_complete[OF assms(1)] assms(1,2) fields parts
      by (fastforce simp: small_result_def Let_def concat_parts_of)
  next
    assume ok: "(\<forall>ps. cb ps = None) \<and> (\<forall>a\<in>set as. harmless a) \<and>
      computeParts (u_partSize u) (int (length r)) \<le> int (length (filter saves as))"
    then obtain out where "smallLoop cb (r, None) as [] [] u = Some (None, out)"
      using smallLoop_returns[of u cb as r "[]" "[]"] assms(1) parts by auto
    then show "\<exists>out saved. uploadSmall cb (r, None) as u = Some (Inr out, saved)"
      by (cases out) (auto simp: uploadSmall_def)
  qed
qed

definition demo_upload :: Upload where
  "demo_upload = (NewUpload [97] 3)\<lparr>u_id := 7, u_partSize := 2, u_totalParts := 2\<rparr>"

lemma uploadSmall_complete_witness:
  "\<exists>out saved. uploadSmall (\<lambda>_. None) ([5, 6, 7], None)
      [\<lparr>an_ctx = None, an_err = None, an_ok = False\<rparr>, \<lparr>an_ctx = None, an_err = None, an_ok = True\<rparr>, \<lparr>an_ctx = None, an_err = None, an_ok = True\<rparr>]
      demo_upload = Some (Inr out, saved) \<and> map sp_FilePart saved = [0, 1] \<and> concat (map sp_Bytes saved) = [5, 6, 7]"
proof -
  have parts: "computeParts 2 3 = 2" by (simp add: computeParts_def signed_divide_int_def signed_modulo_int_def)
  have u: "u_partSize demo_upload = 2" "u_sentParts demo_upload = 0" by (simp_all add: demo_upload_def NewUpload_def)
  let ?as = "[\<lparr>an_ctx = None, an_err = None, an_ok = False\<rparr>, \<lparr>an_ctx = None, an_err = None, an_ok = True\<rparr>,
    \<lparr>an_ctx = None, an_err = None, an_ok = True\<rparr>]"
  have as: "\<forall>a\<in>set ?as. harmless a" "length (filter saves ?as) = 2"
    by (simp_all add: harmless_def saves_def FloodWait_def)
  have cond: "0 < u_partSize demo_upload" "computeParts (u_partSize demo_upload) (int (length [5, 6, 7 :: byte])) \<le> partsLimit"
    using parts by (simp_all add: u partsLimit_def)
  note th = uploadSmall_complete[OF cond(1) u(2) cond(2), of "\<lambda>_. None" ?as]
  have "\<exists>out saved. uploadSmall (\<lambda>_. None) ([5, 6, 7], None) ?as demo_upload = Some (Inr out, saved)"
    using conjunct2[OF th] as parts by (simp add: u)
  then obtain out saved where up: "uploadSmall (\<lambda>_. None) ([5, 6, 7], None) ?as demo_upload = Some (Inr out, saved)" by blast
  then have "length saved = 2" "map sp_FilePart saved = map int [0..<length saved]" "concat (map sp_Bytes saved) = [5, 6, 7]"
    using conjunct1[OF th, rule_format, OF up] parts by (simp_all add: u)
  then show ?thesis using up by (auto simp: numeral_2_eq_2)
qed

section \<open>Big files\<close>

text \<open>
  The parts of a file with their numbers. At every moment each of them is saved, with a
  worker, in the channel, in the hands of the reader or still to be read.
\<close>

primrec numbered :: "int \<Rightarrow> bytes list \<Rightarrow> (int \<times> bytes) list" where
  "numbered k [] = []"
| "numbered k (p # ps) = (k, p) # numbered (k + 1) ps"

primrec worker_part :: "worker \<Rightarrow> (int \<times> bytes) list" where
  "worker_part Idle = []"
| "worker_part (HasPart p) = [(p_id p, p_buf p)]"
| "worker_part (Requested p _) = [(p_id p, p_buf p)]"
| "worker_part Exited = []"

definition next_part :: "BigLoop \<Rightarrow> (int \<times> bytes) list" where
  "next_part b = (case bl_next b of None \<Rightarrow> [] | Some (p, _) \<Rightarrow> [(p_id p, p_buf p)])"

definition saved_pair :: "saved_big \<Rightarrow> int \<times> bytes" where
  "saved_pair s = (sb_FilePart s, sb_Bytes s)"

definition unread :: "nat \<Rightarrow> BigLoop \<Rightarrow> bytes list" where
  "unread n b = parts_of n (fst (bl_src b))"

definition unread_parts :: "nat \<Rightarrow> BigLoop \<Rightarrow> (int \<times> bytes) list" where
  "unread_parts n b = numbered (u_sentParts (bl_upload b) + int (length (next_part b))) (unread n b)"

definition all_parts :: "nat \<Rightarrow> BigLoop \<Rightarrow> (int \<times> bytes) multiset" where
  "all_parts n b =
     mset (map saved_pair (bl_saved b)) + mset (concat (map worker_part (bl_workers b))) +
     mset (map (\<lambda>p. (p_id p, p_buf p)) (bl_queue b)) + mset (next_part b) + mset (unread_parts n b)"

definition bytes_of :: "(int \<times> bytes) list \<Rightarrow> int" where
  "bytes_of ps = int (length (concat (map snd ps)))"

record big_goal =
  bg_size :: nat
  bg_file :: bytes
  bg_id :: "64 word"
  bg_name :: bytes

definition big_inv :: "big_goal \<Rightarrow> BigLoop \<Rightarrow> bool" where
  "big_inv g b \<longleftrightarrow>
     all_parts (bg_size g) b = mset (numbered 0 (parts_of (bg_size g) (bg_file g))) \<and>
     u_sentParts (bl_upload b) + int (length (next_part b)) + int (length (unread (bg_size g) b)) =
       int (length (parts_of (bg_size g) (bg_file g))) \<and>
     u_confirmedBytes (bl_upload b) = bytes_of (map saved_pair (bl_saved b)) \<and>
     u_partSize (bl_upload b) = int (bg_size g) \<and> u_id (bl_upload b) = bg_id g \<and> u_name (bl_upload b) = bg_name g \<and>
     snd (bl_src b) = None"

text \<open>The order in which the goroutines end.\<close>

definition end_inv :: "BigLoop \<Rightarrow> bool" where
  "end_inv b \<longleftrightarrow>
     (bl_closed b \<longleftrightarrow> \<not> bl_reading b) \<and> (bl_closed b \<longrightarrow> bl_next b = None \<and> fst (bl_src b) = []) \<and>
     (\<forall>p. bl_next b = Some (p, True) \<longrightarrow> fst (bl_src b) = []) \<and>
     (Exited \<in> set (bl_workers b) \<longrightarrow> bl_closed b \<and> bl_queue b = [])"

lemma mset_concat_update:
  "w < length ws \<Longrightarrow> mset (concat (map f (ws[w := x]))) + mset (f (ws ! w)) = mset (concat (map f ws)) + mset (f x)"
  by (induction ws arbitrary: w) (auto split: nat.splits simp: ac_simps)

text \<open>A worker that takes on a part, or gives it up, changes the parts with the workers by that part.\<close>

lemma workers_take:
  "w < length ws \<Longrightarrow> worker_part (ws ! w) = [] \<Longrightarrow>
   mset (concat (map worker_part (ws[w := x]))) = mset (worker_part x) + mset (concat (map worker_part ws))"
  using mset_concat_update[of w ws worker_part x] by (simp add: ac_simps)

lemma workers_same:
  "w < length ws \<Longrightarrow> worker_part (ws ! w) = worker_part x \<Longrightarrow>
   mset (concat (map worker_part (ws[w := x]))) = mset (concat (map worker_part ws))"
  using mset_concat_update[of w ws worker_part x] by simp

lemma workers_give:
  "w < length ws \<Longrightarrow> worker_part x = [] \<Longrightarrow>
   mset (concat (map worker_part ws)) = mset (worker_part (ws ! w)) + mset (concat (map worker_part (ws[w := x])))"
  using mset_concat_update[of w ws worker_part x] by (simp add: ac_simps)

lemma big_start_inv:
  assumes "0 < u_partSize u" "u_sentParts u = 0" "u_confirmedBytes u = 0"
  shows "big_inv \<lparr>bg_size = nat (u_partSize u), bg_file = r, bg_id = u_id u, bg_name = u_name u\<rparr> (bigLoop_start threads (r, None) u)"
proof -
  have "concat (map worker_part (replicate threads Idle)) = []" by simp
  then show ?thesis using assms
    by (simp add: big_inv_def bigLoop_start_def all_parts_def next_part_def unread_parts_def unread_def bytes_of_def)
qed

lemma end_start_inv: "end_inv (bigLoop_start threads src u)"
  by (auto simp: end_inv_def bigLoop_start_def)

text \<open>The reader on a source that ends with the end of the file.\<close>

lemma read_step_part:
  assumes "bl_src b = (r, None)" "u_partSize (bl_upload b) = int n" "0 < n" "r \<noteq> []"
  shows "\<exists>isLast t s. (isLast \<longrightarrow> length r < n) \<and>
    read_step b = b\<lparr>bl_src := (drop n r, None), bl_stream := s,
      bl_next := Some (\<lparr>p_id = u_sentParts (bl_upload b), p_buf = take n r\<rparr>, isLast),
      bl_upload := (bl_upload b)\<lparr>u_totalParts := t\<rparr>\<rparr>"
proof (cases "n \<le> length r")
  case True
  then show ?thesis using assms
    by (intro exI[of _ False] exI[of _ "u_totalParts (bl_upload b)"] exI[of _ "bl_stream b + int (length (take n r))"])
      (simp add: read_step_def source_ReadFull_None Let_def)
next
  case False
  then show ?thesis using assms
    by (intro exI[of _ True] exI[of _ "u_totalParts (bl_upload (read_step b))"] exI[of _ "bl_stream b + int (length (take n r))"])
      (simp add: read_step_def source_ReadFull_None Let_def)
qed

lemma read_step_end:
  "bl_src b = ([], None) \<Longrightarrow> u_partSize (bl_upload b) = int n \<Longrightarrow> 0 < n \<Longrightarrow>
   read_step b = b\<lparr>bl_src := ([], None), bl_stream := bl_stream b, bl_closed := True, bl_reading := False\<rparr>"
  by (simp add: read_step_def source_ReadFull_None Let_def)

lemma read_step_inv:
  assumes "big_inv g b" "0 < bg_size g" "bl_next b = None"
  shows "big_inv g (read_step b)"
proof -
  obtain r where src: "bl_src b = (r, None)" and n: "u_partSize (bl_upload b) = int (bg_size g)"
    using assms(1) by (cases "bl_src b") (simp add: big_inv_def)
  show ?thesis
  proof (cases "r = []")
    case True
    then show ?thesis using assms src n read_step_end[of b "bg_size g"]
      by (simp add: big_inv_def all_parts_def next_part_def unread_parts_def unread_def)
  next
    case False
    obtain isLast t s where "read_step b = b\<lparr>bl_src := (drop (bg_size g) r, None), bl_stream := s,
      bl_next := Some (\<lparr>p_id = u_sentParts (bl_upload b), p_buf = take (bg_size g) r\<rparr>, isLast),
      bl_upload := (bl_upload b)\<lparr>u_totalParts := t\<rparr>\<rparr>"
      using read_step_part[OF src n assms(2) False] by blast
    then show ?thesis using assms src False
      by (simp add: big_inv_def all_parts_def next_part_def unread_parts_def unread_def parts_of_step)
  qed
qed

lemma push_step_inv:
  assumes "big_inv g b" "bl_next b = Some (p, isLast)"
  shows "big_inv g (push_step p isLast b)"
  using assms by (cases isLast)
    (simp_all add: push_step_def Let_def big_inv_def all_parts_def next_part_def unread_parts_def unread_def ac_simps)

lemma answer_step_saves:
  assumes "snd (fst (FloodWait (an_ctx a) (an_err a))) = None" "an_ok a"
  shows "\<exists>e. answer_step cb w p tot a b =
    b\<lparr>bl_saved := bl_saved b @ [\<lparr>sb_FilePart = p_id p, sb_FileTotalParts = tot, sb_Bytes = p_buf p\<rparr>],
      bl_upload := (bl_upload b)\<lparr>u_confirmedBytes := u_confirmedBytes (bl_upload b) + int (length (p_buf p))\<rparr>,
      bl_workers := (bl_workers b)[w := Idle], bl_err := e\<rparr> \<and> (e = bl_err b \<or> e \<noteq> None)"
  using assms by (cases b, intro exI[of _ "bl_err (answer_step cb w p tot a b)"])
    (auto simp: answer_step_def confirm_def confirmLocked_def Let_def case_prod_unfold split: option.splits)

lemma answer_step_again:
  assumes "\<not> (snd (fst (FloodWait (an_ctx a) (an_err a))) = None \<and> an_ok a)"
  shows "answer_step cb w p tot a b = b\<lparr>bl_workers := (bl_workers b)[w := HasPart p]\<rparr> \<or>
    (\<exists>e. answer_step cb w p tot a b = b\<lparr>bl_err := Some e\<rparr>)"
  using assms by (auto simp: answer_step_def case_prod_unfold split: option.splits)

lemma answer_step_inv:
  assumes "big_inv g b" "w < length (bl_workers b)" "bl_workers b ! w = Requested p tot"
  shows "big_inv g (answer_step cb w p tot a b)"
proof (cases "snd (fst (FloodWait (an_ctx a) (an_err a))) = None \<and> an_ok a")
  case True
  have "mset (concat (map worker_part (bl_workers b))) =
      {#(p_id p, p_buf p)#} + mset (concat (map worker_part ((bl_workers b)[w := Idle])))"
    using workers_give[OF assms(2), of Idle] assms(3) by simp
  then show ?thesis using assms(1) True answer_step_saves[of a cb w p tot b]
    by (auto simp: big_inv_def all_parts_def next_part_def unread_parts_def unread_def saved_pair_def bytes_of_def ac_simps)
next
  case False
  have "mset (concat (map worker_part ((bl_workers b)[w := HasPart p]))) = mset (concat (map worker_part (bl_workers b)))"
    using assms(2,3) by (simp add: workers_same)
  then show ?thesis using assms(1) answer_step_again[OF False, of cb w p tot b]
    by (auto simp: big_inv_def all_parts_def next_part_def unread_parts_def unread_def)
qed

lemma big_step_inv:
  assumes "big_inv g b" "0 < bg_size g" "big_step cb ev b = Some b'"
  shows "big_inv g b'"
proof (cases ev)
  case ReadPart
  then show ?thesis using assms by (auto simp: big_step_def intro: read_step_inv split: if_splits)
next
  case PushPart
  then show ?thesis using assms by (auto simp: big_step_def intro: push_step_inv split: if_splits option.splits prod.splits)
next
  case (Answered w a)
  then show ?thesis using assms by (auto simp: big_step_def intro: answer_step_inv split: if_splits worker.splits)
next
  case (TakePart w)
  then show ?thesis using assms
    by (auto simp: big_step_def big_inv_def all_parts_def next_part_def unread_parts_def unread_def workers_take
          split: if_splits list.splits)
next
  case (SendPart w)
  then show ?thesis using assms
    by (auto simp: big_step_def big_inv_def all_parts_def next_part_def unread_parts_def unread_def workers_same
          split: if_splits worker.splits)
next
  case (ExitWorker w)
  then show ?thesis using assms
    by (auto simp: big_step_def big_inv_def all_parts_def next_part_def unread_parts_def unread_def workers_same
          split: if_splits)
qed

lemma Exited_update: "Exited \<in> set (ws[w := x]) \<Longrightarrow> x = Exited \<or> Exited \<in> set ws"
  using set_update_subset_insert[of ws w x] by auto

lemma read_step_end_inv:
  assumes "big_inv g b" "0 < bg_size g" "bl_next b = None" "bl_reading b" "end_inv b"
  shows "end_inv (read_step b)"
proof -
  obtain r where src: "bl_src b = (r, None)" and n: "u_partSize (bl_upload b) = int (bg_size g)"
    using assms(1) by (cases "bl_src b") (simp add: big_inv_def)
  show ?thesis
  proof (cases "r = []")
    case True
    then show ?thesis using assms src n read_step_end[of b "bg_size g"] by (simp add: end_inv_def)
  next
    case False
    then show ?thesis using assms src read_step_part[OF src n assms(2) False] by (auto simp: end_inv_def)
  qed
qed

lemma answer_step_end_inv:
  assumes "end_inv b"
  shows "end_inv (answer_step cb w p tot a b)"
proof (cases "snd (fst (FloodWait (an_ctx a) (an_err a))) = None \<and> an_ok a")
  case True
  then show ?thesis using assms answer_step_saves[of a cb w p tot b] by (auto simp: end_inv_def dest: Exited_update)
next
  case False
  then show ?thesis using assms answer_step_again[OF False, of cb w p tot b] by (auto simp: end_inv_def dest: Exited_update)
qed

lemma end_step_inv:
  assumes "end_inv b" "big_inv g b" "0 < bg_size g" "big_step cb ev b = Some b'"
  shows "end_inv b'"
proof (cases ev)
  case ReadPart
  then show ?thesis using assms by (auto simp: big_step_def intro: read_step_end_inv split: if_splits)
next
  case PushPart
  then show ?thesis using assms
    by (auto simp: big_step_def end_inv_def push_step_def Let_def split: if_splits option.splits prod.splits)
next
  case (Answered w a)
  then show ?thesis using assms by (auto simp: big_step_def intro: answer_step_end_inv split: if_splits worker.splits)
next
  case (TakePart w)
  then show ?thesis using assms by (auto simp: big_step_def end_inv_def dest: Exited_update split: if_splits list.splits)
next
  case (SendPart w)
  then show ?thesis using assms by (auto simp: big_step_def end_inv_def dest: Exited_update split: if_splits worker.splits)
next
  case (ExitWorker w)
  then show ?thesis using assms by (auto simp: big_step_def end_inv_def dest: Exited_update split: if_splits)
qed

lemma big_step_workers: "big_step cb ev b = Some b' \<Longrightarrow> length (bl_workers b') = length (bl_workers b)"
  by (auto simp: big_step_def read_step_def push_step_def answer_step_def Let_def case_prod_unfold
        split: big_event.splits if_splits option.splits list.splits worker.splits)

lemma big_reachable_inv:
  assumes "big_reachable cb threads (r, None) u b" "0 < u_partSize u" "u_sentParts u = 0" "u_confirmedBytes u = 0"
  shows "big_inv \<lparr>bg_size = nat (u_partSize u), bg_file = r, bg_id = u_id u, bg_name = u_name u\<rparr> b \<and> end_inv b \<and>
    length (bl_workers b) = threads"
  using assms(1)
proof induction
  case start
  then show ?case using big_start_inv[OF assms(2-4)] end_start_inv by (simp add: bigLoop_start_def)
next
  case (step b ev b')
  then show ?case using big_step_inv end_step_inv big_step_workers assms(2) by fastforce
qed

text \<open>
  C19. Uploading a big file with any number of goroutines: in every interleaving of the reader and
  the workers, with any answers of the server, when the group has ended without an error each
  part of the file has been saved exactly once under its number, all its bytes are confirmed,
  and the description has the number of parts.
\<close>

theorem bigLoop_complete:
  assumes "big_reachable cb threads (r, None) u b" "0 < threads" "0 < u_partSize u" "u_sentParts u = 0" "u_confirmedBytes u = 0"
      and "big_done b"
  shows "mset (map saved_pair (bl_saved b)) = mset (numbered 0 (parts_of (nat (u_partSize u)) r)) \<and>
         u_confirmedBytes (bl_upload b) = int (length r) \<and>
         uploadBig b = Some (Inr (InputFileBig (u_id u) (computeParts (u_partSize u) (int (length r))) (u_name u)))"
proof -
  let ?n = "nat (u_partSize u)"
  have inv: "big_inv \<lparr>bg_size = ?n, bg_file = r, bg_id = u_id u, bg_name = u_name u\<rparr> b" "end_inv b" "length (bl_workers b) = threads"
    using big_reachable_inv assms by blast+
  have "Exited \<in> set (bl_workers b)" using inv(3) assms(2,6) by (cases "bl_workers b") (auto simp: big_done_def)
  then have ended: "bl_queue b = []" "bl_next b = None" "fst (bl_src b) = []" using inv(2) by (auto simp: end_inv_def)
  have idle: "concat (map worker_part (bl_workers b)) = []" using assms(6) by (auto simp: big_done_def)
  have saved: "mset (map saved_pair (bl_saved b)) = mset (numbered 0 (parts_of ?n r))"
    using inv(1) ended idle by (simp add: big_inv_def all_parts_def next_part_def unread_parts_def unread_def)
  have bytes: "bytes_of ps = sum_mset (image_mset (\<lambda>(_, p). int (length p)) (mset ps))" for ps
    by (induction ps) (auto simp: bytes_of_def)
  have "bytes_of (numbered k ps) = int (length (concat ps))" for k ps
    by (induction ps arbitrary: k) (simp_all add: bytes_of_def)
  then have confirmed: "u_confirmedBytes (bl_upload b) = int (length r)"
    using inv(1) saved bytes assms(3) by (metis big_inv_def concat_parts_of zero_less_nat_eq)
  have "int (length (parts_of ?n r)) = computeParts (u_partSize u) (int (length r))"
    using assms(3) computeParts_nat[of ?n "length r"] length_parts_of[of ?n r] by simp
  then have "uploadBig b = Some (Inr (InputFileBig (u_id u) (computeParts (u_partSize u) (int (length r))) (u_name u)))"
    using inv(1) ended assms(6) by (simp add: big_inv_def uploadBig_def big_done_def next_part_def unread_def)
  then show ?thesis using saved confirmed by blast
qed

text \<open>
  The goroutines never wait for each other forever: as long as there is no error and the group
  has not ended, one of them can go on, if only by receiving the answer to its request.
\<close>

theorem bigLoop_not_stuck:
  assumes "big_reachable cb threads (r, None) u b" "0 < threads" "0 < u_partSize u" "u_sentParts u = 0" "u_confirmedBytes u = 0"
      and "bl_err b = None" "\<not> big_done b"
  shows "\<exists>ev b'. big_step cb ev b = Some b'"
proof (cases "\<exists>w < length (bl_workers b). bl_workers b ! w \<noteq> Idle \<and> bl_workers b ! w \<noteq> Exited")
  case True
  then obtain w where w: "w < length (bl_workers b)" "bl_workers b ! w \<noteq> Idle" "bl_workers b ! w \<noteq> Exited" by blast
  then show ?thesis using assms(6)
    by (cases "bl_workers b ! w") (auto simp: big_step_def intro: exI[of _ "SendPart w"] exI[of _ "Answered w a" for a])
next
  case False
  have inv: "end_inv b" "length (bl_workers b) = threads" using big_reachable_inv assms by blast+
  have idle: "Idle \<in> set (bl_workers b)" if reader: "\<not> bl_reading b"
  proof -
    obtain x where "x \<in> set (bl_workers b)" "x \<noteq> Exited" using reader assms(6,7) by (auto simp: big_done_def)
    then show ?thesis using False by (metis in_set_conv_nth)
  qed
  consider (read) "bl_reading b" "bl_next b = None"
    | (room) "bl_reading b" "bl_next b \<noteq> None" "bl_queue b = []"
    | (ended) "\<not> bl_reading b" "bl_queue b = []" "Idle \<in> set (bl_workers b)"
    | (queued) "bl_queue b \<noteq> []"
    using idle by blast
  then show ?thesis
  proof cases
    case read
    then show ?thesis using assms(6) by (auto simp: big_step_def intro!: exI[of _ ReadPart])
  next
    case room
    then show ?thesis using assms(2,6) inv(2) by (auto simp: big_step_def intro!: exI[of _ PushPart])
  next
    case ended
    then obtain w where "w < length (bl_workers b)" "bl_workers b ! w = Idle" by (auto simp: in_set_conv_nth)
    then show ?thesis using assms(6) ended inv(1) by (auto simp: big_step_def end_inv_def intro!: exI[of _ "ExitWorker w"])
  next
    case queued
    then have "Exited \<notin> set (bl_workers b)" using inv(1) by (auto simp: end_inv_def)
    then have "0 < length (bl_workers b)" "bl_workers b ! 0 = Idle"
      using False inv(2) assms(2) by (auto simp: in_set_conv_nth)
    then show ?thesis using assms(6) queued by (auto simp: big_step_def neq_Nil_conv intro!: exI[of _ "TakePart 0"])
  qed
qed

text \<open>A run of the group: the events in their order.\<close>

primrec big_run :: "progress \<Rightarrow> big_event list \<Rightarrow> BigLoop \<Rightarrow> BigLoop option" where
  "big_run cb [] b = Some b"
| "big_run cb (ev # evs) b = (case big_step cb ev b of None \<Rightarrow> None | Some b' \<Rightarrow> big_run cb evs b')"

lemma big_run_reachable:
  "big_reachable cb threads src u b \<Longrightarrow> big_run cb evs b = Some b' \<Longrightarrow> big_reachable cb threads src u b'"
  by (induction evs arbitrary: b) (auto split: option.splits intro: big_reachable.step)

definition demo_events :: "big_event list" where
  "demo_events =
     (let ok = \<lparr>an_ctx = None, an_err = None, an_ok = True\<rparr>; no = ok\<lparr>an_ok := False\<rparr> in
      [ReadPart, PushPart, TakePart 1, ReadPart, PushPart, TakePart 0, SendPart 0, SendPart 1, Answered 0 ok, ExitWorker 0, Answered 1 no, SendPart 1, Answered 1 ok, ExitWorker 1])"

lemma bigLoop_complete_witness:
  "\<exists>b. big_run (\<lambda>_. None) demo_events (bigLoop_start 2 ([5, 6, 7], None) demo_upload) = Some b \<and>
     mset (map saved_pair (bl_saved b)) = {#(0, [5, 6]), (1, [7])#} \<and> u_confirmedBytes (bl_upload b) = 3"
proof -
  let ?b = "the (big_run (\<lambda>_. None) demo_events (bigLoop_start 2 ([5, 6, 7], None) demo_upload))"
  have run: "big_run (\<lambda>_. None) demo_events (bigLoop_start 2 ([5, 6, 7], None) demo_upload) = Some ?b" and "done": "big_done ?b"
    by code_simp+
  have u: "u_partSize demo_upload = 2" "u_sentParts demo_upload = 0" "u_confirmedBytes demo_upload = 0"
    by (simp_all add: demo_upload_def NewUpload_def)
  have parts: "parts_of 2 [5, 6, 7 :: byte] = [[5, 6], [7]]" by (simp add: parts_of.simps)
  have "big_reachable (\<lambda>_. None) 2 ([5, 6, 7], None) demo_upload ?b"
    using big_run_reachable[OF big_reachable.start run] .
  then show ?thesis using bigLoop_complete[of "\<lambda>_. None" 2 "[5, 6, 7]" demo_upload ?b] run "done" parts by (auto simp: u)
qed

lemma bigLoop_not_stuck_witness:
  "\<exists>ev b'. big_step (\<lambda>_. None) ev (bigLoop_start 2 ([5, 6, 7], None) demo_upload) = Some b'"
proof (rule bigLoop_not_stuck[of "\<lambda>_. None" 2 "[5, 6, 7]" demo_upload])
  show "big_reachable (\<lambda>_. None) 2 ([5, 6, 7], None) demo_upload (bigLoop_start 2 ([5, 6, 7], None) demo_upload)"
    by (rule big_reachable.start)
qed (simp_all add: demo_upload_def NewUpload_def bigLoop_start_def big_done_def)

section \<open>The size of the parts\<close>

lemma computeParts_fits: "0 < p \<Longrightarrow> t \<le> partsLimit * p \<Longrightarrow> computeParts p t \<le> partsLimit"
proof (cases "0 < t")
  case True
  assume p: "0 < p" and t: "t \<le> partsLimit * p"
  have "t = t div p * p + t mod p" by simp
  moreover have "0 \<le> t mod p" "t mod p < p" using p by simp_all
  ultimately have "t div p * p \<le> partsLimit * p" "t mod p \<noteq> 0 \<longrightarrow> t div p * p < partsLimit * p" using t by linarith+
  then have "t div p \<le> partsLimit" "t mod p \<noteq> 0 \<longrightarrow> t div p < partsLimit" using p by simp_all
  then show ?thesis using True p by (auto simp: computeParts_def Let_def signed_divide_int_def signed_modulo_int_def sgn_if)
qed (simp add: computeParts_def partsLimit_def)

text \<open>
  The size chosen for a file that \<open>partsLimit\<close> parts can hold is valid, gives no more parts than
  that, and no smaller one on the way from the default would have done.
\<close>

theorem computePartSize_fits:
  assumes "t \<le> partsLimit * MaximumPartSize"
  shows "checkPartSize (computePartSize t) = None \<and> 0 < computePartSize t \<and> computeParts (computePartSize t) t \<le> partsLimit \<and>
         (defaultPartSize < computePartSize t \<longrightarrow> computeParts (computePartSize t div 2) t > partsLimit)"
proof -
  have start: "computePartSize t = part_size_loop 131072 t" by (simp add: computePartSize_def defaultPartSize_def)
  have check: "checkPartSize 131072 = None" "checkPartSize 262144 = None" "checkPartSize 524288 = None"
    by (simp_all add: checkPartSize_def paddingPartSize_def MaximumPartSize_def signed_modulo_int_def signed_divide_int_def)
  have stop: "part_size_loop 524288 t = 524288" by (subst part_size_loop.simps) (simp add: MaximumPartSize_def)
  have max: "computeParts 524288 t \<le> partsLimit" using computeParts_fits[of 524288 t] assms by (simp add: MaximumPartSize_def)
  show ?thesis
  proof (cases "computeParts 131072 t \<le> partsLimit")
    case True
    then have "computePartSize t = 131072" unfolding start by (subst part_size_loop.simps) simp
    then show ?thesis using True check by (simp add: defaultPartSize_def)
  next
    case over: False
    then have step: "computePartSize t = part_size_loop 262144 t"
      unfolding start by (subst part_size_loop.simps) (simp add: MaximumPartSize_def)
    show ?thesis
    proof (cases "computeParts 262144 t \<le> partsLimit")
      case True
      then have "computePartSize t = 262144" unfolding step by (subst part_size_loop.simps) simp
      then show ?thesis using True over check by simp
    next
      case False
      then have "computePartSize t = 524288"
        unfolding step by (subst part_size_loop.simps) (simp add: MaximumPartSize_def stop)
      then show ?thesis using False max check by simp
    qed
  qed
qed

lemma computePartSize_fits_witness: "computeParts (computePartSize 2000000000) 2000000000 \<le> partsLimit"
proof -
  have "(2000000000 :: int) \<le> partsLimit * MaximumPartSize" by (simp add: partsLimit_def MaximumPartSize_def)
  from computePartSize_fits[OF this] show ?thesis by blast
qed

text \<open>
  What \<open>Upload\<close> hands to the loops for a fresh upload of known size, with the size of the parts
  left to it: the conditions of the theorems about the loops.
\<close>

lemma part_size_loop_ge: "0 < p \<Longrightarrow> p \<le> part_size_loop p t"
  by (induction p t rule: part_size_loop.induct) (subst part_size_loop.simps, auto)

lemma prepare_upload_ready:
  assumes "prepare_upload up newID (NewUpload name t) = Inr u" "up_autoPartSize up" "0 < t"
  shows "u_partSize u = computePartSize t \<and> 0 < u_partSize u \<and> u_sentParts u = 0 \<and> u_confirmedBytes u = 0 \<and>
         u_totalParts u = computeParts (u_partSize u) t \<and> (u_big u \<longleftrightarrow> bigFileLimit < t) \<and>
         (\<not> u_big u \<longrightarrow> computeParts (u_partSize u) t \<le> partsLimit)"
proof -
  have "0 < computePartSize t" using part_size_loop_ge[of defaultPartSize t] by (simp add: computePartSize_def defaultPartSize_def)
  then show ?thesis using assms
    by (auto simp: prepare_upload_def initUpload_def NewUpload_def Let_def split: option.splits if_splits sum.splits)
qed

section \<open>Streams\<close>

primrec requests_unset :: "worker \<Rightarrow> bool" where
  "requests_unset Idle = True"
| "requests_unset (HasPart _) = True"
| "requests_unset (Requested _ tot) = (tot = -1)"
| "requests_unset Exited = True"

definition unset_total :: "nat \<Rightarrow> BigLoop \<Rightarrow> bool" where
  "unset_total n b \<longleftrightarrow>
     u_partSize (bl_upload b) = int n \<and> u_totalParts (bl_upload b) = -1 \<and>
     (\<forall>s\<in>set (bl_saved b). sb_FileTotalParts s = -1) \<and> list_all requests_unset (bl_workers b) \<and>
     snd (bl_src b) = None \<and> n dvd length (fst (bl_src b))"

lemma unset_total_read:
  assumes "unset_total n b" "0 < n"
  shows "unset_total n (read_step b)"
proof -
  obtain r where src: "bl_src b = (r, None)" and n: "u_partSize (bl_upload b) = int n" "n dvd length r"
    using assms(1) by (cases "bl_src b") (simp add: unset_total_def)
  show ?thesis
  proof (cases "r = []")
    case True
    then show ?thesis using assms src n read_step_end[of b n] by (simp add: unset_total_def)
  next
    case False
    then have "n \<le> length r" using n(2) by (simp add: dvd_imp_le)
    then show ?thesis using assms src n by (simp add: unset_total_def read_step_def source_ReadFull_None Let_def dvd_diff_nat)
  qed
qed

lemma list_all_update [simp]: "list_all P ws \<Longrightarrow> P y \<Longrightarrow> list_all P (ws[w := y])"
  using set_update_subset_insert[of ws w y] by (auto simp: list_all_iff)

lemma unset_total_answer:
  assumes "unset_total n b" "w < length (bl_workers b)" "bl_workers b ! w = Requested p tot"
  shows "unset_total n (answer_step cb w p tot a b)"
proof -
  have tot: "tot = -1" using assms by (force simp: unset_total_def list_all_length)
  show ?thesis
  proof (cases "snd (fst (FloodWait (an_ctx a) (an_err a))) = None \<and> an_ok a")
    case True
    then show ?thesis using assms(1) tot answer_step_saves[of a cb w p tot b]
      by (auto simp: unset_total_def)
  next
    case False
    then show ?thesis using assms(1) answer_step_again[OF False, of cb w p tot b]
      by (auto simp: unset_total_def)
  qed
qed

lemma unset_total_step:
  assumes "unset_total n b" "0 < n" "big_step cb ev b = Some b'"
  shows "unset_total n b'"
proof (cases ev)
  case ReadPart
  then show ?thesis using assms by (auto simp: big_step_def intro: unset_total_read split: if_splits)
next
  case PushPart
  then show ?thesis using assms
    by (auto simp: big_step_def unset_total_def push_step_def Let_def split: if_splits option.splits prod.splits)
next
  case (Answered w a)
  then show ?thesis using assms by (auto simp: big_step_def intro: unset_total_answer split: if_splits worker.splits)
next
  case (TakePart w)
  then show ?thesis using assms by (auto simp: big_step_def unset_total_def split: if_splits list.splits)
next
  case (SendPart w)
  then show ?thesis using assms by (auto simp: big_step_def unset_total_def split: if_splits worker.splits)
next
  case (ExitWorker w)
  then show ?thesis using assms by (auto simp: big_step_def unset_total_def split: if_splits)
qed

text \<open>
  A stream whose length is a multiple of the part size: the reader sets the total only on
  \<open>ErrUnexpectedEOF\<close>, so no request ever carries it.
\<close>

theorem aligned_stream_total_unset:
  assumes "big_reachable cb threads (r, None) u b" "0 < u_partSize u" "u_totalParts u = -1" "u_partSize u dvd int (length r)"
  shows "\<forall>s\<in>set (bl_saved b). sb_FileTotalParts s = -1"
proof -
  have "unset_total (nat (u_partSize u)) b"
    using assms(1)
  proof induction
    case start
    have "nat (u_partSize u) dvd length r" using assms(2,4) by (simp add: int_dvd_int_iff[symmetric])
    then show ?case using assms(2,3) by (simp add: unset_total_def bigLoop_start_def list_all_iff)
  next
    case (step b ev b')
    then show ?case using unset_total_step assms(2) by (meson zero_less_nat_eq)
  qed
  then show ?thesis by (simp add: unset_total_def)
qed

text \<open>
  A source cut short with \<open>io.ErrUnexpectedEOF\<close>, which is what the body of an HTTP answer
  returns when the connection ends before its announced length, is taken for the last part of
  the file: the upload of the prefix is reported as a success.
\<close>

theorem truncated_source_accepted:
  "\<exists>saved. uploadSmall (\<lambda>_. None) ([1, 2, 3], Some ErrUnexpectedEOF) [\<lparr>an_ctx = None, an_err = None, an_ok = True\<rparr>]
     ((NewUpload [] 4096)\<lparr>u_id := 7, u_partSize := 1024, u_totalParts := 4\<rparr>) =
   Some (Inr (InputFile 7 1 [] (hex_EncodeToString (md5_Sum [1, 2, 3]))), saved)"
  by (subst uploadSmall_def, subst smallLoop.simps)
    (simp add: source_ReadFull_def NewUpload_def FloodWait_def confirmSmall_def confirmLocked_def Let_def)

end
