(* ===== verification/Cdn.thy ===== *)
theory Cdn
  imports Aes Tgerr
begin

text \<open>
  Downloads from content delivery networks, \<open>telegram/downloader/{cdn_plan,cdn,cdn_verify}.go\<close> and
  \<open>cdn_state_machine.go\<close> with the retries of \<open>retry.go\<close> and the requests of \<open>master.go\<close>. The
  nodes of such a network are not trusted: they hold the file encrypted, and what they
  return is checked against hashes that the data centre of the file gives out. Offsets are Go's
  \<open>int64\<close> and \<open>int\<close>; those that occur are far from the ends of their range.
\<close>

unbundle bit_operations_syntax

section \<open>cdn\_plan.go\<close>

record cdnRequestRange =
  rr_offset :: int
  rr_limit :: int

definition cdnMinChunk :: int where "cdnMinChunk = 4 * 1024"
definition cdnMaxChunk :: int where "cdnMaxChunk = 1024 * 1024"

function largestCDNValidLimit :: "int \<Rightarrow> int" where
  "largestCDNValidLimit sz =
     (if sz \<ge> cdnMinChunk then if cdnMaxChunk mod sz = 0 then sz else largestCDNValidLimit (sz - cdnMinChunk) else 0)"
  by pat_completeness auto
termination by (relation "measure nat") (auto simp: cdnMinChunk_def)

declare largestCDNValidLimit.simps [simp del]

lemma largestCDNValidLimit_le: "0 \<le> sz \<Longrightarrow> largestCDNValidLimit sz \<le> sz"
  by (induction sz rule: largestCDNValidLimit.induct) (subst largestCDNValidLimit.simps, auto simp: cdnMinChunk_def)

lemma largestCDNValidLimit_nonneg: "0 \<le> largestCDNValidLimit sz"
  by (induction sz rule: largestCDNValidLimit.induct) (subst largestCDNValidLimit.simps, auto simp: cdnMinChunk_def)

lemma largestCDNValidLimit_pos: "largestCDNValidLimit sz \<noteq> 0 \<Longrightarrow> 0 < largestCDNValidLimit sz"
  using largestCDNValidLimit_nonneg[of sz] by simp

text \<open>The loop of \<open>buildCDNRequestPlan\<close>; the error is the one of a step of size zero.\<close>

function plan_loop :: "go_error \<Rightarrow> int \<Rightarrow> int \<Rightarrow> cdnRequestRange list \<Rightarrow> go_error + cdnRequestRange list" where
  "plan_loop err current remaining plan =
     (if remaining > 0 then
        let mbUsed = current mod cdnMaxChunk; mbLeft = cdnMaxChunk - mbUsed;
            maxForStep = (if remaining > mbLeft then mbLeft else remaining);
            step = largestCDNValidLimit maxForStep
        in if step = 0 then Inl err
           else plan_loop err (current + step) (remaining - step) (plan @ [\<lparr>rr_offset = current, rr_limit = step\<rparr>])
      else Inr plan)"
  by pat_completeness auto
termination
  by (relation "measure (\<lambda>(_, _, remaining, _). nat remaining)") (auto dest: largestCDNValidLimit_pos)

declare plan_loop.simps [simp del]

definition buildCDNRequestPlan :: "int \<Rightarrow> int \<Rightarrow> go_error + cdnRequestRange list" where
  "buildCDNRequestPlan offset limit =
     (if limit \<le> 0 then Inl (Errorf ''invalid CDN limit %d'' [limit])
      else if offset < 0 then Inl (Errorf ''invalid CDN offset %d'' [offset])
      else if offset mod cdnMinChunk \<noteq> 0 then Inl (Errorf ''CDN offset %d must be divisible by %d'' [offset, cdnMinChunk])
      else if limit mod cdnMinChunk \<noteq> 0 then Inl (Errorf ''CDN limit %d must be divisible by %d'' [limit, cdnMinChunk])
      else plan_loop (Errorf ''unable to build CDN request plan for offset=%d limit=%d'' [offset, limit]) offset limit [])"

section \<open>The plan\<close>

text \<open>A request that a node accepts: whole blocks of 4 KB, a divisor of 1 MB, inside one megabyte.\<close>

definition valid_range :: "cdnRequestRange \<Rightarrow> bool" where
  "valid_range r \<longleftrightarrow> rr_offset r mod cdnMinChunk = 0 \<and> 0 < rr_limit r \<and> rr_limit r mod cdnMinChunk = 0 \<and> cdnMaxChunk mod rr_limit r = 0 \<and>
     rr_offset r div cdnMaxChunk = (rr_offset r + rr_limit r - 1) div cdnMaxChunk"

text \<open>Ranges that follow each other from \<open>a\<close> to \<open>b\<close>.\<close>

primrec contiguous :: "int \<Rightarrow> cdnRequestRange list \<Rightarrow> int \<Rightarrow> bool" where
  "contiguous a [] b \<longleftrightarrow> a = b"
| "contiguous a (r # rs) b \<longleftrightarrow> rr_offset r = a \<and> contiguous (a + rr_limit r) rs b"

lemma contiguous_append: "contiguous a (rs @ rs') b \<longleftrightarrow> (\<exists>m. contiguous a rs m \<and> contiguous m rs' b)"
  by (induction rs arbitrary: a) auto

lemma largestCDNValidLimit_valid:
  assumes "cdnMinChunk \<le> sz" "sz mod cdnMinChunk = 0"
  shows "cdnMinChunk \<le> largestCDNValidLimit sz \<and> largestCDNValidLimit sz mod cdnMinChunk = 0 \<and> cdnMaxChunk mod largestCDNValidLimit sz = 0"
  using assms
proof (induction sz rule: largestCDNValidLimit.induct)
  case (1 sz)
  show ?case
  proof (cases "cdnMaxChunk mod sz = 0")
    case True
    then show ?thesis using 1(2,3) by (subst (1 2 3) largestCDNValidLimit.simps) simp
  next
    case False
    then have "sz \<noteq> cdnMinChunk" by (auto simp: cdnMaxChunk_def cdnMinChunk_def)
    moreover have "(sz - cdnMinChunk) mod cdnMinChunk = 0" using 1(3) by simp
    ultimately have "cdnMinChunk \<le> sz - cdnMinChunk" using 1(2,3) by (auto simp: cdnMinChunk_def)
    then have "largestCDNValidLimit sz = largestCDNValidLimit (sz - cdnMinChunk)"
      using False 1(2) by (subst largestCDNValidLimit.simps) simp
    then show ?thesis using 1 False \<open>cdnMinChunk \<le> sz - cdnMinChunk\<close> \<open>(sz - cdnMinChunk) mod cdnMinChunk = 0\<close> by simp
  qed
qed

lemma valid_step:
  assumes "0 \<le> current" "current mod cdnMinChunk = 0" "0 < remaining" "remaining mod cdnMinChunk = 0"
  defines "m \<equiv> (if remaining > cdnMaxChunk - current mod cdnMaxChunk then cdnMaxChunk - current mod cdnMaxChunk else remaining)"
  shows "valid_range \<lparr>rr_offset = current, rr_limit = largestCDNValidLimit m\<rparr> \<and> largestCDNValidLimit m \<le> remaining"
proof -
  have "current mod cdnMaxChunk < cdnMaxChunk" by (simp add: cdnMaxChunk_def)
  moreover have aligned: "(cdnMaxChunk - current mod cdnMaxChunk) mod cdnMinChunk = 0"
  proof -
    have "current mod cdnMaxChunk mod cdnMinChunk = 0" using assms(2) by (simp add: mod_mod_cancel cdnMaxChunk_def cdnMinChunk_def)
    then show ?thesis using mod_diff_eq[of cdnMaxChunk cdnMinChunk "current mod cdnMaxChunk"]
      by (simp add: cdnMaxChunk_def cdnMinChunk_def)
  qed
  ultimately have m: "0 < m" "m mod cdnMinChunk = 0" "m \<le> remaining" "m \<le> cdnMaxChunk - current mod cdnMaxChunk"
    using assms by (auto simp: m_def)
  then have "cdnMinChunk \<le> m" by (auto simp: cdnMinChunk_def dest: zdvd_imp_le[rotated])
  then have l: "cdnMinChunk \<le> largestCDNValidLimit m" "largestCDNValidLimit m mod cdnMinChunk = 0" "cdnMaxChunk mod largestCDNValidLimit m = 0"
      "largestCDNValidLimit m \<le> m"
    using largestCDNValidLimit_valid[of m] largestCDNValidLimit_le[of m] m by auto
  have "current div cdnMaxChunk = (current + largestCDNValidLimit m - 1) div cdnMaxChunk"
  proof -
    let ?r = "current mod cdnMaxChunk + largestCDNValidLimit m - 1"
    have r: "0 \<le> ?r" "?r < cdnMaxChunk" using l(1,4) m(4) pos_mod_sign[of cdnMaxChunk current]
      by (simp_all add: cdnMaxChunk_def cdnMinChunk_def)
    have "current + largestCDNValidLimit m - 1 = ?r + cdnMaxChunk * (current div cdnMaxChunk)" by simp
    also have "\<dots> div cdnMaxChunk = current div cdnMaxChunk + ?r div cdnMaxChunk"
      by (rule div_mult_self2) (simp add: cdnMaxChunk_def)
    finally show ?thesis using r by (simp add: div_pos_pos_trivial)
  qed
  then show ?thesis using l m assms(2) by (auto simp: valid_range_def cdnMinChunk_def)
qed

lemma plan_loop_covers:
  assumes "0 \<le> current" "current mod cdnMinChunk = 0" "0 \<le> remaining" "remaining mod cdnMinChunk = 0"
  shows "\<exists>rs. plan_loop err current remaining plan = Inr (plan @ rs) \<and> contiguous current rs (current + remaining) \<and> list_all valid_range rs"
  using assms
proof (induction err current remaining plan rule: plan_loop.induct)
  case (1 err current remaining plan)
  show ?case
  proof (cases "0 < remaining")
    case True
    define m where "m = (if remaining > cdnMaxChunk - current mod cdnMaxChunk then cdnMaxChunk - current mod cdnMaxChunk else remaining)"
    let ?s = "largestCDNValidLimit m"
    have s: "valid_range \<lparr>rr_offset = current, rr_limit = ?s\<rparr>" "?s \<le> remaining"
      using valid_step[OF 1(2,3) True 1(5)] by (simp_all add: m_def)
    then have pos: "0 < ?s" "?s mod cdnMinChunk = 0" by (simp_all add: valid_range_def)
    have unfold: "plan_loop err current remaining plan = plan_loop err (current + ?s) (remaining - ?s) (plan @ [\<lparr>rr_offset = current, rr_limit = ?s\<rparr>])"
      using True pos(1) by (subst plan_loop.simps) (simp add: m_def Let_def)
    have al: "(current + ?s) mod cdnMinChunk = 0" "(remaining - ?s) mod cdnMinChunk = 0"
      using 1(3,5) pos(2) by (simp_all add: mod_add_eq[symmetric] mod_diff_eq[symmetric])
    have "\<exists>rs. plan_loop err (current + ?s) (remaining - ?s) (plan @ [\<lparr>rr_offset = current, rr_limit = ?s\<rparr>]) =
          Inr ((plan @ [\<lparr>rr_offset = current, rr_limit = ?s\<rparr>]) @ rs) \<and>
        contiguous (current + ?s) rs (current + ?s + (remaining - ?s)) \<and> list_all valid_range rs"
      using 1(1)[OF True refl refl, of m ?s] 1(2) s(2) pos(1) al by (simp add: m_def)
    then obtain rs where "plan_loop err current remaining plan = Inr (plan @ \<lparr>rr_offset = current, rr_limit = ?s\<rparr> # rs)"
        "contiguous (current + ?s) rs (current + remaining)" "list_all valid_range rs"
      using unfold by auto
    then show ?thesis using s(1) by (intro exI[of _ "\<lparr>rr_offset = current, rr_limit = ?s\<rparr> # rs"]) simp
  next
    case False
    then show ?thesis using 1(4) by (subst plan_loop.simps) (auto intro!: exI[of _ "[]"])
  qed
qed

lemma plan_exists:
  assumes "0 \<le> offset" "0 < limit" "cdnMinChunk dvd offset" "cdnMinChunk dvd limit"
  shows "\<exists>plan. buildCDNRequestPlan offset limit = Inr plan \<and> contiguous offset plan (offset + limit) \<and> list_all valid_range plan"
  using assms plan_loop_covers[of offset limit "Errorf ''unable to build CDN request plan for offset=%d limit=%d'' [offset, limit]" "[]"]
  by (auto simp: buildCDNRequestPlan_def dvd_eq_mod_eq_0)

text \<open>
  C31. The requests for a chunk. When the limit is positive, the offset not negative and both are multiples of 4 KB
  there is a plan, each of its requests keeps the rules of the network, and they follow
  each other from the start to the end of the chunk; in every other case there is an error
  and no request.
\<close>

theorem buildCDNRequestPlan_covers:
  "if 0 < limit \<and> 0 \<le> offset \<and> 4096 dvd offset \<and> 4096 dvd limit
   then \<exists>plan. buildCDNRequestPlan offset limit = Inr plan \<and> plan \<noteq> [] \<and> contiguous offset plan (offset + limit) \<and> list_all valid_range plan
   else \<exists>err. buildCDNRequestPlan offset limit = Inl err"
proof (cases "0 < limit \<and> 0 \<le> offset \<and> 4096 dvd offset \<and> 4096 dvd limit")
  case True
  then obtain plan where "buildCDNRequestPlan offset limit = Inr plan" "contiguous offset plan (offset + limit)" "list_all valid_range plan"
    using plan_exists[of offset limit] by (auto simp: cdnMinChunk_def)
  then show ?thesis using True by (cases plan) auto
next
  case False
  then have "\<exists>err. buildCDNRequestPlan offset limit = Inl err"
    by (auto simp: buildCDNRequestPlan_def cdnMinChunk_def dvd_eq_mod_eq_0)
  then show ?thesis using False by auto
qed

theorem buildCDNRequestPlan_covers_witness:
  "(\<exists>plan. buildCDNRequestPlan 4096 12288 = Inr plan \<and> plan \<noteq> [] \<and> contiguous 4096 plan 16384 \<and> list_all valid_range plan)
   \<and> (\<exists>err. buildCDNRequestPlan 4096 0 = Inl err) \<and> (\<exists>err. buildCDNRequestPlan 5000 12288 = Inl err)"
  using buildCDNRequestPlan_covers[where offset = 4096 and limit = 12288] buildCDNRequestPlan_covers[where offset = 4096 and limit = 0]
    buildCDNRequestPlan_covers[where offset = 5000 and limit = 12288] by simp

section \<open>cdn.go: state\<close>

record FileHash =
  fh_Offset :: int
  fh_Limit :: int
  fh_Hash :: bytes

record UploadFileCDNRedirect =
  rd_DCID :: int
  rd_FileToken :: bytes
  rd_EncryptionKey :: bytes
  rd_EncryptionIv :: bytes
  rd_FileHashes :: "FileHash list"

datatype cdnMode = modeMaster | modeCDN

text \<open>
  The schema. \<open>c_client\<close> is the data centre of the client, if there is one; \<open>c_closed\<close> counts
  the clients that were closed. \<open>c_now\<close> counts the requests and other events outside of the
  schema, which is how the environment below knows the moment.
\<close>

record cdn =
  c_verify :: bool
  c_mode :: cdnMode
  c_redirect :: "UploadFileCDNRedirect option"
  c_client :: "int option"
  c_closed :: nat
  c_rev :: "64 word"
  c_hashes :: "int \<Rightarrow> FileHash option"
  c_hashOffsets :: "int list"
  c_windows :: "int \<Rightarrow> bytes option"
  c_windowsFIFO :: "int list"
  c_now :: nat

definition maxVerifiedWindowCache :: nat where "maxVerifiedWindowCache = 16"

definition newCDNSchema :: "bool \<Rightarrow> cdn" where
  "newCDNSchema verifyCDNInline =
     \<lparr>c_verify = verifyCDNInline, c_mode = modeMaster, c_redirect = None, c_client = None, c_closed = 0, c_rev = 0,
      c_hashes = Map.empty, c_hashOffsets = [], c_windows = Map.empty, c_windowsFIFO = [], c_now = 0\<rparr>"

definition closeClient :: "cdn \<Rightarrow> cdn" where
  "closeClient c = c\<lparr>c_client := None, c_closed := (if c_client c = None then c_closed c else Suc (c_closed c))\<rparr>"

definition snapshot :: "cdn \<Rightarrow> cdnMode \<times> UploadFileCDNRedirect option \<times> 64 word" where
  "snapshot c = (c_mode c, c_redirect c, c_rev c)"

section \<open>cdn\_verify.go: the caches\<close>

definition resetHashes :: "cdn \<Rightarrow> cdn" where
  "resetHashes c = c\<lparr>c_hashes := Map.empty, c_hashOffsets := []\<rparr>"

definition resetWindows :: "cdn \<Rightarrow> cdn" where
  "resetWindows c = c\<lparr>c_windows := Map.empty, c_windowsFIFO := []\<rparr>"

definition cachedWindow :: "FileHash \<Rightarrow> cdn \<Rightarrow> bytes option" where
  "cachedWindow h c =
     (case c_windows c (fh_Offset h) of
        None \<Rightarrow> None
      | Some w \<Rightarrow> if length w = 0 \<or> int (length w) > fh_Limit h then None else Some w)"

function evict_loop :: "int list \<Rightarrow> (int \<Rightarrow> bytes option) \<Rightarrow> int list \<times> (int \<Rightarrow> bytes option)" where
  "evict_loop fifo windows =
     (if length fifo > maxVerifiedWindowCache then evict_loop (tl fifo) (windows(hd fifo := None)) else (fifo, windows))"
  by pat_completeness auto
termination by (relation "measure (\<lambda>(fifo, _). length fifo)") (auto simp: maxVerifiedWindowCache_def)

declare evict_loop.simps [simp del]

definition cacheWindow :: "FileHash \<Rightarrow> bytes \<Rightarrow> cdn \<Rightarrow> cdn" where
  "cacheWindow h w c =
     (if fh_Limit h \<le> 0 \<or> length w = 0 \<or> int (length w) > fh_Limit h then c
      else
        let fifo = (if c_windows c (fh_Offset h) = None then c_windowsFIFO c @ [fh_Offset h] else c_windowsFIFO c);
            (fifo, windows) = evict_loop fifo ((c_windows c)(fh_Offset h \<mapsto> w))
        in c\<lparr>c_windows := windows, c_windowsFIFO := fifo\<rparr>)"

text \<open>\<open>sort.Search\<close>: binary search for the first index below \<open>j\<close> at which \<open>f\<close> holds.\<close>

function search_loop :: "(nat \<Rightarrow> bool) \<Rightarrow> nat \<Rightarrow> nat \<Rightarrow> nat" where
  "search_loop f i j =
     (if i < j then let h = (i + j) div 2 in if \<not> f h then search_loop f (h + 1) j else search_loop f i h else i)"
  by pat_completeness auto
termination by (relation "measure (\<lambda>(_, i, j). j - i)") auto

declare search_loop.simps [simp del]

definition sort_Search :: "nat \<Rightarrow> (nat \<Rightarrow> bool) \<Rightarrow> nat" where
  "sort_Search n f = search_loop f 0 n"

text \<open>The body of the loop of \<open>cacheHashes\<close>, on the map and the index.\<close>

definition cacheHash :: "FileHash \<Rightarrow> (int \<Rightarrow> FileHash option) \<times> int list \<Rightarrow> (int \<Rightarrow> FileHash option) \<times> int list" where
  "cacheHash h st =
     (case st of (hashes, offsets) \<Rightarrow>
      if fh_Limit h \<le> 0 then st
      else
        (hashes(fh_Offset h \<mapsto> h),
         if hashes (fh_Offset h) \<noteq> None then offsets
         else
           let idx = sort_Search (length offsets) (\<lambda>i. offsets ! i \<ge> fh_Offset h) in
           if idx = length offsets then offsets @ [fh_Offset h]
           else if offsets ! idx \<noteq> fh_Offset h then take idx offsets @ fh_Offset h # drop idx offsets
           else offsets))"

definition cacheHashes :: "FileHash list \<Rightarrow> cdn \<Rightarrow> cdn" where
  "cacheHashes hs c =
     (if hs = [] then c
      else case fold cacheHash hs (c_hashes c, c_hashOffsets c) of (hashes, offsets) \<Rightarrow> c\<lparr>c_hashes := hashes, c_hashOffsets := offsets\<rparr>)"

definition cdn_hash :: "int \<Rightarrow> cdn \<Rightarrow> FileHash option" where
  "cdn_hash offset c =
     (case c_hashes c offset of
        Some h \<Rightarrow> Some h
      | None \<Rightarrow>
         if c_hashOffsets c = [] then None
         else
           let idx = int (sort_Search (length (c_hashOffsets c)) (\<lambda>i. c_hashOffsets c ! i > offset)) - 1 in
           if idx < 0 then None
           else
             (case c_hashes c (c_hashOffsets c ! nat idx) of
                None \<Rightarrow> None
              | Some candidate \<Rightarrow>
                 if fh_Limit candidate \<le> 0 then None
                 else
                   let ends = fh_Offset candidate + fh_Limit candidate in
                   if offset \<ge> fh_Offset candidate \<and> offset < ends then Some candidate else None))"

definition setRedirect :: "UploadFileCDNRedirect option \<Rightarrow> cdn \<Rightarrow> cdn" where
  "setRedirect redirect c =
     (let c = resetWindows (resetHashes (c\<lparr>c_mode := modeCDN, c_redirect := redirect, c_rev := c_rev c + 1\<rparr>)) in
      case redirect of None \<Rightarrow> c | Some r \<Rightarrow> cacheHashes (rd_FileHashes r) c)"

definition setMaster :: "cdn \<Rightarrow> cdn" where
  "setMaster c = resetWindows (resetHashes (c\<lparr>c_mode := modeMaster, c_redirect := None, c_rev := c_rev c + 1\<rparr>))"

section \<open>The cache of hashes\<close>

text \<open>The search on a predicate that is false and then true.\<close>

lemma search_loop_bound: "i \<le> j \<Longrightarrow> i \<le> search_loop f i j \<and> search_loop f i j \<le> j"
proof (induction f i j rule: search_loop.induct)
  case (1 f i j)
  then show ?case by (subst (1 2) search_loop.simps) (fastforce simp: Let_def)
qed

lemma search_loop_first:
  assumes mono: "\<forall>k l. k \<le> l \<and> l < n \<and> f k \<longrightarrow> f l"
  shows "i \<le> j \<Longrightarrow> j \<le> n \<Longrightarrow> \<forall>k. k < i \<longrightarrow> \<not> f k \<Longrightarrow> \<forall>k. j \<le> k \<and> k < n \<longrightarrow> f k \<Longrightarrow>
    (\<forall>k. k < search_loop f i j \<longrightarrow> \<not> f k) \<and> (\<forall>k. search_loop f i j \<le> k \<and> k < n \<longrightarrow> f k)"
proof (induction "j - i" arbitrary: i j rule: less_induct)
  case less
  show ?case
  proof (cases "i < j")
    case True
    define h where "h = (i + j) div 2"
    have h: "i \<le> h" "h < j" using True by (auto simp: h_def)
    show ?thesis
    proof (cases "f h")
      case fh: True
      have eq: "search_loop f i j = search_loop f i h" using True fh by (subst search_loop.simps) (simp add: Let_def h_def)
      have "\<forall>k. h \<le> k \<and> k < n \<longrightarrow> f k" using mono fh by blast
      moreover have "h - i < j - i" "h \<le> n" using h less.prems(2) by simp_all
      ultimately show ?thesis unfolding eq using less.hyps[OF _ h(1) _ less.prems(3)] by blast
    next
      case fh: False
      have eq: "search_loop f i j = search_loop f (h + 1) j" using True fh by (subst search_loop.simps) (simp add: Let_def h_def)
      have "\<forall>k. k < h + 1 \<longrightarrow> \<not> f k"
      proof (intro allI impI notI)
        fix k assume "k < h + 1" "f k"
        then show False using mono[rule_format, of k h] fh h(2) less.prems(2) by simp
      qed
      moreover have "j - (h + 1) < j - i" "h + 1 \<le> j" using h by simp_all
      ultimately show ?thesis unfolding eq using less.hyps[OF _ _ less.prems(2) _ less.prems(4)] by blast
    qed
  next
    case False
    then have "search_loop f i j = i" by (subst search_loop.simps) simp
    then show ?thesis using False less.prems by (metis le_antisym not_less)
  qed
qed

lemma sort_Search_first:
  assumes "\<forall>k l. k \<le> l \<and> l < n \<and> f k \<longrightarrow> f l"
  shows "sort_Search n f \<le> n" "k < sort_Search n f \<Longrightarrow> \<not> f k" "sort_Search n f \<le> k \<Longrightarrow> k < n \<Longrightarrow> f k"
proof -
  have "\<forall>k. k < 0 \<longrightarrow> \<not> f k" "\<forall>k. n \<le> k \<and> k < n \<longrightarrow> f k" by auto
  then have first: "(\<forall>k. k < sort_Search n f \<longrightarrow> \<not> f k) \<and> (\<forall>k. sort_Search n f \<le> k \<and> k < n \<longrightarrow> f k)"
    unfolding sort_Search_def by (intro search_loop_first[OF assms]) simp_all
  show "sort_Search n f \<le> n" using search_loop_bound[of 0 n f] by (simp add: sort_Search_def)
  show "k < sort_Search n f \<Longrightarrow> \<not> f k" "sort_Search n f \<le> k \<Longrightarrow> k < n \<Longrightarrow> f k" using first by blast+
qed

lemma sorted_nth_less: "sorted_wrt (<) (xs :: int list) \<Longrightarrow> k \<le> l \<Longrightarrow> l < length xs \<Longrightarrow> xs ! k \<le> xs ! l"
  using sorted_wrt_nth_less[of "(<)" xs k l] by (cases "k = l") auto

text \<open>The two searches in the index: the first offset from \<open>x\<close> on and the first behind it.\<close>

lemma search_from:
  fixes x :: int
  assumes "sorted_wrt (<) xs"
  defines "n \<equiv> sort_Search (length xs) (\<lambda>i. x \<le> xs ! i)"
  shows "n \<le> length xs" "k < n \<Longrightarrow> xs ! k < x" "n \<le> k \<Longrightarrow> k < length xs \<Longrightarrow> x \<le> xs ! k"
proof -
  have mono: "\<forall>k l. k \<le> l \<and> l < length xs \<and> x \<le> xs ! k \<longrightarrow> x \<le> xs ! l" using sorted_nth_less[OF assms(1)] order_trans by blast
  show "n \<le> length xs" unfolding n_def by (rule sort_Search_first(1)[OF mono])
  show "k < n \<Longrightarrow> xs ! k < x" unfolding n_def by (drule sort_Search_first(2)[OF mono]) simp
  show "n \<le> k \<Longrightarrow> k < length xs \<Longrightarrow> x \<le> xs ! k" unfolding n_def by (rule sort_Search_first(3)[OF mono])
qed

lemma search_behind:
  fixes x :: int
  assumes "sorted_wrt (<) xs"
  defines "n \<equiv> sort_Search (length xs) (\<lambda>i. x < xs ! i)"
  shows "n \<le> length xs" "k < n \<Longrightarrow> xs ! k \<le> x" "n \<le> k \<Longrightarrow> k < length xs \<Longrightarrow> x < xs ! k"
proof -
  have mono: "\<forall>k l. k \<le> l \<and> l < length xs \<and> x < xs ! k \<longrightarrow> x < xs ! l" using sorted_nth_less[OF assms(1)] less_le_trans by blast
  show "n \<le> length xs" unfolding n_def by (rule sort_Search_first(1)[OF mono])
  show "k < n \<Longrightarrow> xs ! k \<le> x" unfolding n_def by (drule sort_Search_first(2)[OF mono]) simp
  show "n \<le> k \<Longrightarrow> k < length xs \<Longrightarrow> x < xs ! k" unfolding n_def by (rule sort_Search_first(3)[OF mono])
qed

text \<open>The index holds the offsets of the map in order; every hash is stored at its offset.\<close>

definition hashes_inv :: "(int \<Rightarrow> FileHash option) \<times> int list \<Rightarrow> bool" where
  "hashes_inv st =
     (case st of (hashes, offsets) \<Rightarrow>
      sorted_wrt (<) offsets \<and> set offsets = dom hashes \<and> (\<forall>k h. hashes k = Some h \<longrightarrow> fh_Offset h = k \<and> 0 < fh_Limit h))"

lemma cacheHash_inv:
  assumes "hashes_inv st"
  shows "hashes_inv (cacheHash h st)"
proof (cases "fh_Limit h \<le> 0 \<or> fst st (fh_Offset h) \<noteq> None")
  case True
  then show ?thesis using assms by (auto simp: cacheHash_def hashes_inv_def split: prod.splits)
next
  case new: False
  obtain hashes offsets where st: "st = (hashes, offsets)" by force
  let ?x = "fh_Offset h" and ?f = "\<lambda>i. offsets ! i \<ge> fh_Offset h"
  define idx where "idx = sort_Search (length offsets) ?f"
  have inv: "sorted_wrt (<) offsets" "set offsets = dom hashes" "\<forall>k h. hashes k = Some h \<longrightarrow> fh_Offset h = k \<and> 0 < fh_Limit h"
    using assms st by (simp_all add: hashes_inv_def)
  note idx = search_from[OF inv(1), where x = "fh_Offset h", folded idx_def]
  have notin: "?x \<notin> set offsets" using new inv(2) st by auto
  have left: "y < ?x" if "y \<in> set (take idx offsets)" for y using that idx(1,2) by (auto simp: in_set_conv_nth)
  have right: "?x < y" if y: "y \<in> set (drop idx offsets)" for y
  proof -
    obtain k where "k < length offsets - idx" "y = offsets ! (idx + k)" using y by (auto simp: in_set_conv_nth)
    then have "?x \<le> y" using idx(3)[of "idx + k"] by simp
    moreover have "y \<in> set offsets" using y by (rule in_set_dropD)
    ultimately show ?thesis using notin by (metis le_less)
  qed
  have "sorted_wrt (<) (take idx offsets @ drop idx offsets)" using inv(1) by simp
  then have "sorted_wrt (<) (take idx offsets @ ?x # drop idx offsets)"
    using left right by (fastforce simp: sorted_wrt_append)
  moreover have "set (take idx offsets @ ?x # drop idx offsets) = insert ?x (dom hashes)"
    using inv(2) by (metis Un_insert_right append_take_drop_id list.simps(15) set_append)
  moreover have "snd (cacheHash h st) = take idx offsets @ ?x # drop idx offsets"
    using new st notin idx(1) by (auto simp: cacheHash_def Let_def idx_def[symmetric] in_set_conv_nth)
  moreover have "fst (cacheHash h st) = hashes(?x \<mapsto> h)" using new st by (simp add: cacheHash_def)
  ultimately show ?thesis using inv(3) new by (cases "cacheHash h st") (auto simp: hashes_inv_def)
qed

lemma cacheHashes_inv: "hashes_inv st \<Longrightarrow> hashes_inv (fold cacheHash hs st)"
  by (induction hs arbitrary: st) (simp_all add: cacheHash_inv)

text \<open>What the lookup finds: the stored hash with the greatest offset up to the position, if its window contains it.\<close>

definition covers :: "FileHash \<Rightarrow> int \<Rightarrow> bool" where
  "covers h offset \<longleftrightarrow> fh_Offset h \<le> offset \<and> offset < fh_Offset h + fh_Limit h"

lemma cdn_hash_spec:
  assumes "hashes_inv (c_hashes c, c_hashOffsets c)"
  shows "cdn_hash offset c = Some h \<longleftrightarrow>
    c_hashes c (fh_Offset h) = Some h \<and> covers h offset \<and> (\<forall>k\<in>dom (c_hashes c). k \<le> offset \<longrightarrow> k \<le> fh_Offset h)"
proof -
  let ?offs = "c_hashOffsets c" and ?f = "\<lambda>i. c_hashOffsets c ! i > offset"
  have inv: "sorted_wrt (<) ?offs" "set ?offs = dom (c_hashes c)" "\<forall>k h. c_hashes c k = Some h \<longrightarrow> fh_Offset h = k \<and> 0 < fh_Limit h"
    using assms by (simp_all add: hashes_inv_def)
  show ?thesis
  proof (cases "c_hashes c offset")
    case (Some g)
    then have "cdn_hash offset c = Some g" by (simp add: cdn_hash_def)
    moreover have "fh_Offset g = offset" "0 < fh_Limit g" using inv(3) Some by auto
    ultimately show ?thesis using Some by (auto simp: covers_def dest!: bspec[of _ _ offset])
  next
    case None
    define n where "n = sort_Search (length ?offs) ?f"
    note n = search_behind[OF inv(1), where x = offset, folded n_def]
    have below: "\<exists>i<n. k = ?offs ! i" if "k \<in> dom (c_hashes c)" "k \<le> offset" for k
      using that n(3) inv(2) by (metis in_set_conv_nth leD not_less)
    show ?thesis
    proof (cases "n = 0")
      case True
      then have "cdn_hash offset c = None" using None by (auto simp: cdn_hash_def n_def[symmetric] Let_def)
      moreover have "\<not> (c_hashes c (fh_Offset h) = Some h \<and> covers h offset)" using below[of "fh_Offset h"] True by (auto simp: covers_def)
      ultimately show ?thesis by auto
    next
      case False
      then have p: "n - 1 < length ?offs" "nat (int n - 1) = n - 1" "?offs \<noteq> []" using n(1) by auto
      then obtain g where g: "c_hashes c (?offs ! (n - 1)) = Some g" using inv(2) nth_mem[of "n - 1" ?offs] by auto
      then have go: "fh_Offset g = ?offs ! (n - 1)" "0 < fh_Limit g" using inv(3) by auto
      have greatest: "k \<le> fh_Offset g" if "k \<in> dom (c_hashes c)" "k \<le> offset" for k
        using below[OF that] sorted_nth_less[OF inv(1) _ p(1)] go(1) by fastforce
      have "fh_Offset g \<le> offset" using n(2)[of "n - 1"] False go(1) by simp
      then have "cdn_hash offset c = (if covers g offset then Some g else None)"
        using None g go p False by (auto simp: cdn_hash_def n_def[symmetric] Let_def covers_def)
      moreover have "h = g" if "c_hashes c (fh_Offset h) = Some h" "covers h offset" "\<forall>k\<in>dom (c_hashes c). k \<le> offset \<longrightarrow> k \<le> fh_Offset h"
      proof -
        have "fh_Offset h \<le> fh_Offset g" using greatest[of "fh_Offset h"] that(1,2) by (auto simp: covers_def)
        moreover have "fh_Offset g \<le> fh_Offset h" using that(3) g go(1) \<open>fh_Offset g \<le> offset\<close> by auto
        ultimately show ?thesis using that(1) g go(1) by simp
      qed
      moreover have "\<forall>k\<in>dom (c_hashes c). k \<le> offset \<longrightarrow> k \<le> fh_Offset g" using greatest by blast
      ultimately show ?thesis using g go(1) by (metis (no_types, lifting) option.distinct(1) option.inject)
    qed
  qed
qed

lemma cacheHashes_simps [simp]:
  "c_verify (cacheHashes hs c) = c_verify c" "c_mode (cacheHashes hs c) = c_mode c" "c_redirect (cacheHashes hs c) = c_redirect c"
  "c_windows (cacheHashes hs c) = c_windows c" "c_windowsFIFO (cacheHashes hs c) = c_windowsFIFO c" "c_now (cacheHashes hs c) = c_now c"
  "(c_hashes (cacheHashes hs c), c_hashOffsets (cacheHashes hs c)) = fold cacheHash hs (c_hashes c, c_hashOffsets c)"
  by (simp_all add: cacheHashes_def split: prod.splits)

text \<open>The hash that counts for an offset: the last one that was given for it with a positive limit.\<close>

definition latest :: "FileHash list \<Rightarrow> int \<Rightarrow> FileHash option" where
  "latest hs k = find (\<lambda>h. fh_Offset h = k \<and> 0 < fh_Limit h) (rev hs)"

lemma fold_cacheHash_map:
  "fst (fold cacheHash hs st) k = (case latest hs k of None \<Rightarrow> fst st k | Some h \<Rightarrow> Some h)"
proof (induction hs rule: rev_induct)
  case (snoc h hs)
  then show ?case by (auto simp: latest_def cacheHash_def split: prod.splits)
qed (simp add: latest_def)

text \<open>
  C30. The cache of hashes as a whole: after any number of batches the binary search over its index finds,
  for every position, the hash with the greatest offset up to the position among the latest
  hashes of all offsets, if its window reaches the position; otherwise it finds nothing.
\<close>

theorem cdn_hash_finds:
  "cdn_hash offset (fold cacheHashes batches (resetHashes c)) = Some h \<longleftrightarrow>
     latest (concat batches) (fh_Offset h) = Some h \<and> covers h offset \<and>
     (\<forall>k. latest (concat batches) k \<noteq> None \<and> k \<le> offset \<longrightarrow> k \<le> fh_Offset h)"
proof -
  let ?c = "fold cacheHashes batches (resetHashes c)"
  have eq: "(c_hashes (fold cacheHashes bs d), c_hashOffsets (fold cacheHashes bs d)) = fold cacheHash (concat bs) (c_hashes d, c_hashOffsets d)"
    for bs d by (induction bs arbitrary: d) simp_all
  have empty: "(c_hashes (resetHashes c), c_hashOffsets (resetHashes c)) = (Map.empty, [])" by (simp add: resetHashes_def)
  have "hashes_inv (c_hashes ?c, c_hashOffsets ?c)"
    unfolding eq empty by (rule cacheHashes_inv) (simp add: hashes_inv_def)
  moreover have "c_hashes ?c k = latest (concat batches) k" for k
    using fold_cacheHash_map[of "concat batches" "(Map.empty, [])" k] eq[of batches "resetHashes c"] empty
    by (auto split: option.splits dest: arg_cong[of _ _ fst])
  ultimately show ?thesis using cdn_hash_spec[of ?c offset h] by (auto simp: dom_def)
qed

lemma cdn_hash_finds_witness:
  "cdn_hash 5 (fold cacheHashes [[\<lparr>fh_Offset = 8, fh_Limit = 4, fh_Hash = [1]\<rparr>, \<lparr>fh_Offset = 4, fh_Limit = 4, fh_Hash = [2]\<rparr>],
       [\<lparr>fh_Offset = 4, fh_Limit = 3, fh_Hash = [3]\<rparr>]] (resetHashes (newCDNSchema True))) = Some \<lparr>fh_Offset = 4, fh_Limit = 3, fh_Hash = [3]\<rparr>"
  by (subst cdn_hash_finds) (auto simp: latest_def covers_def)

section \<open>The cache of windows\<close>

text \<open>The queue and the map hold the same offsets, each once, and at most sixteen.\<close>

definition windows_inv :: "cdn \<Rightarrow> bool" where
  "windows_inv c \<longleftrightarrow> distinct (c_windowsFIFO c) \<and> set (c_windowsFIFO c) = dom (c_windows c) \<and> length (c_windowsFIFO c) \<le> maxVerifiedWindowCache"

lemma evict_loop_inv:
  assumes "distinct fifo" "set fifo = dom windows"
  shows "case evict_loop fifo windows of (fifo', windows') \<Rightarrow>
    distinct fifo' \<and> set fifo' = dom windows' \<and> length fifo' \<le> maxVerifiedWindowCache \<and> windows' \<subseteq>\<^sub>m windows"
  using assms
proof (induction fifo windows rule: evict_loop.induct)
  case (1 fifo windows)
  show ?case
  proof (cases "length fifo > maxVerifiedWindowCache")
    case True
    then obtain x xs where f: "fifo = x # xs" by (cases fifo) auto
    obtain fifo' windows' where e: "evict_loop xs (windows(x := None)) = (fifo', windows')" by force
    have "evict_loop fifo windows = (fifo', windows')" using True f e by (subst evict_loop.simps) simp
    moreover have "distinct fifo' \<and> set fifo' = dom windows' \<and> length fifo' \<le> maxVerifiedWindowCache \<and> windows' \<subseteq>\<^sub>m windows(x := None)"
    proof -
      have "distinct (tl fifo)" "set (tl fifo) = dom (windows(hd fifo := None))" using "1.prems" f by auto
      from "1.IH"[OF True this] show ?thesis unfolding f list.sel e prod.case .
    qed
    moreover from this have "windows' \<subseteq>\<^sub>m windows" by (auto intro: map_le_trans)
    ultimately show ?thesis by simp
  next
    case False
    then show ?thesis using "1.prems" by (subst evict_loop.simps) simp
  qed
qed

lemma cacheWindow_step:
  assumes "windows_inv c"
  shows "windows_inv (cacheWindow h w c) \<and>
    (cacheWindow h w c = c \<or> 0 < length w \<and> int (length w) \<le> fh_Limit h \<and> c_windows (cacheWindow h w c) \<subseteq>\<^sub>m (c_windows c)(fh_Offset h \<mapsto> w))"
proof -
  define fifo where "fifo = (if c_windows c (fh_Offset h) = None then c_windowsFIFO c @ [fh_Offset h] else c_windowsFIFO c)"
  define ws where "ws = (c_windows c)(fh_Offset h \<mapsto> w)"
  have "distinct fifo" "set fifo = dom ws" using assms by (auto simp: windows_inv_def fifo_def ws_def)
  then have "case evict_loop fifo ws of (fifo', windows') \<Rightarrow>
      distinct fifo' \<and> set fifo' = dom windows' \<and> length fifo' \<le> maxVerifiedWindowCache \<and> windows' \<subseteq>\<^sub>m ws"
    by (rule evict_loop_inv)
  then show ?thesis using assms
    by (cases "evict_loop fifo ws")
      (auto simp: cacheWindow_def windows_inv_def Let_def fifo_def[symmetric] ws_def[symmetric])
qed

lemma cacheWindow_windows:
  assumes "windows_inv c" "c_windows (cacheWindow h w c) k = Some v"
  shows "c_windows c k = Some v \<or> k = fh_Offset h \<and> v = w \<and> 0 < length w \<and> int (length w) \<le> fh_Limit h"
  using cacheWindow_step[OF assms(1), of h w] assms(2)
  by (auto simp: map_le_def domI split: if_splits dest!: bspec[of _ _ k])

end
