(* ===== verification/Cdn_Download.thy ===== *)
theory Cdn_Download
  imports Cdn
begin

text \<open>
  The state machine of \<open>telegram/downloader\<close> for files on a content delivery network:
  \<open>cdn_state_machine.go\<close>, the verification of \<open>cdn_verify.go\<close>, \<open>retry.go\<close> and the
  requests of \<open>master.go\<close>. The schema is shared by the goroutines of a download. The model follows one
  of them; while a request of it is under way the others may change the schema, which is the
  function \<open>e_others\<close> of the environment. The answers of the servers are functions of the moment and of
  the request. Calls that do not return are \<open>None\<close>: a request that is throttled forever, windows that
  grow while they are fetched, and \<open>singleflight\<close> waiting for itself. The callback that observes
  retries is left out.
\<close>

unbundle bit_operations_syntax

section \<open>crypto/aes, crypto/cipher\<close>

text \<open>AES for keys of 16, 24 and 32 bytes: \<open>nk\<close> words are expanded to four for each round and one more.\<close>

primrec aes_expand :: "nat \<Rightarrow> nat \<Rightarrow> byte \<Rightarrow> bytes list \<Rightarrow> bytes list" where
  "aes_expand nk 0 rcon ws = ws"
| "aes_expand nk (Suc n) rcon ws =
     (let i = length ws; t = last ws;
          u = (if i mod nk = 0 then map2 (XOR) (map sbox (rotate 1 t)) [rcon, 0, 0, 0]
               else if nk > 6 \<and> i mod nk = 4 then map sbox t else t)
      in aes_expand nk n (if i mod nk = 0 then xtime rcon else rcon) (ws @ [map2 (XOR) (ws ! (i - nk)) u]))"

definition aes_Encrypt :: "bytes \<Rightarrow> bytes \<Rightarrow> bytes" where
  "aes_Encrypt key block =
     (let nk = length key div 4; rounds = nk + 6;
          ks = map concat (chunks 4 (rounds + 1) (aes_expand nk (4 * (rounds + 1) - nk) 1 (chunks 4 nk key)))
      in map2 (XOR) (shift_rows (map sbox (fold aes_round (take (rounds - 1) (tl ks)) (map2 (XOR) block (hd ks))))) (ks ! rounds))"

definition ctr_byte :: "bytes \<Rightarrow> bytes \<Rightarrow> nat \<Rightarrow> byte" where
  "ctr_byte key iv i = aes_Encrypt key (be_bytes_nat 16 (be_nat iv + i div 16)) ! (i mod 16)"

definition decrypt :: "bytes \<Rightarrow> int \<Rightarrow> UploadFileCDNRedirect \<Rightarrow> go_error + bytes" where
  "decrypt src offset redirect =
     (let key = rd_EncryptionKey redirect; eiv = rd_EncryptionIv redirect in
      if length key \<notin> {16, 24, 32} then Inl (Wrap ''create cipher'' (Errorf ''crypto/aes: invalid key size'' [int (length key)]))
      else if length eiv \<noteq> 16 then Inl (Errorf ''invalid IV or key length, block size %d != IV %d'' [16, int (length eiv)])
      else
        let iv = take 12 eiv @ be_bytes32 (word_of_int (offset div 16)) in
        Inr (map2 (XOR) src (map (ctr_byte key iv) [0..<length src])))"

section \<open>The environment\<close>

record chunk =
  ch_data :: bytes
  ch_tag :: "32 word option"

datatype upload_file = FilePlain bytes "32 word" | FileRedirect "UploadFileCDNRedirect option" | FileOther

datatype cdn_file = CDNFile bytes | CDNFileReuploadNeeded bytes | CDNFileOther

text \<open>
  The first argument is the moment. \<open>e_ctx\<close> is \<open>ctx.Err()\<close>, \<open>e_wait\<close> the error of the context during a
  flood wait, \<open>e_timeout\<close> tells the timeouts of package \<open>net\<close>; \<open>e_CDN\<close> is the provider, which may
  return a nil client; the rest are requests. \<open>e_Flight\<close> is the result of another goroutine that
  loads the same window at the moment, if there is one.
\<close>

record cdn_env =
  e_others :: "nat \<Rightarrow> cdn \<Rightarrow> cdn"
  e_ctx :: "nat \<Rightarrow> go_error option"
  e_wait :: "nat \<Rightarrow> go_error option"
  e_timeout :: "go_error \<Rightarrow> bool"
  e_GetFile :: "nat \<Rightarrow> int \<Rightarrow> int \<Rightarrow> go_error + upload_file"
  e_Hashes :: "nat \<Rightarrow> int \<Rightarrow> go_error + FileHash list"
  e_CDN :: "nat \<Rightarrow> int \<Rightarrow> go_error + bool"
  e_GetCDNFile :: "nat \<Rightarrow> int \<Rightarrow> int \<Rightarrow> int \<Rightarrow> bytes \<Rightarrow> go_error + cdn_file"
  e_Reupload :: "nat \<Rightarrow> bytes \<Rightarrow> bytes \<Rightarrow> go_error + FileHash list"
  e_CDNHashes :: "nat \<Rightarrow> bytes \<Rightarrow> int \<Rightarrow> go_error + FileHash list"
  e_Flight :: "nat \<Rightarrow> FileHash \<Rightarrow> (go_error + bytes) option"

text \<open>A request is under way: the others run, the moment passes.\<close>

definition event :: "cdn_env \<Rightarrow> cdn \<Rightarrow> cdn" where
  "event env c = (e_others env (c_now c) c)\<lparr>c_now := Suc (c_now c)\<rparr>"

section \<open>master.go, retry.go\<close>

text \<open>An error of \<open>master.Chunk\<close>: \<open>*RedirectError\<close> or another.\<close>

datatype chunk_error = RedirectError "UploadFileCDNRedirect option" | OtherError go_error

definition master_Chunk :: "cdn_env \<Rightarrow> int \<Rightarrow> int \<Rightarrow> cdn \<Rightarrow> (chunk_error + chunk) \<times> cdn" where
  "master_Chunk env offset limit c =
     (case e_GetFile env (c_now c) offset limit of
        Inl err \<Rightarrow> Inl (OtherError err)
      | Inr (FilePlain bs t) \<Rightarrow> Inr \<lparr>ch_data = bs, ch_tag = Some t\<rparr>
      | Inr (FileRedirect r) \<Rightarrow> Inl (RedirectError r)
      | Inr FileOther \<Rightarrow> Inl (OtherError (Errorf ''unexpected type %T'' [])),
      event env c)"

definition maxRetryAttempts :: nat where "maxRetryAttempts = 20"

definition retryLimitErr :: "string \<Rightarrow> nat \<Rightarrow> go_error \<Rightarrow> go_error" where
  "retryLimitErr op attempts err = Wrap (op @ '': retry limit reached'') err"

definition isCDNFingerprintErr :: "go_error \<Rightarrow> bool" where
  "isCDNFingerprintErr err \<longleftrightarrow> root_error err = ErrKeyFingerprintNotFound"

definition isCDNMasterFallbackErr :: "go_error \<Rightarrow> bool" where
  "isCDNMasterFallbackErr err \<longleftrightarrow> Is err [ascii ''FILE_TOKEN_INVALID'', ascii ''REQUEST_TOKEN_INVALID'']"

text \<open>The arguments are \<open>ctx.Err()\<close> and which errors are timeouts of package \<open>net\<close>.\<close>

definition isRetryableTimeout :: "go_error option \<Rightarrow> (go_error \<Rightarrow> bool) \<Rightarrow> go_error \<Rightarrow> bool" where
  "isRetryableTimeout ctxErr netTimeout err \<longleftrightarrow>
     ctxErr = None \<and> (Is err [ascii ''Timeout''] \<or> root_error err = ContextDeadlineExceeded \<or> netTimeout err)"

text \<open>\<open>retryRequest\<close> around a request for a chunk, with a bound on its rounds.\<close>

primrec retryRequest ::
  "nat \<Rightarrow> cdn_env \<Rightarrow> string \<Rightarrow> (cdn \<Rightarrow> (chunk_error + 'a) \<times> cdn) \<Rightarrow> nat \<Rightarrow> cdn \<Rightarrow> ((chunk_error + 'a) \<times> cdn) option" where
  "retryRequest 0 env op fn timeoutRetries c = None"
| "retryRequest (Suc fuel) env op fn timeoutRetries c =
     (case e_ctx env (c_now c) of
        Some err \<Rightarrow> Some (Inl (OtherError err), c)
      | None \<Rightarrow>
         (case fn c of
            (Inl (OtherError err), c) \<Rightarrow>
              (case FloodWait (e_wait env (c_now c)) (Some err) of
                 ((flood, Some waitErr), _) \<Rightarrow>
                   if flood then
                     (case e_ctx env (c_now c) of
                        Some ctxErr \<Rightarrow> Some (Inl (OtherError ctxErr), c)
                      | None \<Rightarrow> retryRequest fuel env op fn timeoutRetries c)
                   else if isRetryableTimeout (e_ctx env (c_now c)) (e_timeout env) waitErr then
                     if Suc timeoutRetries \<ge> maxRetryAttempts
                     then Some (Inl (OtherError (retryLimitErr op (Suc timeoutRetries) waitErr)), c)
                     else retryRequest fuel env op fn (Suc timeoutRetries) c
                   else Some (Inl (OtherError waitErr), c)
               | ((_, None), _) \<Rightarrow> Some (Inl (OtherError err), c))
          | r \<Rightarrow> Some r))"

section \<open>cdn\_state\_machine.go\<close>

definition cdnRefreshProbeLimit :: int where "cdnRefreshProbeLimit = 4 * 1024"

definition ensureClient :: "cdn_env \<Rightarrow> int \<Rightarrow> cdn \<Rightarrow> go_error option \<times> cdn" where
  "ensureClient env dcID c =
     (if c_client c = Some dcID then (None, c)
      else
        let c = closeClient c in
        case e_CDN env (c_now c) dcID of
          Inl err \<Rightarrow> (Some err, event env c)
        | Inr client \<Rightarrow>
           if \<not> client then (Some (Errorf ''cdn provider returned nil client'' []), event env c)
           else (None, (event env c)\<lparr>c_client := Some dcID\<rparr>))"

definition activateRedirect :: "cdn_env \<Rightarrow> UploadFileCDNRedirect option \<Rightarrow> cdn \<Rightarrow> go_error option \<times> cdn" where
  "activateRedirect env redirect c =
     (case redirect of
        None \<Rightarrow> (None, setMaster c)
      | Some r \<Rightarrow>
         (case ensureClient env (rd_DCID r) c of
            (Some err, c) \<Rightarrow> (Some err, c)
          | (None, c) \<Rightarrow> (None, setRedirect redirect c)))"

text \<open>
  What the three callers do with an error of the client's creation: report it, or close the
  client, whose keys are stale, and try again (\<open>None\<close>).
\<close>

definition client_failed :: "go_error \<Rightarrow> cdn \<Rightarrow> go_error option \<times> cdn" where
  "client_failed err c =
     (if root_error err = ContextCanceled \<or> root_error err = ContextDeadlineExceeded then (Some (Wrap ''create CDN client'' err), c)
      else if isCDNFingerprintErr err then (None, closeClient c)
      else (Some (Wrap ''create CDN client'' err), c))"

definition refreshRedirect :: "nat \<Rightarrow> cdn_env \<Rightarrow> int \<Rightarrow> int \<Rightarrow> 64 word \<Rightarrow> cdn \<Rightarrow> ((go_error + chunk option) \<times> cdn) option" where
  "refreshRedirect fuel env offset limit prevRev c =
     (let limit = (if limit \<le> 0 then cdnRefreshProbeLimit else limit) in
      if c_rev c \<noteq> prevRev then Some (Inr None, c)
      else
        case retryRequest fuel env ''refresh CDN redirect'' (master_Chunk env offset limit) 0 c of
          None \<Rightarrow> None
        | Some (Inr ch, c) \<Rightarrow> Some (Inr (Some ch), setMaster c)
        | Some (Inl (RedirectError r), c) \<Rightarrow>
           (case activateRedirect env r c of
              (None, c) \<Rightarrow> Some (Inr None, c)
            | (Some err, c) \<Rightarrow>
               (case client_failed err c of (Some err, c) \<Rightarrow> Some (Inl err, c) | (None, c) \<Rightarrow> Some (Inr None, c)))
        | Some (Inl (OtherError err), c) \<Rightarrow> Some (Inl (Wrap ''refresh CDN redirect'' err), c))"

text \<open>The chunk of the master, whether to retry, whether the error was handled, and the error.\<close>

type_synonym recovery = "chunk option \<times> bool \<times> bool \<times> go_error option"

definition recoverCDNControlError ::
  "nat \<Rightarrow> cdn_env \<Rightarrow> go_error \<Rightarrow> int \<Rightarrow> int \<Rightarrow> 64 word \<Rightarrow> cdn \<Rightarrow> (recovery \<times> cdn) option" where
  "recoverCDNControlError fuel env err offset limit revision c =
     (if isCDNFingerprintErr err then Some ((None, True, True, None), closeClient c)
      else if \<not> isCDNMasterFallbackErr err then Some ((None, False, False, None), c)
      else
        case refreshRedirect fuel env offset limit revision c of
          None \<Rightarrow> None
        | Some (Inl refreshErr, c) \<Rightarrow> Some ((None, False, True, Some refreshErr), c)
        | Some (Inr (Some masterChunk), c) \<Rightarrow> Some ((Some masterChunk, False, True, None), c)
        | Some (Inr None, c) \<Rightarrow> Some ((None, True, True, None), c))"

text \<open>How the requests of a plan end: with a result of \<open>Chunk\<close>, with a retry, or with the data.\<close>

datatype parts = PartsReturn "go_error + chunk" | PartsRetry | PartsDone bytes

definition after_recovery :: "string \<Rightarrow> go_error \<Rightarrow> (cdn \<Rightarrow> (parts \<times> cdn) option) \<Rightarrow> (recovery \<times> cdn) option \<Rightarrow> (parts \<times> cdn) option" where
  "after_recovery op err next r =
     (case r of
        None \<Rightarrow> None
      | Some ((fallback, retry, handled, recoverErr), c) \<Rightarrow>
         (case recoverErr of
            Some e \<Rightarrow> Some (PartsReturn (Inl e), c)
          | None \<Rightarrow>
             if handled then
               (case fallback of
                  Some ch \<Rightarrow> Some (PartsReturn (Inr ch), c)
                | None \<Rightarrow> if retry then Some (PartsRetry, c) else next c)
             else Some (PartsReturn (Inl (Wrap op err)), c)))"

primrec part_loop ::
  "nat \<Rightarrow> cdn_env \<Rightarrow> int \<Rightarrow> int \<Rightarrow> UploadFileCDNRedirect \<Rightarrow> 64 word \<Rightarrow> cdnRequestRange list \<Rightarrow> bytes \<Rightarrow> cdn \<Rightarrow> (parts \<times> cdn) option" where
  "part_loop fuel env offset limit redirect revision [] bs c = Some (PartsDone bs, c)"
| "part_loop fuel env offset limit redirect revision (req # plan) bs c =
     (case e_GetCDNFile env (c_now c) (rd_DCID redirect) (rr_offset req) (rr_limit req) (rd_FileToken redirect) of
        Inl err \<Rightarrow>
          after_recovery ''cdn chunk'' err (part_loop fuel env offset limit redirect revision plan bs)
            (recoverCDNControlError fuel env err offset limit revision (event env c))
      | Inr (CDNFile encrypted) \<Rightarrow>
          (case decrypt encrypted (rr_offset req) redirect of
             Inl err \<Rightarrow> Some (PartsReturn (Inl err), event env c)
           | Inr part \<Rightarrow>
              if int (length part) < rr_limit req then Some (PartsDone (bs @ part), event env c)
              else part_loop fuel env offset limit redirect revision plan (bs @ part) (event env c))
      | Inr (CDNFileReuploadNeeded token) \<Rightarrow>
          (let c = event env c in
           case e_Reupload env (c_now c) (rd_FileToken redirect) token of
             Inl err \<Rightarrow>
               after_recovery ''cdn reupload'' err (part_loop fuel env offset limit redirect revision plan bs)
                 (recoverCDNControlError fuel env err offset limit revision (event env c))
           | Inr hs \<Rightarrow> Some (PartsRetry, cacheHashes hs (event env c)))
      | Inr CDNFileOther \<Rightarrow> Some (PartsReturn (Inl (Errorf ''unexpected type %T'' [])), event env c))"

text \<open>One round of \<open>Chunk\<close>: a result, or another round (\<open>None\<close>).\<close>

type_synonym verify_fun = "bytes \<Rightarrow> cdn \<Rightarrow> ((go_error option \<times> bytes) \<times> cdn) option"

definition chunk_round ::
  "nat \<Rightarrow> cdn_env \<Rightarrow> verify_fun \<Rightarrow> int \<Rightarrow> int \<Rightarrow> cdn \<Rightarrow> ((go_error + chunk) option \<times> cdn) option" where
  "chunk_round fuel env verify offset limit c =
     (case snapshot c of
        (modeMaster, _, _) \<Rightarrow>
          (case master_Chunk env offset limit c of
             (Inr r, c) \<Rightarrow> Some (Some (Inr r), c)
           | (Inl (RedirectError r), c) \<Rightarrow>
              (case activateRedirect env r c of
                 (None, c) \<Rightarrow> Some (None, c)
               | (Some err, c) \<Rightarrow>
                  (case client_failed err c of (Some err, c) \<Rightarrow> Some (Some (Inl err), c) | (None, c) \<Rightarrow> Some (None, c)))
           | (Inl (OtherError err), c) \<Rightarrow> Some (Some (Inl (Wrap ''master chunk'' err)), c))
      | (modeCDN, None, _) \<Rightarrow> Some (None, setMaster c)
      | (modeCDN, Some redirect, revision) \<Rightarrow>
          (case ensureClient env (rd_DCID redirect) c of
             (Some err, c) \<Rightarrow>
               (case client_failed err c of (Some err, c) \<Rightarrow> Some (Some (Inl err), c) | (None, c) \<Rightarrow> Some (None, c))
           | (None, c) \<Rightarrow>
              (case buildCDNRequestPlan offset limit of
                 Inl err \<Rightarrow> Some (Some (Inl (Wrap ''cdn request plan'' err)), c)
               | Inr plan \<Rightarrow>
                  (case part_loop fuel env offset limit redirect revision plan [] c of
                     None \<Rightarrow> None
                   | Some (PartsReturn r, c) \<Rightarrow> Some (Some r, c)
                   | Some (PartsRetry, c) \<Rightarrow> Some (None, c)
                   | Some (PartsDone bs, c) \<Rightarrow>
                      (case verify bs c of
                         None \<Rightarrow> None
                       | Some ((Some err, _), c) \<Rightarrow> Some (Some (Inl err), c)
                       | Some ((None, bs), c) \<Rightarrow> Some (Some (Inr \<lparr>ch_data = bs, ch_tag = None\<rparr>), c))))))"

primrec chunk_loop ::
  "nat \<Rightarrow> nat \<Rightarrow> cdn_env \<Rightarrow> verify_fun \<Rightarrow> int \<Rightarrow> int \<Rightarrow> cdn \<Rightarrow> ((go_error + chunk) \<times> cdn) option" where
  "chunk_loop 0 fuel env verify offset limit c =
     Some (Inl (retryLimitErr ''cdn chunk'' maxRetryAttempts (Errorf ''state loop'' [])), c)"
| "chunk_loop (Suc attempts) fuel env verify offset limit c =
     (case e_ctx env (c_now c) of
        Some err \<Rightarrow> Some (Inl err, c)
      | None \<Rightarrow>
         (case chunk_round fuel env verify offset limit c of
            None \<Rightarrow> None
          | Some (Some r, c) \<Rightarrow> Some (r, c)
          | Some (None, c) \<Rightarrow> chunk_loop attempts fuel env verify offset limit c))"

primrec hashes_loop :: "nat \<Rightarrow> nat \<Rightarrow> cdn_env \<Rightarrow> int \<Rightarrow> cdn \<Rightarrow> ((go_error + FileHash list) \<times> cdn) option" where
  "hashes_loop 0 fuel env offset c =
     Some (Inl (retryLimitErr ''cdn hashes'' maxRetryAttempts (Errorf ''state loop'' [])), c)"
| "hashes_loop (Suc attempts) fuel env offset c =
     (case e_ctx env (c_now c) of
        Some err \<Rightarrow> Some (Inl err, c)
      | None \<Rightarrow>
         (case snapshot c of
            (modeMaster, _, _) \<Rightarrow>
              (case e_Hashes env (c_now c) offset of
                 Inl err \<Rightarrow> Some (Inl (Wrap ''master hashes'' err), event env c)
               | Inr hs \<Rightarrow> Some (Inr hs, event env c))
          | (modeCDN, None, _) \<Rightarrow> hashes_loop attempts fuel env offset (setMaster c)
          | (modeCDN, Some redirect, revision) \<Rightarrow>
              (case e_CDNHashes env (c_now c) (rd_FileToken redirect) offset of
                 Inr hs \<Rightarrow> Some (Inr hs, cacheHashes hs (event env c))
               | Inl err \<Rightarrow>
                  (case recoverCDNControlError fuel env err offset cdnRefreshProbeLimit revision (event env c) of
                     None \<Rightarrow> None
                   | Some ((_, _, handled, recoverErr), c) \<Rightarrow>
                      (case recoverErr of
                         Some e \<Rightarrow> Some (Inl e, c)
                       | None \<Rightarrow>
                          if handled then hashes_loop attempts fuel env offset c
                          else Some (Inl (Wrap ''cdn hashes'' err), c))))))"

definition cdn_Hashes :: "nat \<Rightarrow> cdn_env \<Rightarrow> int \<Rightarrow> cdn \<Rightarrow> ((go_error + FileHash list) \<times> cdn) option" where
  "cdn_Hashes fuel env offset c = hashes_loop maxRetryAttempts fuel env offset c"

section \<open>cdn\_verify.go\<close>

definition ErrHashMismatch :: go_error where "ErrHashMismatch = Errorf ''file hash mismatch'' []"

primrec lookup_loop :: "nat \<Rightarrow> nat \<Rightarrow> cdn_env \<Rightarrow> int \<Rightarrow> cdn \<Rightarrow> ((go_error + FileHash) \<times> cdn) option" where
  "lookup_loop 0 fuel env offset c =
     Some (Inl (retryLimitErr ''cdn hash lookup'' maxRetryAttempts (Errorf ''hash for offset %d not found'' [offset])), c)"
| "lookup_loop (Suc attempts) fuel env offset c =
     (case e_ctx env (c_now c) of
        Some err \<Rightarrow> Some (Inl err, c)
      | None \<Rightarrow>
         (case cdn_Hashes fuel env offset c of
            None \<Rightarrow> None
          | Some (Inl err, c) \<Rightarrow> Some (Inl (Wrap ''load CDN hashes'' err), c)
          | Some (Inr hs, c) \<Rightarrow>
             (let c = cacheHashes hs c in
              case cdn_hash offset c of
                Some h \<Rightarrow> Some (Inr h, c)
              | None \<Rightarrow> lookup_loop attempts fuel env offset c)))"

definition hashForOffset :: "nat \<Rightarrow> cdn_env \<Rightarrow> int \<Rightarrow> cdn \<Rightarrow> ((go_error + FileHash) \<times> cdn) option" where
  "hashForOffset fuel env offset c =
     (case cdn_hash offset c of
        Some h \<Rightarrow> Some (Inr h, c)
      | None \<Rightarrow> lookup_loop maxRetryAttempts fuel env offset c)"

text \<open>
  \<open>loadAndVerifyWindow\<close>: \<open>loading\<close> are the windows that this goroutine is loading already (their
  fields make up the key of \<open>singleflight\<close>), \<open>fetch\<close> is \<open>Chunk\<close> for the window.
\<close>

definition loadAndVerifyWindow ::
  "cdn_env \<Rightarrow> FileHash list \<Rightarrow> (FileHash \<Rightarrow> cdn \<Rightarrow> ((go_error + chunk) \<times> cdn) option) \<Rightarrow> FileHash \<Rightarrow> cdn \<Rightarrow> ((go_error + bytes) \<times> cdn) option" where
  "loadAndVerifyWindow env loading fetch h c =
     (case cachedWindow h c of
        Some window \<Rightarrow> Some (Inr window, c)
      | None \<Rightarrow>
         if h \<in> set loading then None
         else
           case e_Flight env (c_now c) h of
             Some shared \<Rightarrow> Some (shared, event env c)
           | None \<Rightarrow>
              (let c = event env c in
               case cachedWindow h c of
                 Some window \<Rightarrow> Some (Inr window, c)
               | None \<Rightarrow>
                  (case fetch h c of
                     None \<Rightarrow> None
                   | Some (Inl err, c) \<Rightarrow> Some (Inl (Wrap ''load full hash window'' err), c)
                   | Some (Inr full, c) \<Rightarrow>
                      if length (ch_data full) = 0 \<or> int (length (ch_data full)) > fh_Limit h
                      then Some (Inl (Errorf ''invalid CDN window length at offset=%d max=%d got=%d''
                             [fh_Offset h, fh_Limit h, int (length (ch_data full))]), c)
                      else if sha256 (ch_data full) \<noteq> fh_Hash h then Some (Inl (Wrap ''window'' ErrHashMismatch), c)
                      else Some (Inr (ch_data full), cacheWindow h (ch_data full) c))))"

text \<open>\<open>data[from:to]\<close> and \<open>copy(data[from:to], window[wfrom:wto])\<close>.\<close>

definition part_of :: "int \<Rightarrow> int \<Rightarrow> bytes \<Rightarrow> bytes" where
  "part_of from to bs = take (nat (to - from)) (drop (nat from) bs)"

definition patch :: "int \<Rightarrow> int \<Rightarrow> bytes \<Rightarrow> bytes \<Rightarrow> bytes" where
  "patch from to new bs = take (nat from) bs @ new @ drop (nat to) bs"

function verify_loop ::
  "(int \<Rightarrow> cdn \<Rightarrow> ((go_error + FileHash) \<times> cdn) option) \<Rightarrow> (FileHash \<Rightarrow> cdn \<Rightarrow> ((go_error + bytes) \<times> cdn) option) \<Rightarrow>
   bool \<Rightarrow> int \<Rightarrow> int \<Rightarrow> int \<Rightarrow> bytes \<Rightarrow> cdn \<Rightarrow> ((go_error option \<times> bytes) \<times> cdn) option" where
  "verify_loop hashFor load shortResponse chunkStart chunkEnd current bs c =
     (if current < chunkEnd then
        case hashFor current c of
          None \<Rightarrow> None
        | Some (Inl err, c) \<Rightarrow> Some ((Some err, bs), c)
        | Some (Inr h, c) \<Rightarrow>
           (let windowStart = fh_Offset h; windowEnd = fh_Offset h + fh_Limit h in
            if fh_Limit h \<le> 0 then Some ((Some (Errorf ''invalid CDN hash limit %d at offset %d'' [fh_Limit h, current]), bs), c)
            else if windowEnd \<le> current
            then Some ((Some (Errorf ''invalid CDN hash window [%d,%d) at offset %d'' [windowStart, windowEnd, current]), bs), c)
            else if windowStart \<ge> chunkStart \<and> windowEnd \<le> chunkEnd then
              if sha256 (part_of (windowStart - chunkStart) (windowEnd - chunkStart) bs) \<noteq> fh_Hash h
              then Some ((Some (Wrap ''window'' ErrHashMismatch), bs), c)
              else verify_loop hashFor load shortResponse chunkStart chunkEnd windowEnd bs c
            else if shortResponse \<and> windowStart \<ge> chunkStart \<and> windowStart < chunkEnd \<and> windowEnd > chunkEnd then
              if sha256 (drop (nat (windowStart - chunkStart)) bs) \<noteq> fh_Hash h then Some ((Some ErrHashMismatch, bs), c)
              else Some ((None, bs), c)
            else
              case load h c of
                None \<Rightarrow> None
              | Some (Inl err, c) \<Rightarrow> Some ((Some err, bs), c)
              | Some (Inr window, c) \<Rightarrow>
                 (let overlapStart = (if windowStart > chunkStart then windowStart else chunkStart);
                      windowDataEnd = windowStart + int (length window);
                      overlapEnd = (if windowDataEnd < chunkEnd then windowDataEnd else chunkEnd)
                  in if overlapEnd \<le> overlapStart
                     then Some ((Some (Errorf ''invalid overlap for hash window [%d,%d) and chunk [%d,%d)''
                            [windowStart, windowEnd, chunkStart, chunkEnd]), bs), c)
                     else verify_loop hashFor load shortResponse chunkStart chunkEnd windowEnd
                            (patch (overlapStart - chunkStart) (overlapEnd - chunkStart)
                               (part_of (overlapStart - windowStart) (overlapEnd - windowStart) window) bs) c))
      else Some ((None, bs), c))"
  by pat_completeness auto
termination
  by (relation "measure (\<lambda>(hashFor, load, shortResponse, chunkStart, chunkEnd, current, bs, c). nat (chunkEnd - current))") auto

declare verify_loop.simps [simp del]

definition verifyChunk ::
  "nat \<Rightarrow> cdn_env \<Rightarrow> (FileHash \<Rightarrow> cdn \<Rightarrow> ((go_error + bytes) \<times> cdn) option) \<Rightarrow> int \<Rightarrow> int \<Rightarrow> verify_fun" where
  "verifyChunk fuel env load offset requestedLimit bs c =
     (if \<not> c_verify c \<or> length bs = 0 then Some ((None, bs), c)
      else
        let shortResponse = (requestedLimit > 0 \<and> int (length bs) < requestedLimit) in
        verify_loop (hashForOffset fuel env) load shortResponse offset (offset + int (length bs)) offset bs c)"

text \<open>\<open>Chunk\<close>, which calls itself for windows; \<open>depth\<close> bounds the nesting.\<close>

primrec cdn_Chunk ::
  "nat \<Rightarrow> nat \<Rightarrow> cdn_env \<Rightarrow> FileHash list \<Rightarrow> int \<Rightarrow> int \<Rightarrow> cdn \<Rightarrow> ((go_error + chunk) \<times> cdn) option" where
  "cdn_Chunk 0 fuel env loading offset limit c = None"
| "cdn_Chunk (Suc depth) fuel env loading offset limit c =
     chunk_loop maxRetryAttempts fuel env
       (verifyChunk fuel env
          (loadAndVerifyWindow env loading (\<lambda>h. cdn_Chunk depth fuel env (h # loading) (fh_Offset h) (fh_Limit h)))
          offset limit)
       offset limit c"

section \<open>Invariants\<close>

text \<open>
  \<open>known\<close> are the hashes that the data centre gives out for the file. A window of bytes belongs to a
  hash if it was checked against a known hash of the same offset.
\<close>

definition window_for :: "(FileHash \<Rightarrow> bool) \<Rightarrow> int \<Rightarrow> bytes \<Rightarrow> bool" where
  "window_for known offset w \<longleftrightarrow> (\<exists>h. known h \<and> fh_Offset h = offset \<and> sha256 w = fh_Hash h)"

definition cdn_inv :: "(FileHash \<Rightarrow> bool) \<Rightarrow> cdn \<Rightarrow> bool" where
  "cdn_inv known c \<longleftrightarrow>
     hashes_inv (c_hashes c, c_hashOffsets c) \<and> (\<forall>k h. c_hashes c k = Some h \<longrightarrow> known h) \<and>
     windows_inv c \<and> (\<forall>k w. c_windows c k = Some w \<longrightarrow> window_for known k w)"

text \<open>What is relied on: the data centre gives out known hashes only, the other goroutines keep the invariant.\<close>

definition trusted :: "(FileHash \<Rightarrow> bool) \<Rightarrow> cdn_env \<Rightarrow> bool" where
  "trusted known env \<longleftrightarrow>
     (\<forall>n c. (cdn_inv known c \<longrightarrow> cdn_inv known (e_others env n c)) \<and> c_verify (e_others env n c) = c_verify c) \<and>
     (\<forall>n offset limit r. e_GetFile env n offset limit = Inr (FileRedirect (Some r)) \<longrightarrow> list_all known (rd_FileHashes r)) \<and>
     (\<forall>n offset hs. e_Hashes env n offset = Inr hs \<longrightarrow> list_all known hs) \<and>
     (\<forall>n token request hs. e_Reupload env n token request = Inr hs \<longrightarrow> list_all known hs) \<and>
     (\<forall>n token offset hs. e_CDNHashes env n token offset = Inr hs \<longrightarrow> list_all known hs) \<and>
     (\<forall>n h w. e_Flight env n h = Some (Inr w) \<longrightarrow> window_for known (fh_Offset h) w \<and> 0 < length w \<and> int (length w) \<le> fh_Limit h)"

text \<open>What every operation guarantees to the other goroutines.\<close>

definition keeps :: "(FileHash \<Rightarrow> bool) \<Rightarrow> cdn \<Rightarrow> cdn \<Rightarrow> bool" where
  "keeps known c c' \<longleftrightarrow> (cdn_inv known c \<longrightarrow> cdn_inv known c') \<and> c_verify c' = c_verify c"

named_theorems keeps_rules

lemma cdn_keeps_refl [keeps_rules, simp]: "keeps known c c"
  by (simp add: keeps_def)

lemma cdn_keeps_trans: "keeps known c d \<Longrightarrow> keeps known d e \<Longrightarrow> keeps known c e"
  by (simp add: keeps_def)

lemma cdn_inv_updates [simp]:
  "cdn_inv known (c\<lparr>c_now := n\<rparr>) = cdn_inv known c" "cdn_inv known (c\<lparr>c_client := d\<rparr>) = cdn_inv known c"
  "cdn_inv known (c\<lparr>c_closed := k\<rparr>) = cdn_inv known c"
  by (simp_all add: cdn_inv_def windows_inv_def)

lemma trusted_others: "trusted known env \<Longrightarrow> keeps known c (e_others env n c)"
  unfolding trusted_def keeps_def by blast

lemma keeps_event [keeps_rules]: "trusted known env \<Longrightarrow> keeps known c (event env c)"
  using trusted_others[of known env c "c_now c"] by (simp add: keeps_def event_def)

lemma keeps_closeClient [keeps_rules]: "keeps known c (closeClient c)"
  by (simp add: keeps_def closeClient_def)

lemma keeps_setMaster [keeps_rules]: "keeps known c (setMaster c)"
  by (simp add: keeps_def setMaster_def resetWindows_def resetHashes_def cdn_inv_def windows_inv_def hashes_inv_def)

lemma cacheHashes_known:
  assumes "\<forall>k h. c_hashes c k = Some h \<longrightarrow> known h" "list_all known hs" "c_hashes (cacheHashes hs c) k = Some h"
  shows "known h"
proof -
  have "c_hashes (cacheHashes hs c) k = fst (fold cacheHash hs (c_hashes c, c_hashOffsets c)) k"
    using cacheHashes_simps(7)[of hs c] by (metis fst_conv)
  then have "latest hs k = Some h \<or> c_hashes c k = Some h" using assms(3) by (auto simp: fold_cacheHash_map split: option.splits)
  moreover have "h \<in> set hs" if "latest hs k = Some h"
    using that unfolding latest_def find_Some_iff by (metis nth_mem set_rev)
  ultimately show ?thesis using assms(1,2) by (auto simp: list_all_iff)
qed

lemma keeps_cacheHashes [keeps_rules]: "list_all known hs \<Longrightarrow> keeps known c (cacheHashes hs c)"
  using cacheHashes_known[of c known hs] cacheHashes_inv[of "(c_hashes c, c_hashOffsets c)" hs]
  unfolding keeps_def cdn_inv_def windows_inv_def cacheHashes_simps by blast

lemma keeps_setRedirect [keeps_rules]:
  assumes "\<forall>r. redirect = Some r \<longrightarrow> list_all known (rd_FileHashes r)"
  shows "keeps known c (setRedirect redirect c)"
proof -
  let ?d = "resetWindows (resetHashes (c\<lparr>c_mode := modeCDN, c_redirect := redirect, c_rev := c_rev c + 1\<rparr>))"
  have "keeps known c ?d"
    by (simp add: keeps_def resetWindows_def resetHashes_def cdn_inv_def windows_inv_def hashes_inv_def)
  moreover have "keeps known ?d (setRedirect redirect c)"
    using assms keeps_cacheHashes by (cases redirect) (simp_all add: setRedirect_def Let_def)
  ultimately show ?thesis by (rule cdn_keeps_trans)
qed

lemma keeps_cacheWindow [keeps_rules]:
  assumes "window_for known (fh_Offset h) w"
  shows "keeps known c (cacheWindow h w c)"
proof -
  have "c_verify (cacheWindow h w c) = c_verify c" "c_hashes (cacheWindow h w c) = c_hashes c" "c_hashOffsets (cacheWindow h w c) = c_hashOffsets c"
    by (simp_all add: cacheWindow_def Let_def split: prod.splits)
  moreover have "window_for known k v" if "windows_inv c" "\<forall>k w. c_windows c k = Some w \<longrightarrow> window_for known k w"
      "c_windows (cacheWindow h w c) k = Some v" for k v
    using cacheWindow_windows[OF that(1,3)] that(2) assms by blast
  ultimately show ?thesis using cacheWindow_step[of c h w] unfolding keeps_def cdn_inv_def by simp
qed

section \<open>The state machine keeps the invariant\<close>

text \<open>A chunk that the data centre of the file returned for a request.\<close>

definition from_master :: "cdn_env \<Rightarrow> int \<Rightarrow> int \<Rightarrow> chunk \<Rightarrow> bool" where
  "from_master env offset limit ch \<longleftrightarrow>
     (\<exists>n t. e_GetFile env n offset limit = Inr (FilePlain (ch_data ch) t) \<and> ch_tag ch = Some t)"

text \<open>The results of \<open>master.Chunk\<close>, with or without retries.\<close>

definition master_result :: "(FileHash \<Rightarrow> bool) \<Rightarrow> cdn_env \<Rightarrow> int \<Rightarrow> int \<Rightarrow> chunk_error + chunk \<Rightarrow> bool" where
  "master_result known env offset limit r =
     (case r of
        Inr ch \<Rightarrow> from_master env offset limit ch
      | Inl (RedirectError (Some rd)) \<Rightarrow> list_all known (rd_FileHashes rd)
      | Inl _ \<Rightarrow> True)"

lemma master_Chunk_result:
  assumes "trusted known env" "master_Chunk env offset limit c = (r, c')"
  shows "keeps known c c' \<and> master_result known env offset limit r"
proof -
  have redirect: "list_all known (rd_FileHashes rd)" if "e_GetFile env n offset limit = Inr (FileRedirect (Some rd))" for n rd
    using assms(1) that by (auto simp: trusted_def)
  then show ?thesis using assms keeps_event
    by (auto simp: master_Chunk_def master_result_def from_master_def split: sum.splits upload_file.splits option.splits chunk_error.splits)
qed

lemma retryRequest_result:
  assumes "trusted known env"
  shows "retryRequest fuel env op (master_Chunk env offset limit) k c = Some (r, c') \<Longrightarrow>
    keeps known c c' \<and> master_result known env offset limit r"
proof (induction fuel arbitrary: k c)
  case (Suc fuel)
  obtain r1 c1 where m: "master_Chunk env offset limit c = (r1, c1)" by force
  have one: "keeps known c c1" "master_result known env offset limit r1" using master_Chunk_result[OF assms m] by auto
  have rest: "keeps known c c' \<and> master_result known env offset limit r"
    if "retryRequest fuel env op (master_Chunk env offset limit) k' c1 = Some (r, c')" for k'
    using Suc.IH[OF that] cdn_keeps_trans[OF one(1)] by blast
  have other: "master_result known env offset limit (Inl (OtherError e))" for e by (simp add: master_result_def)
  show ?case using Suc.prems one
    by (auto simp: m split: option.splits sum.splits chunk_error.splits prod.splits if_splits dest!: rest intro: other)
qed simp

lemma ensureClient_keeps:
  assumes "trusted known env" "ensureClient env dc c = (r, c')"
  shows "keeps known c c'"
proof -
  have e: "keeps known c (event env (closeClient c))" using cdn_keeps_trans[OF keeps_closeClient keeps_event[OF assms(1)]] .
  then have "keeps known c ((event env (closeClient c))\<lparr>c_client := d\<rparr>)" for d by (simp add: keeps_def)
  then show ?thesis using assms(2) e by (auto simp: ensureClient_def Let_def split: if_splits sum.splits)
qed

lemma activateRedirect_keeps:
  assumes "trusted known env" "\<forall>rd. redirect = Some rd \<longrightarrow> list_all known (rd_FileHashes rd)" "activateRedirect env redirect c = (r, c')"
  shows "keeps known c c'"
proof (cases redirect)
  case None
  then show ?thesis using assms(3) keeps_setMaster by (auto simp: activateRedirect_def)
next
  case (Some rd)
  obtain e c1 where c1: "ensureClient env (rd_DCID rd) c = (e, c1)" by force
  then have k: "keeps known c c1" using ensureClient_keeps[OF assms(1)] by blast
  have "keeps known c (setRedirect redirect c1)" using cdn_keeps_trans[OF k keeps_setRedirect[OF assms(2)]] .
  then show ?thesis using assms(3) k Some c1 by (auto simp: activateRedirect_def split: option.splits)
qed

lemma client_failed_keeps: "client_failed err c = (r, c') \<Longrightarrow> keeps known c c'"
  using keeps_closeClient by (auto simp: client_failed_def split: if_splits)

lemma refreshRedirect_result:
  assumes "trusted known env" "0 < limit" "refreshRedirect fuel env offset limit revision c = Some (r, c')"
  shows "keeps known c c' \<and> (\<forall>ch. r = Inr (Some ch) \<longrightarrow> from_master env offset limit ch)"
proof (cases "c_rev c = revision")
  case True
  then obtain m c1 where m: "retryRequest fuel env ''refresh CDN redirect'' (master_Chunk env offset limit) 0 c = Some (m, c1)"
    using assms(2,3) by (auto simp: refreshRedirect_def split: option.splits)
  have one: "keeps known c c1" "master_result known env offset limit m" using retryRequest_result[OF assms(1) m] by auto
  show ?thesis
  proof (cases m)
    case (Inr ch)
    then show ?thesis using assms(2,3) True m one cdn_keeps_trans[OF one(1) keeps_setMaster]
      by (auto simp: refreshRedirect_def master_result_def)
  next
    case (Inl e)
    show ?thesis
    proof (cases e)
      case (OtherError err)
      then show ?thesis using assms(2,3) True m one Inl by (auto simp: refreshRedirect_def)
    next
      case (RedirectError rd)
      obtain a c2 where a: "activateRedirect env rd c1 = (a, c2)" by force
      have "keeps known c1 c2"
        using activateRedirect_keeps[OF assms(1) _ a] one(2) Inl RedirectError by (auto simp: master_result_def split: option.splits)
      then have two: "keeps known c c2" using one(1) cdn_keeps_trans by blast
      have "keeps known c c3" if "client_failed err c2 = (b, c3)" for err b c3
        using cdn_keeps_trans[OF two client_failed_keeps[OF that]] .
      then show ?thesis using assms(2,3) True m Inl RedirectError a two
        by (auto simp: refreshRedirect_def split: option.splits prod.splits)
    qed
  qed
qed (use assms in \<open>auto simp: refreshRedirect_def\<close>)

lemma recover_result:
  assumes "trusted known env" "0 < limit" "recoverCDNControlError fuel env err offset limit revision c = Some ((fallback, retry, handled, e), c')"
  shows "keeps known c c' \<and> (\<forall>ch. fallback = Some ch \<longrightarrow> from_master env offset limit ch)"
  using assms(3) refreshRedirect_result[OF assms(1,2)] keeps_closeClient
  by (fastforce simp: recoverCDNControlError_def split: if_splits option.splits sum.splits)

text \<open>What the requests of a plan may return.\<close>

definition parts_result :: "cdn_env \<Rightarrow> int \<Rightarrow> int \<Rightarrow> parts \<Rightarrow> bool" where
  "parts_result env offset limit r = (case r of PartsReturn (Inr ch) \<Rightarrow> from_master env offset limit ch | _ \<Rightarrow> True)"

lemma parts_result_simps [simp]:
  "parts_result env offset limit (PartsReturn (Inr ch)) = from_master env offset limit ch"
  "parts_result env offset limit (PartsReturn (Inl e))" "parts_result env offset limit PartsRetry" "parts_result env offset limit (PartsDone bs)"
  by (simp_all add: parts_result_def)

lemma after_recovery_result:
  assumes "trusted known env" "0 < limit"
    and "after_recovery op err next (recoverCDNControlError fuel env err offset limit revision c) = Some (r, c')"
    and "\<And>d. next d = Some (r, c') \<Longrightarrow> keeps known d c' \<and> parts_result env offset limit r"
  shows "keeps known c c' \<and> parts_result env offset limit r"
proof -
  obtain fallback retry handled e d where rec: "recoverCDNControlError fuel env err offset limit revision c = Some ((fallback, retry, handled, e), d)"
    using assms(3) by (auto simp: after_recovery_def split: option.splits)
  have one: "keeps known c d" "\<forall>ch. fallback = Some ch \<longrightarrow> from_master env offset limit ch" using recover_result[OF assms(1,2) rec] by auto
  have "keeps known c c' \<and> parts_result env offset limit r" if "next d = Some (r, c')" using assms(4)[OF that] cdn_keeps_trans[OF one(1)] by blast
  then show ?thesis using assms(3) rec one by (auto simp: after_recovery_def split: option.splits if_splits)
qed

lemma part_loop_result:
  assumes "trusted known env" "0 < limit"
  shows "part_loop fuel env offset limit redirect revision plan bs c = Some (r, c') \<Longrightarrow> keeps known c c' \<and> parts_result env offset limit r"
proof (induction plan arbitrary: bs c)
  case (Cons req plan)
  let ?c1 = "event env c"
  let ?answer = "e_GetCDNFile env (c_now c) (rd_DCID redirect) (rr_offset req) (rr_limit req) (rd_FileToken redirect)"
  have e: "keeps known c ?c1" "keeps known c (event env ?c1)"
    using keeps_event[OF assms(1)] cdn_keeps_trans by blast+
  have rest: "keeps known c c' \<and> parts_result env offset limit r"
    if "part_loop fuel env offset limit redirect revision plan bs' ?c1 = Some (r, c')" for bs'
    using Cons.IH[OF that] cdn_keeps_trans[OF e(1)] by blast
  have recovered: "keeps known c c' \<and> parts_result env offset limit r"
    if "after_recovery op err (part_loop fuel env offset limit redirect revision plan bs)
      (recoverCDNControlError fuel env err offset limit revision d) = Some (r, c')" "keeps known c d" for op err d
  proof -
    have "keeps known d c' \<and> parts_result env offset limit r"
      by (rule after_recovery_result[OF assms that(1)]) (rule Cons.IH)
    then show ?thesis using cdn_keeps_trans[OF that(2)] by blast
  qed
  show ?case
  proof (cases ?answer)
    case (Inl err)
    then show ?thesis using Cons.prems recovered[OF _ e(1)] by simp
  next
    case (Inr f)
    show ?thesis
    proof (cases f)
      case (CDNFile enc)
      then show ?thesis using Cons.prems Inr e(1) rest by (auto split: sum.splits if_splits dest!: rest)
    next
      case (CDNFileReuploadNeeded token)
      have "keeps known c (cacheHashes hs (event env ?c1))" if "e_Reupload env n t token = Inr hs" for n t hs
        using cdn_keeps_trans[OF e(2) keeps_cacheHashes] assms(1) that by (auto simp: trusted_def)
      then show ?thesis using Cons.prems Inr CDNFileReuploadNeeded recovered[OF _ e(2)] by (auto simp: Let_def split: sum.splits)
    next
      case CDNFileOther
      then show ?thesis using Cons.prems Inr e(1) by auto
    qed
  qed
qed auto

lemma hashes_loop_result:
  assumes "trusted known env"
  shows "hashes_loop n fuel env offset c = Some (r, c') \<Longrightarrow> keeps known c c' \<and> (\<forall>hs. r = Inr hs \<longrightarrow> list_all known hs)"
proof (induction n arbitrary: c)
  case (Suc n)
  have probe: "0 < cdnRefreshProbeLimit" by (simp add: cdnRefreshProbeLimit_def)
  have e: "keeps known c (event env c)" using keeps_event[OF assms] .
  have rest: "keeps known c c' \<and> (\<forall>hs. r = Inr hs \<longrightarrow> list_all known hs)"
    if "hashes_loop n fuel env offset d = Some (r, c')" "keeps known c d" for d
    using Suc.IH[OF that(1)] cdn_keeps_trans[OF that(2)] by blast
  show ?case
  proof (cases "e_ctx env (c_now c)")
    case None
    show ?thesis
    proof (cases "c_mode c")
      case modeMaster
      then show ?thesis using Suc.prems None e assms by (auto simp: snapshot_def trusted_def split: sum.splits)
    next
      case modeCDN
      show ?thesis
      proof (cases "c_redirect c")
        case none: None
        then show ?thesis using Suc.prems None modeCDN rest[OF _ keeps_setMaster] by (simp add: snapshot_def)
      next
        case (Some redirect)
        show ?thesis
        proof (cases "e_CDNHashes env (c_now c) (rd_FileToken redirect) offset")
          case (Inr hs)
          then have "list_all known hs" using assms by (auto simp: trusted_def)
          then show ?thesis using Suc.prems None modeCDN Some Inr cdn_keeps_trans[OF e keeps_cacheHashes] by (auto simp: snapshot_def)
        next
          case (Inl err)
          obtain fallback retry handled re d where
            rec: "recoverCDNControlError fuel env err offset cdnRefreshProbeLimit (c_rev c) (event env c) = Some ((fallback, retry, handled, re), d)"
            using Suc.prems None modeCDN Some Inl by (auto simp: snapshot_def split: option.splits)
          have "keeps known c d" using recover_result[OF assms probe rec] cdn_keeps_trans[OF e] by blast
          then show ?thesis using Suc.prems None modeCDN Some Inl rec rest[of d]
            by (auto simp: snapshot_def split: option.splits if_splits)
        qed
      qed
    qed
  qed (use Suc.prems in auto)
qed auto

lemma lookup_loop_result:
  assumes "trusted known env"
  shows "lookup_loop n fuel env offset c = Some (r, c') \<Longrightarrow> keeps known c c' \<and> (\<forall>h. r = Inr h \<longrightarrow> cdn_hash offset c' = Some h)"
proof (induction n arbitrary: c)
  case (Suc n)
  show ?case
  proof (cases "e_ctx env (c_now c)")
    case None
    then obtain hr d where d: "cdn_Hashes fuel env offset c = Some (hr, d)" using Suc.prems by (auto split: option.splits)
    have one: "keeps known c d" "\<forall>hs. hr = Inr hs \<longrightarrow> list_all known hs"
      using hashes_loop_result[OF assms d[unfolded cdn_Hashes_def]] by auto
    show ?thesis
    proof (cases hr)
      case (Inl err)
      then show ?thesis using Suc.prems None d one by auto
    next
      case (Inr hs)
      have two: "keeps known c (cacheHashes hs d)" using cdn_keeps_trans[OF one(1) keeps_cacheHashes] one(2) Inr by blast
      then show ?thesis using Suc.prems None d Inr Suc.IH[of "cacheHashes hs d"] cdn_keeps_trans[OF two]
        by (auto simp: Let_def split: option.splits)
    qed
  qed (use Suc.prems in auto)
qed auto

lemma hashForOffset_result:
  assumes "trusted known env" "cdn_inv known c" "hashForOffset fuel env offset c = Some (r, c')"
  shows "keeps known c c' \<and> (\<forall>h. r = Inr h \<longrightarrow> known h \<and> covers h offset)"
proof -
  have k: "keeps known c c'" "\<forall>h. r = Inr h \<longrightarrow> cdn_hash offset c' = Some h"
    using assms(3) lookup_loop_result[OF assms(1)] by (auto simp: hashForOffset_def split: option.splits)
  then have "cdn_inv known c'" using assms(2) by (simp add: keeps_def)
  then show ?thesis using k cdn_hash_spec[of c' offset] by (auto simp: cdn_inv_def)
qed

section \<open>Verification\<close>

text \<open>
  A byte is vouched for by a known hash whose window contains it: bytes were checked against a
  known hash of the window's offset, and if they reach the position, the byte there is theirs.
\<close>

definition vouched :: "(FileHash \<Rightarrow> bool) \<Rightarrow> int \<Rightarrow> bytes \<Rightarrow> nat \<Rightarrow> bool" where
  "vouched known start bs p \<longleftrightarrow>
     (\<exists>h w. known h \<and> covers h (start + int p) \<and> window_for known (fh_Offset h) w \<and> w \<noteq> [] \<and>
        (start + int p < fh_Offset h + int (length w) \<longrightarrow> bs ! p = w ! nat (start + int p - fh_Offset h)))"

definition load_ok :: "(FileHash \<Rightarrow> bool) \<Rightarrow> (FileHash \<Rightarrow> cdn \<Rightarrow> ((go_error + bytes) \<times> cdn) option) \<Rightarrow> bool" where
  "load_ok known load \<longleftrightarrow>
     (\<forall>h c r c'. known h \<longrightarrow> cdn_inv known c \<longrightarrow> load h c = Some (r, c') \<longrightarrow>
        keeps known c c' \<and> (\<forall>w. r = Inr w \<longrightarrow> window_for known (fh_Offset h) w \<and> w \<noteq> []))"

lemma load_ok_window:
  assumes "trusted known env" "\<And>h c r c'. cdn_inv known c \<Longrightarrow> fetch h c = Some (r, c') \<Longrightarrow> keeps known c c'"
  shows "load_ok known (loadAndVerifyWindow env loading fetch)"
proof -
  have cached: "window_for known (fh_Offset h) w \<and> w \<noteq> []" if "cdn_inv known c" "cachedWindow h c = Some w" for h c w
    using that by (auto simp: cdn_inv_def cachedWindow_def split: option.splits if_splits)
  have shared: "window_for known (fh_Offset h) w \<and> w \<noteq> []" if "e_Flight env n h = Some (Inr w)" for n h w
    using that assms(1) by (fastforce simp: trusted_def)
  have "keeps known c c' \<and> (\<forall>w. r = Inr w \<longrightarrow> window_for known (fh_Offset h) w \<and> w \<noteq> [])"
    if kn: "known h" and inv: "cdn_inv known c" and l: "loadAndVerifyWindow env loading fetch h c = Some (r, c')" for h c r c'
  proof (cases "cachedWindow h c")
    case (Some w)
    then show ?thesis using l cached[OF inv] by (auto simp: loadAndVerifyWindow_def)
  next
    case None
    let ?d = "event env c"
    have e: "keeps known c ?d" using keeps_event[OF assms(1)] .
    then have inv': "cdn_inv known ?d" using inv by (simp add: keeps_def)
    show ?thesis
    proof (cases "e_Flight env (c_now c) h")
      case (Some r')
      then show ?thesis using l None e shared by (auto simp: loadAndVerifyWindow_def split: if_splits)
    next
      case own: None
      show ?thesis
      proof (cases "cachedWindow h ?d")
        case (Some w)
        then show ?thesis using l None own e cached[OF inv'] by (auto simp: loadAndVerifyWindow_def split: if_splits)
      next
        case none: None
        obtain fr c2 where f: "fetch h ?d = Some (fr, c2)"
          using l None own none by (auto simp: loadAndVerifyWindow_def Let_def split: if_splits option.splits)
        have two: "keeps known c c2" using cdn_keeps_trans[OF e assms(2)[OF inv' f]] .
        show ?thesis
        proof (cases fr)
          case (Inl err)
          then show ?thesis using l None own none f two by (auto simp: loadAndVerifyWindow_def Let_def split: if_splits)
        next
          case (Inr full)
          have "window_for known (fh_Offset h) (ch_data full)" if "sha256 (ch_data full) = fh_Hash h"
            using kn that by (auto simp: window_for_def)
          then have "keeps known c (cacheWindow h (ch_data full) c2) \<and> window_for known (fh_Offset h) (ch_data full)"
            if "sha256 (ch_data full) = fh_Hash h" using that cdn_keeps_trans[OF two keeps_cacheWindow] by blast
          then show ?thesis using l None own none f two Inr by (auto simp: loadAndVerifyWindow_def Let_def split: if_splits)
        qed
      qed
    qed
  qed
  then show ?thesis unfolding load_ok_def by blast
qed

text \<open>The three ways in which a window vouches for bytes of the chunk.\<close>

lemma length_part_of: "0 \<le> from \<Longrightarrow> from \<le> to \<Longrightarrow> to \<le> int (length bs) \<Longrightarrow> length (part_of from to bs) = nat (to - from)"
  by (simp add: part_of_def)

lemma nth_part_of: "0 \<le> from \<Longrightarrow> int i < to - from \<Longrightarrow> to \<le> int (length bs) \<Longrightarrow> part_of from to bs ! i = bs ! (nat from + i)"
  by (simp add: part_of_def)

lemma length_patch:
  "0 \<le> from \<Longrightarrow> from \<le> to \<Longrightarrow> to \<le> int (length bs) \<Longrightarrow> length new = nat (to - from) \<Longrightarrow> length (patch from to new bs) = length bs"
  by (simp add: patch_def)

lemma nth_patch:
  assumes "0 \<le> from" "from \<le> to" "to \<le> int (length bs)" "length new = nat (to - from)" "p < length bs"
  shows "patch from to new bs ! p = (if from \<le> int p \<and> int p < to then new ! (p - nat from) else bs ! p)"
proof -
  obtain f t where ft: "from = int f" "to = int t" using assms(1,2) by (metis order_trans zero_le_imp_eq_int)
  then have le: "f \<le> t" "t \<le> length bs" "length new = t - f" using assms by auto
  consider "p < f" | "f \<le> p" "p < t" | "t \<le> p" by linarith
  then show ?thesis using le assms(5) by cases (auto simp: patch_def ft nth_append)
qed

lemma vouched_window:
  assumes "known h" "w \<noteq> []" "window_for known (fh_Offset h) w" "covers h (start + int p)"
    and "start + int p < fh_Offset h + int (length w) \<Longrightarrow> bs ! p = w ! nat (start + int p - fh_Offset h)"
  shows "vouched known start bs p"
  using assms unfolding vouched_def by blast

lemma vouched_nth: "vouched known start bs p \<Longrightarrow> bs' ! p = bs ! p \<Longrightarrow> vouched known start bs' p"
  by (simp add: vouched_def)

lemma vouched_direct:
  assumes "known h" "start \<le> fh_Offset h" "fh_Offset h + fh_Limit h \<le> start + int (length bs)" "0 < fh_Limit h"
    and "sha256 (part_of (fh_Offset h - start) (fh_Offset h + fh_Limit h - start) bs) = fh_Hash h" "covers h (start + int p)"
  shows "vouched known start bs p"
proof (rule vouched_window[where w = "part_of (fh_Offset h - start) (fh_Offset h + fh_Limit h - start) bs" and h = h])
  let ?w = "part_of (fh_Offset h - start) (fh_Offset h + fh_Limit h - start) bs"
  show "known h" "covers h (start + int p)" by fact+
  have len: "length ?w = nat (fh_Limit h)" using assms(2-4) by (subst length_part_of) auto
  then show "?w \<noteq> []" using assms(4) by auto
  show "window_for known (fh_Offset h) ?w" using assms(1,5) by (auto simp: window_for_def)
  have "nat (fh_Offset h - start) + nat (start + int p - fh_Offset h) = p" using assms(2,6) by (auto simp: covers_def)
  then show "bs ! p = ?w ! nat (start + int p - fh_Offset h)" using assms(2,3,6) by (subst nth_part_of) (auto simp: covers_def)
qed

lemma vouched_short:
  assumes "known h" "start \<le> fh_Offset h" "fh_Offset h < start + int (length bs)" "start + int (length bs) < fh_Offset h + fh_Limit h"
    and "sha256 (drop (nat (fh_Offset h - start)) bs) = fh_Hash h" "fh_Offset h \<le> start + int p" "p < length bs"
  shows "vouched known start bs p"
proof (rule vouched_window[where w = "drop (nat (fh_Offset h - start)) bs" and h = h])
  show "known h" by fact
  let ?w = "drop (nat (fh_Offset h - start)) bs"
  show "?w \<noteq> []" using assms(2,3) by auto
  show "window_for known (fh_Offset h) ?w" using assms(1,5) by (auto simp: window_for_def)
  show "covers h (start + int p)" using assms(4,6,7) by (simp add: covers_def)
  have "nat (fh_Offset h - start) + nat (start + int p - fh_Offset h) = p" using assms(2,6) by auto
  then show "bs ! p = ?w ! nat (start + int p - fh_Offset h)" using assms(7) by (subst nth_drop) auto
qed

lemma vouched_patch:
  assumes "known h" "window_for known (fh_Offset h) w" "w \<noteq> []" "covers h current"
    and "ostart = (if fh_Offset h > start then fh_Offset h else start)"
    and "oend = (if fh_Offset h + int (length w) < start + int (length bs) then fh_Offset h + int (length w) else start + int (length bs))"
    and "ostart < oend" "start \<le> current"
    and "\<forall>p<length bs. start + int p < current \<longrightarrow> vouched known start bs p"
  defines "bs' \<equiv> patch (ostart - start) (oend - start) (part_of (ostart - fh_Offset h) (oend - fh_Offset h) w) bs"
  shows "length bs' = length bs \<and> (\<forall>p<length bs'. start + int p < fh_Offset h + fh_Limit h \<longrightarrow> vouched known start bs' p)"
proof -
  let ?new = "part_of (ostart - fh_Offset h) (oend - fh_Offset h) w"
  have o: "start \<le> ostart" "fh_Offset h \<le> ostart" "oend \<le> start + int (length bs)" "oend \<le> fh_Offset h + int (length w)"
    using assms(5,6) by auto
  have new: "length ?new = nat (oend - ostart)" using o assms(7) by (subst length_part_of) auto
  have len: "length bs' = length bs" unfolding bs'_def using o new assms(7) by (intro length_patch) auto
  have nth: "bs' ! p = (if ostart \<le> start + int p \<and> start + int p < oend then ?new ! (p - nat (ostart - start)) else bs ! p)" if "p < length bs" for p
    unfolding bs'_def using o new assms(7) that by (subst nth_patch) auto
  have "vouched known start bs' p" if p: "p < length bs" "start + int p < fh_Offset h + fh_Limit h" for p
  proof (cases "start + int p < current \<and> \<not> (ostart \<le> start + int p \<and> start + int p < oend)")
    case True
    then show ?thesis using assms(9) nth[OF p(1)] p(1) vouched_nth by auto
  next
    case False
    then have at: "fh_Offset h \<le> start + int p" "ostart \<le> start + int p"
      using assms(4,5,8) o by (auto simp: covers_def split: if_splits)
    show ?thesis
    proof (rule vouched_window[where w = w and h = h])
      show "known h" "w \<noteq> []" "window_for known (fh_Offset h) w" by fact+
      show "covers h (start + int p)" using at p(2) by (simp add: covers_def)
      show "bs' ! p = w ! nat (start + int p - fh_Offset h)" if "start + int p < fh_Offset h + int (length w)"
      proof -
        have inside: "start + int p < oend" using that p(1) assms(6) by auto
        have "?new ! (p - nat (ostart - start)) = w ! (nat (ostart - fh_Offset h) + (p - nat (ostart - start)))"
          using at o inside by (intro nth_part_of) auto
        moreover have "nat (ostart - fh_Offset h) + (p - nat (ostart - start)) = nat (start + int p - fh_Offset h)"
          using at o by auto
        ultimately show ?thesis using nth[OF p(1)] at inside by simp
      qed
    qed
  qed
  then show ?thesis using len by simp
qed

lemma verify_loop_vouches:
  assumes hf: "\<And>current c r c'. cdn_inv known c \<Longrightarrow> hashFor current c = Some (r, c') \<Longrightarrow>
      keeps known c c' \<and> (\<forall>h. r = Inr h \<longrightarrow> known h \<and> covers h current)"
    and ld: "load_ok known load"
  shows "cdn_inv known c \<Longrightarrow> fin = start + int (length bs) \<Longrightarrow> start \<le> current \<Longrightarrow>
    \<forall>p<length bs. start + int p < current \<longrightarrow> vouched known start bs p \<Longrightarrow>
    verify_loop hashFor load short start fin current bs c = Some ((e, bs'), c') \<Longrightarrow>
    keeps known c c' \<and> (e = None \<longrightarrow> length bs' = length bs \<and> (\<forall>p<length bs'. vouched known start bs' p))"
proof (induction "nat (fin - current)" arbitrary: current bs c rule: less_induct)
  case less
  note inv = less.prems(1) and fin = less.prems(2) and start = less.prems(3) and before = less.prems(4) and run = less.prems(5)
  show ?case
  proof (cases "current < fin")
    case False
    then have "e = None" "bs' = bs" "c' = c" using run by (simp_all add: verify_loop.simps)
    then show ?thesis using before fin False by auto
  next
    case True
    then obtain r d where hr: "hashFor current c = Some (r, d)" using run by (auto simp: verify_loop.simps split: option.splits)
    have kd: "keeps known c d" and rd: "\<forall>h. r = Inr h \<longrightarrow> known h \<and> covers h current" using hf[OF inv hr] by auto
    have invd: "cdn_inv known d" using kd inv by (simp add: keeps_def)
    show ?thesis
    proof (cases r)
      case (Inl err)
      then show ?thesis using run True hr kd by (auto simp: verify_loop.simps)
    next
      case (Inr h)
      let ?ws = "fh_Offset h" and ?we = "fh_Offset h + fh_Limit h"
      have h: "known h" "covers h current" using rd Inr by auto
      then have win: "?ws \<le> current" "current < ?we" "0 < fh_Limit h" by (auto simp: covers_def)
      have again: "keeps known c c' \<and> (e = None \<longrightarrow> length bs' = length bs2 \<and> (\<forall>p<length bs'. vouched known start bs' p))"
        if "verify_loop hashFor load short start fin ?we bs2 d2 = Some ((e, bs'), c')" "keeps known c d2" "length bs2 = length bs"
          "\<forall>p<length bs2. start + int p < ?we \<longrightarrow> vouched known start bs2 p" for bs2 d2
      proof -
        have "nat (fin - ?we) < nat (fin - current)" using win True by simp
        moreover have "cdn_inv known d2" using that(2) inv by (simp add: keeps_def)
        ultimately show ?thesis using less.hyps[of ?we d2 bs2] that fin start win cdn_keeps_trans[OF that(2)] by auto
      qed
      consider (direct) "start \<le> ?ws" "?we \<le> fin" | (short) "short" "start \<le> ?ws" "?ws < fin" "fin < ?we" "\<not> (start \<le> ?ws \<and> ?we \<le> fin)"
        | (cross) "\<not> (start \<le> ?ws \<and> ?we \<le> fin)" "\<not> (short \<and> start \<le> ?ws \<and> ?ws < fin \<and> fin < ?we)" by blast
      then show ?thesis
      proof cases
        case direct
        show ?thesis
        proof (cases "sha256 (part_of (?ws - start) (?we - start) bs) = fh_Hash h")
          case hash: True
          have "vouched known start bs p" if "p < length bs" "start + int p < ?we" for p
          proof (cases "start + int p < current")
            case False
            then have "covers h (start + int p)" using that win by (simp add: covers_def)
            then show ?thesis using vouched_direct[of known h start bs p] h(1) direct win(3) hash fin by blast
          qed (use before that in blast)
          moreover have "verify_loop hashFor load short start fin ?we bs d = Some ((e, bs'), c')"
            using run True hr Inr win direct hash by (simp add: verify_loop.simps[of _ _ _ _ _ current] Let_def)
          ultimately show ?thesis using again[OF _ kd refl] by blast
        next
          case False
          then show ?thesis using run True hr Inr win direct kd by (auto simp: verify_loop.simps[of _ _ _ _ _ current] Let_def)
        qed
      next
        case short
        show ?thesis
        proof (cases "sha256 (drop (nat (?ws - start)) bs) = fh_Hash h")
          case hash: True
          have "vouched known start bs p" if "p < length bs" for p
          proof (cases "start + int p < current")
            case False
            then show ?thesis using vouched_short[of known h start bs p] h(1) hash that short fin win by simp
          qed (use before that in blast)
          then show ?thesis using run True hr Inr win short hash kd by (auto simp: verify_loop.simps[of _ _ _ _ _ current] Let_def)
        next
          case False
          then show ?thesis using run True hr Inr win short kd by (auto simp: verify_loop.simps[of _ _ _ _ _ current] Let_def)
        qed
      next
        case cross
        obtain lr d2 where l: "load h d = Some (lr, d2)"
          using run True hr Inr win cross by (auto simp: verify_loop.simps[of _ _ _ _ _ current] Let_def split: option.splits)
        have k2: "keeps known c d2" and w: "\<forall>w. lr = Inr w \<longrightarrow> window_for known ?ws w \<and> w \<noteq> []"
          using ld l h(1) invd cdn_keeps_trans[OF kd] unfolding load_ok_def by blast+
        show ?thesis
        proof (cases lr)
          case (Inl err)
          then show ?thesis using run True hr Inr win cross l k2 by (auto simp: verify_loop.simps[of _ _ _ _ _ current] Let_def)
        next
          case lr: (Inr w)
          define ostart where "ostart = (if ?ws > start then ?ws else start)"
          define oend where "oend = (if ?ws + int (length w) < fin then ?ws + int (length w) else fin)"
          show ?thesis
          proof (cases "ostart < oend")
            case over: True
            have p: "length (patch (ostart - start) (oend - start) (part_of (ostart - ?ws) (oend - ?ws) w) bs) = length bs \<and>
                (\<forall>p<length (patch (ostart - start) (oend - start) (part_of (ostart - ?ws) (oend - ?ws) w) bs).
                   start + int p < ?we \<longrightarrow> vouched known start (patch (ostart - start) (oend - start) (part_of (ostart - ?ws) (oend - ?ws) w) bs) p)"
              by (rule vouched_patch[where known = known and h = h, OF h(1) _ _ h(2) _ _ over start before]) (use w lr fin in \<open>auto simp: ostart_def oend_def\<close>)
            have "verify_loop hashFor load short start fin ?we
                (patch (ostart - start) (oend - start) (part_of (ostart - ?ws) (oend - ?ws) w) bs) d2 = Some ((e, bs'), c')"
              using run True hr Inr win cross l lr over
              by (auto simp: verify_loop.simps[of _ _ _ _ _ current] Let_def ostart_def oend_def split: if_splits)
            from again[OF this k2] p show ?thesis by simp
          next
            case False
            then show ?thesis using run True hr Inr win cross l lr k2
              by (auto simp: verify_loop.simps[of _ _ _ _ _ current] Let_def ostart_def oend_def split: if_splits)
          qed
        qed
      qed
    qed
  qed
qed

text \<open>What a caller of \<open>Chunk\<close> may rely on.\<close>

definition chunk_ok :: "(FileHash \<Rightarrow> bool) \<Rightarrow> cdn_env \<Rightarrow> bool \<Rightarrow> int \<Rightarrow> int \<Rightarrow> go_error + chunk \<Rightarrow> bool" where
  "chunk_ok known env verify offset limit r \<longleftrightarrow>
     (\<forall>ch. r = Inr ch \<and> verify \<longrightarrow> from_master env offset limit ch \<or> (\<forall>p<length (ch_data ch). vouched known offset (ch_data ch) p))"

definition verify_ok :: "(FileHash \<Rightarrow> bool) \<Rightarrow> int \<Rightarrow> verify_fun \<Rightarrow> bool" where
  "verify_ok known offset verify \<longleftrightarrow>
     (\<forall>bs c e bs' c'. cdn_inv known c \<longrightarrow> verify bs c = Some ((e, bs'), c') \<longrightarrow>
        keeps known c c' \<and> (e = None \<and> c_verify c \<longrightarrow> (\<forall>p<length bs'. vouched known offset bs' p)))"

lemma verifyChunk_ok:
  assumes "trusted known env" "load_ok known load"
  shows "verify_ok known offset (verifyChunk fuel env load offset limit)"
proof -
  have loop: "keeps known c c' \<and> (e = None \<longrightarrow> length bs' = length bs \<and> (\<forall>p<length bs'. vouched known offset bs' p))"
    if "cdn_inv known c" "verify_loop (hashForOffset fuel env) load short offset (offset + int (length bs)) offset bs c = Some ((e, bs'), c')"
    for c short bs e bs' c'
    by (rule verify_loop_vouches[OF hashForOffset_result[OF assms(1)] assms(2) that(1) refl _ _ that(2)]) simp_all
  show ?thesis unfolding verify_ok_def
    using loop by (auto simp: verifyChunk_def Let_def split: if_splits dest!: loop)
qed

lemma chunk_round_result:
  assumes t: "trusted known env" and v: "verify_ok known offset verify" and inv: "cdn_inv known c"
    and run: "chunk_round fuel env verify offset limit c = Some (r, c')"
  shows "keeps known c c' \<and> (\<forall>x. r = Some x \<longrightarrow> chunk_ok known env (c_verify c) offset limit x)"
proof (cases "c_mode c")
  case modeMaster
  obtain m c1 where m: "master_Chunk env offset limit c = (m, c1)" by force
  have one: "keeps known c c1" "master_result known env offset limit m" using master_Chunk_result[OF t m] by auto
  show ?thesis
  proof (cases m)
    case (Inr ch)
    then show ?thesis using run modeMaster m one by (auto simp: chunk_round_def snapshot_def chunk_ok_def master_result_def)
  next
    case (Inl e)
    show ?thesis
    proof (cases e)
      case (OtherError err)
      then show ?thesis using run modeMaster m one Inl by (auto simp: chunk_round_def snapshot_def chunk_ok_def)
    next
      case (RedirectError rd)
      obtain a c2 where a: "activateRedirect env rd c1 = (a, c2)" by force
      have "keeps known c1 c2"
        using activateRedirect_keeps[OF t _ a] one(2) Inl RedirectError by (auto simp: master_result_def split: option.splits)
      then have two: "keeps known c c2" using one(1) cdn_keeps_trans by blast
      have "keeps known c c3" if "client_failed err c2 = (b, c3)" for err b c3
        using cdn_keeps_trans[OF two client_failed_keeps[OF that]] .
      then show ?thesis using run modeMaster m Inl RedirectError a two
        by (auto simp: chunk_round_def snapshot_def chunk_ok_def split: option.splits prod.splits)
    qed
  qed
next
  case modeCDN
  show ?thesis
  proof (cases "c_redirect c")
    case None
    then show ?thesis using run modeCDN keeps_setMaster by (auto simp: chunk_round_def snapshot_def)
  next
    case (Some redirect)
    obtain a c1 where a: "ensureClient env (rd_DCID redirect) c = (a, c1)" by force
    have one: "keeps known c c1" using ensureClient_keeps[OF t a] .
    show ?thesis
    proof (cases "a = None \<and> (\<exists>plan. buildCDNRequestPlan offset limit = Inr plan)")
      case False
      have "keeps known c c2" if "client_failed err c1 = (b, c2)" for err b c2
        using cdn_keeps_trans[OF one client_failed_keeps[OF that]] .
      then show ?thesis using run modeCDN Some a one False
        by (auto simp: chunk_round_def snapshot_def chunk_ok_def split: option.splits prod.splits sum.splits)
    next
      case True
      then obtain plan where plan: "buildCDNRequestPlan offset limit = Inr plan" and "a = None" by blast
      have limit: "0 < limit" using plan by (auto simp: buildCDNRequestPlan_def split: if_splits)
      obtain pr c2 where p: "part_loop fuel env offset limit redirect (c_rev c) plan [] c1 = Some (pr, c2)"
        using run modeCDN Some a \<open>a = None\<close> plan by (auto simp: chunk_round_def snapshot_def split: option.splits)
      have two: "keeps known c c2" "parts_result env offset limit pr"
        using part_loop_result[OF t limit p] cdn_keeps_trans[OF one] by auto
      then have "cdn_inv known c2" "c_verify c2 = c_verify c" using inv by (simp_all add: keeps_def)
      then have v2: "keeps known c c3 \<and> (e = None \<and> c_verify c \<longrightarrow> (\<forall>p<length bs'. vouched known offset bs' p))"
        if "verify bs c2 = Some ((e, bs'), c3)" for bs e bs' c3
        using v that cdn_keeps_trans[OF two(1)] unfolding verify_ok_def by metis
      show ?thesis
      proof (cases pr)
        case (PartsReturn x)
        then show ?thesis using run modeCDN Some a \<open>a = None\<close> plan p two
          by (cases x) (auto simp: chunk_round_def snapshot_def chunk_ok_def)
      next
        case PartsRetry
        then show ?thesis using run modeCDN Some a \<open>a = None\<close> plan p two by (auto simp: chunk_round_def snapshot_def)
      next
        case (PartsDone bs)
        then show ?thesis using run modeCDN Some a \<open>a = None\<close> plan p
          by (auto simp: chunk_round_def snapshot_def chunk_ok_def split: option.splits dest!: v2)
      qed
    qed
  qed
qed

lemma chunk_loop_result:
  assumes "trusted known env" "verify_ok known offset verify"
  shows "cdn_inv known c \<Longrightarrow> chunk_loop n fuel env verify offset limit c = Some (r, c') \<Longrightarrow>
    keeps known c c' \<and> chunk_ok known env (c_verify c) offset limit r"
proof (induction n arbitrary: c)
  case 0
  then show ?case by (auto simp: chunk_ok_def)
next
  case (Suc n)
  show ?case
  proof (cases "e_ctx env (c_now c)")
    case None
    then obtain x c1 where x: "chunk_round fuel env verify offset limit c = Some (x, c1)"
      using Suc.prems by (auto split: option.splits)
    have one: "keeps known c c1" "\<forall>y. x = Some y \<longrightarrow> chunk_ok known env (c_verify c) offset limit y"
      using chunk_round_result[OF assms Suc.prems(1) x] by auto
    then have "cdn_inv known c1" "c_verify c1 = c_verify c" using Suc.prems(1) by (simp_all add: keeps_def)
    then show ?thesis using Suc.prems None x one cdn_keeps_trans[OF one(1)] Suc.IH[of c1] by (cases x) auto
  qed (use Suc.prems in \<open>auto simp: chunk_ok_def\<close>)
qed

lemma cdn_Chunk_result:
  assumes "trusted known env"
  shows "cdn_inv known c \<Longrightarrow> cdn_Chunk depth fuel env loading offset limit c = Some (r, c') \<Longrightarrow>
    keeps known c c' \<and> chunk_ok known env (c_verify c) offset limit r"
proof (induction depth arbitrary: loading offset limit c r c')
  case (Suc depth)
  have "load_ok known (loadAndVerifyWindow env loading (\<lambda>h. cdn_Chunk depth fuel env (h # loading) (fh_Offset h) (fh_Limit h)))"
    by (rule load_ok_window[OF assms]) (use Suc.IH in blast)
  from verifyChunk_ok[OF assms this] show ?case
    by (rule chunk_loop_result[OF assms _ Suc.prems(1) Suc.prems(2)[unfolded cdn_Chunk.simps]])
qed simp

lemma newCDNSchema_inv: "cdn_inv known (newCDNSchema verify)"
  by (simp add: newCDNSchema_def cdn_inv_def hashes_inv_def windows_inv_def)

text \<open>
  C22. The integrity of downloads from untrusted nodes. Let the data centre of the file give out known
  hashes only, and let the other goroutines keep the invariant of the schema. Then a call of
  \<open>Chunk\<close>, whatever the nodes answer, keeps the invariant too, and every chunk that it returns with
  verification on either is the answer of the data centre itself to this request, or each of
  its bytes lies in the window of a known hash and is, as far as the verified content of the window
  reaches, the byte of that content.
\<close>

theorem cdn_Chunk_verified:
  assumes "trusted known env" "cdn_inv known c" "c_verify c"
    and "cdn_Chunk depth fuel env [] offset limit c = Some (r, c')"
  shows "cdn_inv known c' \<and>
    (\<forall>ch. r = Inr ch \<longrightarrow> from_master env offset limit ch \<or> (\<forall>p<length (ch_data ch). vouched known offset (ch_data ch) p))"
  using cdn_Chunk_result[OF assms(1,2,4)] assms(2,3) by (auto simp: keeps_def chunk_ok_def)

section \<open>Decryption\<close>

lemma be_nat_append: "be_nat (xs @ ys) = be_nat xs * 256 ^ length ys + be_nat ys"
proof -
  have "foldl (\<lambda>n b. n * 256 + unat b) a ys = a * 256 ^ length ys + foldl (\<lambda>n b. n * 256 + unat b) 0 ys" for a and ys :: bytes
  proof (induction ys rule: rev_induct)
    case (snoc y ys)
    show ?case by (simp only: foldl_append foldl.simps snoc length_append list.size power_add power_one_right) (simp add: distrib_right mult.assoc)
  qed simp
  from this[of "be_nat xs" ys] show ?thesis by (simp add: be_nat_def)
qed

lemma nat_digits:
  fixes x :: nat
  assumes "x < 2 ^ 32"
  shows "((x div 2 ^ 24 * 256 + x div 2 ^ 16 mod 256) * 256 + x div 2 ^ 8 mod 256) * 256 + x mod 256 = x"
proof -
  have "x div 2 ^ 8 = x div 2 ^ 16 * 256 + x div 2 ^ 8 mod 256" using div_mult2_eq[of x "2 ^ 8" 256] by simp
  moreover have "x div 2 ^ 16 = x div 2 ^ 24 * 256 + x div 2 ^ 16 mod 256" using div_mult2_eq[of x "2 ^ 16" 256] by simp
  moreover have "x = x div 2 ^ 8 * 256 + x mod 256" by simp
  ultimately show ?thesis by simp
qed

lemma be_nat_bytes32: "be_nat (be_bytes32 w) = unat w"
proof -
  have "unat w < 2 ^ 32" using unsigned_less[of w] by simp
  moreover have "unat w div 2 ^ 24 < 256" using calculation by (simp add: less_mult_imp_div_less)
  moreover have "unat (w div 256) = unat w div 256" "unat (w div 65536) = unat w div 65536" "unat (w div 16777216) = unat w div 16777216"
    by (simp_all add: unat_div_distrib)
  ultimately show ?thesis using nat_digits[of "unat w"]
    by (simp add: be_nat_def be_bytes32_def unsigned_ucast_eq unsigned_drop_bit_eq take_bit_eq_mod drop_bit_eq_div)
qed

lemma decrypt_nth:
  assumes "decrypt src offset rd = Inr dst" "i < length src"
  shows "length dst = length src \<and>
    dst ! i = src ! i XOR ctr_byte (rd_EncryptionKey rd) (take 12 (rd_EncryptionIv rd) @ be_bytes32 (word_of_int (offset div 16))) i"
  using assms by (auto simp: decrypt_def Let_def split: if_splits)

lemma ctr_byte_shift:
  assumes "k < 2 ^ 32"
  shows "ctr_byte key (ivp @ be_bytes32 (word_of_nat k)) i = ctr_byte key (ivp @ be_bytes32 0) (16 * k + i)"
proof -
  have "unat (word_of_nat k :: 32 word) = k" using assms by (simp add: unat_of_nat)
  moreover have "(16 * k + i) div 16 = k + i div 16" "(16 * k + i) mod 16 = i mod 16" by simp_all
  ultimately show ?thesis by (simp add: ctr_byte_def be_nat_append be_nat_bytes32 add.assoc)
qed

text \<open>
  The parts of an encrypted file can be decrypted one by one: for a file of up to 64 GB and a part that
  starts at a multiple of 16, decrypting the part gives the part of the decrypted file.
\<close>

theorem decrypt_part:
  assumes "offset = 16 * int k" "k < 2 ^ 32"
  shows "decrypt (take n (drop (16 * k) file)) offset rd = map_sum id (\<lambda>bs. take n (drop (16 * k) bs)) (decrypt file 0 rd)"
proof (cases "decrypt file 0 rd")
  case (Inl err)
  then show ?thesis by (auto simp: decrypt_def Let_def split: if_splits)
next
  case (Inr bs)
  then obtain d where d: "decrypt (take n (drop (16 * k) file)) offset rd = Inr d" by (auto simp: decrypt_def Let_def split: if_splits)
  have len: "length bs = length file" "length d = min n (length file - 16 * k)"
    using Inr d by (auto simp: decrypt_def Let_def split: if_splits)
  have "d = take n (drop (16 * k) bs)"
  proof (rule nth_equalityI)
    fix i assume i: "i < length d"
    have "word_of_int (offset div 16) = (word_of_nat k :: 32 word)" using assms(1) by simp
    then show "d ! i = take n (drop (16 * k) bs) ! i"
      using decrypt_nth[OF d, of i] decrypt_nth[OF Inr, of "16 * k + i"] i len ctr_byte_shift[OF assms(2)] by (simp add: less_diff_conv add.commute)
  qed (use len in auto)
  then show ?thesis using Inr d by simp
qed

lemma decrypt_twice:
  assumes "decrypt src offset rd = Inr e"
  shows "decrypt e offset rd = Inr src"
proof -
  obtain d where d: "decrypt e offset rd = Inr d" using assms by (auto simp: decrypt_def Let_def split: if_splits)
  have len: "length e = length src" "length d = length src" using assms d by (auto simp: decrypt_def Let_def split: if_splits)
  have "d = src"
    by (rule nth_equalityI) (use len decrypt_nth[OF assms] decrypt_nth[OF d] in \<open>auto simp: xor.assoc\<close>)
  then show ?thesis using d by simp
qed

section \<open>An honest network\<close>

definition file_part :: "bytes \<Rightarrow> int \<Rightarrow> int \<Rightarrow> bytes" where
  "file_part file offset limit = take (nat limit) (drop (nat offset) file)"

text \<open>The nodes return the parts of the encrypted file; the goroutine is alone and not cancelled.\<close>

definition serves :: "cdn_env \<Rightarrow> UploadFileCDNRedirect \<Rightarrow> bytes \<Rightarrow> bool" where
  "serves env rd file \<longleftrightarrow>
     (\<forall>n c. e_others env n c = c) \<and> (\<forall>n. e_ctx env n = None) \<and>
     (\<exists>enc. decrypt file 0 rd = Inr enc \<and>
        (\<forall>n offset limit. e_GetCDNFile env n (rd_DCID rd) offset limit (rd_FileToken rd) = Inr (CDNFile (file_part enc offset limit))))"

text \<open>Hash windows that tile the chunk and are those of the file.\<close>

definition tiled :: "cdn \<Rightarrow> bytes \<Rightarrow> int \<Rightarrow> int \<Rightarrow> bool" where
  "tiled c file offset limit \<longleftrightarrow>
     (\<forall>pos. offset \<le> pos \<and> pos < offset + limit \<longrightarrow>
        (\<exists>h. cdn_hash pos c = Some h \<and> covers h pos \<and> offset \<le> fh_Offset h \<and> fh_Offset h + fh_Limit h \<le> offset + limit \<and>
           fh_Hash h = sha256 (file_part file (fh_Offset h) (fh_Limit h))))"

lemma event_alone: "serves env rd file \<Longrightarrow> event env c = c\<lparr>c_now := Suc (c_now c)\<rparr>"
  by (simp add: serves_def event_def)

lemma file_part_step:
  assumes "0 \<le> o1" "0 \<le> l1" "0 \<le> l2"
  shows "file_part file o1 l1 @ file_part file (o1 + l1) l2 = file_part file o1 (l1 + l2)"
  using assms by (simp add: file_part_def nat_add_distrib take_add add.commute)

lemma file_part_short: "int (length (file_part file o1 l1)) < l1 \<Longrightarrow> l1 \<le> l2 \<Longrightarrow> file_part file o1 l2 = file_part file o1 l1"
  by (auto simp: file_part_def min_def split: if_splits)

lemma decrypt_file_part:
  assumes "decrypt file 0 rd = Inr enc" "0 \<le> offset" "16 dvd offset" "offset < 2 ^ 36"
  shows "decrypt (file_part enc offset limit) offset rd = Inr (file_part file offset limit)"
proof -
  define k where "k = nat (offset div 16)"
  have k: "offset = 16 * int k" "nat offset = 16 * k" using assms(2,3) by (auto simp: k_def)
  then have "k < 2 ^ 32" using assms(4) by simp
  from decrypt_part[OF k(1) this, of "nat limit" enc rd] show ?thesis
    using decrypt_twice[OF assms(1)] k(2) by (simp add: file_part_def)
qed

lemma part_loop_serves:
  assumes "serves env rd file" "fin \<le> 2 ^ 36"
  shows "contiguous start plan fin \<Longrightarrow> list_all valid_range plan \<Longrightarrow> 0 \<le> start \<Longrightarrow>
    \<exists>k. part_loop fuel env offset limit rd revision plan bs c = Some (PartsDone (bs @ file_part file start (fin - start)), c\<lparr>c_now := k\<rparr>)"
proof (induction plan arbitrary: start bs c)
  case Nil
  then show ?case by (auto simp: file_part_def intro: exI[of _ "c_now c"])
next
  case (Cons req plan)
  let ?l = "rr_limit req"
  have req: "rr_offset req = start" "contiguous (start + ?l) plan fin" "0 < ?l" "start mod cdnMinChunk = 0"
    using Cons.prems by (auto simp: valid_range_def)
  have "contiguous a rs b \<Longrightarrow> list_all valid_range rs \<Longrightarrow> a \<le> b" for a rs b
    by (induction rs arbitrary: a) (auto simp: valid_range_def, force)
  then have le: "start + ?l \<le> fin" using req(2) Cons.prems(2) by auto
  obtain enc where enc: "decrypt file 0 rd = Inr enc"
      "\<And>n offset limit. e_GetCDNFile env n (rd_DCID rd) offset limit (rd_FileToken rd) = Inr (CDNFile (file_part enc offset limit))"
    using assms(1) by (auto simp: serves_def)
  have "16 dvd start" using req(4) by (auto simp: cdnMinChunk_def elim: dvd_trans[rotated])
  then have dec: "decrypt (file_part enc start ?l) start rd = Inr (file_part file start ?l)"
    using decrypt_file_part[OF enc(1)] Cons.prems(3) le req(3) assms(2) by simp
  show ?case
  proof (cases "int (length (file_part file start ?l)) < ?l")
    case True
    then have "file_part file start (fin - start) = file_part file start ?l" using le by (intro file_part_short) auto
    then show ?thesis using True dec by (auto simp: enc(2) req(1) event_alone[OF assms(1)])
  next
    case False
    have "file_part file start ?l @ file_part file (start + ?l) (fin - (start + ?l)) = file_part file start (fin - start)"
      using file_part_step[of start ?l "fin - (start + ?l)" "file"] Cons.prems(3) req(3) le by simp
    then show ?thesis using False dec Cons.IH[of "start + ?l" "bs @ file_part file start ?l" "c\<lparr>c_now := Suc (c_now c)\<rparr>"] req Cons.prems
      by (auto simp: enc(2) event_alone[OF assms(1)])
  qed
qed

lemma verify_loop_serves:
  assumes "tiled c file offset limit" "bs = file_part file offset limit" "0 \<le> offset" "0 < limit"
    and "fin = offset + int (length bs)" "short = (int (length bs) < limit)"
  shows "offset \<le> current \<Longrightarrow> verify_loop (hashForOffset fuel env) load short offset fin current bs c = Some ((None, bs), c)"
proof (induction "nat (fin - current)" arbitrary: current rule: less_induct)
  case less
  have fin: "fin \<le> offset + limit" using assms(2,4,5) by (simp add: file_part_def)
  show ?case
  proof (cases "current < fin")
    case False
    then show ?thesis by (simp add: verify_loop.simps)
  next
    case True
    then have "current < offset + limit" using fin by simp
    with less.prems obtain h where h: "cdn_hash current c = Some h" "covers h current" "offset \<le> fh_Offset h" "fh_Offset h + fh_Limit h \<le> offset + limit"
        "fh_Hash h = sha256 (file_part file (fh_Offset h) (fh_Limit h))"
      using assms(1) unfolding tiled_def by blast
    have hash: "hashForOffset fuel env current c = Some (Inr h, c)" using h(1) by (simp add: hashForOffset_def)
    have win: "fh_Offset h \<le> current" "current < fh_Offset h + fh_Limit h" "0 < fh_Limit h" using h(2) by (auto simp: covers_def)
    have part: "part_of (fh_Offset h - offset) (fh_Offset h + fh_Limit h - offset) bs = file_part file (fh_Offset h) (fh_Limit h)"
    proof -
      have "nat (fh_Offset h - offset) + nat offset = nat (fh_Offset h)" using h(3) assms(3) by simp
      moreover have "nat limit - nat (fh_Offset h - offset) \<ge> nat (fh_Limit h)" using h(3,4) by simp
      ultimately show ?thesis using win(3) by (simp add: part_of_def assms(2) file_part_def drop_take min_absorb1)
    qed
    show ?thesis
    proof (cases "fh_Offset h + fh_Limit h \<le> fin")
      case True
      have "verify_loop (hashForOffset fuel env) load short offset fin (fh_Offset h + fh_Limit h) bs c = Some ((None, bs), c)"
        using less.hyps[of "fh_Offset h + fh_Limit h"] \<open>current < fin\<close> win h(3) by simp
      then show ?thesis using \<open>current < fin\<close> hash win h(3,5) True part by (subst verify_loop.simps) (simp add: Let_def)
    next
      case False
      then have short: "short" using h(4) assms(5,6) by simp
      have "part_of (fh_Offset h - offset) (fh_Offset h + fh_Limit h - offset) bs = drop (nat (fh_Offset h - offset)) bs"
        using False h(3) assms(5) by (simp add: part_of_def)
      then have "sha256 (drop (nat (fh_Offset h - offset)) bs) = fh_Hash h" using part h(5) by simp
      then show ?thesis using \<open>current < fin\<close> hash win h(3) False short by (subst verify_loop.simps) (simp add: Let_def)
    qed
  qed
qed

lemma cdn_hash_now [simp]: "cdn_hash pos (c\<lparr>c_now := k\<rparr>) = cdn_hash pos c"
  by (simp add: cdn_hash_def Let_def cong: option.case_cong)

text \<open>
  C23. With an honest network downloads work: for a schema that was redirected and whose hash windows tile
  the chunk, \<open>Chunk\<close> returns exactly the part of the file, also where the file ends inside it, without
  further requests to the data centre and without bounds on nesting or retries.
\<close>

theorem cdn_Chunk_serves:
  assumes "serves env rd file" "c_mode c = modeCDN" "c_redirect c = Some rd" "c_client c = Some (rd_DCID rd)"
    and "tiled c file offset limit" "0 \<le> offset" "0 < limit" "cdnMinChunk dvd offset" "cdnMinChunk dvd limit" "offset + limit \<le> 2 ^ 36"
  shows "\<exists>k. cdn_Chunk (Suc depth) fuel env loading offset limit c =
    Some (Inr \<lparr>ch_data = file_part file offset limit, ch_tag = None\<rparr>, c\<lparr>c_now := k\<rparr>)"
proof -
  let ?bs = "file_part file offset limit"
  obtain plan where plan: "buildCDNRequestPlan offset limit = Inr plan" "contiguous offset plan (offset + limit)" "list_all valid_range plan"
    using plan_exists[OF assms(6-9)] by blast
  obtain k where k: "part_loop fuel env offset limit rd (c_rev c) plan [] c = Some (PartsDone ?bs, c\<lparr>c_now := k\<rparr>)"
    using part_loop_serves[OF assms(1,10) plan(2,3) assms(6), of fuel offset limit "c_rev c" "[]" c] by auto
  have "tiled (c\<lparr>c_now := k\<rparr>) file offset limit" using assms(5) by (simp add: tiled_def)
  from verify_loop_serves[OF this refl assms(6,7) refl refl order_refl]
  have verify: "verifyChunk fuel env load offset limit ?bs (c\<lparr>c_now := k\<rparr>) = Some ((None, ?bs), c\<lparr>c_now := k\<rparr>)" for load
    using assms(7) by (simp add: verifyChunk_def)
  have "chunk_round fuel env (verifyChunk fuel env load offset limit) offset limit c =
      Some (Some (Inr \<lparr>ch_data = ?bs, ch_tag = None\<rparr>), c\<lparr>c_now := k\<rparr>)" for load
    using assms(2-4) plan(1) k verify by (simp add: chunk_round_def snapshot_def ensureClient_def)
  moreover have "e_ctx env n = None" for n using assms(1) by (simp add: serves_def)
  ultimately have loop: "chunk_loop (Suc n) fuel env (verifyChunk fuel env load offset limit) offset limit c =
      Some (Inr \<lparr>ch_data = ?bs, ch_tag = None\<rparr>, c\<lparr>c_now := k\<rparr>)" for n load
    by simp
  have "maxRetryAttempts = Suc 19" by (simp add: maxRetryAttempts_def)
  then show ?thesis unfolding cdn_Chunk.simps using loop[of 19] by (intro exI[of _ k]) (simp only:)
qed

section \<open>What verification lets through\<close>

text \<open>
  The content of the last window of a file is shorter than the window. When a node answers with
  more bytes than the file has left, the verified content is copied over the beginning of the
  answer, and the rest is returned as it came.
\<close>

theorem unverified_tail_accepted:
  assumes "c_verify c" "cdn_hash offset c = Some h" "cachedWindow h c = Some w"
    and "fh_Offset h < offset" "offset + int (length bs) \<le> fh_Offset h + fh_Limit h"
    and "offset < fh_Offset h + int (length w)" "fh_Offset h + int (length w) < offset + int (length bs)"
  shows "verifyChunk fuel env (loadAndVerifyWindow env loading fetch) offset limit bs c =
    Some ((None, drop (nat (offset - fh_Offset h)) w @ drop (nat (fh_Offset h + int (length w) - offset)) bs), c)"
proof -
  let ?load = "loadAndVerifyWindow env loading fetch"
  have load: "?load h c = Some (Inr w, c)" using assms(3) by (simp add: loadAndVerifyWindow_def)
  have hash: "hashForOffset fuel env offset c = Some (Inr h, c)" using assms(2) by (simp add: hashForOffset_def)
  have "verify_loop (hashForOffset fuel env) ?load short offset (offset + int (length bs)) (fh_Offset h + fh_Limit h) bs2 c = Some ((None, bs2), c)" for short bs2
    using assms(5) by (subst verify_loop.simps) simp
  then have "verify_loop (hashForOffset fuel env) ?load short offset (offset + int (length bs)) offset bs c =
      Some ((None, patch 0 (fh_Offset h + int (length w) - offset) (part_of (offset - fh_Offset h) (int (length w)) w) bs), c)" for short
    using assms hash load by (subst verify_loop.simps) (auto simp: Let_def)
  moreover have "part_of (offset - fh_Offset h) (int (length w)) w = drop (nat (offset - fh_Offset h)) w"
    using assms(4) by (simp add: part_of_def)
  ultimately show ?thesis using assms(1,6,7) by (auto simp: verifyChunk_def patch_def)
qed

section \<open>A download\<close>

text \<open>A file of one window on a node: the first request is redirected, the second round fetches and verifies it.\<close>

definition demo_file :: bytes where "demo_file = replicate 4096 7"

definition demo_hash :: FileHash where
  "demo_hash = \<lparr>fh_Offset = 0, fh_Limit = 4096, fh_Hash = sha256 demo_file\<rparr>"

definition demo_redirect :: UploadFileCDNRedirect where
  "demo_redirect = \<lparr>rd_DCID = 203, rd_FileToken = [1], rd_EncryptionKey = replicate 32 1, rd_EncryptionIv = replicate 16 2, rd_FileHashes = [demo_hash]\<rparr>"

definition demo_encrypted :: bytes where
  "demo_encrypted = projr (decrypt demo_file 0 demo_redirect)"

definition demo_env :: cdn_env where
  "demo_env = \<lparr>e_others = \<lambda>_ c. c, e_ctx = \<lambda>_. None, e_wait = \<lambda>_. None, e_timeout = \<lambda>_. False,
     e_GetFile = \<lambda>_ _ _. Inr (FileRedirect (Some demo_redirect)), e_Hashes = \<lambda>_ _. Inl EOF, e_CDN = \<lambda>_ _. Inr True,
     e_GetCDNFile = \<lambda>_ _ offset limit _. Inr (CDNFile (file_part demo_encrypted offset limit)), e_Reupload = \<lambda>_ _ _. Inl EOF, e_CDNHashes = \<lambda>_ _ _. Inl EOF,
     e_Flight = \<lambda>_ _. None\<rparr>"

lemma decrypt_part_witness:
  "decrypt [5, 6] 16 demo_redirect = map_sum id (\<lambda>bs. take 2 (drop 16 bs)) (decrypt (replicate 16 0 @ [5, 6]) 0 demo_redirect)"
  using decrypt_part[of 16 1 2 "replicate 16 0 @ [5, 6]" demo_redirect] by simp

lemma demo_decrypted: "decrypt demo_encrypted 0 demo_redirect = Inr demo_file"
proof -
  obtain e where e: "decrypt demo_file 0 demo_redirect = Inr e" by (simp add: decrypt_def demo_redirect_def Let_def)
  then show ?thesis using decrypt_twice[OF e] by (simp add: demo_encrypted_def)
qed

lemma demo_length: "length demo_encrypted = 4096"
  by (simp add: demo_encrypted_def decrypt_def demo_redirect_def Let_def demo_file_def)

lemma demo_plan: "buildCDNRequestPlan 0 4096 = Inr [\<lparr>rr_offset = 0, rr_limit = 4096\<rparr>]"
proof -
  have "largestCDNValidLimit 4096 = 4096" by (subst largestCDNValidLimit.simps) (simp add: cdnMinChunk_def cdnMaxChunk_def)
  moreover have "plan_loop err 4096 0 plan = Inr plan" for err plan by (subst plan_loop.simps) simp
  ultimately have "plan_loop err 0 4096 [] = Inr [\<lparr>rr_offset = 0, rr_limit = 4096\<rparr>]" for err
    by (subst plan_loop.simps) (simp add: cdnMaxChunk_def Let_def)
  then show ?thesis by (simp add: buildCDNRequestPlan_def cdnMinChunk_def)
qed

definition demo_cdn :: cdn where
  "demo_cdn = setRedirect (Some demo_redirect) ((newCDNSchema True)\<lparr>c_client := Some 203, c_now := 2\<rparr>)"

lemma demo_cdn_fields:
  "c_mode demo_cdn = modeCDN" "c_redirect demo_cdn = Some demo_redirect" "c_client demo_cdn = Some 203" "c_verify demo_cdn" "c_now demo_cdn = 2"
  "c_hashes demo_cdn 0 = Some demo_hash"
  by (simp_all add: demo_cdn_def setRedirect_def resetWindows_def resetHashes_def newCDNSchema_def Let_def cacheHashes_def cacheHash_def
      demo_redirect_def demo_hash_def)

lemma demo_first: "chunk_round 0 demo_env verify 0 4096 (newCDNSchema True) = Some (None, demo_cdn)"
  by (simp add: chunk_round_def snapshot_def newCDNSchema_def master_Chunk_def demo_env_def activateRedirect_def ensureClient_def closeClient_def
      event_def Let_def demo_cdn_def demo_redirect_def numeral_2_eq_2)

lemma demo_second:
  "chunk_round 0 demo_env (verifyChunk 0 demo_env load 0 4096) 0 4096 demo_cdn =
     Some (Some (Inr \<lparr>ch_data = demo_file, ch_tag = None\<rparr>), event demo_env demo_cdn)"
proof -
  let ?c = "event demo_env demo_cdn"
  have c: "c_verify ?c" "c_hashes ?c 0 = Some demo_hash" using demo_cdn_fields by (simp_all add: event_def demo_env_def)
  have hash: "hashForOffset 0 demo_env 0 ?c = Some (Inr demo_hash, ?c)" using c by (simp add: hashForOffset_def cdn_hash_def)
  have "verify_loop (hashForOffset 0 demo_env) load False 0 4096 4096 demo_file ?c = Some ((None, demo_file), ?c)"
    by (subst verify_loop.simps) simp
  then have "verify_loop (hashForOffset 0 demo_env) load False 0 4096 0 demo_file ?c = Some ((None, demo_file), ?c)"
    using hash by (subst verify_loop.simps) (simp add: demo_hash_def part_of_def demo_file_def Let_def)
  then have v: "verifyChunk 0 demo_env load 0 4096 demo_file ?c = Some ((None, demo_file), ?c)"
    using c(1) by (simp add: verifyChunk_def demo_file_def)
  have "part_loop 0 demo_env 0 4096 demo_redirect r [\<lparr>rr_offset = 0, rr_limit = 4096\<rparr>] [] demo_cdn = Some (PartsDone demo_file, ?c)" for r
    using demo_decrypted demo_length by (simp add: demo_env_def file_part_def)
  moreover have "ensureClient demo_env (rd_DCID demo_redirect) demo_cdn = (None, demo_cdn)"
    using demo_cdn_fields by (simp add: ensureClient_def demo_redirect_def)
  ultimately show ?thesis using v demo_cdn_fields by (simp add: chunk_round_def snapshot_def demo_plan)
qed

lemma demo_run:
  "chunk_loop (Suc (Suc n)) 0 demo_env (verifyChunk 0 demo_env load 0 4096) 0 4096 (newCDNSchema True) =
     Some (Inr \<lparr>ch_data = demo_file, ch_tag = None\<rparr>, event demo_env demo_cdn)"
proof -
  have "e_ctx demo_env k = None" for k by (simp add: demo_env_def)
  then show ?thesis by (simp add: demo_first demo_second)
qed

lemma cdn_Chunk_verified_witness:
  "\<exists>c'. cdn_Chunk 1 0 demo_env [] 0 4096 (newCDNSchema True) = Some (Inr \<lparr>ch_data = demo_file, ch_tag = None\<rparr>, c') \<and>
     cdn_inv (\<lambda>h. h = demo_hash) c' \<and> (\<forall>p<length demo_file. vouched (\<lambda>h. h = demo_hash) 0 demo_file p)"
proof -
  let ?known = "\<lambda>h. h = demo_hash"
  have max: "maxRetryAttempts = Suc (Suc 18)" by (simp add: maxRetryAttempts_def)
  have run: "cdn_Chunk 1 0 demo_env [] 0 4096 (newCDNSchema True) =
      Some (Inr \<lparr>ch_data = demo_file, ch_tag = None\<rparr>, event demo_env demo_cdn)"
    unfolding One_nat_def cdn_Chunk.simps max by (rule demo_run)
  have trust: "trusted ?known demo_env" by (simp add: trusted_def demo_env_def demo_redirect_def)
  have "c_verify (newCDNSchema True)" by (simp add: newCDNSchema_def)
  from cdn_Chunk_verified[OF trust newCDNSchema_inv this run] show ?thesis
    using run by (auto simp: from_master_def demo_env_def)
qed

lemma cdn_Chunk_serves_witness:
  "\<exists>k. cdn_Chunk 1 0 demo_env [] 0 4096 demo_cdn =
     Some (Inr \<lparr>ch_data = file_part demo_file 0 4096, ch_tag = None\<rparr>, demo_cdn\<lparr>c_now := k\<rparr>)"
proof -
  obtain e where e: "decrypt demo_file 0 demo_redirect = Inr e" by (simp add: decrypt_def demo_redirect_def Let_def)
  then have serves: "serves demo_env demo_redirect demo_file" by (simp add: serves_def demo_env_def demo_encrypted_def)
  have "hashes_inv (c_hashes demo_cdn, c_hashOffsets demo_cdn)"
    unfolding demo_cdn_def setRedirect_def by (simp add: Let_def resetWindows_def resetHashes_def newCDNSchema_def cacheHashes_inv hashes_inv_def[of "(Map.empty, [])"] del: One_nat_def)
  then have hash: "cdn_hash pos demo_cdn = Some demo_hash" if "0 \<le> pos" "pos < 4096" for pos
    using that by (subst cdn_hash_spec) (auto simp: demo_cdn_def setRedirect_def resetWindows_def resetHashes_def newCDNSchema_def Let_def
      cacheHashes_def cacheHash_def demo_redirect_def demo_hash_def covers_def split: if_splits)
  have "tiled demo_cdn demo_file 0 4096"
    using hash unfolding tiled_def by (auto simp: demo_hash_def covers_def file_part_def demo_file_def)
  from cdn_Chunk_serves[OF serves demo_cdn_fields(1,2) _ this, of 0 0 "[]"] show ?thesis
    using demo_cdn_fields(3) by (simp add: demo_redirect_def cdnMinChunk_def)
qed

end
