(* ===== verification/Downloader.thy ===== *)
theory Downloader
  imports Cdn_Download "HOL-Library.Multiset"
begin

text \<open>
  Package \<open>telegram/downloader\<close> above the schemas: the reader that asks for one part after the other
  (\<open>reader.go\<close>), the queue of hashes of the verifying reader (\<open>verifier.go\<close>) and the goroutines of a
  parallel download (\<open>parallel.go\<close>, \<open>sink.go\<close>). The answers of a schema come with
  the context's error during a flood wait, the context's state and whether the error is a
  timeout of package \<open>net\<close>.
\<close>

section \<open>verifier.go\<close>

record verifier =
  v_hashes :: "FileHash list"
  v_offset :: int

definition newVerifier :: "FileHash list \<Rightarrow> verifier" where
  "newVerifier hashes =
     (let r = sort_key fh_Offset hashes in
      \<lparr>v_hashes = r,
       v_offset = fold (\<lambda>h nextOffset. if fh_Limit h \<le> 0 then nextOffset
                          else let ends = fh_Offset h + fh_Limit h in if ends > nextOffset then ends else nextOffset) r 0\<rparr>)"

definition verifier_pop :: "verifier \<Rightarrow> FileHash option \<times> verifier" where
  "verifier_pop v = (case v_hashes v of [] \<Rightarrow> (None, v) | h # hs \<Rightarrow> (Some h, v\<lparr>v_hashes := hs\<rparr>))"

definition verifier_update :: "FileHash list \<Rightarrow> verifier \<Rightarrow> FileHash option \<times> verifier" where
  "verifier_update hashes v =
     (if hashes = [] then (None, v)
      else
        let hashes = sort_key fh_Offset hashes; lst = last hashes in
        if fh_Offset lst = v_offset v - fh_Limit lst then (None, v)
        else verifier_pop (v\<lparr>v_offset := fh_Offset lst + fh_Limit lst, v_hashes := v_hashes v @ hashes\<rparr>))"

text \<open>An answer of a schema.\<close>

record 'a schema_answer =
  sa_wait :: "go_error option"
  sa_ctx :: "go_error option"
  sa_timeout :: bool
  sa_result :: "go_error + 'a"

text \<open>The tests after a request: go on with the result, repeat it, or fail.\<close>

datatype 'a verdict = Accept 'a | Repeat | Fail go_error

definition judge :: "'a schema_answer \<Rightarrow> 'a verdict" where
  "judge a =
     (case sa_result a of
        Inr x \<Rightarrow> Accept x
      | Inl e \<Rightarrow>
         (case fst (FloodWait (sa_wait a) (Some e)) of
            (flood, Some err) \<Rightarrow> if flood \<or> isRetryableTimeout (sa_ctx a) (\<lambda>_. sa_timeout a) err then Repeat else Fail err
          | (_, None) \<Rightarrow> Fail e))"

text \<open>\<open>next\<close>: the loop ends with the answers, \<open>None\<close> is a call that is still waiting.\<close>

primrec hashes_request :: "FileHash list schema_answer list \<Rightarrow> verifier \<Rightarrow> ((go_error + FileHash option) \<times> verifier) option" where
  "hashes_request [] v = None"
| "hashes_request (a # as) v =
     (case judge a of
        Repeat \<Rightarrow> hashes_request as v
      | Fail err \<Rightarrow> Some (Inl (Wrap ''get hashes'' err), v)
      | Accept hashes \<Rightarrow> (case verifier_update hashes v of (h, v) \<Rightarrow> Some (Inr h, v)))"

definition verifier_next :: "FileHash list schema_answer list \<Rightarrow> verifier \<Rightarrow> ((go_error + FileHash option) \<times> verifier) option" where
  "verifier_next as v =
     (case verifier_pop v of
        (Some h, v) \<Rightarrow> Some (Inr (Some h), v)
      | (None, v) \<Rightarrow> hashes_request as v)"

definition verifier_verify :: "FileHash \<Rightarrow> bytes \<Rightarrow> bool" where
  "verifier_verify h bs \<longleftrightarrow> sha256 bs = fh_Hash h"

section \<open>reader.go\<close>

record block =
  b_data :: bytes
  b_tag :: "32 word option"
  b_offset :: int
  b_partSize :: int

definition block_last :: "block \<Rightarrow> bool" where
  "block_last b \<longleftrightarrow> int (length (b_data b)) < b_partSize b"

text \<open>The loop of \<open>next\<close> for one chunk, and the verifying reader, whose blocks have part size zero.\<close>

primrec chunk_request :: "chunk schema_answer list \<Rightarrow> (go_error + chunk) option" where
  "chunk_request [] = None"
| "chunk_request (a # as) =
     (case judge a of
        Repeat \<Rightarrow> chunk_request as
      | Fail err \<Rightarrow> Some (Inl (Wrap ''get next chunk'' err))
      | Accept ch \<Rightarrow> Some (Inr ch))"

definition nextHashed ::
  "FileHash list schema_answer list \<Rightarrow> chunk schema_answer list \<Rightarrow> verifier \<Rightarrow> ((go_error + block) \<times> verifier) option" where
  "nextHashed hashAnswers chunkAnswers v =
     (case verifier_next hashAnswers v of
        None \<Rightarrow> None
      | Some (Inl err, v) \<Rightarrow> Some (Inl err, v)
      | Some (Inr None, v) \<Rightarrow> Some (Inr \<lparr>b_data = [], b_tag = None, b_offset = 0, b_partSize = 0\<rparr>, v)
      | Some (Inr (Some h), v) \<Rightarrow>
         (case chunk_request chunkAnswers of
            None \<Rightarrow> None
          | Some (Inl err) \<Rightarrow> Some (Inl err, v)
          | Some (Inr ch) \<Rightarrow>
             if \<not> verifier_verify h (ch_data ch) then Some (Inl ErrHashMismatch, v)
             else Some (Inr \<lparr>b_data = ch_data ch, b_tag = ch_tag ch, b_offset = fh_Offset h, b_partSize = 0\<rparr>, v)))"

text \<open>\<open>nextPlain\<close> under its mutex: the offset to ask for and the next one.\<close>

definition claim_part :: "int \<Rightarrow> int \<Rightarrow> int \<times> int" where
  "claim_part partSize offset = (offset, offset + partSize)"

section \<open>parallel.go, sink.go\<close>

text \<open>
  A worker: at the top of its loop, about to call \<open>Next\<close>, waiting for the chunk at an offset, about
  to hand over a block, or returned.
\<close>

datatype dl_worker = AtTop | Claiming | Asked int | HasBlock block | Left

text \<open>
  \<open>pl_ready\<close>: \<open>stop\<close> was called; \<open>pl_typ\<close>: the type that the first call stored. \<open>pl_written\<close> are the calls of
  \<open>WriteAt\<close>. \<open>pl_err\<close> is the first error, at which the model stops.
\<close>

record parallel =
  pl_partSize :: int
  pl_offset :: int
  pl_workers :: "dl_worker list"
  pl_ready :: bool
  pl_typ :: "32 word option option"
  pl_queue :: "block list"
  pl_closed :: bool
  pl_written :: "(int \<times> bytes) list"
  pl_writer :: bool
  pl_err :: "go_error option"

definition parallel_start :: "nat \<Rightarrow> int \<Rightarrow> parallel" where
  "parallel_start threads partSize =
     \<lparr>pl_partSize = partSize, pl_offset = 0, pl_workers = replicate threads AtTop, pl_ready = False, pl_typ = None, pl_queue = [],
      pl_closed = False, pl_written = [], pl_writer = True, pl_err = None\<rparr>"

definition dl_stop :: "32 word option \<Rightarrow> parallel \<Rightarrow> parallel" where
  "dl_stop t s = s\<lparr>pl_typ := (case pl_typ s of None \<Rightarrow> Some t | Some t' \<Rightarrow> Some t'), pl_ready := True\<rparr>"

definition dl_goto :: "nat \<Rightarrow> dl_worker \<Rightarrow> parallel \<Rightarrow> parallel" where
  "dl_goto w x s = s\<lparr>pl_workers := (pl_workers s)[w := x]\<rparr>"

definition dl_answer :: "nat \<Rightarrow> int \<Rightarrow> chunk schema_answer \<Rightarrow> parallel \<Rightarrow> parallel" where
  "dl_answer w offset a s =
     (case judge a of
        Repeat \<Rightarrow> s
      | Fail err \<Rightarrow> s\<lparr>pl_err := Some (Wrap ''get file'' (Wrap ''get next chunk'' err))\<rparr>
      | Accept ch \<Rightarrow>
         if length (ch_data ch) < 1 then dl_goto w Left (dl_stop (ch_tag ch) s)
         else dl_goto w (HasBlock \<lparr>b_data = ch_data ch, b_tag = ch_tag ch, b_offset = offset, b_partSize = pl_partSize s\<rparr>) s)"

definition dl_push :: "nat \<Rightarrow> block \<Rightarrow> parallel \<Rightarrow> parallel" where
  "dl_push w b s =
     (let s = s\<lparr>pl_queue := pl_queue s @ [b]\<rparr> in
      if block_last b then dl_goto w Left (dl_stop (b_tag b) s) else dl_goto w AtTop s)"

datatype dl_event = Check nat | Claim nat | Chunked nat "chunk schema_answer" | Hand nat | CloseWrites | WriteNext "go_error option" | EndWrites

definition dl_step :: "dl_event \<Rightarrow> parallel \<Rightarrow> parallel option" where
  "dl_step ev s =
     (if pl_err s \<noteq> None then None
      else
        case ev of
          Check w \<Rightarrow>
            if w < length (pl_workers s) \<and> pl_workers s ! w = AtTop
            then Some (dl_goto w (if pl_ready s then Left else Claiming) s) else None
        | Claim w \<Rightarrow>
            if w < length (pl_workers s) \<and> pl_workers s ! w = Claiming then
              (case claim_part (pl_partSize s) (pl_offset s) of
                 (offset, next) \<Rightarrow> Some (dl_goto w (Asked offset) (s\<lparr>pl_offset := next\<rparr>)))
            else None
        | Chunked w a \<Rightarrow>
            if w < length (pl_workers s) then
              (case pl_workers s ! w of Asked offset \<Rightarrow> Some (dl_answer w offset a s) | _ \<Rightarrow> None)
            else None
        | Hand w \<Rightarrow>
            if w < length (pl_workers s) \<and> length (pl_queue s) < length (pl_workers s) then
              (case pl_workers s ! w of HasBlock b \<Rightarrow> Some (dl_push w b s) | _ \<Rightarrow> None)
            else None
        | CloseWrites \<Rightarrow> if (\<forall>x\<in>set (pl_workers s). x = Left) \<and> \<not> pl_closed s then Some (s\<lparr>pl_closed := True\<rparr>) else None
        | WriteNext e \<Rightarrow>
            if pl_writer s then
              (case pl_queue s of
                 [] \<Rightarrow> None
               | b # q \<Rightarrow>
                  (case e of
                     Some err \<Rightarrow> Some (s\<lparr>pl_err := Some (Wrap ''write output'' err)\<rparr>)
                   | None \<Rightarrow> Some (s\<lparr>pl_queue := q, pl_written := pl_written s @ [(b_offset b, b_data b)]\<rparr>)))
            else None
        | EndWrites \<Rightarrow> if pl_writer s \<and> pl_closed s \<and> pl_queue s = [] then Some (s\<lparr>pl_writer := False\<rparr>) else None)"

text \<open>\<open>g.Wait()\<close> returns without an error.\<close>

definition dl_done :: "parallel \<Rightarrow> bool" where
  "dl_done s \<longleftrightarrow> pl_err s = None \<and> pl_closed s \<and> \<not> pl_writer s"

text \<open>The answers of a schema that serves a file: errors at will, but chunks only of the file.\<close>

definition honest_event :: "bytes \<Rightarrow> parallel \<Rightarrow> dl_event \<Rightarrow> bool" where
  "honest_event file s ev =
     (case ev of
        Chunked w a \<Rightarrow>
          (case sa_result a of
             Inl _ \<Rightarrow> True
           | Inr ch \<Rightarrow> (case pl_workers s ! w of Asked offset \<Rightarrow> ch_data ch = file_part file offset (pl_partSize s) | _ \<Rightarrow> True))
      | _ \<Rightarrow> True)"

inductive dl_reachable :: "bytes \<Rightarrow> nat \<Rightarrow> int \<Rightarrow> parallel \<Rightarrow> bool" for "file" threads partSize where
  start: "dl_reachable file threads partSize (parallel_start threads partSize)"
| step: "dl_reachable file threads partSize s \<Longrightarrow> honest_event file s ev \<Longrightarrow> dl_step ev s = Some s' \<Longrightarrow> dl_reachable file threads partSize s'"

section \<open>Invariants of a parallel download\<close>

text \<open>
  The parts that were claimed so far: each is with a worker, in the channel or written, unless
  it lies behind the end of the file.
\<close>

definition nonempty_part :: "bytes \<Rightarrow> int \<Rightarrow> int \<Rightarrow> (int \<times> bytes) list" where
  "nonempty_part file n offset = (let p = file_part file offset n in if p = [] then [] else [(offset, p)])"

fun dl_holds :: "bytes \<Rightarrow> int \<Rightarrow> dl_worker \<Rightarrow> (int \<times> bytes) list" where
  "dl_holds file n (Asked offset) = nonempty_part file n offset"
| "dl_holds file n (HasBlock b) = [(b_offset b, b_data b)]"
| "dl_holds file n _ = []"

definition dl_claimed :: "bytes \<Rightarrow> int \<Rightarrow> nat \<Rightarrow> (int \<times> bytes) list" where
  "dl_claimed file n k = concat (map (\<lambda>i. nonempty_part file n (int i * n)) [0..<k])"

text \<open>A worker asks for and holds parts below the offset of the reader; a returned one has seen the end.\<close>

fun dl_worker_ok :: "bytes \<Rightarrow> int \<Rightarrow> int \<Rightarrow> bool \<Rightarrow> dl_worker \<Rightarrow> bool" where
  "dl_worker_ok file n limit ready (Asked offset) \<longleftrightarrow> 0 \<le> offset \<and> offset + n \<le> limit"
| "dl_worker_ok file n limit ready (HasBlock b) \<longleftrightarrow>
     0 \<le> b_offset b \<and> b_offset b + n \<le> limit \<and> b_partSize b = n \<and> b_data b = file_part file (b_offset b) n"
| "dl_worker_ok file n limit ready Left \<longleftrightarrow> ready"
| "dl_worker_ok file n limit ready _ \<longleftrightarrow> True"

definition dl_moved :: "bytes \<Rightarrow> int \<Rightarrow> parallel \<Rightarrow> (int \<times> bytes) multiset" where
  "dl_moved file n s =
     mset (pl_written s) + mset (map (\<lambda>b. (b_offset b, b_data b)) (pl_queue s)) + mset (concat (map (dl_holds file n) (pl_workers s)))"

definition dl_inv :: "bytes \<Rightarrow> int \<Rightarrow> nat \<Rightarrow> parallel \<Rightarrow> bool" where
  "dl_inv file n threads s \<longleftrightarrow>
     pl_partSize s = n \<and> length (pl_workers s) = threads \<and>
     (\<exists>k. pl_offset s = int k * n \<and> dl_moved file n s = mset (dl_claimed file n k)) \<and>
     list_all (dl_worker_ok file n (pl_offset s) (pl_ready s)) (pl_workers s) \<and>
     (pl_ready s \<longrightarrow> int (length file) < pl_offset s) \<and>
     (pl_closed s \<longrightarrow> list_all (\<lambda>x. x = Left) (pl_workers s)) \<and> (\<not> pl_writer s \<longrightarrow> pl_closed s \<and> pl_queue s = [])"

lemma dl_inv_start: "dl_inv file n threads (parallel_start threads n)"
  by (auto simp: dl_inv_def parallel_start_def dl_moved_def dl_claimed_def list_all_iff intro: exI[of _ 0])

lemma mset_worker_update:
  "w < length ws \<Longrightarrow> mset (concat (map f (ws[w := x]))) + mset (f (ws ! w)) = mset (concat (map f ws)) + mset (f x)"
  by (induction ws arbitrary: w) (auto split: nat.splits simp: ac_simps)

lemma dl_same:
  "w < length ws \<Longrightarrow> f (ws ! w) = f x \<Longrightarrow> mset (concat (map f (ws[w := x]))) = mset (concat (map f ws))"
  using mset_worker_update[of w ws f x] by simp

lemma dl_release:
  "w < length ws \<Longrightarrow> f x = [] \<Longrightarrow> f (ws ! w) = [y] \<Longrightarrow> mset (concat (map f ws)) = add_mset y (mset (concat (map f (ws[w := x]))))"
  using mset_worker_update[of w ws f x] by simp

lemma dl_take:
  "w < length ws \<Longrightarrow> f (ws ! w) = [] \<Longrightarrow> mset (concat (map f (ws[w := x]))) = mset (f x) + mset (concat (map f ws))"
  using mset_worker_update[of w ws f x] by (simp add: ac_simps)

lemma worker_ok_update:
  "list_all P ws \<Longrightarrow> P x \<Longrightarrow> list_all P (ws[w := x])"
  using set_update_subset_insert[of ws w x] by (auto simp: list_all_iff)

lemma worker_ok_mono:
  "dl_worker_ok file n limit ready x \<Longrightarrow> limit \<le> limit' \<Longrightarrow> (ready \<longrightarrow> ready') \<Longrightarrow> dl_worker_ok file n limit' ready' x"
  by (cases x) auto

lemma workers_ok_mono:
  "list_all (dl_worker_ok file n limit ready) ws \<Longrightarrow> limit \<le> limit' \<Longrightarrow> (ready \<longrightarrow> ready') \<Longrightarrow> list_all (dl_worker_ok file n limit' ready') ws"
  by (auto simp: list_all_iff intro: worker_ok_mono)

lemma worker_ok_at: "list_all P ws \<Longrightarrow> w < length ws \<Longrightarrow> P (ws ! w)"
  by (simp add: list_all_length)

lemma not_all_left: "list_all (\<lambda>x. x = Left) ws \<Longrightarrow> w < length ws \<Longrightarrow> ws ! w = Left"
  by (simp add: list_all_length)

text \<open>A part that is not full ends the file.\<close>

lemma part_ends_file: "0 \<le> offset \<Longrightarrow> 0 < n \<Longrightarrow> int (length (file_part file offset n)) < n \<Longrightarrow> int (length file) < offset + n"
  by (auto simp: file_part_def min_def split: if_splits)

lemma dl_stop_simps [simp]:
  "pl_partSize (dl_stop t s) = pl_partSize s" "pl_offset (dl_stop t s) = pl_offset s" "pl_workers (dl_stop t s) = pl_workers s"
  "pl_ready (dl_stop t s)" "pl_queue (dl_stop t s) = pl_queue s" "pl_closed (dl_stop t s) = pl_closed s"
  "pl_written (dl_stop t s) = pl_written s" "pl_writer (dl_stop t s) = pl_writer s"
  by (simp_all add: dl_stop_def)

lemma dl_goto_simps [simp]:
  "pl_partSize (dl_goto w x s) = pl_partSize s" "pl_offset (dl_goto w x s) = pl_offset s" "pl_workers (dl_goto w x s) = (pl_workers s)[w := x]"
  "pl_ready (dl_goto w x s) = pl_ready s" "pl_queue (dl_goto w x s) = pl_queue s" "pl_closed (dl_goto w x s) = pl_closed s"
  "pl_written (dl_goto w x s) = pl_written s" "pl_writer (dl_goto w x s) = pl_writer s"
  by (simp_all add: dl_goto_def)

text \<open>One lemma for each kind of step.\<close>

lemma dl_goto_inv:
  assumes "dl_inv file n threads s" "w < length (pl_workers s)" "dl_holds file n (pl_workers s ! w) = dl_holds file n x"
    and "pl_workers s ! w \<noteq> Left" "dl_worker_ok file n (pl_offset s) (pl_ready s) x"
  shows "dl_inv file n threads (dl_goto w x s)"
  using assms not_all_left[of "pl_workers s" w]
  by (auto simp: dl_inv_def dl_moved_def dl_same worker_ok_update)

lemma dl_goto_stop_inv:
  assumes "dl_inv file n threads s" "w < length (pl_workers s)" "dl_holds file n (pl_workers s ! w) = []"
    and "pl_workers s ! w \<noteq> Left" "int (length file) < pl_offset s"
  shows "dl_inv file n threads (dl_goto w Left (dl_stop t s))"
proof -
  have "list_all (dl_worker_ok file n (pl_offset s) True) ((pl_workers s)[w := Left])"
    using assms(1) by (auto simp: dl_inv_def intro: worker_ok_update workers_ok_mono)
  then show ?thesis using assms not_all_left[of "pl_workers s" w]
    by (auto simp: dl_inv_def dl_moved_def dl_same)
qed

lemma dl_answer_inv:
  assumes inv: "dl_inv file n threads s" and n: "0 < n" and w: "w < length (pl_workers s)" "pl_workers s ! w = Asked offset"
    and honest: "honest_event file s (Chunked w a)"
  shows "dl_inv file n threads (dl_answer w offset a s)"
proof (cases "judge a")
  case (Accept ch)
  then have r: "sa_result a = Inr ch" by (auto simp: judge_def split: sum.splits option.splits prod.splits if_splits)
  have size: "pl_partSize s = n" using inv by (simp add: dl_inv_def)
  then have part: "ch_data ch = file_part file offset n" using honest r w(2) by (simp add: honest_event_def)
  have ok: "0 \<le> offset" "offset + n \<le> pl_offset s" using worker_ok_at[of _ "pl_workers s" w] inv w by (fastforce simp: dl_inv_def)+
  show ?thesis
  proof (cases "ch_data ch = []")
    case True
    then have "int (length file) < pl_offset s" using part_ends_file[OF ok(1) n, of "file"] part ok(2) n by simp
    then show ?thesis using dl_goto_stop_inv[OF inv w(1)] Accept True part w(2) by (simp add: dl_answer_def nonempty_part_def)
  next
    case False
    then show ?thesis using dl_goto_inv[OF inv w(1)] Accept part w(2) ok size by (simp add: dl_answer_def nonempty_part_def)
  qed
next
  case Repeat
  then show ?thesis using inv by (simp add: dl_answer_def)
next
  case (Fail err)
  then show ?thesis using inv by (simp add: dl_answer_def dl_inv_def dl_moved_def)
qed

lemma dl_push_inv:
  assumes inv: "dl_inv file n threads s" and n: "0 < n" and w: "w < length (pl_workers s)" "pl_workers s ! w = HasBlock b"
    and writer: "pl_writer s"
  shows "dl_inv file n threads (dl_push w b s)"
proof -
  have b: "0 \<le> b_offset b" "b_offset b + n \<le> pl_offset s" "b_partSize b = n" "b_data b = file_part file (b_offset b) n"
    using worker_ok_at[of _ "pl_workers s" w] inv w by (fastforce simp: dl_inv_def)+
  have moved: "mset (concat (map (dl_holds file n) (pl_workers s))) =
      add_mset (b_offset b, b_data b) (mset (concat (map (dl_holds file n) ((pl_workers s)[w := x]))))" if "dl_holds file n x = []" for x
    using dl_release[OF w(1), of "dl_holds file n" x] that w(2) by simp
  have notclosed: "\<not> pl_closed s" using inv w not_all_left[of "pl_workers s" w] by (auto simp: dl_inv_def)
  show ?thesis
  proof (cases "block_last b")
    case True
    then have "int (length file) < pl_offset s" using part_ends_file[OF b(1) n, of "file"] b by (simp add: block_last_def)
    moreover have "list_all (dl_worker_ok file n (pl_offset s) True) ((pl_workers s)[w := Left])"
      using inv by (auto simp: dl_inv_def intro: worker_ok_update workers_ok_mono)
    ultimately show ?thesis using inv True notclosed writer moved[of Left] by (auto simp: dl_push_def Let_def dl_inv_def dl_moved_def)
  next
    case False
    then show ?thesis using inv notclosed writer moved[of AtTop] by (auto simp: dl_push_def Let_def dl_inv_def dl_moved_def worker_ok_update)
  qed
qed

lemma dl_claim_inv:
  assumes inv: "dl_inv file n threads s" and n: "0 < n" and w: "w < length (pl_workers s)" "pl_workers s ! w = Claiming"
  shows "dl_inv file n threads (dl_goto w (Asked (pl_offset s)) (s\<lparr>pl_offset := pl_offset s + pl_partSize s\<rparr>))"
proof -
  obtain k where k: "pl_offset s = int k * n" "dl_moved file n s = mset (dl_claimed file n k)" using inv by (auto simp: dl_inv_def)
  have "dl_claimed file n (Suc k) = dl_claimed file n k @ nonempty_part file n (pl_offset s)" by (simp add: dl_claimed_def k(1))
  moreover have "mset (concat (map (dl_holds file n) ((pl_workers s)[w := Asked (pl_offset s)]))) =
      mset (nonempty_part file n (pl_offset s)) + mset (concat (map (dl_holds file n) (pl_workers s)))"
    using dl_take[OF w(1), of "dl_holds file n" "Asked (pl_offset s)"] w(2) by simp
  ultimately have moved: "\<exists>j. int k * n + n = int j * n \<and>
      mset (pl_written s) + mset (map (\<lambda>b. (b_offset b, b_data b)) (pl_queue s)) +
        mset (concat (map (dl_holds file n) ((pl_workers s)[w := Asked (pl_offset s)]))) = mset (dl_claimed file n j)"
    using k by (intro exI[of _ "Suc k"]) (simp add: dl_moved_def algebra_simps)
  have "list_all (dl_worker_ok file n (pl_offset s + n) (pl_ready s)) ((pl_workers s)[w := Asked (pl_offset s)])"
  proof (rule worker_ok_update)
    have "list_all (dl_worker_ok file n (pl_offset s) (pl_ready s)) (pl_workers s)" using inv by (simp add: dl_inv_def)
    then show "list_all (dl_worker_ok file n (pl_offset s + n) (pl_ready s)) (pl_workers s)" by (rule workers_ok_mono) (use n in simp_all)
  qed (use n k(1) in simp)
  then show ?thesis using inv n k w moved not_all_left[of "pl_workers s" w] by (auto simp: dl_inv_def dl_moved_def)
qed

lemma dl_step_inv:
  assumes inv: "dl_inv file n threads s" and n: "0 < n" and honest: "honest_event file s ev" and step: "dl_step ev s = Some s'"
  shows "dl_inv file n threads s'"
proof (cases ev)
  case (Check w)
  then show ?thesis using step dl_goto_inv[OF inv] by (auto simp: dl_step_def split: if_splits)
next
  case (Claim w)
  then show ?thesis using step dl_claim_inv[OF inv n] by (auto simp: dl_step_def claim_part_def split: if_splits)
next
  case (Chunked w a)
  then show ?thesis using step honest dl_answer_inv[OF inv n] by (auto simp: dl_step_def split: if_splits dl_worker.splits)
next
  case (Hand w)
  then obtain b where b: "w < length (pl_workers s)" "pl_workers s ! w = HasBlock b" "s' = dl_push w b s"
    using step by (auto simp: dl_step_def split: if_splits dl_worker.splits)
  then have "pl_writer s" using inv not_all_left[of "pl_workers s" w] by (auto simp: dl_inv_def)
  then show ?thesis using dl_push_inv[OF inv n b(1,2)] b(3) by simp
next
  case CloseWrites
  then show ?thesis using step inv by (auto simp: dl_step_def dl_inv_def dl_moved_def list_all_iff split: if_splits)
next
  case (WriteNext e)
  then show ?thesis using step inv by (auto simp: dl_step_def dl_inv_def dl_moved_def split: if_splits list.splits option.splits)
next
  case EndWrites
  then show ?thesis using step inv by (auto simp: dl_step_def dl_inv_def dl_moved_def split: if_splits)
qed

lemma dl_reachable_inv: "dl_reachable file threads n s \<Longrightarrow> 0 < n \<Longrightarrow> dl_inv file n threads s"
  by (induction rule: dl_reachable.induct) (auto intro: dl_inv_start dl_step_inv)

section \<open>Parallel downloads\<close>

lemma nonempty_part_iff:
  "0 < n \<Longrightarrow> e \<in> set (nonempty_part file n (int i * n)) \<longleftrightarrow> e = (int i * n, file_part file (int i * n) n) \<and> int i * n < int (length file)"
proof -
  assume n: "0 < n"
  have "file_part file (int i * n) n = [] \<longleftrightarrow> int (length file) \<le> int i * n"
    using n le_nat_iff[of "int i * n" "length file"] by (auto simp: file_part_def)
  then show ?thesis by (auto simp: nonempty_part_def Let_def)
qed

lemma distinct_claimed: "0 < n \<Longrightarrow> distinct (dl_claimed file n k)"
proof (induction k)
  case (Suc k)
  have "distinct (nonempty_part file n (int k * n))" by (simp add: nonempty_part_def Let_def)
  moreover have "set (dl_claimed file n k) \<inter> set (nonempty_part file n (int k * n)) = {}"
    using Suc.prems by (auto simp: dl_claimed_def nonempty_part_iff)
  ultimately show ?case using Suc by (simp add: dl_claimed_def)
qed (simp add: dl_claimed_def)

text \<open>
  C24. A parallel download of a file: in every interleaving of the goroutines, with any errors that are
  repeated on the way, when the download ends without an error every part of the file has
  been written exactly once at its offset and nothing else was written, although the workers
  stop as soon as one of them has seen the end.
\<close>

theorem parallel_complete:
  assumes "dl_reachable file threads n s" "0 < threads" "0 < n" "dl_done s"
  shows "distinct (pl_written s) \<and>
    set (pl_written s) = {(int i * n, file_part file (int i * n) n) | i. int i * n < int (length file)}"
proof -
  have inv: "dl_inv file n threads s" using dl_reachable_inv[OF assms(1,3)] .
  then obtain k where k: "pl_offset s = int k * n" "dl_moved file n s = mset (dl_claimed file n k)" by (auto simp: dl_inv_def)
  have left: "list_all (\<lambda>x. x = Left) (pl_workers s)" "pl_queue s = []" using inv assms(4) by (auto simp: dl_inv_def dl_done_def)
  have "pl_workers s \<noteq> []" using inv assms(2) by (auto simp: dl_inv_def)
  then have "pl_ready s" using inv left(1) by (cases "pl_workers s") (auto simp: dl_inv_def)
  then have past: "int (length file) < int k * n" using inv k(1) by (simp add: dl_inv_def)
  have empty: "concat (map (dl_holds file n) (pl_workers s)) = []" using left(1) by (auto simp: list_all_iff)
  have written: "mset (pl_written s) = mset (dl_claimed file n k)" using k(2) unfolding dl_moved_def empty left(2) by simp
  have "set (dl_claimed file n k) = {(int i * n, file_part file (int i * n) n) | i. int i * n < int (length file)}"
  proof -
    have "i < k" if "int i * n < int (length file)" for i using that past assms(3) by (metis less_trans mult_less_cancel_right_pos of_nat_less_iff)
    then show ?thesis using assms(3) by (auto simp: dl_claimed_def nonempty_part_iff)
  qed
  then show ?thesis using mset_eq_imp_distinct_iff[OF written] mset_eq_setD[OF written] distinct_claimed[OF assms(3)] by simp
qed

text \<open>A run: the events in their order.\<close>

primrec dl_run :: "bytes \<Rightarrow> dl_event list \<Rightarrow> parallel \<Rightarrow> parallel option" where
  "dl_run file [] s = Some s"
| "dl_run file (ev # evs) s =
     (if honest_event file s ev then case dl_step ev s of None \<Rightarrow> None | Some s' \<Rightarrow> dl_run file evs s' else None)"

lemma dl_run_reachable: "dl_reachable file threads n s \<Longrightarrow> dl_run file evs s = Some s' \<Longrightarrow> dl_reachable file threads n s'"
  by (induction evs arbitrary: s) (auto split: option.splits if_splits intro: dl_reachable.step)

definition demo_answer :: "go_error + bytes \<Rightarrow> chunk schema_answer" where
  "demo_answer r = \<lparr>sa_wait = None, sa_ctx = None, sa_timeout = True,
     sa_result = map_sum id (\<lambda>bs. \<lparr>ch_data = bs, ch_tag = None\<rparr>) r\<rparr>"

text \<open>Two workers on three bytes in parts of two: the second part arrives first, after a timeout.\<close>

definition demo_download :: "dl_event list" where
  "demo_download =
     [Check 0, Check 1, Claim 1, Claim 0, Chunked 0 (demo_answer (Inl EOF)), Chunked 0 (demo_answer (Inr [7])), Hand 0,
      Chunked 1 (demo_answer (Inr [5, 6])), WriteNext None, Hand 1, Check 1, CloseWrites, WriteNext None, EndWrites]"

lemma parallel_complete_witness:
  "\<exists>s. dl_run [5, 6, 7] demo_download (parallel_start 2 2) = Some s \<and> distinct (pl_written s) \<and>
     set (pl_written s) = {(int i * 2, file_part [5, 6, 7] (int i * 2) 2) | i. int i * 2 < 3}"
proof -
  let ?s = "the (dl_run [5, 6, 7] demo_download (parallel_start 2 2))"
  have run: "dl_run [5, 6, 7] demo_download (parallel_start 2 2) = Some ?s" and fin: "dl_done ?s" by code_simp+
  have "dl_reachable [5, 6, 7] 2 2 ?s" using dl_run_reachable[OF dl_reachable.start run] .
  from parallel_complete[OF this _ _ fin] show ?thesis using run by (intro exI[of _ ?s]) simp
qed

section \<open>The queue of hashes\<close>

text \<open>Windows that follow each other from \<open>a\<close> to \<open>b\<close>.\<close>

primrec windows_from :: "int \<Rightarrow> FileHash list \<Rightarrow> int \<Rightarrow> bool" where
  "windows_from a [] b \<longleftrightarrow> a = b"
| "windows_from a (h # hs) b \<longleftrightarrow> fh_Offset h = a \<and> 0 < fh_Limit h \<and> windows_from (a + fh_Limit h) hs b"

text \<open>
  A server of the hashes of a file: from the start of a window it returns some of the windows that
  follow, in any order, and from the end of the file nothing or windows that end with the last one.
\<close>

definition serves_hashes :: "(int \<Rightarrow> FileHash list) \<Rightarrow> FileHash list \<Rightarrow> int \<Rightarrow> bool" where
  "serves_hashes srv hs fin \<longleftrightarrow>
     (\<forall>pre suf. hs = pre @ suf \<and> suf \<noteq> [] \<longrightarrow>
        (\<exists>batch rest. suf = batch @ rest \<and> batch \<noteq> [] \<and> mset (srv (fh_Offset (hd suf))) = mset batch)) \<and>
     (srv fin = [] \<or> last (sort_key fh_Offset (srv fin)) = last hs)"

text \<open>Calls of \<open>next\<close> until there is no hash left; each request is answered.\<close>

primrec verifier_drain :: "nat \<Rightarrow> (int \<Rightarrow> FileHash list) \<Rightarrow> verifier \<Rightarrow> FileHash list option" where
  "verifier_drain 0 srv v = None"
| "verifier_drain (Suc n) srv v =
     (case verifier_next [\<lparr>sa_wait = None, sa_ctx = None, sa_timeout = False, sa_result = Inr (srv (v_offset v))\<rparr>] v of
        Some (Inr (Some h), v') \<Rightarrow> map_option (Cons h) (verifier_drain n srv v')
      | Some (Inr None, _) \<Rightarrow> Some []
      | _ \<Rightarrow> None)"

lemma windows_from_append: "windows_from a (xs @ ys) b \<longleftrightarrow> (\<exists>m. windows_from a xs m \<and> windows_from m ys b)"
  by (induction xs arbitrary: a) auto

lemma windows_from_le: "windows_from a xs b \<Longrightarrow> h \<in> set xs \<Longrightarrow> a \<le> fh_Offset h"
  by (induction xs arbitrary: a) fastforce+

lemma windows_from_sorted: "windows_from a xs b \<Longrightarrow> sorted_wrt (\<lambda>x y. fh_Offset x < fh_Offset y) xs"
  by (induction xs arbitrary: a) (fastforce dest: windows_from_le)+

lemma windows_from_last: "windows_from a xs b \<Longrightarrow> xs \<noteq> [] \<Longrightarrow> fh_Offset (last xs) + fh_Limit (last xs) = b \<and> a < b"
  by (induction xs arbitrary: a) fastforce+

lemma windows_from_unique: "windows_from a xs b \<Longrightarrow> windows_from a xs b' \<Longrightarrow> b = b'"
  by (induction xs arbitrary: a) auto

text \<open>Sorting puts a batch in its order, however it arrived.\<close>

lemma sort_batch:
  assumes "windows_from a batch b" "mset xs = mset batch"
  shows "sort_key fh_Offset xs = batch"
proof (rule sort_key_inj_key_eq[OF assms(2)])
  have order: "sorted_wrt (\<lambda>x y. fh_Offset x < fh_Offset y) batch" using windows_from_sorted[OF assms(1)] .
  show "sorted (map fh_Offset batch)" using sorted_wrt_mono_rel[OF _ order, of "\<lambda>x y. fh_Offset x \<le> fh_Offset y"] by (simp add: sorted_map)
  have "inj_on fh_Offset (set batch)" using order by (induction batch) force+
  then show "inj_on fh_Offset (set xs)" using mset_eq_setD[OF assms(2)] by simp
qed

lemma verifier_drain_serves:
  assumes "serves_hashes srv hs fin" "windows_from 0 hs fin" "hs \<noteq> []"
  shows "hs = pre @ v_hashes v @ rest \<Longrightarrow> windows_from 0 (pre @ v_hashes v) (v_offset v) \<Longrightarrow> length (v_hashes v @ rest) < n \<Longrightarrow>
    verifier_drain n srv v = Some (v_hashes v @ rest)"
proof (induction n arbitrary: pre v rest)
  case (Suc n)
  show ?case
  proof (cases "v_hashes v")
    case (Cons h q)
    have "verifier_drain n srv (v\<lparr>v_hashes := q\<rparr>) = Some (q @ rest)"
      using Suc.IH[of "pre @ [h]" "v\<lparr>v_hashes := q\<rparr>" rest] Suc.prems Cons by simp
    then show ?thesis using Cons by (simp add: verifier_next_def verifier_pop_def)
  next
    case Nil
    show ?thesis
    proof (cases "rest = []")
      case True
      then have pre: "pre = hs" "v_offset v = fin" using Suc.prems Nil assms(2) by auto (metis windows_from_unique)
      have "fh_Offset (last hs) + fh_Limit (last hs) = fin" using windows_from_last[OF assms(2,3)] by simp
      moreover have "srv fin = [] \<or> last (sort_key fh_Offset (srv fin)) = last hs" using assms(1) by (simp add: serves_hashes_def)
      ultimately have "verifier_update (srv fin) v = (None, v)" using pre(2) by (auto simp: verifier_update_def Let_def)
      then show ?thesis using Nil True pre(2) by (simp add: verifier_next_def verifier_pop_def judge_def)
    next
      case False
      have rest: "windows_from (v_offset v) rest fin"
        using assms(2) Suc.prems(1,2) Nil by (auto simp: windows_from_append) (metis windows_from_unique)
      then have first: "fh_Offset (hd rest) = v_offset v" using False by (cases rest) auto
      obtain batch rest' where b: "rest = batch @ rest'" "batch \<noteq> []" "mset (srv (v_offset v)) = mset batch"
      proof -
        have "hs = pre @ rest \<and> rest \<noteq> []" using Suc.prems(1) Nil False by simp
        then have "\<exists>batch rest'. rest = batch @ rest' \<and> batch \<noteq> [] \<and> mset (srv (fh_Offset (hd rest))) = mset batch"
          using assms(1) unfolding serves_hashes_def by blast
        then show ?thesis using that first by auto
      qed
      obtain m where m: "windows_from (v_offset v) batch m" using rest b(1) by (auto simp: windows_from_append)
      obtain h q where hq: "batch = h # q" using b(2) by (cases batch) auto
      have sorted: "sort_key fh_Offset (srv (v_offset v)) = batch" using sort_batch[OF m b(3)] .
      have "srv (v_offset v) \<noteq> []" using b(2,3) by auto
      moreover have last: "fh_Offset (last batch) + fh_Limit (last batch) = m" "v_offset v < m" using windows_from_last[OF m b(2)] by auto
      ultimately have upd: "verifier_update (srv (v_offset v)) v = (Some h, v\<lparr>v_offset := m, v_hashes := q\<rparr>)"
        using sorted Nil hq by (auto simp: verifier_update_def Let_def verifier_pop_def)
      have "windows_from 0 ((pre @ [h]) @ q) m" using Suc.prems(2) Nil m hq by (auto simp: windows_from_append)
      then have "verifier_drain n srv (v\<lparr>v_offset := m, v_hashes := q\<rparr>) = Some (q @ rest')"
        using Suc.IH[of "pre @ [h]" "v\<lparr>v_offset := m, v_hashes := q\<rparr>" rest'] Suc.prems Nil b(1) hq by simp
      then show ?thesis using upd Nil b(1) hq by (simp add: verifier_next_def verifier_pop_def judge_def)
    qed
  qed
qed simp

text \<open>A block of the verifying reader was checked against the hash at the head of the queue or the first of the batch.\<close>

lemma nextHashed_checked:
  assumes "nextHashed has cas v = Some (Inr b, v')" "b_data b \<noteq> []"
  shows "\<exists>h. verifier_next has v = Some (Inr (Some h), v') \<and> b_offset b = fh_Offset h \<and> sha256 (b_data b) = fh_Hash h \<and> \<not> block_last b"
  using assms by (auto simp: nextHashed_def verifier_verify_def block_last_def split: option.splits sum.splits if_splits)

text \<open>
  The verifying reader goes through the whole file: with a server that answers, the calls of
  \<open>next\<close> return every hash of the file once and in order, however the server cuts and orders its
  batches, and then report the end.
\<close>

theorem verifier_enumerates:
  assumes "serves_hashes srv hs fin" "windows_from 0 hs fin" "hs \<noteq> []"
  shows "verifier_drain (Suc (length hs)) srv (newVerifier []) = Some hs"
  using verifier_drain_serves[OF assms, of "[]" "newVerifier []" hs "Suc (length hs)"] by (simp add: newVerifier_def)

lemma verifier_enumerates_witness:
  "verifier_drain 3 (\<lambda>offset. if offset = 0 then [\<lparr>fh_Offset = 4, fh_Limit = 2, fh_Hash = []\<rparr>, \<lparr>fh_Offset = 0, fh_Limit = 4, fh_Hash = [1]\<rparr>]
      else if offset = 4 then [\<lparr>fh_Offset = 4, fh_Limit = 2, fh_Hash = []\<rparr>] else []) (newVerifier []) =
   Some [\<lparr>fh_Offset = 0, fh_Limit = 4, fh_Hash = [1]\<rparr>, \<lparr>fh_Offset = 4, fh_Limit = 2, fh_Hash = []\<rparr>]"
proof -
  let ?srv = "\<lambda>offset. if offset = 0 then [\<lparr>fh_Offset = 4, fh_Limit = 2, fh_Hash = []\<rparr>, \<lparr>fh_Offset = 0, fh_Limit = 4, fh_Hash = [1]\<rparr>]
      else if offset = 4 then [\<lparr>fh_Offset = 4, fh_Limit = 2, fh_Hash = []\<rparr>] else []"
  let ?hs = "[\<lparr>fh_Offset = 0, fh_Limit = 4, fh_Hash = [1]\<rparr>, \<lparr>fh_Offset = 4, fh_Limit = 2, fh_Hash = []\<rparr>] :: FileHash list"
  have "serves_hashes ?srv ?hs 6"
    unfolding serves_hashes_def
  proof (intro conjI allI impI)
    fix pre suf assume suf: "?hs = pre @ suf \<and> suf \<noteq> []"
    then have "mset (?srv (fh_Offset (hd suf))) = mset suf" by (auto simp: Cons_eq_append_conv add_mset_commute)
    then show "\<exists>batch rest. suf = batch @ rest \<and> batch \<noteq> [] \<and> mset (?srv (fh_Offset (hd suf))) = mset batch" using suf by blast
  qed simp
  from verifier_enumerates[OF this] show ?thesis by (simp add: eval_nat_numeral)
qed

end
