(* ===== verification/Spec2Isabelle.thy ===== *)
theory Spec2Isabelle
  imports Bin Codec Message_ID Proto_Messages Salts Mt_Types Mt_Exchange Mt_Service Rpc_Engine Sequence_Box Fileid Conn
    Sha Cipher Kex Exchange Exchange_Agreement Aes Mtproxy Mtproxy_Channel Transport Srp Tgerr Conn_Keys Conn_Wire Pool Uploader
    Cdn Cdn_Download Downloader
begin

text \<open>
  The core of a Telegram client library in Go (module \<open>td\<close>), from the bytes of its wire format
  to the ordering of updates. The program is a stack of packages, each of which is modelled by
  one or two theories; the definitions keep the names of the source, with the name of the
  receiver in front where it is needed, and each theory opens with the files it models.

  \<^bold>\<open>The parts and how they interact.\<close> Values are written and read by the buffer of package
  \<open>bin\<close>. Package \<open>proto\<close> builds messages from them: identifiers, containers, results, packed
  objects, plain messages; package \<open>mt\<close> (generated) has the service messages. A message is
  encrypted by package \<open>crypto\<close>, put into a frame by a codec of \<open>proto/codec\<close>, and sent over a
  connection of package \<open>transport\<close>, which may be obfuscated or disguised as TLS by package
  \<open>mtproxy\<close> and is found by \<open>telegram/dcs\<close>. The key comes from package \<open>exchange\<close>. Package
  \<open>mtproto\<close> drives all of this for one connection: it connects, numbers and sends messages,
  consumes packets and tells the request engine of package \<open>rpc\<close> what arrived; package \<open>pool\<close>
  shares several such connections among requests. Package \<open>telegram/updates\<close> puts the updates in order; \<open>crypto/srp\<close> proves a password, \<open>tgerr\<close> reads
  errors of the API, \<open>fileid\<close> encodes file identifiers and \<open>telegram/uploader\<close> and
  \<open>telegram/downloader\<close> transfer files part by part, the latter also from untrusted networks.

  \<^bold>\<open>The theories.\<close>
  \<^item> \<open>Go_Prelude\<close>: the errors of all packages as one datatype (\<open>go_error\<close>; \<open>Wrap\<close> is
    \<open>errors.Wrap\<close>, \<open>root_error\<close> is what \<open>errors.Is\<close> and \<open>errors.As\<close> look at), bytes and
    little-endian words, decoders as functions from a buffer to a result and the rest of the
    buffer, readers as the bytes still to come, writers as the bytes written with a budget
    after which they fail, and the shared lemmas and collections.
  \<^item> \<open>Bin\<close>: \<open>bin/*.go\<close>. The locale \<open>tl_field\<close> states what an encoder and a decoder of a
    field promise to each other; it is interpreted for every field type, and the round trips
    of all messages rest on these interpretations.
  \<^item> \<open>Codec\<close>: \<open>proto/codec/*.go\<close>, the four framings. The locale \<open>transport_codec\<close> turns the
    round trip of one message into that of a stream; it is interpreted for every framing
    and, in \<open>Transport\<close>, for a connection with any of them.
  \<^item> \<open>Message_ID\<close>: \<open>proto/message_id.go\<close> and the time window of \<open>mtproto/read.go\<close>.
  \<^item> \<open>Proto_Messages\<close>: \<open>proto/container.go\<close>, \<open>rpc_result.go\<close>, \<open>unencrypted_message.go\<close>, \<open>gzip.go\<close>.
  \<^item> \<open>Mt_Types\<close>, \<open>Mt_Service\<close>, \<open>Mt_Exchange\<close>: the generated messages of \<open>mt/\<close>; every
    constructor's identifier, encoder and decoder, and the class decoders.
  \<^item> \<open>Salts\<close>: \<open>mtproto/salts/salts.go\<close>, with \<open>sort.Sort\<close> as an argument of which the locale
    \<open>salt_sort\<close> states the contract.
  \<^item> \<open>Sha\<close>, \<open>Aes\<close>: SHA-1, SHA-256, HMAC, AES-256 and its counter mode from the standard library,
    executable.
  \<^item> \<open>Cipher\<close>, \<open>Kex\<close>: \<open>crypto/*.go\<close>: keys, encryption and decryption of messages; RSA with its
    paddings, factorization, checks of the Diffie-Hellman parameters and their cache.
  \<^item> \<open>Exchange\<close>, \<open>Exchange_Agreement\<close>: \<open>exchange/*.go\<close>, both sides of the key exchange as
    computations on the frames received and sent, the random source, the clock and the cache;
    the locale \<open>honest_exchange\<close> collects when the sides fit together.
  \<^item> \<open>Mtproxy\<close>, \<open>Mtproxy_Channel\<close>: \<open>mtproxy/\<close>. The locale \<open>byte_channel\<close> is the contract of a
    connection that delivers what is written, in pieces of any size; \<open>obfuscated_channel\<close>
    derives it for the obfuscated stream over any such channel, and the interpretations cover a
    network connection, the TLS camouflage and the obfuscated stream over each of them. On the
    test vectors of the repository the definitions compute the expected headers.
  \<^item> \<open>Transport\<close>: \<open>transport/*.go\<close> and \<open>telegram/dcs/{find,plain,mtproxy}.go\<close>.
  \<^item> \<open>Rpc_Engine\<close>: \<open>rpc/*.go\<close> as a transition system whose steps are the atomic actions of the
    goroutines (calls of \<open>Do\<close>, retry loops, notifications, closing), interleaved freely.
  \<^item> \<open>Conn\<close>: the state and the handlers of \<open>mtproto\<close>, with the calls to the engine, to the user
    and to the ack loop as a trace; \<open>Conn_Keys\<close>: connecting, forward secrecy and the binding
    of temporary keys; \<open>Conn_Wire\<close>: encryption and sending of messages and the read loop.
  \<^item> \<open>Sequence_Box\<close>: \<open>telegram/updates/{update,gap_check,gap_buffer,sequence_box}.go\<close>.
  \<^item> \<open>Pool\<close>: \<open>pool/{pool,pool_conn,req_map}.go\<close> as a transition system of the calls of \<open>Invoke\<close> and the
    goroutines of the connections.
  \<^item> \<open>Uploader\<close>: \<open>telegram/uploader\<close>, the loop for small files as a function and the goroutines of
    big uploads as a transition system; MD5 is executable.
  \<^item> \<open>Cdn\<close>, \<open>Cdn_Download\<close>, \<open>Downloader\<close>: \<open>telegram/downloader\<close>. \<open>Cdn\<close> has the plan of requests and the caches,
    \<open>Cdn_Download\<close> the state machine of downloads from content delivery networks, with the other
    goroutines as interference that keeps the same invariant as every operation of the model;
    \<open>Downloader\<close> the readers and the goroutines of a parallel download.
  \<^item> \<open>Srp\<close>, \<open>Tgerr\<close>, \<open>Fileid\<close>: \<open>crypto/srp\<close>, \<open>tgerr\<close> with \<open>ascii\<close>, \<open>fileid\<close>.

  \<^bold>\<open>What is shown.\<close> The exchange: two sides that fit end with the same key and salt, and a
  client accepts a key only after all checks, whoever it talks to. The cipher: what one side
  encrypts the other decrypts, and nothing is accepted whose key identifier, message key or
  lengths do not match. The transport: every framing, with or without obfuscation and
  camouflage, carries any sequence of messages, the listener detects the framing, hostile
  lengths are refused and reading is bounded by what arrives. The connection: packets have
  an effect only if they pass the checks, every kind of message has exactly its effect, requests reach the
  server and results the engine, keys are bound, dropped and renewed under the documented
  policy. The engine: a call succeeds only with its answer, handlers run at most once and
  decide what it returns unless it fails before, closing drains. The sequence box: updates with a position are applied once and in order, and the box refines
  an abstract reordering buffer. The pool: the limit on connections is kept and a connection serves one
  call at a time. Uploads: however the goroutines interleave, an upload that reports success
  has saved each part once under its number. Downloads: a parallel download that ends has written
  each part once; what comes from an untrusted node is covered by hashes of the data centre,
  and an honest network delivers the file. Field types: class decoders return typed values. The
  deviations found on the way are theorems too (named in the notes of their theories).

  \<^bold>\<open>Bounds and fuel.\<close> \<open>handleMessage\<close> has a bound on the nesting of messages and is \<open>None\<close> beyond
  it; \<open>handleMessage_depth\<close> shows that the length of the message plus 10 MiB for each level of
  packing in it is enough, and that no bound is enough for a packed object that contains
  itself. \<open>conn_ReadFull\<close> reads \<open>n\<close> bytes with at most \<open>n\<close> reads, which is enough because
  a read that returns no byte returns an error. Random sources are finite byte lists that run
  out with \<open>EOF\<close>, so loops over random draws (RSA padding, factorization, generators) end; the
  theorems state which draws suffice. The loops that send a part until it is saved consume a list of answers and
  are \<open>None\<close> when it ends; \<open>uploadSmall_complete\<close> says how many answers are enough, and
  \<open>bigLoop_not_stuck\<close> that the goroutines of a big upload never block each other. \<open>cdn_Chunk\<close> has a bound on the nesting of window loads and one on the
  rounds of a throttled request; its safety holds for all bounds, and \<open>cdn_Chunk_serves\<close> shows
  that with an honest network the smallest nesting and no round are enough. All other loops are structural or have a measure.

  \<^bold>\<open>Parameters.\<close> AES in IGE mode and the xor of slices (\<open>cipher_lib\<close> with the laws \<open>ige_inverts\<close>
  and \<open>xor_bytewise\<close>), the gzip library (\<open>gzip_lib\<close>), the primality test of \<open>math/big\<close>, PBKDF2, the
  hello of uTLS, the sorting functions; errors that the network, the context and the user's
  callbacks return; the clock.

  \<^bold>\<open>Not modelled.\<close> The generated types of \<open>tg\<close> and \<open>tlprofile\<close> (over a million lines, one pattern,
  which \<open>mt\<close> has too) and the generator \<open>gen\<close>; the wiring of \<open>telegram\<close> (client, options,
  sessions, helpers built on generated types); websockets; test servers and mocks;
  the \<open>String\<close>, \<open>TypeInfo\<close> and \<open>Zero\<close> methods; logging. Locks are not modelled where an operation
  holds its lock throughout. In \<open>mtproto\<close> the group of goroutines that \<open>Run\<close> starts and the
  tickers of the ping and salt loops are left out; the read loop runs each packet's goroutine to
  its end before the next, one of the schedules of the code.
\<close>

section \<open>Connecting and calling\<close>

lemma createAuthKey_ok:
  assumes "client_Run lib Prime \<lparr>ce_keys = o_rsaPublicKeys opt, ce_dc = o_dcID opt, ce_mode = ExchangeModePermanent, ce_expiresIn = 0\<rparr> s = (Inr r, s')"
  shows "createAuthKey lib Prime opt True k s =
    (None, k\<lparr>k_authKey := cr_AuthKey r, k_conn := (k_conn k)\<lparr>c_sessionID := cr_SessionID r, c_salt := cr_ServerSalt r\<rparr>\<rparr>, s')"
  using assms by (simp add: createAuthKey_def runExchange_def Let_def)

lemma updateSalt_none: "c_salts c = [] \<Longrightarrow> updateSalt ev c = c"
  by (simp add: updateSalt_def Salts_Get_eq)

lemma connect_new_key:
  assumes "client_Run lib Prime \<lparr>ce_keys = o_rsaPublicKeys opt, ce_dc = o_dcID opt, ce_mode = ExchangeModePermanent, ce_expiresIn = 0\<rparr> s = (Inr r, s')"
    and "\<not> o_pfs opt" "AuthKey_Zero (k_authKey k)" "c_salts (k_conn k) = []"
  shows "conn_connect lib Prime opt ev None closeErr k s =
    (None, k\<lparr>k_authKey := cr_AuthKey r, k_conn := (k_conn k)\<lparr>c_sessionID := cr_SessionID r, c_salt := cr_ServerSalt r\<rparr>\<rparr>, s')"
  using assms(2-4) by (simp add: conn_connect_def conn_session_eq updateSalt_none createAuthKey_ok[OF assms(1)])

text \<open>
  C1. A new connection can be used. A client without a key connects to a server it is configured
  for (the assumptions of the key exchange are those of \<open>exchange_agreement\<close>). Both return,
  and the connection holds the key and the salt of the server. A request that the client then
  writes over any framing arrives as one packet, which the server decrypts with the key it
  got from the exchange: it finds its own salt, the session of the client, the identifier and
  the number of the message and the request, compressed if it is longer than the threshold.
\<close>

theorem connected_request_reaches_server:
  assumes honest: "honest_exchange lib Prime \<lparr>ce_keys = o_rsaPublicKeys opt, ce_dc = o_dcID opt, ce_mode = ExchangeModePermanent, ce_expiresIn = 0\<rparr>
      srv cclk sclk cache pq dhPrime ga cr sr r1 r2 r3 r6 enc p q a b"
    and new: "\<not> o_pfs opt" "AuthKey_Zero (k_authKey k)" "c_salts (k_conn k) = []"
    and m: "length rand \<ge> 268" "appends payload m" "gzip_inflates (gz ev) m" "4 dvd length m" "0 < length m" "length m \<le> 2 ^ 22"
      "length (gw_out (gz ev) m) \<le> 2 ^ 22"
    and tr: "4 \<le> length rnd" "codec_insync (Suc j) cdc cdc'" "wbudget w = None"
  shows "\<exists>k' rs cs ss cdc1 cdc1' f rand' packet msg body.
      conn_connect lib Prime opt ev None closeErr k (start (x_out ss) cr cclk cache) = (None, k', cs)
    \<and> server_Run lib srv (start (x_out cs) sr sclk cache') = (Inr rs, ss)
    \<and> k_authKey k' = sr_Key rs \<and> c_salt (k_conn k') = sr_ServerSalt rs
    \<and> conn_write ev lib thr (k_authKey k') (Some cdc) rnd id' seq payload rand w (k_conn k')
        = (None, Some cdc1, w\<lparr>written := written w @ f\<rparr>, rand', k_conn k')
    \<and> (\<forall>rest b. Recv None None cp cdc' (f @ rest) b = (None, cdc1', rest, packet)) \<and> codec_insync j cdc1 cdc1'
    \<and> DecryptFromBuffer lib Server (sr_Key rs) packet = Inr msg
    \<and> EMD_Salt msg = sr_ServerSalt rs \<and> EMD_SessionID msg = c_sessionID (k_conn k') \<and> EMD_MessageID msg = id' \<and> EMD_SeqNo msg = seq
    \<and> EncryptedMessageData_Data msg = Inr body
    \<and> (if 0 < thr \<and> thr < int (length m) then GZIP_Decode (gz ev) [] body = (None, m, []) else body = m)"
proof -
  obtain rc rs cs ss where run: "client_Run lib Prime \<lparr>ce_keys = o_rsaPublicKeys opt, ce_dc = o_dcID opt, ce_mode = ExchangeModePermanent,
        ce_expiresIn = 0\<rparr> (start (x_out ss) cr cclk cache) = (Inr rc, cs)"
    and srv: "server_Run lib srv (start (x_out cs) sr sclk cache') = (Inr rs, ss)" "cr_AuthKey rc = sr_Key rs" "cr_ServerSalt rc = sr_ServerSalt rs"
    using honest_exchange.agreement[OF honest, of cache'] by blast
  define k' where "k' = k\<lparr>k_authKey := cr_AuthKey rc, k_conn := (k_conn k)\<lparr>c_sessionID := cr_SessionID rc, c_salt := cr_ServerSalt rc\<rparr>\<rparr>"
  have con: "conn_connect lib Prime opt ev None closeErr k (start (x_out ss) cr cclk cache) = (None, k', cs)"
    unfolding k'_def by (rule connect_new_key[OF run new])
  have k': "k_authKey k' = sr_Key rs" "c_salt (k_conn k') = sr_ServerSalt rs" "updateSalt ev (k_conn k') = k_conn k'"
    using srv(2,3) new(3) by (simp_all add: k'_def updateSalt_none)
  have "cache_ok Prime (x_cache (start (x_out ss) cr cclk cache))" using honest_exchange.par(4)[OF honest] by (simp add: start_def)
  then have id: "length (AK_ID (k_authKey k')) = 8" using client_Run_key_id[OF run] by (simp add: k'_def)
  from conn_write_travels[OF honest_exchange.lib(1)[OF honest] id m tr, where thr = thr and id' = id' and seq = seq and c = "k_conn k'" and cp = cp]
  obtain cdc1 cdc1' f rand' packet msg body where
    t: "conn_write ev lib thr (k_authKey k') (Some cdc) rnd id' seq payload rand w (k_conn k')
        = (None, Some cdc1, w\<lparr>written := written w @ f\<rparr>, rand', k_conn k')"
      "\<forall>rest b. Recv None None cp cdc' (f @ rest) b = (None, cdc1', rest, packet)" "codec_insync j cdc1 cdc1'"
      "DecryptFromBuffer lib Server (sr_Key rs) packet = Inr msg"
      "EMD_SessionID msg = c_sessionID (k_conn k')" "EMD_Salt msg = sr_ServerSalt rs" "EMD_MessageID msg = id'" "EMD_SeqNo msg = seq"
      "EncryptedMessageData_Data msg = Inr body"
      "if 0 < thr \<and> thr < int (length m) then GZIP_Decode (gz ev) [] body = (None, m, []) else body = m"
    unfolding k' by blast
  with con srv(1) k'(1,2) show ?thesis
    by - (rule exI[of _ k'], rule exI[of _ rs], rule exI[of _ cs], rule exI[of _ ss], rule exI[of _ cdc1], rule exI[of _ cdc1'], rule exI[of _ f],
      rule exI[of _ rand'], rule exI[of _ packet], rule exI[of _ msg], rule exI[of _ body], simp)
qed

definition request_example :: encoder where
  "request_example b = (None, b @ replicate 8 3)"

definition new_opts :: key_opts where
  "new_opts = \<lparr>o_dcID = 2, o_rsaPublicKeys = [sk_Public example_rsa], o_pfs = False, o_tempKeyTTL = 0\<rparr>"

definition new_kconn :: KConn where
  "new_kconn = conn_New new_opts zero_key zero_key example_conn"

theorem connected_request_reaches_server_witness:
  "\<exists>k' rs cs ss cdc1 cdc1' f rand' packet msg.
      conn_connect copy_cipher ex_prime new_opts example_env None None new_kconn (start (x_out ss) ex_cr (\<lambda>_. 1700000000000000000) ex_cache) = (None, k', cs)
    \<and> server_Run copy_cipher ex_srv (start (x_out cs) ex_sr (\<lambda>_. 1700000000000000001) ex_cache) = (Inr rs, ss)
    \<and> conn_write example_env copy_cipher 4 (k_authKey k') (Some Abridged) [0, 0, 0, 0] 9 1 request_example (replicate 268 9)
          \<lparr>written = [], wbudget = None\<rparr> (k_conn k') = (None, Some cdc1, \<lparr>written = f, wbudget = None\<rparr>, rand', k_conn k')
    \<and> Recv None None 0 Abridged f [] = (None, cdc1', [], packet)
    \<and> DecryptFromBuffer copy_cipher Server (sr_Key rs) packet = Inr msg \<and> EMD_Salt msg = sr_ServerSalt rs
    \<and> (\<exists>body. EncryptedMessageData_Data msg = Inr body \<and> GZIP_Decode store_lib [] body = (None, replicate 8 3, []))"
proof -
  let ?w = "\<lparr>written = [], wbudget = None\<rparr>"
  have al: "4 dvd length (replicate 8 3 :: bytes)" by code_simp
  have gz: "gz example_env = store_lib" by (simp add: example_env_def)
  have ap: "268 \<le> length (replicate 268 9 :: bytes)" "appends request_example (replicate 8 3)" "gzip_inflates (gz example_env) (replicate 8 3)"
    "length (gw_out (gz example_env) (replicate 8 3)) \<le> 2 ^ 22" "0 < length (replicate 8 3 :: bytes)" "length (replicate 8 3 :: bytes) \<le> 2 ^ 22"
    using store_lib_inflates[of "replicate 8 3"] by (simp_all add: appends_def request_example_def gz store_lib_def)
  have tr: "4 \<le> length [0, 0, 0, 0 :: 8 word]" "codec_insync (Suc 0) Abridged Abridged" "wbudget ?w = None" by simp_all
  have hx: "honest_exchange copy_cipher ex_prime \<lparr>ce_keys = o_rsaPublicKeys new_opts, ce_dc = o_dcID new_opts, ce_mode = ExchangeModePermanent,
      ce_expiresIn = 0\<rparr> ex_srv (\<lambda>_. 1700000000000000000) (\<lambda>_. 1700000000000000001) ex_cache 15 test_dh_prime
      (ga_loop 3 test_dh_prime) ex_cr ex_sr ex_r1 ex_r2 ex_r3 ex_r6 ex_enc 3 5 1260 1260"
    using ex.honest_exchange_axioms by (simp add: new_opts_def ex_client_def)
  have new: "\<not> o_pfs new_opts" "AuthKey_Zero (k_authKey new_kconn)" "c_salts (k_conn new_kconn) = []"
    by (simp_all add: new_opts_def new_kconn_def conn_New_def zero_key_def AuthKey_Zero_def example_conn_def)
  from connected_request_reaches_server[OF hx new ap(1-3) al ap(5,6,4) tr, where thr = 4 and id' = 9 and seq = 1 and cp = 0 and closeErr = None
      and cache' = ex_cache]
  obtain k' rs cs ss cdc1 cdc1' f rand' packet msg body where
    "conn_connect copy_cipher ex_prime new_opts example_env None None new_kconn (start (x_out ss) ex_cr (\<lambda>_. 1700000000000000000) ex_cache) = (None, k', cs)"
    "server_Run copy_cipher ex_srv (start (x_out cs) ex_sr (\<lambda>_. 1700000000000000001) ex_cache) = (Inr rs, ss)"
    "conn_write example_env copy_cipher 4 (k_authKey k') (Some Abridged) [0, 0, 0, 0] 9 1 request_example (replicate 268 9) ?w (k_conn k')
        = (None, Some cdc1, ?w\<lparr>written := written ?w @ f\<rparr>, rand', k_conn k')"
    "\<forall>rest b. Recv None None 0 Abridged (f @ rest) b = (None, cdc1', rest, packet)"
    "DecryptFromBuffer copy_cipher Server (sr_Key rs) packet = Inr msg" "EMD_Salt msg = sr_ServerSalt rs" "EncryptedMessageData_Data msg = Inr body"
    "if 0 < (4::int) \<and> 4 < int (length (replicate 8 3 :: bytes)) then GZIP_Decode (gz example_env) [] body = (None, replicate 8 3, [])
       else body = replicate 8 3" by blast
  moreover from this(4) have "Recv None None 0 Abridged f [] = (None, cdc1', [], packet)" by (metis append_Nil2)
  ultimately show ?thesis unfolding gz
    by - (rule exI[of _ k'], rule exI[of _ rs], rule exI[of _ cs], rule exI[of _ ss], rule exI[of _ cdc1], rule exI[of _ cdc1'], rule exI[of _ f],
      rule exI[of _ rand'], rule exI[of _ packet], rule exI[of _ msg], simp)
qed

end
